(* ===== verification/Prelude.thy ===== *)
theory Prelude
  imports Main "HOL-Library.Code_Target_Nat"
begin

text \<open>
  The JavaScript base every component shares: strings as \<open>char\<close> lists (one \<open>char\<close> per code
  unit, so code units up to \<open>0xFF\<close>), byte arrays as \<open>char\<close> lists (one \<open>char\<close> per byte),
  and the string operations the sources call: \<open>indexOf\<close>, \<open>slice\<close>, \<open>split\<close>, \<open>trim\<close>,
  \<open>toUpperCase\<close>, \<open>toLowerCase\<close>, \<open>join\<close>, \<open>String(n)\<close> and \<open>Number(s)\<close>. An index that JavaScript
  reports as \<open>-1\<close> is \<open>None\<close> here. Numbers the sources use as counts and sizes are \<open>nat\<close>.

  The collection \<open>js_simps\<close> gathers the rewrite rules that component proofs use.
\<close>

named_theorems js_simps \<open>rewrite rules for the JavaScript string and list operations\<close>

type_synonym bytes = "char list"

section \<open>Characters\<close>

abbreviation code :: "char \<Rightarrow> nat" where
  "code c \<equiv> of_char c"

abbreviation CR :: char where "CR \<equiv> CHR 0x0D"
abbreviation LF :: char where "LF \<equiv> CHR 0x0A"
abbreviation DOT :: char where "DOT \<equiv> CHR 0x2E"
abbreviation SP :: char where "SP \<equiv> CHR 0x20"
abbreviation TAB :: char where "TAB \<equiv> CHR 0x09"
abbreviation CRLF :: "char list" where "CRLF \<equiv> [CR, LF]"

definition is_digit :: "char \<Rightarrow> bool" where
  "is_digit c \<longleftrightarrow> 48 \<le> code c \<and> code c \<le> 57"

text \<open>The white space of \<open>String.prototype.trim\<close> and of \<open>\s\<close>, restricted to code units up to \<open>0xFF\<close>.\<close>

definition is_space :: "char \<Rightarrow> bool" where
  "is_space c \<longleftrightarrow> (9 \<le> code c \<and> code c \<le> 13) \<or> code c = 32 \<or> code c = 160"

text \<open>
  Case mapping on code units up to \<open>0xFF\<close>. Lower case is exact there. Upper case maps
  \<open>0xDF\<close> (sharp s) to the two letters \<open>SS\<close>; \<open>0xB5\<close> and \<open>0xFF\<close>, whose capitals lie above
  \<open>0xFF\<close>, are left alone.
\<close>

definition lower_char :: "char \<Rightarrow> char" where
  "lower_char c =
     (let n = code c in
      if (65 \<le> n \<and> n \<le> 90) \<or> (192 \<le> n \<and> n \<le> 222 \<and> n \<noteq> 215) then char_of (n + 32) else c)"

definition upper_char :: "char \<Rightarrow> char list" where
  "upper_char c =
     (let n = code c in
      if (97 \<le> n \<and> n \<le> 122) \<or> (224 \<le> n \<and> n \<le> 254 \<and> n \<noteq> 247) then [char_of (n - 32)]
      else if n = 223 then ''SS'' else [c])"

section \<open>Strings\<close>

definition toLowerCase :: "string \<Rightarrow> string" where
  "toLowerCase s = map lower_char s"

definition toUpperCase :: "string \<Rightarrow> string" where
  "toUpperCase s = concat (map upper_char s)"

definition trim :: "string \<Rightarrow> string" where
  "trim s = rev (dropWhile is_space (rev (dropWhile is_space s)))"

definition slice :: "nat \<Rightarrow> nat \<Rightarrow> 'a list \<Rightarrow> 'a list" where
  "slice i j xs = take (j - i) (drop i xs)"

fun find_index :: "('a \<Rightarrow> bool) \<Rightarrow> 'a list \<Rightarrow> nat option" where
  "find_index P [] = None"
| "find_index P (x # xs) = (if P x then Some 0 else map_option Suc (find_index P xs))"

abbreviation indexOf :: "'a \<Rightarrow> 'a list \<Rightarrow> nat option" where
  "indexOf c s \<equiv> find_index (\<lambda>x. x = c) s"

fun startsWith :: "'a list \<Rightarrow> 'a list \<Rightarrow> bool" where
  "startsWith [] s = True"
| "startsWith (p # ps) [] = False"
| "startsWith (p # ps) (c # cs) = (p = c \<and> startsWith ps cs)"

text \<open>\<open>indexOf\<close> with a string argument.\<close>

fun sub_index :: "'a list \<Rightarrow> 'a list \<Rightarrow> nat option" where
  "sub_index pat [] = (if pat = [] then Some 0 else None)"
| "sub_index pat (c # cs) =
     (if startsWith pat (c # cs) then Some 0 else map_option Suc (sub_index pat cs))"

definition endsWith :: "'a list \<Rightarrow> 'a list \<Rightarrow> bool" where
  "endsWith suf s \<longleftrightarrow> startsWith (rev suf) (rev s)"

text \<open>\<open>split\<close> at a one-character separator, and \<open>join\<close>.\<close>

fun split_char :: "'a \<Rightarrow> 'a list \<Rightarrow> 'a list list" where
  "split_char c [] = [[]]"
| "split_char c (x # xs) =
     (if x = c then [] # split_char c xs
      else (case split_char c xs of [] \<Rightarrow> [[x]] | w # ws \<Rightarrow> (x # w) # ws))"

fun join :: "'a list \<Rightarrow> 'a list list \<Rightarrow> 'a list" where
  "join sep [] = []"
| "join sep [w] = w"
| "join sep (w # ws) = w @ sep @ join sep ws"

text \<open>\<open>split(/\s+/)\<close>.\<close>

function split_ws :: "string \<Rightarrow> string list" where
  "split_ws s =
     (let w = takeWhile (\<lambda>c. \<not> is_space c) s; r = dropWhile (\<lambda>c. \<not> is_space c) s
      in if r = [] then [w] else w # split_ws (dropWhile is_space r))"
  by pat_completeness auto
termination
proof (relation "measure length", goal_cases)
  case (2 s w r)
  then obtain a as where r: "r = a # as" by (metis list.exhaust)
  have "is_space a" using 2 r by (metis hd_dropWhile list.sel(1))
  then have "length (dropWhile is_space r) \<le> length as"
    by (simp add: r length_dropWhile_le)
  also have "length as < length s"
    using 2 r length_dropWhile_le [of "\<lambda>c. \<not> is_space c" s] by (metis Suc_le_lessD length_Cons)
  finally show ?case by simp
qed simp

declare split_ws.simps [simp del]

section \<open>Numbers\<close>

text \<open>\<open>String(n)\<close> for a natural number.\<close>

fun show_nat :: "nat \<Rightarrow> string" where
  "show_nat n = (if n < 10 then [char_of (48 + n)] else show_nat (n div 10) @ [char_of (48 + n mod 10)])"

declare show_nat.simps [simp del]

text \<open>\<open>/^\d+$/\<close> and \<open>Number(s)\<close> on the strings it accepts.\<close>

definition all_digits :: "string \<Rightarrow> bool" where
  "all_digits s \<longleftrightarrow> s \<noteq> [] \<and> list_all is_digit s"

definition digits_value :: "string \<Rightarrow> nat" where
  "digits_value s = foldl (\<lambda>n c. 10 * n + (code c - 48)) 0 s"

text \<open>\<open>Number.isSafeInteger\<close> is a comparison with this bound.\<close>

definition MAX_SAFE_INTEGER :: nat where
  "MAX_SAFE_INTEGER = 9007199254740991"

text \<open>A digit of \<open>toString(16)\<close>.\<close>

definition hexChar :: "nat \<Rightarrow> char" where
  "hexChar n = (if n < 10 then char_of (48 + n) else char_of (87 + n))"

section \<open>Shared lemmas\<close>

lemma ex_le_Suc_iff: "(\<exists>i \<le> Suc n. P i) \<longleftrightarrow> P 0 \<or> (\<exists>i \<le> n. P (Suc i))"
  by (metis Suc_le_mono le0 not0_implies_Suc)

lemma ex_split_Cons:
  "(\<exists>u w. h # hs = u @ w \<and> P u w) \<longleftrightarrow> P [] (h # hs) \<or> (\<exists>u w. hs = u @ w \<and> P (h # u) w)"
  by (auto simp: Cons_eq_append_conv)

lemma find_index_None_iff [js_simps]: "find_index P xs = None \<longleftrightarrow> (\<forall>x \<in> set xs. \<not> P x)"
  by (induction xs) auto

lemma find_index_SomeD:
  "find_index P xs = Some i \<Longrightarrow> i < length xs \<and> P (xs ! i) \<and> (\<forall>j < i. \<not> P (xs ! j))"
proof (induction xs arbitrary: i)
  case (Cons x xs)
  then show ?case by (cases i) (auto simp: nth_Cons split: if_splits nat.splits)
qed simp

lemma find_index_append_first:
  "\<forall>x \<in> set xs. \<not> P x \<Longrightarrow> P y \<Longrightarrow> find_index P (xs @ y # ys) = Some (length xs)"
  by (induction xs) auto

lemma split_char_not_Nil [simp]: "split_char c xs \<noteq> []"
  by (induction xs) (auto split: list.splits)

lemma join_Cons [js_simps]: "ws \<noteq> [] \<Longrightarrow> join sep (w # ws) = w @ sep @ join sep ws"
  by (cases ws) auto

text \<open>Joining the pieces of a split with the separator gives the string back.\<close>

lemma join_split_char [js_simps]: "join [c] (split_char c xs) = xs"
proof (induction xs)
  case (Cons x xs)
  obtain w ws where w: "split_char c xs = w # ws"
    by (meson neq_Nil_conv split_char_not_Nil)
  with Cons show ?case by (cases ws) auto
qed simp

lemma split_char_nosep: "c \<notin> set xs \<Longrightarrow> split_char c xs = [xs]"
  by (induction xs) auto

lemma split_char_append:
  "c \<notin> set xs \<Longrightarrow> split_char c (xs @ c # ys) = xs # split_char c ys"
  by (induction xs) auto

lemma split_char_parts: "w \<in> set (split_char c xs) \<Longrightarrow> c \<notin> set w"
proof (induction xs arbitrary: w)
  case (Cons x xs)
  obtain v vs where v: "split_char c xs = v # vs"
    by (meson neq_Nil_conv split_char_not_Nil)
  with Cons show ?case by (auto split: if_splits)
qed simp

text \<open>Splitting what was joined gives the pieces back, when no piece holds the separator.\<close>

lemma split_join:
  "ws \<noteq> [] \<Longrightarrow> \<forall>w \<in> set ws. c \<notin> set w \<Longrightarrow> split_char c (join [c] ws) = ws"
proof (induction ws)
  case (Cons w ws)
  then show ?case
    by (cases "ws = []") (auto simp: split_char_nosep join_Cons split_char_append)
qed simp

lemma startsWith_append [simp]: "startsWith xs (xs @ ys)"
  by (induction xs) auto

lemma startsWith_iff: "startsWith p s \<longleftrightarrow> (\<exists>r. s = p @ r)"
  by (induction p s rule: startsWith.induct) auto

lemma sub_index_bound: "sub_index pat s = Some i \<Longrightarrow> i + length pat \<le> length s"
proof (induction s arbitrary: i)
  case (Cons c cs)
  then show ?case by (auto simp: startsWith_iff split: if_splits) (metis length_Cons length_append le_add1)
qed (auto split: if_splits)

lemma length_toLowerCase [simp]: "length (toLowerCase s) = length s"
  by (simp add: toLowerCase_def)

lemma is_digit_char_of: "(n::nat) < 10 \<Longrightarrow> is_digit (char_of (48 + n))"
  by (simp add: is_digit_def)

lemma show_nat_not_Nil [simp]: "show_nat n \<noteq> []"
  by (subst show_nat.simps) simp

lemma show_nat_digits: "list_all is_digit (show_nat n)"
proof (induction n rule: show_nat.induct)
  case (1 n)
  then show ?case
    by (subst show_nat.simps) (auto simp: is_digit_char_of)
qed

lemma all_digits_show_nat [simp]: "all_digits (show_nat n)"
  by (simp add: all_digits_def show_nat_digits)

lemma digits_value_snoc: "digits_value (s @ [c]) = 10 * digits_value s + (code c - 48)"
  by (simp add: digits_value_def)

lemma digits_value_show_nat [simp]: "digits_value (show_nat n) = n"
proof (induction n rule: show_nat.induct)
  case (1 n)
  show ?case
  proof (cases "n < 10")
    case True
    then show ?thesis by (subst show_nat.simps) (simp add: digits_value_def)
  next
    case False
    with 1 have "digits_value (show_nat (n div 10)) = n div 10" by simp
    with False show ?thesis by (subst show_nat.simps) (simp add: digits_value_snoc)
  qed
qed

lemma show_nat_no_char: "\<not> is_digit c \<Longrightarrow> c \<notin> set (show_nat n)"
  using show_nat_digits [of n] by (auto simp: list_all_iff)

lemma show_nat_inj: "show_nat m = show_nat n \<Longrightarrow> m = n"
  by (metis digits_value_show_nat)

end
