(* ===== verification/Glob.thy ===== *)
theory Glob
  imports Prelude
begin

text \<open>
  The wildcard matcher of \<open>packages/core/src/glob.ts\<close> (shared by IMAP \<open>LIST\<close> and Sieve
  \<open>:matches\<close>) and the mailbox-name helpers of \<open>packages/proto-imap/src/list-match.ts\<close>.
  \<open>matchTokens\<close> is the source's dynamic programme over one row of reachable positions,
  \<open>globCaptures\<close> the backward table with the greedy reconstruction. The reference
  semantics \<open>gm\<close> says which strings a token list denotes; the lemmas show that the row
  programme decides it, that the tokenizer's collapsing of adjacent stars is harmless, and
  that the captures put back into the pattern give the value again and are greedy.
\<close>

section \<open>The model\<close>

record glob_syntax =
  star :: char
  starWithin :: "char option"
  boundary :: "char option"
  single :: "char option"
  escape :: "char option"
  caseInsensitive :: bool

definition imapListSyntax :: "char \<Rightarrow> glob_syntax" where
  "imapListSyntax delimiter =
     \<lparr>star = CHR ''*'', starWithin = Some (CHR ''%''), boundary = Some delimiter,
      single = None, escape = None, caseInsensitive = False\<rparr>"

definition SIEVE_MATCH_SYNTAX :: glob_syntax where
  "SIEVE_MATCH_SYNTAX =
     \<lparr>star = CHR ''*'', starWithin = None, boundary = None, single = Some (CHR ''?''),
      escape = Some (CHR 0x5C), caseInsensitive = True\<rparr>"

datatype token = Literal char | Star | StarWithin | Single

fun tokenize_loop :: "glob_syntax \<Rightarrow> string \<Rightarrow> token list \<Rightarrow> token list" where
  "tokenize_loop syn [] out = out"
| "tokenize_loop syn (ch # rest) out =
     (if escape syn = Some ch then
        (case rest of [] \<Rightarrow> out | n # rest' \<Rightarrow> tokenize_loop syn rest' (out @ [Literal n]))
      else if ch = star syn then
        (if out \<noteq> [] \<and> last out = Star then tokenize_loop syn rest out
         else tokenize_loop syn rest (out @ [Star]))
      else if starWithin syn = Some ch then tokenize_loop syn rest (out @ [StarWithin])
      else if single syn = Some ch then tokenize_loop syn rest (out @ [Single])
      else tokenize_loop syn rest (out @ [Literal ch]))"

definition tokenize :: "string \<Rightarrow> glob_syntax \<Rightarrow> token list" where
  "tokenize pattern syn = tokenize_loop syn pattern []"

definition hayOf :: "glob_syntax \<Rightarrow> string \<Rightarrow> string" where
  "hayOf syn value = (if caseInsensitive syn then toLowerCase value else value)"

definition litOf :: "glob_syntax \<Rightarrow> char \<Rightarrow> char" where
  "litOf syn ch = (if caseInsensitive syn then lower_char ch else ch)"

text \<open>
  One row per token: entry \<open>j\<close> of a row says whether the tokens so far consume the first
  \<open>j\<close> characters. \<open>scanOr\<close> is the running disjunction of a \<open>*\<close>, \<open>scanWithin\<close> the one of a
  \<open>%\<close>, which restarts after the boundary character.
\<close>

fun scanOr :: "bool \<Rightarrow> bool list \<Rightarrow> bool list" where
  "scanOr run [] = []"
| "scanOr run (p # ps) = (let r = run \<or> p in r # scanOr r ps)"

fun scanWithin :: "char option \<Rightarrow> bool \<Rightarrow> bool list \<Rightarrow> string \<Rightarrow> bool list" where
  "scanWithin bd run (p # ps) (h # hs) =
     (let r = (if bd = Some h then p else run \<or> p) in r # scanWithin bd r ps hs)"
| "scanWithin bd run _ _ = []"

fun rowStep :: "glob_syntax \<Rightarrow> string \<Rightarrow> bool list \<Rightarrow> token \<Rightarrow> bool list" where
  "rowStep syn hay prev (Literal c) =
     False # map (\<lambda>(p, h). p \<and> h = litOf syn c) (zip prev hay)"
| "rowStep syn hay prev Single = False # map fst (zip prev hay)"
| "rowStep syn hay prev Star = scanOr False prev"
| "rowStep syn hay prev StarWithin =
     (case prev of [] \<Rightarrow> [] | p # ps \<Rightarrow> p # scanWithin (boundary syn) p ps hay)"

fun matchLoop :: "glob_syntax \<Rightarrow> string \<Rightarrow> bool list \<Rightarrow> token list \<Rightarrow> bool" where
  "matchLoop syn hay prev [] = prev ! length hay"
| "matchLoop syn hay prev (tok # toks) =
     (let cur = rowStep syn hay prev tok
      in if True \<in> set cur then matchLoop syn hay cur toks else False)"

definition matchTokens :: "token list \<Rightarrow> string \<Rightarrow> glob_syntax \<Rightarrow> bool" where
  "matchTokens tokens value syn =
     matchLoop syn (hayOf syn value) (True # replicate (length value) False) tokens"

definition globMatch :: "string \<Rightarrow> string \<Rightarrow> glob_syntax \<Rightarrow> bool" where
  "globMatch pattern value syn = matchTokens (tokenize pattern syn) value syn"

definition compileGlob :: "string \<Rightarrow> glob_syntax \<Rightarrow> string \<Rightarrow> bool" where
  "compileGlob pattern syn = (let tokens = tokenize pattern syn in (\<lambda>value. matchTokens tokens value syn))"

subsection \<open>Captures\<close>

definition MAX_CAPTURE_CELLS :: nat where
  "MAX_CAPTURE_CELLS = 1000000"

text \<open>The backward table, one row per token, built from the row of the next token.\<close>

fun backWithin :: "char option \<Rightarrow> bool list \<Rightarrow> string \<Rightarrow> bool list" where
  "backWithin bd (p # ps) (h # hs) =
     (let rest = backWithin bd ps hs
      in (if bd = Some h then p else hd rest \<or> p) # rest)"
| "backWithin bd ps [] = ps"
| "backWithin bd [] hs = []"

fun backRow :: "glob_syntax \<Rightarrow> string \<Rightarrow> token \<Rightarrow> bool list \<Rightarrow> bool list" where
  "backRow syn hay (Literal c) nxt =
     map (\<lambda>(h, p). h = litOf syn c \<and> p) (zip hay (tl nxt)) @ [False]"
| "backRow syn hay Single nxt = tl nxt @ [False]"
| "backRow syn hay Star nxt = rev (scanOr False (rev nxt))"
| "backRow syn hay StarWithin nxt = backWithin (boundary syn) nxt hay"

fun canFinish :: "glob_syntax \<Rightarrow> string \<Rightarrow> token list \<Rightarrow> bool list list" where
  "canFinish syn hay [] = [replicate (length hay) False @ [True]]"
| "canFinish syn hay (t # ts) =
     (let rows = canFinish syn hay ts in backRow syn hay t (hd rows) # rows)"

text \<open>The greedy scan for the end of a wildcard, downwards from the end of the value.\<close>

definition endOk :: "glob_syntax \<Rightarrow> string \<Rightarrow> token \<Rightarrow> bool list \<Rightarrow> nat \<Rightarrow> nat \<Rightarrow> bool" where
  "endOk syn hay tok nxt j k \<longleftrightarrow>
     nxt ! k \<and>
     \<not> (tok = StarWithin \<and> (case boundary syn of None \<Rightarrow> False | Some b \<Rightarrow> b \<in> set (slice j k hay)))"

fun lastEnd :: "glob_syntax \<Rightarrow> string \<Rightarrow> token \<Rightarrow> bool list \<Rightarrow> nat \<Rightarrow> nat \<Rightarrow> nat" where
  "lastEnd syn hay tok nxt j 0 = j"
| "lastEnd syn hay tok nxt j (Suc d) =
     (if endOk syn hay tok nxt j (j + d) then j + d else lastEnd syn hay tok nxt j d)"

fun captureLoop :: "glob_syntax \<Rightarrow> string \<Rightarrow> string \<Rightarrow> token list \<Rightarrow> bool list list \<Rightarrow> nat \<Rightarrow> string list" where
  "captureLoop syn hay value [] rows j = []"
| "captureLoop syn hay value (tok # toks) rows j =
     (case tok of
        Literal c \<Rightarrow> captureLoop syn hay value toks (tl rows) (j + 1)
      | Single \<Rightarrow> slice j (j + 1) value # captureLoop syn hay value toks (tl rows) (j + 1)
      | _ \<Rightarrow> (let end = lastEnd syn hay tok (hd (tl rows)) j (Suc (length value) - j)
              in slice j end value # captureLoop syn hay value toks (tl rows) end))"

record glob_capture_result =
  matched :: bool
  captures :: "string list"

definition globCaptures :: "string \<Rightarrow> string \<Rightarrow> glob_syntax \<Rightarrow> glob_capture_result" where
  "globCaptures pattern value syn =
     (let tokens = tokenize pattern syn; n = length tokens; m = length value in
      if (n + 1) * (m + 1) > MAX_CAPTURE_CELLS
      then \<lparr>matched = matchTokens tokens value syn, captures = []\<rparr>
      else
        (let hay = hayOf syn value; rows = canFinish syn hay tokens in
         if \<not> hd rows ! 0 then \<lparr>matched = False, captures = []\<rparr>
         else \<lparr>matched = True, captures = captureLoop syn hay value tokens rows 0\<rparr>))"

subsection \<open>Mailbox names\<close>

definition HIERARCHY_DELIMITER :: char where
  "HIERARCHY_DELIMITER = CHR ''/''"

definition LIST_SYNTAX :: glob_syntax where
  "LIST_SYNTAX = imapListSyntax HIERARCHY_DELIMITER"

definition normalizeMailboxName :: "string \<Rightarrow> string" where
  "normalizeMailboxName name =
     (let segs = split_char HIERARCHY_DELIMITER name;
          segs' = (case segs of [] \<Rightarrow> []
                   | s # ss \<Rightarrow> (if s \<noteq> [] \<and> toUpperCase s = ''INBOX'' then ''INBOX'' # ss else s # ss))
      in join [HIERARCHY_DELIMITER] segs')"

definition joinListPattern :: "string \<Rightarrow> string \<Rightarrow> string" where
  "joinListPattern ref pattern =
     (if length ref = 0 then pattern
      else if endsWith [HIERARCHY_DELIMITER] ref then ref @ pattern
      else ref @ [HIERARCHY_DELIMITER] @ pattern)"

definition compileListPattern :: "string \<Rightarrow> string \<Rightarrow> bool" where
  "compileListPattern pattern = compileGlob pattern LIST_SYNTAX"

definition matchesListPattern :: "string \<Rightarrow> string \<Rightarrow> bool" where
  "matchesListPattern pattern name = compileGlob pattern LIST_SYNTAX name"

definition replaceAllChar :: "char \<Rightarrow> string \<Rightarrow> string \<Rightarrow> string" where
  "replaceAllChar c r s = concat (map (\<lambda>x. if x = c then r else [x]) s)"

definition quoteMailboxName :: "string \<Rightarrow> string" where
  "quoteMailboxName name =
     [CHR 0x22] @ replaceAllChar (CHR 0x22) [CHR 0x5C, CHR 0x22]
        (replaceAllChar (CHR 0x5C) [CHR 0x5C, CHR 0x5C] name) @ [CHR 0x22]"

definition roleToAttribute :: "string option \<Rightarrow> string option" where
  "roleToAttribute role =
     (case role of None \<Rightarrow> None
      | Some r \<Rightarrow> (if r = [] then None else
          map_of [(''sent'', CHR 0x5C # ''Sent''), (''trash'', CHR 0x5C # ''Trash''),
                  (''junk'', CHR 0x5C # ''Junk''), (''drafts'', CHR 0x5C # ''Drafts''),
                  (''archive'', CHR 0x5C # ''Archive'')] (toLowerCase r)))"

section \<open>The reference semantics\<close>

text \<open>What one token consumes, and what a token list denotes.\<close>

fun tokm :: "glob_syntax \<Rightarrow> token \<Rightarrow> string \<Rightarrow> bool" where
  "tokm syn (Literal c) u \<longleftrightarrow> u = [litOf syn c]"
| "tokm syn Single u \<longleftrightarrow> length u = 1"
| "tokm syn Star u \<longleftrightarrow> True"
| "tokm syn StarWithin u \<longleftrightarrow> (\<forall>b. boundary syn = Some b \<longrightarrow> b \<notin> set u)"

fun gm :: "glob_syntax \<Rightarrow> token list \<Rightarrow> string \<Rightarrow> bool" where
  "gm syn [] v \<longleftrightarrow> v = []"
| "gm syn (t # ts) v \<longleftrightarrow> (\<exists>u w. v = u @ w \<and> tokm syn t u \<and> gm syn ts w)"

text \<open>The tokens of a pattern before adjacent stars are collapsed.\<close>

fun plainTokens :: "glob_syntax \<Rightarrow> string \<Rightarrow> token list" where
  "plainTokens syn [] = []"
| "plainTokens syn (ch # rest) =
     (if escape syn = Some ch then
        (case rest of [] \<Rightarrow> [] | n # rest' \<Rightarrow> Literal n # plainTokens syn rest')
      else if ch = star syn then Star # plainTokens syn rest
      else if starWithin syn = Some ch then StarWithin # plainTokens syn rest
      else if single syn = Some ch then Single # plainTokens syn rest
      else Literal ch # plainTokens syn rest)"

section \<open>Lemmas\<close>

lemma gm_append: "gm syn (ts @ ts') v \<longleftrightarrow> (\<exists>u w. v = u @ w \<and> gm syn ts u \<and> gm syn ts' w)"
proof (induction ts arbitrary: v)
  case (Cons t ts)
  show ?case
  proof
    assume "gm syn ((t # ts) @ ts') v"
    then obtain u w where 1: "v = u @ w" "tokm syn t u" "gm syn (ts @ ts') w" by auto
    from 1(3) Cons.IH obtain x y where 2: "w = x @ y" "gm syn ts x" "gm syn ts' y" by auto
    have "v = (u @ x) @ y" "gm syn (t # ts) (u @ x)" using 1 2 by auto
    with 2(3) show "\<exists>u w. v = u @ w \<and> gm syn (t # ts) u \<and> gm syn ts' w" by blast
  next
    assume "\<exists>u w. v = u @ w \<and> gm syn (t # ts) u \<and> gm syn ts' w"
    then obtain x u w where "v = x @ u @ w" "tokm syn t x" "gm syn ts u" "gm syn ts' w" by auto
    with Cons.IH show "gm syn ((t # ts) @ ts') v" by auto
  qed
qed simp

lemma gm_snoc: "gm syn (ts @ [t]) v \<longleftrightarrow> (\<exists>u w. v = u @ w \<and> gm syn ts u \<and> tokm syn t w)"
  by (auto simp: gm_append)

text \<open>The row of a token list: entry \<open>j\<close> is its verdict on the first \<open>j\<close> characters.\<close>

definition row :: "glob_syntax \<Rightarrow> string \<Rightarrow> token list \<Rightarrow> bool list" where
  "row syn hay ts = map (\<lambda>j. gm syn ts (take j hay)) [0..<Suc (length hay)]"

lemma length_row [simp]: "length (row syn hay ts) = Suc (length hay)"
  by (simp add: row_def)

lemma nth_row [simp]: "j \<le> length hay \<Longrightarrow> row syn hay ts ! j = gm syn ts (take j hay)"
  by (simp add: row_def del: upt_Suc)

lemma length_scanOr [simp]: "length (scanOr r ps) = length ps"
  by (induction ps arbitrary: r) (auto simp: Let_def)

lemma nth_scanOr: "j < length ps \<Longrightarrow> scanOr r ps ! j = (r \<or> (\<exists>i \<le> j. ps ! i))"
proof (induction ps arbitrary: r j)
  case (Cons p ps)
  then show ?case by (cases j) (simp_all add: Let_def ex_le_Suc_iff disj_assoc)
qed simp

lemma length_scanWithin [simp]: "length (scanWithin bd r ps hs) = min (length ps) (length hs)"
  by (induction bd r ps hs rule: scanWithin.induct) (auto simp: Let_def)

lemma nth_scanWithin:
  "j < length ps \<Longrightarrow> j < length hs \<Longrightarrow>
   scanWithin bd r ps hs ! j =
     ((r \<and> (\<forall>b. bd = Some b \<longrightarrow> b \<notin> set (take (Suc j) hs))) \<or>
      (\<exists>i \<le> j. ps ! i \<and> (\<forall>b. bd = Some b \<longrightarrow> b \<notin> set (take (j - i) (drop (Suc i) hs)))))"
proof (induction bd r ps hs arbitrary: j rule: scanWithin.induct)
  case (1 bd run p ps h hs)
  then show ?case
    by (cases j) (auto simp: Let_def ex_le_Suc_iff)
qed auto

text \<open>Splitting a prefix of the value: where one token's share begins.\<close>

lemma gm_snoc_take:
  assumes "j \<le> length hay"
  shows "gm syn (ts @ [t]) (take j hay) \<longleftrightarrow>
    (\<exists>i \<le> j. gm syn ts (take i hay) \<and> tokm syn t (take (j - i) (drop i hay)))"
proof
  assume "gm syn (ts @ [t]) (take j hay)"
  then obtain u w where s: "take j hay = u @ w" and g: "gm syn ts u" "tokm syn t w"
    by (auto simp: gm_snoc)
  have l: "length u \<le> j" using arg_cong [OF s, of length] by simp
  have "u = take (length u) hay" "w = take (j - length u) (drop (length u) hay)"
    using s l by (metis append_eq_conv_conj take_take min.absorb1, metis append_eq_conv_conj drop_take s)
  with g l show "\<exists>i \<le> j. gm syn ts (take i hay) \<and> tokm syn t (take (j - i) (drop i hay))"
    by metis
next
  assume "\<exists>i \<le> j. gm syn ts (take i hay) \<and> tokm syn t (take (j - i) (drop i hay))"
  then obtain i where i: "i \<le> j" "gm syn ts (take i hay)" "tokm syn t (take (j - i) (drop i hay))"
    by blast
  have "take j hay = take i hay @ take (j - i) (drop i hay)"
    using i(1) by (metis le_add_diff_inverse take_add)
  with i show "gm syn (ts @ [t]) (take j hay)" by (auto simp: gm_snoc)
qed

lemma take_drop_single:
  assumes "k \<le> j" "j \<le> length xs"
  shows "take (j - k) (drop k xs) = [x] \<longleftrightarrow> j = Suc k \<and> xs ! k = x"
proof
  assume a: "take (j - k) (drop k xs) = [x]"
  then have "length (take (j - k) (drop k xs)) = 1" by simp
  then have "j - k = 1" using assms by simp
  then have j: "j = Suc k" by simp
  with a assms have "[xs ! k] = [x]" by (simp add: take_Suc_conv_app_nth [of 0, simplified])
  with j show "j = Suc k \<and> xs ! k = x" by simp
qed (use assms in \<open>auto simp: take_Suc_conv_app_nth [of 0, simplified]\<close>)

lemma row_unfold: "row syn hay ts = gm syn ts [] # map (\<lambda>j. gm syn ts (take (Suc j) hay)) [0..<length hay]"
  unfolding row_def by (subst upt_conv_Cons) (simp_all add: map_Suc_upt [symmetric] del: upt_Suc map_Suc_upt)

lemma rowStep_StarWithin:
  assumes "j \<le> length hay"
  shows "rowStep syn hay (row syn hay ts) StarWithin ! j =
    (\<exists>i \<le> j. gm syn ts (take i hay) \<and> tokm syn StarWithin (take (j - i) (drop i hay)))"
proof (cases j)
  case 0
  then show ?thesis by (simp add: row_unfold)
next
  case (Suc k)
  with assms show ?thesis
    by (simp add: row_unfold nth_scanWithin ex_le_Suc_iff conj_commute cong: conj_cong)
qed

lemma rowStep_row: "rowStep syn hay (row syn hay ts) t = row syn hay (ts @ [t])"
proof (rule nth_equalityI)
  show len: "length (rowStep syn hay (row syn hay ts) t) = length (row syn hay (ts @ [t]))"
    by (cases t) (simp_all add: row_unfold Let_def)
  fix j assume "j < length (rowStep syn hay (row syn hay ts) t)"
  with len have j: "j \<le> length hay" by simp
  have R: "row syn hay (ts @ [t]) ! j =
      (\<exists>i \<le> j. gm syn ts (take i hay) \<and> tokm syn t (take (j - i) (drop i hay)))"
    using j by (simp add: gm_snoc_take)
  show "rowStep syn hay (row syn hay ts) t ! j = row syn hay (ts @ [t]) ! j"
  proof (cases t)
    case (Literal c)
    then have "row syn hay (ts @ [t]) ! j =
        (\<exists>i \<le> j. gm syn ts (take i hay) \<and> j = Suc i \<and> hay ! i = litOf syn c)"
      using R j by (auto simp: take_drop_single)
    with Literal j show ?thesis by (cases j) auto
  next
    case Star
    then show ?thesis using R j by (simp add: nth_scanOr) (meson le_trans nth_row)
  next
    case StarWithin
    then show ?thesis using R j rowStep_StarWithin by simp
  next
    case Single
    then have "row syn hay (ts @ [t]) ! j = (\<exists>i \<le> j. gm syn ts (take i hay) \<and> j = Suc i)"
      using R j by auto
    with Single j show ?thesis by (cases j) auto
  qed
qed

text \<open>No reachable position is a final verdict: the early exit of the row loop.\<close>

lemma dead_row: "True \<notin> set (row syn hay ts) \<Longrightarrow> \<not> gm syn (ts @ ts') hay"
proof
  assume dead: "True \<notin> set (row syn hay ts)" and "gm syn (ts @ ts') hay"
  then obtain u w where "hay = u @ w" "gm syn ts u" by (auto simp: gm_append)
  then have "length u \<le> length hay" "gm syn ts (take (length u) hay)" by auto
  then have "row syn hay ts ! length u" by simp
  with dead \<open>length u \<le> length hay\<close> show False by (metis length_row less_Suc_eq_le nth_mem)
qed

lemma matchLoop_row: "matchLoop syn hay (row syn hay ts) toks = gm syn (ts @ toks) hay"
proof (induction toks arbitrary: ts)
  case (Cons t toks)
  show ?case
    using Cons [of "ts @ [t]"] dead_row [of syn hay "ts @ [t]" toks]
    by (simp add: rowStep_row Let_def)
qed simp

lemma row_Nil: "True # replicate (length hay) False = row syn hay []"
  by (rule nth_equalityI) (auto simp: nth_Cons split: nat.splits)

lemma length_hayOf [simp]: "length (hayOf syn v) = length v"
  by (simp add: hayOf_def)

lemma matchTokens_iff: "matchTokens ts v syn = gm syn ts (hayOf syn v)"
  using matchLoop_row [of syn "hayOf syn v" "[]" ts] row_Nil [of "hayOf syn v" syn]
  by (simp add: matchTokens_def)

subsection \<open>Collapsing adjacent stars\<close>

lemma gm_star_star: "gm syn (Star # Star # ts) v = gm syn (Star # ts) v"
  by (auto simp: append_assoc [symmetric] simp del: append_assoc) (metis append_Nil)+

lemma gm_last_star:
  assumes "out \<noteq> []" "last out = Star"
  shows "gm syn (out @ Star # ts) v = gm syn (out @ ts) v"
proof -
  obtain xs where xs: "out = xs @ [Star]" using assms by (metis append_butlast_last_id)
  have "gm syn (xs @ Star # Star # ts) v = gm syn (xs @ Star # ts) v"
    by (simp only: gm_append gm_star_star)
  then show ?thesis by (simp add: xs)
qed

lemma gm_tokenize_loop: "gm syn (tokenize_loop syn p out) v = gm syn (out @ plainTokens syn p) v"
proof (induction syn p out rule: tokenize_loop.induct)
  case (2 syn ch rest out)
  then show ?case by (auto simp: gm_last_star split: list.splits)
qed simp

lemma gm_tokenize: "gm syn (tokenize p syn) v = gm syn (plainTokens syn p) v"
  by (simp add: tokenize_def gm_tokenize_loop)

lemma globMatch_iff: "globMatch p v syn = gm syn (plainTokens syn p) (hayOf syn v)"
  by (simp add: globMatch_def matchTokens_iff gm_tokenize)

subsection \<open>The backward table\<close>

fun tails :: "'a list \<Rightarrow> 'a list list" where
  "tails [] = [[]]"
| "tails (x # xs) = (x # xs) # tails xs"

lemma length_tails [simp]: "length (tails xs) = Suc (length xs)"
  by (induction xs) auto

lemma nth_tails [simp]: "k \<le> length xs \<Longrightarrow> tails xs ! k = drop k xs"
proof (induction xs arbitrary: k)
  case (Cons x xs)
  then show ?case by (cases k) auto
qed simp

lemma hd_tails [simp]: "hd (tails xs) = xs"
  by (cases xs) auto

lemma tails_not_Nil [simp]: "tails xs \<noteq> []"
  by (cases xs) auto

lemma scanOr_snoc: "scanOr r (ps @ [p]) = scanOr r ps @ [r \<or> True \<in> set ps \<or> p]"
  by (induction ps arbitrary: r) (auto simp: Let_def)

lemma gm_Star_tails: "gm syn (Star # ts) v \<longleftrightarrow> (\<exists>s \<in> set (tails v). gm syn ts s)"
proof (induction v)
  case (Cons h hs)
  have "gm syn (Star # ts) (h # hs) \<longleftrightarrow> gm syn ts (h # hs) \<or> gm syn (Star # ts) hs"
    by (auto simp: Cons_eq_append_conv)
  with Cons.IH show ?case by simp
qed simp

lemma gm_Within_Cons:
  "gm syn (StarWithin # ts) (h # hs) \<longleftrightarrow>
     gm syn ts (h # hs) \<or> (boundary syn \<noteq> Some h \<and> gm syn (StarWithin # ts) hs)"
  by (cases "boundary syn") (simp_all add: ex_split_Cons, blast+)

lemma backWithin_tails:
  "backWithin (boundary syn) (map (gm syn ts) (tails hay)) hay = map (gm syn (StarWithin # ts)) (tails hay)"
proof (induction hay)
  case (Cons h hs)
  have "hd (map (gm syn (StarWithin # ts)) (tails hs)) = gm syn (StarWithin # ts) hs"
    by (simp add: list.map_sel(1) del: gm.simps)
  with Cons show ?case
    by (simp add: Let_def gm_Within_Cons del: gm.simps) blast
qed simp

lemma backLiteral_tails:
  "map (\<lambda>(h, p). h = litOf syn c \<and> p) (zip hay (tl (map (gm syn ts) (tails hay)))) @ [False] =
   map (gm syn (Literal c # ts)) (tails hay)"
proof (induction hay)
  case (Cons h hs)
  obtain r where r: "tails hs = hs # r" by (cases hs) auto
  have "gm syn (Literal c # ts) (h # hs) = (h = litOf syn c \<and> gm syn ts hs)" by auto
  with Cons r show ?case by (simp del: gm.simps)
qed simp

lemma backSingle_tails:
  "tl (map (gm syn ts) (tails hay)) @ [False] = map (gm syn (Single # ts)) (tails hay)"
proof (induction hay)
  case (Cons h hs)
  obtain r where r: "tails hs = hs # r" by (cases hs) auto
  have "gm syn (Single # ts) (h # hs) = gm syn ts hs"
    by (simp add: ex_split_Cons)
  with Cons r show ?case by (simp del: gm.simps)
qed simp

lemma backStar_tails:
  "rev (scanOr False (rev (map (gm syn ts) (tails hay)))) = map (gm syn (Star # ts)) (tails hay)"
  by (induction hay) (auto simp: scanOr_snoc gm_Star_tails image_iff simp del: gm.simps)

lemma backRow_tails:
  "backRow syn hay t (map (gm syn ts) (tails hay)) = map (gm syn (t # ts)) (tails hay)"
  by (cases t) (simp_all only: backRow.simps backWithin_tails backLiteral_tails backSingle_tails backStar_tails)

lemma canFinish_base: "replicate (length hay) False @ [True] = map (gm syn []) (tails hay)"
  by (induction hay) auto

lemma hd_canFinish: "hd (canFinish syn hay ts) = map (gm syn ts) (tails hay)"
  by (induction ts) (simp_all add: Let_def backRow_tails canFinish_base del: gm.simps)

lemma tl_canFinish: "tl (canFinish syn hay (t # ts)) = canFinish syn hay ts"
  by (simp add: Let_def)

subsection \<open>The greedy reconstruction\<close>

lemma lastEnd_greatest:
  assumes "\<exists>k. j \<le> k \<and> k < j + d \<and> endOk syn hay tok nxt j k"
  defines "e \<equiv> lastEnd syn hay tok nxt j d"
  shows "j \<le> e \<and> e < j + d \<and> endOk syn hay tok nxt j e \<and>
    (\<forall>k. e < k \<and> k < j + d \<longrightarrow> \<not> endOk syn hay tok nxt j k)"
  using assms(1) unfolding e_def
proof (induction d)
  case (Suc d)
  show ?case
  proof (cases "endOk syn hay tok nxt j (j + d)")
    case False
    then have "\<exists>k. j \<le> k \<and> k < j + d \<and> endOk syn hay tok nxt j k"
      using Suc.prems by (metis add_Suc_right less_antisym)
    from Suc.IH [OF this] False show ?thesis
      by (simp add: less_Suc_eq) (metis)
  qed auto
qed auto

text \<open>
  What a list of captures must satisfy: put in the places of the wildcards it gives the
  value, each piece is one its wildcard may consume, and no piece could be longer with the
  rest of the pattern still matching.
\<close>

fun greedyFill :: "glob_syntax \<Rightarrow> token list \<Rightarrow> string list \<Rightarrow> string \<Rightarrow> bool" where
  "greedyFill syn [] cs v \<longleftrightarrow> cs = [] \<and> v = []"
| "greedyFill syn (Literal c # ts) cs v \<longleftrightarrow>
     (\<exists>x w. v = x # w \<and> litOf syn x = litOf syn c \<and> greedyFill syn ts cs w)"
| "greedyFill syn (t # ts) cs v \<longleftrightarrow>
     (\<exists>u w cs'. cs = u # cs' \<and> v = u @ w \<and> tokm syn t (hayOf syn u) \<and> greedyFill syn ts cs' w
       \<and> (\<forall>u' w'. v = u' @ w' \<and> tokm syn t (hayOf syn u') \<and> gm syn ts (hayOf syn w')
            \<longrightarrow> length u' \<le> length u))"

lemma hayOf_append [simp]: "hayOf syn (u @ w) = hayOf syn u @ hayOf syn w"
  by (simp add: hayOf_def toLowerCase_def)

lemma hayOf_Cons [simp]: "hayOf syn (x # w) = litOf syn x # hayOf syn w"
  by (simp add: hayOf_def toLowerCase_def litOf_def)

lemma hayOf_Nil [simp]: "hayOf syn [] = []"
  by (simp add: hayOf_def toLowerCase_def)

lemma hayOf_take: "take k (hayOf syn v) = hayOf syn (take k v)"
  by (simp add: hayOf_def toLowerCase_def take_map)

lemma hayOf_drop: "drop k (hayOf syn v) = hayOf syn (drop k v)"
  by (simp add: hayOf_def toLowerCase_def drop_map)

lemma endOk_iff:
  "k \<le> length hay \<Longrightarrow> t = Star \<or> t = StarWithin \<Longrightarrow>
   endOk syn hay t (map (gm syn ts) (tails hay)) j k = (gm syn ts (drop k hay) \<and> tokm syn t (slice j k hay))"
  by (auto simp: endOk_def split: option.splits)

text \<open>One wildcard of the loop: the piece it takes is admissible, maximal and leaves a match.\<close>

lemma wildcard_step:
  fixes v :: string and syn :: glob_syntax and t :: token and ts :: "token list" and j :: nat
  defines "hay \<equiv> hayOf syn v"
  assumes t: "t = Star \<or> t = StarWithin" and j: "j \<le> length v"
    and g: "gm syn (t # ts) (drop j hay)"
  defines "e \<equiv> lastEnd syn hay t (map (gm syn ts) (tails hay)) j (Suc (length v) - j)"
  shows "j \<le> e" "e \<le> length v" "gm syn ts (drop e hay)" "tokm syn t (hayOf syn (slice j e v))"
    "\<And>u w. drop j v = u @ w \<Longrightarrow> tokm syn t (hayOf syn u) \<Longrightarrow> gm syn ts (hayOf syn w) \<Longrightarrow>
       length u \<le> e - j"
proof -
  have len: "length hay = length v" by (simp add: hay_def)
  have ok: "endOk syn hay t (map (gm syn ts) (tails hay)) j (j + length u)"
    if "drop j v = u @ w" "tokm syn t (hayOf syn u)" "gm syn ts (hayOf syn w)" for u w
  proof -
    have l: "j + length u \<le> length hay" using arg_cong [OF that(1), of length] j by (simp add: len)
    have d: "drop j hay = hayOf syn u @ hayOf syn w"
      by (simp add: hay_def hayOf_drop that(1))
    have "slice j (j + length u) hay = hayOf syn u" using d by (simp add: slice_def)
    moreover have "drop (j + length u) hay = hayOf syn w"
      using d by (simp add: add.commute [of j] flip: drop_drop)
    ultimately show ?thesis using that l t by (simp add: endOk_iff)
  qed
  have "\<exists>k. j \<le> k \<and> k < j + (Suc (length v) - j) \<and> endOk syn hay t (map (gm syn ts) (tails hay)) j k"
  proof -
    from g obtain u w where uw: "drop j hay = u @ w" "tokm syn t u" "gm syn ts w" by auto
    let ?u = "take (length u) (drop j v)" and ?w = "drop (length u) (drop j v)"
    have "drop j v = ?u @ ?w" by (rule append_take_drop_id [symmetric])
    moreover have "hayOf syn ?u = u" "hayOf syn ?w = w"
      using uw(1) by (simp_all add: hayOf_take [symmetric] hayOf_drop [symmetric] hay_def del: drop_drop)
    ultimately have "endOk syn hay t (map (gm syn ts) (tails hay)) j (j + length ?u)"
      using uw ok [of ?u ?w] by simp
    moreover have "j + length ?u < j + (Suc (length v) - j)" using j by simp
    ultimately show ?thesis using le_add1 by blast
  qed
  from lastEnd_greatest [OF this] have
    e: "j \<le> e" "e < Suc (length v)" "endOk syn hay t (map (gm syn ts) (tails hay)) j e"
    and mx: "\<And>k. e < k \<Longrightarrow> k < Suc (length v) \<Longrightarrow> \<not> endOk syn hay t (map (gm syn ts) (tails hay)) j k"
    using j by (auto simp: e_def)
  show "j \<le> e" "e \<le> length v" using e by auto
  have "gm syn ts (drop e hay) \<and> tokm syn t (slice j e hay)"
    using e t by (simp add: endOk_iff len)
  then show "gm syn ts (drop e hay)" "tokm syn t (hayOf syn (slice j e v))"
    by (simp_all add: slice_def hay_def hayOf_drop hayOf_take)
  fix u w assume a: "drop j v = u @ w" "tokm syn t (hayOf syn u)" "gm syn ts (hayOf syn w)"
  have "j + length u \<le> length v" using arg_cong [OF a(1), of length] j by simp
  with ok [OF a] mx [of "j + length u"] have "\<not> e < j + length u" by auto
  then show "length u \<le> e - j" by linarith
qed

lemma drop_slice: "i \<le> e \<Longrightarrow> drop i xs = slice i e xs @ drop e xs"
  by (metis append_take_drop_id drop_drop le_add_diff_inverse2 slice_def)

lemma captureLoop_greedy:
  assumes "j \<le> length value" "gm syn ts (drop j (hayOf syn value))"
  shows "greedyFill syn ts
    (captureLoop syn (hayOf syn value) value ts (canFinish syn (hayOf syn value) ts) j) (drop j value)"
  using assms
proof (induction ts arbitrary: j)
  case (Cons t ts)
  let ?hay = "hayOf syn value"
  have rows: "tl (canFinish syn ?hay (t # ts)) = canFinish syn ?hay ts"
    "hd (canFinish syn ?hay ts) = map (gm syn ts) (tails ?hay)"
    by (simp_all add: tl_canFinish hd_canFinish)
  show ?case
  proof (cases "t = Star \<or> t = StarWithin")
    case True
    define e where "e = lastEnd syn ?hay t (map (gm syn ts) (tails ?hay)) j (Suc (length value) - j)"
    note w = wildcard_step [OF True Cons.prems, folded e_def]
    have "captureLoop syn ?hay value (t # ts) (canFinish syn ?hay (t # ts)) j =
        slice j e value # captureLoop syn ?hay value ts (canFinish syn ?hay ts) e"
      using True by (auto simp: rows e_def Let_def)
    moreover have "drop j value = slice j e value @ drop e value" using w(1) by (rule drop_slice)
    moreover have "length (slice j e value) = e - j" using w(2) by (simp add: slice_def)
    ultimately show ?thesis
      using True w(4,5) Cons.IH [OF w(2,3)] by (auto simp del: captureLoop.simps canFinish.simps)
  next
    case False
    then have t: "t = Single \<or> (\<exists>c. t = Literal c)" by (cases t) auto
    then obtain h where h: "drop j ?hay = h # drop (Suc j) ?hay" "gm syn ts (drop (Suc j) ?hay)"
      "tokm syn t [h]"
      using Cons.prems by (auto simp: length_Suc_conv) (metis drop_Suc list.sel(3) tl_drop)+
    have j: "j < length value" using h(1) by (metis drop_all length_hayOf list.distinct(1) not_less)
    then have d: "drop j value = value ! j # drop (Suc j) value" by (simp add: Cons_nth_drop_Suc)
    have hv: "h = litOf syn (value ! j)" using h(1) by (simp add: hayOf_drop d)
    have ih: "greedyFill syn ts (captureLoop syn ?hay value ts (canFinish syn ?hay ts) (Suc j)) (drop (Suc j) value)"
      using Cons.IH [OF _ h(2)] j by simp
    have sl: "slice j (Suc j) value = [value ! j]" using j by (simp add: slice_def d)
    show ?thesis using t ih hv h(3) sl by (auto simp: d tl_canFinish simp del: canFinish.simps)
  qed
qed simp

lemma globCaptures_matched: "matched (globCaptures p v syn) = globMatch p v syn"
  by (simp add: globCaptures_def Let_def globMatch_def matchTokens_iff hd_canFinish)

subsection \<open>Patterns without wildcards\<close>

lemma gm_Literals: "gm syn (map Literal s @ ts) v \<longleftrightarrow> (\<exists>w. v = map (litOf syn) s @ w \<and> gm syn ts w)"
  by (induction s arbitrary: v) auto

lemma gm_all_Literals: "gm syn (map Literal s) v \<longleftrightarrow> v = map (litOf syn) s"
  using gm_Literals [of syn s "[]" v] by simp

lemma plainTokens_literals:
  "\<forall>c \<in> set s. escape syn \<noteq> Some c \<and> c \<noteq> star syn \<and> starWithin syn \<noteq> Some c \<and> single syn \<noteq> Some c \<Longrightarrow>
   plainTokens syn (s @ r) = map Literal s @ plainTokens syn r"
  by (induction s) auto

lemma list_syntax_simps [simp]:
  "star LIST_SYNTAX = CHR ''*''" "starWithin LIST_SYNTAX = Some (CHR ''%'')"
  "boundary LIST_SYNTAX = Some (CHR ''/'')" "single LIST_SYNTAX = None" "escape LIST_SYNTAX = None"
  "caseInsensitive LIST_SYNTAX = False"
  by (simp_all add: LIST_SYNTAX_def imapListSyntax_def HIERARCHY_DELIMITER_def)

lemma list_case_sensitive [simp]:
  "hayOf LIST_SYNTAX v = v" "litOf LIST_SYNTAX c = c" "map (litOf LIST_SYNTAX) s = s"
  by (simp_all add: hayOf_def litOf_def map_idI)

lemmas sieve_eval = SIEVE_MATCH_SYNTAX_def hayOf_def litOf_def toLowerCase_def lower_char_def Let_def
  tokenize_def slice_def endOk_def

lemma matchesListPattern_iff: "matchesListPattern p name = gm LIST_SYNTAX (plainTokens LIST_SYNTAX p) name"
  using globMatch_iff [of p name LIST_SYNTAX]
  by (simp add: matchesListPattern_def compileGlob_def globMatch_def Let_def)

section \<open>Properties\<close>

text \<open>C40: the row programme of \<open>globMatch\<close> decides exactly the language of the pattern, with every
  star read on its own (before the tokenizer collapses adjacent ones): the early exit, the
  rolling row and the boundary rule of \<open>%\<close> neither lose nor invent a match.\<close>

theorem globMatch_decides_language:
  "globMatch pattern v syn = gm syn (plainTokens syn pattern) (hayOf syn v)"
  by (rule globMatch_iff)

text \<open>when the capture table fits the cell limit and the value matches, the captures put in
  the places of the wildcards give the value again, each piece is one its wildcard may
  consume, and every piece is the longest one that still lets the rest of the pattern match.\<close>

lemma globCaptures_greedy:
  assumes "(length (tokenize pattern syn) + 1) * (length v + 1) \<le> MAX_CAPTURE_CELLS"
    and "globMatch pattern v syn"
  shows "greedyFill syn (tokenize pattern syn) (captures (globCaptures pattern v syn)) v"
proof -
  have g: "gm syn (tokenize pattern syn) (hayOf syn v)"
    using assms(2) by (simp add: globMatch_def matchTokens_iff)
  then have "captures (globCaptures pattern v syn) =
      captureLoop syn (hayOf syn v) v (tokenize pattern syn)
        (canFinish syn (hayOf syn v) (tokenize pattern syn)) 0"
    using assms(1) by (simp add: globCaptures_def Let_def hd_canFinish)
  with captureLoop_greedy [of 0 v syn "tokenize pattern syn"] g show ?thesis by simp
qed

text \<open>the boolean matcher and the capturing matcher agree on whether a value matches, also
  above the cell limit where the captures are dropped.\<close>

lemma globCaptures_agrees:
  "matched (globCaptures pattern v syn) = globMatch pattern v syn"
  by (rule globCaptures_matched)

text \<open>an IMAP \<open>LIST\<close> pattern that ends in \<open>%\<close> after wildcard-free text matches exactly the
  names one level below it: the text itself, case kept, then anything without the delimiter.\<close>

lemma list_percent_one_level:
  assumes "CHR ''*'' \<notin> set ref" and "CHR ''%'' \<notin> set ref"
  shows "matchesListPattern (ref @ ''%'') name \<longleftrightarrow>
    (\<exists>leaf. name = ref @ leaf \<and> HIERARCHY_DELIMITER \<notin> set leaf)"
proof -
  have "plainTokens LIST_SYNTAX (ref @ ''%'') = map Literal ref @ [StarWithin]"
    using assms by (subst plainTokens_literals) auto
  then show ?thesis
    by (simp add: matchesListPattern_iff gm_Literals HIERARCHY_DELIMITER_def)
qed

end
