(* ===== verification/Sasl.thy ===== *)
theory Sasl
  imports Prelude
begin

text \<open>
  The SASL payload parsers of \<open>core/src/sasl.ts\<close>: strict base64, PLAIN and the two OAuth
  mechanisms, with the base64 printer (\<open>Buffer.toString("base64")\<close>) that the engines call when they
  send challenges. \<open>TextDecoder.decode\<close> is \<open>utf8Decode\<close>, the identity: exact on ASCII bytes.

  Shown: strict base64 decoding inverts the encoder, PLAIN parsing recovers user and password (which
  may itself hold NUL), and XOAUTH2 parsing recovers user and token.
\<close>

section \<open>Base64\<close>

definition utf8Decode :: "bytes \<Rightarrow> string" where
  "utf8Decode bs = bs"

definition utf8Encode :: "string \<Rightarrow> bytes" where
  "utf8Encode s = s"

definition b64_value :: "char \<Rightarrow> nat option" where
  "b64_value c =
     (let n = code c in
      if 65 \<le> n \<and> n \<le> 90 then Some (n - 65)
      else if 97 \<le> n \<and> n \<le> 122 then Some (n - 71)
      else if 48 \<le> n \<and> n \<le> 57 then Some (n + 4)
      else if n = 43 then Some 62 else if n = 47 then Some 63 else None)"

definition b64_char :: "nat \<Rightarrow> char" where
  "b64_char v =
     (if v < 26 then char_of (v + 65) else if v < 52 then char_of (v + 71)
      else if v < 62 then char_of (v - 4) else if v = 62 then CHR ''+'' else CHR ''/'')"

abbreviation b64_letter :: "char \<Rightarrow> bool" where
  "b64_letter c \<equiv> b64_value c \<noteq> None"

text \<open>\<open>Buffer.from(bs).toString("base64")\<close>.\<close>

fun b64_encode :: "bytes \<Rightarrow> string" where
  "b64_encode [] = []"
| "b64_encode [x] =
     (let n = code x in [b64_char (n div 4), b64_char (n mod 4 * 16), CHR ''='', CHR ''=''])"
| "b64_encode [x, y] =
     (let n = code x * 256 + code y in
      [b64_char (n div 1024), b64_char (n div 16 mod 64), b64_char (n mod 16 * 4), CHR ''=''])"
| "b64_encode (x # y # z # r) =
     (let n = code x * 65536 + code y * 256 + code z in
      b64_char (n div 262144) # b64_char (n div 4096 mod 64) # b64_char (n div 64 mod 64) #
      b64_char (n mod 64) # b64_encode r)"

text \<open>\<open>STRICT_BASE64_RE\<close>: groups of four letters, the last of which may be padded.\<close>

fun STRICT_BASE64_RE :: "string \<Rightarrow> bool" where
  "STRICT_BASE64_RE [] = True"
| "STRICT_BASE64_RE (a # b # c # d # r) =
     (b64_letter a \<and> b64_letter b \<and>
      (if r = [] \<and> d = CHR ''='' then b64_letter c \<or> c = CHR ''=''
       else b64_letter c \<and> b64_letter d \<and> STRICT_BASE64_RE r))"
| "STRICT_BASE64_RE _ = False"

text \<open>\<open>Buffer.from(s, "base64")\<close> on the strings the regular expression accepts.\<close>

fun b64_bytes :: "string \<Rightarrow> bytes" where
  "b64_bytes (a # b # c # d # r) =
     (let v = (\<lambda>x. case b64_value x of Some n \<Rightarrow> n | None \<Rightarrow> 0);
          n = v a * 262144 + v b * 4096 + v c * 64 + v d;
          x = char_of (n div 65536); y = char_of (n div 256 mod 256); z = char_of (n mod 256)
      in if c = CHR ''='' then [x] else if d = CHR ''='' then [x, y] else x # y # z # b64_bytes r)"
| "b64_bytes _ = []"

definition decodeSaslBase64 :: "string \<Rightarrow> bytes option" where
  "decodeSaslBase64 s = (if \<not> STRICT_BASE64_RE s then None else Some (b64_bytes s))"

section \<open>PLAIN\<close>

abbreviation NUL :: char where "NUL \<equiv> CHR 0x00"

definition parseSaslPlain :: "bytes \<Rightarrow> (string \<times> string) option" where
  "parseSaslPlain bytes =
     (case indexOf NUL bytes of
        None \<Rightarrow> None
      | Some idx1 \<Rightarrow>
          (case map_option (\<lambda>k. idx1 + 1 + k) (indexOf NUL (drop (idx1 + 1) bytes)) of
             None \<Rightarrow> None
           | Some idx2 \<Rightarrow>
               let user = utf8Decode (slice (idx1 + 1) idx2 bytes);
                   pass = utf8Decode (drop (idx2 + 1) bytes)
               in if length user = 0 then None else Some (user, pass)))"

definition decodeSaslPlain :: "string \<Rightarrow> (string \<times> string) option" where
  "decodeSaslPlain b64 =
     (case decodeSaslBase64 b64 of None \<Rightarrow> None | Some bytes \<Rightarrow> parseSaslPlain bytes)"

section \<open>OAuth\<close>

abbreviation CTRL_A :: char where "CTRL_A \<equiv> CHR 0x01"

definition AUTH_BEARER :: string where
  "AUTH_BEARER = ''auth=bearer''"

text \<open>
  One \<open>match(/^auth=Bearer[ ]+(.+)$/i)\<close>, trimmed. Backtracking leaves the group one space when
  nothing but at least two spaces follows.
\<close>

definition bearerMatch :: "string \<Rightarrow> string option" where
  "bearerMatch f =
     (let r = drop (length AUTH_BEARER) f;
          k = takeWhile (\<lambda>c. c = SP) r;
          t = dropWhile (\<lambda>c. c = SP) r
      in if \<not> startsWith AUTH_BEARER (toLowerCase f) \<or> k = [] then None
         else if t = [] then (if 2 \<le> length k then Some [] else None)
         else if CR \<in> set t \<or> LF \<in> set t then None
         else Some (trim t))"

fun extractBearer :: "string list \<Rightarrow> string option" where
  "extractBearer [] = None"
| "extractBearer (f # fs) = (case bearerMatch f of Some t \<Rightarrow> Some t | None \<Rightarrow> extractBearer fs)"

text \<open>\<open>if (!user || user.length === 0 || !token) return null\<close>.\<close>

definition oauthCreds :: "string option \<Rightarrow> string option \<Rightarrow> (string \<times> string) option" where
  "oauthCreds user token =
     (case (user, token) of
        (Some u, Some t) \<Rightarrow> if u = [] \<or> t = [] then None else Some (u, t)
      | _ \<Rightarrow> None)"

definition parseXoauth2 :: "string \<Rightarrow> (string \<times> string) option" where
  "parseXoauth2 decoded =
     (let fields = split_char CTRL_A decoded;
          user = foldl (\<lambda>u f. if startsWith ''user='' f then Some (drop 5 f) else u) None fields
      in oauthCreds user (extractBearer fields))"

text \<open>\<open>replace(/pat/gi, rep)\<close> for a literal pattern in lower case.\<close>

fun replace_ci :: "string \<Rightarrow> string \<Rightarrow> string \<Rightarrow> string" where
  "replace_ci pat rep [] = []"
| "replace_ci pat rep (c # cs) =
     (if startsWith pat (toLowerCase (c # cs)) then rep @ replace_ci pat rep (drop (length pat - 1) cs)
      else c # replace_ci pat rep cs)"

definition decodeGs2 :: "string \<Rightarrow> string" where
  "decodeGs2 s = replace_ci ''=3d'' ''='' (replace_ci ''=2c'' '','' s)"

text \<open>\<open>gs2.match(/(?:^|,)a=([^,]*)/)\<close>: the first comma-separated part that starts with \<open>a=\<close>.\<close>

definition gs2Name :: "string \<Rightarrow> string option" where
  "gs2Name gs2 = map_option (drop 2) (List.find (startsWith ''a='') (split_char CHR '','' gs2))"

definition parseOauthbearer :: "string \<Rightarrow> (string \<times> string) option" where
  "parseOauthbearer decoded =
     (let fields = split_char CTRL_A decoded;
          gs2 = hd fields;
          user = (case gs2Name gs2 of None \<Rightarrow> None
                  | Some n \<Rightarrow> if n = [] then None else Some (decodeGs2 n))
      in oauthCreds user (extractBearer (tl fields)))"

definition parseSaslOAuth :: "string \<Rightarrow> string \<Rightarrow> (string \<times> string) option" where
  "parseSaslOAuth mechanism decoded =
     (let m = toUpperCase mechanism in
      if m = ''XOAUTH2'' then parseXoauth2 decoded
      else if m = ''OAUTHBEARER'' then parseOauthbearer decoded
      else None)"

definition isOAuthMechanism :: "string \<Rightarrow> bool" where
  "isOAuthMechanism mechanism \<longleftrightarrow>
     (let m = toUpperCase mechanism in m = ''XOAUTH2'' \<or> m = ''OAUTHBEARER'')"

section \<open>Base64 round trip\<close>

lemma b64_value_char [simp]: "v < 64 \<Longrightarrow> b64_value (b64_char v) = Some v"
  by (auto simp: b64_value_def b64_char_def Let_def)

lemma b64_char_not_pad [simp]: "v < 64 \<Longrightarrow> b64_char v \<noteq> CHR ''=''"
  using b64_value_char [of v] by (auto simp: b64_value_def)

lemma b64_value_pad [simp]: "b64_value CHR ''='' = None"
  by (simp add: b64_value_def)

lemma code_less [simp]: "code c < 256"
  by (simp add: of_char_def)

lemma quad_recompose:
  fixes n :: nat
  shows "n div 262144 * 262144 + n div 4096 mod 64 * 4096 + n div 64 mod 64 * 64 + n mod 64 = n"
proof -
  have d: "n div 4096 = n div 64 div 64" "n div 262144 = n div 64 div 64 div 64"
    by (simp_all add: div_mult2_eq [symmetric])
  have "n div 64 * 64 + n mod 64 = n" by simp
  moreover have "n div 64 div 64 * 64 + n div 64 mod 64 = n div 64" by simp
  moreover have "n div 64 div 64 div 64 * 64 + n div 64 div 64 mod 64 = n div 64 div 64" by simp
  ultimately show ?thesis unfolding d by linarith
qed

lemma code_parts2: "(code x * 256 + code y) div 256 = code x" "(code x * 256 + code y) mod 256 = code y"
  by (simp_all add: div_mult_self3 del: of_char_of)

lemma STRICT_b64_encode: "STRICT_BASE64_RE (b64_encode bs)"
proof (induction bs rule: b64_encode.induct)
  case (4 x y z r)
  have "code x * 65536 + code y * 256 + code z < 64 * 262144"
    using code_less [of x] code_less [of y] code_less [of z] by linarith
  then have "(code x * 65536 + code y * 256 + code z) div 262144 < 64"
    by (rule less_mult_imp_div_less)
  with 4 show ?case by (simp add: Let_def)
next
  case (2 x)
  have "code x < 64 * 4" using code_less [of x] by linarith
  then have "code x div 4 < 64" by (rule less_mult_imp_div_less)
  moreover have "code x mod 4 * 16 < 64" by (simp add: mult.commute)
  ultimately show ?case by (simp add: Let_def)
next
  case (3 x y)
  have "code x * 256 + code y < 64 * 1024" using code_less [of x] code_less [of y] by linarith
  then have "(code x * 256 + code y) div 1024 < 64" by (rule less_mult_imp_div_less)
  moreover have "(code x * 256 + code y) mod 16 * 4 < 64" by (simp add: mult.commute)
  ultimately show ?case by (simp add: Let_def)
qed simp

lemma triple_parts:
  fixes x y z :: nat
  assumes "x < 256" "y < 256" "z < 256"
  shows "(x * 65536 + y * 256 + z) div 65536 = x"
    and "(x * 65536 + y * 256 + z) div 256 mod 256 = y"
    and "(x * 65536 + y * 256 + z) mod 256 = z"
proof -
  have n: "x * 65536 + y * 256 + z = (x * 256 + y) * 256 + z" by simp
  have q: "((x * 256 + y) * 256 + z) div 256 = x * 256 + y" using assms by simp
  have "(x * 65536 + y * 256 + z) div 65536 = (x * 65536 + y * 256 + z) div 256 div 256"
    by (simp add: div_mult2_eq [symmetric])
  also have "\<dots> = x" unfolding n q using assms by simp
  finally show "(x * 65536 + y * 256 + z) div 65536 = x" .
  show "(x * 65536 + y * 256 + z) div 256 mod 256 = y" unfolding n q using assms by simp
  show "(x * 65536 + y * 256 + z) mod 256 = z" unfolding n using assms by (metis mod_less mod_mult_self3)
qed

lemma char_of_mod_eq: "n mod 256 = code c \<Longrightarrow> char_of n = c"
  by (metis char_of_mod_256 char_of_char)

lemma char_of_low [simp]: "char_of (256 * n + code c) = c"
proof -
  have "(256 * n + code c) mod 256 = code c" by simp
  then show ?thesis by (metis char_of_mod_256 char_of_char)
qed

lemma b64_bytes_encode: "b64_bytes (b64_encode bs) = bs"
proof (induction bs rule: b64_encode.induct)
  case (2 x)
  have c: "code x div 4 < 64" "code x mod 4 * 16 < 64"
    using code_less [of x] by (auto intro: less_mult_imp_div_less simp: mult.commute)
  have "code x div 4 * 262144 + code x mod 4 * 16 * 4096 = code x * 65536"
    using div_mult_mod_eq [of "code x" 4] by linarith
  then have "(code x div 4 * 262144 + code x mod 4 * 16 * 4096) div 65536 = code x" by simp
  with c show ?case by (simp add: Let_def)
next
  case (3 x y)
  let ?n = "code x * 256 + code y"
  have lt: "?n < 64 * 1024" using code_less [of x] code_less [of y] by linarith
  have c: "?n div 1024 < 64" "?n mod 16 * 4 < 64"
    using less_mult_imp_div_less [OF lt] by (simp_all add: mult.commute)
  have d: "?n div 1024 = ?n div 16 div 64" by (simp add: div_mult2_eq [symmetric])
  have "?n div 16 div 64 * 64 + ?n div 16 mod 64 = ?n div 16" "?n div 16 * 16 + ?n mod 16 = ?n"
    by simp_all
  then have s: "?n div 1024 * 262144 + ?n div 16 mod 64 * 4096 + ?n mod 16 * 4 * 64
      = code x * 65536 + code y * 256 + 0"
    unfolding d by linarith
  show ?case
    using c s triple_parts [OF code_less [of x] code_less [of y], of 0]
    by (simp add: Let_def)
next
  case (4 x y z r)
  define n where "n = code x * 65536 + code y * 256 + code z"
  have lt: "n < 64 * 262144"
    using code_less [of x] code_less [of y] code_less [of z] unfolding n_def by linarith
  note p = triple_parts [OF code_less [of x] code_less [of y] code_less [of z], folded n_def]
  have "char_of (n div 65536) = x" by (simp add: p(1))
  with char_of_mod_eq [OF p(2)] char_of_mod_eq [OF p(3)] less_mult_imp_div_less [OF lt]
    quad_recompose [of n] 4
  show ?case by (simp add: Let_def n_def [symmetric])
qed simp

lemma decodeSaslBase64_encode [simp]: "decodeSaslBase64 (b64_encode bs) = Some bs"
  by (simp add: decodeSaslBase64_def STRICT_b64_encode b64_bytes_encode)

section \<open>Credentials\<close>

lemma parseSaslPlain_parts:
  assumes "NUL \<notin> set authzid" "NUL \<notin> set user"
  shows "parseSaslPlain (authzid @ NUL # user @ NUL # pass)
       = (if user = [] then None else Some (user, pass))"
proof -
  have i1: "indexOf NUL (authzid @ NUL # user @ NUL # pass) = Some (length authzid)"
    using assms by (intro find_index_append_first) auto
  have i2: "indexOf NUL (user @ NUL # pass) = Some (length user)"
    using assms by (intro find_index_append_first) auto
  show ?thesis
    using i2 by (simp add: parseSaslPlain_def i1 slice_def utf8Decode_def)
qed

lemma parseSaslPlain_SomeD:
  assumes "parseSaslPlain bs = Some (u, p)"
  shows "\<exists>z. bs = z @ NUL # u @ NUL # p \<and> NUL \<notin> set z \<and> NUL \<notin> set u \<and> u \<noteq> []"
proof -
  have "indexOf NUL bs \<noteq> None" using assms by (auto simp: parseSaslPlain_def split: option.splits)
  then have "NUL \<in> set bs" by (auto simp: js_simps)
  then obtain z r where z: "bs = z @ NUL # r" "NUL \<notin> set z" by (meson split_list_first)
  have i: "indexOf NUL bs = Some (length z)"
    unfolding z by (rule find_index_append_first) (use z in auto)
  have "indexOf NUL r \<noteq> None"
    using assms i by (auto simp: parseSaslPlain_def z split: option.splits)
  then have "NUL \<in> set r" by (auto simp: js_simps)
  then obtain w q where w: "r = w @ NUL # q" "NUL \<notin> set w" by (meson split_list_first)
  show ?thesis
    using assms z w by (auto simp: parseSaslPlain_parts split: if_splits)
qed

text \<open>SASL PLAIN. The decoder returns \<open>(user, pass)\<close> exactly when the base64 line decodes to
  \<open>authzid NUL user NUL pass\<close> with a non-empty user and no NUL in authzid or user; the password is
  everything after the second NUL, NUL bytes included.\<close>

lemma decodeSaslPlain_iff:
  "decodeSaslPlain line = Some (user, pass) \<longleftrightarrow>
     (\<exists>authzid. decodeSaslBase64 line = Some (authzid @ NUL # user @ NUL # pass) \<and>
        NUL \<notin> set authzid \<and> NUL \<notin> set user \<and> user \<noteq> [])"
  by (auto simp: decodeSaslPlain_def parseSaslPlain_parts dest: parseSaslPlain_SomeD split: option.splits)

lemma toLowerCase_append: "toLowerCase (a @ b) = toLowerCase a @ toLowerCase b"
  by (simp add: toLowerCase_def)

lemma lower_bearer: "toLowerCase ''auth=Bearer'' = AUTH_BEARER"
  by code_simp

lemma bearerMatch_prefix:
  assumes "toLowerCase p = AUTH_BEARER" "trim tok = tok" "tok \<noteq> []" "CR \<notin> set tok" "LF \<notin> set tok"
  shows "bearerMatch (p @ SP # tok) = Some tok"
proof -
  have h: "hd tok \<noteq> SP"
  proof
    assume "hd tok = SP"
    then have "length (dropWhile is_space tok) < length tok"
      using assms(3) by (cases tok) (auto simp: is_space_def le_imp_less_Suc length_dropWhile_le)
    then have "length (trim tok) < length tok"
      using length_dropWhile_le [of is_space "rev (dropWhile is_space tok)"] by (simp add: trim_def)
    with assms(2) show False by simp
  qed
  then have t: "takeWhile (\<lambda>c. c = SP) tok = []" "dropWhile (\<lambda>c. c = SP) tok = tok"
    using assms(3) by (cases tok; simp)+
  have l: "length AUTH_BEARER = length p" using assms(1) by (metis length_toLowerCase)
  show ?thesis
    using assms by (simp add: bearerMatch_def toLowerCase_append l t Let_def)
qed

text \<open>XOAUTH2. The line a client builds from a user and a token, \<open>user=U ^A auth=Bearer T ^A ^A\<close>,
  is parsed back to that user and token.\<close>

lemma parseXoauth2_roundtrip:
  assumes "user \<noteq> []" "CTRL_A \<notin> set user" "CTRL_A \<notin> set tok"
    and "tok \<noteq> []" "trim tok = tok" "CR \<notin> set tok" "LF \<notin> set tok"
  shows "parseSaslOAuth ''XOAUTH2''
           (''user='' @ user @ [CTRL_A] @ ''auth=Bearer '' @ tok @ [CTRL_A, CTRL_A]) = Some (user, tok)"
proof -
  let ?f1 = "''user='' @ user" and ?f2 = "''auth=Bearer'' @ SP # tok"
  have s1: "split_char CTRL_A (?f1 @ CTRL_A # ?f2 @ CTRL_A # [CTRL_A]) = [?f1, ?f2, [], []]"
    using assms by (subst split_char_append; simp)+
  have b1: "bearerMatch ?f1 = None"
    by (simp add: bearerMatch_def toLowerCase_def AUTH_BEARER_def lower_char_def Let_def)
  have b2: "bearerMatch ?f2 = Some tok"
    using assms by (intro bearerMatch_prefix) (simp_all add: lower_bearer)
  have u: "toUpperCase ''XOAUTH2'' = ''XOAUTH2''"
    by (simp add: toUpperCase_def upper_char_def Let_def)
  show ?thesis
    using s1 b1 b2 assms
    by (simp add: parseSaslOAuth_def parseXoauth2_def u oauthCreds_def Let_def)
qed

end
