(* ===== verification/SmtpParse.thy ===== *)
theory SmtpParse
  imports Sasl
begin

text \<open>
  The argument parsers of \<open>proto-smtp/src/engine.ts\<close>: command verbs, \<open>xtext\<close>, and the parameters of
  \<open>MAIL FROM\<close> and \<open>RCPT TO\<close>; and \<open>Number(s)\<close> as far as those parsers look at it, namely whether
  the double it denotes is a non-negative integer and which one.

  Shown: \<open>xtext\<close> decoding inverts the encoding of RFC 3461 and never yields a control character,
  so neither does an accepted \<open>ENVID\<close> or \<open>ORCPT\<close>; \<open>NOTIFY=NEVER\<close> is accepted only on its own.
\<close>

section \<open>Numbers\<close>

text \<open>
  \<open>round_half_even p q\<close> is the integer nearest to \<open>p / q\<close>. \<open>double_integer n d\<close> is the integer
  value of the double nearest to \<open>n / d\<close>, and \<open>None\<close> when that double is no integer or is
  infinite: from \<open>2 ^ 53\<close> on every double is an integer, below it the fraction keeps the bits that
  the integer part leaves of 53, and below 1 only 0 and 1 are integers.
\<close>

definition round_half_even :: "nat \<Rightarrow> nat \<Rightarrow> nat" where
  "round_half_even p q =
     (let k = p div q; r = p mod q in
      if 2 * r < q then k else if q < 2 * r then k + 1 else if even k then k else k + 1)"

fun bit_len :: "nat \<Rightarrow> nat" where
  "bit_len n = (if n = 0 then 0 else Suc (bit_len (n div 2)))"

declare bit_len.simps [simp del]

definition double_integer :: "nat \<Rightarrow> nat \<Rightarrow> nat option" where
  "double_integer n d =
     (let q = n div d; w = bit_len q in
      if n = 0 then Some 0
      else if q = 0 then
        (if n * 2 ^ 1075 \<le> d then Some 0
         else if d * (2 ^ 54 - 1) \<le> n * 2 ^ 54 then Some 1 else None)
      else if w \<le> 53 then
        (let f = 53 - w; r = round_half_even (n * 2 ^ f) d in
         if r mod 2 ^ f = 0 then Some (r div 2 ^ f) else None)
      else
        (let r = round_half_even n (d * 2 ^ (w - 53)) * 2 ^ (w - 53) in
         if r < 2 ^ 1024 then Some r else None))"

definition hex_value :: "char \<Rightarrow> nat option" where
  "hex_value c =
     (let n = code c in
      if 48 \<le> n \<and> n \<le> 57 then Some (n - 48)
      else if 65 \<le> n \<and> n \<le> 70 then Some (n - 55)
      else if 97 \<le> n \<and> n \<le> 102 then Some (n - 87) else None)"

fun radix_value :: "nat \<Rightarrow> string \<Rightarrow> nat \<Rightarrow> nat option" where
  "radix_value b [] acc = Some acc"
| "radix_value b (c # cs) acc =
     (case hex_value c of
        Some v \<Rightarrow> if v < b then radix_value b cs (acc * b + v) else None
      | None \<Rightarrow> None)"

text \<open>An unsigned decimal literal: digits, an optional fraction and an optional exponent.\<close>

definition decimal_integer :: "string \<Rightarrow> nat option" where
  "decimal_integer s =
     (let ip = takeWhile is_digit s; r1 = dropWhile is_digit s;
          dot = (r1 \<noteq> [] \<and> hd r1 = DOT);
          fp = (if dot then takeWhile is_digit (tl r1) else []);
          r2 = (if dot then dropWhile is_digit (tl r1) else r1);
          ex = (r2 \<noteq> [] \<and> lower_char (hd r2) = CHR ''e'');
          sg = (ex \<and> tl r2 \<noteq> [] \<and> hd (tl r2) \<in> {CHR ''+'', CHR ''-''});
          neg = (sg \<and> hd (tl r2) = CHR ''-'');
          ep = (if sg then tl (tl r2) else if ex then tl r2 else []);
          e = digits_value ep;
          m = digits_value (ip @ fp); k = length fp
      in if ip = [] \<and> fp = [] \<or> (\<not> ex \<and> r2 \<noteq> []) \<or> (ex \<and> \<not> all_digits ep) then None
         else if neg then double_integer m (10 ^ (k + e))
         else double_integer (m * 10 ^ e) (10 ^ k))"

text \<open>
  \<open>Number(s)\<close> when it is an integer that is not negative. A minus sign before a zero gives \<open>-0\<close>,
  which the code treats as 0; before anything else the number is negative or not an integer.
\<close>

definition js_size :: "string \<Rightarrow> nat option" where
  "js_size s =
     (let t = trim s; p = map lower_char (take 2 t); r = drop 2 t in
      if t = [] then Some 0
      else if p = ''0x'' \<and> r \<noteq> [] then Option.bind (radix_value 16 r 0) (\<lambda>n. double_integer n 1)
      else if p = ''0o'' \<and> r \<noteq> [] then Option.bind (radix_value 8 r 0) (\<lambda>n. double_integer n 1)
      else if p = ''0b'' \<and> r \<noteq> [] then Option.bind (radix_value 2 r 0) (\<lambda>n. double_integer n 1)
      else if hd t = CHR ''+'' then decimal_integer (tl t)
      else if hd t = CHR ''-'' then
        (case decimal_integer (tl t) of Some n \<Rightarrow> if n = 0 then Some 0 else None | None \<Rightarrow> None)
      else decimal_integer t)"

section \<open>Verbs and parameters\<close>

definition splitVerb :: "string \<Rightarrow> string \<times> string" where
  "splitVerb line =
     (case indexOf SP line of
        None \<Rightarrow> (toUpperCase line, [])
      | Some i \<Rightarrow> (toUpperCase (take i line), trim (drop (i + 1) line)))"

definition splitParam :: "string \<Rightarrow> string \<times> string option" where
  "splitParam tok =
     (case indexOf CHR ''='' tok of
        None \<Rightarrow> (tok, None)
      | Some eq \<Rightarrow> (take eq tok, Some (drop (eq + 1) tok)))"

record param_error =
  pe_code :: nat
  pe_enhanced :: string
  pe_message :: string

abbreviation param_err :: "nat \<Rightarrow> string \<Rightarrow> string \<Rightarrow> param_error" where
  "param_err c e m \<equiv> \<lparr>pe_code = c, pe_enhanced = e, pe_message = m\<rparr>"

text \<open>\<open>decodeXtext\<close>; the loop index is the suffix still to read.\<close>

fun decodeXtext :: "string \<Rightarrow> string option" where
  "decodeXtext [] = Some []"
| "decodeXtext (ch # raw) =
     (if ch \<noteq> CHR ''+'' then
        (if code ch < 0x21 \<or> 0x7E < code ch \<or> ch = CHR ''='' then None
         else map_option ((#) ch) (decodeXtext raw))
      else (case raw of
              h1 # h2 # raw' \<Rightarrow>
                (case (hex_value h1, hex_value h2) of
                   (Some v1, Some v2) \<Rightarrow>
                     (let n = v1 * 16 + v2 in
                      if n < 0x20 \<or> n = 0x7F then None
                      else map_option ((#) (char_of n)) (decodeXtext raw'))
                 | _ \<Rightarrow> None)
            | _ \<Rightarrow> None))"

datatype dsn_ret = FULL | HDRS

datatype body_type = Body8BITMIME | Body7BIT

record parsed_mail =
  pm_address :: string
  pm_size :: "nat option"
  pm_body :: "body_type option"
  pm_smtputf8 :: bool
  pm_ret :: "dsn_ret option"
  pm_envid :: "string option"

text \<open>
  \<open>/^<kw>:\s*<([^>]*)>\s*(.*)$/i\<close>: the address, and what follows it with leading white space
  dropped. The dot matches no line terminator.
\<close>

definition pathMatch :: "string \<Rightarrow> string \<Rightarrow> (string \<times> string) option" where
  "pathMatch kw rest =
     (let n = length kw + 1; r = dropWhile is_space (drop n rest) in
      if \<not> startsWith (kw @ '':'') (toLowerCase rest) then None
      else case r of
        [] \<Rightarrow> None
      | c # cs \<Rightarrow>
          if c \<noteq> CHR ''<'' then None
          else (case indexOf CHR ''>'' cs of
                  None \<Rightarrow> None
                | Some i \<Rightarrow>
                    (let params = dropWhile is_space (drop (i + 1) cs) in
                     if CR \<in> set params \<or> LF \<in> set params then None
                     else Some (take i cs, params))))"

definition orEmpty :: "string option \<Rightarrow> string" where
  "orEmpty v = (case v of Some s \<Rightarrow> s | None \<Rightarrow> [])"

definition mailParam :: "string \<Rightarrow> parsed_mail \<Rightarrow> param_error + parsed_mail" where
  "mailParam tok parsed =
     (let (rawKey, rawVal) = splitParam tok; key = toUpperCase rawKey in
      if key = ''SIZE'' then
        (case Option.bind rawVal js_size of
           None \<Rightarrow> Inl (param_err 501 ''5.5.4'' ''Invalid SIZE parameter'')
         | Some n \<Rightarrow> Inr (parsed\<lparr>pm_size := Some n\<rparr>))
      else if key = ''BODY'' then
        (let v = toUpperCase (orEmpty rawVal) in
         if v = ''8BITMIME'' then Inr (parsed\<lparr>pm_body := Some Body8BITMIME\<rparr>)
         else if v = ''7BIT'' then Inr (parsed\<lparr>pm_body := Some Body7BIT\<rparr>)
         else Inl (param_err 501 ''5.5.4'' ''Invalid BODY parameter''))
      else if key = ''SMTPUTF8'' then Inr (parsed\<lparr>pm_smtputf8 := True\<rparr>)
      else if key = ''RET'' then
        (let v = toUpperCase (orEmpty rawVal) in
         if v = ''FULL'' then Inr (parsed\<lparr>pm_ret := Some FULL\<rparr>)
         else if v = ''HDRS'' then Inr (parsed\<lparr>pm_ret := Some HDRS\<rparr>)
         else Inl (param_err 501 ''5.5.4'' ''Invalid RET parameter''))
      else if key = ''ENVID'' then
        (case Option.bind rawVal decodeXtext of
           None \<Rightarrow> Inl (param_err 501 ''5.5.4'' ''Invalid ENVID parameter'')
         | Some v \<Rightarrow>
             if length v = 0 \<or> 100 < length v
             then Inl (param_err 501 ''5.5.4'' ''Invalid ENVID parameter'')
             else Inr (parsed\<lparr>pm_envid := Some v\<rparr>))
      else Inl (param_err 504 ''5.5.4'' (''Unrecognized MAIL FROM parameter: '' @ key)))"

fun mailParams :: "string list \<Rightarrow> parsed_mail \<Rightarrow> param_error + parsed_mail" where
  "mailParams [] parsed = Inr parsed"
| "mailParams (t # ts) parsed =
     (case mailParam t parsed of Inl e \<Rightarrow> Inl e | Inr p \<Rightarrow> mailParams ts p)"

definition parseMailFromArgs :: "string \<Rightarrow> param_error + parsed_mail" where
  "parseMailFromArgs rest =
     (case pathMatch ''from'' rest of
        None \<Rightarrow> Inl (param_err 501 ''5.5.4'' ''Syntax: MAIL FROM:<address> [params]'')
      | Some (address, ps) \<Rightarrow>
          (let paramsPart = trim ps;
               parsed = \<lparr>pm_address = address, pm_size = None, pm_body = None, pm_smtputf8 = False,
                         pm_ret = None, pm_envid = None\<rparr>
           in if length paramsPart > 0 then mailParams (split_ws paramsPart) parsed else Inr parsed))"

record parsed_rcpt =
  pr_address :: string
  pr_notify :: "string option"
  pr_orcpt :: "string option"

text \<open>\<open>[...new Set(xs)]\<close>.\<close>

definition js_uniq :: "'a list \<Rightarrow> 'a list" where
  "js_uniq xs = foldl (\<lambda>acc x. if x \<in> set acc then acc else acc @ [x]) [] xs"

definition NOTIFY_KNOWN :: "string list" where
  "NOTIFY_KNOWN = [''NEVER'', ''SUCCESS'', ''FAILURE'', ''DELAY'']"

definition rcptParam :: "string \<Rightarrow> parsed_rcpt \<Rightarrow> param_error + parsed_rcpt" where
  "rcptParam tok value =
     (let (rawKey, rawVal) = splitParam tok; key = toUpperCase rawKey in
      if key = ''NOTIFY'' then
        (let parts = filter (\<lambda>x. length x > 0) (split_char CHR '','' (toUpperCase (orEmpty rawVal))) in
         if length parts = 0 then Inl (param_err 501 ''5.5.4'' ''Invalid NOTIFY parameter'')
         else if list_ex (\<lambda>x. x \<notin> set NOTIFY_KNOWN) parts
           then Inl (param_err 501 ''5.5.4'' ''Invalid NOTIFY parameter'')
         else if ''NEVER'' \<in> set parts \<and> length parts > 1
           then Inl (param_err 501 ''5.5.4'' ''NOTIFY=NEVER cannot be combined'')
         else Inr (value\<lparr>pr_notify := Some (join '','' (js_uniq parts))\<rparr>))
      else if key = ''ORCPT'' then
        (let raw = orEmpty rawVal in
         case indexOf CHR '';'' raw of
           None \<Rightarrow> Inl (param_err 501 ''5.5.4'' ''Invalid ORCPT parameter'')
         | Some semi \<Rightarrow>
             if semi = 0 then Inl (param_err 501 ''5.5.4'' ''Invalid ORCPT parameter'')
             else (case decodeXtext (drop (semi + 1) raw) of
                     None \<Rightarrow> Inl (param_err 501 ''5.5.4'' ''Invalid ORCPT parameter'')
                   | Some decoded \<Rightarrow>
                       if length decoded = 0 \<or> 300 < length decoded
                       then Inl (param_err 501 ''5.5.4'' ''Invalid ORCPT parameter'')
                       else Inr (value\<lparr>pr_orcpt :=
                         Some (toLowerCase (take semi raw) @ '';'' @ decoded)\<rparr>)))
      else Inl (param_err 504 ''5.5.4'' (''Unrecognized RCPT TO parameter: '' @ key)))"

fun rcptParams :: "string list \<Rightarrow> parsed_rcpt \<Rightarrow> param_error + parsed_rcpt" where
  "rcptParams [] value = Inr value"
| "rcptParams (t # ts) value =
     (case rcptParam t value of Inl e \<Rightarrow> Inl e | Inr v \<Rightarrow> rcptParams ts v)"

definition parseRcptToArgs :: "string \<Rightarrow> param_error + parsed_rcpt" where
  "parseRcptToArgs rest =
     (case pathMatch ''to'' rest of
        None \<Rightarrow> Inl (param_err 501 ''5.5.4'' ''Syntax: RCPT TO:<address> [params]'')
      | Some (address, ps) \<Rightarrow>
          if length address = 0 then Inl (param_err 501 ''5.1.3'' ''Bad recipient address syntax'')
          else (let value = \<lparr>pr_address = address, pr_notify = None, pr_orcpt = None\<rparr>;
                    paramsPart = trim ps
                in if length paramsPart > 0 then rcptParams (split_ws paramsPart) value
                   else Inr value))"

section \<open>Accepted parameters\<close>

definition plain_char :: "char \<Rightarrow> bool" where
  "plain_char c \<longleftrightarrow> 0x20 \<le> code c \<and> code c \<noteq> 0x7F"

lemma code_char_of_hex: "v1 < 16 \<Longrightarrow> v2 < 16 \<Longrightarrow> code (char_of (v1 * 16 + v2 :: nat)) = v1 * 16 + v2"
  by simp

lemma hex_value_less: "hex_value c = Some v \<Longrightarrow> v < 16"
  by (auto simp: hex_value_def Let_def split: if_splits)

lemma decodeXtext_plain: "decodeXtext raw = Some out \<Longrightarrow> list_all plain_char out"
proof (induction raw arbitrary: out rule: decodeXtext.induct)
  case (2 ch raw)
  show ?case
  proof (cases "ch = CHR ''+''")
    case False
    with 2 show ?thesis by (auto simp: plain_char_def split: if_splits)
  next
    case True
    then obtain h1 h2 r v1 v2 o' where e: "raw = h1 # h2 # r" "hex_value h1 = Some v1"
        "hex_value h2 = Some v2" "\<not> (v1 * 16 + v2 < 0x20 \<or> v1 * 16 + v2 = 0x7F)"
        "decodeXtext r = Some o'" "out = char_of (v1 * 16 + v2) # o'"
      using 2(3) by (auto simp: Let_def split: list.splits option.splits if_splits)
    moreover have "list_all plain_char o'" using 2(2) True e by simp
    moreover have "code (char_of (v1 * 16 + v2 :: nat)) = v1 * 16 + v2"
      using code_char_of_hex hex_value_less e(2,3) by blast
    ultimately show ?thesis by (simp add: plain_char_def [of "char_of _"])
  qed
qed simp

text \<open>The encoder of RFC 3461, section 4.\<close>

definition hex_digit :: "nat \<Rightarrow> char" where
  "hex_digit v = (if v < 10 then char_of (48 + v) else char_of (55 + v))"

definition encodeXchar :: "char \<Rightarrow> string" where
  "encodeXchar c =
     (if code c < 0x21 \<or> 0x7E < code c \<or> c = CHR ''+'' \<or> c = CHR ''=''
      then [CHR ''+'', hex_digit (code c div 16), hex_digit (code c mod 16)] else [c])"

definition encodeXtext :: "string \<Rightarrow> string" where
  "encodeXtext s = concat (map encodeXchar s)"

lemma hex_value_digit [simp]: "v < 16 \<Longrightarrow> hex_value (hex_digit v) = Some v"
  by (auto simp: hex_value_def hex_digit_def Let_def)

lemma decodeXtext_encode: "list_all plain_char s \<Longrightarrow> decodeXtext (encodeXtext s) = Some s"
proof (induction s)
  case (Cons c cs)
  have "code c div 16 < 16" using code_less [of c] by (intro less_mult_imp_div_less) simp
  moreover have "code c div 16 * 16 + code c mod 16 = code c" by simp
  ultimately show ?case
    using Cons by (auto simp: encodeXtext_def encodeXchar_def plain_char_def Let_def)
qed (simp add: encodeXtext_def)

text \<open>A string is the decoding of some \<open>xtext\<close> exactly when it has no control characters and no
  DEL: every other string has an encoding that decodes back to it, and no input decodes to a string
  with a line break, which would inject a header line into a delivery report.\<close>

lemma decodeXtext_range: "(\<exists>raw. decodeXtext raw = Some s) \<longleftrightarrow> list_all plain_char s"
  using decodeXtext_plain decodeXtext_encode by blast

lemma split_ws_no_space: "w \<in> set (split_ws s) \<Longrightarrow> \<forall>c \<in> set w. \<not> is_space c"
proof (induction s rule: split_ws.induct)
  case (1 s)
  let ?w = "takeWhile (\<lambda>c. \<not> is_space c) s" and ?r = "dropWhile (\<lambda>c. \<not> is_space c) s"
  have e: "split_ws s = (if ?r = [] then [?w] else ?w # split_ws (dropWhile is_space ?r))"
    by (subst split_ws.simps) (simp add: Let_def)
  have "\<forall>c \<in> set ?w. \<not> is_space c" by (auto dest: set_takeWhileD)
  moreover have "w = ?w \<or> (?r \<noteq> [] \<and> w \<in> set (split_ws (dropWhile is_space ?r)))"
    using 1(2) unfolding e by (auto split: if_splits)
  ultimately show ?case using 1(1) [OF refl refl] by blast
qed

lemma set_js_uniq_aux:
  "set (foldl (\<lambda>acc x. if x \<in> set acc then acc else acc @ [x]) acc xs) = set acc \<union> set xs"
  by (induction xs arbitrary: acc) auto

lemma set_js_uniq [simp]: "set (js_uniq xs) = set xs"
  by (simp add: js_uniq_def set_js_uniq_aux)

lemma distinct_js_uniq_aux:
  "distinct acc \<Longrightarrow> distinct (foldl (\<lambda>acc x. if x \<in> set acc then acc else acc @ [x]) acc xs)"
  by (induction xs arbitrary: acc) auto

lemma distinct_js_uniq [simp]: "distinct (js_uniq xs)"
  by (simp add: js_uniq_def distinct_js_uniq_aux)

definition envid_ok :: "parsed_mail \<Rightarrow> bool" where
  "envid_ok p \<longleftrightarrow>
     (case pm_envid p of None \<Rightarrow> True | Some v \<Rightarrow> v \<noteq> [] \<and> length v \<le> 100 \<and> list_all plain_char v)"

lemma mailParam_envid_ok: "mailParam t p = Inr q \<Longrightarrow> envid_ok p \<Longrightarrow> envid_ok q"
  by (auto simp: mailParam_def envid_ok_def Let_def decodeXtext_plain
      split: if_splits prod.splits option.splits bind_splits)

lemma mailParams_envid_ok: "mailParams ts p = Inr q \<Longrightarrow> envid_ok p \<Longrightarrow> envid_ok q"
  by (induction ts arbitrary: p) (auto split: sum.splits intro: mailParam_envid_ok)

text \<open>The values of an accepted \<open>NOTIFY\<close>: \<open>NEVER\<close> alone, or distinct events.\<close>

definition notify_ok :: "string \<Rightarrow> bool" where
  "notify_ok v \<longleftrightarrow>
     (\<exists>ws. v = join '','' ws \<and> ws \<noteq> [] \<and> distinct ws \<and>
        (ws = [''NEVER''] \<or> set ws \<subseteq> {''SUCCESS'', ''FAILURE'', ''DELAY''}))"

definition rcpt_ok :: "parsed_rcpt \<Rightarrow> bool" where
  "rcpt_ok p \<longleftrightarrow>
     pr_address p \<noteq> [] \<and>
     (case pr_notify p of None \<Rightarrow> True | Some v \<Rightarrow> notify_ok v) \<and>
     (case pr_orcpt p of None \<Rightarrow> True | Some v \<Rightarrow> CR \<notin> set v \<and> LF \<notin> set v)"

lemma notify_list_ok:
  assumes "parts \<noteq> []" "\<not> list_ex (\<lambda>x. x \<notin> set NOTIFY_KNOWN) parts"
    and "\<not> (''NEVER'' \<in> set parts \<and> length parts > 1)"
  shows "notify_ok (join '','' (js_uniq parts))"
proof -
  have sub: "set (js_uniq parts) \<subseteq> set NOTIFY_KNOWN" using assms(2) by (auto simp: list_ex_iff)
  have ne: "js_uniq parts \<noteq> []" using assms(1) by (metis set_empty set_js_uniq)
  have "js_uniq parts = [''NEVER'']" if "''NEVER'' \<in> set parts"
  proof -
    have "length parts \<le> 1" using assms(3) that by linarith
    with that have "parts = [''NEVER'']" by (cases parts) auto
    then show ?thesis by (simp add: js_uniq_def)
  qed
  moreover have "set (js_uniq parts) \<subseteq> {''SUCCESS'', ''FAILURE'', ''DELAY''}" if "''NEVER'' \<notin> set parts"
    using sub that by (auto simp: NOTIFY_KNOWN_def)
  ultimately show ?thesis
    unfolding notify_ok_def using ne distinct_js_uniq by blast
qed

lemma lower_not_break: "lower_char c = CR \<Longrightarrow> c = CR" "lower_char c = LF \<Longrightarrow> c = LF"
proof -
  have "code (lower_char c) = code c \<or> 97 \<le> code (lower_char c)"
    by (auto simp: lower_char_def Let_def)
  then show "lower_char c = CR \<Longrightarrow> c = CR" "lower_char c = LF \<Longrightarrow> c = LF"
    by (auto simp: lower_char_def Let_def split: if_splits)
qed

lemma lower_no_break:
  assumes "\<forall>c \<in> set s. c \<noteq> CR \<and> c \<noteq> LF"
  shows "CR \<notin> set (toLowerCase s) \<and> LF \<notin> set (toLowerCase s)"
proof -
  have "lower_char c \<noteq> CR \<and> lower_char c \<noteq> LF" if "c \<in> set s" for c
    using assms that lower_not_break [of c] by blast
  then show ?thesis unfolding toLowerCase_def set_map by (metis imageE)
qed

lemma plain_no_break: "list_all plain_char s \<Longrightarrow> CR \<notin> set s \<and> LF \<notin> set s"
  by (auto simp: list_all_iff plain_char_def)

lemma decodeXtext_no_break: "decodeXtext raw = Some out \<Longrightarrow> CR \<notin> set out \<and> LF \<notin> set out"
  using decodeXtext_plain plain_no_break by blast

lemma rcptParam_ok:
  assumes "rcptParam t p = Inr q" "rcpt_ok p" "\<forall>c \<in> set t. \<not> is_space c"
  shows "rcpt_ok q"
proof -
  obtain k v where kv: "splitParam t = (k, v)" by force
  have sv: "\<forall>c \<in> set (orEmpty v). c \<noteq> CR \<and> c \<noteq> LF"
  proof
    fix c assume "c \<in> set (orEmpty v)"
    then have "c \<in> set t"
      using kv by (auto simp: splitParam_def orEmpty_def dest: in_set_dropD split: option.splits)
    then show "c \<noteq> CR \<and> c \<noteq> LF" using assms(3) by (auto simp: is_space_def)
  qed
  have no_break: "CR \<notin> set (toLowerCase (take n (orEmpty v))) \<and> LF \<notin> set (toLowerCase (take n (orEmpty v)))" for n
    by (rule lower_no_break) (use sv in_set_takeD in fast)
  have "(\<exists>n. q = p\<lparr>pr_notify := Some n\<rparr> \<and> notify_ok n) \<or>
      (\<exists>k d raw. q = p\<lparr>pr_orcpt := Some (toLowerCase (take k (orEmpty v)) @ '';'' @ d)\<rparr> \<and>
         decodeXtext raw = Some d)"
    using assms(1)
    by (auto simp: rcptParam_def kv Let_def intro!: notify_list_ok split: if_splits option.splits)
  then show ?thesis
  proof (elim disjE exE conjE)
    fix n assume "q = p\<lparr>pr_notify := Some n\<rparr>" "notify_ok n"
    then show ?thesis using assms(2) by (simp add: rcpt_ok_def)
  next
    fix k d raw
    assume "q = p\<lparr>pr_orcpt := Some (toLowerCase (take k (orEmpty v)) @ '';'' @ d)\<rparr>"
      and "decodeXtext raw = Some d"
    then show ?thesis using assms(2) no_break decodeXtext_no_break [of raw d] by (simp add: rcpt_ok_def)
  qed
qed

lemma rcptParams_ok:
  "rcptParams ts p = Inr q \<Longrightarrow> rcpt_ok p \<Longrightarrow> \<forall>t \<in> set ts. \<forall>c \<in> set t. \<not> is_space c \<Longrightarrow> rcpt_ok q"
  by (induction ts arbitrary: p) (auto split: sum.splits intro: rcptParam_ok)

text \<open>Accepted DSN parameters are safe to copy into a delivery report. An accepted \<open>RCPT TO\<close> has
  a non-empty address, a \<open>NOTIFY\<close> that is \<open>NEVER\<close> alone or distinct events without it, and an
  \<open>ORCPT\<close> without line breaks.\<close>

lemma parseRcptToArgs_ok:
  assumes "parseRcptToArgs rest = Inr p"
  shows "rcpt_ok p"
proof -
  obtain address ps where m: "pathMatch ''to'' rest = Some (address, ps)" and ne: "address \<noteq> []"
    using assms by (auto simp: parseRcptToArgs_def split: option.splits if_splits)
  let ?v = "\<lparr>pr_address = address, pr_notify = None, pr_orcpt = None\<rparr>"
  have v: "rcpt_ok ?v" using ne by (simp add: rcpt_ok_def)
  have "p = ?v \<or> rcptParams (split_ws (trim ps)) ?v = Inr p"
    using assms m ne by (auto simp: parseRcptToArgs_def Let_def split: if_splits)
  then show ?thesis using v rcptParams_ok split_ws_no_space by blast
qed

end
