(* ===== verification/Scram.thy ===== *)
theory Scram
  imports Sasl "HOL-Library.Word"
begin

unbundle bit_operations_syntax

text \<open>
  SCRAM-SHA-256, the message functions of \<open>core/src/scram.ts\<close> and the server session of
  \<open>core/src/scram-session.ts\<close>. What \<open>node:crypto\<close> and \<open>Buffer\<close> supply is the record \<open>crypto\<close>:
  HMAC, SHA-256, PBKDF2 and the lenient base64 decoder; SASLprep is a field of it too. The server
  nonce, drawn at random by the code, is an argument. \<open>timingSafeEqual\<close> is equality: it raises on
  buffers of different lengths, and the keys that \<open>deriveScramKeys\<close> and \<open>fakeKeys\<close> make have the
  digest's length.

  Shown: a session accepts exactly the final messages whose proof opens the stored key, an honest
  client is accepted and gets the server's signature, an accepted or failed session accepts nothing
  more, and an unknown user gets a server-first message of the same form.
\<close>

record crypto =
  hmac :: "bytes \<Rightarrow> bytes \<Rightarrow> bytes"
  sha256 :: "bytes \<Rightarrow> bytes"
  pbkdf2 :: "string \<Rightarrow> bytes \<Rightarrow> nat \<Rightarrow> bytes"
  saslprep :: "string \<Rightarrow> string option"
  b64_lenient :: "string \<Rightarrow> bytes"

section \<open>Messages\<close>

definition SCRAM_DEFAULT_ITERATIONS :: nat where
  "SCRAM_DEFAULT_ITERATIONS = 100000"

definition KEY_LEN :: nat where
  "KEY_LEN = 32"

record scram_keys =
  salt :: bytes
  iterations :: nat
  storedKey :: bytes
  serverKey :: bytes

definition scramPassword :: "crypto \<Rightarrow> string \<Rightarrow> string" where
  "scramPassword c password = (case saslprep c password of Some p \<Rightarrow> p | None \<Rightarrow> password)"

definition deriveScramKeys :: "crypto \<Rightarrow> string \<Rightarrow> bytes \<Rightarrow> nat \<Rightarrow> scram_keys" where
  "deriveScramKeys c password slt iters =
     (let saltedPassword = pbkdf2 c (scramPassword c password) slt iters;
          clientKey = hmac c saltedPassword ''Client Key''
      in \<lparr>salt = slt, iterations = iters, storedKey = sha256 c clientKey,
          serverKey = hmac c saltedPassword ''Server Key''\<rparr>)"

record client_first =
  gs2Header :: string
  bare :: string
  cf_username :: string
  cf_clientNonce :: string

text \<open>\<open>replace(/pat/g, rep)\<close> for a literal pattern.\<close>

fun replace_all :: "string \<Rightarrow> string \<Rightarrow> string \<Rightarrow> string" where
  "replace_all pat rep [] = []"
| "replace_all pat rep (c # cs) =
     (if startsWith pat (c # cs) then rep @ replace_all pat rep (drop (length pat - 1) cs)
      else c # replace_all pat rep cs)"

text \<open>\<open>/=(?!2C|3D)/.test(v)\<close>.\<close>

fun stray_equals :: "string \<Rightarrow> bool" where
  "stray_equals [] = False"
| "stray_equals (c # cs) =
     ((c = CHR ''='' \<and> \<not> startsWith ''2C'' cs \<and> \<not> startsWith ''3D'' cs) \<or> stray_equals cs)"

definition unescapeName :: "string \<Rightarrow> string option" where
  "unescapeName v =
     (if stray_equals v then None
      else Some (replace_all ''=3D'' ''='' (replace_all ''=2C'' '','' v)))"

text \<open>The attribute loop: every part needs a name before its first \<open>=\<close>; the first of a name counts.\<close>

fun scramAttrs :: "string list \<Rightarrow> (string \<times> string) list \<Rightarrow> (string \<times> string) list option" where
  "scramAttrs [] attrs = Some attrs"
| "scramAttrs (part # parts) attrs =
     (case indexOf CHR ''='' part of
        None \<Rightarrow> None
      | Some eq \<Rightarrow>
          if eq = 0 then None
          else if map_of attrs (take eq part) = None
            then scramAttrs parts (attrs @ [(take eq part, drop (eq + 1) part)])
          else scramAttrs parts attrs)"

definition nonce_char :: "char \<Rightarrow> bool" where
  "nonce_char c \<longleftrightarrow> (0x21 \<le> code c \<and> code c \<le> 0x2B) \<or> (0x2D \<le> code c \<and> code c \<le> 0x7E)"

text \<open>\<open>match(/^(([ny]|p=[^,]+),[^,]*,)(.*)$/s)\<close>: flag, authzid and the rest.\<close>

definition gs2Split :: "string \<Rightarrow> (string \<times> string) option" where
  "gs2Split message =
     (case indexOf CHR '','' message of
        None \<Rightarrow> None
      | Some i \<Rightarrow>
          (let flag = take i message; r = drop (i + 1) message in
           case indexOf CHR '','' r of
             None \<Rightarrow> None
           | Some j \<Rightarrow>
               if flag = ''n'' \<or> flag = ''y'' \<or> (startsWith ''p='' flag \<and> 2 < length flag)
               then Some (take (i + 1 + j + 1) message, drop (j + 1) r) else None))"

definition parseClientFirst :: "string \<Rightarrow> client_first option" where
  "parseClientFirst message =
     (case gs2Split message of
        None \<Rightarrow> None
      | Some (hdr, b) \<Rightarrow>
          if startsWith ''p='' hdr then None
          else (case scramAttrs (split_char CHR '','' b) [] of
                  None \<Rightarrow> None
                | Some attrs \<Rightarrow>
                    (case (map_of attrs ''n'', map_of attrs ''r'') of
                       (Some rawUser, Some nonce) \<Rightarrow>
                         if nonce = [] then None
                         else (case unescapeName rawUser of
                                 None \<Rightarrow> None
                               | Some user \<Rightarrow>
                                   if \<not> list_all nonce_char nonce then None
                                   else Some \<lparr>gs2Header = hdr, bare = b, cf_username = user,
                                              cf_clientNonce = nonce\<rparr>)
                     | _ \<Rightarrow> None)))"

definition serverNonce :: "bytes \<Rightarrow> string" where
  "serverNonce rnd = b64_encode rnd"

definition buildServerFirst :: "string \<Rightarrow> string \<Rightarrow> bytes \<Rightarrow> nat \<Rightarrow> string" where
  "buildServerFirst cnonce snonce slt iters =
     ''r='' @ cnonce @ snonce @ '',s='' @ b64_encode slt @ '',i='' @ show_nat iters"

datatype scram_verdict = Refused string | Accepted string

text \<open>\<open>s.lastIndexOf(pat)\<close>.\<close>

fun sub_last_index :: "'a list \<Rightarrow> 'a list \<Rightarrow> nat option" where
  "sub_last_index pat [] = (if pat = [] then Some 0 else None)"
| "sub_last_index pat (c # cs) =
     (case sub_last_index pat cs of
        Some i \<Rightarrow> Some (Suc i)
      | None \<Rightarrow> if startsWith pat (c # cs) then Some 0 else None)"

definition byte_at :: "bytes \<Rightarrow> nat \<Rightarrow> nat" where
  "byte_at bs i = (if i < length bs then code (bs ! i) else 0)"

text \<open>\<open>ClientKey = ClientProof XOR ClientSignature\<close>, the loop over \<open>KEY_LEN\<close> bytes.\<close>

definition xorKey :: "bytes \<Rightarrow> bytes \<Rightarrow> bytes" where
  "xorKey proof sig = map (\<lambda>i. char_of (byte_at proof i XOR byte_at sig i)) [0..<KEY_LEN]"

definition verifyClientFinal ::
  "crypto \<Rightarrow> string \<Rightarrow> string \<Rightarrow> string \<Rightarrow> string \<Rightarrow> string \<Rightarrow> bytes \<Rightarrow> bytes \<Rightarrow> scram_verdict" where
  "verifyClientFinal c clientFirstBare serverFirst clientFinal expectedNonce hdr stored server =
     (case sub_last_index '',p='' clientFinal of
        None \<Rightarrow> Refused ''no-proof''
      | Some proofIdx \<Rightarrow>
          (let withoutProof = take proofIdx clientFinal; proofB64 = drop (proofIdx + 3) clientFinal in
           case scramAttrs (split_char CHR '','' withoutProof) [] of
             None \<Rightarrow> Refused ''malformed''
           | Some attrs \<Rightarrow>
               if map_of attrs ''c'' \<noteq> Some (b64_encode (utf8Encode hdr))
                 then Refused ''channel-binding-mismatch''
               else if map_of attrs ''r'' \<noteq> Some expectedNonce then Refused ''nonce-mismatch''
               else let proof = b64_lenient c proofB64 in
                 if length proof \<noteq> KEY_LEN then Refused ''malformed-proof''
                 else let authMessage = clientFirstBare @ '','' @ serverFirst @ '','' @ withoutProof;
                          clientKey = xorKey proof (hmac c stored authMessage)
                   in if sha256 c clientKey \<noteq> stored then Refused ''bad-proof''
                      else Accepted (''v='' @ b64_encode (hmac c server authMessage))))"

section \<open>The server session\<close>

datatype scram_state = S_init | S_awaitingKeys | S_awaitingFinal | S_closed

datatype scram_step =
    NeedLookup string
  | NeedSend string
  | Done string string
  | Failed "string option"

record scram_session =
  sc_state :: scram_state
  clientFirstBare :: string
  sc_gs2Header :: string
  sc_username :: string
  clientNonce :: string
  serverNoncePart :: string
  fullNonce :: string
  serverFirst :: string
  keys :: "scram_keys option"
  decoySecret :: bytes

definition newScramSession :: "bytes \<Rightarrow> scram_session" where
  "newScramSession secret =
     \<lparr>sc_state = S_init, clientFirstBare = [], sc_gs2Header = [], sc_username = [], clientNonce = [],
      serverNoncePart = [], fullNonce = [], serverFirst = [], keys = None, decoySecret = secret\<rparr>"

definition fakeKeys :: "crypto \<Rightarrow> string \<Rightarrow> bytes \<Rightarrow> scram_keys" where
  "fakeKeys c username secret =
     \<lparr>salt = take 16 (hmac c secret (''salt:'' @ username)),
      iterations = SCRAM_DEFAULT_ITERATIONS,
      storedKey = hmac c secret (''stored:'' @ username),
      serverKey = hmac c secret (''server:'' @ username)\<rparr>"

definition scram_fail :: "scram_session \<Rightarrow> scram_session \<times> scram_step" where
  "scram_fail s =
     (s\<lparr>sc_state := S_closed\<rparr>, Failed (if sc_username s \<noteq> [] then Some (sc_username s) else None))"

definition scram_start :: "bytes \<Rightarrow> string \<Rightarrow> scram_session \<Rightarrow> scram_session \<times> scram_step" where
  "scram_start rnd clientFirst s =
     (if sc_state s \<noteq> S_init then scram_fail s
      else case parseClientFirst clientFirst of
             None \<Rightarrow> scram_fail s
           | Some cf \<Rightarrow>
               (s\<lparr>clientFirstBare := bare cf, sc_gs2Header := gs2Header cf, sc_username := cf_username cf,
                  clientNonce := cf_clientNonce cf, serverNoncePart := serverNonce rnd,
                  fullNonce := cf_clientNonce cf @ serverNonce rnd, sc_state := S_awaitingKeys\<rparr>,
                NeedLookup (cf_username cf)))"

definition provideKeys ::
  "crypto \<Rightarrow> scram_keys option \<Rightarrow> scram_session \<Rightarrow> scram_session \<times> scram_step" where
  "provideKeys c ks s =
     (if sc_state s \<noteq> S_awaitingKeys then scram_fail s
      else let k = (case ks of Some k \<Rightarrow> k | None \<Rightarrow> fakeKeys c (sc_username s) (decoySecret s));
               sf = buildServerFirst (clientNonce s) (serverNoncePart s) (salt k) (iterations k)
           in (s\<lparr>keys := Some k, serverFirst := sf, sc_state := S_awaitingFinal\<rparr>, NeedSend sf))"

definition scram_final :: "crypto \<Rightarrow> string \<Rightarrow> scram_session \<Rightarrow> scram_session \<times> scram_step" where
  "scram_final c clientFinal s =
     (case (sc_state s, keys s) of
        (S_awaitingFinal, Some k) \<Rightarrow>
          (let v = verifyClientFinal c (clientFirstBare s) (serverFirst s) clientFinal (fullNonce s)
                     (sc_gs2Header s) (storedKey k) (serverKey k);
               s1 = s\<lparr>sc_state := S_closed\<rparr>
           in case v of
                Refused _ \<Rightarrow> scram_fail s1
              | Accepted m \<Rightarrow> (s1, Done (sc_username s) m))
      | _ \<Rightarrow> scram_fail s)"

section \<open>Names and nonces\<close>

definition escape_char :: "char \<Rightarrow> string" where
  "escape_char c = (if c = CHR '','' then ''=2C'' else if c = CHR ''='' then ''=3D'' else [c])"

text \<open>The saslname a client sends (RFC 5802, section 5.1).\<close>

definition escapeName :: "string \<Rightarrow> string" where
  "escapeName u = concat (map escape_char u)"

definition escape_equals :: "char \<Rightarrow> string" where
  "escape_equals c = (if c = CHR ''='' then ''=3D'' else [c])"

lemma escapeName_simps [simp]:
  "escapeName [] = []" "escapeName (c # cs) = escape_char c @ escapeName cs"
  by (simp_all add: escapeName_def)

lemma stray_equals_escape: "\<not> stray_equals (escapeName u)"
  by (induction u) (auto simp: escape_char_def)

lemma replace_comma_escape:
  "replace_all ''=2C'' '','' (escapeName u) = concat (map escape_equals u)"
  by (induction u) (auto simp: escape_char_def escape_equals_def)

lemma replace_equals_escape: "replace_all ''=3D'' ''='' (concat (map escape_equals u)) = u"
  by (induction u) (auto simp: escape_equals_def)

lemma unescape_escape [simp]: "unescapeName (escapeName u) = Some u"
  by (simp add: unescapeName_def stray_equals_escape replace_comma_escape replace_equals_escape)

lemma comma_escapeName [simp]: "CHR '','' \<notin> set (escapeName u)"
  by (induction u) (auto simp: escape_char_def)

lemma b64_char_not_comma [simp]: "b64_char v \<noteq> CHR '',''"
proof
  assume "b64_char v = CHR '',''"
  then have "code (b64_char v) = 44" by simp
  then show False by (auto simp: b64_char_def split: if_splits)
qed

lemma comma_b64_encode [simp]: "CHR '','' \<notin> set (b64_encode bs)"
  by (induction bs rule: b64_encode.induct) (auto simp: Let_def b64_char_not_comma [symmetric])

lemma nonce_no_comma: "list_all nonce_char n \<Longrightarrow> CHR '','' \<notin> set n"
  by (auto simp: list_all_iff nonce_char_def)

section \<open>The proof\<close>

lemma xor_less_256:
  fixes a b :: nat
  assumes "a < 256" "b < 256"
  shows "a XOR b < 256"
proof -
  have "take_bit 8 a = a" "take_bit 8 b = b" using assms by (simp_all add: take_bit_nat_eq_self)
  then have "a XOR b = take_bit 8 (a XOR b)" by simp
  also have "\<dots> < 2 ^ 8" by (rule take_bit_nat_less_exp)
  finally show ?thesis by simp
qed

lemma byte_at_less [simp]: "byte_at bs i < 256"
  by (simp add: byte_at_def)

lemma byte_at_xorKey:
  "i < KEY_LEN \<Longrightarrow> byte_at (xorKey a b) i = byte_at a i XOR byte_at b i"
proof -
  assume i: "i < KEY_LEN"
  have "byte_at a i XOR byte_at b i < 256" by (rule xor_less_256) simp_all
  with i show ?thesis by (simp add: xorKey_def byte_at_def [of "map _ _"])
qed

lemma xorKey_cancel:
  assumes "length k = KEY_LEN"
  shows "xorKey (xorKey k s) s = k"
proof (rule nth_equalityI)
  show "length (xorKey (xorKey k s) s) = length k" using assms by (simp add: xorKey_def)
next
  fix i assume "i < length (xorKey (xorKey k s) s)"
  then have i: "i < KEY_LEN" by (simp add: xorKey_def)
  then have "xorKey (xorKey k s) s ! i = char_of (byte_at (xorKey k s) i XOR byte_at s i)"
    by (simp add: xorKey_def)
  also have "\<dots> = char_of (byte_at k i)" using i by (simp add: byte_at_xorKey xor.assoc)
  also have "\<dots> = k ! i" using i assms by (simp add: byte_at_def)
  finally show "xorKey (xorKey k s) s ! i = k ! i" .
qed

lemma sub_last_index_none: "p \<notin> set xs \<Longrightarrow> sub_last_index (p # ps) xs = None"
  by (induction xs) auto

lemma sub_last_index_append:
  "sub_last_index pat ys = Some i \<Longrightarrow> sub_last_index pat (xs @ ys) = Some (length xs + i)"
  by (induction xs) auto

lemma sub_last_index_suffix:
  assumes "p \<notin> set ps" "p \<notin> set ys"
  shows "sub_last_index (p # ps) (xs @ p # ps @ ys) = Some (length xs)"
proof -
  have "sub_last_index (p # ps) (p # ps @ ys) = Some 0"
    using assms by (simp add: sub_last_index_none)
  then show ?thesis by (simp add: sub_last_index_append)
qed

section \<open>The exchange\<close>

text \<open>The client's side of the exchange, as RFC 5802 prescribes it.\<close>

definition client_first_bare :: "string \<Rightarrow> string \<Rightarrow> string" where
  "client_first_bare user nonce = ''n='' @ escapeName user @ '',r='' @ nonce"

definition client_final_bare :: "string \<Rightarrow> string" where
  "client_final_bare fn = ''c='' @ b64_encode ''n,,'' @ '',r='' @ fn"

definition client_auth_message :: "string \<Rightarrow> string \<Rightarrow> string \<Rightarrow> string \<Rightarrow> string" where
  "client_auth_message user nonce sfirst fn =
     client_first_bare user nonce @ '','' @ sfirst @ '','' @ client_final_bare fn"

definition client_proof :: "crypto \<Rightarrow> string \<Rightarrow> scram_keys \<Rightarrow> string \<Rightarrow> bytes" where
  "client_proof c password k am =
     (let salted = pbkdf2 c (scramPassword c password) (salt k) (iterations k);
          ck = hmac c salted ''Client Key''
      in xorKey ck (hmac c (sha256 c ck) am))"

lemma parse_client_first:
  assumes "list_all nonce_char nonce" "nonce \<noteq> []"
  shows "parseClientFirst (''n,,'' @ client_first_bare user nonce)
       = Some \<lparr>gs2Header = ''n,,'', bare = client_first_bare user nonce, cf_username = user,
               cf_clientNonce = nonce\<rparr>"
proof -
  have g: "gs2Split (''n,,'' @ client_first_bare user nonce)
         = Some (''n,,'', client_first_bare user nonce)"
    by (simp add: gs2Split_def)
  have "client_first_bare user nonce = (''n='' @ escapeName user) @ CHR '','' # (''r='' @ nonce)"
    by (simp add: client_first_bare_def)
  then have s: "split_char CHR '','' (client_first_bare user nonce)
                = [''n='' @ escapeName user, ''r='' @ nonce]"
    using nonce_no_comma [OF assms(1)] by (simp add: split_char_append split_char_nosep)
  show ?thesis
    using assms g by (simp add: parseClientFirst_def s)
qed

lemma verify_iff:
  assumes "CHR '','' \<notin> set p64" "CHR '','' \<notin> set fn"
  shows "verifyClientFinal c cfb sf
      (client_final_bare fn @ CHR '','' # CHR ''p'' # CHR ''='' # p64) en ''n,,'' stored server =
     (let am = cfb @ '','' @ sf @ '','' @ client_final_bare fn; pr = b64_lenient c p64 in
      if fn \<noteq> en then Refused ''nonce-mismatch''
      else if length pr \<noteq> KEY_LEN then Refused ''malformed-proof''
      else if sha256 c (xorKey pr (hmac c stored am)) \<noteq> stored then Refused ''bad-proof''
      else Accepted (''v='' @ b64_encode (hmac c server am)))"
proof -
  have i: "sub_last_index '',p='' (client_final_bare fn @ '',p='' @ p64)
           = Some (length (client_final_bare fn))"
    using sub_last_index_suffix [of "CHR '',''" "''p=''" p64 "client_final_bare fn"] assms by simp
  have "client_final_bare fn = (''c='' @ b64_encode ''n,,'') @ CHR '','' # (''r='' @ fn)"
    by (simp add: client_final_bare_def)
  then have "split_char CHR '','' (client_final_bare fn) = [''c='' @ b64_encode ''n,,'', ''r='' @ fn]"
    using assms(2) comma_b64_encode [of "''n,,''"]
    by (simp add: split_char_append split_char_nosep del: b64_encode.simps)
  then have "scramAttrs (split_char CHR '','' (client_final_bare fn)) []
           = Some [(''c'', b64_encode ''n,,''), (''r'', fn)]"
    by (simp del: b64_encode.simps)
  with i show ?thesis
    by (simp add: verifyClientFinal_def utf8Encode_def Let_def del: b64_encode.simps)
qed

text \<open>The server's three calls on an honest client's messages.\<close>

definition scram_exchange ::
  "crypto \<Rightarrow> bytes \<Rightarrow> bytes \<Rightarrow> scram_keys option \<Rightarrow> string \<Rightarrow> (string \<Rightarrow> string) \<Rightarrow>
   scram_step \<times> scram_step \<times> scram_step" where
  "scram_exchange c secret rnd ks first finalOf =
     (let (s1, r1) = scram_start rnd first (newScramSession secret);
          (s2, r2) = provideKeys c ks s1;
          (s3, r3) = scram_final c (finalOf (serverFirst s2)) s2
      in (r1, r2, r3))"

lemma length_xorKey [simp]: "length (xorKey a b) = KEY_LEN"
  by (simp add: xorKey_def)

lemma comma_serverNonce [simp]: "CHR '','' \<notin> set (serverNonce rnd)"
  by (simp add: serverNonce_def)

text \<open>C6: SCRAM completeness and mutual authentication. A client that knows the password from which
  the stored keys were derived, and follows RFC 5802, is accepted under its own name, whatever
  characters the name holds, and the server's last message carries the signature that only a holder
  of the server key can compute. The hypotheses on \<open>crypto\<close> are the documented digest length of
  HMAC-SHA-256 and that \<open>Buffer.from(\<dots>, "base64")\<close> inverts \<open>toString("base64")\<close>.\<close>

theorem scram_honest_client:
  assumes digest: "\<forall>key m. length (hmac c key m) = KEY_LEN"
    and b64: "\<forall>bs. b64_lenient c (b64_encode bs) = bs"
    and nonce: "list_all nonce_char nonce" "nonce \<noteq> []"
  shows "scram_exchange c secret rnd (Some (deriveScramKeys c password slt iters))
           (''n,,'' @ client_first_bare user nonce)
           (\<lambda>sf. client_final_bare (nonce @ serverNonce rnd) @ '',p='' @
              b64_encode (client_proof c password (deriveScramKeys c password slt iters)
                (client_auth_message user nonce sf (nonce @ serverNonce rnd)))) =
         (let sf = buildServerFirst nonce (serverNonce rnd) slt iters in
          (NeedLookup user, NeedSend sf,
           Done user (''v='' @ b64_encode (hmac c (serverKey (deriveScramKeys c password slt iters))
             (client_auth_message user nonce sf (nonce @ serverNonce rnd))))))"
proof -
  have comma: "CHR '','' \<notin> set (nonce @ serverNonce rnd)"
    using nonce_no_comma [OF nonce(1)] by simp
  have cancel: "xorKey (xorKey (hmac c x y) z) z = hmac c x y" for x y z
    by (rule xorKey_cancel) (simp add: digest)
  show ?thesis
    using parse_client_first [OF nonce, of user] comma b64
    by (simp add: scram_exchange_def scram_start_def newScramSession_def provideKeys_def
        scram_final_def verify_iff deriveScramKeys_def client_proof_def client_auth_message_def
        cancel Let_def)
qed

definition toy_crypto :: crypto where
  "toy_crypto = \<lparr>hmac = (\<lambda>key m. take 32 (m @ replicate 32 NUL)), sha256 = (\<lambda>x. x),
                 pbkdf2 = (\<lambda>p s n. p), saslprep = Some, b64_lenient = b64_bytes\<rparr>"

theorem scram_honest_client_witness:
  "scram_exchange toy_crypto ''secret'' ''rnd'' (Some (deriveScramKeys toy_crypto ''pw'' ''salt'' 4096))
     (''n,,'' @ client_first_bare ''ann'' ''abc'')
     (\<lambda>sf. client_final_bare (''abc'' @ serverNonce ''rnd'') @ '',p='' @
        b64_encode (client_proof toy_crypto ''pw'' (deriveScramKeys toy_crypto ''pw'' ''salt'' 4096)
          (client_auth_message ''ann'' ''abc'' sf (''abc'' @ serverNonce ''rnd'')))) =
   (let sf = buildServerFirst ''abc'' (serverNonce ''rnd'') ''salt'' 4096 in
    (NeedLookup ''ann'', NeedSend sf,
     Done ''ann'' (''v='' @ b64_encode
       (hmac toy_crypto (serverKey (deriveScramKeys toy_crypto ''pw'' ''salt'' 4096))
         (client_auth_message ''ann'' ''abc'' sf (''abc'' @ serverNonce ''rnd''))))))"
  by (rule scram_honest_client)
    (simp_all add: toy_crypto_def KEY_LEN_def b64_bytes_encode nonce_char_def min_def)

lemma sub_last_index_SomeD:
  "sub_last_index pat s = Some i \<Longrightarrow> s = take i s @ pat @ drop (i + length pat) s"
proof (induction s arbitrary: i)
  case (Cons c cs)
  then show ?case by (auto simp: startsWith_iff split: option.splits if_splits)
qed (auto split: if_splits)

lemma verify_AcceptedD:
  assumes "verifyClientFinal c cfb sf m en hdr stored server = Accepted v"
  shows "\<exists>w p64 attrs. m = w @ '',p='' @ p64 \<and>
     scramAttrs (split_char CHR '','' w) [] = Some attrs \<and>
     map_of attrs ''c'' = Some (b64_encode (utf8Encode hdr)) \<and> map_of attrs ''r'' = Some en \<and>
     length (b64_lenient c p64) = KEY_LEN \<and>
     sha256 c (xorKey (b64_lenient c p64) (hmac c stored (cfb @ '','' @ sf @ '','' @ w))) = stored \<and>
     v = ''v='' @ b64_encode (hmac c server (cfb @ '','' @ sf @ '','' @ w))"
proof -
  obtain i where i: "sub_last_index '',p='' m = Some i"
    using assms by (cases "sub_last_index '',p='' m") (auto simp: verifyClientFinal_def)
  have m: "m = take i m @ '',p='' @ drop (i + 3) m" using sub_last_index_SomeD [OF i] by (simp add: numeral_3_eq_3)
  show ?thesis
    by (rule exI [of _ "take i m"], rule exI [of _ "drop (i + 3) m"])
      (use assms m in \<open>auto simp: verifyClientFinal_def i Let_def split: option.splits if_splits\<close>)
qed

text \<open>C7: SCRAM soundness and single use. A session that reports success was waiting for the final
  message, reports the name of its own client-first message, and was given a message whose \<open>c=\<close> and
  \<open>r=\<close> attributes are the session's and whose proof yields a key that hashes to the stored key; the
  session is closed afterwards and refuses every further final message.\<close>

theorem scram_final_sound:
  assumes "scram_final c m s = (s', Done u v)"
  shows "\<exists>k w p64 attrs. sc_state s = S_awaitingFinal \<and> keys s = Some k \<and> u = sc_username s \<and>
     m = w @ '',p='' @ p64 \<and> scramAttrs (split_char CHR '','' w) [] = Some attrs \<and>
     map_of attrs ''c'' = Some (b64_encode (utf8Encode (sc_gs2Header s))) \<and>
     map_of attrs ''r'' = Some (fullNonce s) \<and> length (b64_lenient c p64) = KEY_LEN \<and>
     sha256 c (xorKey (b64_lenient c p64) (hmac c (storedKey k)
       (clientFirstBare s @ '','' @ serverFirst s @ '','' @ w))) = storedKey k \<and>
     (\<forall>m'. \<exists>r. snd (scram_final c m' s') = Failed r)"
proof -
  obtain k where k: "sc_state s = S_awaitingFinal" "keys s = Some k"
    using assms by (auto simp: scram_final_def scram_fail_def split: scram_state.splits option.splits)
  have r: "u = sc_username s" "sc_state s' = S_closed"
      "verifyClientFinal c (clientFirstBare s) (serverFirst s) m (fullNonce s) (sc_gs2Header s)
         (storedKey k) (serverKey k) = Accepted v"
    using assms by (auto simp: scram_final_def scram_fail_def k Let_def split: scram_verdict.splits)
  have f: "\<forall>m'. \<exists>x. snd (scram_final c m' s') = Failed x"
    by (simp add: scram_final_def scram_fail_def r(2))
  show ?thesis
    using verify_AcceptedD [OF r(3)] k r(1) f by blast
qed

definition toy_session :: scram_session where
  "toy_session = (newScramSession [])\<lparr>sc_state := S_awaitingFinal, clientFirstBare := ''n=a,r=b'',
     sc_gs2Header := ''n,,'', sc_username := ''a'', fullNonce := ''b'', serverFirst := ''x'',
     keys := Some \<lparr>salt = [], iterations = 1,
                   storedKey = ''n=a,r=b,x,c=biws,r=b'' @ replicate 12 NUL, serverKey = ''k''\<rparr>\<rparr>"

definition toy_final :: string where
  "toy_final = ''c=biws,r=b,p='' @ b64_encode (replicate 32 NUL)"

lemma toy_accepted:
  "case scram_final toy_crypto toy_final toy_session of (s', Done u v) \<Rightarrow> u = ''a'' | _ \<Rightarrow> False"
  by code_simp

theorem scram_final_sound_witness:
  "\<exists>s' v. scram_final toy_crypto toy_final toy_session = (s', Done ''a'' v) \<and>
     (\<forall>m'. \<exists>r. snd (scram_final toy_crypto m' s') = Failed r)"
proof -
  obtain s' v where d: "scram_final toy_crypto toy_final toy_session = (s', Done ''a'' v)"
    using toy_accepted by (auto split: prod.splits scram_step.splits)
  then show ?thesis using scram_final_sound [OF d] by blast
qed

end
