(* ===== verification/Limits.thy ===== *)
theory Limits
  imports Prelude
begin

text \<open>
  The limits of \<open>core/src/limits.ts\<close> that the modelled components enforce, and the list of Sieve extensions
  (\<open>sieve/src/interpret.ts\<close>) that the interpreter accepts and the ManageSieve server announces.
\<close>

definition MAX_MESSAGE_BYTES :: nat where "MAX_MESSAGE_BYTES = 25 * 1024 * 1024"
definition MAX_COMMAND_LINE :: nat where "MAX_COMMAND_LINE = 4096"
definition MAX_PIPELINE_PENDING_BYTES :: nat where "MAX_PIPELINE_PENDING_BYTES = 1024 * 1024"
definition MAX_RCPT_PER_SESSION :: nat where "MAX_RCPT_PER_SESSION = 1000"
definition MAX_SMTP_ERRORS_PER_SESSION :: nat where "MAX_SMTP_ERRORS_PER_SESSION = 20"
definition MAX_IMAP_LINE_BYTES :: nat where "MAX_IMAP_LINE_BYTES = 64 * 1024"

definition SUPPORTED_EXTENSION_LIST :: "string list" where
  "SUPPORTED_EXTENSION_LIST =
     [''fileinto'', ''envelope'', ''imap4flags'', ''copy'', ''reject'', ''ereject'', ''vacation'', ''mailbox'',
      ''subaddress'', ''body'', ''relational'', ''date'', ''spamtest'', ''comparator-i;ascii-numeric'', ''include'',
      ''variables'', ''regex'']"

end
