(* ===== verification/SmtpEngine.thy ===== *)
theory SmtpEngine
  imports SmtpParse Scram Limits "HOL-Library.AList"
begin

text \<open>
  The SMTP receiver of \<open>proto-smtp/src/engine.ts\<close>: the class \<open>SmtpEngine\<close> as a record of its mutable
  fields (its read-only options are the record \<open>smtp_options\<close>), one function per method, the
  parser loop \<open>pump\<close> with its termination proof, and the public methods as the steps of a session.
  A method that raises returns \<open>Inl\<close>. One public call draws at most one server nonce; its 18
  random bytes are an argument.
\<close>

section \<open>State and actions\<close>

definition MAX_DATA_LINE :: nat where "MAX_DATA_LINE = 1024 * 1024"

datatype smtp_profile = Relay | Submission

record smtp_options =
  hostname :: string
  maxSizeBytes :: nat
  tlsAvailable :: bool
  profile :: smtp_profile
  authOffered :: bool
  allowInsecureAuth :: bool
  scramDecoySecret :: bytes
  scramOffered :: bool

record rcpt_dsn =
  rd_notify :: "string option"
  rd_orcpt :: "string option"

record mail_dsn =
  md_ret :: "dsn_ret option"
  md_envid :: "string option"

record smtp_dsn =
  dsn_ret_of :: "dsn_ret option"
  dsn_envid :: "string option"
  dsn_perRcpt :: "(string \<times> rcpt_dsn) list option"

record delivery =
  d_mailFrom :: string
  d_heloName :: string
  d_rcptTo :: "string list"
  d_raw :: bytes
  d_authenticatedAs :: "string option"
  d_dsn :: "smtp_dsn option"

datatype smtp_action =
    Reply string
  | StartTls
  | Rcpt string
  | Auth string string
  | ScramKeys string
  | AuthVerified string
  | AuthFailed "string option" string
  | Deliver delivery
  | Close

datatype rcpt_outcome = RcptOk | RcptRefused nat string string
datatype deliver_outcome = DeliverOk "string option" | DeliverRefused nat string string

datatype conn_state = CS_init | CS_greeted | CS_mail | CS_rcpt | CS_data | CS_bdat
datatype awaiting = Aw_rcpt | Aw_deliver | Aw_tls | Aw_auth | Aw_scramKeys

datatype oauth_mechanism = XOAUTH2 | OAUTHBEARER

fun mechanism_name :: "oauth_mechanism \<Rightarrow> string" where
  "mechanism_name XOAUTH2 = ''XOAUTH2''"
| "mechanism_name OAUTHBEARER = ''OAUTHBEARER''"

datatype auth_continuation =
    AC_Plain
  | AC_LoginUsername
  | AC_LoginPassword string
  | AC_OAuth oauth_mechanism
  | AC_ScramKeys scram_session
  | AC_ScramFinal scram_session
  | AC_ScramServerFinal scram_session string

record smtp =
  buffer :: bytes
  state :: conn_state
  isTls :: bool
  awaiting :: "awaiting option"
  closed :: bool
  mailFrom :: "string option"
  heloName :: string
  rcptTo :: "string list"
  rcptDsn :: "(string \<times> rcpt_dsn) list"
  mailDsn :: mail_dsn
  rcptCount :: nat
  bdatRemaining :: nat
  bdatLast :: bool
  errorCount :: nat
  pendingRcptAddress :: "string option"
  dataChunks :: "bytes list"
  dataSize :: nat
  dataOverflow :: bool
  pendingOverflow :: bool
  authenticatedAs :: "string option"
  authContinuation :: "auth_continuation option"
  pendingAuthUser :: "string option"

definition newSmtpEngine :: smtp where
  "newSmtpEngine =
     \<lparr>buffer = [], state = CS_init, isTls = False, awaiting = None, closed = False, mailFrom = None,
      heloName = [], rcptTo = [], rcptDsn = [], mailDsn = \<lparr>md_ret = None, md_envid = None\<rparr>,
      rcptCount = 0, bdatRemaining = 0, bdatLast = False, errorCount = 0, pendingRcptAddress = None,
      dataChunks = [], dataSize = 0, dataOverflow = False, pendingOverflow = False,
      authenticatedAs = None, authContinuation = None, pendingAuthUser = None\<rparr>"

definition reply :: "nat \<Rightarrow> string \<Rightarrow> string \<Rightarrow> smtp_action" where
  "reply n enhanced message = Reply (show_nat n @ '' '' @ enhanced @ '' '' @ message @ CRLF)"

definition rawReply :: "string \<Rightarrow> smtp_action" where
  "rawReply line = Reply (line @ CRLF)"

definition indexOfCRLF :: "bytes \<Rightarrow> nat option" where
  "indexOfCRLF buf = sub_index CRLF buf"

definition decodeLine :: "bytes \<Rightarrow> string" where
  "decodeLine bs = utf8Decode bs"

definition greeting :: "smtp_options \<Rightarrow> smtp_action list" where
  "greeting opt = [rawReply (''220 '' @ hostname opt @ '' ESMTP ready'')]"

section \<open>Handlers\<close>

definition resetTransaction :: "smtp \<Rightarrow> smtp" where
  "resetTransaction s =
     s\<lparr>mailFrom := None, rcptTo := [], pendingRcptAddress := None, dataChunks := [], dataSize := 0,
       dataOverflow := False, bdatRemaining := 0, bdatLast := False, rcptDsn := [],
       mailDsn := \<lparr>md_ret = None, md_envid = None\<rparr>,
       state := (if state s \<noteq> CS_init then CS_greeted else state s)\<rparr>"

definition authAllowed :: "smtp_options \<Rightarrow> smtp \<Rightarrow> bool" where
  "authAllowed opt s \<longleftrightarrow> authOffered opt \<and> (isTls s \<or> allowInsecureAuth opt)"

definition handleEhlo :: "smtp_options \<Rightarrow> string \<Rightarrow> smtp \<Rightarrow> smtp \<times> smtp_action list" where
  "handleEhlo opt rest s =
     (if length rest = 0 then (s, [reply 501 ''5.5.4'' ''Syntax: EHLO hostname''])
      else
        let s1 = (resetTransaction s)\<lparr>state := CS_greeted, heloName := rest\<rparr>;
            caps = [''8BITMIME'', ''PIPELINING'', ''ENHANCEDSTATUSCODES'', ''SMTPUTF8'', ''CHUNKING'', ''DSN''];
            lines =
              [''250-'' @ hostname opt @ '' Hello '' @ rest,
               ''250-SIZE '' @ show_nat (maxSizeBytes opt),
               ''250-LIMITS RCPTMAX='' @ show_nat MAX_RCPT_PER_SESSION]
              @ map (\<lambda>c. ''250-'' @ c) caps
              @ (if tlsAvailable opt \<and> \<not> isTls s1 then [''250-STARTTLS''] else [])
              @ (if authAllowed opt s1
                 then [''250-AUTH '' @ (if scramOffered opt
                         then ''SCRAM-SHA-256 PLAIN LOGIN XOAUTH2 OAUTHBEARER''
                         else ''PLAIN LOGIN XOAUTH2 OAUTHBEARER'')]
                 else []);
            lines1 = butlast lines @ [''250 '' @ drop 4 (last lines)]
        in (s1, [Reply (concat (map (\<lambda>l. l @ CRLF) lines1))]))"

definition handleHelo :: "smtp_options \<Rightarrow> string \<Rightarrow> smtp \<Rightarrow> smtp \<times> smtp_action list" where
  "handleHelo opt rest s =
     (if length rest = 0 then (s, [reply 501 ''5.5.4'' ''Syntax: HELO hostname''])
      else ((resetTransaction s)\<lparr>state := CS_greeted, heloName := rest\<rparr>,
            [rawReply (''250 '' @ hostname opt @ '' Hello '' @ rest)]))"

definition handleMail :: "smtp_options \<Rightarrow> string \<Rightarrow> smtp \<Rightarrow> smtp \<times> smtp_action list" where
  "handleMail opt rest s =
     (if state s = CS_init then (s, [reply 503 ''5.5.1'' ''Send HELO/EHLO first''])
      else if profile opt = Submission \<and> authenticatedAs s = None
        then (s, [reply 530 ''5.7.0'' ''Authentication required''])
      else if state s \<noteq> CS_greeted then (s, [reply 503 ''5.5.1'' ''Sender already specified''])
      else case parseMailFromArgs rest of
             Inl e \<Rightarrow> (s, [reply (pe_code e) (pe_enhanced e) (pe_message e)])
           | Inr p \<Rightarrow>
               if (case pm_size p of Some n \<Rightarrow> n > maxSizeBytes opt | None \<Rightarrow> False)
               then (s, [reply 552 ''5.3.4'' ''Message size exceeds fixed maximum message size''])
               else (s\<lparr>mailFrom := Some (pm_address p),
                       mailDsn := \<lparr>md_ret = pm_ret p, md_envid = pm_envid p\<rparr>,
                       rcptTo := [], state := CS_mail\<rparr>,
                     [reply 250 ''2.1.0'' ''OK'']))"

definition handleRcpt :: "string \<Rightarrow> smtp \<Rightarrow> smtp \<times> smtp_action list" where
  "handleRcpt rest s =
     (if state s \<noteq> CS_mail \<and> state s \<noteq> CS_rcpt then (s, [reply 503 ''5.5.1'' ''Need MAIL before RCPT''])
      else case parseRcptToArgs rest of
             Inl e \<Rightarrow> (s, [reply (pe_code e) (pe_enhanced e) (pe_message e)])
           | Inr v \<Rightarrow>
               if rcptCount s \<ge> MAX_RCPT_PER_SESSION
               then (s, [reply 452 ''4.5.3'' ''Too many recipients''])
               else
                 (s\<lparr>rcptCount := rcptCount s + 1,
                    pendingRcptAddress := Some (pr_address v),
                    rcptDsn := (if pr_notify v \<noteq> None \<or> pr_orcpt v \<noteq> None
                                then AList.update (pr_address v)
                                       \<lparr>rd_notify = pr_notify v, rd_orcpt = pr_orcpt v\<rparr> (rcptDsn s)
                                else rcptDsn s),
                    awaiting := Some Aw_rcpt\<rparr>,
                  [Rcpt (pr_address v)]))"

definition bdatArgs :: "string \<Rightarrow> (nat \<times> bool) option" where
  "bdatArgs rest =
     (let parts = split_ws (trim rest); p0 = hd parts in
      if \<not> all_digits p0 then None
      else case double_integer (digits_value p0) 1 of
             None \<Rightarrow> None
           | Some n \<Rightarrow>
               (let lst = (length parts > 1 \<and> toUpperCase (parts ! 1) = ''LAST'') in
                if length parts > 2 \<or> (length parts = 2 \<and> \<not> lst) then None else Some (n, lst)))"

definition handleBdat :: "smtp_options \<Rightarrow> string \<Rightarrow> smtp \<Rightarrow> smtp \<times> smtp_action list" where
  "handleBdat opt rest s =
     (if state s \<noteq> CS_rcpt \<and> state s \<noteq> CS_bdat then (s, [reply 503 ''5.5.1'' ''Need RCPT before BDAT''])
      else case bdatArgs rest of
             None \<Rightarrow> (s, [reply 501 ''5.5.4'' ''Syntax: BDAT <bytes> [LAST]''])
           | Some (n, lst) \<Rightarrow>
               (s\<lparr>dataOverflow := (dataOverflow s \<or> dataSize s + n > maxSizeBytes opt),
                  bdatRemaining := n, bdatLast := lst, state := CS_bdat\<rparr>, []))"

definition handleData :: "string \<Rightarrow> smtp \<Rightarrow> smtp \<times> smtp_action list" where
  "handleData rest s =
     (if length rest > 0 then (s, [reply 501 ''5.5.4'' ''Syntax: DATA''])
      else if state s \<noteq> CS_rcpt then (s, [reply 503 ''5.5.1'' ''Need RCPT before DATA''])
      else (s\<lparr>state := CS_data\<rparr>, [rawReply ''354 Start mail input; end with <CRLF>.<CRLF>'']))"

definition handleVrfy :: "string \<Rightarrow> smtp \<Rightarrow> smtp \<times> smtp_action list" where
  "handleVrfy rest s =
     (if length (trim rest) = 0 then (s, [reply 501 ''5.5.4'' ''Syntax: VRFY address''])
      else (s, [reply 252 ''2.1.5'' ''Cannot VRFY user, but will accept message'']))"

definition handleStartTls :: "smtp_options \<Rightarrow> smtp \<Rightarrow> smtp \<times> smtp_action list" where
  "handleStartTls opt s =
     (if \<not> tlsAvailable opt then (s, [reply 502 ''5.5.1'' ''Command not implemented''])
      else if isTls s then (s, [reply 503 ''5.5.1'' ''Already using TLS''])
      else (s\<lparr>buffer := [], awaiting := Some Aw_tls\<rparr>,
            [reply 220 ''2.0.0'' ''Ready to start TLS'', StartTls]))"

definition finishPlainAuth :: "string \<Rightarrow> smtp \<Rightarrow> smtp \<times> smtp_action list" where
  "finishPlainAuth b64 s =
     (case decodeSaslBase64 b64 of
        None \<Rightarrow> (s, [reply 501 ''5.5.2'' ''Invalid base64 encoding''])
      | Some bs \<Rightarrow>
          (case parseSaslPlain bs of
             None \<Rightarrow> (s, [reply 501 ''5.5.2'' ''Invalid PLAIN authentication response''])
           | Some (user, pass) \<Rightarrow>
               (s\<lparr>pendingAuthUser := Some user, awaiting := Some Aw_auth\<rparr>, [Auth user pass])))"

definition finishOAuthAuth :: "oauth_mechanism \<Rightarrow> string \<Rightarrow> smtp \<Rightarrow> smtp \<times> smtp_action list" where
  "finishOAuthAuth mechanism b64 s =
     (case decodeSaslBase64 b64 of
        None \<Rightarrow> (s, [reply 501 ''5.5.2'' ''Invalid base64 encoding''])
      | Some bs \<Rightarrow>
          (case parseSaslOAuth (mechanism_name mechanism) (utf8Decode bs) of
             None \<Rightarrow> (s, [reply 501 ''5.5.2''
                       (''Invalid '' @ mechanism_name mechanism @ '' authentication response'')])
           | Some (user, tok) \<Rightarrow>
               (s\<lparr>pendingAuthUser := Some user, awaiting := Some Aw_auth\<rparr>, [Auth user tok])))"

definition scramFailedAction :: "scram_step \<Rightarrow> smtp_action" where
  "scramFailedAction step =
     AuthFailed (case step of Failed (Some u) \<Rightarrow> if u \<noteq> [] then Some u else None | _ \<Rightarrow> None) ''SCRAM-SHA-256''"

definition beginScram ::
  "bytes \<Rightarrow> scram_session \<Rightarrow> string \<Rightarrow> smtp \<Rightarrow> smtp \<times> smtp_action list" where
  "beginScram rnd session b64 s =
     (case decodeSaslBase64 b64 of
        None \<Rightarrow> (s\<lparr>authContinuation := None\<rparr>, [reply 501 ''5.5.2'' ''Invalid base64 encoding''])
      | Some bs \<Rightarrow>
          (case scram_start rnd (utf8Decode bs) session of
             (session1, NeedLookup user) \<Rightarrow>
               (s\<lparr>authContinuation := Some (AC_ScramKeys session1), awaiting := Some Aw_scramKeys\<rparr>,
                [ScramKeys user])
           | (session1, step) \<Rightarrow>
               (s\<lparr>authContinuation := None\<rparr>,
                [scramFailedAction step, reply 535 ''5.7.8'' ''Authentication credentials invalid''])))"

definition handleAuth ::
  "smtp_options \<Rightarrow> bytes \<Rightarrow> string \<Rightarrow> smtp \<Rightarrow> smtp \<times> smtp_action list" where
  "handleAuth opt rnd rest s =
     (if \<not> authAllowed opt s then (s, [reply 502 ''5.5.1'' ''Command not implemented''])
      else if authenticatedAs s \<noteq> None then (s, [reply 503 ''5.5.1'' ''Already authenticated''])
      else let (mechanism, initialResponse) = splitVerb rest in
        if mechanism = ''PLAIN'' then
          (if length initialResponse > 0 then finishPlainAuth initialResponse s
           else (s\<lparr>authContinuation := Some AC_Plain\<rparr>, [rawReply ''334'']))
        else if mechanism = ''LOGIN'' then
          (if length initialResponse > 0 then
             (case decodeSaslBase64 initialResponse of
                None \<Rightarrow> (s, [reply 501 ''5.5.2'' ''Invalid base64 encoding''])
              | Some bs \<Rightarrow> (s\<lparr>authContinuation := Some (AC_LoginPassword (utf8Decode bs))\<rparr>,
                             [rawReply ''334 UGFzc3dvcmQ6'']))
           else (s\<lparr>authContinuation := Some AC_LoginUsername\<rparr>, [rawReply ''334 VXNlcm5hbWU6'']))
        else if mechanism = ''SCRAM-SHA-256'' then
          (if \<not> scramOffered opt then (s, [reply 504 ''5.5.4'' ''Unrecognized authentication type''])
           else let session = newScramSession (scramDecoySecret opt) in
             if length initialResponse > 0 then beginScram rnd session initialResponse s
             else (s\<lparr>authContinuation := Some (AC_ScramKeys session)\<rparr>, [rawReply ''334 '']))
        else if mechanism = ''XOAUTH2'' \<or> mechanism = ''OAUTHBEARER'' then
          (let m = (if mechanism = ''XOAUTH2'' then XOAUTH2 else OAUTHBEARER) in
           if length initialResponse > 0 then finishOAuthAuth m initialResponse s
           else (s\<lparr>authContinuation := Some (AC_OAuth m)\<rparr>, [rawReply ''334 '']))
        else (s, [reply 504 ''5.5.4'' ''Unrecognized authentication type'']))"

definition handleCommandLine ::
  "smtp_options \<Rightarrow> bytes \<Rightarrow> bytes \<Rightarrow> smtp \<Rightarrow> smtp \<times> smtp_action list" where
  "handleCommandLine opt rnd lineBytes s =
     (if length lineBytes > MAX_COMMAND_LINE then (s, [reply 550 ''5.5.2'' ''Line too long''])
      else let line = decodeLine lineBytes in
        if length (trim line) = 0 then (s, [reply 500 ''5.5.1'' ''Command unrecognized''])
        else let (verb, rest) = splitVerb line in
          if verb = ''EHLO'' then handleEhlo opt rest s
          else if verb = ''HELO'' then handleHelo opt rest s
          else if verb = ''MAIL'' then handleMail opt rest s
          else if verb = ''RCPT'' then handleRcpt rest s
          else if verb = ''DATA'' then handleData rest s
          else if verb = ''BDAT'' then handleBdat opt rest s
          else if verb = ''RSET'' then (resetTransaction s, [reply 250 ''2.1.5'' ''OK''])
          else if verb = ''NOOP'' then (s, [reply 250 ''2.0.0'' ''OK''])
          else if verb = ''QUIT'' then (s\<lparr>closed := True\<rparr>, [reply 221 ''2.0.0'' ''Bye'', Close])
          else if verb = ''VRFY'' then handleVrfy rest s
          else if verb = ''EXPN'' then (s, [reply 502 ''5.5.1'' ''Command not implemented''])
          else if verb = ''HELP'' then (s, [reply 214 ''2.0.0'' ''See RFC 5321''])
          else if verb = ''STARTTLS'' then handleStartTls opt s
          else if verb = ''AUTH'' then handleAuth opt rnd rest s
          else (s, [reply 500 ''5.5.1'' ''Command unrecognized'']))"

definition handleAuthContinuationLine ::
  "crypto \<Rightarrow> bytes \<Rightarrow> bytes \<Rightarrow> smtp \<Rightarrow> smtp \<times> smtp_action list" where
  "handleAuthContinuationLine c rnd lineBytes s =
     (if length lineBytes > MAX_COMMAND_LINE
      then (s\<lparr>authContinuation := None\<rparr>, [reply 501 ''5.5.2'' ''Line too long''])
      else let line = trim (decodeLine lineBytes) in
        if line = ''*'' then (s\<lparr>authContinuation := None\<rparr>, [reply 501 ''5.7.0'' ''Authentication cancelled''])
        else case authContinuation s of
          None \<Rightarrow> (s, [])
        | Some AC_Plain \<Rightarrow> finishPlainAuth line (s\<lparr>authContinuation := None\<rparr>)
        | Some (AC_OAuth m) \<Rightarrow> finishOAuthAuth m line (s\<lparr>authContinuation := None\<rparr>)
        | Some (AC_ScramKeys session) \<Rightarrow> beginScram rnd session line s
        | Some (AC_ScramServerFinal session username) \<Rightarrow>
            (s\<lparr>authContinuation := None, awaiting := Some Aw_auth, pendingAuthUser := Some username\<rparr>,
             [AuthVerified username])
        | Some (AC_ScramFinal session) \<Rightarrow>
            (case decodeSaslBase64 line of
               None \<Rightarrow> (s\<lparr>authContinuation := None\<rparr>, [reply 501 ''5.5.2'' ''Invalid base64 encoding''])
             | Some bs \<Rightarrow>
                 (case scram_final c (utf8Decode bs) session of
                    (session1, Done username message) \<Rightarrow>
                      (s\<lparr>authContinuation := Some (AC_ScramServerFinal session1 username)\<rparr>,
                       [rawReply (''334 '' @ b64_encode (utf8Encode message))])
                  | (session1, step) \<Rightarrow>
                      (s\<lparr>authContinuation := None\<rparr>,
                       [scramFailedAction step, reply 535 ''5.7.8'' ''Authentication credentials invalid''])))
        | Some AC_LoginUsername \<Rightarrow>
            (case decodeSaslBase64 line of
               None \<Rightarrow> (s\<lparr>authContinuation := None\<rparr>, [reply 501 ''5.5.2'' ''Invalid base64 encoding''])
             | Some bs \<Rightarrow> (s\<lparr>authContinuation := Some (AC_LoginPassword (utf8Decode bs))\<rparr>,
                            [rawReply ''334 UGFzc3dvcmQ6'']))
        | Some (AC_LoginPassword user) \<Rightarrow>
            (case decodeSaslBase64 line of
               None \<Rightarrow> (s\<lparr>authContinuation := None\<rparr>, [reply 501 ''5.5.2'' ''Invalid base64 encoding''])
             | Some bs \<Rightarrow> (s\<lparr>authContinuation := None, pendingAuthUser := Some user, awaiting := Some Aw_auth\<rparr>,
                            [Auth user (utf8Decode bs)])))"

section \<open>Message content\<close>

definition finishData :: "smtp \<Rightarrow> smtp \<times> smtp_action list" where
  "finishData s =
     (if dataOverflow s
      then (resetTransaction s, [reply 552 ''5.3.4'' ''Message size exceeds fixed maximum message size''])
      else
        let raw = concat (dataChunks s);
            perRcpt = foldl (\<lambda>m r. case map_of (rcptDsn s) r of
                                     Some d \<Rightarrow> AList.update r d m | None \<Rightarrow> m) [] (rcptTo s);
            dsn = (if md_ret (mailDsn s) \<noteq> None \<or> md_envid (mailDsn s) \<noteq> None \<or> perRcpt \<noteq> []
                   then Some \<lparr>dsn_ret_of = md_ret (mailDsn s), dsn_envid = md_envid (mailDsn s),
                              dsn_perRcpt = (if perRcpt \<noteq> [] then Some perRcpt else None)\<rparr>
                   else None)
        in (s\<lparr>dataChunks := [], dataSize := 0, awaiting := Some Aw_deliver\<rparr>,
            [Deliver \<lparr>d_mailFrom = orEmpty (mailFrom s), d_heloName = heloName s, d_rcptTo = rcptTo s,
                      d_raw = raw, d_authenticatedAs = authenticatedAs s, d_dsn = dsn\<rparr>]))"

definition guardDataBuffer :: "smtp_options \<Rightarrow> smtp \<Rightarrow> smtp" where
  "guardDataBuffer opt s =
     (let tooLong = length (buffer s) > MAX_DATA_LINE;
          tooBig = dataSize s + length (buffer s) > maxSizeBytes opt
      in if \<not> tooLong \<and> \<not> tooBig then s
         else s\<lparr>dataOverflow := True, dataChunks := [], dataSize := 0,
                buffer := (if buffer s \<noteq> [] \<and> last (buffer s) = CR then [CR] else [])\<rparr>)"

definition pumpDataLine :: "smtp_options \<Rightarrow> smtp \<Rightarrow> smtp \<times> smtp_action list \<times> bool" where
  "pumpDataLine opt s =
     (case indexOfCRLF (buffer s) of
        None \<Rightarrow> (guardDataBuffer opt s, [], False)
      | Some i \<Rightarrow>
          (let line = take i (buffer s); s1 = s\<lparr>buffer := drop (i + 2) (buffer s)\<rparr> in
           if line = [DOT] then (let (s2, acts) = finishData s1 in (s2, acts, True))
           else if \<not> dataOverflow s1 then
             (let content = (if line \<noteq> [] \<and> hd line = DOT then tl line else line);
                  lineTotal = length content + 2
              in if dataSize s1 + lineTotal > maxSizeBytes opt
                 then (s1\<lparr>dataOverflow := True, dataChunks := []\<rparr>, [], True)
                 else (s1\<lparr>dataChunks := dataChunks s1 @ [content, CRLF],
                          dataSize := dataSize s1 + lineTotal\<rparr>, [], True))
           else (s1, [], True)))"

text \<open>\<open>pumpBdat\<close>: first the bytes of the chunk, then, when none remain, its end.\<close>

definition bdatRead :: "smtp \<Rightarrow> smtp" where
  "bdatRead s =
     (let n = min (bdatRemaining s) (length (buffer s)); chunk = take n (buffer s) in
      s\<lparr>buffer := drop n (buffer s), bdatRemaining := bdatRemaining s - n,
        dataChunks := (if dataOverflow s then dataChunks s else dataChunks s @ [chunk]),
        dataSize := (if dataOverflow s then dataSize s else dataSize s + n)\<rparr>)"

definition bdatEnd :: "smtp \<Rightarrow> smtp \<times> smtp_action list \<times> bool" where
  "bdatEnd s =
     (if dataOverflow s
      then ((resetTransaction s)\<lparr>state := CS_greeted\<rparr>,
            [reply 552 ''5.3.4'' ''Message size exceeds limit''], True)
      else if \<not> bdatLast s
      then (s\<lparr>state := CS_rcpt\<rparr>,
            [reply 250 ''2.0.0'' (show_nat (dataSize s) @ '' octets received'')], True)
      else let (s1, acts) = finishData s in (s1, acts, True))"

definition pumpBdat :: "smtp \<Rightarrow> smtp \<times> smtp_action list \<times> bool" where
  "pumpBdat s =
     (if bdatRemaining s > 0 then
        (if length (buffer s) = 0 then (s, [], False)
         else let s1 = bdatRead s in
           if bdatRemaining s1 > 0 then (s1, [], False) else bdatEnd s1)
      else bdatEnd s)"

section \<open>The parser loop\<close>

definition pumpLine ::
  "(bytes \<Rightarrow> smtp \<Rightarrow> smtp \<times> smtp_action list) \<Rightarrow> (smtp \<Rightarrow> smtp \<times> smtp_action list) \<Rightarrow> smtp \<Rightarrow>
   smtp \<times> smtp_action list \<times> bool" where
  "pumpLine handle tooLong s =
     (case indexOfCRLF (buffer s) of
        None \<Rightarrow>
          if length (buffer s) > MAX_COMMAND_LINE
          then (let (s1, acts) = tooLong (s\<lparr>buffer := []\<rparr>) in (s1, acts, False)) else (s, [], False)
      | Some i \<Rightarrow>
          (let (s1, acts) = handle (take i (buffer s)) (s\<lparr>buffer := drop (i + 2) (buffer s)\<rparr>)
           in (s1, acts, True)))"

definition pumpStep ::
  "crypto \<Rightarrow> smtp_options \<Rightarrow> bytes \<Rightarrow> smtp \<Rightarrow> smtp \<times> smtp_action list \<times> bool" where
  "pumpStep c opt rnd s =
     (if authContinuation s \<noteq> None then
        pumpLine (handleAuthContinuationLine c rnd)
          (\<lambda>t. (t\<lparr>authContinuation := None\<rparr>, [reply 501 ''5.5.2'' ''Line too long''])) s
      else if state s = CS_data then pumpDataLine opt s
      else if state s = CS_bdat then pumpBdat s
      else pumpLine (handleCommandLine opt rnd)
             (\<lambda>t. (t, [reply 550 ''5.5.2'' ''Line too long''])) s)"

definition pump_measure :: "smtp \<Rightarrow> nat" where
  "pump_measure s = 2 * length (buffer s) + (if state s = CS_bdat \<and> awaiting s = None then 1 else 0)"

lemma indexOfCRLF_bound: "indexOfCRLF b = Some i \<Longrightarrow> i + 2 \<le> length b"
  using sub_index_bound [of CRLF b i] by (simp add: indexOfCRLF_def)

named_theorems smtp_defs \<open>definitions of the handlers of the SMTP engine\<close>

lemmas [smtp_defs] =
  handleEhlo_def handleHelo_def handleMail_def handleRcpt_def handleBdat_def handleData_def
  handleVrfy_def handleStartTls_def finishPlainAuth_def finishOAuthAuth_def beginScram_def
  handleAuth_def handleCommandLine_def handleAuthContinuationLine_def finishData_def
  guardDataBuffer_def pumpDataLine_def bdatRead_def bdatEnd_def pumpBdat_def resetTransaction_def

lemmas smtp_splits = if_splits option.splits sum.splits prod.splits scram_step.splits
  auth_continuation.splits

text \<open>No handler lengthens the input buffer.\<close>

lemma finishPlainAuth_buffer: "finishPlainAuth b s = (s', a) \<Longrightarrow> buffer s' = buffer s"
  by (auto simp: finishPlainAuth_def split: smtp_splits)

lemma finishOAuthAuth_buffer: "finishOAuthAuth m b s = (s', a) \<Longrightarrow> buffer s' = buffer s"
  by (auto simp: finishOAuthAuth_def split: smtp_splits)

lemma beginScram_buffer: "beginScram r x b s = (s', a) \<Longrightarrow> buffer s' = buffer s"
  by (auto simp: beginScram_def split: smtp_splits)

lemmas auth_buffer = finishPlainAuth_buffer finishOAuthAuth_buffer beginScram_buffer

lemma handleAuth_buffer: "handleAuth opt r x s = (s', a) \<Longrightarrow> buffer s' = buffer s"
  by (auto simp: handleAuth_def Let_def dest: auth_buffer split: smtp_splits)

lemma handleAuthContinuationLine_buffer:
  "handleAuthContinuationLine c r l s = (s', a) \<Longrightarrow> buffer s' = buffer s"
  by (auto simp: handleAuthContinuationLine_def Let_def dest!: auth_buffer split: smtp_splits)

lemma handleCommandLine_buffer:
  "handleCommandLine opt r l s = (s', a) \<Longrightarrow> length (buffer s') \<le> length (buffer s)"
  by (auto simp: handleCommandLine_def handleEhlo_def handleHelo_def handleMail_def handleRcpt_def
      handleBdat_def handleData_def handleVrfy_def handleStartTls_def resetTransaction_def Let_def
      dest!: handleAuth_buffer split: smtp_splits)

lemma finishData_buffer: "finishData s = (s', a) \<Longrightarrow> buffer s' = buffer s"
  by (auto simp: finishData_def resetTransaction_def Let_def split: if_splits)

lemma pumpLine_decreases:
  assumes "pumpLine h g s = (s', a, True)"
    and "\<And>l t t' b. h l t = (t', b) \<Longrightarrow> length (buffer t') \<le> length (buffer t)"
  shows "pump_measure s' < pump_measure s"
proof -
  obtain i where i: "indexOfCRLF (buffer s) = Some i"
      "h (take i (buffer s)) (s\<lparr>buffer := drop (i + 2) (buffer s)\<rparr>) = (s', a)"
    using assms(1) by (auto simp: pumpLine_def split: option.splits if_splits prod.splits)
  then have "length (buffer s') \<le> length (buffer s) - (i + 2)" "i + 2 \<le> length (buffer s)"
    using assms(2) [OF i(2)] indexOfCRLF_bound by auto
  then have "2 * length (buffer s') + 1 < 2 * length (buffer s)" by linarith
  then show ?thesis by (auto simp: pump_measure_def)
qed

lemma pumpDataLine_decreases: "pumpDataLine opt s = (s', a, True) \<Longrightarrow> pump_measure s' < pump_measure s"
proof -
  assume p: "pumpDataLine opt s = (s', a, True)"
  then obtain i where i: "indexOfCRLF (buffer s) = Some i"
    by (auto simp: pumpDataLine_def split: option.splits)
  with p have "buffer s' = drop (i + 2) (buffer s)"
    by (auto simp: pumpDataLine_def Let_def dest: finishData_buffer split: if_splits prod.splits)
  then show ?thesis using indexOfCRLF_bound [OF i] by (auto simp: pump_measure_def)
qed

lemma bdatEnd_measure: "bdatEnd s = (s', a, b) \<Longrightarrow> pump_measure s' = 2 * length (buffer s)"
  by (auto simp: bdatEnd_def finishData_def resetTransaction_def pump_measure_def Let_def
      split: if_splits)

lemma pumpBdat_decreases:
  assumes "pumpBdat s = (s', a, True)" "state s = CS_bdat" "awaiting s = None"
  shows "pump_measure s' < pump_measure s"
proof -
  have "length (buffer (bdatRead s)) \<le> length (buffer s)" by (simp add: bdatRead_def Let_def)
  then show ?thesis
    using assms by (auto simp: pumpBdat_def Let_def pump_measure_def dest!: bdatEnd_measure split: if_splits)
qed

lemma pumpStep_decreases:
  assumes "pumpStep c opt rnd s = (s', a, True)" "awaiting s = None"
  shows "pump_measure s' < pump_measure s"
proof -
  consider "authContinuation s \<noteq> None" | "authContinuation s = None" "state s = CS_data"
    | "authContinuation s = None" "state s = CS_bdat"
    | "authContinuation s = None" "state s \<noteq> CS_data" "state s \<noteq> CS_bdat" by blast
  then show ?thesis
  proof cases
    case 1
    with assms(1) show ?thesis
      by (simp add: pumpStep_def)
        (erule pumpLine_decreases, auto dest: handleAuthContinuationLine_buffer)
  next
    case 2
    with assms show ?thesis by (simp add: pumpStep_def pumpDataLine_decreases)
  next
    case 3
    with assms show ?thesis by (simp add: pumpStep_def pumpBdat_decreases)
  next
    case 4
    with assms(1) show ?thesis
      by (simp add: pumpStep_def) (erule pumpLine_decreases, auto dest: handleCommandLine_buffer)
  qed
qed

text \<open>The \<open>while\<close> loop of \<open>pump\<close>: it stops for a pending answer, on a closed session, and when a
  pass asks for more bytes.\<close>

function pumpLoop :: "crypto \<Rightarrow> smtp_options \<Rightarrow> bytes \<Rightarrow> smtp \<Rightarrow> smtp \<times> smtp_action list" where
  "pumpLoop c opt rnd s =
     (if awaiting s \<noteq> None \<or> closed s then (s, [])
      else let (s1, acts, again) = pumpStep c opt rnd s in
        if again then (let (s2, more) = pumpLoop c opt rnd s1 in (s2, acts @ more)) else (s1, acts))"
  by pat_completeness auto
termination
  by (relation "measure (\<lambda>(c, opt, rnd, s). pump_measure s)")
    (auto intro: pumpStep_decreases [OF sym])

declare pumpLoop.simps [simp del]

definition pump :: "crypto \<Rightarrow> smtp_options \<Rightarrow> bytes \<Rightarrow> smtp \<Rightarrow> smtp \<times> smtp_action list" where
  "pump c opt rnd s =
     (if pendingOverflow s
      then (s\<lparr>pendingOverflow := False, closed := True, buffer := []\<rparr>,
            [reply 421 ''4.7.0'' ''Too much pipelined data, closing connection'', Close])
      else pumpLoop c opt rnd s)"

section \<open>Public methods\<close>

fun is_error_reply :: "smtp_action \<Rightarrow> bool" where
  "is_error_reply (Reply text) \<longleftrightarrow> startsWith ''4'' text \<or> startsWith ''5'' text"
| "is_error_reply _ \<longleftrightarrow> False"

definition guardErrors :: "smtp \<times> smtp_action list \<Rightarrow> smtp \<times> smtp_action list" where
  "guardErrors sa =
     (let (s, actions) = sa in
      if closed s then (s, actions)
      else let s1 = s\<lparr>errorCount := errorCount s + length (filter is_error_reply actions)\<rparr> in
        if errorCount s1 \<le> MAX_SMTP_ERRORS_PER_SESSION then (s1, actions)
        else (s1\<lparr>closed := True, buffer := []\<rparr>,
              actions @ [reply 421 ''4.7.0'' ''Too many errors, closing connection'', Close]))"

text \<open>\<open>actions.push(...this.pump()); return this.guardErrors(actions)\<close>.\<close>

definition resume ::
  "crypto \<Rightarrow> smtp_options \<Rightarrow> bytes \<Rightarrow> smtp_action list \<Rightarrow> smtp \<Rightarrow> smtp \<times> smtp_action list" where
  "resume c opt rnd actions s = guardErrors (let (s1, more) = pump c opt rnd s in (s1, actions @ more))"

definition feed :: "crypto \<Rightarrow> smtp_options \<Rightarrow> bytes \<Rightarrow> bytes \<Rightarrow> smtp \<Rightarrow> smtp \<times> smtp_action list" where
  "feed c opt rnd chunk s =
     (if closed s then (s, [])
      else if awaiting s \<noteq> None then
        (if length (buffer s) + length chunk > MAX_PIPELINE_PENDING_BYTES
         then (s\<lparr>pendingOverflow := True\<rparr>, [])
         else (s\<lparr>buffer := buffer s @ chunk\<rparr>, []))
      else resume c opt rnd [] (s\<lparr>buffer := buffer s @ chunk\<rparr>))"

definition rcptResult ::
  "crypto \<Rightarrow> smtp_options \<Rightarrow> bytes \<Rightarrow> rcpt_outcome \<Rightarrow> smtp \<Rightarrow> string + smtp \<times> smtp_action list" where
  "rcptResult c opt rnd outcome s =
     (if awaiting s \<noteq> Some Aw_rcpt
      then Inl ''rcptResult() called without a pending RCPT verification''
      else
        let address = orEmpty (pendingRcptAddress s);
            s1 = s\<lparr>pendingRcptAddress := None, awaiting := None\<rparr>
        in Inr (case outcome of
             RcptOk \<Rightarrow> resume c opt rnd [reply 250 ''2.1.5'' (address @ '' OK'')]
                         (s1\<lparr>rcptTo := rcptTo s1 @ [address], state := CS_rcpt\<rparr>)
           | RcptRefused n enhanced message \<Rightarrow> resume c opt rnd [reply n enhanced message] s1))"

definition deliveryResult ::
  "crypto \<Rightarrow> smtp_options \<Rightarrow> bytes \<Rightarrow> deliver_outcome \<Rightarrow> smtp \<Rightarrow> string + smtp \<times> smtp_action list" where
  "deliveryResult c opt rnd outcome s =
     (if awaiting s \<noteq> Some Aw_deliver then Inl ''deliveryResult() called without a pending delivery''
      else
        let act = (case outcome of
                     DeliverOk queuedId \<Rightarrow>
                       reply 250 ''2.6.0'' (case queuedId of Some q \<Rightarrow> ''queued as '' @ q | None \<Rightarrow> ''OK'')
                   | DeliverRefused n enhanced message \<Rightarrow> reply n enhanced message)
        in Inr (resume c opt rnd [act] (resetTransaction (s\<lparr>awaiting := None\<rparr>))))"

definition authResult ::
  "crypto \<Rightarrow> smtp_options \<Rightarrow> bytes \<Rightarrow> bool \<Rightarrow> smtp \<Rightarrow> string + smtp \<times> smtp_action list" where
  "authResult c opt rnd ok s =
     (if awaiting s \<noteq> Some Aw_auth then Inl ''authResult() called without a pending AUTH verification''
      else
        let user = pendingAuthUser s; s1 = s\<lparr>pendingAuthUser := None, awaiting := None\<rparr> in
        Inr (if ok then resume c opt rnd [reply 235 ''2.7.0'' ''Authentication successful'']
                          (s1\<lparr>authenticatedAs := user\<rparr>)
             else resume c opt rnd [reply 535 ''5.7.8'' ''Authentication credentials invalid''] s1))"

fun scramSessionOf :: "auth_continuation option \<Rightarrow> scram_session option" where
  "scramSessionOf (Some (AC_ScramKeys session)) = Some session"
| "scramSessionOf (Some (AC_ScramFinal session)) = Some session"
| "scramSessionOf (Some (AC_ScramServerFinal session username)) = Some session"
| "scramSessionOf _ = None"

definition scramAnswer ::
  "crypto \<Rightarrow> scram_keys option \<Rightarrow> scram_session \<Rightarrow> smtp \<Rightarrow> smtp \<times> smtp_action list" where
  "scramAnswer c ks session s =
     (case provideKeys c ks session of
        (session1, NeedSend message) \<Rightarrow>
          (s\<lparr>authContinuation := Some (AC_ScramFinal session1)\<rparr>,
           [rawReply (''334 '' @ b64_encode (utf8Encode message))])
      | (session1, step) \<Rightarrow>
          (s\<lparr>authContinuation := None\<rparr>,
           [scramFailedAction step, reply 535 ''5.7.8'' ''Authentication credentials invalid'']))"

definition scramKeysResult ::
  "crypto \<Rightarrow> smtp_options \<Rightarrow> bytes \<Rightarrow> scram_keys option \<Rightarrow> smtp \<Rightarrow> string + smtp \<times> smtp_action list" where
  "scramKeysResult c opt rnd ks s =
     (if awaiting s \<noteq> Some Aw_scramKeys
      then Inl ''scramKeysResult() called without a pending SCRAM lookup''
      else
        let s1 = s\<lparr>awaiting := None\<rparr>;
            (s2, acts) = (case scramSessionOf (authContinuation s) of
                            Some session \<Rightarrow> scramAnswer c ks session s1
                          | None \<Rightarrow> (s1, []))
        in Inr (resume c opt rnd acts s2))"

definition tlsUpgraded :: "smtp \<Rightarrow> smtp" where
  "tlsUpgraded s =
     s\<lparr>isTls := True, awaiting := None, state := CS_init, mailFrom := None, rcptTo := [],
       pendingRcptAddress := None, dataChunks := [], dataSize := 0, dataOverflow := False,
       buffer := [], pendingOverflow := False, authenticatedAs := None, authContinuation := None,
       pendingAuthUser := None\<rparr>"

text \<open>What an adapter can call, and a session as a sequence of calls.\<close>

datatype smtp_input =
    Feed bytes
  | RcptResult rcpt_outcome
  | DeliveryResult deliver_outcome
  | AuthResult bool
  | ScramKeysResult "scram_keys option"
  | TlsUpgraded

fun smtp_call :: "crypto \<Rightarrow> smtp_options \<Rightarrow> bytes \<Rightarrow> smtp_input \<Rightarrow> smtp \<Rightarrow> string + smtp \<times> smtp_action list" where
  "smtp_call c opt rnd (Feed chunk) s = Inr (feed c opt rnd chunk s)"
| "smtp_call c opt rnd (RcptResult outcome) s = rcptResult c opt rnd outcome s"
| "smtp_call c opt rnd (DeliveryResult outcome) s = deliveryResult c opt rnd outcome s"
| "smtp_call c opt rnd (AuthResult ok) s = authResult c opt rnd ok s"
| "smtp_call c opt rnd (ScramKeysResult ks) s = scramKeysResult c opt rnd ks s"
| "smtp_call c opt rnd TlsUpgraded s = Inr (tlsUpgraded s, [])"

end
