(* ===== verification/SmtpSession.thy ===== *)
theory SmtpSession
  imports SmtpEngine
begin

text \<open>
  Sessions of the SMTP engine: sequences of calls of its public methods. The locales
  \<open>pump_relation\<close> and \<open>smtp_invariant\<close> are the contracts through which a fact about one pass of
  the parser loop becomes a fact about every session; they are interpreted for the well-formed
  states, for sessions without TLS, and for the counters.
\<close>

section \<open>Calls\<close>

text \<open>How the answer to a pending request changes the state, before the loop resumes.\<close>

inductive answered :: "smtp \<Rightarrow> smtp \<Rightarrow> bool" where
  rcptAccepted: "awaiting s = Some Aw_rcpt \<Longrightarrow>
     answered s (s\<lparr>pendingRcptAddress := None, awaiting := None,
                   rcptTo := rcptTo s @ [orEmpty (pendingRcptAddress s)], state := CS_rcpt\<rparr>)"
| rcptRefused: "awaiting s = Some Aw_rcpt \<Longrightarrow>
     answered s (s\<lparr>pendingRcptAddress := None, awaiting := None\<rparr>)"
| delivered: "awaiting s = Some Aw_deliver \<Longrightarrow> answered s (resetTransaction (s\<lparr>awaiting := None\<rparr>))"
| authAccepted: "awaiting s = Some Aw_auth \<Longrightarrow>
     answered s (s\<lparr>pendingAuthUser := None, awaiting := None, authenticatedAs := pendingAuthUser s\<rparr>)"
| authRefused: "awaiting s = Some Aw_auth \<Longrightarrow>
     answered s (s\<lparr>pendingAuthUser := None, awaiting := None\<rparr>)"
| keysProvided: "awaiting s = Some Aw_scramKeys \<Longrightarrow>
     answered s (s\<lparr>awaiting := None, authContinuation := Some (AC_ScramFinal session)\<rparr>)"
| keysRefused: "awaiting s = Some Aw_scramKeys \<Longrightarrow>
     answered s (s\<lparr>awaiting := None, authContinuation := None\<rparr>)"
| keysIgnored: "awaiting s = Some Aw_scramKeys \<Longrightarrow> answered s (s\<lparr>awaiting := None\<rparr>)"

inductive_cases answeredE: "answered s s'"

fun is_text :: "smtp_action \<Rightarrow> bool" where
  "is_text (Reply _) = True"
| "is_text Close = True"
| "is_text (AuthFailed _ _) = True"
| "is_text _ = False"

lemma reply_is_text [simp]: "is_text (reply n e m)" "is_text (rawReply l)" "is_text (scramFailedAction st)"
  by (simp_all add: reply_def rawReply_def scramFailedAction_def)

text \<open>Every public method is an answer (or new bytes) followed by \<open>resume\<close>.\<close>

lemma rcptResult_cases:
  assumes "rcptResult c opt rnd out s = Inr r"
  shows "\<exists>s1 acts. answered s s1 \<and> list_all is_text acts \<and> r = resume c opt rnd acts s1"
proof (cases out)
  case RcptOk
  with assms rcptAccepted [of s] show ?thesis
    by (intro exI conjI) (auto simp: rcptResult_def Let_def split: if_splits)
next
  case (RcptRefused n e m)
  with assms rcptRefused [of s] show ?thesis
    by (intro exI conjI) (auto simp: rcptResult_def Let_def split: if_splits)
qed

lemma deliveryResult_cases:
  assumes "deliveryResult c opt rnd out s = Inr r"
  shows "\<exists>s1 acts. answered s s1 \<and> list_all is_text acts \<and> r = resume c opt rnd acts s1"
  using assms delivered [of s]
  by (cases out) (auto simp: deliveryResult_def Let_def simp del: reply_def
      intro!: exI [of _ "resetTransaction (s\<lparr>awaiting := None\<rparr>)"] exI [of _ "[_]"] split: if_splits)

lemma authResult_cases:
  assumes "authResult c opt rnd ok s = Inr r"
  shows "\<exists>s1 acts. answered s s1 \<and> list_all is_text acts \<and> r = resume c opt rnd acts s1"
proof (cases ok)
  case True
  with assms authAccepted [of s] show ?thesis
    by (intro exI conjI) (auto simp: authResult_def Let_def split: if_splits)
next
  case False
  with assms authRefused [of s] show ?thesis
    by (intro exI conjI) (auto simp: authResult_def Let_def split: if_splits)
qed

lemma scramAnswer_cases:
  assumes "awaiting s = Some Aw_scramKeys" "scramAnswer c ks session (s\<lparr>awaiting := None\<rparr>) = (s1, acts)"
  shows "answered s s1 \<and> list_all is_text acts"
  using assms(2) keysProvided [OF assms(1)] keysRefused [OF assms(1)]
  by (auto simp: scramAnswer_def split: prod.splits scram_step.splits)

lemma scramKeysResult_cases:
  assumes "scramKeysResult c opt rnd ks s = Inr r"
  shows "\<exists>s1 acts. answered s s1 \<and> list_all is_text acts \<and> r = resume c opt rnd acts s1"
proof -
  have aw: "awaiting s = Some Aw_scramKeys"
    using assms by (auto simp: scramKeysResult_def split: if_splits)
  show ?thesis
  proof (cases "scramSessionOf (authContinuation s)")
    case None
    with assms have "r = resume c opt rnd [] (s\<lparr>awaiting := None\<rparr>)"
      by (simp add: scramKeysResult_def aw)
    then show ?thesis using keysIgnored [OF aw] by (auto intro!: exI [of _ "[]"])
  next
    case (Some session)
    obtain s1 acts where sa: "scramAnswer c ks session (s\<lparr>awaiting := None\<rparr>) = (s1, acts)" by force
    with assms Some have "r = resume c opt rnd acts s1" by (simp add: scramKeysResult_def aw)
    then show ?thesis using scramAnswer_cases [OF aw sa] by blast
  qed
qed

lemma smtp_call_cases:
  assumes "smtp_call c opt rnd i s = Inr r"
  shows "(\<exists>chunk. i = Feed chunk \<and> r = feed c opt rnd chunk s) \<or> (i = TlsUpgraded \<and> r = (tlsUpgraded s, [])) \<or>
     (\<exists>s1 acts. answered s s1 \<and> list_all is_text acts \<and> r = resume c opt rnd acts s1)"
  using assms
  by (cases i) (auto dest!: rcptResult_cases deliveryResult_cases authResult_cases scramKeysResult_cases)

text \<open>The states and the output of a session whose calls are all \<open>allowed\<close>.\<close>

inductive smtp_session ::
  "crypto \<Rightarrow> smtp_options \<Rightarrow> (smtp_input \<Rightarrow> bool) \<Rightarrow> smtp \<Rightarrow> smtp_action list \<Rightarrow> bool"
  for c opt allowed where
  start: "smtp_session c opt allowed newSmtpEngine []"
| call: "smtp_session c opt allowed s acts \<Longrightarrow> allowed i \<Longrightarrow> smtp_call c opt rnd i s = Inr (s', out) \<Longrightarrow>
     smtp_session c opt allowed s' (acts @ out)"

text \<open>
  The contract of the loop: a reflexive and transitive relation between a state, the actions emitted
  and the next state that one pass respects is respected by the whole loop.
\<close>

locale pump_relation =
  fixes opt :: smtp_options
    and rel :: "smtp \<Rightarrow> smtp_action list \<Rightarrow> smtp \<Rightarrow> bool"
  assumes pass: "awaiting s = None \<Longrightarrow> pumpStep c opt rnd s = (s', acts, b) \<Longrightarrow> rel s acts s'"
    and rel_refl: "rel s [] s"
    and rel_trans: "rel s acts t \<Longrightarrow> rel t acts2 u \<Longrightarrow> rel s (acts @ acts2) u"
begin

lemma loop: "pumpLoop c opt rnd s = (s', acts) \<Longrightarrow> rel s acts s'"
proof (induction "pump_measure s" arbitrary: s s' acts rule: less_induct)
  case less
  show ?case
  proof (cases "awaiting s \<noteq> None \<or> closed s")
    case True
    with less.prems rel_refl show ?thesis by (subst (asm) pumpLoop.simps) auto
  next
    case open_idle: False
    obtain s1 a b where p: "pumpStep c opt rnd s = (s1, a, b)" by (metis prod.exhaust)
    have s1: "rel s a s1" using pass [OF _ p] open_idle by simp
    show ?thesis
    proof (cases b)
      case True
      obtain s2 m where l: "pumpLoop c opt rnd s1 = (s2, m)" by force
      have "pump_measure s1 < pump_measure s"
        using pumpStep_decreases [of c opt rnd s s1 a] p True open_idle by simp
      then have "rel s1 m s2" using less.hyps l by blast
      moreover have "s' = s2 \<and> acts = a @ m"
        using less.prems open_idle p True l by (subst (asm) pumpLoop.simps) simp
      ultimately show ?thesis using s1 rel_trans by blast
    next
      case False
      with less.prems open_idle p have "s' = s1 \<and> acts = a" by (subst (asm) pumpLoop.simps) simp
      with s1 show ?thesis by simp
    qed
  qed
qed

end

text \<open>
  The contract of an invariant: \<open>inv\<close> is kept and every action satisfies \<open>good\<close> in one pass of the
  loop, in every answer and in every call that the adapter may make (\<open>allowed\<close>). Then both hold
  for every session.
\<close>

locale smtp_invariant =
  fixes opt :: smtp_options
    and inv :: "smtp \<Rightarrow> bool"
    and good :: "smtp_action \<Rightarrow> bool"
    and allowed :: "smtp_input \<Rightarrow> bool"
  assumes step: "inv s \<Longrightarrow> awaiting s = None \<Longrightarrow> pumpStep c opt rnd s = (s', acts, b) \<Longrightarrow>
      inv s' \<and> list_all good acts"
    and frame: "inv s \<Longrightarrow> inv (s\<lparr>buffer := bs, errorCount := n, pendingOverflow := p, closed := q\<rparr>)"
    and answer: "inv s \<Longrightarrow> answered s s' \<Longrightarrow> inv s'"
    and text_good: "is_text a \<Longrightarrow> good a"
    and upgrade: "allowed TlsUpgraded \<Longrightarrow> inv s \<Longrightarrow> inv (tlsUpgraded s)"
    and initial: "inv newSmtpEngine"
begin

lemma inv_buffer: "inv s \<Longrightarrow> inv (s\<lparr>buffer := bs\<rparr>)"
  using frame [where s = s and bs = bs and n = "errorCount s" and p = "pendingOverflow s" and q = "closed s"]
  by simp

lemma inv_pendingOverflow: "inv s \<Longrightarrow> inv (s\<lparr>pendingOverflow := p\<rparr>)"
  using frame [where s = s and bs = "buffer s" and n = "errorCount s" and p = p and q = "closed s"] by simp

lemma inv_errorCount: "inv s \<Longrightarrow> inv (s\<lparr>errorCount := n\<rparr>)"
  using frame [where s = s and bs = "buffer s" and n = n and p = "pendingOverflow s" and q = "closed s"] by simp

lemma inv_closed: "inv s \<Longrightarrow> inv (s\<lparr>closed := q\<rparr>)"
  using frame [where s = s and bs = "buffer s" and n = "errorCount s" and p = "pendingOverflow s" and q = q] by simp

lemmas inv_frame = inv_buffer inv_pendingOverflow inv_errorCount inv_closed

end

sublocale smtp_invariant \<subseteq> pass: pump_relation opt "\<lambda>s acts s'. inv s \<longrightarrow> inv s' \<and> list_all good acts"
  by unfold_locales (auto dest: step)

context smtp_invariant
begin

lemma list_text_good: "list_all is_text acts \<Longrightarrow> list_all good acts"
  by (auto simp: list_all_iff text_good)

lemma resumed:
  assumes "resume c opt rnd acts s = (s', out)" "inv s" "list_all good acts"
  shows "inv s' \<and> list_all good out"
proof -
  obtain s1 m where p: "pump c opt rnd s = (s1, m)" by force
  have "inv s1 \<and> list_all good m"
    using p assms(2) pass.loop
    by (auto simp: pump_def text_good inv_frame split: if_splits)
  with assms p show ?thesis
    by (auto simp: resume_def guardErrors_def Let_def text_good inv_frame split: if_splits)
qed

lemma fed: "feed c opt rnd chunk s = (s', out) \<Longrightarrow> inv s \<Longrightarrow> inv s' \<and> list_all good out"
  by (auto simp: feed_def inv_frame dest: resumed split: if_splits)

lemma called:
  assumes "smtp_call c opt rnd i s = Inr (s', out)" "allowed i" "inv s"
  shows "inv s' \<and> list_all good out"
  using smtp_call_cases [OF assms(1)]
proof (elim disjE exE conjE)
  fix chunk assume "(s', out) = feed c opt rnd chunk s"
  with fed assms(3) show ?thesis by metis
next
  assume "i = TlsUpgraded" "(s', out) = (tlsUpgraded s, [])"
  with assms upgrade show ?thesis by simp
next
  fix s1 acts
  assume "answered s s1" "list_all is_text acts" "(s', out) = resume c opt rnd acts s1"
  with assms(3) answer list_text_good resumed show ?thesis by metis
qed

lemma session:
  assumes "smtp_session c opt allowed s acts"
  shows "inv s \<and> list_all good acts"
  using assms by (induction rule: smtp_session.induct) (auto simp: initial dest: called)

end

section \<open>Protocol state\<close>

fun in_transaction :: "conn_state \<Rightarrow> bool" where
  "in_transaction CS_init = False"
| "in_transaction CS_greeted = False"
| "in_transaction _ = True"

fun has_recipients :: "conn_state \<Rightarrow> bool" where
  "has_recipients CS_rcpt = True"
| "has_recipients CS_data = True"
| "has_recipients CS_bdat = True"
| "has_recipients _ = False"

lemma has_recipients_in_transaction: "has_recipients st \<Longrightarrow> in_transaction st"
  by (cases st) auto

text \<open>The content buffered for the message: within the size limit, and \<open>dataSize\<close> is its length
  as long as the limit is not exceeded; an open BDAT chunk fits too.\<close>

definition content_ok :: "smtp_options \<Rightarrow> smtp \<Rightarrow> bool" where
  "content_ok opt s \<longleftrightarrow>
     length (concat (dataChunks s)) \<le> maxSizeBytes opt \<and>
     (\<not> dataOverflow s \<longrightarrow> dataSize s = length (concat (dataChunks s)) \<and>
        (state s = CS_bdat \<longrightarrow> dataSize s + bdatRemaining s \<le> maxSizeBytes opt))"

text \<open>The well-formed states: what each protocol state and each pending request guarantee.\<close>

definition smtp_ok :: "smtp_options \<Rightarrow> smtp \<Rightarrow> bool" where
  "smtp_ok opt s \<longleftrightarrow>
     content_ok opt s \<and>
     rcptCount s \<le> MAX_RCPT_PER_SESSION \<and>
     (in_transaction (state s) \<longrightarrow>
        mailFrom s \<noteq> None \<and> (profile opt = Submission \<longrightarrow> authenticatedAs s \<noteq> None)) \<and>
     (has_recipients (state s) \<longrightarrow> rcptTo s \<noteq> []) \<and>
     (awaiting s = Some Aw_rcpt \<longrightarrow> in_transaction (state s)) \<and>
     (awaiting s = Some Aw_auth \<longrightarrow> pendingAuthUser s \<noteq> None)"

text \<open>Every message handed to the backend has a recipient, fits the advertised size and, on a
  submission listener, carries the authenticated user.\<close>

definition deliver_ok :: "smtp_options \<Rightarrow> smtp_action \<Rightarrow> bool" where
  "deliver_ok opt a \<longleftrightarrow>
     (case a of
        Deliver d \<Rightarrow> d_rcptTo d \<noteq> [] \<and> length (d_raw d) \<le> maxSizeBytes opt \<and>
                     (profile opt = Submission \<longrightarrow> d_authenticatedAs d \<noteq> None)
      | _ \<Rightarrow> True)"

lemma text_deliver_ok: "is_text a \<Longrightarrow> deliver_ok opt a"
  by (cases a) (auto simp: deliver_ok_def)

text \<open>A handler's result keeps an invariant and emits good actions.\<close>

definition keeps :: "(smtp \<Rightarrow> bool) \<Rightarrow> (smtp_action \<Rightarrow> bool) \<Rightarrow> smtp \<times> smtp_action list \<Rightarrow> bool" where
  "keeps I A r \<longleftrightarrow> I (fst r) \<and> list_all A (snd r)"

lemma keeps_text [simp]: "list_all is_text acts \<Longrightarrow> keeps I (deliver_ok opt) (s, acts) = I s"
  by (auto simp: keeps_def list_all_iff text_deliver_ok)

lemma is_text_Cons_Reply [simp]: "list_all is_text [Reply t]" by simp

abbreviation keeps_ok :: "smtp_options \<Rightarrow> smtp \<times> smtp_action list \<Rightarrow> bool" where
  "keeps_ok opt \<equiv> keeps (smtp_ok opt) (deliver_ok opt)"

lemma ok_reset: "smtp_ok opt s \<Longrightarrow> awaiting s \<noteq> Some Aw_rcpt \<Longrightarrow> smtp_ok opt (resetTransaction s)"
  by (simp add: resetTransaction_def smtp_ok_def content_ok_def)

lemma ok_greeted: "smtp_ok opt s \<Longrightarrow> awaiting s \<noteq> Some Aw_rcpt \<Longrightarrow>
    smtp_ok opt ((resetTransaction s)\<lparr>state := CS_greeted, heloName := h\<rparr>)"
  by (simp add: resetTransaction_def smtp_ok_def content_ok_def)

lemma ok_handleMail: "smtp_ok opt s \<Longrightarrow> awaiting s = None \<Longrightarrow> keeps_ok opt (handleMail opt x s)"
  by (auto simp: handleMail_def smtp_ok_def content_ok_def split: sum.split)

lemma ok_handleRcpt: "smtp_ok opt s \<Longrightarrow> awaiting s = None \<Longrightarrow> keeps_ok opt (handleRcpt x s)"
  by (auto simp: handleRcpt_def smtp_ok_def content_ok_def keeps_def deliver_ok_def reply_def split: sum.split)

lemma ok_handleBdat: "smtp_ok opt s \<Longrightarrow> awaiting s = None \<Longrightarrow> keeps_ok opt (handleBdat opt x s)"
  by (auto simp: handleBdat_def smtp_ok_def content_ok_def split: option.split)

lemma ok_handleData: "smtp_ok opt s \<Longrightarrow> awaiting s = None \<Longrightarrow> keeps_ok opt (handleData x s)"
  by (auto simp: handleData_def smtp_ok_def content_ok_def)

lemma ok_handleStartTls: "smtp_ok opt s \<Longrightarrow> awaiting s = None \<Longrightarrow> keeps_ok opt (handleStartTls opt s)"
  by (auto simp: handleStartTls_def smtp_ok_def content_ok_def keeps_def deliver_ok_def reply_def)

text \<open>Authentication leaves the transaction alone.\<close>

lemma ok_auth_frame:
  "smtp_ok opt s \<Longrightarrow> awaiting s = None \<Longrightarrow> smtp_ok opt (s\<lparr>authContinuation := k\<rparr>)"
  "smtp_ok opt s \<Longrightarrow> awaiting s = None \<Longrightarrow>
     smtp_ok opt (s\<lparr>authContinuation := k, awaiting := Some Aw_scramKeys\<rparr>)"
  "smtp_ok opt s \<Longrightarrow> awaiting s = None \<Longrightarrow>
     smtp_ok opt (s\<lparr>pendingAuthUser := Some u, awaiting := Some Aw_auth\<rparr>)"
  "smtp_ok opt s \<Longrightarrow> awaiting s = None \<Longrightarrow>
     smtp_ok opt (s\<lparr>authContinuation := k, awaiting := Some Aw_auth, pendingAuthUser := Some u\<rparr>)"
  by (auto simp: smtp_ok_def content_ok_def)

lemma deliver_ok_simps [simp]:
  "deliver_ok opt (reply n e m)" "deliver_ok opt (rawReply l)" "deliver_ok opt (Auth u p)"
  "deliver_ok opt (ScramKeys u)" "deliver_ok opt (AuthVerified u)" "deliver_ok opt (scramFailedAction st)"
  by (simp_all add: deliver_ok_def reply_def rawReply_def scramFailedAction_def)

lemma keeps_Pair [simp]: "keeps I A (s, acts) \<longleftrightarrow> I s \<and> list_all A acts"
  by (simp add: keeps_def)

lemma ok_finishPlainAuth: "smtp_ok opt s \<Longrightarrow> awaiting s = None \<Longrightarrow> keeps_ok opt (finishPlainAuth x s)"
  by (simp add: finishPlainAuth_def ok_auth_frame split: option.split)

lemma ok_finishOAuthAuth: "smtp_ok opt s \<Longrightarrow> awaiting s = None \<Longrightarrow> keeps_ok opt (finishOAuthAuth m x s)"
  by (simp add: finishOAuthAuth_def ok_auth_frame split: option.split)

lemma ok_beginScram: "smtp_ok opt s \<Longrightarrow> awaiting s = None \<Longrightarrow> keeps_ok opt (beginScram r z x s)"
  by (simp add: beginScram_def ok_auth_frame split: option.split prod.split scram_step.split)

lemmas ok_auth = ok_finishPlainAuth ok_finishOAuthAuth ok_beginScram ok_auth_frame

lemma ok_handleAuth: "smtp_ok opt s \<Longrightarrow> awaiting s = None \<Longrightarrow> keeps_ok opt (handleAuth opt r x s)"
  by (simp add: handleAuth_def ok_auth Let_def split: option.split prod.split)

lemma ok_handleAuthContinuationLine:
  "smtp_ok opt s \<Longrightarrow> awaiting s = None \<Longrightarrow> keeps_ok opt (handleAuthContinuationLine c r x s)"
  by (simp add: handleAuthContinuationLine_def ok_auth Let_def
      split: option.split prod.split scram_step.split auth_continuation.split)

lemma deliver_ok_Reply [simp]: "deliver_ok opt (Reply t)" "deliver_ok opt Close"
  by (simp_all add: deliver_ok_def)

lemma ok_handleEhlo: "smtp_ok opt s \<Longrightarrow> awaiting s = None \<Longrightarrow> keeps_ok opt (handleEhlo opt x s)"
  unfolding handleEhlo_def Let_def by (simp add: ok_greeted del: append.simps)

lemma ok_handleHelo: "smtp_ok opt s \<Longrightarrow> awaiting s = None \<Longrightarrow> keeps_ok opt (handleHelo opt x s)"
  by (simp add: handleHelo_def ok_greeted)

lemma ok_handleVrfy: "smtp_ok opt s \<Longrightarrow> keeps_ok opt (handleVrfy x s)"
  by (simp add: handleVrfy_def)

lemma ok_closed: "smtp_ok opt s \<Longrightarrow> smtp_ok opt (s\<lparr>closed := q\<rparr>)"
  by (auto simp: smtp_ok_def content_ok_def)

lemmas ok_handlers = ok_handleEhlo ok_handleHelo ok_handleMail ok_handleRcpt ok_handleData ok_handleBdat
  ok_handleVrfy ok_handleStartTls ok_handleAuth ok_reset ok_closed

lemma ok_handleCommandLine:
  "smtp_ok opt s \<Longrightarrow> awaiting s = None \<Longrightarrow> keeps_ok opt (handleCommandLine opt r x s)"
  by (simp add: handleCommandLine_def Let_def ok_handlers split: prod.split)

lemma ok_buffer: "smtp_ok opt s \<Longrightarrow> smtp_ok opt (s\<lparr>buffer := bs\<rparr>)"
  by (auto simp: smtp_ok_def content_ok_def)

lemma ok_guardDataBuffer: "smtp_ok opt s \<Longrightarrow> smtp_ok opt (guardDataBuffer opt s)"
  by (simp add: guardDataBuffer_def Let_def) (auto simp: smtp_ok_def content_ok_def)

lemma ok_finishData:
  assumes "smtp_ok opt s" "awaiting s = None" "has_recipients (state s)" "state s = CS_bdat \<Longrightarrow> bdatRemaining s = 0"
  shows "keeps_ok opt (finishData s)"
proof (cases "dataOverflow s")
  case True
  with assms show ?thesis by (simp add: finishData_def ok_reset)
next
  case False
  then have "length (concat (dataChunks s)) \<le> maxSizeBytes opt" "in_transaction (state s)"
    using assms has_recipients_in_transaction by (auto simp: smtp_ok_def content_ok_def)
  with False assms show ?thesis
    by (auto simp: finishData_def Let_def deliver_ok_def smtp_ok_def content_ok_def)
qed

lemma ok_pumpDataLine:
  assumes "smtp_ok opt s" "awaiting s = None" "state s = CS_data" "pumpDataLine opt s = (s', acts, b)"
  shows "keeps_ok opt (s', acts)"
proof (cases "indexOfCRLF (buffer s)")
  case None
  with assms ok_guardDataBuffer show ?thesis by (auto simp: pumpDataLine_def)
next
  case (Some i)
  have fin: "keeps_ok opt (finishData (s\<lparr>buffer := bs\<rparr>))" for bs
    using assms ok_buffer by (intro ok_finishData) auto
  show ?thesis
    using Some assms fin [of "drop (i + 2) (buffer s)"]
    by (auto simp: pumpDataLine_def Let_def smtp_ok_def content_ok_def split: if_splits prod.splits)
qed

lemma ok_bdatRead: "smtp_ok opt s \<Longrightarrow> state s = CS_bdat \<Longrightarrow> smtp_ok opt (bdatRead s)"
  by (auto simp: bdatRead_def Let_def smtp_ok_def content_ok_def)

lemma ok_bdatEnd:
  assumes "smtp_ok opt s" "awaiting s = None" "state s = CS_bdat" "bdatRemaining s = 0"
    and "bdatEnd s = (s', acts, b)"
  shows "keeps_ok opt (s', acts)"
proof -
  have fin: "keeps_ok opt (finishData s)" using assms by (intro ok_finishData) auto
  have "smtp_ok opt ((resetTransaction s)\<lparr>state := CS_greeted\<rparr>)"
    using assms by (simp add: resetTransaction_def smtp_ok_def content_ok_def)
  moreover have "smtp_ok opt (s\<lparr>state := CS_rcpt\<rparr>)"
    using assms by (auto simp: smtp_ok_def content_ok_def)
  ultimately show ?thesis
    using assms fin by (auto simp: bdatEnd_def split: if_splits prod.splits)
qed

lemma ok_pumpBdat:
  assumes "smtp_ok opt s" "awaiting s = None" "state s = CS_bdat" "pumpBdat s = (s', acts, b)"
  shows "keeps_ok opt (s', acts)"
proof -
  have r: "awaiting (bdatRead s) = None" "state (bdatRead s) = CS_bdat"
    using assms by (simp_all add: bdatRead_def Let_def)
  show ?thesis
    using assms ok_bdatRead [OF assms(1,3)] r ok_bdatEnd [OF ok_bdatRead [OF assms(1,3)] r]
      ok_bdatEnd [OF assms(1-3)]
    by (auto simp: pumpBdat_def Let_def split: if_splits)
qed

lemma ok_pumpLine:
  assumes "smtp_ok opt s" "awaiting s = None" "pumpLine h g s = (s', acts, b)"
    and "\<And>l t. smtp_ok opt t \<Longrightarrow> awaiting t = None \<Longrightarrow> keeps_ok opt (h l t)"
    and "\<And>t. smtp_ok opt t \<Longrightarrow> awaiting t = None \<Longrightarrow> keeps_ok opt (g t)"
  shows "keeps_ok opt (s', acts)"
proof -
  have "keeps_ok opt (h l (s\<lparr>buffer := bs\<rparr>))" "keeps_ok opt (g (s\<lparr>buffer := bs\<rparr>))" for l bs
    using assms ok_buffer by auto
  then show ?thesis
    using assms(1,3) by (auto simp: pumpLine_def split: option.splits if_splits prod.splits)
      (metis keeps_Pair)+
qed

lemma ok_pumpStep:
  assumes "smtp_ok opt s" "awaiting s = None" "pumpStep c opt rnd s = (s', acts, b)"
  shows "keeps_ok opt (s', acts)"
proof -
  consider "authContinuation s \<noteq> None" | "authContinuation s = None" "state s = CS_data"
    | "authContinuation s = None" "state s = CS_bdat"
    | "authContinuation s = None" "state s \<noteq> CS_data" "state s \<noteq> CS_bdat" by blast
  then show ?thesis
  proof cases
    case 1
    with assms(3) show ?thesis
      by (simp add: pumpStep_def del: keeps_Pair)
        (erule ok_pumpLine [OF assms(1,2)], auto simp: ok_handleAuthContinuationLine ok_auth_frame)
  next
    case 2
    with assms show ?thesis by (simp add: pumpStep_def ok_pumpDataLine del: keeps_Pair)
  next
    case 3
    with assms show ?thesis by (simp add: pumpStep_def ok_pumpBdat del: keeps_Pair)
  next
    case 4
    with assms(3) show ?thesis
      by (simp add: pumpStep_def del: keeps_Pair)
        (erule ok_pumpLine [OF assms(1,2)], auto simp: ok_handleCommandLine)
  qed
qed

lemma ok_frame:
  "smtp_ok opt s \<Longrightarrow> smtp_ok opt (s\<lparr>buffer := bs, errorCount := n, pendingOverflow := p, closed := q\<rparr>)"
  by (auto simp: smtp_ok_def content_ok_def)

lemma ok_answered: "smtp_ok opt s \<Longrightarrow> answered s s' \<Longrightarrow> smtp_ok opt s'"
  by (erule answeredE) (auto simp: smtp_ok_def content_ok_def resetTransaction_def)

lemma ok_tlsUpgraded: "smtp_ok opt s \<Longrightarrow> smtp_ok opt (tlsUpgraded s)"
  by (simp add: smtp_ok_def content_ok_def tlsUpgraded_def)

lemma ok_new: "smtp_ok opt newSmtpEngine"
  by (simp add: smtp_ok_def content_ok_def newSmtpEngine_def)

interpretation wf: smtp_invariant opt "smtp_ok opt" "deliver_ok opt" "\<lambda>_. True"
  for opt :: smtp_options
proof
  show "smtp_ok opt s' \<and> list_all (deliver_ok opt) acts"
    if "smtp_ok opt s" "awaiting s = None" "pumpStep c opt rnd s = (s', acts, b)" for s c rnd s' acts b
    using ok_pumpStep [OF that] by simp
qed (rule ok_frame ok_answered ok_tlsUpgraded ok_new text_deliver_ok; assumption)+

text \<open>C1: Delivery safety of every SMTP session. Whatever bytes the peer sends, in whatever
  segments, and whatever the backend answers: each message handed over for delivery has at least
  one recipient, is no larger than the advertised SIZE, and on a submission listener carries an
  authenticated user; and the content held in memory never exceeds SIZE.\<close>

theorem smtp_delivery_safe:
  assumes "smtp_session c opt (\<lambda>_. True) s acts"
  shows "length (concat (dataChunks s)) \<le> maxSizeBytes opt \<and>
    (\<forall>d. Deliver d \<in> set acts \<longrightarrow>
       d_rcptTo d \<noteq> [] \<and> length (d_raw d) \<le> maxSizeBytes opt \<and>
       (profile opt = Submission \<longrightarrow> d_authenticatedAs d \<noteq> None))"
proof -
  have "smtp_ok opt s" "list_all (deliver_ok opt) acts" using wf.session [OF assms] by blast+
  then show ?thesis
    by (fastforce simp: smtp_ok_def content_ok_def list_all_iff deliver_ok_def)
qed

text \<open>A concrete session, evaluated: greeting, envelope, one dot-stuffed line, delivery.\<close>

fun run_calls ::
  "crypto \<Rightarrow> smtp_options \<Rightarrow> smtp_input list \<Rightarrow> smtp \<Rightarrow> (smtp \<times> smtp_action list) option" where
  "run_calls c opt [] s = Some (s, [])"
| "run_calls c opt (i # calls) s =
     (case smtp_call c opt [] i s of
        Inl _ \<Rightarrow> None
      | Inr (s1, a) \<Rightarrow> map_option (\<lambda>(s2, b). (s2, a @ b)) (run_calls c opt calls s1))"

lemma run_calls_session:
  "run_calls c opt calls s = Some (s', out) \<Longrightarrow> smtp_session c opt allowed s acts \<Longrightarrow>
   list_all allowed calls \<Longrightarrow> smtp_session c opt allowed s' (acts @ out)"
proof (induction calls arbitrary: s acts out)
  case (Cons i calls)
  then obtain s1 a b where r: "smtp_call c opt [] i s = Inr (s1, a)" "out = a @ b"
      "run_calls c opt calls s1 = Some (s', b)"
    by (auto split: sum.splits)
  have "smtp_session c opt allowed s1 (acts @ a)"
    using smtp_session.call [OF Cons.prems(2) _ r(1)] Cons.prems(3) by simp
  with Cons r show ?case using Cons.IH [of s1 b "acts @ a"] by simp
qed simp

definition demo_options :: smtp_options where
  "demo_options =
     \<lparr>hostname = ''mx'', maxSizeBytes = 100, tlsAvailable = True, profile = Relay, authOffered = True,
      allowInsecureAuth = False, scramDecoySecret = [], scramOffered = False\<rparr>"

definition demo_calls :: "smtp_input list" where
  "demo_calls =
     [Feed (''HELO h'' @ CRLF @ ''MAIL FROM:<a@b>'' @ CRLF @ ''RCPT TO:<c@d>'' @ CRLF), RcptResult RcptOk,
      Feed (''DATA'' @ CRLF @ ''..hi'' @ CRLF @ ''.'' @ CRLF)]"

definition demo_deliveries :: "smtp_action list \<Rightarrow> (string list \<times> bytes) list" where
  "demo_deliveries acts =
     concat (map (\<lambda>a. case a of Deliver d \<Rightarrow> [(d_rcptTo d, d_raw d)] | _ \<Rightarrow> []) acts)"

lemma demo_evaluated:
  "map_option (\<lambda>(s, acts). (closed s, demo_deliveries acts))
     (run_calls toy_crypto demo_options demo_calls newSmtpEngine) = Some (False, [([''c@d''], ''.hi'' @ CRLF)])"
  by code_simp

lemma demo_session:
  assumes "allowed (RcptResult RcptOk)" "\<And>b. allowed (Feed b)"
  shows "\<exists>s acts. smtp_session toy_crypto demo_options allowed s acts \<and> \<not> closed s \<and>
     demo_deliveries acts = [([''c@d''], ''.hi'' @ CRLF)]"
proof -
  obtain s acts where "run_calls toy_crypto demo_options demo_calls newSmtpEngine = Some (s, acts)"
      "\<not> closed s" "demo_deliveries acts = [([''c@d''], ''.hi'' @ CRLF)]"
    using demo_evaluated by (auto simp: map_option_case split: option.splits)
  moreover have "list_all allowed demo_calls" using assms by (simp add: demo_calls_def)
  ultimately show ?thesis
    using run_calls_session [OF _ smtp_session.start, of toy_crypto demo_options demo_calls s acts allowed]
    by auto
qed

lemma demo_ok:
  "\<exists>s acts. smtp_session toy_crypto demo_options (\<lambda>_. True) s acts \<and> \<not> closed s \<and>
     demo_deliveries acts = [([''c@d''], ''.hi'' @ CRLF)]"
  by (rule demo_session) simp_all

theorem smtp_delivery_safe_witness:
  "\<exists>s acts. smtp_session toy_crypto demo_options (\<lambda>_. True) s acts \<and>
     demo_deliveries acts = [([''c@d''], ''.hi'' @ CRLF)] \<and> length (concat (dataChunks s)) \<le> 100"
proof -
  obtain s acts where d: "smtp_session toy_crypto demo_options (\<lambda>_. True) s acts"
      "demo_deliveries acts = [([''c@d''], ''.hi'' @ CRLF)]"
    using demo_ok by blast
  then show ?thesis using smtp_delivery_safe [OF d(1)] by (auto simp: demo_options_def)
qed

section \<open>Counters and authentication\<close>

fun is_rcpt :: "smtp_action \<Rightarrow> bool" where
  "is_rcpt (Rcpt _) = True"
| "is_rcpt _ = False"

definition claims_user :: "string \<Rightarrow> smtp_action list \<Rightarrow> bool" where
  "claims_user u acts \<longleftrightarrow> (\<exists>p. Auth u p \<in> set acts) \<or> AuthVerified u \<in> set acts"

lemma claims_user_append [simp]: "claims_user u (a @ b) \<longleftrightarrow> claims_user u a \<or> claims_user u b"
  by (auto simp: claims_user_def)

text \<open>What a pass of the loop leaves alone, and how it moves the counters.\<close>

definition quiet :: "smtp \<Rightarrow> smtp_action list \<Rightarrow> smtp \<Rightarrow> bool" where
  "quiet s acts s' \<longleftrightarrow>
     errorCount s' = errorCount s \<and> isTls s' = isTls s \<and> authenticatedAs s' = authenticatedAs s \<and>
     rcptCount s' = rcptCount s + length (filter is_rcpt acts) \<and>
     (\<forall>u. pendingAuthUser s' = Some u \<longrightarrow> pendingAuthUser s = Some u \<or> claims_user u acts)"

lemma is_rcpt_simps [simp]:
  "\<not> is_rcpt (reply n e m)" "\<not> is_rcpt (rawReply l)" "\<not> is_rcpt (scramFailedAction st)"
  by (simp_all add: reply_def rawReply_def scramFailedAction_def)

lemma quiet_refl: "quiet s [] s"
  by (simp add: quiet_def)

lemma quiet_trans: "quiet s a t \<Longrightarrow> quiet t b u \<Longrightarrow> quiet s (a @ b) u"
  by (auto simp: quiet_def claims_user_def)

lemma quiet_buffer: "quiet (s\<lparr>buffer := bs\<rparr>) acts s' = quiet s acts s'"
  by (simp add: quiet_def)

abbreviation quietly :: "smtp \<Rightarrow> smtp \<times> smtp_action list \<Rightarrow> bool" where
  "quietly s r \<equiv> quiet s (snd r) (fst r)"

lemma quiet_auth:
  "quietly s (finishPlainAuth x s)" "quietly s (finishOAuthAuth m x s)" "quietly s (beginScram r z x s)"
  by (simp_all add: quiet_def claims_user_def finishPlainAuth_def finishOAuthAuth_def beginScram_def
      split: option.split prod.split scram_step.split)

lemma quiet_cont: "quiet (s\<lparr>authContinuation := k\<rparr>) acts s' = quiet s acts s'"
  by (simp add: quiet_def)

lemma quiet_same:
  "filter is_rcpt acts = [] \<Longrightarrow> quiet s acts s" 
  "filter is_rcpt acts = [] \<Longrightarrow> quiet s acts (s\<lparr>authContinuation := k\<rparr>)"
  "filter is_rcpt acts = [] \<Longrightarrow> quiet s acts (resetTransaction s)"
  by (simp_all add: quiet_def resetTransaction_def)

lemma quiet_handleAuth: "quietly s (handleAuth opt r x s)"
  by (simp add: handleAuth_def quiet_auth quiet_same Let_def split: option.split prod.split)

lemma quiet_handleAuthContinuationLine: "quietly s (handleAuthContinuationLine c r x s)"
proof -
  have "quietly s (finishPlainAuth y (s\<lparr>authContinuation := k\<rparr>))"
    "quietly s (finishOAuthAuth m y (s\<lparr>authContinuation := k\<rparr>))" for y k m
    using quiet_auth(1,2) [of "s\<lparr>authContinuation := k\<rparr>"] by (simp_all only: quiet_cont)
  then show ?thesis
    by (auto simp: handleAuthContinuationLine_def quiet_auth quiet_same Let_def
        split: option.split prod.split scram_step.split auth_continuation.split)
      (simp_all add: quiet_def claims_user_def)
qed

lemma quiet_handleEhlo: "quietly s (handleEhlo opt x s)"
  unfolding handleEhlo_def Let_def by (simp add: quiet_def resetTransaction_def del: append.simps)

lemma quiet_handlers:
  "quietly s (handleHelo opt x s)" "quietly s (handleMail opt x s)"
  "quietly s (handleRcpt x s)" "quietly s (handleBdat opt x s)" "quietly s (handleData x s)"
  "quietly s (handleVrfy x s)" "quietly s (handleStartTls opt s)"
  by (simp_all add: quiet_def handleHelo_def handleMail_def handleRcpt_def handleBdat_def handleData_def
      handleVrfy_def handleStartTls_def resetTransaction_def split: sum.split option.split)

lemma quiet_handleCommandLine: "quietly s (handleCommandLine opt r x s)"
proof -
  have "quietly s (s\<lparr>closed := True\<rparr>, [reply 221 ''2.0.0'' ''Bye'', Close])" by (simp add: quiet_def)
  then show ?thesis
    by (simp add: handleCommandLine_def Let_def quiet_handlers quiet_handleEhlo quiet_handleAuth quiet_same
        split: prod.split)
qed

lemma quiet_finishData: "quietly s (finishData s)"
  by (simp add: finishData_def Let_def quiet_same quiet_def resetTransaction_def)

lemma quiet_finishData_buffer: "finishData (s\<lparr>buffer := bs\<rparr>) = (s', acts) \<Longrightarrow> quiet s acts s'"
  using quiet_finishData [of "s\<lparr>buffer := bs\<rparr>"] by (simp add: quiet_buffer)

lemma quiet_content:
  "quiet s [] (s\<lparr>buffer := b, dataOverflow := v, dataChunks := cs, dataSize := n\<rparr>)"
  "quiet s [] (s\<lparr>dataOverflow := v, dataChunks := cs, dataSize := n, buffer := b\<rparr>)"
  "quiet s [] (s\<lparr>buffer := b, dataOverflow := v, dataChunks := cs\<rparr>)"
  "quiet s [] (s\<lparr>buffer := b, dataChunks := cs, dataSize := n\<rparr>)"
  "quiet s [] (s\<lparr>buffer := b\<rparr>)"
  by (simp_all add: quiet_def)

lemma quiet_pumpDataLine: "pumpDataLine opt s = (s', acts, b) \<Longrightarrow> quiet s acts s'"
  by (auto simp: pumpDataLine_def guardDataBuffer_def Let_def quiet_content quiet_refl
      dest: quiet_finishData_buffer split: option.splits if_splits prod.splits)

lemma quiet_bdatEnd: "bdatEnd s = (s', acts, b) \<Longrightarrow> quiet s acts s'"
  using quiet_finishData [of s]
  by (auto simp: bdatEnd_def split: if_splits prod.splits) (auto simp: quiet_def resetTransaction_def)

lemma quiet_bdatRead: "quiet (bdatRead s) acts s' = quiet s acts s'"
  by (simp add: bdatRead_def Let_def quiet_def)

lemma quiet_bdatRead_step: "quiet s [] (bdatRead s)"
  by (simp add: bdatRead_def Let_def quiet_def)

lemma quiet_pumpBdat: "pumpBdat s = (s', acts, b) \<Longrightarrow> quiet s acts s'"
  using quiet_bdatEnd [of s] quiet_bdatEnd [of "bdatRead s"] quiet_bdatRead_step [of s]
  by (auto simp: pumpBdat_def Let_def quiet_bdatRead quiet_refl split: if_splits)

lemma quiet_pumpLine:
  assumes "pumpLine h g s = (s', acts, b)" "\<And>l t. quietly t (h l t)" "\<And>t. quietly t (g t)"
  shows "quiet s acts s'"
proof -
  have "quietly s (h l (s\<lparr>buffer := bs\<rparr>))" "quietly s (g (s\<lparr>buffer := bs\<rparr>))" for l bs
    using assms(2) [of "s\<lparr>buffer := bs\<rparr>" l] assms(3) [of "s\<lparr>buffer := bs\<rparr>"] by (simp_all only: quiet_buffer)
  then show ?thesis
    using assms(1) quiet_refl by (auto simp: pumpLine_def split: option.splits if_splits prod.splits)
      (metis fst_conv snd_conv)+
qed

lemma quiet_pumpStep:
  assumes "pumpStep c opt rnd s = (s', acts, b)"
  shows "quiet s acts s'"
proof -
  consider "authContinuation s \<noteq> None" | "authContinuation s = None" "state s = CS_data"
    | "authContinuation s = None" "state s = CS_bdat"
    | "authContinuation s = None" "state s \<noteq> CS_data" "state s \<noteq> CS_bdat" by blast
  then show ?thesis
  proof cases
    case 1
    with assms show ?thesis
      by (simp add: pumpStep_def)
        (erule quiet_pumpLine, auto simp: quiet_handleAuthContinuationLine quiet_same)
  next
    case 2
    with assms show ?thesis by (simp add: pumpStep_def quiet_pumpDataLine)
  next
    case 3
    with assms show ?thesis by (simp add: pumpStep_def quiet_pumpBdat)
  next
    case 4
    with assms show ?thesis
      by (simp add: pumpStep_def) (erule quiet_pumpLine, auto simp: quiet_handleCommandLine quiet_same)
  qed
qed

interpretation counters: pump_relation opt quiet for opt
  by unfold_locales (auto intro: quiet_pumpStep quiet_refl quiet_trans)

text \<open>The same for a whole call, where the output is also checked for errors.\<close>

definition counted :: "smtp \<Rightarrow> smtp_action list \<Rightarrow> smtp \<Rightarrow> bool" where
  "counted s out s' \<longleftrightarrow>
     isTls s' = isTls s \<and> authenticatedAs s' = authenticatedAs s \<and>
     rcptCount s' = rcptCount s + length (filter is_rcpt out) \<and>
     (\<forall>u. pendingAuthUser s' = Some u \<longrightarrow> pendingAuthUser s = Some u \<or> claims_user u out) \<and>
     (closed s \<longrightarrow> closed s') \<and>
     (\<not> closed s' \<longrightarrow> errorCount s' = errorCount s + length (filter is_error_reply out) \<and>
        errorCount s' \<le> MAX_SMTP_ERRORS_PER_SESSION)"

lemma text_not_rcpt: "list_all is_text acts \<Longrightarrow> filter is_rcpt acts = []"
proof (induction acts)
  case (Cons a acts)
  then show ?case by (cases a) auto
qed simp

lemma counted_resume:
  assumes "resume c opt rnd acts s = (s', out)" "list_all is_text acts"
  shows "counted s out s'"
proof -
  obtain s1 m where p: "pump c opt rnd s = (s1, m)" by force
  have q: "isTls s1 = isTls s \<and> authenticatedAs s1 = authenticatedAs s \<and> errorCount s1 = errorCount s \<and>
      rcptCount s1 = rcptCount s + length (filter is_rcpt m) \<and>
      (\<forall>u. pendingAuthUser s1 = Some u \<longrightarrow> pendingAuthUser s = Some u \<or> claims_user u m)"
    using p counters.loop [of c opt rnd s s1 m] by (auto simp: pump_def quiet_def split: if_splits)
  have cl: "closed s \<longrightarrow> closed s1"
    using p by (auto simp: pump_def pumpLoop.simps split: if_splits)
  show ?thesis
    using assms p q cl text_not_rcpt [OF assms(2)]
    by (auto simp: resume_def guardErrors_def Let_def counted_def claims_user_def split: if_splits)
qed

lemma counted_feed: "feed c opt rnd chunk s = (s', out) \<Longrightarrow> errorCount s \<le> MAX_SMTP_ERRORS_PER_SESSION \<or> closed s \<Longrightarrow>
    counted s out s'"
  using counted_resume [of c opt rnd "[]" "s\<lparr>buffer := buffer s @ chunk\<rparr>" s' out]
  by (auto simp: feed_def counted_def claims_user_def split: if_splits)

lemma answered_counters:
  "answered s s1 \<Longrightarrow> closed s1 = closed s \<and> errorCount s1 = errorCount s \<and> rcptCount s1 = rcptCount s \<and>
     (authenticatedAs s1 = authenticatedAs s \<or> authenticatedAs s1 = pendingAuthUser s) \<and>
     (pendingAuthUser s1 = None \<or> pendingAuthUser s1 = pendingAuthUser s)"
  by (erule answeredE) (auto simp: resetTransaction_def)

text \<open>The counters of a session describe its whole output.\<close>

lemma session_counters:
  assumes "smtp_session c opt allowed s acts"
  shows "rcptCount s = length (filter is_rcpt acts) \<and>
    (\<not> closed s \<longrightarrow> errorCount s = length (filter is_error_reply acts) \<and>
       errorCount s \<le> MAX_SMTP_ERRORS_PER_SESSION) \<and>
    (\<forall>u. authenticatedAs s = Some u \<or> pendingAuthUser s = Some u \<longrightarrow> claims_user u acts)"
  using assms
proof (induction rule: smtp_session.induct)
  case start
  then show ?case by (simp add: newSmtpEngine_def)
next
  case (call s acts i rnd s' out)
  from smtp_call_cases [OF call(3)] show ?case
  proof (elim disjE exE conjE)
    fix chunk assume "(s', out) = feed c opt rnd chunk s"
    then have "counted s out s'" using call.IH counted_feed by metis
    then show ?thesis using call.IH by (auto simp: counted_def claims_user_def)
  next
    assume "(s', out) = (tlsUpgraded s, [])"
    then show ?thesis using call.IH by (auto simp: tlsUpgraded_def claims_user_def)
  next
    fix s1 a assume a: "answered s s1" "list_all is_text a" "(s', out) = resume c opt rnd a s1"
    then have "counted s1 out s'" using counted_resume by metis
    note c = this [unfolded counted_def] and s1 = answered_counters [OF a(1)]
    have "\<forall>u. authenticatedAs s' = Some u \<or> pendingAuthUser s' = Some u \<longrightarrow> claims_user u (acts @ out)"
      using c s1 call.IH by (metis claims_user_append option.distinct(1))
    moreover have "\<not> closed s' \<longrightarrow> errorCount s' = length (filter is_error_reply (acts @ out)) \<and>
        errorCount s' \<le> MAX_SMTP_ERRORS_PER_SESSION"
      using c s1 call.IH by (intro impI) (cases "closed s"; clarsimp)
    moreover have "rcptCount s' = length (filter is_rcpt (acts @ out))" using c s1 call.IH by simp
    ultimately show ?thesis by blast
  qed
qed

text \<open>Recipient oracle bound. A session asks the backend about at most
  \<open>MAX_RCPT_PER_SESSION\<close> recipients, however many transactions, resets and TLS upgrades it has.\<close>

lemma smtp_rcpt_bound:
  assumes "smtp_session c opt (\<lambda>_. True) s acts"
  shows "length (filter is_rcpt acts) \<le> MAX_RCPT_PER_SESSION"
  using session_counters [OF assms] wf.session [OF assms] by (auto simp: smtp_ok_def)

text \<open>Error bound. As long as a session is open, the 4xx and 5xx replies in its whole output
  number at most \<open>MAX_SMTP_ERRORS_PER_SESSION\<close>: no path of any handler escapes the count.\<close>

lemma smtp_error_bound:
  assumes "smtp_session c opt (\<lambda>_. True) s acts" "\<not> closed s"
  shows "length (filter is_error_reply acts) \<le> MAX_SMTP_ERRORS_PER_SESSION"
  using session_counters [OF assms(1)] assms(2) by simp

text \<open>C4: Only the backend authenticates. In every session, a user the engine treats as authenticated
  was named in an earlier \<open>auth\<close> or \<open>authVerified\<close> request; and the authenticated user changes
  only when the answer to such a request is positive, to the user it named, or is dropped by a TLS
  upgrade.\<close>

theorem smtp_auth_by_backend:
  assumes "smtp_session c opt (\<lambda>_. True) s acts" "smtp_call c opt rnd i s = Inr (s', out)"
  shows "(\<forall>u. authenticatedAs s = Some u \<longrightarrow> claims_user u acts) \<and>
    (authenticatedAs s' \<noteq> authenticatedAs s \<longrightarrow>
       (i = TlsUpgraded \<and> authenticatedAs s' = None) \<or>
       (i = AuthResult True \<and> awaiting s = Some Aw_auth \<and>
        (\<exists>u. pendingAuthUser s = Some u \<and> authenticatedAs s' = Some u \<and> claims_user u acts)))"
proof -
  have sess: "\<forall>u. authenticatedAs s = Some u \<or> pendingAuthUser s = Some u \<longrightarrow> claims_user u acts"
    and cnt: "errorCount s \<le> MAX_SMTP_ERRORS_PER_SESSION \<or> closed s"
    using session_counters [OF assms(1)] by auto
  have ok: "awaiting s = Some Aw_auth \<longrightarrow> pendingAuthUser s \<noteq> None"
    using wf.session [OF assms(1)] by (auto simp: smtp_ok_def)
  have kept: "authenticatedAs s' = authenticatedAs s1" if "resume c opt rnd a s1 = (s', out)" "list_all is_text a" for s1 a
    using counted_resume [OF that] by (simp add: counted_def)
  have "authenticatedAs s' = authenticatedAs s \<or> i = TlsUpgraded \<and> authenticatedAs s' = None \<or>
     i = AuthResult True \<and> awaiting s = Some Aw_auth \<and> authenticatedAs s' = pendingAuthUser s"
  proof (cases i)
    case (Feed b)
    then show ?thesis using assms(2) counted_feed cnt by (auto simp: counted_def)
  next
    case (RcptResult r)
    then show ?thesis using assms(2) kept
      by (cases r) (force simp: rcptResult_def Let_def split: if_splits)+
  next
    case (DeliveryResult r)
    then show ?thesis using assms(2) kept
      by (cases r) (force simp: deliveryResult_def resetTransaction_def Let_def split: if_splits)+
  next
    case (AuthResult r)
    then show ?thesis using assms(2) kept
      by (cases r) (force simp: authResult_def Let_def split: if_splits)+
  next
    case (ScramKeysResult ks)
    obtain s1 a where "answered s s1" "list_all is_text a" "resume c opt rnd a s1 = (s', out)" "awaiting s = Some Aw_scramKeys"
      using ScramKeysResult assms(2) scramKeysResult_cases [of c opt rnd ks s "(s', out)"]
      by (auto simp: scramKeysResult_def split: if_splits)
    then show ?thesis using kept by (auto elim!: answeredE)
  next
    case TlsUpgraded
    then show ?thesis using assms(2) by (auto simp: tlsUpgraded_def)
  qed
  then show ?thesis using sess ok by fastforce
qed

definition auth_options :: smtp_options where
  "auth_options = demo_options\<lparr>allowInsecureAuth := True\<rparr>"

definition auth_calls :: "smtp_input list" where
  "auth_calls = [Feed (''AUTH PLAIN AGEAYg=='' @ CRLF)]"

lemma auth_evaluated:
  "case run_calls toy_crypto auth_options auth_calls newSmtpEngine of
     Some (s, acts) \<Rightarrow>
       (case smtp_call toy_crypto auth_options [] (AuthResult True) s of
          Inr (s', out) \<Rightarrow> authenticatedAs s = None \<and> authenticatedAs s' = Some ''a''
        | Inl _ \<Rightarrow> False)
   | None \<Rightarrow> False"
  by code_simp

theorem smtp_auth_by_backend_witness:
  "\<exists>s acts s' out. smtp_session toy_crypto auth_options (\<lambda>_. True) s acts \<and>
     smtp_call toy_crypto auth_options [] (AuthResult True) s = Inr (s', out) \<and>
     authenticatedAs s' = Some ''a'' \<and> claims_user ''a'' acts"
proof -
  obtain s acts s' out where r: "run_calls toy_crypto auth_options auth_calls newSmtpEngine = Some (s, acts)"
      "smtp_call toy_crypto auth_options [] (AuthResult True) s = Inr (s', out)"
      "authenticatedAs s = None" "authenticatedAs s' = Some ''a''"
    using auth_evaluated by (auto split: option.splits sum.splits)
  have "smtp_session toy_crypto auth_options (\<lambda>_. True) s acts"
    using run_calls_session [OF r(1) smtp_session.start, of "\<lambda>_. True"] by (simp add: auth_calls_def)
  with r show ?thesis using smtp_auth_by_backend [OF _ r(2)] by auto
qed

section \<open>Sessions without TLS\<close>

fun no_credentials :: "smtp_action \<Rightarrow> bool" where
  "no_credentials (Auth u p) = False"
| "no_credentials (ScramKeys u) = False"
| "no_credentials (AuthVerified u) = False"
| "no_credentials _ = True"

definition plain_ok :: "smtp \<Rightarrow> bool" where
  "plain_ok s \<longleftrightarrow> \<not> isTls s \<and> authenticatedAs s = None \<and> authContinuation s = None \<and>
     awaiting s \<noteq> Some Aw_auth \<and> awaiting s \<noteq> Some Aw_scramKeys"

lemma no_credentials_simps [simp]: "no_credentials (reply n e m)" "no_credentials (rawReply l)"
  by (simp_all add: reply_def rawReply_def)

abbreviation keeps_plain :: "smtp \<times> smtp_action list \<Rightarrow> bool" where
  "keeps_plain \<equiv> keeps plain_ok no_credentials"

lemma plain_reset: "plain_ok s \<Longrightarrow> plain_ok (resetTransaction s)"
  by (simp add: plain_ok_def resetTransaction_def)

lemma plain_handleEhlo: "plain_ok s \<Longrightarrow> keeps_plain (handleEhlo opt x s)"
  unfolding handleEhlo_def Let_def by (simp add: plain_ok_def resetTransaction_def del: append.simps)

lemma plain_handlers:
  assumes "plain_ok s"
  shows "keeps_plain (handleHelo opt x s)" "keeps_plain (handleMail opt x s)" "keeps_plain (handleRcpt x s)"
    "keeps_plain (handleBdat opt x s)" "keeps_plain (handleData x s)" "keeps_plain (handleVrfy x s)"
    "keeps_plain (handleStartTls opt s)" "keeps_plain (finishData s)"
    "\<not> allowInsecureAuth opt \<Longrightarrow> keeps_plain (handleAuth opt r x s)"
    "plain_ok (s\<lparr>closed := q\<rparr>)"
  using assms
  by (simp_all add: plain_ok_def handleHelo_def handleMail_def handleRcpt_def handleBdat_def handleData_def
      handleVrfy_def handleStartTls_def finishData_def handleAuth_def authAllowed_def resetTransaction_def
      Let_def split: sum.split option.split)

lemma plain_handleCommandLine:
  "plain_ok s \<Longrightarrow> \<not> allowInsecureAuth opt \<Longrightarrow> keeps_plain (handleCommandLine opt r x s)"
  by (simp add: handleCommandLine_def Let_def plain_handlers plain_handleEhlo plain_reset split: prod.split)

lemma plain_content:
  assumes "plain_ok s"
  shows "plain_ok (s\<lparr>buffer := bs\<rparr>)" "plain_ok (guardDataBuffer opt s)" "plain_ok (bdatRead s)"
  using assms by (simp_all add: plain_ok_def guardDataBuffer_def bdatRead_def Let_def)

lemma plain_line:
  assumes "plain_ok s"
  shows "plain_ok (s\<lparr>buffer := bs, dataOverflow := v, dataChunks := cs\<rparr>)"
    "plain_ok (s\<lparr>buffer := bs, dataChunks := cs, dataSize := n\<rparr>)"
  using assms by (simp_all add: plain_ok_def)

lemma plain_finishData:
  "finishData (s\<lparr>buffer := bs\<rparr>) = (s', acts) \<Longrightarrow> plain_ok s \<Longrightarrow> plain_ok s' \<and> list_all no_credentials acts"
  using plain_handlers(8) [of "s\<lparr>buffer := bs\<rparr>"] plain_content(1) [of s bs] by simp

lemma plain_pumpDataLine: "pumpDataLine opt s = (s', acts, b) \<Longrightarrow> plain_ok s \<Longrightarrow> keeps_plain (s', acts)"
  by (auto simp: pumpDataLine_def Let_def plain_content plain_line
      dest: plain_finishData split: option.splits if_splits prod.splits)

lemma plain_bdatEnd: "plain_ok s \<Longrightarrow> bdatEnd s = (s', acts, b) \<Longrightarrow> keeps_plain (s', acts)"
  using plain_handlers(8) [of s]
  by (auto simp: bdatEnd_def split: if_splits prod.splits) (auto simp: plain_ok_def resetTransaction_def)

lemma plain_pumpBdat: "plain_ok s \<Longrightarrow> pumpBdat s = (s', acts, b) \<Longrightarrow> keeps_plain (s', acts)"
  using plain_bdatEnd [of s] plain_bdatEnd [of "bdatRead s"] plain_content(3) [of s]
  by (auto simp: pumpBdat_def Let_def split: if_splits)

lemma plain_pumpLine:
  assumes "plain_ok s" "pumpLine h g s = (s', acts, b)"
    and "\<And>l t. plain_ok t \<Longrightarrow> keeps_plain (h l t)" "\<And>t. plain_ok t \<Longrightarrow> keeps_plain (g t)"
  shows "keeps_plain (s', acts)"
proof -
  have "keeps_plain (h l (s\<lparr>buffer := bs\<rparr>))" "keeps_plain (g (s\<lparr>buffer := bs\<rparr>))" for l bs
    using assms plain_content(1) by auto
  then show ?thesis
    using assms(1,2) by (auto simp: pumpLine_def split: option.splits if_splits prod.splits)
      (metis keeps_Pair)+
qed

lemma plain_pumpStep:
  assumes "plain_ok s" "\<not> allowInsecureAuth opt" "pumpStep c opt rnd s = (s', acts, b)"
  shows "plain_ok s' \<and> list_all no_credentials acts"
proof -
  have "authContinuation s = None" using assms by (simp add: plain_ok_def)
  moreover have "keeps_plain (s', acts)" if "pumpDataLine opt s = (s', acts, b)"
    using plain_pumpDataLine that assms(1) by blast
  moreover have "keeps_plain (s', acts)" if "pumpBdat s = (s', acts, b)"
    using plain_pumpBdat that assms(1) by blast
  moreover have "keeps_plain (s', acts)"
    if "pumpLine (handleCommandLine opt rnd) (\<lambda>t. (t, [reply 550 ''5.5.2'' ''Line too long''])) s = (s', acts, b)"
    by (rule plain_pumpLine [OF assms(1) that]) (simp_all add: plain_handleCommandLine assms(2))
  ultimately show ?thesis
    using assms(3) by (auto simp: pumpStep_def split: if_splits)
qed

interpretation plain: smtp_invariant opt "\<lambda>s. \<not> allowInsecureAuth opt \<longrightarrow> plain_ok s"
    "\<lambda>a. \<not> allowInsecureAuth opt \<longrightarrow> no_credentials a" "\<lambda>i. i \<noteq> TlsUpgraded"
  for opt :: smtp_options
proof
  show "(\<not> allowInsecureAuth opt \<longrightarrow> plain_ok s') \<and> list_all (\<lambda>a. \<not> allowInsecureAuth opt \<longrightarrow> no_credentials a) acts"
    if "\<not> allowInsecureAuth opt \<longrightarrow> plain_ok s" "pumpStep c opt rnd s = (s', acts, b)" for s c rnd s' acts b
    using that plain_pumpStep [of s opt c rnd s' acts b] by (auto simp: list_all_iff)
  show "\<not> allowInsecureAuth opt \<longrightarrow> plain_ok s'" if "\<not> allowInsecureAuth opt \<longrightarrow> plain_ok s" "answered s s'" for s s'
    using that(2,1) by (auto elim!: answeredE simp: plain_ok_def resetTransaction_def)
  show "\<not> allowInsecureAuth opt \<longrightarrow> no_credentials a" if "is_text a" for a
    using that by (cases a) auto
qed (simp_all add: plain_ok_def newSmtpEngine_def)

text \<open>C3: No credentials in the clear. Unless the insecure option is set, a session that has not been
  upgraded to TLS never asks the backend to check a password, a token or a SCRAM proof, never looks
  up SCRAM keys, and never becomes authenticated.\<close>

theorem smtp_no_plaintext_auth:
  assumes "smtp_session c opt (\<lambda>i. i \<noteq> TlsUpgraded) s acts" "\<not> allowInsecureAuth opt"
  shows "authenticatedAs s = None \<and> list_all no_credentials acts"
  using plain.session [OF assms(1)] assms(2) by (auto simp: plain_ok_def list_all_iff)

theorem smtp_no_plaintext_auth_witness:
  "\<exists>s acts. smtp_session toy_crypto demo_options (\<lambda>i. i \<noteq> TlsUpgraded) s acts \<and>
     demo_deliveries acts = [([''c@d''], ''.hi'' @ CRLF)] \<and> authenticatedAs s = None \<and>
     list_all no_credentials acts"
proof -
  have "\<exists>s acts. smtp_session toy_crypto demo_options (\<lambda>i. i \<noteq> TlsUpgraded) s acts \<and> \<not> closed s \<and>
     demo_deliveries acts = [([''c@d''], ''.hi'' @ CRLF)]"
    by (rule demo_session) simp_all
  then obtain s acts where d: "smtp_session toy_crypto demo_options (\<lambda>i. i \<noteq> TlsUpgraded) s acts"
     "demo_deliveries acts = [([''c@d''], ''.hi'' @ CRLF)]" by blast
  have "\<not> allowInsecureAuth demo_options" by (simp add: demo_options_def)
  then show ?thesis using d smtp_no_plaintext_auth [OF d(1)] by blast
qed

section \<open>STARTTLS\<close>

fun feeds :: "crypto \<Rightarrow> smtp_options \<Rightarrow> bytes \<Rightarrow> bytes list \<Rightarrow> smtp \<Rightarrow> smtp \<times> smtp_action list" where
  "feeds c opt rnd [] s = (s, [])"
| "feeds c opt rnd (b # bs) s =
     (let (s1, a) = feed c opt rnd b s; (s2, a2) = feeds c opt rnd bs s1 in (s2, a @ a2))"

text \<open>C5: No injection across STARTTLS. Bytes that arrive between the STARTTLS command and the end of
  the handshake produce no action and leave no trace in the upgraded session, which starts
  unauthenticated, with no transaction and an empty buffer.\<close>

theorem starttls_no_injection:
  assumes "awaiting s = Some Aw_tls" "feeds c opt rnd chunks s = (s', out)"
  shows "out = [] \<and> tlsUpgraded s' = tlsUpgraded s \<and> buffer (tlsUpgraded s') = [] \<and>
    state (tlsUpgraded s') = CS_init \<and> authenticatedAs (tlsUpgraded s') = None \<and> rcptTo (tlsUpgraded s') = []"
proof -
  have "out = [] \<and> tlsUpgraded s' = tlsUpgraded s"
    using assms
  proof (induction chunks arbitrary: s out)
    case (Cons b chunks)
    obtain s1 a where f: "feed c opt rnd b s = (s1, a)" by force
    have s1: "awaiting s1 = Some Aw_tls \<and> a = [] \<and> tlsUpgraded s1 = tlsUpgraded s"
      using f Cons.prems(1) by (auto simp: feed_def tlsUpgraded_def split: if_splits)
    obtain o2 where "feeds c opt rnd chunks s1 = (s', o2)" "out = a @ o2"
      using Cons.prems(2) f by (auto split: prod.splits)
    then show ?case using Cons.IH [of s1 o2] s1 by simp
  qed simp
  then show ?thesis by (simp add: tlsUpgraded_def)
qed

theorem starttls_no_injection_witness:
  "\<exists>s' out. feeds toy_crypto demo_options [] [''MAIL FROM:<x>'' @ CRLF] (newSmtpEngine\<lparr>awaiting := Some Aw_tls\<rparr>) = (s', out) \<and>
     out = [] \<and> buffer (tlsUpgraded s') = []"
proof -
  obtain s' out where f: "feeds toy_crypto demo_options [] [''MAIL FROM:<x>'' @ CRLF] (newSmtpEngine\<lparr>awaiting := Some Aw_tls\<rparr>) = (s', out)"
    by force
  have "awaiting (newSmtpEngine\<lparr>awaiting := Some Aw_tls\<rparr>) = Some Aw_tls" by simp
  then show ?thesis using starttls_no_injection [OF _ f] f by blast
qed

end
