(* ===== verification/DotStuffing.thy ===== *)
theory DotStuffing
  imports Prelude
begin

text \<open>
  The line format the mail protocols share (RFC 5321, section 4.5.2; RFC 1939, section 3): content
  lines end in CRLF, a line that starts with a dot gets another one, and a lone dot ends the
  message. Here is the sender's side, with which the receivers' handlers are compared.
\<close>

section \<open>Lines\<close>

lemma sub_index_CRLF_line:
  "sub_index CRLF l = None \<Longrightarrow> sub_index CRLF (l @ CR # LF # r) = Some (length l)"
proof (induction l)
  case (Cons a l)
  have "\<not> startsWith CRLF (a # l @ CR # LF # r)"
    using Cons.prems by (cases l) (auto split: if_splits)
  with Cons show ?case by (auto split: if_splits)
qed simp

text \<open>The sender's dot-stuffing (RFC 5321, section 4.5.2).\<close>

definition stuff :: "bytes \<Rightarrow> bytes" where
  "stuff l = (if l \<noteq> [] \<and> hd l = DOT then DOT # l else l)"

definition wire :: "bytes list \<Rightarrow> bytes" where
  "wire ls = concat (map (\<lambda>l. stuff l @ CRLF) ls)"

definition content :: "bytes list \<Rightarrow> bytes" where
  "content ls = concat (map (\<lambda>l. l @ CRLF) ls)"

lemma stuff_no_CRLF: "sub_index CRLF l = None \<Longrightarrow> sub_index CRLF (stuff l) = None"
  by (simp add: stuff_def)

lemma stuff_not_dot: "stuff l \<noteq> [DOT]"
  by (auto simp: stuff_def)

lemma unstuff: "(if stuff l \<noteq> [] \<and> hd (stuff l) = DOT then tl (stuff l) else stuff l) = l"
  by (auto simp: stuff_def)

abbreviation END_MARK :: bytes where "END_MARK \<equiv> [DOT, CR, LF]"

lemma wire_Cons [simp]: "wire (l # ls) = stuff l @ CRLF @ wire ls"
  by (simp add: wire_def)

lemma content_Cons [simp]: "content (l # ls) = l @ CRLF @ content ls"
  by (simp add: content_def)

lemma wire_content_Nil [simp]: "wire [] = []" "content [] = []"
  by (simp_all add: wire_def content_def)

lemma content_append: "content (a @ b) = content a @ content b"
  by (simp add: content_def)

lemma sub_index_mono: "sub_index pat q = Some i \<Longrightarrow> sub_index pat (q @ u) = Some i"
proof (induction q arbitrary: i)
  case Nil
  then show ?case by (cases u) (auto split: if_splits)
next
  case (Cons a q)
  have "startsWith pat (a # q) \<Longrightarrow> startsWith pat ((a # q) @ u)"
    by (metis append_assoc startsWith_iff)
  moreover have "\<not> startsWith pat (a # q) \<Longrightarrow> sub_index pat q = Some j \<Longrightarrow> \<not> startsWith pat (a # q @ u)" for j
    using sub_index_bound [of pat q j] by (auto simp: startsWith_iff append_eq_append_conv2 Cons_eq_append_conv)
  ultimately show ?case using Cons by (auto split: if_splits)
qed

lemma proper_prefix_no_CRLF:
  assumes "sub_index CRLF x = None" "x @ CRLF = q @ u" "u \<noteq> []"
  shows "sub_index CRLF q = None"
proof (rule ccontr)
  assume "sub_index CRLF q \<noteq> None"
  then obtain i where i: "sub_index CRLF q = Some i" by blast
  have "sub_index CRLF (x @ CRLF) = Some i" using sub_index_mono [OF i] assms(2) by simp
  then have "i = length x" using sub_index_CRLF_line [OF assms(1), of "[]"] by simp
  moreover have "length q < length x + 2" using assms(2,3) by (metis (no_types, lifting) add_2_eq_Suc' length_append length_greater_0_conv less_add_same_cancel1 list.size(3) list.size(4) One_nat_def add_Suc_right Nat.add_0_right)
  moreover have "i + 2 \<le> length q" using sub_index_bound [OF i] by simp
  ultimately show False by simp
qed


section \<open>The reader\<close>

text \<open>How a client reads a multi-line reply: lines up to the lone dot, each without its stuffing.\<close>

function client_read :: "bytes \<Rightarrow> (bytes list \<times> bytes) option" where
  "client_read buf =
     (case sub_index CRLF buf of
        None \<Rightarrow> None
      | Some i \<Rightarrow>
          (let line = take i buf; rest = drop (i + 2) buf in
           if line = [DOT] then Some ([], rest)
           else case client_read rest of
                  None \<Rightarrow> None
                | Some (ls, r) \<Rightarrow> Some ((if line \<noteq> [] \<and> hd line = DOT then tl line else line) # ls, r)))"
  by pat_completeness auto
termination
  by (relation "measure length") (auto dest: sub_index_bound)

declare client_read.simps [simp del]

lemma client_read_line:
  assumes "sub_index CRLF l = None"
  shows "client_read (stuff l @ CRLF @ r) = (case client_read r of None \<Rightarrow> None | Some (ls, r') \<Rightarrow> Some (l # ls, r'))"
proof -
  have "sub_index CRLF (stuff l @ CRLF @ r) = Some (length (stuff l))"
    using sub_index_CRLF_line [OF stuff_no_CRLF [OF assms], of r] by simp
  then show ?thesis
    using unstuff [of l] stuff_not_dot [of l] by (subst client_read.simps) (auto split: option.split)
qed

lemma client_read_wire:
  "\<forall>l \<in> set ls. sub_index CRLF l = None \<Longrightarrow> client_read (wire ls @ END_MARK @ r) = Some (ls, r)"
proof (induction ls)
  case Nil
  then show ?case by (subst client_read.simps) simp
next
  case (Cons l ls)
  then show ?case using client_read_line [of l "wire ls @ END_MARK @ r"] by simp
qed

end
