(* ===== verification/SmtpContent.thy ===== *)
theory SmtpContent
  imports SmtpSession DotStuffing
begin

text \<open>
  Message transfer in the SMTP engine: DATA undoes dot-stuffing and BDAT takes exactly the announced
  bytes, in one segment or in several. Two theorems describe inputs on which the transfer goes
  wrong: a terminator split between segments at the size limit, and the bytes of a refused BDAT.
\<close>

section \<open>Lines of DATA\<close>

text \<open>A session that is reading DATA and waits for nothing.\<close>

definition reading_data :: "smtp_options \<Rightarrow> smtp \<Rightarrow> bool" where
  "reading_data opt s \<longleftrightarrow>
     state s = CS_data \<and> awaiting s = None \<and> \<not> closed s \<and> authContinuation s = None \<and>
     \<not> pendingOverflow s \<and> \<not> dataOverflow s"

lemma pumpLoop_pass:
  assumes "awaiting s = None" "\<not> closed s" "pumpStep c opt rnd s = (s1, acts, True)"
  shows "pumpLoop c opt rnd s = (let (s2, a2) = pumpLoop c opt rnd s1 in (s2, acts @ a2))"
  using assms by (subst pumpLoop.simps) simp

lemma pumpLoop_last:
  assumes "awaiting s = None" "\<not> closed s" "pumpStep c opt rnd s = (s1, acts, False)"
  shows "pumpLoop c opt rnd s = (s1, acts)"
  using assms by (subst pumpLoop.simps) simp

lemma pumpLoop_stopped: "awaiting s \<noteq> None \<or> closed s \<Longrightarrow> pumpLoop c opt rnd s = (s, [])"
  by (subst pumpLoop.simps) simp

lemma data_line:
  assumes "reading_data opt s" "sub_index CRLF l = None" "buffer s = stuff l @ CRLF @ r"
    and "dataSize s + length l + 2 \<le> maxSizeBytes opt"
  shows "pumpStep c opt rnd s =
     (s\<lparr>buffer := r, dataChunks := dataChunks s @ [l, CRLF], dataSize := dataSize s + (length l + 2)\<rparr>, [], True)"
proof -
  have i: "indexOfCRLF (buffer s) = Some (length (stuff l))"
    using sub_index_CRLF_line [OF stuff_no_CRLF [OF assms(2)]] by (simp add: indexOfCRLF_def assms(3))
  show ?thesis
    using assms(1,4) i stuff_not_dot [of l] unstuff [of l]
    by (simp add: pumpStep_def reading_data_def pumpDataLine_def assms(3) Let_def)
qed

lemma data_end:
  assumes "reading_data opt s" "buffer s = [DOT, CR, LF]"
  shows "pumpStep c opt rnd s = (let (s1, acts) = finishData (s\<lparr>buffer := []\<rparr>) in (s1, acts, True))"
  using assms by (simp add: pumpStep_def reading_data_def pumpDataLine_def indexOfCRLF_def Let_def)

section \<open>Whole messages\<close>

lemma data_lines:
  assumes "reading_data opt s" "buffer s = wire ls @ r" "\<forall>l \<in> set ls. sub_index CRLF l = None"
    and "dataSize s + length (content ls) \<le> maxSizeBytes opt"
  shows "\<exists>cs. concat cs = content ls \<and> pumpLoop c opt rnd s =
    pumpLoop c opt rnd (s\<lparr>buffer := r, dataChunks := dataChunks s @ cs,
                          dataSize := dataSize s + length (content ls)\<rparr>)"
  using assms
proof (induction ls arbitrary: s)
  case Nil
  then have "s = s\<lparr>buffer := r, dataChunks := dataChunks s @ [], dataSize := dataSize s + 0\<rparr>" by simp
  then show ?case by (intro exI [of _ "[]"]) simp
next
  case (Cons l ls)
  let ?s1 = "s\<lparr>buffer := wire ls @ r, dataChunks := dataChunks s @ [l, CRLF],
               dataSize := dataSize s + (length l + 2)\<rparr>"
  have st: "pumpStep c opt rnd s = (?s1, [], True)"
    using Cons.prems by (intro data_line) auto
  have "reading_data opt ?s1" using Cons.prems(1) by (simp add: reading_data_def)
  then obtain cs where cs: "concat cs = content ls" "pumpLoop c opt rnd ?s1 =
      pumpLoop c opt rnd (?s1\<lparr>buffer := r, dataChunks := dataChunks ?s1 @ cs,
                             dataSize := dataSize ?s1 + length (content ls)\<rparr>)"
    using Cons.IH [of ?s1] Cons.prems by auto
  have "pumpLoop c opt rnd s = pumpLoop c opt rnd ?s1"
    using pumpLoop_pass [OF _ _ st] Cons.prems(1) by (simp add: reading_data_def)
  with cs show ?case
    by (intro exI [of _ "[l, CRLF] @ cs"]) (simp add: add.assoc)
qed



definition delivers :: "smtp \<Rightarrow> bytes \<Rightarrow> smtp \<times> smtp_action list \<Rightarrow> bool" where
  "delivers s raw r \<longleftrightarrow>
     awaiting (fst r) = Some Aw_deliver \<and>
     (\<exists>d. snd r = [Deliver d] \<and> d_raw d = raw \<and> d_rcptTo d = rcptTo s \<and> d_mailFrom d = orEmpty (mailFrom s))"

lemma feed_reading:
  assumes "reading_data opt s"
  shows "feed c opt rnd chunk s = guardErrors (pumpLoop c opt rnd (s\<lparr>buffer := buffer s @ chunk\<rparr>))"
  using assms by (simp add: feed_def reading_data_def resume_def pump_def split: prod.split)

text \<open>One segment that completes the message.\<close>

lemma feed_rest:
  assumes "reading_data opt s" "buffer s @ chunk = wire ls @ END_MARK" "\<forall>l \<in> set ls. sub_index CRLF l = None"
    and "dataSize s + length (content ls) \<le> maxSizeBytes opt" "errorCount s \<le> MAX_SMTP_ERRORS_PER_SESSION"
  shows "delivers s (concat (dataChunks s) @ content ls) (feed c opt rnd chunk s) \<and>
    buffer (fst (feed c opt rnd chunk s)) = []"
proof -
  let ?s0 = "s\<lparr>buffer := wire ls @ END_MARK\<rparr>"
  obtain cs where cs: "concat cs = content ls" "pumpLoop c opt rnd ?s0 =
      pumpLoop c opt rnd (?s0\<lparr>buffer := END_MARK, dataChunks := dataChunks ?s0 @ cs,
                            dataSize := dataSize ?s0 + length (content ls)\<rparr>)"
    using data_lines [of opt ?s0 ls END_MARK c rnd] assms by (auto simp: reading_data_def)
  let ?s1 = "?s0\<lparr>buffer := END_MARK, dataChunks := dataChunks ?s0 @ cs,
                dataSize := dataSize ?s0 + length (content ls)\<rparr>"
  have r1: "reading_data opt ?s1" using assms(1) by (simp add: reading_data_def)
  obtain s2 acts where f: "finishData (?s1\<lparr>buffer := []\<rparr>) = (s2, acts)" by force
  have st: "pumpStep c opt rnd ?s1 = (s2, acts, True)" using data_end [OF r1] f by simp
  have d: "awaiting s2 = Some Aw_deliver" "closed s2 = closed s" "errorCount s2 = errorCount s" "buffer s2 = []"
      "\<exists>d. acts = [Deliver d] \<and> d_raw d = concat (dataChunks s) @ content ls \<and> d_rcptTo d = rcptTo s \<and>
        d_mailFrom d = orEmpty (mailFrom s)"
    using f assms(1) cs(1) by (auto simp: finishData_def reading_data_def Let_def)
  have "pumpLoop c opt rnd ?s1 = (s2, acts)"
    using pumpLoop_pass [OF _ _ st] r1 pumpLoop_stopped [of s2] d(1) by (simp add: reading_data_def)
  then have "feed c opt rnd chunk s = guardErrors (s2, acts)"
    using feed_reading [OF assms(1)] assms(2) cs(2) by simp
  also have "\<dots> = (s2\<lparr>errorCount := errorCount s2\<rparr>, acts)"
    using d assms(1,5) by (auto simp: guardErrors_def reading_data_def)
  finally show ?thesis using d by (auto simp: delivers_def)
qed






section \<open>Two inputs that go wrong\<close>

text \<open>The room is needed. When the content has reached SIZE exactly, the end mark in one segment
  completes the message, but the same bytes cut after the dot do not: the dot is thrown away as
  excess, nothing is answered, and the session goes on reading content.\<close>

lemma smtp_end_mark_lost_at_limit:
  assumes "reading_data opt s" "buffer s = []" "dataSize s = maxSizeBytes opt"
    and "errorCount s \<le> MAX_SMTP_ERRORS_PER_SESSION"
  shows "delivers s (concat (dataChunks s)) (feeds c opt rnd [END_MARK] s) \<and>
    snd (feeds c opt rnd [[DOT], CRLF] s) = [] \<and> state (fst (feeds c opt rnd [[DOT], CRLF] s)) = CS_data \<and>
    awaiting (fst (feeds c opt rnd [[DOT], CRLF] s)) = None"
proof -
  have one: "delivers s (concat (dataChunks s)) (feeds c opt rnd [END_MARK] s)"
    using feed_rest [of opt s END_MARK "[]" c rnd] assms by (auto simp: delivers_def split: prod.split)
  let ?s1 = "s\<lparr>dataOverflow := True, dataChunks := [], dataSize := 0, buffer := []\<rparr>"
  have "pumpStep c opt rnd (s\<lparr>buffer := [DOT]\<rparr>) = (?s1, [], False)"
    using assms by (simp add: pumpStep_def reading_data_def pumpDataLine_def indexOfCRLF_def guardDataBuffer_def MAX_DATA_LINE_def)
  then have "pumpLoop c opt rnd (s\<lparr>buffer := [DOT]\<rparr>) = (?s1, [])"
    using assms(1) by (intro pumpLoop_last) (auto simp: reading_data_def)
  then have f1: "feed c opt rnd [DOT] s = (?s1, [])"
    using feed_reading [OF assms(1)] assms by (simp add: guardErrors_def reading_data_def)
  have "pumpStep c opt rnd (?s1\<lparr>buffer := CRLF\<rparr>) = (?s1, [], True)"
    using assms(1) by (simp add: pumpStep_def reading_data_def pumpDataLine_def indexOfCRLF_def)
  moreover have "pumpStep c opt rnd ?s1 = (?s1, [], False)"
    using assms(1) by (simp add: pumpStep_def reading_data_def pumpDataLine_def indexOfCRLF_def guardDataBuffer_def)
  ultimately have "pumpLoop c opt rnd (?s1\<lparr>buffer := CRLF\<rparr>) = (?s1, [])"
    using assms(1) pumpLoop_last [of ?s1] by (subst pumpLoop_pass) (auto simp: reading_data_def)
  then have f2: "feed c opt rnd CRLF ?s1 = (?s1, [])"
    using assms by (simp add: feed_def resume_def pump_def reading_data_def guardErrors_def)
  show ?thesis using one f1 f2 assms(1) by (simp add: reading_data_def)
qed

text \<open>A refused BDAT does not consume its chunk. Without an accepted recipient, \<open>BDAT 6\<close> is
  answered with 503 and the six bytes that follow are run as a command, here NOOP, whose reply comes
  next.\<close>

lemma smtp_bdat_refused_runs_chunk:
  assumes "state s = CS_greeted" "awaiting s = None" "\<not> closed s" "authContinuation s = None"
    and "buffer s = ''BDAT 6'' @ CRLF @ ''NOOP'' @ CRLF"
  shows "snd (pumpLoop c opt rnd s) =
     [reply 503 ''5.5.1'' ''Need RCPT before BDAT'', reply 250 ''2.0.0'' ''OK'']"
proof -
  have v: "splitVerb ''BDAT 6'' = (''BDAT'', ''6'')" "splitVerb ''NOOP'' = (''NOOP'', [])"
    "trim ''BDAT 6'' \<noteq> []" "trim ''NOOP'' \<noteq> []" by code_simp+
  have s1: "pumpStep c opt rnd s = (s\<lparr>buffer := ''NOOP'' @ CRLF\<rparr>, [reply 503 ''5.5.1'' ''Need RCPT before BDAT''], True)"
    using assms v by (simp add: pumpStep_def pumpLine_def indexOfCRLF_def handleCommandLine_def decodeLine_def
        utf8Decode_def handleBdat_def MAX_COMMAND_LINE_def Let_def)
  have s2: "pumpStep c opt rnd (s\<lparr>buffer := ''NOOP'' @ CRLF\<rparr>) = (s\<lparr>buffer := []\<rparr>, [reply 250 ''2.0.0'' ''OK''], True)"
    using assms v by (simp add: pumpStep_def pumpLine_def indexOfCRLF_def handleCommandLine_def decodeLine_def
        utf8Decode_def MAX_COMMAND_LINE_def Let_def)
  have s3: "pumpStep c opt rnd (s\<lparr>buffer := []\<rparr>) = (s\<lparr>buffer := []\<rparr>, [], False)"
    using assms by (simp add: pumpStep_def pumpLine_def indexOfCRLF_def)
  show ?thesis
    using assms pumpLoop_pass [OF _ _ s1] pumpLoop_pass [OF _ _ s2] pumpLoop_last [OF _ _ s3]
    by simp
qed

end
