(* ===== verification/LineEngine.thy ===== *)
theory LineEngine
  imports Prelude
begin

text \<open>
  What the protocol engines share: each eats bytes, cuts lines off its buffer in a loop, and emits
  actions. The locale \<open>line_loop\<close> is the contract of such a loop: its equation and a size that
  every pass that asks for another decreases. It gives the loop's proof rule (a relation respected
  by one pass is respected by the loop) and where the loop ends. The locale \<open>line_invariant\<close>
  extends it by an invariant.
\<close>

locale line_loop =
  fixes loop :: "'s \<Rightarrow> 's \<times> 'a list"
    and step :: "'s \<Rightarrow> 's \<times> 'a list \<times> bool"
    and stopped :: "'s \<Rightarrow> bool"
    and size_of :: "'s \<Rightarrow> nat"
  assumes loop_eq: "loop s =
      (if stopped s then (s, [])
       else let (s1, acts, again) = step s in
            if again then (let (s2, acts2) = loop s1 in (s2, acts @ acts2)) else (s1, acts))"
    and decreases: "\<not> stopped s \<Longrightarrow> step s = (s1, acts, True) \<Longrightarrow> size_of s1 < size_of s"
begin

lemma loop_stopped: "stopped s \<Longrightarrow> loop s = (s, [])"
  by (subst loop_eq) simp

lemma loop_last: "\<not> stopped s \<Longrightarrow> step s = (s1, acts, False) \<Longrightarrow> loop s = (s1, acts)"
  by (subst loop_eq) simp

lemma loop_pass:
  "\<not> stopped s \<Longrightarrow> step s = (s1, acts, True) \<Longrightarrow> loop s = (let (s2, acts2) = loop s1 in (s2, acts @ acts2))"
  by (subst loop_eq) simp

text \<open>Induction over the passes of the loop.\<close>

lemma loop_cases [case_names stopped last pass, consumes 1]:
  assumes "loop s = (s', acts)"
    and "stopped s \<Longrightarrow> s' = s \<Longrightarrow> acts = [] \<Longrightarrow> P"
    and "\<not> stopped s \<Longrightarrow> step s = (s', acts, False) \<Longrightarrow> P"
    and "\<And>s1 a b. \<not> stopped s \<Longrightarrow> step s = (s1, a, True) \<Longrightarrow> loop s1 = (s', b) \<Longrightarrow> acts = a @ b \<Longrightarrow> P"
  shows P
proof (cases "stopped s")
  case True
  with assms(1) loop_stopped [OF True] have "s' = s" "acts = []" by simp_all
  then show ?thesis by (rule assms(2) [OF True])
next
  case False
  obtain s1 a b where p: "step s = (s1, a, b)" by (metis prod.exhaust)
  show ?thesis
  proof (cases b)
    case True
    obtain s2 c where l: "loop s1 = (s2, c)" by force
    have "s' = s2" "acts = a @ c" using assms(1) loop_pass [of s s1 a] False p True l by simp_all
    with False p True l show ?thesis by (intro assms(4)) simp_all
  next
    case b: False
    have "s' = s1" "acts = a" using assms(1) loop_last [of s s1 a] False p b by simp_all
    with False p b show ?thesis by (intro assms(3)) simp_all
  qed
qed

lemma loop_rel:
  assumes "loop s = (s', acts)"
    and "\<And>s s1 a b. \<not> stopped s \<Longrightarrow> step s = (s1, a, b) \<Longrightarrow> rel s a s1"
    and "\<And>s. rel s [] s"
    and "\<And>s a t b u. rel s a t \<Longrightarrow> rel t b u \<Longrightarrow> rel s (a @ b) u"
  shows "rel s acts s'"
  using assms(1)
proof (induction "size_of s" arbitrary: s acts rule: less_induct)
  case less
  from less.prems show ?case
  proof (cases rule: loop_cases)
    case stopped
    with assms(3) show ?thesis by simp
  next
    case last
    with assms(2) show ?thesis by blast
  next
    case (pass s1 a b)
    then show ?thesis using less.hyps [OF decreases] assms(2,4) by metis
  qed
qed

text \<open>The loop ends stopped, or after a pass that asked for more input.\<close>

lemma loop_end:
  assumes "loop s = (s', acts)"
  shows "stopped s' \<or> (\<exists>t a. \<not> stopped t \<and> step t = (s', a, False))"
  using assms
proof (induction "size_of s" arbitrary: s acts rule: less_induct)
  case less
  from less.prems show ?case
  proof (cases rule: loop_cases)
    case (pass s1 a b)
    then show ?thesis using less.hyps [OF decreases] by metis
  qed auto
qed

end

locale line_invariant = line_loop loop step stopped size_of
  for loop :: "'s \<Rightarrow> 's \<times> 'a list"
    and step :: "'s \<Rightarrow> 's \<times> 'a list \<times> bool"
    and stopped :: "'s \<Rightarrow> bool"
    and size_of :: "'s \<Rightarrow> nat" +
  fixes inv :: "'s \<Rightarrow> bool"
    and good :: "'a \<Rightarrow> bool"
  assumes pass: "inv s \<Longrightarrow> \<not> stopped s \<Longrightarrow> step s = (s1, acts, b) \<Longrightarrow> inv s1 \<and> list_all good acts"
begin

lemma kept: "loop s = (s', acts) \<Longrightarrow> inv s \<Longrightarrow> inv s' \<and> list_all good acts"
  using loop_rel [of s s' acts "\<lambda>s a s'. inv s \<longrightarrow> inv s' \<and> list_all good a"] pass by auto

end

end
