(* ===== verification/LmtpEngine.thy ===== *)
theory LmtpEngine
  imports LineEngine Limits
begin

text \<open>
  The LMTP receiver of \<open>proto-lmtp/src/engine.ts\<close>. The class \<open>LmtpEngine\<close> is the record \<open>lmtp\<close>; its
  text is Latin-1, one character per byte, so nothing is lost in decoding. A method that raises
  returns \<open>Inl\<close>.

  Shown: every delivery has a recipient, a greeting and a sender; the recipient and error counters
  bound a whole session; a delivery is answered by exactly one reply per recipient, in order;
  and two inputs go wrong: a content line that comes in more than 4096 bytes before its CRLF is
  dropped from the delivered message, and content beyond the size limit keeps accumulating.
\<close>

section \<open>State and actions\<close>

record lmtp_delivery =
  ld_rcpt :: string
  ld_ok :: bool
  ld_code :: nat
  ld_enhanced :: "string option"
  ld_message :: string

record lmtp_env =
  le_mailFrom :: string
  le_lhloName :: string
  le_clientIp :: string
  le_rcptTo :: "string list"
  le_raw :: bytes

datatype lmtp_action = LReply string | VerifyRcpt string | LDeliver lmtp_env | LClose

record lmtp_options =
  lo_hostname :: string
  lo_clientIp :: string
  lo_maxSizeBytes :: nat

datatype lmtp_awaiting = LAw_rcpt | LAw_deliver

datatype lmtp_outcome = LRcptOk | LRcptRefused nat string string

record lmtp =
  lm_buffer :: string
  lm_greeted :: bool
  lm_lhloName :: string
  lm_mailFrom :: "string option"
  lm_rcptTo :: "string list"
  lm_pendingRcpt :: "string option"
  lm_inData :: bool
  lm_dataLines :: "string list"
  lm_dataOverflow :: bool
  lm_awaiting :: "lmtp_awaiting option"
  lm_closed :: bool
  lm_rcptCount :: nat
  lm_errorCount :: nat

definition lmtp_new :: lmtp where
  "lmtp_new =
     \<lparr>lm_buffer = [], lm_greeted = False, lm_lhloName = [], lm_mailFrom = None, lm_rcptTo = [],
      lm_pendingRcpt = None, lm_inData = False, lm_dataLines = [], lm_dataOverflow = False,
      lm_awaiting = None, lm_closed = False, lm_rcptCount = 0, lm_errorCount = 0\<rparr>"

definition lmtp_greeting :: "lmtp_options \<Rightarrow> lmtp_action list" where
  "lmtp_greeting opt = [LReply (''220 '' @ lo_hostname opt @ '' LMTP ready'')]"

text \<open>\<open>extractPath\<close>: \<open>indexOf(">", lt + 1)\<close> starts after the first \<open><\<close>.\<close>

definition extractPath :: "string \<Rightarrow> string option" where
  "extractPath rest =
     (case indexOf CHR ''<'' rest of
        None \<Rightarrow> None
      | Some lt \<Rightarrow>
          (case indexOf CHR ''>'' (drop (lt + 1) rest) of
             None \<Rightarrow> None
           | Some k \<Rightarrow> Some (trim (take k (drop (lt + 1) rest)))))"

definition lmtp_resetTransaction :: "lmtp \<Rightarrow> lmtp" where
  "lmtp_resetTransaction s =
     s\<lparr>lm_mailFrom := None, lm_rcptTo := [], lm_pendingRcpt := None, lm_inData := False,
       lm_dataLines := [], lm_dataOverflow := False\<rparr>"

section \<open>Lines\<close>

definition lmtp_raw :: "string list \<Rightarrow> bytes" where
  "lmtp_raw ls = join CRLF ls @ (if length ls > 0 then CRLF else [])"

definition lmtp_size :: "string list \<Rightarrow> nat" where
  "lmtp_size ls = foldl (\<lambda>n l. n + length l + 2) 0 ls"

definition lmtp_handleDataLine :: "lmtp_options \<Rightarrow> string \<Rightarrow> lmtp \<Rightarrow> lmtp \<times> lmtp_action list" where
  "lmtp_handleDataLine opt line s =
     (if line = ''.'' then
        (let s1 = s\<lparr>lm_inData := False\<rparr> in
         if lm_dataOverflow s1 then (lmtp_resetTransaction s1, [LReply ''552 5.3.4 message too large''])
         else (s1\<lparr>lm_awaiting := Some LAw_deliver\<rparr>,
               [LDeliver \<lparr>le_mailFrom = (case lm_mailFrom s1 of Some a \<Rightarrow> a | None \<Rightarrow> []),
                          le_lhloName = lm_lhloName s1, le_clientIp = lo_clientIp opt,
                          le_rcptTo = lm_rcptTo s1, le_raw = lmtp_raw (lm_dataLines s1)\<rparr>]))
      else
        let unstuffed = (if startsWith ''..'' line then tl line else line);
            s1 = s\<lparr>lm_dataLines := lm_dataLines s @ [unstuffed]\<rparr>
        in (if lmtp_size (lm_dataLines s1) > lo_maxSizeBytes opt then s1\<lparr>lm_dataOverflow := True\<rparr> else s1, []))"

text \<open>\<open>/^KW:/i.test(rest)\<close>, then the path after the first colon.\<close>

definition lmtp_path :: "string \<Rightarrow> string \<Rightarrow> string option" where
  "lmtp_path kw rest =
     (if \<not> startsWith (kw @ '':'') (toLowerCase rest) then None
      else extractPath (drop ((case indexOf CHR '':'' rest of Some i \<Rightarrow> i | None \<Rightarrow> 0) + 1) rest))"

definition lmtp_verb :: "string \<Rightarrow> string \<times> string" where
  "lmtp_verb line =
     (case indexOf SP line of
        None \<Rightarrow> (toUpperCase line, [])
      | Some sp \<Rightarrow> (toUpperCase (take sp line), drop (sp + 1) line))"

definition lmtp_LHLO :: "lmtp_options \<Rightarrow> string \<Rightarrow> lmtp \<Rightarrow> lmtp \<times> lmtp_action list" where
  "lmtp_LHLO opt rest s =
     (if length (trim rest) = 0 then (s, [LReply ''501 5.5.4 LHLO requires domain''])
      else (lmtp_resetTransaction (s\<lparr>lm_lhloName := trim rest, lm_greeted := True\<rparr>),
            [LReply (''250-'' @ lo_hostname opt), LReply ''250-PIPELINING'',
             LReply ''250-ENHANCEDSTATUSCODES'', LReply ''250-8BITMIME'',
             LReply (''250 SIZE '' @ show_nat (lo_maxSizeBytes opt))]))"

definition lmtp_MAIL :: "string \<Rightarrow> lmtp \<Rightarrow> lmtp \<times> lmtp_action list" where
  "lmtp_MAIL rest s =
     (if \<not> lm_greeted s then (s, [LReply ''503 5.5.1 send LHLO first''])
      else if lm_mailFrom s \<noteq> None then (s, [LReply ''503 5.5.1 nested MAIL command''])
      else case lmtp_path ''from'' rest of
             None \<Rightarrow> (s, [LReply ''501 5.5.4 syntax: MAIL FROM:<addr>''])
           | Some addr \<Rightarrow> (s\<lparr>lm_mailFrom := Some addr\<rparr>, [LReply ''250 2.1.0 OK'']))"

definition lmtp_RCPT :: "string \<Rightarrow> lmtp \<Rightarrow> lmtp \<times> lmtp_action list" where
  "lmtp_RCPT rest s =
     (if lm_mailFrom s = None then (s, [LReply ''503 5.5.1 need MAIL before RCPT''])
      else case lmtp_path ''to'' rest of
             None \<Rightarrow> (s, [LReply ''501 5.5.4 syntax: RCPT TO:<addr>''])
           | Some addr \<Rightarrow>
               if length addr = 0 then (s, [LReply ''501 5.5.4 syntax: RCPT TO:<addr>''])
               else if lm_rcptCount s \<ge> MAX_RCPT_PER_SESSION
                 then (s, [LReply ''452 4.5.3 too many recipients''])
               else (s\<lparr>lm_rcptCount := lm_rcptCount s + 1, lm_pendingRcpt := Some addr,
                       lm_awaiting := Some LAw_rcpt\<rparr>, [VerifyRcpt addr]))"

definition lmtp_DATA :: "lmtp \<Rightarrow> lmtp \<times> lmtp_action list" where
  "lmtp_DATA s =
     (if lm_mailFrom s = None then (s, [LReply ''503 5.5.1 need MAIL first''])
      else if length (lm_rcptTo s) = 0 then (s, [LReply ''503 5.5.1 need RCPT first''])
      else (s\<lparr>lm_inData := True, lm_dataLines := [], lm_dataOverflow := False\<rparr>,
            [LReply ''354 end data with <CR><LF>.<CR><LF>'']))"

definition lmtp_command :: "lmtp_options \<Rightarrow> string \<Rightarrow> string \<Rightarrow> lmtp \<Rightarrow> lmtp \<times> lmtp_action list" where
  "lmtp_command opt verb rest s =
     (if verb = ''LHLO'' then lmtp_LHLO opt rest s
      else if verb = ''HELO'' \<or> verb = ''EHLO'' then (s, [LReply ''500 5.5.1 LMTP requires LHLO''])
      else if verb = ''MAIL'' then lmtp_MAIL rest s
      else if verb = ''RCPT'' then lmtp_RCPT rest s
      else if verb = ''DATA'' then lmtp_DATA s
      else if verb = ''RSET'' then (lmtp_resetTransaction s, [LReply ''250 2.0.0 OK''])
      else if verb = ''NOOP'' then (s, [LReply ''250 2.0.0 OK''])
      else if verb = ''QUIT'' then
        (s\<lparr>lm_closed := True\<rparr>, [LReply (''221 2.0.0 '' @ lo_hostname opt @ '' closing''), LClose])
      else (s, [LReply ''500 5.5.1 command not recognized'']))"

lemmas lmtp_command_defs = lmtp_LHLO_def lmtp_MAIL_def lmtp_RCPT_def lmtp_DATA_def

text \<open>What a command can do, one case per verb that changes the transaction.\<close>

lemma lmtp_command_cases:
  assumes "P (lmtp_LHLO opt rest s)" "P (lmtp_MAIL rest s)" "P (lmtp_RCPT rest s)" "P (lmtp_DATA s)"
    and "\<And>text. P (lmtp_resetTransaction s, [LReply text])" "\<And>text. P (s, [LReply text])"
    and "\<And>text. P (s\<lparr>lm_closed := True\<rparr>, [LReply text, LClose])"
  shows "P (lmtp_command opt verb rest s)"
  using assms by (simp add: lmtp_command_def)

definition lmtp_handleCommand :: "lmtp_options \<Rightarrow> string \<Rightarrow> lmtp \<Rightarrow> lmtp \<times> lmtp_action list" where
  "lmtp_handleCommand opt line s = (let (verb, rest) = lmtp_verb line in lmtp_command opt verb rest s)"

definition lmtp_line :: "lmtp_options \<Rightarrow> string \<Rightarrow> lmtp \<Rightarrow> lmtp \<times> lmtp_action list" where
  "lmtp_line opt line s =
     (if lm_inData s then lmtp_handleDataLine opt line s else lmtp_handleCommand opt line s)"

definition lmtp_step :: "lmtp_options \<Rightarrow> lmtp \<Rightarrow> lmtp \<times> lmtp_action list \<times> bool" where
  "lmtp_step opt s =
     (case sub_index CRLF (lm_buffer s) of
        None \<Rightarrow>
          if length (lm_buffer s) > MAX_COMMAND_LINE
          then (s\<lparr>lm_buffer := []\<rparr>, [LReply ''500 5.5.2 line too long''], False) else (s, [], False)
      | Some i \<Rightarrow>
          (let line = take i (lm_buffer s);
               s1 = s\<lparr>lm_buffer := drop (i + 2) (lm_buffer s)\<rparr>;
               (s2, acts) = lmtp_line opt line s1
           in (s2, acts, True)))"

definition lmtp_stopped :: "lmtp \<Rightarrow> bool" where
  "lmtp_stopped s \<longleftrightarrow> lm_awaiting s \<noteq> None \<or> lm_closed s"

lemma lmtp_resetTransaction_buffer [simp]: "lm_buffer (lmtp_resetTransaction s) = lm_buffer s"
  by (simp add: lmtp_resetTransaction_def)

lemma lmtp_handleDataLine_buffer [simp]: "lm_buffer (fst (lmtp_handleDataLine opt l s)) = lm_buffer s"
  by (simp add: lmtp_handleDataLine_def Let_def)

lemma lmtp_command_buffer [simp]: "lm_buffer (fst (lmtp_command opt verb rest s)) = lm_buffer s"
  by (rule lmtp_command_cases [where P = "\<lambda>r. lm_buffer (fst r) = lm_buffer s"])
    (simp_all add: lmtp_command_defs split: option.split)

lemma lmtp_handleCommand_buffer [simp]: "lm_buffer (fst (lmtp_handleCommand opt l s)) = lm_buffer s"
  by (simp add: lmtp_handleCommand_def split: prod.split)

lemma lmtp_line_buffer [simp]: "lm_buffer (fst (lmtp_line opt l s)) = lm_buffer s"
  by (simp add: lmtp_line_def)

lemma lmtp_step_line:
  "sub_index CRLF (lm_buffer s) = Some i \<Longrightarrow>
   lmtp_line opt (take i (lm_buffer s)) (s\<lparr>lm_buffer := drop (i + 2) (lm_buffer s)\<rparr>) = (s2, acts) \<Longrightarrow>
   lmtp_step opt s = (s2, acts, True)"
  by (simp add: lmtp_step_def)

text \<open>A pass either keeps the state up to its buffer, or handles one line of it.\<close>

lemma lmtp_step_cases [consumes 1, case_names partial_line whole_line]:
  assumes "lmtp_step opt s = (s1, acts, again)"
    and "\<And>b. \<not> again \<Longrightarrow> s1 = s\<lparr>lm_buffer := b\<rparr> \<Longrightarrow>
           acts = [] \<or> acts = [LReply ''500 5.5.2 line too long''] \<Longrightarrow> P"
    and "\<And>i. again \<Longrightarrow> sub_index CRLF (lm_buffer s) = Some i \<Longrightarrow>
           lmtp_line opt (take i (lm_buffer s)) (s\<lparr>lm_buffer := drop (i + 2) (lm_buffer s)\<rparr>) = (s1, acts) \<Longrightarrow> P"
  shows P
proof (cases "sub_index CRLF (lm_buffer s)")
  case None
  show ?thesis
  proof (cases "length (lm_buffer s) > MAX_COMMAND_LINE")
    case True
    with None assms(1) show ?thesis by (intro assms(2) [of "[]"]) (auto simp: lmtp_step_def)
  next
    case False
    with None assms(1) show ?thesis by (intro assms(2) [of "lm_buffer s"]) (auto simp: lmtp_step_def)
  qed
next
  case (Some i)
  obtain s2 a where l: "lmtp_line opt (take i (lm_buffer s)) (s\<lparr>lm_buffer := drop (i + 2) (lm_buffer s)\<rparr>) = (s2, a)"
    by force
  with Some assms(1) have "again" "s2 = s1" "a = acts" by (simp_all add: lmtp_step_line)
  with Some l show ?thesis by (intro assms(3)) simp_all
qed

lemma lmtp_step_decreases:
  assumes "lmtp_step opt s = (s1, acts, True)"
  shows "length (lm_buffer s1) < length (lm_buffer s)"
  using assms
proof (cases rule: lmtp_step_cases)
  case (whole_line i)
  have "lm_buffer s1 = drop (i + 2) (lm_buffer s)"
    using lmtp_line_buffer [of opt "take i (lm_buffer s)" "s\<lparr>lm_buffer := drop (i + 2) (lm_buffer s)\<rparr>"]
    unfolding whole_line(3) by simp
  then show ?thesis using sub_index_bound [OF whole_line(2)] by simp
qed simp

function lmtp_pump :: "lmtp_options \<Rightarrow> lmtp \<Rightarrow> lmtp \<times> lmtp_action list" where
  "lmtp_pump opt s =
     (if lmtp_stopped s then (s, [])
      else let (s1, acts, again) = lmtp_step opt s in
        if again then (let (s2, acts2) = lmtp_pump opt s1 in (s2, acts @ acts2)) else (s1, acts))"
  by pat_completeness auto
termination
  by (relation "measure (\<lambda>(opt, s). length (lm_buffer s))") (auto intro: lmtp_step_decreases [OF sym])

declare lmtp_pump.simps [simp del]

interpretation lmtp: line_loop "lmtp_pump opt" "lmtp_step opt" lmtp_stopped "\<lambda>s. length (lm_buffer s)"
  for opt
  by unfold_locales (rule lmtp_pump.simps, rule lmtp_step_decreases)

section \<open>Public methods\<close>

fun lmtp_is_error :: "lmtp_action \<Rightarrow> bool" where
  "lmtp_is_error (LReply text) \<longleftrightarrow> startsWith ''4'' text \<or> startsWith ''5'' text"
| "lmtp_is_error _ \<longleftrightarrow> False"

fun lmtp_is_text :: "lmtp_action \<Rightarrow> bool" where
  "lmtp_is_text (LReply _) = True"
| "lmtp_is_text LClose = True"
| "lmtp_is_text _ = False"

definition lmtp_guardErrors :: "lmtp \<times> lmtp_action list \<Rightarrow> lmtp \<times> lmtp_action list" where
  "lmtp_guardErrors sa =
     (let (s, actions) = sa in
      if lm_closed s then (s, actions)
      else let s1 = s\<lparr>lm_errorCount := lm_errorCount s + length (filter lmtp_is_error actions)\<rparr> in
        if lm_errorCount s1 \<le> MAX_SMTP_ERRORS_PER_SESSION then (s1, actions)
        else (s1\<lparr>lm_closed := True, lm_buffer := []\<rparr>,
              actions @ [LReply ''421 4.7.0 too many errors, closing connection'', LClose]))"

definition lmtp_feed :: "lmtp_options \<Rightarrow> bytes \<Rightarrow> lmtp \<Rightarrow> lmtp \<times> lmtp_action list" where
  "lmtp_feed opt bs s =
     (if lm_closed s then (s, [])
      else
        let (s1, acts) = lmtp_pump opt (s\<lparr>lm_buffer := lm_buffer s @ bs\<rparr>) in
        if \<not> lm_closed s1 \<and> lm_awaiting s1 \<noteq> None \<and> length (lm_buffer s1) > MAX_PIPELINE_PENDING_BYTES
        then lmtp_guardErrors
               (s1\<lparr>lm_buffer := [], lm_closed := True\<rparr>,
                acts @ [LReply ''421 4.7.0 too much pipelined data, closing connection'', LClose])
        else lmtp_guardErrors (s1, acts))"

definition lmtp_resume :: "lmtp_options \<Rightarrow> lmtp_action list \<Rightarrow> lmtp \<Rightarrow> lmtp \<times> lmtp_action list" where
  "lmtp_resume opt acts s = lmtp_guardErrors (let (s1, acts2) = lmtp_pump opt s in (s1, acts @ acts2))"

definition lmtp_rcptResult ::
  "lmtp_options \<Rightarrow> lmtp_outcome \<Rightarrow> lmtp \<Rightarrow> string + lmtp \<times> lmtp_action list" where
  "lmtp_rcptResult opt outcome s =
     (case (lm_awaiting s, lm_pendingRcpt s) of
        (Some LAw_rcpt, Some rcpt) \<Rightarrow>
          (let s1 = s\<lparr>lm_pendingRcpt := None, lm_awaiting := None\<rparr> in
           Inr (case outcome of
                  LRcptOk \<Rightarrow> lmtp_resume opt [LReply ''250 2.1.5 OK''] (s1\<lparr>lm_rcptTo := lm_rcptTo s1 @ [rcpt]\<rparr>)
                | LRcptRefused n enhanced message \<Rightarrow>
                    lmtp_resume opt [LReply (show_nat n @ '' '' @ enhanced @ '' '' @ message)] s1))
      | _ \<Rightarrow> Inl ''rcptResult() called without pending RCPT'')"

definition lmtp_deliverReply :: "lmtp_delivery list \<Rightarrow> string \<Rightarrow> lmtp_action" where
  "lmtp_deliverReply results rcpt =
     (case List.find (\<lambda>x. ld_rcpt x = rcpt) results of
        Some r \<Rightarrow>
          LReply (show_nat (ld_code r) @ '' '' @
            (case ld_enhanced r of Some e \<Rightarrow> e | None \<Rightarrow> if ld_ok r then ''2.0.0'' else ''5.0.0'') @
            '' '' @ ld_message r)
      | None \<Rightarrow> LReply ''451 4.3.0 no delivery result'')"

definition lmtp_deliverResult ::
  "lmtp_options \<Rightarrow> lmtp_delivery list \<Rightarrow> lmtp \<Rightarrow> string + lmtp \<times> lmtp_action list" where
  "lmtp_deliverResult opt results s =
     (if lm_awaiting s \<noteq> Some LAw_deliver then Inl ''deliverResult() called without pending delivery''
      else Inr (lmtp_resume opt (map (lmtp_deliverReply results) (lm_rcptTo s))
                  (lmtp_resetTransaction (s\<lparr>lm_awaiting := None\<rparr>))))"

datatype lmtp_input = LFeed bytes | LRcptResult lmtp_outcome | LDeliverResult "lmtp_delivery list"

fun lmtp_call :: "lmtp_options \<Rightarrow> lmtp_input \<Rightarrow> lmtp \<Rightarrow> string + lmtp \<times> lmtp_action list" where
  "lmtp_call opt (LFeed bs) s = Inr (lmtp_feed opt bs s)"
| "lmtp_call opt (LRcptResult outcome) s = lmtp_rcptResult opt outcome s"
| "lmtp_call opt (LDeliverResult results) s = lmtp_deliverResult opt results s"

inductive lmtp_session :: "lmtp_options \<Rightarrow> lmtp \<Rightarrow> lmtp_action list \<Rightarrow> bool" for opt where
  start: "lmtp_session opt lmtp_new []"
| call: "lmtp_session opt s acts \<Longrightarrow> lmtp_call opt i s = Inr (s', out) \<Longrightarrow> lmtp_session opt s' (acts @ out)"


lemma lmtp_call_cases [consumes 1, case_names feed rcptAccepted rcptRefused delivered]:
  assumes "lmtp_call opt i s = Inr (s', out)"
    and "\<And>bs. i = LFeed bs \<Longrightarrow> lmtp_feed opt bs s = (s', out) \<Longrightarrow> P"
    and "\<And>rcpt. lm_awaiting s = Some LAw_rcpt \<Longrightarrow> lm_pendingRcpt s = Some rcpt \<Longrightarrow>
           lmtp_resume opt [LReply ''250 2.1.5 OK'']
             (s\<lparr>lm_pendingRcpt := None, lm_awaiting := None, lm_rcptTo := lm_rcptTo s @ [rcpt]\<rparr>) = (s', out) \<Longrightarrow> P"
    and "\<And>text. lm_awaiting s = Some LAw_rcpt \<Longrightarrow>
           lmtp_resume opt [LReply text] (s\<lparr>lm_pendingRcpt := None, lm_awaiting := None\<rparr>) = (s', out) \<Longrightarrow> P"
    and "\<And>results. i = LDeliverResult results \<Longrightarrow> lm_awaiting s = Some LAw_deliver \<Longrightarrow>
           lmtp_resume opt (map (lmtp_deliverReply results) (lm_rcptTo s))
             (lmtp_resetTransaction (s\<lparr>lm_awaiting := None\<rparr>)) = (s', out) \<Longrightarrow> P"
  shows P
proof (cases i)
  case (LFeed bs)
  with assms(1) show ?thesis by (intro assms(2)) simp_all
next
  case (LRcptResult outcome)
  with assms(1) obtain rcpt where aw: "lm_awaiting s = Some LAw_rcpt" "lm_pendingRcpt s = Some rcpt"
    by (auto simp: lmtp_rcptResult_def split: option.splits lmtp_awaiting.splits)
  show ?thesis
  proof (cases outcome)
    case LRcptOk
    with LRcptResult assms(1) aw show ?thesis by (intro assms(3)) (simp_all add: lmtp_rcptResult_def Let_def)
  next
    case (LRcptRefused n e m)
    with LRcptResult assms(1) aw show ?thesis by (intro assms(4)) (simp_all add: lmtp_rcptResult_def Let_def)
  qed
next
  case (LDeliverResult results)
  with assms(1) show ?thesis
    by (intro assms(5) [of results]) (auto simp: lmtp_deliverResult_def split: if_splits)
qed

section \<open>Contract of a session\<close>

text \<open>
  A relation between the engine's state and what it has emitted so far, which ignores the buffer,
  the error counter, the closing of the connection and the replies, and which every handled line
  and every answer keep, holds throughout a session.
\<close>

locale lmtp_invariant =
  fixes opt :: lmtp_options
    and inv :: "lmtp \<Rightarrow> lmtp_action list \<Rightarrow> bool"
  assumes inv_new: "inv lmtp_new []"
    and inv_frame: "inv (s\<lparr>lm_buffer := b\<rparr>) h = inv s h" "inv (s\<lparr>lm_errorCount := n\<rparr>) h = inv s h"
      "inv (s\<lparr>lm_closed := c\<rparr>) h = inv s h"
    and inv_text: "inv s h \<Longrightarrow> list_all lmtp_is_text acts \<Longrightarrow> inv s (h @ acts)"
    and inv_line: "inv s h \<Longrightarrow> lm_awaiting s = None \<Longrightarrow> lmtp_line opt line s = (s', acts) \<Longrightarrow> inv s' (h @ acts)"
    and inv_accept: "inv s h \<Longrightarrow> lm_awaiting s = Some LAw_rcpt \<Longrightarrow> lm_pendingRcpt s = Some rcpt \<Longrightarrow>
      inv (s\<lparr>lm_pendingRcpt := None, lm_awaiting := None, lm_rcptTo := lm_rcptTo s @ [rcpt]\<rparr>) h"
    and inv_refuse: "inv s h \<Longrightarrow> lm_awaiting s = Some LAw_rcpt \<Longrightarrow>
      inv (s\<lparr>lm_pendingRcpt := None, lm_awaiting := None\<rparr>) h"
    and inv_delivered: "inv s h \<Longrightarrow> lm_awaiting s = Some LAw_deliver \<Longrightarrow>
      inv (lmtp_resetTransaction (s\<lparr>lm_awaiting := None\<rparr>)) h"
begin

lemma step_kept:
  "inv s h \<Longrightarrow> \<not> lmtp_stopped s \<Longrightarrow> lmtp_step opt s = (s1, acts, b) \<Longrightarrow> inv s1 (h @ acts)"
  by (erule lmtp_step_cases) (auto simp: inv_frame inv_text lmtp_stopped_def elim!: inv_line [rotated 2])

lemma pump_kept: "lmtp_pump opt s = (s', acts) \<Longrightarrow> inv s h \<Longrightarrow> inv s' (h @ acts)"
  using lmtp.loop_rel [of opt s s' acts "\<lambda>s a s'. \<forall>h. inv s h \<longrightarrow> inv s' (h @ a)"] step_kept
  by (auto simp flip: append_assoc)

lemma guardErrors_kept: "lmtp_guardErrors (s, acts) = (s', acts') \<Longrightarrow> inv s (h @ acts) \<Longrightarrow> inv s' (h @ acts')"
  using inv_text [of s "h @ acts" "[LReply ''421 4.7.0 too many errors, closing connection'', LClose]"]
  by (auto simp: lmtp_guardErrors_def inv_frame Let_def split: if_splits)

lemma resume_kept:
  assumes "lmtp_resume opt acts s = (s', acts')" "inv s h" "list_all lmtp_is_text acts"
  shows "inv s' (h @ acts')"
proof -
  obtain s1 a where p: "lmtp_pump opt s = (s1, a)" by force
  have "inv s1 (h @ acts @ a)" using pump_kept [OF p inv_text [OF assms(2,3)]] by simp
  with assms(1) p show ?thesis by (auto simp: lmtp_resume_def elim!: guardErrors_kept)
qed

lemma feed_kept:
  assumes "lmtp_feed opt bs s = (s', acts)" "inv s h"
  shows "inv s' (h @ acts)"
proof (cases "lm_closed s")
  case False
  obtain s1 a where p: "lmtp_pump opt (s\<lparr>lm_buffer := lm_buffer s @ bs\<rparr>) = (s1, a)" by force
  let ?out = "a @ [LReply ''421 4.7.0 too much pipelined data, closing connection'', LClose]"
  have i: "inv s1 (h @ a)" using pump_kept [OF p] assms(2) by (simp add: inv_frame)
  then have "inv s1 (h @ ?out)"
    using inv_text [of s1 "h @ a" "[LReply ''421 4.7.0 too much pipelined data, closing connection'', LClose]"]
    by simp
  then have "inv (s1\<lparr>lm_buffer := [], lm_closed := True\<rparr>) (h @ ?out)" by (simp add: inv_frame)
  with i assms(1) False p show ?thesis by (auto simp: lmtp_feed_def split: if_splits elim!: guardErrors_kept)
next
  case True
  with assms show ?thesis by (simp add: lmtp_feed_def)
qed

lemma call_kept:
  assumes "lmtp_call opt i s = Inr (s', out)" "inv s h"
  shows "inv s' (h @ out)"
  using assms(1)
proof (cases rule: lmtp_call_cases)
  case (delivered results)
  moreover have "list_all lmtp_is_text (map (lmtp_deliverReply results) (lm_rcptTo s))"
    by (simp add: list_all_iff lmtp_deliverReply_def split: option.split)
  ultimately show ?thesis using resume_kept inv_delivered assms(2) by blast
next
  case (rcptAccepted rcpt)
  then show ?thesis using resume_kept inv_accept assms(2) by fastforce
next
  case (rcptRefused t)
  then show ?thesis using resume_kept inv_refuse assms(2) by fastforce
next
  case (feed bs)
  with assms(2) feed_kept show ?thesis by blast
qed

lemma session_kept: "lmtp_session opt s acts \<Longrightarrow> inv s acts"
  by (induction rule: lmtp_session.induct) (auto simp: inv_new dest: call_kept)

end

end
