(* ===== verification/LmtpSession.thy ===== *)
theory LmtpSession
  imports LmtpEngine DotStuffing
begin

text \<open>
  What LMTP sessions guarantee, through interpretations of \<open>lmtp_invariant\<close>, and the message
  content that DATA delivers.
\<close>

section \<open>Well-formed states\<close>

fun lmtp_delivery_ok :: "lmtp_options \<Rightarrow> lmtp_action \<Rightarrow> bool" where
  "lmtp_delivery_ok opt (LDeliver env) \<longleftrightarrow>
     le_rcptTo env \<noteq> [] \<and> length (le_rcptTo env) \<le> MAX_RCPT_PER_SESSION \<and> list_all (\<lambda>r. r \<noteq> []) (le_rcptTo env) \<and>
     le_lhloName env \<noteq> [] \<and> le_clientIp env = lo_clientIp opt \<and> length (le_raw env) \<le> lo_maxSizeBytes opt"
| "lmtp_delivery_ok opt _ \<longleftrightarrow> True"

fun lmtp_aw_ok :: "lmtp \<Rightarrow> lmtp_awaiting option \<Rightarrow> bool" where
  "lmtp_aw_ok s None \<longleftrightarrow> length (lm_rcptTo s) \<le> lm_rcptCount s"
| "lmtp_aw_ok s (Some LAw_rcpt) \<longleftrightarrow>
     length (lm_rcptTo s) < lm_rcptCount s \<and> \<not> lm_inData s \<and> lm_mailFrom s \<noteq> None \<and>
     (case lm_pendingRcpt s of None \<Rightarrow> False | Some r \<Rightarrow> r \<noteq> [])"
| "lmtp_aw_ok s (Some LAw_deliver) \<longleftrightarrow> length (lm_rcptTo s) \<le> lm_rcptCount s \<and> lm_rcptTo s \<noteq> [] \<and> \<not> lm_inData s"

definition lmtp_wf :: "lmtp_options \<Rightarrow> lmtp \<Rightarrow> bool" where
  "lmtp_wf opt s \<longleftrightarrow>
     (lm_mailFrom s \<noteq> None \<longrightarrow> lm_lhloName s \<noteq> []) \<and>
     (lm_greeted s \<longrightarrow> lm_lhloName s \<noteq> []) \<and>
     (lm_rcptTo s \<noteq> [] \<longrightarrow> lm_mailFrom s \<noteq> None) \<and>
     (lm_inData s \<longrightarrow> lm_rcptTo s \<noteq> [] \<and> (lm_dataOverflow s \<or> lmtp_size (lm_dataLines s) \<le> lo_maxSizeBytes opt)) \<and>
     list_all (\<lambda>r. r \<noteq> []) (lm_rcptTo s) \<and> lm_rcptCount s \<le> MAX_RCPT_PER_SESSION \<and>
     lmtp_aw_ok s (lm_awaiting s)"

lemma lmtp_aw_ok_frame [simp]:
  "lmtp_aw_ok (s\<lparr>lm_buffer := b\<rparr>) a = lmtp_aw_ok s a" "lmtp_aw_ok (s\<lparr>lm_errorCount := n\<rparr>) a = lmtp_aw_ok s a"
  "lmtp_aw_ok (s\<lparr>lm_closed := c\<rparr>) a = lmtp_aw_ok s a" "lmtp_aw_ok (s\<lparr>lm_awaiting := w\<rparr>) a = lmtp_aw_ok s a"
  by (cases "(s, a)" rule: lmtp_aw_ok.cases; simp)+

lemma lmtp_wf_frame [simp]:
  "lmtp_wf opt (s\<lparr>lm_buffer := b\<rparr>) = lmtp_wf opt s" "lmtp_wf opt (s\<lparr>lm_errorCount := n\<rparr>) = lmtp_wf opt s"
  "lmtp_wf opt (s\<lparr>lm_closed := c\<rparr>) = lmtp_wf opt s"
  by (simp_all add: lmtp_wf_def)

lemma lmtp_size_eq: "lmtp_size ls = sum_list (map (\<lambda>l. length l + 2) ls)"
proof -
  have "foldl (\<lambda>n l. n + length l + 2) k ls = k + sum_list (map (\<lambda>l. length l + 2) ls)" for k
    by (induction ls arbitrary: k) auto
  then show ?thesis by (simp add: lmtp_size_def)
qed

lemma length_lmtp_raw: "length (lmtp_raw ls) = lmtp_size ls"
proof (induction ls)
  case (Cons l ls)
  then show ?case by (cases ls) (auto simp: lmtp_raw_def lmtp_size_eq)
qed (simp add: lmtp_raw_def lmtp_size_eq)

lemma lmtp_wf_reset:
  "lmtp_wf opt s \<Longrightarrow> lm_awaiting s = None \<Longrightarrow> lmtp_wf opt (lmtp_resetTransaction s)"
  by (auto simp: lmtp_wf_def lmtp_resetTransaction_def)

lemma lmtp_wf_dataLine:
  assumes "lmtp_wf opt s" "lm_awaiting s = None" "lm_inData s"
  shows "lmtp_wf opt (fst (lmtp_handleDataLine opt line s)) \<and>
    list_all (lmtp_delivery_ok opt) (snd (lmtp_handleDataLine opt line s))"
  using assms
  by (cases "lm_dataOverflow s")
    (simp_all add: lmtp_handleDataLine_def lmtp_wf_def lmtp_resetTransaction_def Let_def length_lmtp_raw)

lemma lmtp_wf_handlers:
  assumes "lmtp_wf opt s" "lm_awaiting s = None" "\<not> lm_inData s"
  shows "lmtp_wf opt (fst (lmtp_LHLO opt rest s))" "lmtp_wf opt (fst (lmtp_MAIL rest s))"
    "lmtp_wf opt (fst (lmtp_RCPT rest s))" "lmtp_wf opt (fst (lmtp_DATA s))"
  using assms
  by (cases "lm_mailFrom s";
      simp add: lmtp_command_defs lmtp_wf_def lmtp_resetTransaction_def lmtp_size_def split: option.split)+

lemma lmtp_handlers_deliver_nothing:
  "list_all (lmtp_delivery_ok opt) (snd (lmtp_LHLO opt rest s))"
  "list_all (lmtp_delivery_ok opt) (snd (lmtp_MAIL rest s))"
  "list_all (lmtp_delivery_ok opt) (snd (lmtp_RCPT rest s))" "list_all (lmtp_delivery_ok opt) (snd (lmtp_DATA s))"
  by (simp_all add: lmtp_command_defs split: option.split)

lemma lmtp_wf_command:
  assumes "lmtp_wf opt s" "lm_awaiting s = None" "\<not> lm_inData s"
  shows "lmtp_wf opt (fst (lmtp_command opt verb rest s)) \<and>
    list_all (lmtp_delivery_ok opt) (snd (lmtp_command opt verb rest s))"
  by (rule lmtp_command_cases [where P = "\<lambda>r. lmtp_wf opt (fst r) \<and> list_all (lmtp_delivery_ok opt) (snd r)"])
    (simp_all add: assms lmtp_wf_handlers lmtp_handlers_deliver_nothing lmtp_wf_reset)

lemma lmtp_wf_line:
  assumes "lmtp_wf opt s" "lm_awaiting s = None" "lmtp_line opt line s = (s', acts)"
  shows "lmtp_wf opt s' \<and> list_all (lmtp_delivery_ok opt) acts"
  using assms lmtp_wf_dataLine [of opt s line] lmtp_wf_command [of opt s "fst (lmtp_verb line)" "snd (lmtp_verb line)"]
  by (cases "lm_inData s") (simp_all add: lmtp_line_def lmtp_handleCommand_def split_beta)

lemma text_delivery_ok: "list_all lmtp_is_text acts \<Longrightarrow> list_all (lmtp_delivery_ok opt) acts"
  by (induction acts) (auto elim: lmtp_is_text.elims)

interpretation lmtp_wf: lmtp_invariant opt "\<lambda>s h. lmtp_wf opt s \<and> list_all (lmtp_delivery_ok opt) h" for opt
proof (unfold_locales, goal_cases)
  case 1
  then show ?case by (simp add: lmtp_wf_def lmtp_new_def)
next
  case 5
  then show ?case using text_delivery_ok by auto
next
  case 6
  then show ?case using lmtp_wf_line by fastforce
next
  case 7
  then show ?case by (auto simp: lmtp_wf_def)
next
  case 8
  then show ?case by (auto simp: lmtp_wf_def)
next
  case 9
  then show ?case by (auto simp: lmtp_wf_def lmtp_resetTransaction_def)
qed simp_all


section \<open>Requests and recipients\<close>

fun is_verify :: "lmtp_action \<Rightarrow> bool" where
  "is_verify (VerifyRcpt _) = True"
| "is_verify _ = False"

lemma text_not_verify: "list_all lmtp_is_text acts \<Longrightarrow> filter is_verify acts = []"
  by (induction acts) (auto elim: lmtp_is_text.elims)

definition lmtp_counted :: "lmtp \<Rightarrow> lmtp \<times> lmtp_action list \<Rightarrow> bool" where
  "lmtp_counted s r \<longleftrightarrow> lm_rcptCount (fst r) = lm_rcptCount s + length (filter is_verify (snd r))"

lemma lmtp_line_counted: "lmtp_counted s (lmtp_line opt line s)"
proof -
  have "lmtp_counted s (lmtp_command opt verb rest s)" for verb rest
    by (rule lmtp_command_cases)
      (simp_all add: lmtp_counted_def lmtp_command_defs lmtp_resetTransaction_def split: option.split)
  moreover have "lmtp_counted s (lmtp_handleDataLine opt line s)"
    by (simp add: lmtp_counted_def lmtp_handleDataLine_def lmtp_resetTransaction_def Let_def)
  ultimately show ?thesis by (simp add: lmtp_line_def lmtp_handleCommand_def split: prod.split)
qed

interpretation lmtp_count: lmtp_invariant opt "\<lambda>s h. length (filter is_verify h) = lm_rcptCount s" for opt
proof (unfold_locales, goal_cases)
  case (6 s h line s' acts)
  then show ?case using lmtp_line_counted [of s opt line] by (simp add: lmtp_counted_def)
qed (simp_all add: lmtp_new_def text_not_verify lmtp_resetTransaction_def)

text \<open>The engine waits for a delivery only right after it has asked for one, to the recipients it still holds.\<close>

definition lmtp_agrees :: "lmtp \<Rightarrow> lmtp_action list \<Rightarrow> bool" where
  "lmtp_agrees s h \<longleftrightarrow> (lm_awaiting s = Some LAw_deliver \<longrightarrow>
     (\<exists>pre env post. h = pre @ LDeliver env # post \<and> list_all lmtp_is_text post \<and> le_rcptTo env = lm_rcptTo s))"

lemma lmtp_agreesI:
  "h = pre @ LDeliver env # post \<Longrightarrow> list_all lmtp_is_text post \<Longrightarrow> le_rcptTo env = lm_rcptTo s \<Longrightarrow> lmtp_agrees s h"
  unfolding lmtp_agrees_def by blast

lemma lmtp_line_agrees:
  assumes "lm_awaiting s = None" "lmtp_line opt line s = (s', acts)"
  shows "lmtp_agrees s' (h @ acts)"
proof (cases "lm_inData s")
  case True
  show ?thesis
  proof (cases "line = ''.'' \<and> \<not> lm_dataOverflow s")
    case end_mark: True
    with True assms obtain env where "s' = s\<lparr>lm_inData := False, lm_awaiting := Some LAw_deliver\<rparr>"
        "acts = [LDeliver env]" "le_rcptTo env = lm_rcptTo s"
      by (auto simp: lmtp_line_def lmtp_handleDataLine_def Let_def)
    then show ?thesis by (intro lmtp_agreesI [of _ h env "[]"]) simp_all
  next
    case False
    with True assms have "lm_awaiting s' = None"
      by (auto simp: lmtp_line_def lmtp_handleDataLine_def lmtp_resetTransaction_def Let_def split: if_splits)
    then show ?thesis by (simp add: lmtp_agrees_def)
  qed
next
  case False
  have "lm_awaiting (fst (lmtp_command opt verb rest s)) \<noteq> Some LAw_deliver" for verb rest
    by (rule lmtp_command_cases)
      (simp_all add: assms(1) lmtp_command_defs lmtp_resetTransaction_def split: option.split)
  then have "lm_awaiting (fst (lmtp_line opt line s)) \<noteq> Some LAw_deliver"
    using False by (simp add: lmtp_line_def lmtp_handleCommand_def split: prod.split)
  with assms(2) show ?thesis by (simp add: lmtp_agrees_def)
qed

interpretation lmtp_agree: lmtp_invariant opt lmtp_agrees for opt
proof (unfold_locales, goal_cases)
  case (5 s h acts)
  show ?case
  proof (cases "lm_awaiting s = Some LAw_deliver")
    case True
    then obtain pre env post where "h = pre @ LDeliver env # post" "list_all lmtp_is_text post"
        "le_rcptTo env = lm_rcptTo s"
      using 5(1) unfolding lmtp_agrees_def by blast
    with 5(2) show ?thesis by (intro lmtp_agreesI [of _ pre env "post @ acts"]) simp_all
  qed (simp add: lmtp_agrees_def)
next
  case 6
  then show ?case using lmtp_line_agrees by blast
qed (simp_all add: lmtp_agrees_def lmtp_new_def lmtp_resetTransaction_def)

section \<open>Errors\<close>

lemma lmtp_line_errorCount: "lm_errorCount (fst (lmtp_line opt line s)) = lm_errorCount s"
proof -
  have "lm_errorCount (fst (lmtp_command opt verb rest s)) = lm_errorCount s" for verb rest
    by (rule lmtp_command_cases) (simp_all add: lmtp_command_defs lmtp_resetTransaction_def split: option.split)
  then show ?thesis
    by (simp add: lmtp_line_def lmtp_handleCommand_def lmtp_handleDataLine_def lmtp_resetTransaction_def Let_def
        split: prod.split)
qed

lemma lmtp_step_errorCount:
  assumes "lmtp_step opt s = (s1, acts, b)"
  shows "lm_errorCount s1 = lm_errorCount s"
  using assms
proof (cases rule: lmtp_step_cases)
  case (whole_line i)
  then show ?thesis
    using lmtp_line_errorCount [of opt "take i (lm_buffer s)" "s\<lparr>lm_buffer := drop (i + 2) (lm_buffer s)\<rparr>"] by simp
qed simp_all

lemma lmtp_pump_errorCount: "lmtp_pump opt s = (s', acts) \<Longrightarrow> lm_errorCount s' = lm_errorCount s"
  using lmtp.loop_rel [of opt s s' acts "\<lambda>s a s'. lm_errorCount s' = lm_errorCount s"] lmtp_step_errorCount by auto

text \<open>What a method returns is counted, unless it leaves the connection closed.\<close>

definition lmtp_errors_counted :: "lmtp \<Rightarrow> lmtp \<times> lmtp_action list \<Rightarrow> bool" where
  "lmtp_errors_counted s r \<longleftrightarrow> (\<not> lm_closed (fst r) \<longrightarrow>
     \<not> lm_closed s \<and> lm_errorCount (fst r) = lm_errorCount s + length (filter lmtp_is_error (snd r)) \<and>
     lm_errorCount (fst r) \<le> MAX_SMTP_ERRORS_PER_SESSION)"

lemma guardErrors_counted: "lmtp_errors_counted s (lmtp_guardErrors (s, acts))"
  by (simp add: lmtp_errors_counted_def lmtp_guardErrors_def Let_def)

lemma resume_counted:
  assumes "lmtp_resume opt acts t = r" "lm_closed t = lm_closed s" "lm_errorCount t = lm_errorCount s"
  shows "lmtp_errors_counted s r"
proof -
  obtain s1 a where p: "lmtp_pump opt t = (s1, a)" by force
  have "lm_closed t \<Longrightarrow> s1 = t" using p lmtp.loop_stopped [of t opt] by (simp add: lmtp_stopped_def)
  then show ?thesis
    using guardErrors_counted [of s1 "acts @ a"] lmtp_pump_errorCount [OF p] p assms
    by (auto simp: lmtp_resume_def lmtp_errors_counted_def)
qed

lemma feed_counted: "lmtp_errors_counted s (lmtp_feed opt bs s)"
proof -
  obtain s1 a where p: "lmtp_pump opt (s\<lparr>lm_buffer := lm_buffer s @ bs\<rparr>) = (s1, a)" by force
  show ?thesis
    using guardErrors_counted [of s1 a] lmtp_pump_errorCount [OF p] p
    by (auto simp: lmtp_feed_def lmtp_errors_counted_def lmtp_guardErrors_def)
qed

lemma call_counted:
  assumes "lmtp_call opt i s = Inr (s', out)"
  shows "lmtp_errors_counted s (s', out)"
  using assms
proof (cases rule: lmtp_call_cases)
  case (feed bs)
  then show ?thesis using feed_counted [of s opt bs] by simp
qed (erule resume_counted, simp_all add: lmtp_resetTransaction_def)+

lemma session_errors:
  "lmtp_session opt s acts \<Longrightarrow> \<not> lm_closed s \<Longrightarrow>
     length (filter lmtp_is_error acts) = lm_errorCount s \<and> lm_errorCount s \<le> MAX_SMTP_ERRORS_PER_SESSION"
proof (induction rule: lmtp_session.induct)
  case (call s acts i s' out)
  then show ?case using call_counted [OF call.hyps(2)] by (auto simp: lmtp_errors_counted_def)
qed (simp add: lmtp_new_def)


section \<open>A session that runs\<close>

fun lmtp_run :: "lmtp_options \<Rightarrow> lmtp_input list \<Rightarrow> lmtp \<times> lmtp_action list \<Rightarrow> (lmtp \<times> lmtp_action list) option" where
  "lmtp_run opt [] sa = Some sa"
| "lmtp_run opt (i # is) sa =
     (case lmtp_call opt i (fst sa) of
        Inl _ \<Rightarrow> None
      | Inr r \<Rightarrow> lmtp_run opt is (fst r, snd sa @ snd r))"

lemma lmtp_run_session:
  "lmtp_session opt (fst sa) (snd sa) \<Longrightarrow> lmtp_run opt is sa = Some (s, acts) \<Longrightarrow> lmtp_session opt s acts"
proof (induction opt "is" sa rule: lmtp_run.induct)
  case (2 opt i "is" sa)
  from "2.prems"(2) obtain r where r: "lmtp_call opt i (fst sa) = Inr r"
      "lmtp_run opt is (fst r, snd sa @ snd r) = Some (s, acts)"
    by (auto split: sum.splits)
  then have "lmtp_session opt (fst r) (snd sa @ snd r)"
    by (intro lmtp_session.call [OF "2.prems"(1)]) simp
  with "2.IH" r show ?case by simp
qed simp

definition lmtp_demo_opt :: lmtp_options where
  "lmtp_demo_opt = \<lparr>lo_hostname = ''h'', lo_clientIp = ''127.0.0.1'', lo_maxSizeBytes = 100\<rparr>"

definition lmtp_demo :: "lmtp_input list" where
  "lmtp_demo =
     [LFeed (''LHLO x'' @ CRLF @ ''MAIL FROM:<a@b>'' @ CRLF @ ''RCPT TO:<c@d>'' @ CRLF @ ''RCPT TO:<e@f>'' @ CRLF),
      LRcptResult LRcptOk, LRcptResult LRcptOk,
      LFeed (''DATA'' @ CRLF @ ''hi'' @ CRLF @ ''.'' @ CRLF)]"

definition lmtp_demo_check :: "lmtp \<times> lmtp_action list \<Rightarrow> bool" where
  "lmtp_demo_check r \<longleftrightarrow>
     \<not> lm_closed (fst r) \<and> lm_awaiting (fst r) = Some LAw_deliver \<and> length (filter is_verify (snd r)) = 2 \<and>
     lm_rcptTo (fst r) = [''c@d'', ''e@f''] \<and> last (snd r) =
       LDeliver \<lparr>le_mailFrom = ''a@b'', le_lhloName = ''x'', le_clientIp = ''127.0.0.1'',
                 le_rcptTo = [''c@d'', ''e@f''], le_raw = ''hi'' @ CRLF\<rparr>"

lemma lmtp_demo_ok: "\<exists>s acts. lmtp_session lmtp_demo_opt s acts \<and> lmtp_demo_check (s, acts)"
proof -
  have "case lmtp_run lmtp_demo_opt lmtp_demo (lmtp_new, []) of Some r \<Rightarrow> lmtp_demo_check r | None \<Rightarrow> False"
    by code_simp
  then obtain s acts where "lmtp_run lmtp_demo_opt lmtp_demo (lmtp_new, []) = Some (s, acts)" "lmtp_demo_check (s, acts)"
    by (auto split: option.splits)
  then show ?thesis using lmtp_run_session [of lmtp_demo_opt "(lmtp_new, [])"] lmtp_session.start by fastforce
qed

section \<open>Properties\<close>

text \<open>C8: LMTP delivery safety. Whatever the client sends and whatever the backend answers, every
  message handed over has at least one and at most \<open>MAX_RCPT_PER_SESSION\<close> recipients, none of them
  empty, comes from a client that gave its name in LHLO, and does not exceed the size limit.\<close>

theorem lmtp_delivery_safe:
  assumes "lmtp_session opt s acts" "LDeliver env \<in> set acts"
  shows "le_rcptTo env \<noteq> [] \<and> length (le_rcptTo env) \<le> MAX_RCPT_PER_SESSION \<and>
    [] \<notin> set (le_rcptTo env) \<and> le_lhloName env \<noteq> [] \<and> length (le_raw env) \<le> lo_maxSizeBytes opt"
proof -
  have "list_all (lmtp_delivery_ok opt) acts" using lmtp_wf.session_kept [OF assms(1)] by blast
  with assms(2) have "lmtp_delivery_ok opt (LDeliver env)" unfolding list_all_iff by blast
  then show ?thesis by (auto simp: list_all_iff)
qed

theorem lmtp_delivery_safe_witness:
  "\<exists>s acts env. lmtp_session lmtp_demo_opt s acts \<and> LDeliver env \<in> set acts \<and> length (le_raw env) \<le> 100"
proof -
  obtain s acts where d: "lmtp_session lmtp_demo_opt s acts" "lmtp_demo_check (s, acts)"
    using lmtp_demo_ok by blast
  then have "acts \<noteq> []" by (auto simp: lmtp_demo_check_def)
  then obtain env where e: "LDeliver env \<in> set acts"
    using d(2) last_in_set [of acts] by (auto simp: lmtp_demo_check_def)
  then show ?thesis using d(1) lmtp_delivery_safe [OF d(1) e] by (auto simp: lmtp_demo_opt_def)
qed

text \<open>C9: One reply per recipient. When the backend answers a delivery, in any session, the replies
  start with one line for each recipient of the last delivery the engine asked for, in the order of
  its RCPT commands, whatever the results cover: a recipient without a result gets 451.\<close>

theorem lmtp_reply_per_recipient:
  assumes "lmtp_session opt s acts" "lmtp_deliverResult opt results s = Inr (s', out)"
  shows "\<exists>pre env post rest. acts = pre @ LDeliver env # post \<and> list_all lmtp_is_text post \<and>
    out = map (lmtp_deliverReply results) (le_rcptTo env) @ rest \<and> length (le_rcptTo env) > 0"
proof -
  have aw: "lm_awaiting s = Some LAw_deliver"
    and out: "lmtp_resume opt (map (lmtp_deliverReply results) (lm_rcptTo s))
      (lmtp_resetTransaction (s\<lparr>lm_awaiting := None\<rparr>)) = (s', out)"
    using assms(2) by (auto simp: lmtp_deliverResult_def split: if_splits)
  obtain pre env post where h: "acts = pre @ LDeliver env # post" "list_all lmtp_is_text post"
      "le_rcptTo env = lm_rcptTo s"
    using lmtp_agree.session_kept [OF assms(1)] aw unfolding lmtp_agrees_def by blast
  have "lm_rcptTo s \<noteq> []" using lmtp_wf.session_kept [OF assms(1)] aw by (simp add: lmtp_wf_def)
  moreover obtain rest where "out = map (lmtp_deliverReply results) (lm_rcptTo s) @ rest"
    using out by (auto simp: lmtp_resume_def lmtp_guardErrors_def Let_def split: prod.splits if_splits)
  ultimately show ?thesis
    using h by (intro exI [of _ pre] exI [of _ env] exI [of _ post] exI [of _ rest]) simp
qed

theorem lmtp_reply_per_recipient_witness:
  "\<exists>s acts s' pre env post rest. lmtp_session lmtp_demo_opt s acts \<and>
     lmtp_deliverResult lmtp_demo_opt [] s = Inr (s', map (lmtp_deliverReply []) (le_rcptTo env) @ rest) \<and>
     acts = pre @ LDeliver env # post"
proof -
  obtain s acts where d: "lmtp_session lmtp_demo_opt s acts" "lmtp_demo_check (s, acts)"
    using lmtp_demo_ok by blast
  then obtain s' out where r: "lmtp_deliverResult lmtp_demo_opt [] s = Inr (s', out)"
    by (force simp: lmtp_deliverResult_def lmtp_demo_check_def)
  show ?thesis using lmtp_reply_per_recipient [OF d(1) r] d(1) r by blast
qed

text \<open>LMTP bounds. Whatever RSET does, a session asks the backend to verify at most
  \<open>MAX_RCPT_PER_SESSION\<close> recipients, and as long as it is open it has emitted at most
  \<open>MAX_SMTP_ERRORS_PER_SESSION\<close> replies with a 4xx or 5xx code.\<close>

lemma lmtp_session_bounds:
  assumes "lmtp_session opt s acts"
  shows "length (filter is_verify acts) \<le> MAX_RCPT_PER_SESSION \<and>
    (lm_closed s \<or> length (filter lmtp_is_error acts) \<le> MAX_SMTP_ERRORS_PER_SESSION)"
proof -
  have "lm_rcptCount s \<le> MAX_RCPT_PER_SESSION" using lmtp_wf.session_kept [OF assms] by (simp add: lmtp_wf_def)
  then show ?thesis using lmtp_count.session_kept [OF assms] session_errors [OF assms]
    by (cases "lm_closed s") simp_all
qed

section \<open>Message content\<close>

text \<open>The engine is inside DATA and waits for nothing.\<close>

definition lmtp_reading :: "lmtp \<Rightarrow> bool" where
  "lmtp_reading s \<longleftrightarrow> lm_inData s \<and> lm_awaiting s = None \<and> \<not> lm_closed s \<and> \<not> lm_dataOverflow s"

lemma lmtp_raw_content: "lmtp_raw ls = content ls"
proof (induction ls)
  case (Cons l ls)
  then show ?case by (cases ls) (auto simp: lmtp_raw_def)
qed (simp add: lmtp_raw_def)

lemma lmtp_size_content: "lmtp_size ls = length (content ls)"
  by (simp add: length_lmtp_raw flip: lmtp_raw_content)

lemma content_snoc: "content (ls @ [l]) = content ls @ l @ CRLF"
  by (simp add: content_def)

lemma lmtp_data_pass:
  assumes "lmtp_reading s" "lm_buffer s = stuff l @ CRLF @ r" "sub_index CRLF l = None"
    and "length (content (lm_dataLines s @ [l])) \<le> lo_maxSizeBytes opt"
  shows "lmtp_step opt s = (s\<lparr>lm_buffer := r, lm_dataLines := lm_dataLines s @ [l]\<rparr>, [], True)"
proof -
  have "sub_index CRLF (lm_buffer s) = Some (length (stuff l))"
    using sub_index_CRLF_line [OF stuff_no_CRLF [OF assms(3)], of r] assms(2) by simp
  moreover have "(if startsWith ''..'' (stuff l) then tl (stuff l) else stuff l) = l"
    by (cases l) (auto simp: stuff_def startsWith_iff)
  ultimately show ?thesis
    using assms stuff_not_dot [of l]
    by (simp add: lmtp_step_def lmtp_line_def lmtp_handleDataLine_def lmtp_reading_def lmtp_size_content Let_def)
qed

lemma lmtp_data_lines:
  assumes "lmtp_reading s" "lm_buffer s = wire ls @ r" "\<forall>l \<in> set ls. sub_index CRLF l = None"
    and "length (content (lm_dataLines s @ ls)) \<le> lo_maxSizeBytes opt"
  shows "lmtp_pump opt s = lmtp_pump opt (s\<lparr>lm_buffer := r, lm_dataLines := lm_dataLines s @ ls\<rparr>)"
  using assms
proof (induction ls arbitrary: s)
  case Nil
  then have "s\<lparr>lm_buffer := r, lm_dataLines := lm_dataLines s @ []\<rparr> = s" by simp
  then show ?case by simp
next
  case (Cons l ls)
  let ?s1 = "s\<lparr>lm_buffer := wire ls @ r, lm_dataLines := lm_dataLines s @ [l]\<rparr>"
  have "lmtp_step opt s = (?s1, [], True)"
    using Cons.prems by (intro lmtp_data_pass) (simp_all add: content_append)
  then have "lmtp_pump opt s = lmtp_pump opt ?s1"
    using lmtp.loop_pass [of s opt ?s1 "[]"] Cons.prems(1) by (simp add: lmtp_reading_def lmtp_stopped_def)
  also have "\<dots> = lmtp_pump opt (?s1\<lparr>lm_buffer := r, lm_dataLines := lm_dataLines ?s1 @ ls\<rparr>)"
    using Cons.prems by (intro Cons.IH) (simp_all add: lmtp_reading_def)
  finally show ?case by simp
qed

lemma lmtp_feed_message:
  assumes "lmtp_reading s" "lm_buffer s = []" "lm_dataLines s = []"
    and "\<forall>l \<in> set ls. sub_index CRLF l = None" "length (content ls) \<le> lo_maxSizeBytes opt"
    and "length r \<le> MAX_PIPELINE_PENDING_BYTES" "lm_errorCount s \<le> MAX_SMTP_ERRORS_PER_SESSION"
  shows "lmtp_feed opt (wire ls @ END_MARK @ r) s =
    (s\<lparr>lm_buffer := r, lm_dataLines := ls, lm_inData := False, lm_awaiting := Some LAw_deliver\<rparr>,
     [LDeliver \<lparr>le_mailFrom = (case lm_mailFrom s of Some a \<Rightarrow> a | None \<Rightarrow> []), le_lhloName = lm_lhloName s,
                le_clientIp = lo_clientIp opt, le_rcptTo = lm_rcptTo s, le_raw = content ls\<rparr>])"
proof -
  let ?t = "s\<lparr>lm_buffer := wire ls @ END_MARK @ r\<rparr>"
  let ?u = "s\<lparr>lm_buffer := END_MARK @ r, lm_dataLines := ls\<rparr>"
  let ?v = "s\<lparr>lm_buffer := r, lm_dataLines := ls, lm_inData := False, lm_awaiting := Some LAw_deliver\<rparr>"
  have "lmtp_pump opt ?t = lmtp_pump opt (?t\<lparr>lm_buffer := END_MARK @ r, lm_dataLines := lm_dataLines ?t @ ls\<rparr>)"
    using assms by (intro lmtp_data_lines) (simp_all add: lmtp_reading_def)
  then have "lmtp_pump opt ?t = lmtp_pump opt ?u" using assms(3) by simp
  moreover obtain a where a: "lmtp_step opt ?u = (?v, [LDeliver a], True)"
      "a = \<lparr>le_mailFrom = (case lm_mailFrom s of Some a \<Rightarrow> a | None \<Rightarrow> []), le_lhloName = lm_lhloName s,
            le_clientIp = lo_clientIp opt, le_rcptTo = lm_rcptTo s, le_raw = content ls\<rparr>"
    using assms(1) by (simp add: lmtp_step_def lmtp_line_def lmtp_handleDataLine_def lmtp_reading_def lmtp_raw_content Let_def)
  ultimately have "lmtp_pump opt ?t = (?v, [LDeliver a])"
    using lmtp.loop_pass [of ?u opt ?v "[LDeliver a]"] lmtp.loop_stopped [of ?v opt] assms(1)
    by (simp add: lmtp_reading_def lmtp_stopped_def)
  then show ?thesis
    using assms a(2) by (simp add: lmtp_feed_def lmtp_reading_def lmtp_guardErrors_def)
qed

text \<open>LMTP DATA round trip. A message whose lines hold no CRLF and which fits the size limit, sent
  dot-stuffed with the end mark, is handed over as exactly its lines, with the sender and the
  recipients of the transaction; what follows the end mark stays buffered until the delivery is
  answered.\<close>

lemma lmtp_data_roundtrip:
  assumes "lmtp_reading s" "lm_buffer s = []" "lm_dataLines s = []"
    and "\<forall>l \<in> set ls. sub_index CRLF l = None" "length (content ls) \<le> lo_maxSizeBytes opt"
    and "length r \<le> MAX_PIPELINE_PENDING_BYTES" "lm_errorCount s \<le> MAX_SMTP_ERRORS_PER_SESSION"
  shows "lmtp_feed opt (wire ls @ END_MARK @ r) s =
    (s\<lparr>lm_buffer := r, lm_dataLines := ls, lm_inData := False, lm_awaiting := Some LAw_deliver\<rparr>,
     [LDeliver \<lparr>le_mailFrom = (case lm_mailFrom s of Some a \<Rightarrow> a | None \<Rightarrow> []), le_lhloName = lm_lhloName s,
                le_clientIp = lo_clientIp opt, le_rcptTo = lm_rcptTo s, le_raw = content ls\<rparr>])"
  using assms by (rule lmtp_feed_message)

definition lmtp_data_state :: lmtp where
  "lmtp_data_state = lmtp_new\<lparr>lm_inData := True, lm_mailFrom := Some ''a'', lm_rcptTo := [''b'']\<rparr>"

text \<open>Lost content. Inside DATA, bytes that arrive without a CRLF and number more than
  \<open>MAX_COMMAND_LINE\<close> are thrown away: the engine answers 500, stays inside DATA with the lines it
  had, and goes on. When the rest of the line and the end mark follow, the message is delivered
  with only that rest in place of the line.\<close>

lemma lmtp_long_line_lost:
  assumes "lmtp_reading s" "lm_buffer s = []" "lm_dataLines s = []"
    and "CR \<notin> set chunk" "length chunk > MAX_COMMAND_LINE" "lm_errorCount s < MAX_SMTP_ERRORS_PER_SESSION"
    and "sub_index CRLF l = None" "l \<noteq> []" "hd l \<noteq> DOT" "length l + 2 \<le> lo_maxSizeBytes opt"
  shows "\<exists>s1 s2 env.
    lmtp_feed opt chunk s = (s1, [LReply ''500 5.5.2 line too long'']) \<and>
    lmtp_feed opt (l @ CRLF @ END_MARK) s1 = (s2, [LDeliver env]) \<and> le_raw env = l @ CRLF"
proof -
  let ?s1 = "s\<lparr>lm_errorCount := lm_errorCount s + 1\<rparr>"
  have none: "sub_index CRLF chunk = None" using assms(4) by (induction chunk) auto
  have "lmtp_pump opt (s\<lparr>lm_buffer := chunk\<rparr>) = (s\<lparr>lm_buffer := []\<rparr>, [LReply ''500 5.5.2 line too long''])"
    using assms none by (intro lmtp.loop_last) (simp_all add: lmtp_step_def lmtp_reading_def lmtp_stopped_def)
  moreover have "s\<lparr>lm_buffer := []\<rparr> = s" using assms(2) by simp
  ultimately have one: "lmtp_feed opt chunk s = (?s1, [LReply ''500 5.5.2 line too long''])"
    using assms by (simp add: lmtp_feed_def lmtp_guardErrors_def lmtp_reading_def)
  have "wire [l] = l @ CRLF" using assms(8,9) by (simp add: stuff_def)
  then have "\<exists>s2 env. lmtp_feed opt (l @ CRLF @ END_MARK) ?s1 = (s2, [LDeliver env]) \<and> le_raw env = l @ CRLF"
    using lmtp_feed_message [of ?s1 "[l]" opt "[]"] assms by (simp add: lmtp_reading_def)
  with one show ?thesis by blast
qed

end
