(* ===== verification/Pop3Engine.thy ===== *)
theory Pop3Engine
  imports LineEngine Limits Scram DotStuffing
begin

text \<open>
  The POP3 server of \<open>proto-pop3/src/engine.ts\<close>. The class \<open>Pop3Engine\<close> is the record \<open>pop3\<close>, with
  the backend's opaque \<open>ref\<close> as a type parameter; each public method is a function on it. A method
  that raises returns \<open>Inl\<close>. \<open>rnd\<close> is what \<open>randomBytes\<close> returns during a call; a call starts at
  most one SCRAM exchange, since the request for keys stops the loop.
\<close>

section \<open>State and actions\<close>

datatype pop3_state = P3_AUTHORIZATION | P3_TRANSACTION

record 'r pop3_message =
  pm_uidl :: string
  pm_sizeBytes :: nat
  pm_ref :: 'r

datatype 'r pop3_action =
    P3_reply string
  | P3_replyBinary bytes
  | P3_close
  | P3_startTls
  | P3_auth string string
  | P3_scramKeys string
  | P3_authVerified string
  | P3_authFailed "string option" string
  | P3_openMaildrop
  | P3_retrieve nat
  | P3_commitDeletions "'r pop3_message list"

record pop3_options =
  po_hostname :: string
  po_secure :: bool
  po_tlsAvailable :: bool
  po_scramOffered :: bool
  po_scramDecoySecret :: bytes
  po_allowInsecureAuth :: bool

record 'r session_message =
  sm_message :: "'r pop3_message"
  sm_msgnum :: nat
  sm_deleted :: bool

datatype pop3_pending = PP_auth | PP_scramKeys | PP_openMaildrop | PP_retr nat | PP_top nat nat | PP_commit

datatype pop3_stage = PS_clientFirst | PS_clientFinal | PS_serverFinal

datatype pop3_sasl =
    P3_Plain
  | P3_OAuth string
  | P3_Scram scram_session pop3_stage "string option"

record 'r pop3 =
  p3_state :: pop3_state
  p3_secure :: bool
  p3_awaitingTls :: bool
  p3_buffer :: string
  p3_pending :: "pop3_pending option"
  p3_closed :: bool
  p3_username :: "string option"
  p3_messages :: "'r session_message list"
  p3_awaitingSasl :: "pop3_sasl option"

definition pop3_new :: "pop3_options \<Rightarrow> 'r pop3" where
  "pop3_new opt =
     \<lparr>p3_state = P3_AUTHORIZATION, p3_secure = po_secure opt, p3_awaitingTls = False, p3_buffer = [],
      p3_pending = None, p3_closed = False, p3_username = None, p3_messages = [], p3_awaitingSasl = None\<rparr>"

section \<open>Multi-line replies\<close>

fun splitLines_loop :: "bytes \<Rightarrow> bytes \<Rightarrow> bytes list" where
  "splitLines_loop cur [] = (if cur = [] then [] else [cur])"
| "splitLines_loop cur (b # bs) =
     (if b = LF then (if cur \<noteq> [] \<and> last cur = CR then butlast cur else cur) # splitLines_loop [] bs
      else splitLines_loop (cur @ [b]) bs)"

definition splitLines :: "bytes \<Rightarrow> bytes list" where
  "splitLines bs = splitLines_loop [] bs"

definition stuffLine :: "bytes \<Rightarrow> bytes" where
  "stuffLine line = (if length line > 0 \<and> line ! 0 = DOT then DOT # line else line)"

definition TERMINATOR :: bytes where
  "TERMINATOR = [DOT, CR, LF]"

definition buildMultilineBinary :: "string \<Rightarrow> bytes list \<Rightarrow> bytes" where
  "buildMultilineBinary statusLine bodyLines =
     utf8Encode (statusLine @ CRLF) @ concat (map (\<lambda>l. stuffLine l @ CRLF) bodyLines) @ TERMINATOR"

definition buildTextMultiline :: "string \<Rightarrow> string list \<Rightarrow> string" where
  "buildTextMultiline statusLine lines =
     join CRLF ([statusLine] @ map (\<lambda>l. if startsWith ''.'' l then ''.'' @ l else l) lines @ [''.''])"

definition buildTopBytes :: "bytes \<Rightarrow> nat \<Rightarrow> bytes" where
  "buildTopBytes fullBytes bodyLineCount =
     (let allLines = splitLines fullBytes;
          blankIdx = (case find_index (\<lambda>l. length l = 0) allLines of Some i \<Rightarrow> i | None \<Rightarrow> length allLines);
          headerLines = take blankIdx allLines;
          outLines = (if blankIdx < length allLines
                      then headerLines @ [[]] @ Prelude.slice (blankIdx + 1) (blankIdx + 1 + bodyLineCount) allLines
                      else headerLines)
      in buildMultilineBinary ''+OK top of message follows'' outLines)"

section \<open>Authorization commands\<close>

definition pop3_authAllowed :: "pop3_options \<Rightarrow> 'r pop3 \<Rightarrow> bool" where
  "pop3_authAllowed opt s \<longleftrightarrow> p3_secure s \<or> po_allowInsecureAuth opt"

definition insecureAuthRejected :: "'r pop3_action list" where
  "insecureAuthRejected = [P3_reply ''-ERR [AUTH] TLS required for authentication (use implicit TLS, port 995)'']"

definition pop3_greeting :: "pop3_options \<Rightarrow> 'r pop3_action list" where
  "pop3_greeting opt = [P3_reply (''+OK '' @ po_hostname opt @ '' POP3 server ready'')]"

definition starttlsOffered :: "pop3_options \<Rightarrow> 'r pop3 \<Rightarrow> bool" where
  "starttlsOffered opt s \<longleftrightarrow> po_tlsAvailable opt \<and> \<not> p3_secure s"

definition BAD_SEQUENCE :: string where
  "BAD_SEQUENCE = ''-ERR bad sequence of commands''"

definition cmdStls :: "pop3_options \<Rightarrow> 'r pop3 \<Rightarrow> 'r pop3 \<times> 'r pop3_action list" where
  "cmdStls opt s =
     (if p3_secure s then (s, [P3_reply ''-ERR TLS already active''])
      else if \<not> starttlsOffered opt s then (s, [P3_reply ''-ERR STLS not available''])
      else if p3_state s \<noteq> P3_AUTHORIZATION then (s, [P3_reply BAD_SEQUENCE])
      else (s\<lparr>p3_awaitingTls := True\<rparr>, [P3_reply ''+OK Begin TLS negotiation'', P3_startTls]))"

definition cmdCapa :: "pop3_options \<Rightarrow> 'r pop3 \<Rightarrow> 'r pop3 \<times> 'r pop3_action list" where
  "cmdCapa opt s =
     (let caps =
        (if starttlsOffered opt s then [''STLS''] else []) @
        (if pop3_authAllowed opt s then [''USER''] else []) @
        [''TOP'', ''UIDL'', ''RESP-CODES'', ''AUTH-RESP-CODE'', ''PIPELINING''] @
        (if pop3_authAllowed opt s
         then [if po_scramOffered opt then ''SASL SCRAM-SHA-256 PLAIN XOAUTH2 OAUTHBEARER''
               else ''SASL PLAIN XOAUTH2 OAUTHBEARER'']
         else []) @
        [''IMPLEMENTATION ionosphere'']
      in (s, [P3_reply (buildTextMultiline ''+OK Capability list follows'' caps)]))"

definition pop3_scramFailedAction :: "scram_step \<Rightarrow> 'r pop3_action" where
  "pop3_scramFailedAction step =
     P3_authFailed (case step of Failed (Some u) \<Rightarrow> (if u = [] then None else Some u) | _ \<Rightarrow> None) ''SCRAM-SHA-256''"

definition handleScramData ::
  "crypto \<Rightarrow> bytes \<Rightarrow> string \<Rightarrow> scram_session \<Rightarrow> pop3_stage \<Rightarrow> string option \<Rightarrow> 'r pop3 \<Rightarrow> 'r pop3 \<times> 'r pop3_action list" where
  "handleScramData c rnd data session stage username s =
     (if stage = PS_serverFinal then
        (let user = (case username of Some u \<Rightarrow> u | None \<Rightarrow> []) in
         (s\<lparr>p3_awaitingSasl := None, p3_username := Some user, p3_pending := Some PP_auth\<rparr>, [P3_authVerified user]))
      else case decodeSaslBase64 data of
        None \<Rightarrow> (s\<lparr>p3_awaitingSasl := None\<rparr>, [P3_reply ''-ERR [AUTH] invalid base64''])
      | Some bs \<Rightarrow>
          if stage = PS_clientFirst then
            (case scram_start rnd (utf8Decode bs) session of
               (session1, NeedLookup user) \<Rightarrow>
                 (s\<lparr>p3_awaitingSasl := Some (P3_Scram session1 PS_clientFinal username), p3_pending := Some PP_scramKeys\<rparr>,
                  [P3_scramKeys user])
             | (session1, step) \<Rightarrow>
                 (s\<lparr>p3_awaitingSasl := None\<rparr>,
                  [pop3_scramFailedAction step, P3_reply ''-ERR [AUTH] authentication failed'']))
          else
            (case scram_final c (utf8Decode bs) session of
               (session1, Done user message) \<Rightarrow>
                 (s\<lparr>p3_awaitingSasl := Some (P3_Scram session1 PS_serverFinal (Some user))\<rparr>,
                  [P3_reply (''+ '' @ b64_encode (utf8Encode message))])
             | (session1, step) \<Rightarrow>
                 (s\<lparr>p3_awaitingSasl := None\<rparr>,
                  [pop3_scramFailedAction step, P3_reply ''-ERR [AUTH] authentication failed''])))"

definition finishSasl :: "(string \<times> string) option \<Rightarrow> string \<Rightarrow> 'r pop3 \<Rightarrow> 'r pop3 \<times> 'r pop3_action list" where
  "finishSasl creds mechanism s =
     (case creds of
        None \<Rightarrow> (s, [P3_reply (''-ERR [AUTH] malformed '' @ mechanism @ '' response'')])
      | Some (user, pass) \<Rightarrow> (s\<lparr>p3_username := Some user, p3_pending := Some PP_auth\<rparr>, [P3_auth user pass]))"

definition handleSaslData ::
  "crypto \<Rightarrow> bytes \<Rightarrow> string \<Rightarrow> pop3_sasl \<Rightarrow> 'r pop3 \<Rightarrow> 'r pop3 \<times> 'r pop3_action list" where
  "handleSaslData c rnd data sasl s =
     (if data = ''*''
      then (s\<lparr>p3_awaitingSasl := None\<rparr>, [P3_reply ''-ERR [AUTH] authentication cancelled''])
      else case sasl of
        P3_Scram session stage username \<Rightarrow> handleScramData c rnd data session stage username s
      | P3_Plain \<Rightarrow>
          (let s1 = s\<lparr>p3_awaitingSasl := None\<rparr> in
           case decodeSaslBase64 data of
             None \<Rightarrow> (s1, [P3_reply ''-ERR [AUTH] invalid base64''])
           | Some bs \<Rightarrow> finishSasl (parseSaslPlain bs) ''PLAIN'' s1)
      | P3_OAuth mechanism \<Rightarrow>
          (let s1 = s\<lparr>p3_awaitingSasl := None\<rparr> in
           case decodeSaslBase64 data of
             None \<Rightarrow> (s1, [P3_reply ''-ERR [AUTH] invalid base64''])
           | Some bs \<Rightarrow> finishSasl (parseSaslOAuth mechanism (utf8Decode bs)) mechanism s1))"

text \<open>Both ways a mechanism starts: with an initial response or with a continuation request.\<close>

definition beginSasl ::
  "crypto \<Rightarrow> bytes \<Rightarrow> string \<Rightarrow> pop3_sasl \<Rightarrow> 'r pop3 \<Rightarrow> 'r pop3 \<times> 'r pop3_action list" where
  "beginSasl c rnd ir sasl s =
     (let s1 = s\<lparr>p3_awaitingSasl := Some sasl\<rparr> in
      if length ir > 0 then handleSaslData c rnd ir sasl s1 else (s1, [P3_reply ''+ '']))"

definition saslSplit :: "string \<Rightarrow> string \<times> string" where
  "saslSplit rest =
     (case indexOf SP rest of
        None \<Rightarrow> (toUpperCase rest, [])
      | Some sp \<Rightarrow> (toUpperCase (take sp rest), trim (drop (sp + 1) rest)))"

definition cmdAuth ::
  "crypto \<Rightarrow> pop3_options \<Rightarrow> bytes \<Rightarrow> string \<Rightarrow> 'r pop3 \<Rightarrow> 'r pop3 \<times> 'r pop3_action list" where
  "cmdAuth c opt rnd rest s =
     (if p3_state s \<noteq> P3_AUTHORIZATION then (s, [P3_reply BAD_SEQUENCE])
      else if \<not> pop3_authAllowed opt s then (s, insecureAuthRejected)
      else if length rest = 0 then
        (s, [P3_reply (buildTextMultiline ''+OK''
               ((if po_scramOffered opt then [''SCRAM-SHA-256''] else []) @ [''PLAIN'', ''XOAUTH2'', ''OAUTHBEARER'']))])
      else let (mech, ir) = saslSplit rest in
        if mech = ''SCRAM-SHA-256'' then
          (if \<not> po_scramOffered opt then (s, [P3_reply ''-ERR [AUTH] unsupported SASL mechanism''])
           else beginSasl c rnd ir (P3_Scram (newScramSession (po_scramDecoySecret opt)) PS_clientFirst None) s)
        else if mech = ''PLAIN'' then beginSasl c rnd ir P3_Plain s
        else if mech = ''XOAUTH2'' \<or> mech = ''OAUTHBEARER'' then beginSasl c rnd ir (P3_OAuth mech) s
        else (s, [P3_reply ''-ERR [AUTH] unsupported SASL mechanism'']))"

definition cmdUser :: "pop3_options \<Rightarrow> string \<Rightarrow> 'r pop3 \<Rightarrow> 'r pop3 \<times> 'r pop3_action list" where
  "cmdUser opt name s =
     (if p3_state s \<noteq> P3_AUTHORIZATION then (s, [P3_reply BAD_SEQUENCE])
      else if \<not> pop3_authAllowed opt s then (s, insecureAuthRejected)
      else if name = [] then (s, [P3_reply ''-ERR missing username''])
      else (s\<lparr>p3_username := Some name\<rparr>, [P3_reply ''+OK'']))"

definition cmdPass :: "pop3_options \<Rightarrow> string \<Rightarrow> 'r pop3 \<Rightarrow> 'r pop3 \<times> 'r pop3_action list" where
  "cmdPass opt pass s =
     (if p3_state s \<noteq> P3_AUTHORIZATION then (s, [P3_reply BAD_SEQUENCE])
      else if \<not> pop3_authAllowed opt s then (s, insecureAuthRejected)
      else let user = (case p3_username s of Some u \<Rightarrow> u | None \<Rightarrow> []) in
        if user = [] then (s, [P3_reply BAD_SEQUENCE])
        else if pass = [] then (s, [P3_reply ''-ERR missing password''])
        else (s\<lparr>p3_pending := Some PP_auth\<rparr>, [P3_auth user pass]))"

section \<open>Transaction commands\<close>

definition activeMessages :: "'r pop3 \<Rightarrow> 'r session_message list" where
  "activeMessages s = filter (\<lambda>m. \<not> sm_deleted m) (p3_messages s)"

definition totalSize :: "'r session_message list \<Rightarrow> nat" where
  "totalSize ms = foldl (\<lambda>n m. n + pm_sizeBytes (sm_message m)) 0 ms"

definition parseNonNegativeInt :: "string \<Rightarrow> nat option" where
  "parseNonNegativeInt s = (if \<not> all_digits s then None else Some (digits_value s))"

definition getActiveMessage :: "string \<Rightarrow> 'r pop3 \<Rightarrow> string + 'r session_message" where
  "getActiveMessage arg s =
     (case parseNonNegativeInt arg of
        None \<Rightarrow> Inl ''-ERR invalid message number''
      | Some n \<Rightarrow>
          (case List.find (\<lambda>m. sm_msgnum m = n) (p3_messages s) of
             None \<Rightarrow> Inl ''-ERR no such message''
           | Some msg \<Rightarrow> if sm_deleted msg then Inl ''-ERR message deleted'' else Inr msg))"

definition cmdStat :: "'r pop3 \<Rightarrow> 'r pop3 \<times> 'r pop3_action list" where
  "cmdStat s =
     (let active = activeMessages s in
      (s, [P3_reply (''+OK '' @ show_nat (length active) @ '' '' @ show_nat (totalSize active))]))"

definition cmdList :: "string \<Rightarrow> 'r pop3 \<Rightarrow> 'r pop3 \<times> 'r pop3_action list" where
  "cmdList arg s =
     (if arg \<noteq> [] then
        (case getActiveMessage arg s of
           Inl t \<Rightarrow> (s, [P3_reply t])
         | Inr m \<Rightarrow> (s, [P3_reply (''+OK '' @ show_nat (sm_msgnum m) @ '' '' @ show_nat (pm_sizeBytes (sm_message m)))]))
      else let active = activeMessages s in
        (s, [P3_reply (buildTextMultiline
               (''+OK '' @ show_nat (length active) @ '' messages ('' @ show_nat (totalSize active) @ '' octets)'')
               (map (\<lambda>m. show_nat (sm_msgnum m) @ '' '' @ show_nat (pm_sizeBytes (sm_message m))) active))]))"

definition cmdUidl :: "string \<Rightarrow> 'r pop3 \<Rightarrow> 'r pop3 \<times> 'r pop3_action list" where
  "cmdUidl arg s =
     (if arg \<noteq> [] then
        (case getActiveMessage arg s of
           Inl t \<Rightarrow> (s, [P3_reply t])
         | Inr m \<Rightarrow> (s, [P3_reply (''+OK '' @ show_nat (sm_msgnum m) @ '' '' @ pm_uidl (sm_message m))]))
      else
        (s, [P3_reply (buildTextMultiline ''+OK''
               (map (\<lambda>m. show_nat (sm_msgnum m) @ '' '' @ pm_uidl (sm_message m)) (activeMessages s)))]))"

definition cmdRetr :: "string \<Rightarrow> 'r pop3 \<Rightarrow> 'r pop3 \<times> 'r pop3_action list" where
  "cmdRetr arg s =
     (case getActiveMessage arg s of
        Inl t \<Rightarrow> (s, [P3_reply t])
      | Inr m \<Rightarrow> (s\<lparr>p3_pending := Some (PP_retr (sm_msgnum m))\<rparr>, [P3_retrieve (sm_msgnum m)]))"

text \<open>
  \<open>r.msg.deleted = true\<close> writes through the reference that \<open>find\<close> returned: the first message with
  that number.
\<close>

fun markDeleted :: "nat \<Rightarrow> 'r session_message list \<Rightarrow> 'r session_message list" where
  "markDeleted n [] = []"
| "markDeleted n (m # ms) = (if sm_msgnum m = n then m\<lparr>sm_deleted := True\<rparr> # ms else m # markDeleted n ms)"

definition cmdDele :: "string \<Rightarrow> 'r pop3 \<Rightarrow> 'r pop3 \<times> 'r pop3_action list" where
  "cmdDele arg s =
     (case getActiveMessage arg s of
        Inl t \<Rightarrow> (s, [P3_reply t])
      | Inr m \<Rightarrow> (s\<lparr>p3_messages := markDeleted (sm_msgnum m) (p3_messages s)\<rparr>,
                   [P3_reply (''+OK message '' @ show_nat (sm_msgnum m) @ '' deleted'')]))"

definition maildropReply :: "'r session_message list \<Rightarrow> 'r pop3_action" where
  "maildropReply ms =
     P3_reply (''+OK maildrop has '' @ show_nat (length ms) @ '' messages ('' @ show_nat (totalSize ms) @ '' octets)'')"

definition cmdRset :: "'r pop3 \<Rightarrow> 'r pop3 \<times> 'r pop3_action list" where
  "cmdRset s =
     (let ms = map (\<lambda>m. m\<lparr>sm_deleted := False\<rparr>) (p3_messages s) in (s\<lparr>p3_messages := ms\<rparr>, [maildropReply ms]))"

definition cmdTop :: "string \<Rightarrow> 'r pop3 \<Rightarrow> 'r pop3 \<times> 'r pop3_action list" where
  "cmdTop rest s =
     (case filter (\<lambda>p. length p > 0) (split_ws rest) of
        [msgArg, linesArg] \<Rightarrow>
          (case getActiveMessage msgArg s of
             Inl t \<Rightarrow> (s, [P3_reply t])
           | Inr m \<Rightarrow>
               (case parseNonNegativeInt linesArg of
                  None \<Rightarrow> (s, [P3_reply ''-ERR invalid arguments''])
                | Some n \<Rightarrow> (s\<lparr>p3_pending := Some (PP_top (sm_msgnum m) n)\<rparr>, [P3_retrieve (sm_msgnum m)])))
      | _ \<Rightarrow> (s, [P3_reply ''-ERR invalid arguments'']))"

definition cmdQuit :: "pop3_options \<Rightarrow> 'r pop3 \<Rightarrow> 'r pop3 \<times> 'r pop3_action list" where
  "cmdQuit opt s =
     (if p3_state s = P3_AUTHORIZATION then
        (s\<lparr>p3_closed := True\<rparr>, [P3_reply (''+OK '' @ po_hostname opt @ '' POP3 server signing off''), P3_close])
      else (s\<lparr>p3_pending := Some PP_commit\<rparr>,
            [P3_commitDeletions (map sm_message (filter sm_deleted (p3_messages s)))]))"

definition requireTransaction ::
  "('r pop3 \<Rightarrow> 'r pop3 \<times> 'r pop3_action list) \<Rightarrow> 'r pop3 \<Rightarrow> 'r pop3 \<times> 'r pop3_action list" where
  "requireTransaction f s = (if p3_state s \<noteq> P3_TRANSACTION then (s, [P3_reply BAD_SEQUENCE]) else f s)"

section \<open>Lines\<close>

definition pop3_verb :: "string \<Rightarrow> string \<times> string" where
  "pop3_verb trimmed =
     (case indexOf SP trimmed of
        None \<Rightarrow> (toUpperCase trimmed, [])
      | Some sp \<Rightarrow> (toUpperCase (take sp trimmed), trim (drop (sp + 1) trimmed)))"

definition pop3_dispatch ::
  "crypto \<Rightarrow> pop3_options \<Rightarrow> bytes \<Rightarrow> string \<Rightarrow> string \<Rightarrow> 'r pop3 \<Rightarrow> 'r pop3 \<times> 'r pop3_action list" where
  "pop3_dispatch c opt rnd verb rest s =
     (if verb = ''CAPA'' then cmdCapa opt s
      else if verb = ''QUIT'' then cmdQuit opt s
      else if verb = ''USER'' then cmdUser opt rest s
      else if verb = ''PASS'' then cmdPass opt rest s
      else if verb = ''STLS'' then cmdStls opt s
      else if verb = ''AUTH'' then cmdAuth c opt rnd rest s
      else if verb = ''APOP'' then (s, [P3_reply ''-ERR APOP not supported''])
      else if verb = ''NOOP'' then requireTransaction (\<lambda>s. (s, [P3_reply ''+OK''])) s
      else if verb = ''STAT'' then requireTransaction cmdStat s
      else if verb = ''LIST'' then requireTransaction (cmdList rest) s
      else if verb = ''RETR'' then requireTransaction (cmdRetr rest) s
      else if verb = ''DELE'' then requireTransaction (cmdDele rest) s
      else if verb = ''RSET'' then requireTransaction cmdRset s
      else if verb = ''TOP'' then requireTransaction (cmdTop rest) s
      else if verb = ''UIDL'' then requireTransaction (cmdUidl rest) s
      else (s, [P3_reply ''-ERR unknown command'']))"

definition pop3_handleLine ::
  "crypto \<Rightarrow> pop3_options \<Rightarrow> bytes \<Rightarrow> string \<Rightarrow> 'r pop3 \<Rightarrow> 'r pop3 \<times> 'r pop3_action list" where
  "pop3_handleLine c opt rnd line s =
     (let trimmed = trim line in
      if length trimmed = 0 then (s, [P3_reply ''-ERR unknown command''])
      else let (verb, rest) = pop3_verb trimmed in pop3_dispatch c opt rnd verb rest s)"

definition pop3_line ::
  "crypto \<Rightarrow> pop3_options \<Rightarrow> bytes \<Rightarrow> string \<Rightarrow> 'r pop3 \<Rightarrow> 'r pop3 \<times> 'r pop3_action list" where
  "pop3_line c opt rnd line s =
     (case p3_awaitingSasl s of
        Some sasl \<Rightarrow> handleSaslData c rnd line sasl s
      | None \<Rightarrow> pop3_handleLine c opt rnd line s)"

definition chompCR :: "string \<Rightarrow> string" where
  "chompCR line = (if endsWith [CR] line then butlast line else line)"

definition pop3_step ::
  "crypto \<Rightarrow> pop3_options \<Rightarrow> bytes \<Rightarrow> 'r pop3 \<Rightarrow> 'r pop3 \<times> 'r pop3_action list \<times> bool" where
  "pop3_step c opt rnd s =
     (case indexOf LF (p3_buffer s) of
        None \<Rightarrow> (s, [], False)
      | Some idx \<Rightarrow>
          (let (s2, acts) = pop3_line c opt rnd (chompCR (take idx (p3_buffer s)))
                              (s\<lparr>p3_buffer := drop (idx + 1) (p3_buffer s)\<rparr>)
           in (s2, acts, True)))"

definition pop3_stopped :: "'r pop3 \<Rightarrow> bool" where
  "pop3_stopped s \<longleftrightarrow> p3_pending s \<noteq> None \<or> p3_closed s"


section \<open>What a line can do\<close>

text \<open>
  The transitions of the protocol, without their texts: what a handled line emits and how the state
  changes. \<open>pop3_line_effect\<close> shows that every handler makes one of them.
\<close>

definition can_auth :: "pop3_options \<Rightarrow> 'r pop3 \<Rightarrow> bool" where
  "can_auth opt s \<longleftrightarrow> p3_state s = P3_AUTHORIZATION \<and> pop3_authAllowed opt s"

fun p3_text :: "'r pop3_action \<Rightarrow> bool" where
  "p3_text (P3_reply _) = True"
| "p3_text (P3_authFailed _ _) = True"
| "p3_text _ = False"

inductive pop3_effect :: "pop3_options \<Rightarrow> 'r pop3 \<Rightarrow> 'r pop3_action list \<Rightarrow> 'r pop3 \<Rightarrow> bool" for opt where
  replies: "pop3_effect opt s [P3_reply t] s"
| stls: "\<not> p3_secure s \<Longrightarrow> po_tlsAvailable opt \<Longrightarrow> p3_state s = P3_AUTHORIZATION \<Longrightarrow>
    pop3_effect opt s [P3_reply t, P3_startTls] (s\<lparr>p3_awaitingTls := True\<rparr>)"
| user: "can_auth opt s \<Longrightarrow> pop3_effect opt s [P3_reply t] (s\<lparr>p3_username := Some n\<rparr>)"
| sasl: "can_auth opt s \<Longrightarrow> list_all p3_text acts \<Longrightarrow> acts \<noteq> [] \<Longrightarrow>
    pop3_effect opt s acts (s\<lparr>p3_awaitingSasl := x\<rparr>)"
| askAuth: "can_auth opt s \<Longrightarrow> a = P3_auth u p \<or> a = P3_authVerified u \<Longrightarrow>
    pop3_effect opt s [a] (s\<lparr>p3_awaitingSasl := None, p3_username := Some u, p3_pending := Some PP_auth\<rparr>)"
| askKeys: "can_auth opt s \<Longrightarrow>
    pop3_effect opt s [P3_scramKeys u] (s\<lparr>p3_awaitingSasl := Some x, p3_pending := Some PP_scramKeys\<rparr>)"
| retrieve: "p3_state s = P3_TRANSACTION \<Longrightarrow> getActiveMessage arg s = Inr m \<Longrightarrow>
    p = PP_retr (sm_msgnum m) \<or> p = PP_top (sm_msgnum m) k \<Longrightarrow>
    pop3_effect opt s [P3_retrieve (sm_msgnum m)] (s\<lparr>p3_pending := Some p\<rparr>)"
| dele: "p3_state s = P3_TRANSACTION \<Longrightarrow> getActiveMessage arg s = Inr m \<Longrightarrow>
    pop3_effect opt s [P3_reply t] (s\<lparr>p3_messages := markDeleted (sm_msgnum m) (p3_messages s)\<rparr>)"
| rset: "p3_state s = P3_TRANSACTION \<Longrightarrow>
    pop3_effect opt s [P3_reply t] (s\<lparr>p3_messages := map (\<lambda>m. m\<lparr>sm_deleted := False\<rparr>) (p3_messages s)\<rparr>)"
| quitAuth: "p3_state s = P3_AUTHORIZATION \<Longrightarrow> pop3_effect opt s [P3_reply t, P3_close] (s\<lparr>p3_closed := True\<rparr>)"
| quit: "p3_state s = P3_TRANSACTION \<Longrightarrow>
    pop3_effect opt s [P3_commitDeletions (map sm_message (filter sm_deleted (p3_messages s)))]
      (s\<lparr>p3_pending := Some PP_commit\<rparr>)"

inductive_cases pop3_effectE: "pop3_effect opt s acts s'"

abbreviation has_effect :: "pop3_options \<Rightarrow> 'r pop3 \<Rightarrow> 'r pop3 \<times> 'r pop3_action list \<Rightarrow> bool" where
  "has_effect opt s r \<equiv> pop3_effect opt s (snd r) (fst r)"

lemma p3_eqI:
  "p3_awaitingSasl s = None \<Longrightarrow> p3_username s = Some u \<Longrightarrow>
   s\<lparr>p3_awaitingSasl := None, p3_username := Some u, p3_pending := p\<rparr> = s\<lparr>p3_pending := p\<rparr>"
  by (cases s) simp

lemma scramData_effect:
  "can_auth opt s \<Longrightarrow> has_effect opt s (handleScramData c rnd d session stage username s)"
  by (auto simp: handleScramData_def pop3_scramFailedAction_def Let_def
      split: option.split prod.split scram_step.split intro: sasl askAuth askKeys)

lemma finishSasl_effect:
  assumes "can_auth opt s"
  shows "has_effect opt s (finishSasl creds m (s\<lparr>p3_awaitingSasl := None\<rparr>))"
proof (cases creds)
  case None
  with sasl [OF assms, of _ None] show ?thesis by (simp add: finishSasl_def)
next
  case (Some up)
  with askAuth [OF assms, of "P3_auth (fst up) (snd up)" "fst up" "snd up"] show ?thesis
    by (simp add: finishSasl_def split_beta)
qed

lemma saslData_effect:
  assumes "can_auth opt s"
  shows "has_effect opt s (handleSaslData c rnd d x s)"
  using assms scramData_effect [OF assms] finishSasl_effect [OF assms] sasl [OF assms, of _ None]
  by (simp add: handleSaslData_def Let_def split: pop3_sasl.split option.split)


lemma handleSaslData_overwrites:
  "handleSaslData c rnd d x (s\<lparr>p3_awaitingSasl := y\<rparr>) = handleSaslData c rnd d x s"
  by (simp add: handleSaslData_def handleScramData_def Let_def split: pop3_sasl.split option.split)

lemma beginSasl_effect: "can_auth opt s \<Longrightarrow> has_effect opt s (beginSasl c rnd ir x s)"
  by (simp add: beginSasl_def Let_def handleSaslData_overwrites saslData_effect sasl)

lemma cmdAuth_effect: "has_effect opt s (cmdAuth c opt rnd rest s)"
  by (simp add: cmdAuth_def insecureAuthRejected_def split_beta Let_def replies beginSasl_effect can_auth_def)

lemma getActive_effects:
  assumes "p3_state s = P3_TRANSACTION"
  shows "has_effect opt s (cmdRetr arg s)" "has_effect opt s (cmdDele arg s)" "has_effect opt s (cmdList arg s)"
    "has_effect opt s (cmdUidl arg s)"
  using retrieve [OF assms, of arg] dele [OF assms, of arg]
  by (auto simp: cmdRetr_def cmdDele_def cmdList_def cmdUidl_def Let_def replies split: sum.split)

lemma cmdTop_effect: "p3_state s = P3_TRANSACTION \<Longrightarrow> has_effect opt s (cmdTop rest s)"
  by (auto simp: cmdTop_def replies intro: retrieve split: list.split sum.split option.split)

lemma cmdPass_effect: "p3_awaitingSasl s = None \<Longrightarrow> has_effect opt s (cmdPass opt pass s)"
proof -
  assume n: "p3_awaitingSasl s = None"
  show ?thesis
  proof (cases "p3_username s")
    case None
    then show ?thesis by (simp add: cmdPass_def insecureAuthRejected_def replies)
  next
    case (Some u)
    then show ?thesis
      using askAuth [of opt s "P3_auth u pass" u pass] p3_eqI [OF n Some, of "Some PP_auth"]
      by (auto simp: cmdPass_def insecureAuthRejected_def replies can_auth_def Let_def)
  qed
qed

lemma simple_effects:
  "has_effect opt s (cmdCapa opt s)" "has_effect opt s (cmdQuit opt s)" "has_effect opt s (cmdUser opt rest s)"
  "has_effect opt s (cmdStls opt s)"
  by (auto simp: cmdCapa_def cmdQuit_def cmdUser_def cmdStls_def insecureAuthRejected_def Let_def starttlsOffered_def
      intro: replies quitAuth quit user stls simp: can_auth_def) (metis pop3_state.exhaust quit)

lemma requireTransaction_effect:
  "(p3_state s = P3_TRANSACTION \<Longrightarrow> has_effect opt s (f s)) \<Longrightarrow> has_effect opt s (requireTransaction f s)"
  by (simp add: requireTransaction_def replies)

lemma rset_stat_effects:
  assumes "p3_state s = P3_TRANSACTION"
  shows "has_effect opt s (cmdRset s)" "has_effect opt s (cmdStat s)"
  using rset [OF assms] by (auto simp: cmdRset_def cmdStat_def maildropReply_def Let_def replies)

lemma dispatch_effect:
  "p3_awaitingSasl s = None \<Longrightarrow> has_effect opt s (pop3_dispatch c opt rnd verb rest s)"
  by (simp add: pop3_dispatch_def simple_effects cmdAuth_effect cmdPass_effect requireTransaction_effect
      getActive_effects cmdTop_effect rset_stat_effects replies)

lemma pop3_line_effect:
  assumes "p3_awaitingSasl s \<noteq> None \<Longrightarrow> can_auth opt s" "pop3_line c opt rnd line s = (s', acts)"
  shows "pop3_effect opt s acts s'"
proof (cases "p3_awaitingSasl s")
  case None
  have "has_effect opt s (pop3_handleLine c opt rnd line s)"
    using dispatch_effect [OF None, of opt c rnd] by (simp add: pop3_handleLine_def Let_def split_beta replies)
  with None assms(2) show ?thesis by (simp add: pop3_line_def)
next
  case (Some x)
  with assms saslData_effect [of opt s c rnd line x] show ?thesis by (simp add: pop3_line_def)
qed


section \<open>The loop\<close>

lemma effect_buffer: "pop3_effect opt s acts s' \<Longrightarrow> p3_buffer s' = p3_buffer s"
  by (erule pop3_effectE) simp_all

lemma handleSaslData_buffer: "p3_buffer (fst (handleSaslData c rnd d x s)) = p3_buffer s"
  by (simp add: handleSaslData_def handleScramData_def finishSasl_def Let_def
      split: pop3_sasl.split option.split prod.split scram_step.split)

lemma pop3_line_buffer: "p3_buffer (fst (pop3_line c opt rnd line s)) = p3_buffer s"
proof (cases "p3_awaitingSasl s")
  case None
  then show ?thesis using effect_buffer [OF pop3_line_effect [of s opt c rnd line]] by (metis prod.collapse)
next
  case (Some x)
  then show ?thesis by (simp add: pop3_line_def handleSaslData_buffer)
qed

lemma pop3_step_cases [consumes 1, case_names partial_line whole_line]:
  assumes "pop3_step c opt rnd s = (s1, acts, again)"
    and "\<not> again \<Longrightarrow> indexOf LF (p3_buffer s) = None \<Longrightarrow> s1 = s \<Longrightarrow> acts = [] \<Longrightarrow> P"
    and "\<And>i. again \<Longrightarrow> indexOf LF (p3_buffer s) = Some i \<Longrightarrow>
      pop3_line c opt rnd (chompCR (take i (p3_buffer s))) (s\<lparr>p3_buffer := drop (i + 1) (p3_buffer s)\<rparr>) = (s1, acts) \<Longrightarrow> P"
  shows P
proof (cases "indexOf LF (p3_buffer s)")
  case None
  with assms(1) show ?thesis by (intro assms(2)) (simp_all add: pop3_step_def)
next
  case (Some i)
  with assms(1) show ?thesis by (intro assms(3) [OF _ Some]) (simp_all add: pop3_step_def split: prod.splits)
qed

lemma pop3_step_decreases:
  assumes "pop3_step c opt rnd s = (s1, acts, True)"
  shows "length (p3_buffer s1) < length (p3_buffer s)"
  using assms
proof (cases rule: pop3_step_cases)
  case (whole_line i)
  have "p3_buffer s1 = drop (i + 1) (p3_buffer s)"
    using pop3_line_buffer [of c opt rnd "chompCR (take i (p3_buffer s))" "s\<lparr>p3_buffer := drop (i + 1) (p3_buffer s)\<rparr>"]
    unfolding whole_line(3) by simp
  then show ?thesis using find_index_SomeD [OF whole_line(2)] by auto
qed simp

function pop3_drainLoop ::
  "crypto \<Rightarrow> pop3_options \<Rightarrow> bytes \<Rightarrow> 'r pop3 \<Rightarrow> 'r pop3 \<times> 'r pop3_action list" where
  "pop3_drainLoop c opt rnd s =
     (if pop3_stopped s then (s, [])
      else let (s1, acts, again) = pop3_step c opt rnd s in
        if again then (let (s2, acts2) = pop3_drainLoop c opt rnd s1 in (s2, acts @ acts2)) else (s1, acts))"
  by pat_completeness auto
termination
  by (relation "measure (\<lambda>(c, opt, rnd, s). length (p3_buffer s))") (auto intro: pop3_step_decreases [OF sym])

declare pop3_drainLoop.simps [simp del]

interpretation pop3: line_loop "pop3_drainLoop c opt rnd" "pop3_step c opt rnd" pop3_stopped "\<lambda>s. length (p3_buffer s)"
  for c opt rnd
  by unfold_locales (rule pop3_drainLoop.simps, rule pop3_step_decreases)

definition guardBuffer :: "'r pop3 \<Rightarrow> 'r pop3 \<times> 'r pop3_action list" where
  "guardBuffer s =
     (let limit = (if p3_pending s = None then MAX_COMMAND_LINE else MAX_PIPELINE_PENDING_BYTES) in
      if length (p3_buffer s) \<le> limit then (s, [])
      else (s\<lparr>p3_buffer := [], p3_closed := True\<rparr>,
            [P3_reply ''-ERR line too long, closing connection'', P3_close]))"

definition drain :: "crypto \<Rightarrow> pop3_options \<Rightarrow> bytes \<Rightarrow> 'r pop3 \<Rightarrow> 'r pop3 \<times> 'r pop3_action list" where
  "drain c opt rnd s =
     (let (s1, acts) = pop3_drainLoop c opt rnd s in
      if \<not> p3_closed s1 then (let (s2, acts2) = guardBuffer s1 in (s2, acts @ acts2)) else (s1, acts))"

section \<open>Public methods\<close>

definition pop3_feed ::
  "crypto \<Rightarrow> pop3_options \<Rightarrow> bytes \<Rightarrow> bytes \<Rightarrow> 'r pop3 \<Rightarrow> 'r pop3 \<times> 'r pop3_action list" where
  "pop3_feed c opt rnd chunk s =
     (if p3_awaitingTls s then (s, [])
      else if p3_closed s then (s, [])
      else drain c opt rnd (s\<lparr>p3_buffer := p3_buffer s @ utf8Decode chunk\<rparr>))"

definition tlsEstablished :: "'r pop3 \<Rightarrow> 'r pop3" where
  "tlsEstablished s = s\<lparr>p3_secure := True, p3_awaitingTls := False, p3_username := None\<rparr>"

text \<open>Emit what the answer calls for, then go on with the buffered lines.\<close>

definition thenDrain ::
  "crypto \<Rightarrow> pop3_options \<Rightarrow> bytes \<Rightarrow> 'r pop3_action list \<Rightarrow> 'r pop3 \<Rightarrow> 'r pop3 \<times> 'r pop3_action list" where
  "thenDrain c opt rnd acts s = (let (s1, acts1) = drain c opt rnd s in (s1, acts @ acts1))"

definition pop3_scramKeysResult ::
  "crypto \<Rightarrow> pop3_options \<Rightarrow> bytes \<Rightarrow> scram_keys option \<Rightarrow> 'r pop3 \<Rightarrow> string + 'r pop3 \<times> 'r pop3_action list" where
  "pop3_scramKeysResult c opt rnd ks s =
     (if p3_pending s \<noteq> Some PP_scramKeys then Inl ''scramKeysResult''
      else let s1 = s\<lparr>p3_pending := None\<rparr> in
        case p3_awaitingSasl s of
          Some (P3_Scram session stage username) \<Rightarrow>
            (case provideKeys c ks session of
               (session1, NeedSend message) \<Rightarrow>
                 Inr (thenDrain c opt rnd [P3_reply (''+ '' @ b64_encode (utf8Encode message))]
                        (s1\<lparr>p3_awaitingSasl := Some (P3_Scram session1 stage username)\<rparr>))
             | (session1, step) \<Rightarrow>
                 Inr (thenDrain c opt rnd
                        [pop3_scramFailedAction step, P3_reply ''-ERR [AUTH] authentication failed'']
                        (s1\<lparr>p3_awaitingSasl := None\<rparr>)))
        | _ \<Rightarrow> Inr (thenDrain c opt rnd [] s1))"

definition pop3_authResult ::
  "crypto \<Rightarrow> pop3_options \<Rightarrow> bytes \<Rightarrow> string option \<Rightarrow> 'r pop3 \<Rightarrow> string + 'r pop3 \<times> 'r pop3_action list" where
  "pop3_authResult c opt rnd accountId s =
     (if p3_pending s \<noteq> Some PP_auth then Inl ''authResult''
      else case accountId of
        None \<Rightarrow> Inr (thenDrain c opt rnd [P3_reply ''-ERR [AUTH] authentication failed'']
                      (s\<lparr>p3_pending := None, p3_username := None\<rparr>))
      | Some _ \<Rightarrow> Inr (s\<lparr>p3_pending := Some PP_openMaildrop\<rparr>, [P3_openMaildrop]))"

fun numbered :: "nat \<Rightarrow> 'r pop3_message list \<Rightarrow> 'r session_message list" where
  "numbered i [] = []"
| "numbered i (m # ms) = \<lparr>sm_message = m, sm_msgnum = i + 1, sm_deleted = False\<rparr> # numbered (i + 1) ms"

definition openMaildropResult ::
  "crypto \<Rightarrow> pop3_options \<Rightarrow> bytes \<Rightarrow> 'r pop3_message list option \<Rightarrow> 'r pop3 \<Rightarrow> string + 'r pop3 \<times> 'r pop3_action list" where
  "openMaildropResult c opt rnd result s =
     (if p3_pending s \<noteq> Some PP_openMaildrop then Inl ''openMaildropResult''
      else case result of
        None \<Rightarrow> Inr (thenDrain c opt rnd [P3_reply ''-ERR [IN-USE] maildrop locked'']
                      (s\<lparr>p3_pending := None, p3_username := None\<rparr>))
      | Some msgs \<Rightarrow>
          (let ms = numbered 0 msgs in
           Inr (thenDrain c opt rnd [maildropReply ms]
                 (s\<lparr>p3_pending := None, p3_messages := ms, p3_state := P3_TRANSACTION\<rparr>))))"

definition retrieveReply :: "bytes option \<Rightarrow> nat \<Rightarrow> nat option \<Rightarrow> 'r pop3 \<Rightarrow> 'r pop3_action" where
  "retrieveReply result msgnum lns s =
     (case result of
        None \<Rightarrow> P3_reply ''-ERR [SYS/TEMP] failed to retrieve message''
      | Some bs \<Rightarrow>
          (case List.find (\<lambda>m. sm_msgnum m = msgnum) (p3_messages s) of
             None \<Rightarrow> P3_reply ''-ERR [SYS/TEMP] internal error''
           | Some m \<Rightarrow>
               P3_replyBinary (case lns of
                 None \<Rightarrow> buildMultilineBinary (''+OK '' @ show_nat (pm_sizeBytes (sm_message m)) @ '' octets'') (splitLines bs)
               | Some k \<Rightarrow> buildTopBytes bs k)))"

definition retrieveResult ::
  "crypto \<Rightarrow> pop3_options \<Rightarrow> bytes \<Rightarrow> bytes option \<Rightarrow> 'r pop3 \<Rightarrow> string + 'r pop3 \<times> 'r pop3_action list" where
  "retrieveResult c opt rnd result s =
     (case p3_pending s of
        Some (PP_retr n) \<Rightarrow> Inr (thenDrain c opt rnd [retrieveReply result n None s] (s\<lparr>p3_pending := None\<rparr>))
      | Some (PP_top n k) \<Rightarrow> Inr (thenDrain c opt rnd [retrieveReply result n (Some k) s] (s\<lparr>p3_pending := None\<rparr>))
      | _ \<Rightarrow> Inl ''retrieveResult'')"

definition commitDeletionsResult ::
  "pop3_options \<Rightarrow> bool \<Rightarrow> 'r pop3 \<Rightarrow> string + 'r pop3 \<times> 'r pop3_action list" where
  "commitDeletionsResult opt ok s =
     (if p3_pending s \<noteq> Some PP_commit then Inl ''commitDeletionsResult''
      else Inr (s\<lparr>p3_pending := None, p3_closed := True\<rparr>,
                [P3_reply (if ok then ''+OK '' @ po_hostname opt @ '' POP3 server signing off''
                           else ''-ERR [SYS/TEMP] failed to commit deletions''), P3_close]))"

datatype 'r pop3_input =
    P3Feed bytes
  | P3Tls
  | P3ScramKeys "scram_keys option"
  | P3Auth "string option"
  | P3Open "'r pop3_message list option"
  | P3Retrieved "bytes option"
  | P3Committed bool

fun pop3_call ::
  "crypto \<Rightarrow> pop3_options \<Rightarrow> bytes \<Rightarrow> 'r pop3_input \<Rightarrow> 'r pop3 \<Rightarrow> string + 'r pop3 \<times> 'r pop3_action list" where
  "pop3_call c opt rnd (P3Feed chunk) s = Inr (pop3_feed c opt rnd chunk s)"
| "pop3_call c opt rnd P3Tls s = Inr (tlsEstablished s, [])"
| "pop3_call c opt rnd (P3ScramKeys ks) s = pop3_scramKeysResult c opt rnd ks s"
| "pop3_call c opt rnd (P3Auth accountId) s = pop3_authResult c opt rnd accountId s"
| "pop3_call c opt rnd (P3Open result) s = openMaildropResult c opt rnd result s"
| "pop3_call c opt rnd (P3Retrieved result) s = retrieveResult c opt rnd result s"
| "pop3_call c opt rnd (P3Committed ok) s = commitDeletionsResult opt ok s"

text \<open>The states and the output of a session whose calls are all \<open>allowed\<close>.\<close>

inductive pop3_session ::
  "crypto \<Rightarrow> pop3_options \<Rightarrow> ('r pop3_input \<Rightarrow> bool) \<Rightarrow> 'r pop3 \<Rightarrow> 'r pop3_action list \<Rightarrow> bool"
  for c opt allowed where
  start: "pop3_session c opt allowed (pop3_new opt) []"
| call: "pop3_session c opt allowed s acts \<Longrightarrow> allowed i \<Longrightarrow> pop3_call c opt rnd i s = Inr (s', out) \<Longrightarrow>
    pop3_session c opt allowed s' (acts @ out)"

end
