(* ===== verification/Pop3Session.thy ===== *)
theory Pop3Session
  imports Pop3Engine
begin

text \<open>
  Sessions of the POP3 engine. The locale \<open>pop3_invariant\<close> lifts a relation between the state and
  the output from single transitions to whole sessions; it is interpreted for well-formed states,
  for sessions without TLS, and for the simulation by the maildrop of RFC 1939.
\<close>

section \<open>Answers\<close>

text \<open>How an answer of the backend or the adapter changes the state, before the loop resumes.\<close>

inductive pop3_answer :: "'r pop3_input \<Rightarrow> 'r pop3 \<Rightarrow> 'r pop3_action list \<Rightarrow> 'r pop3 \<Rightarrow> bool" where
  tls: "pop3_answer P3Tls s [] (s\<lparr>p3_secure := True, p3_awaitingTls := False, p3_username := None\<rparr>)"
| keysIgnored: "p3_pending s = Some PP_scramKeys \<Longrightarrow> pop3_answer (P3ScramKeys ks) s [] (s\<lparr>p3_pending := None\<rparr>)"
| keys: "p3_pending s = Some PP_scramKeys \<Longrightarrow> p3_awaitingSasl s \<noteq> None \<Longrightarrow> list_all p3_text acts \<Longrightarrow>
    pop3_answer (P3ScramKeys ks) s acts (s\<lparr>p3_pending := None, p3_awaitingSasl := x\<rparr>)"
| authRefused: "p3_pending s = Some PP_auth \<Longrightarrow>
    pop3_answer (P3Auth None) s [P3_reply t] (s\<lparr>p3_pending := None, p3_username := None\<rparr>)"
| authAccepted: "p3_pending s = Some PP_auth \<Longrightarrow>
    pop3_answer (P3Auth (Some a)) s [P3_openMaildrop] (s\<lparr>p3_pending := Some PP_openMaildrop\<rparr>)"
| locked: "p3_pending s = Some PP_openMaildrop \<Longrightarrow>
    pop3_answer (P3Open None) s [P3_reply t] (s\<lparr>p3_pending := None, p3_username := None\<rparr>)"
| opened: "p3_pending s = Some PP_openMaildrop \<Longrightarrow>
    pop3_answer (P3Open (Some msgs)) s [P3_reply t]
      (s\<lparr>p3_pending := None, p3_messages := numbered 0 msgs, p3_state := P3_TRANSACTION\<rparr>)"
| retrieved: "p3_pending s = Some (PP_retr n) \<or> p3_pending s = Some (PP_top n k) \<Longrightarrow>
    a = P3_reply t \<or> a = P3_replyBinary b \<Longrightarrow>
    pop3_answer (P3Retrieved result) s [a] (s\<lparr>p3_pending := None\<rparr>)"
| committed: "p3_pending s = Some PP_commit \<Longrightarrow>
    pop3_answer (P3Committed ok) s [P3_reply t, P3_close] (s\<lparr>p3_pending := None, p3_closed := True\<rparr>)"

inductive_cases pop3_answerE: "pop3_answer i s acts s'"

lemma scramKeysResult_answer:
  assumes "pop3_scramKeysResult c opt rnd ks s = Inr r"
  shows "\<exists>s1 acts. pop3_answer (P3ScramKeys ks) s acts s1 \<and> r = thenDrain c opt rnd acts s1"
proof -
  have p: "p3_pending s = Some PP_scramKeys" using assms by (simp add: pop3_scramKeysResult_def split: if_splits)
  show ?thesis
  proof (cases "p3_awaitingSasl s")
    case None
    then show ?thesis using assms p keysIgnored [OF p] by (auto simp: pop3_scramKeysResult_def)
  next
    case (Some x)
    show ?thesis
    proof (cases x)
      case (P3_Scram session stage username)
      obtain se st where k: "provideKeys c ks session = (se, st)" by force
      show ?thesis
      proof (cases "\<exists>message. st = NeedSend message")
        case True
        then obtain message where "st = NeedSend message" by blast
        then have "r = thenDrain c opt rnd [P3_reply (''+ '' @ b64_encode (utf8Encode message))]
            (s\<lparr>p3_pending := None, p3_awaitingSasl := Some (P3_Scram se stage username)\<rparr>)"
          using assms p Some P3_Scram k by (simp add: pop3_scramKeysResult_def)
        moreover have "list_all p3_text [P3_reply (''+ '' @ b64_encode (utf8Encode message))]" by simp
        ultimately show ?thesis using keys [OF p] Some by blast
      next
        case False
        then have "r = thenDrain c opt rnd [pop3_scramFailedAction st, P3_reply ''-ERR [AUTH] authentication failed'']
            (s\<lparr>p3_pending := None, p3_awaitingSasl := None\<rparr>)"
          using assms p Some P3_Scram k by (cases st) (simp_all add: pop3_scramKeysResult_def)
        moreover have "list_all p3_text [pop3_scramFailedAction st, P3_reply ''-ERR [AUTH] authentication failed'']"
          by (simp add: pop3_scramFailedAction_def)
        ultimately show ?thesis using keys [OF p] Some by blast
      qed
    qed (use assms p Some keysIgnored [OF p] in \<open>auto simp: pop3_scramKeysResult_def\<close>)
  qed
qed

lemma retrieveResult_answer:
  assumes "retrieveResult c opt rnd result s = Inr r"
  shows "\<exists>s1 acts. pop3_answer (P3Retrieved result) s acts s1 \<and> r = thenDrain c opt rnd acts s1"
proof -
  obtain n k l where p: "p3_pending s = Some (PP_retr n) \<or> p3_pending s = Some (PP_top n k)"
    and r: "r = thenDrain c opt rnd [retrieveReply result n l s] (s\<lparr>p3_pending := None\<rparr>)"
    using assms by (auto simp: retrieveResult_def split: option.splits pop3_pending.splits)
  have "\<exists>t b. retrieveReply result n l s = P3_reply t \<or> retrieveReply result n l s = P3_replyBinary b"
    by (simp add: retrieveReply_def split: option.split)
  then show ?thesis using retrieved [OF p] r by blast
qed

text \<open>Either the answer is all, or the loop resumes after it.\<close>

definition answered_with ::
  "crypto \<Rightarrow> pop3_options \<Rightarrow> bytes \<Rightarrow> 'r pop3_input \<Rightarrow> 'r pop3 \<Rightarrow> 'r pop3 \<times> 'r pop3_action list \<Rightarrow> bool" where
  "answered_with c opt rnd i s r \<longleftrightarrow> (\<exists>s1 acts. pop3_answer i s acts s1 \<and>
     (r = (s1, acts) \<and> (i = P3Tls \<or> p3_pending s1 \<noteq> None \<or> p3_closed s1) \<or> r = thenDrain c opt rnd acts s1))"

lemma answered_now:
  "pop3_answer i s acts s1 \<Longrightarrow> i = P3Tls \<or> p3_pending s1 \<noteq> None \<or> p3_closed s1 \<Longrightarrow> answered_with c opt rnd i s (s1, acts)"
  unfolding answered_with_def by blast

lemma answered_drain:
  "\<exists>s1 acts. pop3_answer i s acts s1 \<and> r = thenDrain c opt rnd acts s1 \<Longrightarrow> answered_with c opt rnd i s r"
  unfolding answered_with_def by blast

lemma authResult_answer:
  assumes "pop3_authResult c opt rnd a s = Inr r"
  shows "answered_with c opt rnd (P3Auth a) s r"
proof -
  have p: "p3_pending s = Some PP_auth" using assms by (simp add: pop3_authResult_def split: if_splits)
  show ?thesis
  proof (cases a)
    case None
    then show ?thesis using assms authRefused [OF p] p by (auto simp: pop3_authResult_def intro!: answered_drain)
  next
    case (Some k)
    then show ?thesis
      using assms authAccepted [OF p, of k] p answered_now [OF authAccepted [OF p, of k], of c opt rnd]
      by (auto simp: pop3_authResult_def)
  qed
qed

lemma commitResult_answer:
  assumes "commitDeletionsResult opt ok s = Inr r"
  shows "answered_with c opt rnd (P3Committed ok) s r"
proof -
  have p: "p3_pending s = Some PP_commit" using assms by (simp add: commitDeletionsResult_def split: if_splits)
  then have "r = (s\<lparr>p3_pending := None, p3_closed := True\<rparr>,
      [P3_reply (if ok then ''+OK '' @ po_hostname opt @ '' POP3 server signing off''
                 else ''-ERR [SYS/TEMP] failed to commit deletions''), P3_close])"
    using assms by (simp add: commitDeletionsResult_def)
  then show ?thesis using answered_now [OF committed [OF p]] by simp
qed

lemma openResult_answer:
  assumes "openMaildropResult c opt rnd m s = Inr r"
  shows "\<exists>s1 acts. pop3_answer (P3Open m) s acts s1 \<and> r = thenDrain c opt rnd acts s1"
proof -
  have p: "p3_pending s = Some PP_openMaildrop" using assms by (simp add: openMaildropResult_def split: if_splits)
  show ?thesis
  proof (cases m)
    case None
    then show ?thesis using assms p locked [OF p] by (auto simp: openMaildropResult_def)
  next
    case (Some msgs)
    then have "r = thenDrain c opt rnd [maildropReply (numbered 0 msgs)]
        (s\<lparr>p3_pending := None, p3_messages := numbered 0 msgs, p3_state := P3_TRANSACTION\<rparr>)"
      using assms p by (simp add: openMaildropResult_def Let_def)
    then show ?thesis using opened [OF p] Some unfolding maildropReply_def by blast
  qed
qed

lemma pop3_call_cases:
  assumes "pop3_call c opt rnd i s = Inr r"
  shows "(\<exists>chunk. i = P3Feed chunk \<and> r = pop3_feed c opt rnd chunk s) \<or> answered_with c opt rnd i s r"
proof (cases i)
  case P3Tls
  with assms answered_now [OF tls [of s]] show ?thesis by (auto simp: tlsEstablished_def)
qed (use assms in \<open>auto dest: authResult_answer commitResult_answer
      answered_drain [OF scramKeysResult_answer] answered_drain [OF openResult_answer] answered_drain [OF retrieveResult_answer]\<close>)

section \<open>Contract of a session\<close>

locale pop3_invariant =
  fixes c :: crypto
    and opt :: pop3_options
    and allowed :: "'r pop3_input \<Rightarrow> bool"
    and inv :: "'r pop3 \<Rightarrow> 'r pop3_action list \<Rightarrow> bool"
  assumes inv_new: "inv (pop3_new opt) []"
    and inv_buffer: "inv (s\<lparr>p3_buffer := b\<rparr>) h = inv s h"
    and inv_sasl: "inv s h \<Longrightarrow> p3_awaitingSasl s \<noteq> None \<Longrightarrow> can_auth opt s"
    and inv_close: "inv s h \<Longrightarrow> inv (s\<lparr>p3_closed := True\<rparr>) (h @ [P3_reply t, P3_close])"
    and inv_effect: "inv s h \<Longrightarrow> p3_pending s = None \<Longrightarrow> \<not> p3_closed s \<Longrightarrow> pop3_effect opt s acts s' \<Longrightarrow>
      inv s' (h @ acts)"
    and inv_answer: "inv s h \<Longrightarrow> allowed i \<Longrightarrow> pop3_answer i s acts s' \<Longrightarrow> inv s' (h @ acts)"
begin

lemma step_kept:
  assumes "inv s h" "\<not> pop3_stopped s" "pop3_step c opt rnd s = (s1, acts, b)"
  shows "inv s1 (h @ acts)"
proof (cases "indexOf LF (p3_buffer s)")
  case None
  with assms show ?thesis by (simp add: pop3_step_def)
next
  case (Some i)
  let ?t = "s\<lparr>p3_buffer := drop (i + 1) (p3_buffer s)\<rparr>"
  have "pop3_line c opt rnd (chompCR (take i (p3_buffer s))) ?t = (s1, acts)"
    using assms(3) Some by (auto simp: pop3_step_def split: prod.splits)
  then have "pop3_effect opt ?t acts s1"
    using inv_sasl [OF assms(1)] by (intro pop3_line_effect) (auto simp: can_auth_def pop3_authAllowed_def)
  then show ?thesis
    using assms(1,2) inv_effect [of ?t h acts s1] by (simp add: inv_buffer pop3_stopped_def)
qed

lemma drainLoop_kept: "pop3_drainLoop c opt rnd s = (s', acts) \<Longrightarrow> inv s h \<Longrightarrow> inv s' (h @ acts)"
  using pop3.loop_rel [of c opt rnd s s' acts "\<lambda>s a s'. \<forall>h. inv s h \<longrightarrow> inv s' (h @ a)"] step_kept
  by (auto simp flip: append_assoc)

lemma drain_kept:
  assumes "drain c opt rnd s = (s', acts)" "inv s h"
  shows "inv s' (h @ acts)"
proof -
  obtain s1 a where l: "pop3_drainLoop c opt rnd s = (s1, a)" by force
  then have i: "inv s1 (h @ a)" using drainLoop_kept assms(2) by blast
  have "inv (s1\<lparr>p3_buffer := [], p3_closed := True\<rparr>) (h @ a @ [P3_reply t, P3_close])" for t
    using inv_close [of "s1\<lparr>p3_buffer := []\<rparr>" "h @ a" t] i by (simp add: inv_buffer)
  with i assms(1) l show ?thesis by (auto simp: drain_def guardBuffer_def Let_def split: if_splits)
qed

lemma call_kept:
  assumes "pop3_call c opt rnd i s = Inr (s', out)" "inv s h" "allowed i"
  shows "inv s' (h @ out)"
  using pop3_call_cases [OF assms(1)] unfolding answered_with_def
proof (elim disjE exE conjE)
  fix chunk assume "i = P3Feed chunk" "(s', out) = pop3_feed c opt rnd chunk s"
  then show ?thesis
    using assms(2) drain_kept [of rnd "s\<lparr>p3_buffer := p3_buffer s @ utf8Decode chunk\<rparr>" s' out h]
    by (auto simp: pop3_feed_def inv_buffer split: if_splits)
next
  fix s1 acts assume a: "pop3_answer i s acts s1" "(s', out) = thenDrain c opt rnd acts s1"
  then have "inv s1 (h @ acts)" using inv_answer assms(2,3) by blast
  then show ?thesis using a(2) drain_kept [of rnd s1 _ _ "h @ acts"] by (auto simp: thenDrain_def split: prod.splits)
qed (use inv_answer assms(2,3) in blast)+

lemma session_kept: "pop3_session c opt allowed s acts \<Longrightarrow> inv s acts"
  by (induction rule: pop3_session.induct) (auto simp: inv_new dest: call_kept)

end


section \<open>Well-formed states\<close>

fun pending_ok :: "'r pop3 \<Rightarrow> pop3_pending option \<Rightarrow> bool" where
  "pending_ok s None \<longleftrightarrow> True"
| "pending_ok s (Some PP_auth) \<longleftrightarrow> p3_state s = P3_AUTHORIZATION \<and> p3_awaitingSasl s = None"
| "pending_ok s (Some PP_openMaildrop) \<longleftrightarrow> p3_state s = P3_AUTHORIZATION \<and> p3_awaitingSasl s = None"
| "pending_ok s (Some PP_scramKeys) \<longleftrightarrow> p3_state s = P3_AUTHORIZATION"
| "pending_ok s (Some _) \<longleftrightarrow> p3_state s = P3_TRANSACTION"

text \<open>Messages keep their position and number for the whole session.\<close>

definition numbers_ok :: "'r session_message list \<Rightarrow> bool" where
  "numbers_ok ms \<longleftrightarrow> (\<forall>i < length ms. sm_msgnum (ms ! i) = Suc i)"

definition pop3_wf :: "pop3_options \<Rightarrow> 'r pop3 \<Rightarrow> bool" where
  "pop3_wf opt s \<longleftrightarrow>
     (p3_awaitingSasl s \<noteq> None \<longrightarrow> can_auth opt s) \<and> pending_ok s (p3_pending s) \<and> numbers_ok (p3_messages s)"

lemma markDeleted_length [simp]: "length (markDeleted n ms) = length ms"
  by (induction ms) auto

lemma markDeleted_nth:
  "i < length ms \<Longrightarrow> sm_msgnum (markDeleted n ms ! i) = sm_msgnum (ms ! i) \<and>
     sm_message (markDeleted n ms ! i) = sm_message (ms ! i)"
proof (induction ms arbitrary: i)
  case (Cons m ms)
  then show ?case by (cases i) auto
qed simp

lemma numbered_nth:
  "j < length ms \<Longrightarrow> numbered i ms ! j = \<lparr>sm_message = ms ! j, sm_msgnum = Suc (i + j), sm_deleted = False\<rparr>"
proof (induction ms arbitrary: i j)
  case (Cons m ms)
  then show ?case by (cases j) auto
qed simp

lemma length_numbered [simp]: "length (numbered i ms) = length ms"
  by (induction ms arbitrary: i) auto

lemma numbers_ok_intros [simp]:
  "numbers_ok []" "numbers_ok ms \<Longrightarrow> numbers_ok (markDeleted n ms)"
  "numbers_ok ms \<Longrightarrow> numbers_ok (map (\<lambda>m. m\<lparr>sm_deleted := False\<rparr>) ms)" "numbers_ok (numbered 0 msgs)"
  by (simp_all add: numbers_ok_def markDeleted_nth numbered_nth)

lemma pending_ok_cong:
  "p3_state s = p3_state t \<Longrightarrow> p3_awaitingSasl s = p3_awaitingSasl t \<Longrightarrow> pending_ok s p = pending_ok t p"
  by (cases "(s, p)" rule: pending_ok.cases) simp_all

lemma pending_ok_frame [simp]:
  "pending_ok (s\<lparr>p3_buffer := b\<rparr>) p = pending_ok s p" "pending_ok (s\<lparr>p3_closed := k\<rparr>) p = pending_ok s p"
  "pending_ok (s\<lparr>p3_secure := x\<rparr>) p = pending_ok s p" "pending_ok (s\<lparr>p3_awaitingTls := w\<rparr>) p = pending_ok s p"
  "pending_ok (s\<lparr>p3_username := u\<rparr>) p = pending_ok s p" "pending_ok (s\<lparr>p3_messages := ms\<rparr>) p = pending_ok s p"
  by (rule pending_ok_cong; simp)+

lemma can_auth_frame [simp]:
  "can_auth opt (s\<lparr>p3_buffer := b\<rparr>) = can_auth opt s" "can_auth opt (s\<lparr>p3_closed := k\<rparr>) = can_auth opt s"
  "can_auth opt (s\<lparr>p3_pending := p\<rparr>) = can_auth opt s" "can_auth opt (s\<lparr>p3_messages := ms\<rparr>) = can_auth opt s"
  "can_auth opt (s\<lparr>p3_username := u\<rparr>) = can_auth opt s" "can_auth opt (s\<lparr>p3_awaitingSasl := x\<rparr>) = can_auth opt s"
  "can_auth opt (s\<lparr>p3_awaitingTls := w\<rparr>) = can_auth opt s"
  "can_auth opt (s\<lparr>p3_secure := True\<rparr>) = (p3_state s = P3_AUTHORIZATION)"
  by (auto simp: can_auth_def pop3_authAllowed_def)

lemma can_authD: "can_auth opt s \<Longrightarrow> p3_state s = P3_AUTHORIZATION"
  by (simp add: can_auth_def)

lemma pop3_wf_effect:
  assumes "pop3_wf opt s" "p3_pending s = None" "pop3_effect opt s acts s'"
  shows "pop3_wf opt s'"
  using assms(3,1,2) by (cases rule: pop3_effect.cases) (auto simp: pop3_wf_def can_authD)

lemma pop3_wf_answer:
  assumes "pop3_wf opt s" "pop3_answer i s acts s'"
  shows "pop3_wf opt s'"
  using assms(2,1) by (cases rule: pop3_answer.cases) (auto simp: pop3_wf_def can_authD)

lemma pop3_wf_close: "pop3_wf opt s \<Longrightarrow> pop3_wf opt (s\<lparr>p3_closed := True\<rparr>)"
  by (simp add: pop3_wf_def)

interpretation pop3_wf: pop3_invariant c opt allowed "\<lambda>s h. pop3_wf opt s" for c opt allowed
proof (unfold_locales, goal_cases)
  case 1
  show ?case by (simp add: pop3_wf_def pop3_new_def)
next
  case (2 s b h)
  show ?case by (simp add: pop3_wf_def)
next
  case 3
  then show ?case by (simp add: pop3_wf_def)
next
  case 4
  then show ?case by (rule pop3_wf_close)
next
  case 5
  then show ?case using pop3_wf_effect by blast
next
  case 6
  then show ?case using pop3_wf_answer by blast
qed

section \<open>Before TLS\<close>

fun before_tls :: "'r pop3_action \<Rightarrow> bool" where
  "before_tls (P3_reply _) = True"
| "before_tls P3_close = True"
| "before_tls P3_startTls = True"
| "before_tls _ = False"

definition plain_state :: "'r pop3 \<Rightarrow> bool" where
  "plain_state s \<longleftrightarrow> \<not> p3_secure s \<and> p3_state s = P3_AUTHORIZATION \<and> p3_pending s = None \<and>
     p3_awaitingSasl s = None \<and> p3_username s = None"

lemma plain_effect:
  "plain_state s \<Longrightarrow> \<not> po_allowInsecureAuth opt \<Longrightarrow> pop3_effect opt s acts s' \<Longrightarrow>
     plain_state s' \<and> list_all before_tls acts"
  by (erule pop3_effect.cases) (auto simp: plain_state_def can_auth_def pop3_authAllowed_def)

lemma plain_answer:
  "plain_state s \<Longrightarrow> i \<noteq> P3Tls \<Longrightarrow> pop3_answer i s acts s' \<Longrightarrow> plain_state s' \<and> list_all before_tls acts"
  by (erule pop3_answer.cases) (auto simp: plain_state_def)

interpretation pop3_plain: pop3_invariant c opt "\<lambda>i. i \<noteq> P3Tls"
  "\<lambda>s h. pop3_wf opt s \<and> (po_secure opt \<or> po_allowInsecureAuth opt \<or> plain_state s \<and> list_all before_tls h)" for c opt
proof (unfold_locales, goal_cases)
  case 1
  then show ?case by (cases "po_secure opt") (simp_all add: pop3_wf_def pop3_new_def plain_state_def)
next
  case 2
  then show ?case by (simp add: pop3_wf_def plain_state_def)
next
  case 3
  then show ?case by (simp add: pop3_wf_def)
next
  case 4
  then show ?case by (auto simp: pop3_wf_close plain_state_def)
next
  case 5
  then show ?case using pop3_wf_effect plain_effect by (metis list_all_append)
next
  case 6
  then show ?case using pop3_wf_answer plain_answer by (metis list_all_append)
qed

section \<open>The maildrop of RFC 1939\<close>

text \<open>
  What a session may do to the maildrop: open it, mark messages, unmark all of them, and commit
  the marked ones once, at the end.
\<close>

datatype 'r maildrop = MD_authorization | MD_transaction "'r pop3_message list" "nat set"
  | MD_update "'r pop3_message list" "nat set"

datatype 'r maildrop_event =
    MD_opened "'r pop3_message list" | MD_marked nat | MD_unmarked | MD_committed "'r pop3_message list"

text \<open>The messages whose numbers, counted from \<open>i\<close>, are marked, in their order.\<close>

fun marked_from :: "nat \<Rightarrow> 'r pop3_message list \<Rightarrow> nat set \<Rightarrow> 'r pop3_message list" where
  "marked_from i [] D = []"
| "marked_from i (m # ms) D = (if i \<in> D then [m] else []) @ marked_from (Suc i) ms D"

inductive md_run :: "'r maildrop_event list \<Rightarrow> 'r maildrop \<Rightarrow> bool" where
  md_start: "md_run [] MD_authorization"
| md_open: "md_run es MD_authorization \<Longrightarrow> md_run (es @ [MD_opened ms]) (MD_transaction ms {})"
| md_mark: "md_run es (MD_transaction ms D) \<Longrightarrow> n \<in> {1..length ms} - D \<Longrightarrow>
    md_run (es @ [MD_marked n]) (MD_transaction ms (insert n D))"
| md_unmark: "md_run es (MD_transaction ms D) \<Longrightarrow> md_run (es @ [MD_unmarked]) (MD_transaction ms {})"
| md_commit: "md_run es (MD_transaction ms D) \<Longrightarrow> md_run (es @ [MD_committed (marked_from 1 ms D)]) (MD_update ms D)"

fun md_commits :: "'r maildrop_event list \<Rightarrow> 'r pop3_message list list" where
  "md_commits [] = []"
| "md_commits (MD_committed ms # es) = ms # md_commits es"
| "md_commits (_ # es) = md_commits es"

fun p3_commits :: "'r pop3_action list \<Rightarrow> 'r pop3_message list list" where
  "p3_commits [] = []"
| "p3_commits (P3_commitDeletions ms # as) = ms # p3_commits as"
| "p3_commits (_ # as) = p3_commits as"

lemma md_commits_append [simp]: "md_commits (a @ b) = md_commits a @ md_commits b"
  by (induction a rule: md_commits.induct) auto

lemma p3_commits_append [simp]: "p3_commits (a @ b) = p3_commits a @ p3_commits b"
  by (induction a rule: p3_commits.induct) auto

lemma p3_commits_text [simp]: "list_all p3_text acts \<Longrightarrow> p3_commits acts = []"
  by (induction acts rule: p3_commits.induct) auto

definition deleted_numbers :: "'r session_message list \<Rightarrow> nat set" where
  "deleted_numbers ms = set (map sm_msgnum (filter sm_deleted ms))"

fun pop3_sim :: "'r pop3 \<Rightarrow> 'r maildrop \<Rightarrow> bool" where
  "pop3_sim s MD_authorization \<longleftrightarrow> p3_state s = P3_AUTHORIZATION"
| "pop3_sim s (MD_transaction ms D) \<longleftrightarrow> p3_state s = P3_TRANSACTION \<and> p3_pending s \<noteq> Some PP_commit \<and>
     ms = map sm_message (p3_messages s) \<and> D = deleted_numbers (p3_messages s)"
| "pop3_sim s (MD_update ms D) \<longleftrightarrow> p3_state s = P3_TRANSACTION \<and>
     ms = map sm_message (p3_messages s) \<and> D = deleted_numbers (p3_messages s) \<and>
     (p3_pending s = Some PP_commit \<or> p3_pending s = None \<and> p3_closed s)"

lemma deleted_numbers_Cons:
  "deleted_numbers (m # ms) = (if sm_deleted m then {sm_msgnum m} else {}) \<union> deleted_numbers ms"
  by (simp add: deleted_numbers_def)

lemma deleted_numbers_mark:
  assumes "m \<in> set ms" "distinct (map sm_msgnum ms)"
  shows "deleted_numbers (markDeleted (sm_msgnum m) ms) = insert (sm_msgnum m) (deleted_numbers ms)"
  using assms
proof (induction ms)
  case (Cons k ms)
  show ?case
  proof (cases "sm_msgnum k = sm_msgnum m")
    case True
    then show ?thesis by (auto simp: deleted_numbers_Cons)
  next
    case False
    with Cons have "m \<in> set ms" by auto
    with False Cons show ?thesis by (auto simp: deleted_numbers_Cons)
  qed
qed simp

lemma markDeleted_messages [simp]: "map sm_message (markDeleted n ms) = map sm_message ms"
  by (induction ms) auto

lemma deleted_numbers_simps [simp]:
  "deleted_numbers (map (\<lambda>m. m\<lparr>sm_deleted := False\<rparr>) ms) = {}" "deleted_numbers (numbered i msgs) = {}"
proof -
  have "\<not> sm_deleted m" if "m \<in> set (numbered i msgs)" for m
    using that by (induction msgs arbitrary: i) auto
  then show "deleted_numbers (numbered i msgs) = {}" by (auto simp: deleted_numbers_def)
qed (auto simp: deleted_numbers_def)

lemma numbered_messages [simp]: "map sm_message (numbered i msgs) = msgs"
  by (induction msgs arbitrary: i) auto

lemma numbers_distinct: "numbers_ok ms \<Longrightarrow> distinct (map sm_msgnum ms)"
  by (simp add: numbers_ok_def distinct_conv_nth)

lemma marked_from_deleted:
  "\<forall>j < length ms. sm_msgnum (ms ! j) = i + j \<Longrightarrow> \<forall>m \<in> set ms. sm_msgnum m \<in> D \<longleftrightarrow> sm_deleted m \<Longrightarrow>
     marked_from i (map sm_message ms) D = map sm_message (filter sm_deleted ms)"
proof (induction ms arbitrary: i)
  case (Cons m ms)
  have "sm_msgnum m = i" using Cons.prems(1) by auto
  moreover have "\<forall>j < length ms. sm_msgnum (ms ! j) = Suc i + j" using Cons.prems(1) by auto
  ultimately show ?case using Cons.IH [of "Suc i"] Cons.prems(2) by auto
qed simp

lemma marked_deleted:
  assumes "numbers_ok ms"
  shows "marked_from 1 (map sm_message ms) (deleted_numbers ms) = map sm_message (filter sm_deleted ms)"
proof (rule marked_from_deleted)
  show "\<forall>m \<in> set ms. sm_msgnum m \<in> deleted_numbers ms \<longleftrightarrow> sm_deleted m"
  proof
    fix m assume m: "m \<in> set ms"
    have "inj_on sm_msgnum (set ms)" using numbers_distinct [OF assms] by (simp add: distinct_map)
    then show "sm_msgnum m \<in> deleted_numbers ms \<longleftrightarrow> sm_deleted m"
      using m by (auto simp: deleted_numbers_def dest: inj_onD)
  qed
qed (use assms in \<open>simp add: numbers_ok_def\<close>)

lemma getActiveMessage_ok:
  "getActiveMessage arg s = Inr m \<Longrightarrow> m \<in> set (p3_messages s) \<and> \<not> sm_deleted m"
  by (auto simp: getActiveMessage_def find_Some_iff split: option.splits if_splits)


lemma numbers_range: "numbers_ok ms \<Longrightarrow> m \<in> set ms \<Longrightarrow> sm_msgnum m \<in> {1..length ms}"
  by (auto simp: numbers_ok_def in_set_conv_nth)

lemma active_not_deleted:
  assumes "numbers_ok (p3_messages s)" "getActiveMessage arg s = Inr m"
  shows "m \<in> set (p3_messages s)" "sm_msgnum m \<in> {1..length (p3_messages s)} - deleted_numbers (p3_messages s)"
proof -
  have m: "m \<in> set (p3_messages s)" "\<not> sm_deleted m" using getActiveMessage_ok [OF assms(2)] by blast+
  have "inj_on sm_msgnum (set (p3_messages s))" using numbers_distinct [OF assms(1)] by (simp add: distinct_map)
  with m have "sm_msgnum m \<notin> deleted_numbers (p3_messages s)" by (auto simp: deleted_numbers_def dest: inj_onD)
  then show "sm_msgnum m \<in> {1..length (p3_messages s)} - deleted_numbers (p3_messages s)"
    using numbers_range [OF assms(1) m(1)] by simp
qed (use getActiveMessage_ok [OF assms(2)] in blast)

text \<open>The simulation: the maildrop has made the events that the output shows.\<close>

definition follows_maildrop :: "'r pop3 \<Rightarrow> 'r pop3_action list \<Rightarrow> bool" where
  "follows_maildrop s h \<longleftrightarrow> (\<exists>es a. md_run es a \<and> pop3_sim s a \<and> md_commits es = p3_commits h)"

lemma follows_stutter:
  "follows_maildrop s h \<Longrightarrow> p3_commits acts = [] \<Longrightarrow> (\<And>a. pop3_sim s a \<Longrightarrow> pop3_sim s' a) \<Longrightarrow>
     follows_maildrop s' (h @ acts)"
  unfolding follows_maildrop_def by (metis append_Nil2 p3_commits_append)

lemma pop3_sim_transaction:
  assumes "pop3_sim s a" "p3_state s = P3_TRANSACTION" "p3_pending s = None" "\<not> p3_closed s"
  shows "a = MD_transaction (map sm_message (p3_messages s)) (deleted_numbers (p3_messages s))"
  using assms by (cases a) auto

lemma follows_transaction:
  assumes "follows_maildrop s h" "p3_state s = P3_TRANSACTION" "p3_pending s = None" "\<not> p3_closed s"
    and "\<And>es. md_run es (MD_transaction (map sm_message (p3_messages s)) (deleted_numbers (p3_messages s))) \<Longrightarrow>
      md_run (es @ [e]) b" "pop3_sim s' b" "md_commits [e] = p3_commits acts"
  shows "follows_maildrop s' (h @ acts)"
proof -
  obtain es a where "md_run es a" "pop3_sim s a" "md_commits es = p3_commits h"
    using assms(1) unfolding follows_maildrop_def by blast
  then have "md_run (es @ [e]) b" "md_commits (es @ [e]) = p3_commits (h @ acts)"
    using pop3_sim_transaction [OF _ assms(2-4)] assms(5,7) by auto
  with assms(6) show ?thesis unfolding follows_maildrop_def by blast
qed

lemma follows_effect:
  assumes "pop3_wf opt s" "follows_maildrop s h" "p3_pending s = None" "\<not> p3_closed s" "pop3_effect opt s acts s'"
  shows "follows_maildrop s' (h @ acts)"
  using assms(5)
proof (cases rule: pop3_effect.cases)
  case (dele arg m t)
  have n: "numbers_ok (p3_messages s)" using assms(1) by (simp add: pop3_wf_def)
  note a = active_not_deleted [OF n dele(4)]
  show ?thesis
    using assms(2,3,4) dele a deleted_numbers_mark [OF a(1) numbers_distinct [OF n]]
    by (intro follows_transaction [of s h "MD_marked (sm_msgnum m)"
          "MD_transaction (map sm_message (p3_messages s)) (insert (sm_msgnum m) (deleted_numbers (p3_messages s)))"])
      (auto intro: md_mark)
next
  case (rset t)
  then show ?thesis
    using assms(2-4)
    by (intro follows_transaction [of s h MD_unmarked "MD_transaction (map sm_message (p3_messages s)) {}"])
      (auto intro: md_unmark simp: comp_def)
next
  case quit
  have n: "numbers_ok (p3_messages s)" using assms(1) by (simp add: pop3_wf_def)
  show ?thesis
    using assms(2-4) quit md_commit marked_deleted [OF n]
    by (intro follows_transaction [of s h "MD_committed (map sm_message (filter sm_deleted (p3_messages s)))"
          "MD_update (map sm_message (p3_messages s)) (deleted_numbers (p3_messages s))"])
      (auto dest: md_commit)
qed (rule follows_stutter [OF assms(2)], simp, case_tac a, use assms(3,4) in \<open>auto simp: can_auth_def\<close>)+

lemma answer_commits: "pop3_answer i s acts s' \<Longrightarrow> p3_commits acts = []"
  by (erule pop3_answer.cases) auto

lemma answer_sim:
  assumes "pop3_answer i s acts s'" "\<nexists>msgs. i = P3Open (Some msgs)" "pop3_sim s a"
  shows "pop3_sim s' a"
  using assms by (cases rule: pop3_answer.cases; cases a) auto

lemma follows_opened:
  assumes "pop3_wf opt s" "follows_maildrop s h" "p3_pending s = Some PP_openMaildrop"
  shows "follows_maildrop (s\<lparr>p3_pending := None, p3_messages := numbered 0 msgs, p3_state := P3_TRANSACTION\<rparr>) h"
proof -
  have "p3_state s = P3_AUTHORIZATION" using assms(1,3) by (simp add: pop3_wf_def)
  moreover obtain es a where e: "md_run es a" "pop3_sim s a" "md_commits es = p3_commits h"
    using assms(2) unfolding follows_maildrop_def by blast
  ultimately have "a = MD_authorization" by (cases a) auto
  then have "md_run (es @ [MD_opened msgs]) (MD_transaction msgs {})" using md_open e by blast
  moreover have "md_commits (es @ [MD_opened msgs]) = p3_commits h" using e by simp
  ultimately show ?thesis unfolding follows_maildrop_def by fastforce
qed

lemma follows_answer:
  assumes "pop3_wf opt s" "follows_maildrop s h" "pop3_answer i s acts s'"
  shows "follows_maildrop s' (h @ acts)"
proof (cases "\<exists>msgs. i = P3Open (Some msgs)")
  case True
  then obtain msgs where "p3_pending s = Some PP_openMaildrop"
      "s' = s\<lparr>p3_pending := None, p3_messages := numbered 0 msgs, p3_state := P3_TRANSACTION\<rparr>"
    using assms(3) by (auto elim: pop3_answer.cases)
  then have "follows_maildrop s' h" using follows_opened [OF assms(1,2)] by simp
  then show ?thesis using follows_stutter answer_commits [OF assms(3)] by blast
next
  case False
  then show ?thesis using follows_stutter [OF assms(2) answer_commits [OF assms(3)]] answer_sim [OF assms(3)] by blast
qed

lemma pop3_sim_buffer [simp]: "pop3_sim (s\<lparr>p3_buffer := b\<rparr>) a = pop3_sim s a"
  by (cases a) auto

interpretation pop3_maildrop: pop3_invariant c opt allowed "\<lambda>s h. pop3_wf opt s \<and> follows_maildrop s h" for c opt allowed
proof (unfold_locales, goal_cases)
  case 1
  have "md_run [] MD_authorization" by (rule md_start)
  then show ?case unfolding follows_maildrop_def by (force simp: pop3_wf_def pop3_new_def)
next
  case 2
  show ?case by (simp add: pop3_wf_def follows_maildrop_def)
next
  case 3
  then show ?case by (simp add: pop3_wf_def)
next
  case (4 s h t)
  have "pop3_sim s a \<Longrightarrow> pop3_sim (s\<lparr>p3_closed := True\<rparr>) a" for a by (cases a) auto
  then show ?case using 4 follows_stutter [of s h "[P3_reply t, P3_close]"] by (simp add: pop3_wf_close)
next
  case 5
  then show ?case using pop3_wf_effect follows_effect by blast
next
  case 6
  then show ?case using pop3_wf_answer follows_answer by blast
qed

text \<open>
  The maildrop a state represents, and what a command does to it: DELE marks a message that exists and
  is not marked, RSET unmarks all of them, QUIT enters the UPDATE state, every other command leaves it.
\<close>

definition maildrop_of :: "'r pop3 \<Rightarrow> 'r maildrop" where
  "maildrop_of s =
     (if p3_state s = P3_AUTHORIZATION then MD_authorization
      else if p3_pending s = Some PP_commit then MD_update (map sm_message (p3_messages s)) (deleted_numbers (p3_messages s))
      else MD_transaction (map sm_message (p3_messages s)) (deleted_numbers (p3_messages s)))"

fun md_command :: "string \<times> string \<Rightarrow> 'r maildrop \<Rightarrow> 'r maildrop" where
  "md_command (verb, arg) (MD_transaction ms D) =
     (if verb = ''DELE'' then
        (case parseNonNegativeInt arg of
           Some n \<Rightarrow> MD_transaction ms (if n \<in> {1..length ms} then insert n D else D)
         | None \<Rightarrow> MD_transaction ms D)
      else if verb = ''RSET'' then MD_transaction ms {}
      else if verb = ''QUIT'' then MD_update ms D
      else MD_transaction ms D)"
| "md_command cmd MD_authorization = MD_authorization"
| "md_command cmd (MD_update ms D) = MD_update ms D"

lemma numbers_find:
  assumes "numbers_ok ms"
  shows "(\<exists>m. List.find (\<lambda>m. sm_msgnum m = n) ms = Some m) \<longleftrightarrow> n \<in> {1..length ms}"
proof -
  have "n \<in> {1..length ms} \<longleftrightarrow> (\<exists>i < length ms. sm_msgnum (ms ! i) = n)"
  proof
    assume "n \<in> {1..length ms}"
    then have "n - 1 < length ms" "sm_msgnum (ms ! (n - 1)) = n" using assms by (auto simp: numbers_ok_def)
    then show "\<exists>i < length ms. sm_msgnum (ms ! i) = n" by blast
  qed (use assms in \<open>auto simp: numbers_ok_def\<close>)
  then show ?thesis
    by (metis (mono_tags, lifting) find_None_iff in_set_conv_nth not_None_eq)
qed

lemma cmdDele_refines:
  assumes "numbers_ok (p3_messages s)" "p3_state s = P3_TRANSACTION" "p3_pending s = None"
  shows "maildrop_of (fst (cmdDele arg s)) = md_command (''DELE'', arg) (maildrop_of s)"
proof (cases "parseNonNegativeInt arg")
  case None
  then show ?thesis using assms(2,3) by (simp add: cmdDele_def getActiveMessage_def maildrop_of_def)
next
  case (Some n)
  show ?thesis
  proof (cases "List.find (\<lambda>m. sm_msgnum m = n) (p3_messages s)")
    case None
    with numbers_find [OF assms(1), of n] have "n \<notin> {1..length (p3_messages s)}" by auto
    with None Some show ?thesis using assms(2,3) by (auto simp: cmdDele_def getActiveMessage_def maildrop_of_def)
  next
    case f: (Some m)
    then have m: "m \<in> set (p3_messages s)" "sm_msgnum m = n" by (auto simp: find_Some_iff)
    have n: "n \<in> {1..length (p3_messages s)}" using numbers_find [OF assms(1), of n] f by blast
    show ?thesis
    proof (cases "sm_deleted m")
      case True
      then have "n \<in> deleted_numbers (p3_messages s)" using m by (auto simp: deleted_numbers_def)
      then show ?thesis
        using assms(2,3) True Some f n by (simp add: cmdDele_def getActiveMessage_def maildrop_of_def insert_absorb)
    next
      case False
      then show ?thesis
        using assms(2,3) Some f n m deleted_numbers_mark [OF m(1) numbers_distinct [OF assms(1)]]
        by (simp add: cmdDele_def getActiveMessage_def maildrop_of_def)
    qed
  qed
qed

lemma transaction_commands_refine:
  assumes "p3_state s = P3_TRANSACTION" "p3_pending s = None"
  shows "maildrop_of (fst (cmdRset s)) = md_command (''RSET'', arg) (maildrop_of s)"
    and "maildrop_of (fst (cmdQuit opt s)) = md_command (''QUIT'', arg) (maildrop_of s)"
    and "maildrop_of (fst (cmdRetr arg s)) = maildrop_of s" "maildrop_of (fst (cmdTop arg s)) = maildrop_of s"
    and "fst (cmdList arg s) = s" "fst (cmdUidl arg s) = s" "fst (cmdStat s) = s" "fst (cmdCapa opt s) = s"
    and "fst (cmdUser opt arg s) = s" "fst (cmdPass opt arg s) = s" "fst (cmdStls opt s) = s" "fst (cmdAuth c opt rnd arg s) = s"
  using assms
  by (auto simp: cmdRset_def cmdQuit_def cmdRetr_def cmdTop_def cmdList_def cmdUidl_def cmdStat_def cmdCapa_def cmdUser_def
      cmdPass_def cmdStls_def cmdAuth_def insecureAuthRejected_def maildrop_of_def Let_def comp_def
      split: sum.split list.split option.split prod.split)

lemma dispatch_refines:
  assumes "numbers_ok (p3_messages s)" "p3_state s = P3_TRANSACTION" "p3_pending s = None"
  shows "maildrop_of (fst (pop3_dispatch c opt rnd verb rest s)) = md_command (verb, rest) (maildrop_of s)"
proof -
  have "md_command (v, rest) (maildrop_of s) = maildrop_of s" if "v \<notin> {''DELE'', ''RSET'', ''QUIT''}" for v
    using that assms by (simp add: maildrop_of_def)
  then show ?thesis
    using cmdDele_refines [OF assms, of rest] transaction_commands_refine [OF assms(2,3)] assms(2)
    by (simp add: pop3_dispatch_def requireTransaction_def)
qed

lemma pop3_line_refines:
  assumes "pop3_wf opt s" "p3_state s = P3_TRANSACTION" "p3_pending s = None"
  shows "maildrop_of (fst (pop3_line c opt rnd line s)) = md_command (pop3_verb (trim line)) (maildrop_of s)"
proof -
  have n: "p3_awaitingSasl s = None" "numbers_ok (p3_messages s)"
    using assms(1,2) by (auto simp: pop3_wf_def can_auth_def)
  show ?thesis
  proof (cases "trim line = []")
    case True
    then show ?thesis using n assms by (simp add: pop3_line_def pop3_handleLine_def pop3_verb_def maildrop_of_def toUpperCase_def)
  next
    case False
    obtain v r where vr: "pop3_verb (trim line) = (v, r)" by force
    with False n show ?thesis
      using dispatch_refines [OF n(2) assms(2,3), of c opt rnd v r]
      by (simp add: pop3_line_def pop3_handleLine_def Let_def)
  qed
qed

text \<open>What the maildrop allows: at most one commit, of the messages marked since the last reset.\<close>

fun marks_of :: "'r maildrop_event list \<Rightarrow> nat set \<Rightarrow> nat set" where
  "marks_of [] D = D"
| "marks_of (MD_marked n # es) D = marks_of es (insert n D)"
| "marks_of (MD_unmarked # es) D = marks_of es {}"
| "marks_of (_ # es) D = marks_of es D"

lemma marks_of_append: "marks_of (a @ b) D = marks_of b (marks_of a D)"
  by (induction a D rule: marks_of.induct) auto

fun md_wf :: "'r maildrop_event list \<Rightarrow> 'r maildrop \<Rightarrow> bool" where
  "md_wf es MD_authorization \<longleftrightarrow> es = []"
| "md_wf es (MD_transaction ms D) \<longleftrightarrow> D = marks_of es {} \<and> D \<subseteq> {1..length ms} \<and>
     (\<exists>rest. es = MD_opened ms # rest \<and> list_all (\<lambda>e. e = MD_unmarked \<or> (\<exists>n. e = MD_marked n)) rest)"
| "md_wf es (MD_update ms D) \<longleftrightarrow> (\<exists>rest. es = MD_opened ms # rest @ [MD_committed (marked_from 1 ms D)] \<and> D = marks_of rest {} \<and>
     list_all (\<lambda>e. e = MD_unmarked \<or> (\<exists>n. e = MD_marked n)) rest)"

lemma md_run_wf: "md_run es a \<Longrightarrow> md_wf es a"
  by (induction rule: md_run.induct) (auto simp: marks_of_append)

lemma md_commits_marks:
  "list_all (\<lambda>e. e = MD_unmarked \<or> (\<exists>n. e = MD_marked n)) es \<Longrightarrow> md_commits es = []"
  by (induction es rule: md_commits.induct) auto


text \<open>What has been committed is what the state still shows as marked.\<close>

lemma follows_commits:
  assumes "follows_maildrop s h" "numbers_ok (p3_messages s)"
  shows "p3_commits h = [] \<or> p3_commits h = [map sm_message (filter sm_deleted (p3_messages s))] \<and>
    p3_state s = P3_TRANSACTION \<and> (p3_pending s = Some PP_commit \<or> p3_pending s = None \<and> p3_closed s)"
proof -
  obtain es a where e: "md_run es a" "pop3_sim s a" "md_commits es = p3_commits h"
    using assms unfolding follows_maildrop_def by blast
  show ?thesis
  proof (cases a)
    case (MD_update ms D)
    then obtain rest where r: "es = MD_opened ms # rest @ [MD_committed (marked_from 1 ms D)]"
        "list_all (\<lambda>e. e = MD_unmarked \<or> (\<exists>n. e = MD_marked n)) rest"
      using md_run_wf [OF e(1)] by auto
    have "p3_commits h = [marked_from 1 ms D]" using e(3) r md_commits_marks [OF r(2)] by simp
    then show ?thesis using e(2) MD_update marked_deleted [OF assms(2)] by auto
  next
    case (MD_transaction ms D)
    then obtain rest where r: "es = MD_opened ms # rest" "list_all (\<lambda>e. e = MD_unmarked \<or> (\<exists>n. e = MD_marked n)) rest"
      using md_run_wf [OF e(1)] by auto
    then have "p3_commits h = []" using e(3) md_commits_marks [OF r(2)] by simp
    then show ?thesis by blast
  next
    case MD_authorization
    then show ?thesis using md_run_wf [OF e(1)] e(3) by simp
  qed
qed

section \<open>The buffer\<close>

definition p3_buffer_ok :: "'r pop3 \<Rightarrow> bool" where
  "p3_buffer_ok s \<longleftrightarrow> p3_closed s \<or>
     length (p3_buffer s) \<le> (if p3_pending s = None then MAX_COMMAND_LINE else MAX_PIPELINE_PENDING_BYTES)"

lemma drain_buffer_ok: "p3_buffer_ok (fst (drain c opt rnd s))"
proof -
  obtain s1 a where l: "pop3_drainLoop c opt rnd s = (s1, a)" by force
  have "p3_buffer_ok (fst (guardBuffer s1))" by (cases "p3_pending s1") (simp_all add: guardBuffer_def p3_buffer_ok_def)
  with l show ?thesis by (auto simp: drain_def p3_buffer_ok_def split_beta)
qed

lemma call_buffer_ok:
  assumes "p3_buffer_ok s" "pop3_call c opt rnd i s = Inr r"
  shows "p3_buffer_ok (fst r)"
  using pop3_call_cases [OF assms(2)] unfolding answered_with_def
proof (elim disjE exE conjE)
  fix chunk assume "i = P3Feed chunk" "r = pop3_feed c opt rnd chunk s"
  then show ?thesis using assms(1) by (simp add: pop3_feed_def drain_buffer_ok)
next
  fix s1 acts assume a: "pop3_answer i s acts s1" "r = thenDrain c opt rnd acts s1"
  then show ?thesis using drain_buffer_ok [of c opt rnd s1] by (simp add: thenDrain_def split_beta)
next
  fix s1 acts assume a: "pop3_answer i s acts s1" "r = (s1, acts)" "i = P3Tls"
  then show ?thesis using assms(1) by (auto simp: p3_buffer_ok_def elim: pop3_answer.cases)
next
  fix s1 acts assume a: "pop3_answer i s acts s1" "r = (s1, acts)" "p3_pending s1 \<noteq> None"
  then show ?thesis using assms(1) by (auto simp: p3_buffer_ok_def elim: pop3_answer.cases)
next
  fix s1 acts assume a: "pop3_answer i s acts s1" "r = (s1, acts)" "p3_closed s1"
  then show ?thesis by (simp add: p3_buffer_ok_def)
qed

lemma session_buffer_ok: "pop3_session c opt allowed s acts \<Longrightarrow> p3_buffer_ok s"
proof (induction rule: pop3_session.induct)
  case (call s acts i rnd s' out)
  then show ?case using call_buffer_ok by fastforce
qed (simp add: p3_buffer_ok_def pop3_new_def)

text \<open>Each line that the loop takes off the buffer is answered.\<close>

lemma effect_answers: "pop3_effect opt s acts s' \<Longrightarrow> length acts > 0"
  by (erule pop3_effect.cases) auto

lemma indexOf_split: "indexOf x xs = Some i \<Longrightarrow> xs = take i xs @ x # drop (i + 1) xs \<and> x \<notin> set (take i xs)"
proof (induction xs arbitrary: i)
  case (Cons y ys)
  then show ?case by (auto split: if_splits)
qed simp

lemma step_answers:
  assumes "pop3_wf opt s" "pop3_step c opt rnd s = (s1, acts, b)"
  shows "count_list (p3_buffer s) LF \<le> count_list (p3_buffer s1) LF + length acts"
  using assms(2)
proof (cases rule: pop3_step_cases)
  case (whole_line i)
  let ?t = "s\<lparr>p3_buffer := drop (i + 1) (p3_buffer s)\<rparr>"
  have e: "pop3_effect opt ?t acts s1"
    using assms(1) whole_line(3) by (intro pop3_line_effect) (auto simp: pop3_wf_def)
  have "count_list (p3_buffer s) LF = Suc (count_list (drop (i + 1) (p3_buffer s)) LF)"
    using arg_cong [OF conjunct1 [OF indexOf_split [OF whole_line(2)]], of "\<lambda>xs. count_list xs LF"]
      conjunct2 [OF indexOf_split [OF whole_line(2)]] by (simp add: count_notin)
  then show ?thesis using effect_buffer [OF e] effect_answers [OF e] by (cases acts) simp_all
qed simp

lemma drainLoop_answers:
  assumes "pop3_drainLoop c opt rnd s = (s', acts)" "pop3_wf opt s"
  shows "count_list (p3_buffer s) LF \<le> count_list (p3_buffer s') LF + length acts"
proof -
  have "pop3_wf opt s \<longrightarrow> pop3_wf opt s' \<and> count_list (p3_buffer s) LF \<le> count_list (p3_buffer s') LF + length acts"
    using assms(1)
  proof (rule pop3.loop_rel)
    fix s s1 :: "'a pop3" and a b
    assume "\<not> pop3_stopped s" "pop3_step c opt rnd s = (s1, a, b)"
    then show "pop3_wf opt s \<longrightarrow> pop3_wf opt s1 \<and> count_list (p3_buffer s) LF \<le> count_list (p3_buffer s1) LF + length a"
      using step_answers pop3_wf.step_kept by blast
  qed auto
  with assms(2) show ?thesis by blast
qed

lemma drainLoop_end:
  assumes "pop3_drainLoop c opt rnd s = (s', acts)"
  shows "pop3_stopped s' \<or> LF \<notin> set (p3_buffer s')"
  using pop3.loop_end [OF assms]
proof (elim disjE exE conjE)
  fix t a assume "pop3_step c opt rnd t = (s', a, False)"
  then show ?thesis by (cases rule: pop3_step_cases) (auto simp: find_index_None_iff)
qed simp


section \<open>A session that runs\<close>

fun pop3_run ::
  "crypto \<Rightarrow> pop3_options \<Rightarrow> 'r pop3_input list \<Rightarrow> 'r pop3 \<times> 'r pop3_action list \<Rightarrow> ('r pop3 \<times> 'r pop3_action list) option" where
  "pop3_run c opt [] sa = Some sa"
| "pop3_run c opt (i # is) sa =
     (case pop3_call c opt [] i (fst sa) of
        Inl _ \<Rightarrow> None
      | Inr r \<Rightarrow> pop3_run c opt is (fst r, snd sa @ snd r))"

lemma pop3_run_session:
  "pop3_session c opt allowed (fst sa) (snd sa) \<Longrightarrow> list_all allowed is \<Longrightarrow> pop3_run c opt is sa = Some (s, acts) \<Longrightarrow>
     pop3_session c opt allowed s acts"
proof (induction c opt "is" sa rule: pop3_run.induct)
  case (2 c opt i "is" sa)
  from "2.prems"(3) obtain r where r: "pop3_call c opt [] i (fst sa) = Inr r"
      "pop3_run c opt is (fst r, snd sa @ snd r) = Some (s, acts)"
    by (auto split: sum.splits)
  then have "pop3_session c opt allowed (fst r) (snd sa @ snd r)"
    using "2.prems"(2) by (intro pop3_session.call [OF "2.prems"(1)]) simp_all
  with "2.IH" r "2.prems"(2) show ?case by simp
qed simp

definition pop3_demo_opt :: "bool \<Rightarrow> pop3_options" where
  "pop3_demo_opt sec = \<lparr>po_hostname = ''h'', po_secure = sec, po_tlsAvailable = True, po_scramOffered = True,
     po_scramDecoySecret = [], po_allowInsecureAuth = False\<rparr>"

definition pop3_demo_message :: "nat \<Rightarrow> nat pop3_message" where
  "pop3_demo_message n = \<lparr>pm_uidl = show_nat n, pm_sizeBytes = 10 * n, pm_ref = n\<rparr>"

definition pop3_demo :: "nat pop3_input list" where
  "pop3_demo =
     [P3Feed (''USER a'' @ CRLF @ ''PASS b'' @ CRLF @ ''DELE 2'' @ CRLF @ ''QUIT'' @ CRLF), P3Auth (Some ''id''),
      P3Open (Some [pop3_demo_message 1, pop3_demo_message 2])]"

lemma pop3_demo_ok:
  "\<exists>s acts. pop3_session toy_crypto (pop3_demo_opt True) (\<lambda>_. True) s acts \<and> p3_commits acts = [[pop3_demo_message 2]]"
proof -
  have "case pop3_run toy_crypto (pop3_demo_opt True) pop3_demo (pop3_new (pop3_demo_opt True), []) of
      Some r \<Rightarrow> p3_commits (snd r) = [[pop3_demo_message 2]] | None \<Rightarrow> False"
    by code_simp
  then obtain s acts where "pop3_run toy_crypto (pop3_demo_opt True) pop3_demo (pop3_new (pop3_demo_opt True), []) = Some (s, acts)"
      "p3_commits acts = [[pop3_demo_message 2]]"
    by (auto split: option.splits)
  moreover have "pop3_session toy_crypto (pop3_demo_opt True) (\<lambda>_. True) (pop3_new (pop3_demo_opt True)) []" by (rule pop3_session.start)
  moreover have "list_all (\<lambda>_. True) pop3_demo" by (simp add: list_all_iff)
  ultimately show ?thesis
    using pop3_run_session [of toy_crypto "pop3_demo_opt True" "\<lambda>_. True" "(pop3_new (pop3_demo_opt True), [])" pop3_demo]
    by fastforce
qed

section \<open>Properties\<close>

text \<open>C10: POP3 refines the maildrop of RFC 1939. Whatever a session does, there is a run of the
  abstract maildrop, which can only be opened once, marked, unmarked and committed, that ends in a
  state the engine's state represents, and that commits exactly what the engine asks the backend to
  delete. And while the engine takes commands on an open maildrop, every line acts on the maildrop as
  RFC 1939 says: DELE marks the message it names, RSET unmarks all, QUIT enters UPDATE, and no
  other line changes it.\<close>

theorem pop3_refines_maildrop:
  assumes "pop3_session c opt allowed s acts"
  shows "(\<exists>es a. md_run es a \<and> pop3_sim s a \<and> md_commits es = p3_commits acts) \<and>
    (p3_state s = P3_TRANSACTION \<and> p3_pending s = None \<longrightarrow>
      maildrop_of (fst (pop3_line c opt rnd line s)) = md_command (pop3_verb (trim line)) (maildrop_of s))"
  using pop3_maildrop.session_kept [OF assms] pop3_line_refines [of opt s c rnd line]
  unfolding follows_maildrop_def by blast

theorem pop3_refines_maildrop_witness:
  "\<exists>s es (a :: nat maildrop). md_run es a \<and> pop3_sim s a \<and> md_commits es = [[pop3_demo_message 2]] \<and>
     (p3_state s = P3_TRANSACTION \<and> p3_pending s = None \<longrightarrow>
       maildrop_of (fst (pop3_line toy_crypto (pop3_demo_opt True) [] ''RSET'' s)) =
       md_command (pop3_verb (trim ''RSET'')) (maildrop_of s))"
proof -
  obtain s acts where d: "pop3_session toy_crypto (pop3_demo_opt True) (\<lambda>_. True) s acts"
      "p3_commits acts = [[pop3_demo_message 2]]"
    using pop3_demo_ok by blast
  show ?thesis using pop3_refines_maildrop [OF d(1), of "[]" "''RSET''"] d(2) by metis
qed

text \<open>C11: POP3 deletion. A session asks for deletions at most once; the request names, in order, the
  messages that are marked in the state, and afterwards the marks no longer change: the engine only
  waits for the commit or is closed.\<close>

theorem pop3_deletes_marked_once:
  assumes "pop3_session c opt allowed s acts" "P3_commitDeletions dels \<in> set acts"
  shows "p3_commits acts = [dels] \<and> dels = map sm_message (filter sm_deleted (p3_messages s)) \<and>
    (p3_pending s = Some PP_commit \<or> p3_pending s = None \<and> p3_closed s)"
proof -
  have "dels \<in> set (p3_commits acts)" using assms(2) by (induction acts rule: p3_commits.induct) auto
  moreover have "follows_maildrop s acts" "numbers_ok (p3_messages s)"
    using pop3_maildrop.session_kept [OF assms(1)] by (simp_all add: pop3_wf_def)
  ultimately show ?thesis using follows_commits [of s acts] by auto
qed

theorem pop3_deletes_marked_once_witness:
  "\<exists>s acts. pop3_session toy_crypto (pop3_demo_opt True) (\<lambda>_. True) s acts \<and>
     P3_commitDeletions [pop3_demo_message 2] \<in> set acts \<and> (p3_pending s = Some PP_commit \<or> p3_pending s = None \<and> p3_closed s)"
proof -
  obtain s acts where d: "pop3_session toy_crypto (pop3_demo_opt True) (\<lambda>_. True) s acts"
      "p3_commits acts = [[pop3_demo_message 2]]"
    using pop3_demo_ok by blast
  have "P3_commitDeletions x \<in> set as \<longleftrightarrow> x \<in> set (p3_commits as)" for x :: "nat pop3_message list" and as
    by (induction as rule: p3_commits.induct) auto
  then have m: "P3_commitDeletions [pop3_demo_message 2] \<in> set acts" using d(2) by simp
  show ?thesis using d(1) m pop3_deletes_marked_once [OF d(1) m] by blast
qed

text \<open>POP3 before TLS. On a connection that is not encrypted and not exempted, as long as TLS is
  not established, the engine emits only replies, TLS requests and closings, whatever the client
  sends: no credentials reach the backend, and no maildrop is opened.\<close>

lemma pop3_no_plaintext_auth:
  assumes "pop3_session c opt (\<lambda>i. i \<noteq> P3Tls) s acts" "\<not> po_secure opt" "\<not> po_allowInsecureAuth opt"
  shows "list_all before_tls acts \<and> p3_state s = P3_AUTHORIZATION \<and> p3_username s = None"
  using pop3_plain.session_kept [OF assms(1)] assms(2,3) by (auto simp: plain_state_def)

text \<open>POP3 buffer bound. In every session, an open engine buffers at most
  \<open>MAX_PIPELINE_PENDING_BYTES\<close> while it waits for the backend, and at most \<open>MAX_COMMAND_LINE\<close> when it
  waits for the client.\<close>

lemma pop3_buffer_bound:
  assumes "pop3_session c opt allowed s acts" "\<not> p3_closed s"
  shows "length (p3_buffer s) \<le> (if p3_pending s = None then MAX_COMMAND_LINE else MAX_PIPELINE_PENDING_BYTES)"
  using session_buffer_ok [OF assms(1)] assms(2) by (simp add: p3_buffer_ok_def)

text \<open>C12: POP3 answers. When the loop over the buffered lines ends, the engine waits for the backend,
  is closed, or holds no complete line; and every line it took off the buffer is answered by at
  least one action.\<close>

theorem pop3_lines_answered:
  assumes "pop3_wf opt s" "pop3_drainLoop c opt rnd s = (s', acts)"
  shows "(p3_pending s' \<noteq> None \<or> p3_closed s' \<or> LF \<notin> set (p3_buffer s')) \<and>
    count_list (p3_buffer s) LF \<le> count_list (p3_buffer s') LF + length acts"
  using drainLoop_answers [OF assms(2,1)] drainLoop_end [OF assms(2)] by (auto simp: pop3_stopped_def)

theorem pop3_lines_answered_witness:
  "\<exists>s' acts. pop3_drainLoop toy_crypto (pop3_demo_opt True) []
     ((pop3_new (pop3_demo_opt True) :: nat pop3)\<lparr>p3_buffer := ''CAPA'' @ CRLF\<rparr>) = (s', acts) \<and>
     1 \<le> count_list (p3_buffer s') LF + length acts"
proof -
  let ?s = "(pop3_new (pop3_demo_opt True) :: nat pop3)\<lparr>p3_buffer := ''CAPA'' @ CRLF\<rparr>"
  obtain s' acts where l: "pop3_drainLoop toy_crypto (pop3_demo_opt True) [] ?s = (s', acts)" by force
  moreover have "pop3_wf (pop3_demo_opt True) ?s" by (simp add: pop3_wf_def pop3_new_def)
  ultimately show ?thesis using pop3_lines_answered [of "pop3_demo_opt True" ?s] by fastforce
qed

end
