(* ===== verification/Pop3Content.thy ===== *)
theory Pop3Content
  imports Pop3Session
begin

text \<open>
  What POP3 transfers: RETR and TOP send the lines of the message so that a client reads them back,
  and what STLS keeps of the plaintext connection.
\<close>

section \<open>Lines of a message\<close>

lemma stuffLine_stuff: "stuffLine l = stuff l"
  by (cases l) (simp_all add: stuffLine_def stuff_def)

lemma buildMultilineBinary_wire: "buildMultilineBinary st ls = st @ CRLF @ wire ls @ END_MARK"
  by (simp add: buildMultilineBinary_def utf8Encode_def stuffLine_stuff wire_def TERMINATOR_def)

lemma splitLines_loop_no_LF: "LF \<notin> set cur \<Longrightarrow> l \<in> set (splitLines_loop cur bs) \<Longrightarrow> LF \<notin> set l"
proof (induction cur bs rule: splitLines_loop.induct)
  case (2 cur b bs)
  then show ?case by (auto split: if_splits dest: in_set_butlastD)
qed (auto split: if_splits)

lemma no_LF_no_CRLF: "LF \<notin> set l \<Longrightarrow> sub_index CRLF l = None"
  by (induction l) (auto simp: startsWith_iff Cons_eq_append_conv)

lemma splitLines_no_CRLF: "\<forall>l \<in> set (splitLines bs). sub_index CRLF l = None"
  using splitLines_loop_no_LF [of "[]"] no_LF_no_CRLF by (auto simp: splitLines_def)

lemma splitLines_loop_line:
  "LF \<notin> set l \<Longrightarrow> splitLines_loop cur (l @ CR # LF # r) = (cur @ l) # splitLines_loop [] r"
  by (induction l arbitrary: cur) auto

lemma splitLines_content: "\<forall>l \<in> set ls. LF \<notin> set l \<Longrightarrow> splitLines (content ls) = ls"
  by (induction ls) (simp_all add: splitLines_def splitLines_loop_line)

text \<open>C13: RETR round trip. The reply to a retrieved message is the status line and a body from which
  a client reads back exactly the lines of the message, whatever bytes it has; a message whose
  lines all end in CRLF is recovered byte for byte.\<close>

theorem pop3_retr_roundtrip:
  assumes "p3_pending s = Some (PP_retr n)" "List.find (\<lambda>m. sm_msgnum m = n) (p3_messages s) = Some m"
    and "retrieveResult c opt rnd (Some bs) s = Inr (s', out)"
  shows "\<exists>body rest. out = P3_replyBinary (''+OK '' @ show_nat (pm_sizeBytes (sm_message m)) @ '' octets'' @ CRLF @ body) # rest \<and>
    client_read body = Some (splitLines bs, []) \<and>
    (\<forall>ls. (\<forall>l \<in> set ls. LF \<notin> set l) \<longrightarrow> bs = content ls \<longrightarrow> content (splitLines bs) = bs)"
proof -
  let ?body = "wire (splitLines bs) @ END_MARK"
  obtain rest where "out = P3_replyBinary (buildMultilineBinary
      (''+OK '' @ show_nat (pm_sizeBytes (sm_message m)) @ '' octets'') (splitLines bs)) # rest"
    using assms by (auto simp: retrieveResult_def retrieveReply_def thenDrain_def split: prod.splits)
  then have "out = P3_replyBinary (''+OK '' @ show_nat (pm_sizeBytes (sm_message m)) @ '' octets'' @ CRLF @ ?body) # rest"
    by (simp add: buildMultilineBinary_wire)
  moreover have "client_read ?body = Some (splitLines bs, [])"
    using client_read_wire [OF splitLines_no_CRLF [of bs], of "[]"] by simp
  moreover have "\<forall>ls. (\<forall>l \<in> set ls. LF \<notin> set l) \<longrightarrow> bs = content ls \<longrightarrow> content (splitLines bs) = bs"
    by (simp add: splitLines_content)
  ultimately show ?thesis by blast
qed

definition pop3_retr_state :: "pop3_pending \<Rightarrow> nat pop3" where
  "pop3_retr_state p = (pop3_new (pop3_demo_opt True))\<lparr>p3_state := P3_TRANSACTION, p3_pending := Some p,
     p3_messages := numbered 0 [pop3_demo_message 1]\<rparr>"

theorem pop3_retr_roundtrip_witness:
  "\<exists>s' out body rest. retrieveResult toy_crypto (pop3_demo_opt True) [] (Some (''.a'' @ CRLF)) (pop3_retr_state (PP_retr 1)) =
       Inr (s', P3_replyBinary (''+OK 10 octets'' @ CRLF @ body) # rest) \<and> client_read body = Some ([''.a''], [])"
proof -
  let ?s = "pop3_retr_state (PP_retr 1)"
  obtain s' out where r: "retrieveResult toy_crypto (pop3_demo_opt True) [] (Some (''.a'' @ CRLF)) ?s = Inr (s', out)"
    by (force simp: retrieveResult_def pop3_retr_state_def)
  have f: "List.find (\<lambda>m. sm_msgnum m = 1) (p3_messages ?s) =
      Some \<lparr>sm_message = pop3_demo_message 1, sm_msgnum = 1, sm_deleted = False\<rparr>"
    by (simp add: pop3_retr_state_def)
  have "show_nat (pm_sizeBytes (pop3_demo_message 1)) = ''10''" "splitLines (''.a'' @ CRLF) = [''.a'']"
    by code_simp+
  then show ?thesis
    using pop3_retr_roundtrip [OF _ f r] r by (auto simp: pop3_retr_state_def)
qed

text \<open>TOP. Of a message whose first empty line separates header and body, the client reads back
  the header, the empty line and the requested number of body lines.\<close>

lemma pop3_top_lines:
  assumes "p3_pending s = Some (PP_top n k)" "List.find (\<lambda>m. sm_msgnum m = n) (p3_messages s) = Some m"
    and "retrieveResult c opt rnd (Some bs) s = Inr (s', out)"
    and "splitLines bs = hs @ [] # body" "[] \<notin> set hs"
  shows "\<exists>reply rest. out = P3_replyBinary (''+OK top of message follows'' @ CRLF @ reply) # rest \<and>
    client_read reply = Some (hs @ [] # take k body, [])"
proof -
  let ?ls = "hs @ [] # take k body"
  have "find_index (\<lambda>l. length l = 0) (splitLines bs) = Some (length hs)"
    using assms(4,5) by (auto intro: find_index_append_first)
  then have t: "buildTopBytes bs k = ''+OK top of message follows'' @ CRLF @ wire ?ls @ END_MARK"
    using assms(4) by (simp add: buildTopBytes_def buildMultilineBinary_wire Prelude.slice_def Let_def)
  obtain rest where "out = P3_replyBinary (buildTopBytes bs k) # rest"
    using assms(1-3) by (auto simp: retrieveResult_def retrieveReply_def thenDrain_def split: prod.splits)
  moreover have "\<forall>l \<in> set ?ls. sub_index CRLF l = None"
    using splitLines_no_CRLF [of bs] assms(4) by (auto dest: in_set_takeD)
  then have "client_read (wire ?ls @ END_MARK) = Some (?ls, [])"
    using client_read_wire [of ?ls "[]"] by simp
  ultimately show ?thesis using t by blast
qed

section \<open>STLS\<close>

lemma stls_line:
  assumes "\<not> p3_secure s" "po_tlsAvailable opt" "p3_state s = P3_AUTHORIZATION" "p3_awaitingSasl s = None"
  shows "pop3_line c opt rnd ''STLS'' s =
    (s\<lparr>p3_awaitingTls := True\<rparr>, [P3_reply ''+OK Begin TLS negotiation'', P3_startTls])"
proof -
  have "trim ''STLS'' = ''STLS''" "pop3_verb ''STLS'' = (''STLS'', [])" by code_simp+
  then show ?thesis
    using assms by (simp add: pop3_line_def pop3_handleLine_def pop3_dispatch_def cmdStls_def starttlsOffered_def)
qed

text \<open>STLS keeps plaintext. Bytes that arrive in the same segment after the STLS line are not
  discarded: what follows it without a line end stays in the buffer through the TLS handshake, and
  the first bytes received under TLS are handled as if those plaintext bytes had been received
  under TLS before them.\<close>

lemma pop3_stls_keeps_plaintext:
  assumes "\<not> p3_secure s" "po_tlsAvailable opt" "p3_state s = P3_AUTHORIZATION" "p3_awaitingSasl s = None"
    and "p3_pending s = None" "\<not> p3_closed s" "\<not> p3_awaitingTls s" "p3_buffer s = []"
    and "LF \<notin> set x" "length x \<le> MAX_COMMAND_LINE"
  shows "\<exists>s1. pop3_feed c opt rnd (''STLS'' @ CRLF @ x) s = (s1, [P3_reply ''+OK Begin TLS negotiation'', P3_startTls]) \<and>
    pop3_feed c opt rnd y (tlsEstablished s1) = pop3_feed c opt rnd (x @ y) (tlsEstablished (s1\<lparr>p3_buffer := []\<rparr>))"
proof -
  let ?out = "[P3_reply ''+OK Begin TLS negotiation'', P3_startTls] :: 'a pop3_action list"
  let ?t = "s\<lparr>p3_buffer := ''STLS'' @ CRLF @ x\<rparr>" and ?u = "s\<lparr>p3_buffer := x, p3_awaitingTls := True\<rparr>"
  have "indexOf LF (''STLS'' @ CRLF @ x) = Some 5" by simp
  moreover have "chompCR (''STLS'' @ [CR]) = ''STLS''" by (simp add: chompCR_def endsWith_def)
  ultimately have "pop3_step c opt rnd ?t = (?u, ?out, True)"
    using stls_line [of "s\<lparr>p3_buffer := x\<rparr>" opt c rnd] assms by (simp add: pop3_step_def numeral_eq_Suc)
  moreover have "pop3_step c opt rnd ?u = (?u, [], False)"
  proof -
    have "indexOf LF x = None" using assms(9) by (auto simp: find_index_None_iff)
    then show ?thesis by (simp add: pop3_step_def)
  qed
  ultimately have l: "pop3_drainLoop c opt rnd ?t = (?u, ?out)"
    using pop3.loop_pass [of ?t c opt rnd ?u ?out] pop3.loop_last [of ?u c opt rnd ?u "[]"] assms(5,6)
    by (simp add: pop3_stopped_def)
  have "pop3_feed c opt rnd (''STLS'' @ CRLF @ x) s = drain c opt rnd ?t"
    using assms by (simp add: pop3_feed_def utf8Decode_def)
  also have "\<dots> = (?u, ?out)" unfolding drain_def l using assms by (simp add: guardBuffer_def)
  finally have "pop3_feed c opt rnd (''STLS'' @ CRLF @ x) s = (?u, ?out)" .
  moreover have "pop3_feed c opt rnd y (tlsEstablished ?u) = pop3_feed c opt rnd (x @ y) (tlsEstablished (?u\<lparr>p3_buffer := []\<rparr>))"
    using assms(6) by (simp add: pop3_feed_def tlsEstablished_def utf8Decode_def)
  ultimately show ?thesis by blast
qed

end
