(* ===== verification/SequenceSet.thy ===== *)
theory SequenceSet
  imports Prelude
begin

text \<open>
  IMAP sequence sets (\<open>proto-imap/src/sequence-set.ts\<close>): parsing, membership, the compact form of a
  UID list and the normalised intervals for store queries. \<open>Number\<close> rounds numbers above
  \<open>2^53 - 1\<close> to values that are not safe integers either, so the check on the exact value is the
  check of the code.

  Shown: the normalised intervals are sorted, disjoint and not adjacent, and hold exactly the
  members of the set; the compact form of a UID list parses, to a set with exactly its elements.
\<close>

section \<open>Operations\<close>

datatype seq_number = SeqNum nat | SeqStar

record seq_range =
  sr_from :: seq_number
  sr_to :: seq_number

definition parseSeqNumber :: "string \<Rightarrow> seq_number option" where
  "parseSeqNumber s =
     (if s = ''*'' then Some SeqStar
      else if \<not> (all_digits s \<and> hd s \<noteq> CHR ''0'') then None
      else let n = digits_value s in if n \<le> MAX_SAFE_INTEGER then Some (SeqNum n) else None)"

definition parseSeqPart :: "string \<Rightarrow> seq_range option" where
  "parseSeqPart part =
     (case indexOf CHR '':'' part of
        None \<Rightarrow> (case parseSeqNumber part of None \<Rightarrow> None | Some n \<Rightarrow> Some \<lparr>sr_from = n, sr_to = n\<rparr>)
      | Some colon \<Rightarrow>
          (case (parseSeqNumber (take colon part), parseSeqNumber (drop (colon + 1) part)) of
             (Some f, Some t) \<Rightarrow> Some \<lparr>sr_from = f, sr_to = t\<rparr>
           | _ \<Rightarrow> None))"

fun parseSeqParts :: "string list \<Rightarrow> seq_range list option" where
  "parseSeqParts [] = Some []"
| "parseSeqParts (p # ps) =
     (case parseSeqPart p of
        None \<Rightarrow> None
      | Some r \<Rightarrow> (case parseSeqParts ps of None \<Rightarrow> None | Some rs \<Rightarrow> Some (r # rs)))"

definition parseSequenceSet :: "string \<Rightarrow> seq_range list option" where
  "parseSequenceSet input = (if length input = 0 then None else parseSeqParts (split_char CHR '','' input))"

fun resolve :: "seq_number \<Rightarrow> nat \<Rightarrow> nat" where
  "resolve SeqStar mx = mx"
| "resolve (SeqNum n) mx = n"

text \<open>The bounds after \<open>if (lo > hi) [lo, hi] = [hi, lo]\<close>.\<close>

definition rangeBounds :: "seq_range \<Rightarrow> nat \<Rightarrow> nat \<times> nat" where
  "rangeBounds r mx =
     (let lo = resolve (sr_from r) mx; hi = resolve (sr_to r) mx in if lo > hi then (hi, lo) else (lo, hi))"

fun matchSequenceSet :: "seq_range list \<Rightarrow> nat \<Rightarrow> nat \<Rightarrow> bool" where
  "matchSequenceSet [] v mx = False"
| "matchSequenceSet (r # rs) v mx =
     (let (lo, hi) = rangeBounds r mx in if v \<ge> lo \<and> v \<le> hi then True else matchSequenceSet rs v mx)"

text \<open>The inner loop of \<open>formatUidSet\<close>: the end of the run that starts here, and what follows it.\<close>

fun takeRun :: "nat \<Rightarrow> nat list \<Rightarrow> nat \<times> nat list" where
  "takeRun y [] = (y, [])"
| "takeRun y (z # zs) = (if z = y + 1 then takeRun z zs else (y, z # zs))"

lemma takeRun_length: "length (snd (takeRun y zs)) \<le> length zs"
  by (induction y zs rule: takeRun.induct) auto

function formatRuns :: "nat list \<Rightarrow> string list" where
  "formatRuns [] = []"
| "formatRuns (x # xs) =
     (let (y, rest) = takeRun x xs in
      (if x = y then show_nat x else show_nat x @ '':'' @ show_nat y) # formatRuns rest)"
  by pat_completeness auto
termination
proof (relation "measure length", goal_cases)
  case (2 x xs z y rest)
  then have "rest = snd (takeRun x xs)" by (metis snd_conv)
  then show ?case using takeRun_length [of x xs] by simp
qed simp

definition formatUidSet :: "nat list \<Rightarrow> string" where
  "formatUidSet uids = join '','' (formatRuns (sort (remdups uids)))"

fun resolveRanges :: "seq_range list \<Rightarrow> nat \<Rightarrow> (nat \<times> nat) list" where
  "resolveRanges [] mx = []"
| "resolveRanges (r # rs) mx =
     (let (lo, hi) = rangeBounds r mx in
      if hi < 1 \<or> mx < 1 \<and> (sr_from r = SeqStar \<or> sr_to r = SeqStar) then resolveRanges rs mx
      else (max 1 lo, hi) # resolveRanges rs mx)"

definition mergeRange :: "(nat \<times> nat) list \<Rightarrow> nat \<times> nat \<Rightarrow> (nat \<times> nat) list" where
  "mergeRange merged r =
     (if merged \<noteq> [] \<and> fst r \<le> snd (last merged) + 1
      then butlast merged @ [(fst (last merged), max (snd (last merged)) (snd r))]
      else merged @ [r])"

definition normalizeRanges :: "seq_range list \<Rightarrow> nat \<Rightarrow> (nat \<times> nat) list" where
  "normalizeRanges ranges mx = foldl mergeRange [] (sort_key fst (resolveRanges ranges mx))"

section \<open>Intervals\<close>

definition covers :: "(nat \<times> nat) list \<Rightarrow> nat \<Rightarrow> bool" where
  "covers ivs v \<longleftrightarrow> (\<exists>(lo, hi) \<in> set ivs. lo \<le> v \<and> v \<le> hi)"

lemma covers_simps [simp]:
  "\<not> covers [] v" "covers (p # ps) v \<longleftrightarrow> fst p \<le> v \<and> v \<le> snd p \<or> covers ps v"
  "covers (a @ b) v \<longleftrightarrow> covers a v \<or> covers b v"
  by (auto simp: covers_def)

lemma resolveRanges_covers:
  assumes "1 \<le> mx" "1 \<le> v"
  shows "covers (resolveRanges rs mx) v \<longleftrightarrow> matchSequenceSet rs v mx"
proof (induction rs)
  case (Cons r rs)
  then show ?case using assms by (auto simp: split_beta Let_def)
qed simp

lemma resolveRanges_ordered: "(lo, hi) \<in> set (resolveRanges rs mx) \<Longrightarrow> 1 \<le> lo \<and> lo \<le> hi"
proof (induction rs)
  case (Cons r rs)
  have "fst (rangeBounds r mx) \<le> snd (rangeBounds r mx)" by (simp add: rangeBounds_def Let_def)
  with Cons show ?case by (auto simp: split_beta Let_def split: if_splits)
qed simp

text \<open>What merging keeps: the intervals so far are ordered and separated, and what is still to come starts no earlier than the last one.\<close>

definition separated :: "(nat \<times> nat) list \<Rightarrow> bool" where
  "separated ivs \<longleftrightarrow> sorted_wrt (\<lambda>a b. snd a + 1 < fst b) ivs \<and> list_all (\<lambda>p. 1 \<le> fst p \<and> fst p \<le> snd p) ivs"

lemma separated_snoc:
  "separated (ivs @ [p]) \<longleftrightarrow> separated ivs \<and> (\<forall>q \<in> set ivs. snd q + 1 < fst p) \<and> 1 \<le> fst p \<and> fst p \<le> snd p"
  by (auto simp: separated_def sorted_wrt_append list_all_iff)

lemma separated_last:
  assumes "separated (ivs @ [p])" "q \<in> set ivs"
  shows "snd q + 1 < fst p"
  using assms by (simp add: separated_snoc)

lemma mergeRange_step:
  assumes "separated m" "m \<noteq> [] \<Longrightarrow> fst (last m) \<le> fst r" "1 \<le> fst r" "fst r \<le> snd r"
  shows "separated (mergeRange m r) \<and> (covers (mergeRange m r) v \<longleftrightarrow> covers (m @ [r]) v) \<and>
    fst (last (mergeRange m r)) \<le> fst r \<and> mergeRange m r \<noteq> []"
proof (cases m rule: rev_cases)
  case Nil
  then show ?thesis using assms by (simp add: mergeRange_def separated_def)
next
  case (snoc ivs p)
  show ?thesis
  proof (cases "fst r \<le> snd p + 1")
    case True
    then show ?thesis using assms snoc by (auto simp: mergeRange_def separated_snoc)
  next
    case False
    have "\<forall>q \<in> set ivs. snd q + 1 < fst r"
      using assms(1,2) snoc by (fastforce simp: separated_snoc)
    with False show ?thesis
      using assms snoc separated_snoc [of "ivs @ [p]" r] by (auto simp: mergeRange_def)
  qed
qed

lemma merge_all:
  assumes "separated m" "sorted (map fst rs)" "\<forall>p \<in> set rs. 1 \<le> fst p \<and> fst p \<le> snd p"
    and "\<forall>p \<in> set rs. m \<noteq> [] \<longrightarrow> fst (last m) \<le> fst p"
  shows "separated (foldl mergeRange m rs) \<and> (covers (foldl mergeRange m rs) v \<longleftrightarrow> covers (m @ rs) v)"
  using assms
proof (induction rs arbitrary: m)
  case (Cons r rs)
  note s = mergeRange_step [of m r v]
  have "separated (mergeRange m r)" "covers (mergeRange m r) v = covers (m @ [r]) v"
      "fst (last (mergeRange m r)) \<le> fst r"
    using s Cons.prems by auto
  moreover have "\<forall>p \<in> set rs. fst r \<le> fst p" using Cons.prems(2) by simp
  ultimately have "separated (foldl mergeRange (mergeRange m r) rs)"
      "covers (foldl mergeRange (mergeRange m r) rs) v = covers (mergeRange m r @ rs) v"
    using Cons.IH [of "mergeRange m r"] Cons.prems by force+
  then show ?case using \<open>covers (mergeRange m r) v = covers (m @ [r]) v\<close> by simp
qed simp

text \<open>Normalised ranges. The intervals that \<open>normalizeRanges\<close> gives to store queries are in
  ascending order, disjoint and not even adjacent, each with \<open>1 \<le> lo \<le> hi\<close>; and in a mailbox that is
  not empty they hold exactly the numbers that the set matches.\<close>

lemma normalizeRanges_correct:
  "separated (normalizeRanges rs mx) \<and>
   (1 \<le> mx \<longrightarrow> 1 \<le> v \<longrightarrow> (covers (normalizeRanges rs mx) v \<longleftrightarrow> matchSequenceSet rs v mx))"
proof -
  let ?rs = "sort_key fst (resolveRanges rs mx)"
  have "\<forall>p \<in> set ?rs. 1 \<le> fst p \<and> fst p \<le> snd p"
    using resolveRanges_ordered [of _ _ rs mx] by (metis prod.collapse set_sort)
  then have "separated (foldl mergeRange [] ?rs) \<and> (covers (foldl mergeRange [] ?rs) v \<longleftrightarrow> covers ([] @ ?rs) v)"
    by (intro merge_all) (simp_all add: separated_def)
  moreover have "covers ?rs v = covers (resolveRanges rs mx) v" by (simp add: covers_def)
  ultimately show ?thesis using resolveRanges_covers [of mx v rs] by (simp add: normalizeRanges_def)
qed

section \<open>The compact form\<close>

lemma hd_show_nat: "1 \<le> n \<Longrightarrow> hd (show_nat n) \<noteq> CHR ''0''"
proof (induction n rule: show_nat.induct)
  case (1 n)
  show ?case
  proof (cases "n < 10")
    case True
    then have "code (char_of (48 + n)) \<noteq> code CHR ''0''" using 1 by simp
    then have "char_of (48 + n) \<noteq> CHR ''0''" by (metis (no_types))
    with True show ?thesis by (subst show_nat.simps) simp
  next
    case False
    with 1 show ?thesis by (subst show_nat.simps) (simp add: hd_append)
  qed
qed

lemma parse_show [simp]:
  assumes "1 \<le> n" "n \<le> MAX_SAFE_INTEGER"
  shows "parseSeqNumber (show_nat n) = Some (SeqNum n)"
proof -
  have "show_nat n \<noteq> ''*''" using show_nat_no_char [of "CHR ''*''" n] by (auto simp: is_digit_def)
  then show ?thesis using assms hd_show_nat [of n] by (simp add: parseSeqNumber_def)
qed

text \<open>A run as text and as a range.\<close>

definition runText :: "nat \<Rightarrow> nat \<Rightarrow> string" where
  "runText x y = (if x = y then show_nat x else show_nat x @ '':'' @ show_nat y)"

lemma parse_run:
  assumes "1 \<le> x" "x \<le> y" "y \<le> MAX_SAFE_INTEGER"
  shows "parseSeqPart (runText x y) = Some \<lparr>sr_from = SeqNum x, sr_to = SeqNum y\<rparr>"
proof (cases "x = y")
  case True
  have "indexOf CHR '':'' (show_nat x) = None"
    using show_nat_no_char [of "CHR '':''" x] by (auto simp: find_index_None_iff is_digit_def)
  then show ?thesis using True assms by (simp add: parseSeqPart_def runText_def)
next
  case False
  have "indexOf CHR '':'' (show_nat x @ CHR '':'' # show_nat y) = Some (length (show_nat x))"
    using show_nat_no_char [of "CHR '':''" x] by (intro find_index_append_first) (auto simp: is_digit_def)
  then show ?thesis using False assms by (simp add: parseSeqPart_def runText_def)
qed

lemma runText_no_comma: "CHR '','' \<notin> set (runText x y)"
  using show_nat_no_char [of "CHR '',''"] by (auto simp: runText_def is_digit_def)

lemma takeRun_set:
  assumes "sorted_wrt (<) (x # xs)" "takeRun x xs = (y, rest)"
  shows "x \<le> y \<and> set (x # xs) = {x..y} \<union> set rest \<and> sorted_wrt (<) rest"
  using assms
proof (induction x xs rule: takeRun.induct)
  case (2 x z zs)
  show ?case
  proof (cases "z = x + 1")
    case True
    then have "z \<le> y \<and> set (z # zs) = {z..y} \<union> set rest \<and> sorted_wrt (<) rest"
      using 2 by (intro "2.IH") auto
    moreover have "{x..y} = insert x {x + 1..y}" if "x + 1 \<le> y" using that by auto
    ultimately show ?thesis using True by auto
  next
    case False
    with 2 show ?thesis by auto
  qed
qed auto

lemma formatRuns_parse:
  assumes "sorted_wrt (<) xs" "\<forall>x \<in> set xs. 1 \<le> x \<and> x \<le> MAX_SAFE_INTEGER"
  shows "(\<forall>w \<in> set (formatRuns xs). CHR '','' \<notin> set w) \<and> (xs \<noteq> [] \<longrightarrow> formatRuns xs \<noteq> []) \<and>
    (\<exists>rs. parseSeqParts (formatRuns xs) = Some rs \<and> (\<forall>v mx. matchSequenceSet rs v mx \<longleftrightarrow> v \<in> set xs))"
  using assms
proof (induction xs rule: formatRuns.induct)
  case (2 x xs)
  obtain y rest where t: "takeRun x xs = (y, rest)" by force
  note s = takeRun_set [OF "2.prems"(1) t]
  have y: "y \<in> set (x # xs)" "set rest \<subseteq> set (x # xs)" using s by auto
  have r: "1 \<le> x" "x \<le> y" "y \<le> MAX_SAFE_INTEGER" using s y "2.prems"(2) by auto
  obtain rs where rs: "parseSeqParts (formatRuns rest) = Some rs" "\<forall>v mx. matchSequenceSet rs v mx \<longleftrightarrow> v \<in> set rest"
      "\<forall>w \<in> set (formatRuns rest). CHR '','' \<notin> set w"
    using "2.IH" [OF t [symmetric] refl] s y "2.prems"(2) by blast
  have f: "formatRuns (x # xs) = runText x y # formatRuns rest" using t by (simp add: runText_def)
  let ?r = "\<lparr>sr_from = SeqNum x, sr_to = SeqNum y\<rparr>"
  have "parseSeqParts (formatRuns (x # xs)) = Some (?r # rs)" using f rs(1) parse_run [OF r] by simp
  moreover have "matchSequenceSet (?r # rs) v mx \<longleftrightarrow> v \<in> set (x # xs)" for v mx
    using s rs(2) by (auto simp: rangeBounds_def)
  ultimately show ?case using f rs(3) runText_no_comma by auto
qed simp

text \<open>Compact UID sets. The text that COPYUID and APPENDUID responses give for a list of UIDs, in
  any order and with repetitions, is a sequence set that parses and matches exactly those UIDs,
  whatever the highest UID of the mailbox.\<close>

lemma formatUidSet_roundtrip:
  assumes "uids \<noteq> []" "\<forall>u \<in> set uids. 1 \<le> u \<and> u \<le> MAX_SAFE_INTEGER"
  shows "\<exists>rs. parseSequenceSet (formatUidSet uids) = Some rs \<and> (\<forall>v mx. matchSequenceSet rs v mx \<longleftrightarrow> v \<in> set uids)"
proof -
  let ?xs = "sort (remdups uids)"
  have "set ?xs = set uids" by simp
  then have "?xs \<noteq> []" using assms(1) by fastforce
  moreover have "sorted_wrt (<) ?xs" by (simp add: strict_sorted_iff)
  ultimately obtain rs where rs: "parseSeqParts (formatRuns ?xs) = Some rs" "\<forall>v mx. matchSequenceSet rs v mx \<longleftrightarrow> v \<in> set ?xs"
      and w: "\<forall>w \<in> set (formatRuns ?xs). CHR '','' \<notin> set w" "formatRuns ?xs \<noteq> []"
    using formatRuns_parse [of ?xs] assms by auto
  have s: "split_char CHR '','' (formatUidSet uids) = formatRuns ?xs"
    unfolding formatUidSet_def using split_join [OF w(2), of "CHR '',''"] w(1) by simp
  have "formatUidSet uids \<noteq> []"
  proof
    assume "formatUidSet uids = []"
    then have "formatRuns ?xs = [[]]" using s by simp
    then show False using rs(1) by (simp add: parseSeqPart_def parseSeqNumber_def all_digits_def)
  qed
  then show ?thesis using rs s by (auto simp: parseSequenceSet_def)
qed

end
