(* ===== verification/MailboxRights.thy ===== *)
theory MailboxRights
  imports Prelude
begin

text \<open>
  Mailbox rights (\<open>core/src/rights.ts\<close>, RFC 4314). A JavaScript \<open>Set\<close> is a list without repetitions
  in insertion order; \<open>RangeError\<close> is \<open>Inl\<close>. Shown: what is written without the virtual rights
  parses back to the same rights, and what parsing adds when they are written.
\<close>

section \<open>Operations\<close>

definition STANDARD_MAILBOX_RIGHTS :: "char list" where
  "STANDARD_MAILBOX_RIGHTS = ''lrswipkxtea''"

definition expandRight :: "char \<Rightarrow> string + char list" where
  "expandRight right =
     (if right = CHR ''c'' then Inr ''kx''
      else if right = CHR ''d'' then Inr ''etx''
      else if right \<in> set STANDARD_MAILBOX_RIGHTS then Inr [right]
      else Inl ''RangeError'')"

text \<open>\<open>Set.add\<close>, one element after the other.\<close>

definition addRight :: "char list \<Rightarrow> char \<Rightarrow> char list" where
  "addRight rights r = (if r \<in> set rights then rights else rights @ [r])"

fun parseRightsLoop :: "char list \<Rightarrow> char list \<Rightarrow> string + char list" where
  "parseRightsLoop rights [] = Inr rights"
| "parseRightsLoop rights (c # cs) =
     (case expandRight c of
        Inl e \<Rightarrow> Inl e
      | Inr expanded \<Rightarrow> parseRightsLoop (foldl addRight rights expanded) cs)"

definition parseMailboxRights :: "string \<Rightarrow> string + char list" where
  "parseMailboxRights v = parseRightsLoop [] v"

definition combineMailboxRights :: "char list list \<Rightarrow> char list" where
  "combineMailboxRights rightsSets = foldl (foldl addRight) [] rightsSets"

definition formatMailboxRights :: "char list \<Rightarrow> bool \<Rightarrow> string" where
  "formatMailboxRights rights includeVirtual =
     filter (\<lambda>r. r \<in> set rights) STANDARD_MAILBOX_RIGHTS @
     (if includeVirtual
      then (if CHR ''k'' \<in> set rights \<or> CHR ''x'' \<in> set rights then ''c'' else []) @
           (if CHR ''e'' \<in> set rights \<or> CHR ''t'' \<in> set rights \<or> CHR ''x'' \<in> set rights then ''d'' else [])
      else [])"

datatype mailbox_operation =
  Op_lookup | Op_read | Op_seen | Op_write | Op_insert | Op_post | Op_create | Op_delete | Op_expunge | Op_admin

fun MAILBOX_OPERATION_RIGHT :: "mailbox_operation \<Rightarrow> char" where
  "MAILBOX_OPERATION_RIGHT Op_lookup = CHR ''l''"
| "MAILBOX_OPERATION_RIGHT Op_read = CHR ''r''"
| "MAILBOX_OPERATION_RIGHT Op_seen = CHR ''s''"
| "MAILBOX_OPERATION_RIGHT Op_write = CHR ''w''"
| "MAILBOX_OPERATION_RIGHT Op_insert = CHR ''i''"
| "MAILBOX_OPERATION_RIGHT Op_post = CHR ''p''"
| "MAILBOX_OPERATION_RIGHT Op_create = CHR ''k''"
| "MAILBOX_OPERATION_RIGHT Op_delete = CHR ''x''"
| "MAILBOX_OPERATION_RIGHT Op_expunge = CHR ''e''"
| "MAILBOX_OPERATION_RIGHT Op_admin = CHR ''a''"

section \<open>Sets\<close>

lemma addRight_set [simp]: "set (addRight rs r) = insert r (set rs)" "distinct rs \<Longrightarrow> distinct (addRight rs r)"
  by (auto simp: addRight_def)

lemma foldl_addRight [simp]:
  "set (foldl addRight rs xs) = set rs \<union> set xs" "distinct rs \<Longrightarrow> distinct (foldl addRight rs xs)"
  by (induction xs arbitrary: rs) auto

lemma combineMailboxRights_set: "set (combineMailboxRights ls) = \<Union> (set ` set ls)"
proof -
  have "set (foldl (foldl addRight) rs ls) = set rs \<union> \<Union> (set ` set ls)" for rs
    by (induction ls arbitrary: rs) auto
  then show ?thesis by (simp add: combineMailboxRights_def)
qed

text \<open>The rights a single character stands for.\<close>

definition expansion :: "char \<Rightarrow> char set" where
  "expansion c = (case expandRight c of Inl _ \<Rightarrow> {} | Inr xs \<Rightarrow> set xs)"

definition expands :: "char list \<Rightarrow> char set" where
  "expands cs = \<Union> (expansion ` set cs)"

lemma expands_simps [simp]:
  "expands [] = {}" "expands (c # cs) = expansion c \<union> expands cs" "expands (a @ b) = expands a \<union> expands b"
  by (auto simp: expands_def)

lemma parseRightsLoop_ok:
  "distinct rights \<Longrightarrow> \<forall>c \<in> set cs. \<exists>xs. expandRight c = Inr xs \<Longrightarrow>
     \<exists>rs. parseRightsLoop rights cs = Inr rs \<and> distinct rs \<and> set rs = set rights \<union> expands cs"
proof (induction cs arbitrary: rights)
  case (Cons c cs)
  then obtain xs where x: "expandRight c = Inr xs" by auto
  obtain rs where "parseRightsLoop (foldl addRight rights xs) cs = Inr rs" "distinct rs"
      "set rs = set (foldl addRight rights xs) \<union> expands cs"
    using Cons.IH [of "foldl addRight rights xs"] Cons.prems by auto
  then show ?case using x by (auto simp: expansion_def)
qed simp

lemma parseRightsLoop_error:
  "c \<in> set cs \<Longrightarrow> expandRight c = Inl e \<Longrightarrow> \<exists>e. parseRightsLoop rights cs = Inl e"
  by (induction cs arbitrary: rights) (auto split: sum.split)

lemma expandRight_standard: "r \<in> set STANDARD_MAILBOX_RIGHTS \<Longrightarrow> expandRight r = Inr [r]"
  by (auto simp: expandRight_def STANDARD_MAILBOX_RIGHTS_def)

text \<open>Rights round trip. Writing a set of standard rights and parsing the text gives the set back,
  without repetitions, when the virtual rights are left out; when they are written, parsing adds
  exactly what they stand for: creating and deleting mailboxes bring each other, and so do
  deleting messages, expunging and deleting the mailbox.\<close>

lemma formatMailboxRights_roundtrip:
  assumes "set rights \<subseteq> set STANDARD_MAILBOX_RIGHTS"
  shows "\<exists>rs. parseMailboxRights (formatMailboxRights rights virt) = Inr rs \<and> distinct rs \<and>
    set rs = set rights \<union>
      (if virt \<and> (CHR ''k'' \<in> set rights \<or> CHR ''x'' \<in> set rights) then set ''kx'' else {}) \<union>
      (if virt \<and> (CHR ''e'' \<in> set rights \<or> CHR ''t'' \<in> set rights \<or> CHR ''x'' \<in> set rights) then set ''etx'' else {})"
proof -
  have ex: "expansion r = {r}" if "r \<in> set STANDARD_MAILBOX_RIGHTS" for r
    using expandRight_standard [OF that] by (simp add: expansion_def)
  have vx: "expansion CHR ''c'' = set ''kx''" "expansion CHR ''d'' = set ''etx''"
    by (simp_all add: expansion_def expandRight_def)
  have "\<forall>c \<in> set (formatMailboxRights rights virt). \<exists>xs. expandRight c = Inr xs"
    by (auto simp: formatMailboxRights_def expandRight_standard) (simp_all add: expandRight_def)
  then obtain rs where rs: "parseMailboxRights (formatMailboxRights rights virt) = Inr rs" "distinct rs"
      "set rs = expands (formatMailboxRights rights virt)"
    using parseRightsLoop_ok [of "[]" "formatMailboxRights rights virt"] by (auto simp: parseMailboxRights_def)
  have "expands (filter (\<lambda>r. r \<in> set rights) STANDARD_MAILBOX_RIGHTS) = set rights"
    using ex assms by (auto simp: expands_def)
  then have "set rs = set rights \<union>
      (if virt \<and> (CHR ''k'' \<in> set rights \<or> CHR ''x'' \<in> set rights) then set ''kx'' else {}) \<union>
      (if virt \<and> (CHR ''e'' \<in> set rights \<or> CHR ''t'' \<in> set rights \<or> CHR ''x'' \<in> set rights) then set ''etx'' else {})"
    unfolding rs(3) formatMailboxRights_def expands_simps(3) by (cases virt) (simp_all add: vx)
  with rs show ?thesis by blast
qed

text \<open>An unknown or capital letter refuses the whole text.\<close>

lemma parseMailboxRights_refuses:
  "c \<in> set v \<Longrightarrow> c \<notin> set (STANDARD_MAILBOX_RIGHTS @ ''cd'') \<Longrightarrow> \<exists>e. parseMailboxRights v = Inl e"
  unfolding parseMailboxRights_def
  by (rule parseRightsLoop_error [of c v "''RangeError''"]) (auto simp: expandRight_def)

end
