(* ===== verification/Ulid.thy ===== *)
theory Ulid
  imports Prelude "HOL-Library.Word" "HOL-Library.List_Lexorder" "HOL-Library.Char_ord"
begin

text \<open>
  ULIDs (\<open>core/src/ulid.ts\<close>). The module's variables \<open>lastTime\<close> and \<open>lastRandom\<close> are the record
  \<open>ulid_state\<close>; the bytes that \<open>getRandomValues\<close> writes are an argument. The bit buffer of
  \<open>encodeRandom\<close> is a 32-bit word, whose shift drops the bits that are already written.

  Shown: the encodings are the base-32 digits of the number the bytes stand for, although the
  buffer overflows; so identifiers grow strictly within a millisecond and with the time.
\<close>

unbundle bit_operations_syntax

section \<open>Operations\<close>

definition ENCODING :: string where
  "ENCODING = ''0123456789ABCDEFGHJKMNPQRSTVWXYZ''"

fun encodeTimeLoop :: "nat \<Rightarrow> string \<Rightarrow> nat \<Rightarrow> string" where
  "encodeTimeLoop 0 s t = s"
| "encodeTimeLoop (Suc i) s t = encodeTimeLoop i (ENCODING ! (t mod 32) # s) (t div 32)"

definition encodeTime :: "nat \<Rightarrow> string" where
  "encodeTime time = encodeTimeLoop 10 [] time"

text \<open>The inner \<open>while (bits >= 5)\<close>, then the loop over the bytes.\<close>

fun emitBits :: "32 word \<Rightarrow> nat \<Rightarrow> string \<Rightarrow> nat \<times> string" where
  "emitBits buffer bits out =
     (if bits \<ge> 5
      then emitBits buffer (bits - 5) (out @ [ENCODING ! unat (drop_bit (bits - 5) buffer AND 31)])
      else (bits, out))"

declare emitBits.simps [simp del]

fun encodeRandomLoop :: "32 word \<Rightarrow> nat \<Rightarrow> string \<Rightarrow> nat list \<Rightarrow> string" where
  "encodeRandomLoop buffer bits out [] = out"
| "encodeRandomLoop buffer bits out (byte # bytes) =
     (let buffer1 = push_bit 8 buffer OR word_of_nat byte;
          (bits1, out1) = emitBits buffer1 (bits + 8) out
      in encodeRandomLoop buffer1 bits1 out1 bytes)"

definition encodeRandom :: "nat list \<Rightarrow> string" where
  "encodeRandom bytes = encodeRandomLoop 0 0 [] bytes"

text \<open>The loop runs from the last byte to the first: here on the reversed list.\<close>

fun incrementLoop :: "nat list \<Rightarrow> nat list option" where
  "incrementLoop [] = None"
| "incrementLoop (b # bs) =
     (if b < 0xFF then Some ((b + 1) # bs)
      else (case incrementLoop bs of None \<Rightarrow> None | Some cs \<Rightarrow> Some (0 # cs)))"

definition incrementRandom :: "nat list \<Rightarrow> nat list option" where
  "incrementRandom bytes = map_option rev (incrementLoop (rev bytes))"

record ulid_state =
  lastTime :: "nat option"
  lastRandom :: "nat list"

definition ulid :: "nat \<Rightarrow> nat list \<Rightarrow> ulid_state \<Rightarrow> (ulid_state \<times> string) option" where
  "ulid now rnd s =
     (case (if lastTime s = Some now
            then map_option (\<lambda>r. s\<lparr>lastRandom := r\<rparr>) (incrementRandom (lastRandom s))
            else Some (s\<lparr>lastTime := Some now, lastRandom := rnd\<rparr>)) of
        None \<Rightarrow> None
      | Some s1 \<Rightarrow> Some (s1, encodeTime now @ encodeRandom (lastRandom s1)))"

definition isUlid :: "string \<Rightarrow> bool" where
  "isUlid v \<longleftrightarrow> length v = 26 \<and> list_all (\<lambda>ch. ch \<in> set ENCODING) v"

section \<open>Base-32 digits\<close>

text \<open>The \<open>n\<close> low base-32 digits of a number, the highest first.\<close>

fun digits32 :: "nat \<Rightarrow> nat \<Rightarrow> nat list" where
  "digits32 0 v = []"
| "digits32 (Suc n) v = digits32 n (v div 32) @ [v mod 32]"

definition enc :: "nat list \<Rightarrow> string" where
  "enc ds = map (\<lambda>d. ENCODING ! d) ds"

lemma length_digits32 [simp]: "length (digits32 n v) = n"
  by (induction n arbitrary: v) auto

lemma encodeTimeLoop_digits: "encodeTimeLoop n s t = enc (digits32 n t) @ s"
  by (induction n arbitrary: s t) (auto simp: enc_def)

lemma encodeTime_digits: "encodeTime t = enc (digits32 10 t)"
  by (simp add: encodeTime_def encodeTimeLoop_digits)

lemma digits32_mod: "digits32 n (v mod 32 ^ n) = digits32 n v"
proof (induction n arbitrary: v)
  case (Suc n)
  have "v mod 32 ^ Suc n div 32 = (v div 32) mod 32 ^ n" by (simp add: div_mult2_eq mod_mult2_eq)
  moreover have "v mod 32 ^ Suc n mod 32 = v mod 32" by (simp add: mod_mod_cancel)
  ultimately show ?case using Suc [of "v div 32"] by simp
qed simp


lemma digits32_add: "digits32 (m + q) w = digits32 m (w div 32 ^ q) @ digits32 q w"
proof (induction q arbitrary: w)
  case (Suc q)
  then show ?case by (simp add: div_mult2_eq)
qed simp

lemma digits32_Cons: "digits32 (Suc q) w = (w div 32 ^ q) mod 32 # digits32 q w"
  using digits32_add [of 1 q w] by simp

lemma digits32_less: "d \<in> set (digits32 n v) \<Longrightarrow> d < 32"
  by (induction n arbitrary: v) auto

lemma pow32: "(32 :: nat) ^ q = 2 ^ (5 * q)"
  by (simp add: power_mult)

lemma emitBits_digits:
  "emitBits buffer (5 * q + k) out = (k, out @ enc (digits32 q (unat buffer div 2 ^ k)))" if "k < 5"
proof (induction q arbitrary: out)
  case 0
  show ?case using that by (subst emitBits.simps) (simp add: enc_def)
next
  case (Suc q)
  have "unat (drop_bit (5 * q + k) buffer AND 31) = unat buffer div 2 ^ (5 * q + k) mod 32"
  proof -
    have "drop_bit (5 * q + k) buffer AND 31 = take_bit 5 (drop_bit (5 * q + k) buffer)"
      by (simp add: take_bit_eq_mask mask_eq_exp_minus_1)
    moreover have "unat (take_bit 5 (drop_bit (5 * q + k) buffer)) = take_bit 5 (drop_bit (5 * q + k) (unat buffer))"
      by (simp only: unsigned_take_bit_eq unat_drop_bit_eq)
    ultimately have "unat (drop_bit (5 * q + k) buffer AND 31) = take_bit 5 (drop_bit (5 * q + k) (unat buffer))"
      by (simp only:)
    then show ?thesis by (simp only: take_bit_eq_mod drop_bit_eq_div) simp
  qed
  also have "\<dots> = unat buffer div 2 ^ k div 32 ^ q mod 32"
    by (simp add: pow32 div_mult2_eq flip: power_add) (metis add.commute div_mult2_eq power_add)
  finally have d: "unat (drop_bit (5 * q + k) buffer AND 31) = unat buffer div 2 ^ k div 32 ^ q mod 32" .
  have "emitBits buffer (5 * Suc q + k) out =
      emitBits buffer (5 * q + k) (out @ [ENCODING ! unat (drop_bit (5 * q + k) buffer AND 31)])"
    by (subst emitBits.simps) simp
  then show ?case using Suc d digits32_Cons [of q "unat buffer div 2 ^ k"] by (simp add: enc_def)
qed

lemma shift_in: "byte < 256 \<Longrightarrow> push_bit 8 (word_of_nat v :: 32 word) OR word_of_nat byte = word_of_nat (256 * v + byte)"
proof -
  assume b: "byte < 256"
  have "push_bit 8 (word_of_nat v :: 32 word) AND word_of_nat byte = 0"
  proof (rule bit_eqI)
    fix n
    have "\<not> bit byte n" if "8 \<le> n"
    proof -
      have "byte = take_bit 8 byte" using b by (simp add: take_bit_nat_eq_self)
      then show ?thesis using that by (metis bit_take_bit_iff not_le)
    qed
    then show "bit (push_bit 8 (word_of_nat v :: 32 word) AND word_of_nat byte) n \<longleftrightarrow> bit (0 :: 32 word) n"
      by (auto simp: bit_simps)
  qed
  then have "push_bit 8 (word_of_nat v :: 32 word) OR word_of_nat byte = push_bit 8 (word_of_nat v) + word_of_nat byte"
    by (simp add: disjunctive_add_eq_or)
  then show ?thesis by (simp add: push_bit_eq_mult)
qed


fun bytes_value :: "nat \<Rightarrow> nat list \<Rightarrow> nat" where
  "bytes_value v [] = v"
| "bytes_value v (b # bs) = bytes_value (256 * v + b) bs"

text \<open>The buffer overflows, but its low bits are those of the number read so far.\<close>

lemma low_digits: "5 * q + k \<le> 32 \<Longrightarrow> digits32 q (unat (word_of_nat v :: 32 word) div 2 ^ k) = digits32 q (v div 2 ^ k)"
proof -
  assume le: "5 * q + k \<le> 32"
  have "2 ^ k * 32 ^ q = (2 :: nat) ^ (5 * q + k)" by (simp add: pow32 power_add)
  moreover have "(2 :: nat) ^ (5 * q + k) dvd 2 ^ 32" using le by (rule le_imp_power_dvd)
  ultimately have "2 ^ k * 32 ^ q dvd (2 :: nat) ^ 32" by metis
  then have "v mod 2 ^ 32 mod (2 ^ k * 32 ^ q) = v mod (2 ^ k * 32 ^ q)" by (rule mod_mod_cancel)
  moreover have "a mod (2 ^ k * 32 ^ q) div 2 ^ k = a div 2 ^ k mod 32 ^ q" for a :: nat
    by (simp add: mod_mult2_eq)
  ultimately have "v mod 2 ^ 32 div 2 ^ k mod 32 ^ q = v div 2 ^ k mod 32 ^ q" by metis
  moreover have "unat (word_of_nat v :: 32 word) = v mod 2 ^ 32" by (simp add: unsigned_of_nat take_bit_eq_mod)
  ultimately show ?thesis by (metis digits32_mod)
qed


lemma encodeRandomLoop_digits:
  assumes "list_all (\<lambda>b. b < 256) bs" "k < 5" "out = enc (digits32 m (v div 2 ^ k))"
  shows "encodeRandomLoop (word_of_nat v) k out bs =
    enc (digits32 (m + (k + 8 * length bs) div 5) (bytes_value v bs div 2 ^ ((k + 8 * length bs) mod 5)))"
  using assms
proof (induction bs arbitrary: v k out m)
  case (Cons b bs)
  define q j where "q = (k + 8) div 5" and "j = (k + 8) mod 5"
  have qj: "5 * q + j = k + 8" "j < 5" by (simp_all add: q_def j_def)
  let ?v = "256 * v + b"
  have buf: "push_bit 8 (word_of_nat v :: 32 word) OR word_of_nat b = word_of_nat ?v"
    using Cons.prems(1) by (intro shift_in) simp
  have "v div 2 ^ k = ?v div 2 ^ j div 32 ^ q"
  proof -
    have "?v div 2 ^ j div 32 ^ q = ?v div 2 ^ (8 + k)"
      using qj(1) by (simp add: pow32 add.commute flip: div_mult2_eq power_add)
    also have "\<dots> = ?v div 256 div 2 ^ k" by (simp add: power_add div_mult2_eq)
    also have "\<dots> = v div 2 ^ k" using Cons.prems(1) by simp
    finally show ?thesis by simp
  qed
  then have out: "out @ enc (digits32 q (?v div 2 ^ j)) = enc (digits32 (m + q) (?v div 2 ^ j))"
    using Cons.prems(3) by (simp add: digits32_add enc_def)
  have "emitBits (word_of_nat ?v) (k + 8) out = (j, enc (digits32 (m + q) (?v div 2 ^ j)))"
    using emitBits_digits [OF qj(2), of "word_of_nat ?v" q out] low_digits [of q j ?v] qj out Cons.prems(2) by simp
  then have "encodeRandomLoop (word_of_nat v) k out (b # bs) =
      encodeRandomLoop (word_of_nat ?v) j (enc (digits32 (m + q) (?v div 2 ^ j))) bs"
    using buf by (simp del: of_nat_add of_nat_mult)
  also have "\<dots> = enc (digits32 (m + q + (j + 8 * length bs) div 5) (bytes_value ?v bs div 2 ^ ((j + 8 * length bs) mod 5)))"
    using Cons.prems(1) qj(2) by (intro Cons.IH) simp_all
  also have "(j + 8 * length bs) mod 5 = (k + 8 * length (b # bs)) mod 5"
    unfolding j_def by (simp add: mod_simps add.assoc)
  also have "m + q + (j + 8 * length bs) div 5 = m + (k + 8 * length (b # bs)) div 5"
    using qj(1) by (simp add: algebra_simps)
  finally show ?case by simp
qed simp

lemma encodeRandom_digits:
  assumes "list_all (\<lambda>b. b < 256) bs" "length bs = 10"
  shows "encodeRandom bs = enc (digits32 16 (bytes_value 0 bs))"
  using encodeRandomLoop_digits [OF assms(1), of 0 "[]" 0 0] assms(2) by (simp add: encodeRandom_def enc_def)


section \<open>Order\<close>

lemma digits32_mono: "v < w \<Longrightarrow> w < 32 ^ n \<Longrightarrow> digits32 n v < digits32 n w"
proof (induction n arbitrary: v w)
  case (Suc n)
  show ?case
  proof (cases "v div 32 < w div 32")
    case True
    have "w div 32 < 32 ^ n" using Suc.prems(2) by (simp add: div_less_iff_less_mult)
    then have "digits32 n (v div 32) < digits32 n (w div 32)" using Suc.IH True by blast
    then show ?thesis by (auto simp: list_less_def intro: lexord_sufI)
  next
    case False
    then have "v div 32 = w div 32" using Suc.prems(1) by (meson div_le_mono le_antisym less_imp_le not_le)
    moreover have "v mod 32 < w mod 32"
      using Suc.prems(1) calculation by (metis div_mult_mod_eq nat_add_left_cancel_less)
    ultimately show ?thesis by (auto simp: list_less_def intro: lexord_append_leftI)
  qed
qed simp

lemma ENCODING_ordered: "i < j \<Longrightarrow> j < 32 \<Longrightarrow> ENCODING ! i < ENCODING ! j"
proof -
  have "sorted_wrt (<) ENCODING" by code_simp
  moreover have "length ENCODING = 32" by (simp add: ENCODING_def)
  ultimately show "i < j \<Longrightarrow> j < 32 \<Longrightarrow> ENCODING ! i < ENCODING ! j" by (simp add: sorted_wrt_nth_less)
qed

lemma enc_mono:
  "xs < ys \<Longrightarrow> \<forall>y \<in> set ys. y < 32 \<Longrightarrow> length xs = length ys \<Longrightarrow> enc xs < enc ys"
proof (induction xs arbitrary: ys)
  case (Cons x xs)
  then obtain y ys' where y: "ys = y # ys'" by (cases ys) auto
  show ?case
  proof (cases "x < y")
    case True
    then show ?thesis using y ENCODING_ordered [of x y] Cons.prems(2) by (simp add: enc_def)
  next
    case False
    then have "x = y" "xs < ys'" using Cons.prems(1) y by auto
    then show ?thesis using Cons.IH [of ys'] Cons.prems y by (simp add: enc_def)
  qed
qed (simp add: list_less_def)

lemma enc_digits_mono: "v < w \<Longrightarrow> w < 32 ^ n \<Longrightarrow> enc (digits32 n v) < enc (digits32 n w)"
  using digits32_mono digits32_less by (intro enc_mono) auto

definition random_ok :: "nat list \<Rightarrow> bool" where
  "random_ok bs \<longleftrightarrow> length bs = 10 \<and> list_all (\<lambda>b. b < 256) bs"

fun low_value :: "nat list \<Rightarrow> nat" where
  "low_value [] = 0"
| "low_value (b # bs) = b + 256 * low_value bs"

lemma bytes_value_snoc: "bytes_value v (bs @ [b]) = 256 * bytes_value v bs + b"
  by (induction bs arbitrary: v) auto

lemma bytes_value_low: "bytes_value 0 bs = low_value (rev bs)"
  by (induction bs rule: rev_induct) (auto simp: bytes_value_snoc)

lemma low_value_less: "list_all (\<lambda>b. b < 256) bs \<Longrightarrow> low_value bs < 256 ^ length bs"
proof (induction bs)
  case (Cons b bs)
  then have "b + 256 * low_value bs < 256 * (low_value bs + 1)" by simp
  also have "\<dots> \<le> 256 * 256 ^ length bs" using Cons by (intro mult_le_mono2) simp
  finally show ?case by simp
qed simp

lemma incrementLoop_value:
  "list_all (\<lambda>b. b < 256) bs \<Longrightarrow> incrementLoop bs = Some cs \<Longrightarrow>
     low_value cs = low_value bs + 1 \<and> length cs = length bs \<and> list_all (\<lambda>b. b < 256) cs"
  by (induction bs arbitrary: cs) (auto split: if_splits option.splits)

lemma incrementRandom_value:
  assumes "random_ok bs" "incrementRandom bs = Some cs"
  shows "random_ok cs \<and> bytes_value 0 cs = bytes_value 0 bs + 1"
proof -
  obtain ds where d: "incrementLoop (rev bs) = Some ds" "cs = rev ds"
    using assms(2) by (auto simp: incrementRandom_def)
  have "list_all (\<lambda>b. b < 256) (rev bs)" using assms(1) by (simp add: random_ok_def)
  from incrementLoop_value [OF this d(1)] show ?thesis
    using assms(1) d(2) by (simp add: random_ok_def bytes_value_low)
qed

lemma random_ok_less: "random_ok bs \<Longrightarrow> bytes_value 0 bs < 32 ^ 16"
  using low_value_less [of "rev bs"] by (simp add: random_ok_def bytes_value_low)

lemma ulid_cases:
  assumes "ulid now rnd s = Some (s1, u)" "random_ok rnd" "random_ok (lastRandom s)"
  shows "lastTime s1 = Some now \<and> random_ok (lastRandom s1) \<and>
    u = enc (digits32 10 now) @ enc (digits32 16 (bytes_value 0 (lastRandom s1))) \<and>
    (lastTime s = Some now \<longrightarrow> bytes_value 0 (lastRandom s1) = bytes_value 0 (lastRandom s) + 1)"
proof (cases "lastTime s = Some now")
  case True
  then obtain r where r: "incrementRandom (lastRandom s) = Some r" "s1 = s\<lparr>lastRandom := r\<rparr>"
      "u = encodeTime now @ encodeRandom r"
    using assms(1) by (auto simp: ulid_def split: option.splits)
  then show ?thesis
    using incrementRandom_value [OF assms(3) r(1)] True
    by (simp add: encodeTime_digits encodeRandom_digits random_ok_def)
next
  case False
  then show ?thesis
    using assms by (auto simp: ulid_def encodeTime_digits encodeRandom_digits random_ok_def)
qed

text \<open>ULID order. Two identifiers made one after the other, in the same millisecond or in a later
  one, are in strictly ascending order as strings, although the bit buffer of the encoder
  overflows its 32 bits.\<close>

lemma ulid_monotone:
  assumes "ulid now rnd s = Some (s1, u1)" "ulid now' rnd' s1 = Some (s2, u2)"
    and "random_ok rnd" "random_ok rnd'" "random_ok (lastRandom s)" "now \<le> now'" "now' < 2 ^ 50"
  shows "u1 < u2"
proof -
  note a = ulid_cases [OF assms(1,3,5)]
  note b = ulid_cases [OF assms(2,4) conjunct1 [OF conjunct2 [OF a]]]
  show ?thesis
  proof (cases "now = now'")
    case True
    then have "bytes_value 0 (lastRandom s1) < bytes_value 0 (lastRandom s2)" using a b by simp
    then have "enc (digits32 16 (bytes_value 0 (lastRandom s1))) < enc (digits32 16 (bytes_value 0 (lastRandom s2)))"
      using random_ok_less b by (intro enc_digits_mono) simp_all
    then show ?thesis using a b True by (auto simp: list_less_def intro: lexord_append_leftI)
  next
    case False
    then have "enc (digits32 10 now) < enc (digits32 10 now')" using assms(6,7) by (intro enc_digits_mono) simp_all
    moreover have "length (enc (digits32 10 now')) \<le> length (enc (digits32 10 now))" by (simp add: enc_def)
    ultimately show ?thesis using a b by (auto simp: list_less_def intro: lexord_sufI)
  qed
qed

definition ulid_start :: ulid_state where
  "ulid_start = \<lparr>lastTime = None, lastRandom = replicate 10 0\<rparr>"

text \<open>C38: ULID form. Every identifier the generator returns is accepted by \<open>isUlid\<close>: 26 characters of
  the Crockford alphabet.\<close>

theorem ulid_is_ulid:
  assumes "ulid now rnd s = Some (s1, u)" "random_ok rnd" "random_ok (lastRandom s)"
  shows "isUlid u"
proof -
  have "length ENCODING = 32" by (simp add: ENCODING_def)
  then have e: "set (enc ds) \<subseteq> set ENCODING" if "\<forall>d \<in> set ds. d < 32" for ds
    using that by (auto simp: enc_def intro!: nth_mem)
  have "set u \<subseteq> set ENCODING" "length u = 26"
    using ulid_cases [OF assms] e [of "digits32 _ _"] digits32_less by (auto simp: enc_def subset_iff)
  then show ?thesis by (auto simp: isUlid_def list_all_iff)
qed

theorem ulid_is_ulid_witness:
  "\<exists>s1 u. ulid 5 (replicate 10 255) ulid_start = Some (s1, u) \<and> isUlid u"
proof -
  obtain s1 u where a: "ulid 5 (replicate 10 255) ulid_start = Some (s1, u)"
    by (simp add: ulid_def ulid_start_def)
  have "isUlid u" using ulid_is_ulid [OF a] by (simp add: random_ok_def ulid_start_def list_all_iff)
  with a show ?thesis by blast
qed

end
