(* ===== verification/ImapReader.thy ===== *)
theory ImapReader
  imports LineEngine Limits
begin

text \<open>
  The logical-line reader of IMAP (\<open>proto-imap/src/reader.ts\<close>), which ManageSieve uses too: a line
  may hold literals \<open>{n}\<close> and \<open>{n+}\<close>, whose \<open>n\<close> bytes follow its CRLF. The class \<open>ImapLineReader\<close> is
  the record \<open>imap_reader\<close>, with the limits in it; text is Latin-1, one character per byte.

  Shown: a line with literals is read back as its text pieces and the exact literal bytes, and a
  client is asked to continue exactly for the synchronising ones; and a line over the limit that
  ends in a non-synchronising literal leaves the literal's bytes to be read as the next lines.
\<close>

section \<open>State\<close>

datatype line_part = TextPart string | LiteralPart bytes

datatype reader_event = RE_continue nat | RE_line "line_part list" | RE_error string

record imap_reader =
  ir_maxLineBytes :: nat
  ir_maxLiteralBytes :: nat
  ir_maxNonSync :: nat
  ir_buffer :: bytes
  ir_parts :: "line_part list"
  ir_textLen :: nat
  ir_literalRemaining :: "nat option"
  ir_literalChunks :: "bytes list"
  ir_discarding :: "string option"

definition DEFAULT_MAX_NONSYNC :: nat where
  "DEFAULT_MAX_NONSYNC = 4096"

definition imapReader_new :: "nat option \<Rightarrow> nat option \<Rightarrow> nat option \<Rightarrow> imap_reader" where
  "imapReader_new maxLine maxLit maxNonSync =
     \<lparr>ir_maxLineBytes = (case maxLine of Some n \<Rightarrow> n | None \<Rightarrow> MAX_IMAP_LINE_BYTES),
      ir_maxLiteralBytes = (case maxLit of Some n \<Rightarrow> n | None \<Rightarrow> MAX_MESSAGE_BYTES),
      ir_maxNonSync = (case maxNonSync of Some n \<Rightarrow> n | None \<Rightarrow> DEFAULT_MAX_NONSYNC),
      ir_buffer = [], ir_parts = [], ir_textLen = 0, ir_literalRemaining = None, ir_literalChunks = [],
      ir_discarding = None\<rparr>"

definition setMaxLiteralBytes :: "nat \<Rightarrow> imap_reader \<Rightarrow> imap_reader" where
  "setMaxLiteralBytes n r = r\<lparr>ir_maxLiteralBytes := n\<rparr>"

text \<open>
  \<open>/\{(\d+)(\+?)\}$/\<close>, read from the end of the line; the result is the text before, the size and
  whether the literal is non-synchronising.
\<close>

definition matchLiteralTail :: "string \<Rightarrow> (string \<times> nat \<times> bool) option" where
  "matchLiteralTail line =
     (case rev line of
        [] \<Rightarrow> None
      | c # r \<Rightarrow>
          if c \<noteq> CHR ''}'' then None
          else let nonSync = startsWith ''+'' r;
                   r1 = (if nonSync then tl r else r);
                   ds = takeWhile is_digit r1;
                   r2 = dropWhile is_digit r1;
                   sz = digits_value (rev ds)
               in if ds = [] \<or> \<not> startsWith ''{'' r2 then None
                  else if sz \<le> MAX_SAFE_INTEGER then Some (rev (tl r2), sz, nonSync) else None)"

section \<open>Consuming input\<close>

text \<open>The literal mode; the result says whether the reader is back in line mode.\<close>

definition consumeLiteral :: "imap_reader \<Rightarrow> imap_reader \<times> bool" where
  "consumeLiteral r =
     (case ir_literalRemaining r of
        None \<Rightarrow> (r, True)
      | Some remaining \<Rightarrow>
          (let k = min remaining (length (ir_buffer r));
               r1 = (if k > 0
                     then r\<lparr>ir_literalChunks := (if ir_discarding r = None then ir_literalChunks r @ [take k (ir_buffer r)]
                                                  else ir_literalChunks r),
                            ir_buffer := drop k (ir_buffer r), ir_literalRemaining := Some (remaining - k)\<rparr>
                     else r)
           in if ir_literalRemaining r1 = Some 0
              then (r1\<lparr>ir_parts := (if ir_discarding r = None then ir_parts r1 @ [LiteralPart (concat (ir_literalChunks r1))]
                                     else ir_parts r1),
                       ir_literalChunks := [], ir_literalRemaining := None\<rparr>, True)
              else (r1, False)))"

text \<open>What \<open>consumeLine\<close> returns: an event, \<open>undefined\<close>, or \<open>null\<close> when it needs more data.\<close>

datatype line_outcome = LO_event reader_event | LO_undefined | LO_null

definition dropLine :: "imap_reader \<Rightarrow> imap_reader" where
  "dropLine r = r\<lparr>ir_textLen := 0, ir_parts := []\<rparr>"

definition consumeLine_wait :: "imap_reader \<Rightarrow> imap_reader" where
  "consumeLine_wait r =
     (if ir_discarding r = None \<and> ir_textLen r + length (ir_buffer r) > ir_maxLineBytes r
      then dropLine (r\<lparr>ir_discarding := Some ''line too long'', ir_buffer := []\<rparr>)
      else if ir_discarding r \<noteq> None then r\<lparr>ir_buffer := []\<rparr> else r)"

definition consumeLine_text :: "string \<Rightarrow> imap_reader \<Rightarrow> imap_reader \<times> line_outcome" where
  "consumeLine_text line r =
     (case ir_discarding r of
        Some message \<Rightarrow>
          (case matchLiteralTail line of
             Some (before, sz, True) \<Rightarrow> (r\<lparr>ir_literalRemaining := Some sz\<rparr>, LO_undefined)
           | _ \<Rightarrow> (dropLine (r\<lparr>ir_discarding := None\<rparr>), LO_event (RE_error message)))
      | None \<Rightarrow>
          if ir_textLen r + length line > ir_maxLineBytes r
          then (dropLine r, LO_event (RE_error ''line too long''))
          else case matchLiteralTail line of
            None \<Rightarrow>
              (dropLine r, LO_event (RE_line (if length line > 0 \<or> length (ir_parts r) > 0
                                              then ir_parts r @ [TextPart line] else ir_parts r)))
          | Some (before, sz, nonSync) \<Rightarrow>
              (let r1 = r\<lparr>ir_parts := ir_parts r @ [TextPart before], ir_textLen := ir_textLen r + length before\<rparr>;
                   cap = (if nonSync then min (ir_maxLiteralBytes r) (ir_maxNonSync r) else ir_maxLiteralBytes r)
               in if sz > cap then
                    (if nonSync
                     then (r1\<lparr>ir_discarding := Some ''literal too large'', ir_literalRemaining := Some sz\<rparr>, LO_undefined)
                     else (dropLine r1, LO_event (RE_error ''literal too large'')))
                  else (r1\<lparr>ir_literalRemaining := Some sz\<rparr>,
                        if nonSync then LO_undefined else LO_event (RE_continue sz))))"

definition stripCR :: "bytes \<Rightarrow> bytes" where
  "stripCR l = (if l \<noteq> [] \<and> last l = CR then butlast l else l)"

definition consumeLine :: "imap_reader \<Rightarrow> imap_reader \<times> line_outcome" where
  "consumeLine r =
     (case indexOf LF (ir_buffer r) of
        None \<Rightarrow> (consumeLine_wait r, LO_null)
      | Some idx \<Rightarrow>
          consumeLine_text (stripCR (take idx (ir_buffer r))) (r\<lparr>ir_buffer := drop (idx + 1) (ir_buffer r)\<rparr>))"

definition reader_step :: "imap_reader \<Rightarrow> imap_reader \<times> reader_event list \<times> bool" where
  "reader_step r =
     (if ir_literalRemaining r \<noteq> None then (let (r1, done) = consumeLiteral r in (r1, [], done))
      else case consumeLine r of
        (r1, LO_null) \<Rightarrow> (r1, [], False)
      | (r1, LO_undefined) \<Rightarrow> (r1, [], True)
      | (r1, LO_event ev) \<Rightarrow> (r1, [ev], True))"

definition reader_size :: "imap_reader \<Rightarrow> nat" where
  "reader_size r = 2 * length (ir_buffer r) + (if ir_literalRemaining r = None then 0 else 1)"

lemma consumeLine_text_size:
  "consumeLine_text line r = (r1, out) \<Longrightarrow> ir_buffer r1 = ir_buffer r"
  by (auto simp: consumeLine_text_def dropLine_def Let_def split: option.splits prod.splits if_splits bool.splits)

lemma reader_step_decreases:
  assumes "reader_step r = (r1, evs, True)"
  shows "reader_size r1 < reader_size r"
proof (cases "ir_literalRemaining r")
  case None
  then obtain i where i: "indexOf LF (ir_buffer r) = Some i"
    using assms by (cases "indexOf LF (ir_buffer r)") (auto simp: reader_step_def consumeLine_def)
  obtain out where "consumeLine_text (stripCR (take i (ir_buffer r))) (r\<lparr>ir_buffer := drop (i + 1) (ir_buffer r)\<rparr>) = (r1, out)"
    using assms None i by (auto simp: reader_step_def consumeLine_def split: prod.splits line_outcome.splits)
  then have "ir_buffer r1 = drop (i + 1) (ir_buffer r)" using consumeLine_text_size by fastforce
  then show ?thesis using find_index_SomeD [OF i] None by (auto simp: reader_size_def)
next
  case (Some n)
  then show ?thesis
    using assms by (auto simp: reader_step_def consumeLiteral_def reader_size_def Let_def split: if_splits)
qed

function reader_loop :: "imap_reader \<Rightarrow> imap_reader \<times> reader_event list" where
  "reader_loop r =
     (let (r1, evs, again) = reader_step r in
        if again then (let (r2, evs2) = reader_loop r1 in (r2, evs @ evs2)) else (r1, evs))"
  by pat_completeness auto
termination
  by (relation "measure reader_size") (auto intro: reader_step_decreases [OF sym])

declare reader_loop.simps [simp del]

interpretation reader: line_loop reader_loop reader_step "\<lambda>_. False" reader_size
  by unfold_locales (simp only: if_False, rule reader_loop.simps, rule reader_step_decreases)

definition reader_feed :: "bytes \<Rightarrow> imap_reader \<Rightarrow> imap_reader \<times> reader_event list" where
  "reader_feed chunk r =
     reader_loop (r\<lparr>ir_buffer := (if length (ir_buffer r) = 0 then chunk else ir_buffer r @ chunk)\<rparr>)"

section \<open>What the reader holds\<close>

text \<open>The length of the text in the parts of a line, and the bound on each of its literals.\<close>

fun parts_text :: "line_part list \<Rightarrow> nat" where
  "parts_text [] = 0"
| "parts_text (TextPart t # ps) = length t + parts_text ps"
| "parts_text (LiteralPart b # ps) = parts_text ps"

definition literals_within :: "nat \<Rightarrow> line_part list \<Rightarrow> bool" where
  "literals_within L ps \<longleftrightarrow> (\<forall>b. LiteralPart b \<in> set ps \<longrightarrow> length b \<le> L)"

lemma parts_text_append [simp]: "parts_text (ps @ qs) = parts_text ps + parts_text qs"
  by (induction ps rule: parts_text.induct) auto

lemma literals_within_simps [simp]:
  "literals_within L []"
  "literals_within L (ps @ [TextPart t]) = literals_within L ps"
  "literals_within L (ps @ [LiteralPart b]) \<longleftrightarrow> literals_within L ps \<and> length b \<le> L"
  by (auto simp: literals_within_def)

definition reader_within :: "nat \<Rightarrow> nat \<Rightarrow> imap_reader \<Rightarrow> bool" where
  "reader_within M L r \<longleftrightarrow>
     ir_maxLineBytes r = M \<and> ir_maxLiteralBytes r \<le> L \<and>
     parts_text (ir_parts r) = ir_textLen r \<and> ir_textLen r \<le> M \<and> literals_within L (ir_parts r) \<and>
     (ir_literalRemaining r = None \<or> ir_discarding r \<noteq> None \<longrightarrow> ir_literalChunks r = []) \<and>
     (\<forall>n. ir_literalRemaining r = Some n \<longrightarrow> ir_discarding r = None \<longrightarrow> length (concat (ir_literalChunks r)) + n \<le> L)"

fun event_within :: "nat \<Rightarrow> nat \<Rightarrow> reader_event \<Rightarrow> bool" where
  "event_within M L (RE_continue n) \<longleftrightarrow> n \<le> L"
| "event_within M L (RE_line ps) \<longleftrightarrow> parts_text ps \<le> M \<and> literals_within L ps"
| "event_within M L (RE_error e) \<longleftrightarrow> True"

lemma matchLiteralTail_shorter:
  assumes "matchLiteralTail line = Some (before, sz, ns)"
  shows "length before \<le> length line"
proof -
  have *: "length (tl (dropWhile P xs)) \<le> length xs" for P and xs :: string
    using length_dropWhile_le [of P xs] by simp
  show ?thesis
    using assms * [of is_digit] order_trans [OF * [of is_digit] , of "tl _"]
    by (auto simp: matchLiteralTail_def Let_def split: list.splits if_splits dest!: arg_cong [of "rev _" _ length]
        intro: le_SucI order_trans [OF *])
qed

lemma consumeLiteral_within:
  assumes "reader_within M L r" "consumeLiteral r = (r1, done)"
  shows "reader_within M L r1"
proof (cases "ir_literalRemaining r")
  case (Some n)
  let ?k = "min n (length (ir_buffer r))"
  show ?thesis
  proof (cases "ir_discarding r")
    case None
    have "length (concat (ir_literalChunks r)) + n \<le> L" using assms(1) Some None by (simp add: reader_within_def)
    then show ?thesis using assms Some None by (auto simp: reader_within_def consumeLiteral_def Let_def split: if_splits)
  next
    case (Some m)
    then show ?thesis
      using assms \<open>ir_literalRemaining r = Some n\<close>
      by (auto simp: reader_within_def consumeLiteral_def Let_def split: if_splits)
  qed
qed (use assms in \<open>simp add: consumeLiteral_def\<close>)

lemma consumeLine_text_within:
  assumes "reader_within M L r" "ir_literalRemaining r = None" "consumeLine_text line r = (r1, out)"
  shows "reader_within M L r1 \<and> (\<forall>ev. out = LO_event ev \<longrightarrow> event_within M L ev)"
  using assms matchLiteralTail_shorter [of line]
  by (fastforce simp: reader_within_def consumeLine_text_def dropLine_def Let_def
      split: option.splits prod.splits if_splits bool.splits)

lemma consumeLine_wait_within:
  assumes "reader_within M L r" "ir_literalRemaining r = None"
  shows "reader_within M L (consumeLine_wait r)"
  using assms by (simp add: reader_within_def consumeLine_wait_def dropLine_def)

lemma consumeLine_text_not_null: "consumeLine_text line r \<noteq> (r1, LO_null)"
  by (simp add: consumeLine_text_def Let_def split: option.split prod.split bool.split)

lemma reader_step_within:
  assumes "reader_within M L r" "reader_step r = (r1, evs, again)"
  shows "reader_within M L r1 \<and> list_all (event_within M L) evs"
proof (cases "ir_literalRemaining r = None")
  case True
  show ?thesis
  proof (cases "indexOf LF (ir_buffer r)")
    case None
    then have "r1 = consumeLine_wait r" "evs = []" using True assms(2) by (simp_all add: reader_step_def consumeLine_def)
    then show ?thesis using consumeLine_wait_within [OF assms(1) True] by simp
  next
    case (Some i)
    let ?r = "r\<lparr>ir_buffer := drop (i + 1) (ir_buffer r)\<rparr>"
    have w: "reader_within M L ?r" "ir_literalRemaining ?r = None" using assms(1) True by (simp_all add: reader_within_def)
    obtain out where c: "consumeLine_text (stripCR (take i (ir_buffer r))) ?r = (r1, out)"
        "evs = (case out of LO_event ev \<Rightarrow> [ev] | _ \<Rightarrow> [])"
      using assms(2) True Some by (auto simp: reader_step_def consumeLine_def split: prod.splits line_outcome.splits)
    then show ?thesis using consumeLine_text_within [OF w c(1)] by (auto split: line_outcome.splits)
  qed
next
  case False
  then show ?thesis using assms consumeLiteral_within [OF assms(1)] by (auto simp: reader_step_def split: prod.splits)
qed

interpretation reader_bound: line_invariant reader_loop reader_step "\<lambda>_. False" reader_size
  "reader_within M L" "event_within M L" for M L
  by unfold_locales (rule reader_step_within)

text \<open>A pass that needs more data leaves no more of it than an unfinished line may have.\<close>

lemma reader_step_waits:
  assumes "reader_within M L r" "reader_step r = (r1, evs, False)"
  shows "ir_textLen r1 + length (ir_buffer r1) \<le> M"
proof (cases "ir_literalRemaining r")
  case None
  then have "r1 = consumeLine_wait r"
    using assms(2) consumeLine_text_not_null
    by (auto simp: reader_step_def consumeLine_def split: option.splits prod.splits line_outcome.splits)
  then show ?thesis using assms(1) by (auto simp: consumeLine_wait_def dropLine_def reader_within_def)
next
  case (Some n)
  then have "ir_buffer r1 = [] \<and> ir_textLen r1 = ir_textLen r"
    using assms(2) by (auto simp: reader_step_def consumeLiteral_def Let_def split: if_splits)
  then show ?thesis using assms(1) by (simp add: reader_within_def)
qed

lemma reader_loop_waits:
  assumes "reader_within M L r" "reader_loop r = (r1, evs)"
  shows "ir_textLen r1 + length (ir_buffer r1) \<le> M"
  using assms
proof (induction "reader_size r" arbitrary: r evs rule: less_induct)
  case less
  from less.prems(2) show ?case
  proof (cases rule: reader.loop_cases)
    case last
    with reader_step_waits less.prems(1) show ?thesis by blast
  next
    case (pass r2 a b)
    then show ?thesis using less.hyps reader_step_decreases reader_step_within [OF less.prems(1)] by blast
  qed simp
qed

text \<open>A session of the reader: bytes arrive, and the engine sets the literal limit.\<close>

datatype reader_input = RI_feed bytes | RI_limit nat

fun reader_run :: "imap_reader \<Rightarrow> reader_input list \<Rightarrow> imap_reader \<times> reader_event list" where
  "reader_run r [] = (r, [])"
| "reader_run r (RI_feed bs # ins) =
     (let (r1, evs) = reader_feed bs r; (r2, evs2) = reader_run r1 ins in (r2, evs @ evs2))"
| "reader_run r (RI_limit n # ins) = reader_run (setMaxLiteralBytes n r) ins"

lemma reader_run_within:
  assumes "reader_run r ins = (r1, evs)" "reader_within M L r" "ir_textLen r + length (ir_buffer r) \<le> M"
    and "\<forall>n. RI_limit n \<in> set ins \<longrightarrow> n \<le> L"
  shows "reader_within M L r1 \<and> ir_textLen r1 + length (ir_buffer r1) \<le> M \<and> list_all (event_within M L) evs"
  using assms
proof (induction r ins arbitrary: evs rule: reader_run.induct)
  case (2 r bs ins)
  let ?r = "r\<lparr>ir_buffer := (if length (ir_buffer r) = 0 then bs else ir_buffer r @ bs)\<rparr>"
  obtain r2 a b where r2: "reader_loop ?r = (r2, a)" "reader_run r2 ins = (r1, b)" "evs = a @ b"
    using "2.prems"(1) by (auto simp: reader_feed_def split: prod.splits)
  have "reader_within M L ?r" using "2.prems"(2) by (simp add: reader_within_def)
  then have "reader_within M L r2" "list_all (event_within M L) a" "ir_textLen r2 + length (ir_buffer r2) \<le> M"
    using reader_bound.kept [OF r2(1)] reader_loop_waits r2(1) by blast+
  moreover have "\<forall>n. RI_limit n \<in> set ins \<longrightarrow> n \<le> L" using "2.prems"(4) by simp
  ultimately show ?case using "2.IH" [of "(r2, a)" r2 a b] r2 by (simp add: reader_feed_def)
qed (auto simp: setMaxLiteralBytes_def reader_within_def)

section \<open>What a client sends\<close>

text \<open>A logical line as a client writes it: pieces of text, each followed by a literal, and a last piece.\<close>

definition literalDecl :: "nat \<Rightarrow> bool \<Rightarrow> string" where
  "literalDecl n nonSync = ''{'' @ show_nat n @ (if nonSync then ''+'' else []) @ ''}''"

fun wireLine :: "(string \<times> bytes \<times> bool) list \<Rightarrow> string \<Rightarrow> bytes" where
  "wireLine [] final = final @ CRLF"
| "wireLine ((t, b, ns) # segs) final = t @ literalDecl (length b) ns @ CRLF @ b @ wireLine segs final"

fun lineParts :: "(string \<times> bytes \<times> bool) list \<Rightarrow> line_part list" where
  "lineParts [] = []"
| "lineParts ((t, b, ns) # segs) = TextPart t # LiteralPart b # lineParts segs"

fun lineContinues :: "(string \<times> bytes \<times> bool) list \<Rightarrow> reader_event list" where
  "lineContinues [] = []"
| "lineContinues ((t, b, ns) # segs) = (if ns then [] else [RE_continue (length b)]) @ lineContinues segs"

text \<open>The line keeps the limits; \<open>n\<close> is the length of the text so far.\<close>

fun lineFits :: "imap_reader \<Rightarrow> nat \<Rightarrow> (string \<times> bytes \<times> bool) list \<Rightarrow> string \<Rightarrow> bool" where
  "lineFits r n [] final \<longleftrightarrow>
     LF \<notin> set final \<and> matchLiteralTail final = None \<and> n + length final \<le> ir_maxLineBytes r"
| "lineFits r n ((t, b, ns) # segs) final \<longleftrightarrow>
     LF \<notin> set t \<and> n + length (t @ literalDecl (length b) ns) \<le> ir_maxLineBytes r \<and>
     length b \<le> ir_maxLiteralBytes r \<and> (ns \<longrightarrow> length b \<le> ir_maxNonSync r) \<and> length b \<le> MAX_SAFE_INTEGER \<and>
     lineFits r (n + length t) segs final"

definition reader_idle :: "imap_reader \<Rightarrow> bool" where
  "reader_idle r \<longleftrightarrow> ir_literalRemaining r = None \<and> ir_discarding r = None \<and> ir_literalChunks r = []"

lemma matchLiteralTail_decl:
  assumes "n \<le> MAX_SAFE_INTEGER"
  shows "matchLiteralTail (t @ literalDecl n ns) = Some (t, n, ns)"
proof -
  let ?d = "rev (show_nat n)" and ?t = "CHR ''{'' # rev t"
  have d: "takeWhile is_digit (?d @ ?t) = ?d" "dropWhile is_digit (?d @ ?t) = ?t"
    using show_nat_digits [of n] by (simp_all add: takeWhile_append dropWhile_append list_all_iff is_digit_def)
  have p: "\<not> startsWith ''+'' (?d @ ?t)"
    using show_nat_no_char [of "CHR ''+''" n] by (cases ?d) (auto simp: is_digit_def)
  have "rev (t @ literalDecl n ns) = CHR ''}'' # (if ns then ''+'' else []) @ ?d @ ?t"
    by (simp add: literalDecl_def)
  then show ?thesis using d p assms by (simp add: matchLiteralTail_def Let_def)
qed

lemma literalDecl_no_LF: "LF \<notin> set (literalDecl n ns)"
  using show_nat_no_char [of LF n] by (auto simp: literalDecl_def is_digit_def)

lemma consumeLine_whole:
  assumes "LF \<notin> set l"
  shows "consumeLine (r\<lparr>ir_buffer := l @ CR # LF # rest\<rparr>) = consumeLine_text l (r\<lparr>ir_buffer := rest\<rparr>)"
proof -
  have "indexOf LF ((l @ [CR]) @ LF # rest) = Some (length (l @ [CR]))"
    using assms by (intro find_index_append_first) auto
  then have "indexOf LF (l @ CR # LF # rest) = Some (Suc (length l))" by simp
  then show ?thesis by (simp add: consumeLine_def stripCR_def)
qed

lemma reader_segment:
  assumes "reader_idle r" "lineFits r (ir_textLen r) ((t, b, ns) # segs) final"
  shows "reader_loop (r\<lparr>ir_buffer := t @ literalDecl (length b) ns @ CRLF @ b @ rest\<rparr>) =
    (let (r', evs) = reader_loop (r\<lparr>ir_buffer := rest, ir_parts := ir_parts r @ [TextPart t, LiteralPart b],
                                    ir_textLen := ir_textLen r + length t\<rparr>)
     in (r', (if ns then [] else [RE_continue (length b)]) @ evs))"
proof -
  let ?l = "t @ literalDecl (length b) ns" and ?c = "if ns then [] else [RE_continue (length b)]"
  let ?r1 = "r\<lparr>ir_buffer := b @ rest, ir_parts := ir_parts r @ [TextPart t], ir_textLen := ir_textLen r + length t,
               ir_literalRemaining := Some (length b)\<rparr>"
  let ?r2 = "r\<lparr>ir_buffer := rest, ir_parts := ir_parts r @ [TextPart t, LiteralPart b], ir_textLen := ir_textLen r + length t\<rparr>"
  have l: "LF \<notin> set ?l" using assms(2) literalDecl_no_LF by auto
  have m: "matchLiteralTail ?l = Some (t, length b, ns)" using assms(2) by (intro matchLiteralTail_decl) simp
  have "consumeLine_text ?l (r\<lparr>ir_buffer := b @ rest\<rparr>) = (?r1, if ns then LO_undefined else LO_event (RE_continue (length b)))"
    using assms m by (cases ns) (auto simp: consumeLine_text_def reader_idle_def Let_def min_less_iff_disj)
  then have "reader_step (r\<lparr>ir_buffer := ?l @ CR # LF # b @ rest\<rparr>) = (?r1, ?c, True)"
    using assms(1) consumeLine_whole [OF l, of "b @ rest" r] by (simp add: reader_step_def reader_idle_def)
  then have one: "reader_loop (r\<lparr>ir_buffer := ?l @ CR # LF # b @ rest\<rparr>) = (let (r', evs) = reader_loop ?r1 in (r', ?c @ evs))"
    by (intro reader.loop_pass) simp_all
  have "consumeLiteral ?r1 = (?r2, True)"
    using assms(1) by (cases b; cases r) (simp_all add: consumeLiteral_def reader_idle_def)
  then have "reader_step ?r1 = (?r2, [], True)" by (simp add: reader_step_def)
  then have "reader_loop ?r1 = reader_loop ?r2"
    using reader.loop_pass [of ?r1 ?r2 "[]"] by simp
  with one show ?thesis by simp
qed

lemma reader_final:
  assumes "reader_idle r" "lineFits r (ir_textLen r) [] final"
  shows "reader_loop (r\<lparr>ir_buffer := final @ CRLF\<rparr>) =
    (r\<lparr>ir_buffer := [], ir_parts := [], ir_textLen := 0\<rparr>,
     [RE_line (if final \<noteq> [] \<or> ir_parts r \<noteq> [] then ir_parts r @ [TextPart final] else [])])"
proof -
  let ?r1 = "r\<lparr>ir_buffer := [], ir_parts := [], ir_textLen := 0\<rparr>"
  let ?e = "RE_line (if final \<noteq> [] \<or> ir_parts r \<noteq> [] then ir_parts r @ [TextPart final] else [])"
  have "consumeLine (r\<lparr>ir_buffer := final @ CR # LF # []\<rparr>) = (?r1, LO_event ?e)"
    using assms consumeLine_whole [of final "[]" r] by (auto simp: consumeLine_text_def reader_idle_def dropLine_def)
  then have "reader_step (r\<lparr>ir_buffer := final @ CRLF\<rparr>) = (?r1, [?e], True)"
    using assms(1) by (simp add: reader_step_def reader_idle_def)
  then have "reader_loop (r\<lparr>ir_buffer := final @ CRLF\<rparr>) = (let (r', evs) = reader_loop ?r1 in (r', [?e] @ evs))"
    by (intro reader.loop_pass) simp_all
  moreover have "reader_step ?r1 = (?r1, [], False)"
    using assms(1) by (simp add: reader_step_def reader_idle_def consumeLine_def consumeLine_wait_def)
  then have "reader_loop ?r1 = (?r1, [])" using reader.loop_last [of ?r1 ?r1 "[]"] by simp
  ultimately show ?thesis by simp
qed

lemma lineFits_cong:
  "ir_maxLineBytes r' = ir_maxLineBytes r \<Longrightarrow> ir_maxLiteralBytes r' = ir_maxLiteralBytes r \<Longrightarrow>
   ir_maxNonSync r' = ir_maxNonSync r \<Longrightarrow> lineFits r' n segs final = lineFits r n segs final"
  by (induction r n segs final rule: lineFits.induct) auto

lemma reader_line:
  assumes "reader_idle r" "lineFits r (ir_textLen r) segs final"
  shows "reader_loop (r\<lparr>ir_buffer := wireLine segs final\<rparr>) =
    (r\<lparr>ir_buffer := [], ir_parts := [], ir_textLen := 0\<rparr>,
     lineContinues segs @ [RE_line (if final \<noteq> [] \<or> ir_parts r @ lineParts segs \<noteq> []
                                    then ir_parts r @ lineParts segs @ [TextPart final] else [])])"
  using assms
proof (induction segs arbitrary: r)
  case Nil
  then show ?case using reader_final [of r final] by simp
next
  case (Cons seg segs)
  obtain t b ns where seg: "seg = (t, b, ns)" by (cases seg) auto
  let ?r = "r\<lparr>ir_buffer := wireLine segs final, ir_parts := ir_parts r @ [TextPart t, LiteralPart b],
              ir_textLen := ir_textLen r + length t\<rparr>"
  let ?r' = "r\<lparr>ir_parts := ir_parts r @ [TextPart t, LiteralPart b], ir_textLen := ir_textLen r + length t\<rparr>"
  have r: "?r = ?r'\<lparr>ir_buffer := wireLine segs final\<rparr>" by simp
  have f: "reader_idle ?r'" "lineFits ?r' (ir_textLen ?r') segs final"
    using Cons.prems seg lineFits_cong [of ?r' r] by (simp_all add: reader_idle_def)
  show ?case
    using reader_segment [OF Cons.prems(1), of t b ns segs final "wireLine segs final"] Cons.prems(2) seg
      Cons.IH [OF f] unfolding r by simp
qed

text \<open>Literal transparency. A logical line within the limits, with any literals of any bytes, line
  ends and brace patterns included, is read back as its pieces of text and exactly those bytes; the
  client is asked to continue exactly for the synchronising literals, in order, and the reader is
  ready for the next line.\<close>

lemma reader_feed_line:
  assumes "reader_idle r" "ir_buffer r = []" "ir_parts r = []" "ir_textLen r = 0" "lineFits r 0 segs final"
  shows "reader_feed (wireLine segs final) r =
    (r, lineContinues segs @ [RE_line (if final \<noteq> [] \<or> segs \<noteq> [] then lineParts segs @ [TextPart final] else [])])"
proof -
  have "r\<lparr>ir_buffer := [], ir_parts := [], ir_textLen := 0\<rparr> = r" using assms by (cases r) simp
  moreover have "lineParts segs = [] \<longleftrightarrow> segs = []" by (cases segs) auto
  ultimately show ?thesis
    using reader_line [OF assms(1), of segs final] assms by (simp add: reader_feed_def)
qed

section \<open>The bounds of a session\<close>

text \<open>C37: Bounds of the reader. In every session, however the bytes are cut and whenever the engine
  changes the literal limit, the text held for the current line and the unread bytes are together at most
  the line limit, every literal held, complete or in progress, is at most the largest limit ever set,
  and every line handed over and every literal asked for respects the same two bounds.\<close>

theorem imap_reader_bounds:
  assumes "reader_run (imapReader_new ml lit ns) ins = (r, evs)"
    and "ir_maxLiteralBytes (imapReader_new ml lit ns) \<le> L" "\<forall>n. RI_limit n \<in> set ins \<longrightarrow> n \<le> L"
  shows "parts_text (ir_parts r) + length (ir_buffer r) \<le> ir_maxLineBytes (imapReader_new ml lit ns) \<and>
    literals_within L (ir_parts r) \<and> length (concat (ir_literalChunks r)) \<le> L \<and>
    list_all (event_within (ir_maxLineBytes (imapReader_new ml lit ns)) L) evs"
proof -
  let ?r = "imapReader_new ml lit ns"
  have "reader_within (ir_maxLineBytes ?r) L ?r" "ir_textLen ?r + length (ir_buffer ?r) \<le> ir_maxLineBytes ?r"
    using assms(2) by (simp_all add: reader_within_def imapReader_new_def)
  note w = reader_run_within [OF assms(1) this assms(3)]
  moreover have "length (concat (ir_literalChunks r)) \<le> L"
    using w by (cases "ir_literalRemaining r"; cases "ir_discarding r") (auto simp: reader_within_def)
  ultimately show ?thesis by (simp add: reader_within_def)
qed

theorem imap_reader_bounds_witness:
  "\<exists>r evs. reader_run (imapReader_new (Some 20) (Some 4) None) [RI_feed (''a {3+}'' @ CRLF @ ''xy''), RI_limit 9] = (r, evs) \<and>
     parts_text (ir_parts r) + length (ir_buffer r) \<le> 20 \<and> literals_within 9 (ir_parts r) \<and>
     length (concat (ir_literalChunks r)) \<le> 9 \<and> list_all (event_within 20 9) evs"
proof -
  let ?r = "imapReader_new (Some 20) (Some 4) None" and ?i = "[RI_feed (''a {3+}'' @ CRLF @ ''xy''), RI_limit 9]"
  obtain r evs where "reader_run ?r ?i = (r, evs)" by force
  then show ?thesis using imap_reader_bounds [of "Some 20" "Some 4" None ?i r evs 9] by (auto simp: imapReader_new_def)
qed

text \<open>
  The bound is per literal: their number in one line has none, and neither has what the reader holds. A
  client that puts \<open>n\<close> non-synchronising literals with no text between them into one line makes it
  hold all of them, before it has authenticated.
\<close>

lemma imap_literals_accumulate:
  assumes "reader_idle r" "ir_buffer r = []" "ir_textLen r + length (literalDecl (length b) True) \<le> ir_maxLineBytes r"
    and "length b \<le> ir_maxLiteralBytes r" "length b \<le> ir_maxNonSync r" "length b \<le> MAX_SAFE_INTEGER"
  shows "reader_run r (replicate n (RI_feed (literalDecl (length b) True @ CRLF @ b))) =
    (r\<lparr>ir_parts := ir_parts r @ concat (replicate n [TextPart [], LiteralPart b])\<rparr>, [])"
  using assms
proof (induction n arbitrary: r)
  case (Suc n)
  let ?w = "literalDecl (length b) True @ CRLF @ b" and ?r = "r\<lparr>ir_parts := ir_parts r @ [TextPart [], LiteralPart b]\<rparr>"
  have "reader_loop (r\<lparr>ir_buffer := ?w\<rparr>) = reader_loop ?r"
    using reader_segment [of r "[]" b True "[]" "[]" "[]"] Suc.prems by (cases r) (simp add: matchLiteralTail_def)
  moreover have "reader_step ?r = (?r, [], False)"
    using Suc.prems by (simp add: reader_step_def reader_idle_def consumeLine_def consumeLine_wait_def)
  then have "reader_loop ?r = (?r, [])" using reader.loop_last [of ?r ?r "[]"] by simp
  ultimately have "reader_feed ?w r = (?r, [])" using Suc.prems(2) by (simp add: reader_feed_def)
  moreover have "reader_run ?r (replicate n (RI_feed ?w)) =
      (?r\<lparr>ir_parts := ir_parts ?r @ concat (replicate n [TextPart [], LiteralPart b])\<rparr>, [])"
    using Suc.prems by (intro Suc.IH) (simp_all add: reader_idle_def)
  ultimately show ?case by simp
qed simp

section \<open>An oversized line with a literal\<close>

text \<open>Literal read as a command. When a line that ends in a non-synchronising literal exceeds the
  length limit, the reader reports the error at once and forgets the literal: its bytes, which the
  client sends in any case, are then read as the next logical line.\<close>

lemma imap_oversized_literal_runs:
  assumes "reader_idle r" "ir_buffer r = []" "ir_parts r = []" "ir_textLen r = 0"
    and "LF \<notin> set t" "length t > ir_maxLineBytes r"
    and "lineFits r 0 [] cmd" "cmd \<noteq> []"
  shows "reader_feed (t @ literalDecl (length (cmd @ CRLF)) True @ CRLF @ cmd @ CRLF) r =
    (r, [RE_error ''line too long'', RE_line [TextPart cmd]])"
proof -
  let ?l = "t @ literalDecl (length (cmd @ CRLF)) True" and ?r1 = "r\<lparr>ir_buffer := cmd @ CRLF\<rparr>"
  have l: "LF \<notin> set ?l" using assms(5) literalDecl_no_LF by auto
  have "consumeLine (r\<lparr>ir_buffer := ?l @ CR # LF # cmd @ CRLF\<rparr>) = (dropLine ?r1, LO_event (RE_error ''line too long''))"
    using assms consumeLine_whole [OF l, of "cmd @ CRLF" r] by (simp add: consumeLine_text_def reader_idle_def)
  moreover have "dropLine ?r1 = ?r1" using assms(3,4) by (cases r) (simp add: dropLine_def)
  ultimately have "reader_step (r\<lparr>ir_buffer := ?l @ CR # LF # cmd @ CRLF\<rparr>) = (?r1, [RE_error ''line too long''], True)"
    using assms(1) by (simp add: reader_step_def reader_idle_def)
  then have "reader_loop (r\<lparr>ir_buffer := ?l @ CR # LF # cmd @ CRLF\<rparr>) =
      (let (r', evs) = reader_loop ?r1 in (r', [RE_error ''line too long''] @ evs))"
    by (intro reader.loop_pass) simp_all
  moreover have "reader_loop ?r1 = (r, [RE_line [TextPart cmd]])"
  proof -
    have "r\<lparr>ir_buffer := [], ir_parts := [], ir_textLen := 0\<rparr> = r" using assms by (cases r) simp
    then show ?thesis using reader_line [OF assms(1), of "[]" cmd] assms by simp
  qed
  ultimately show ?thesis using assms(2) by (simp add: reader_feed_def)
qed

end
