(* ===== verification/ImapParser.thy ===== *)
theory ImapParser
  imports ImapReader
begin

text \<open>
  The IMAP command parser (\<open>proto-imap/src/parser.ts\<close>). A \<open>Cursor\<close> is what is left of the logical
  line: the parts not yet consumed, the first text part without the characters already read.
  \<open>ImapParseError\<close> is \<open>Inl\<close>. The recursion of \<open>parseValue\<close> and \<open>parseList\<close> takes fuel, and \<open>None\<close> says
  that it ran out: twice the length of the line and two more is shown to be enough.

  Shown: parsing always ends with values or an error; every value that is written out (atoms,
  flags, quoted strings, literals, nested lists) is parsed back, through the reader too.
\<close>

section \<open>Values and cursor\<close>

datatype imap_value =
    V_atom string
  | V_quoted string
  | V_literal bytes
  | V_list "imap_value list"

record parsed_command =
  pc_tag :: string
  pc_name :: string
  pc_args :: "imap_value list"

type_synonym cursor = "line_part list"

definition ATOM_SPECIALS :: string where
  "ATOM_SPECIALS = [CHR ''('', CHR '')'', CHR ''{'', SP, CHR 0x22, CHR 0x5C]"

definition isAtomChar :: "char \<Rightarrow> bool" where
  "isAtomChar ch \<longleftrightarrow> \<not> (code ch \<le> 0x1F \<or> code ch = 0x7F) \<and> ch \<notin> set ATOM_SPECIALS"

abbreviation QUOTE :: char where "QUOTE \<equiv> CHR 0x22"
abbreviation BACKSLASH :: char where "BACKSLASH \<equiv> CHR 0x5C"

text \<open>How a writer escapes a string it puts between quotes.\<close>

definition quote_escape :: "string \<Rightarrow> string" where
  "quote_escape s = concat (map (\<lambda>c. if c = QUOTE \<or> c = BACKSLASH then [BACKSLASH, c] else [c]) s)"

lemma quote_escape_simps [simp]:
  "quote_escape [] = []"
  "quote_escape (c # s) = (if c = QUOTE \<or> c = BACKSLASH then [BACKSLASH, c] else [c]) @ quote_escape s"
  by (simp_all add: quote_escape_def)

text \<open>\<open>peek\<close> and \<open>atLiteral\<close> step over text parts that are used up.\<close>

fun skipEmpty :: "cursor \<Rightarrow> cursor" where
  "skipEmpty (TextPart [] # ps) = skipEmpty ps"
| "skipEmpty ps = ps"

definition peek :: "cursor \<Rightarrow> cursor \<times> char option" where
  "peek cur =
     (let cur1 = skipEmpty cur in
      (cur1, case cur1 of
               [] \<Rightarrow> None
             | LiteralPart _ # _ \<Rightarrow> Some CHR ''{''
             | TextPart t # _ \<Rightarrow> (case t of [] \<Rightarrow> None | c # _ \<Rightarrow> Some c)))"

definition nextChar :: "cursor \<Rightarrow> string + char option \<times> cursor" where
  "nextChar cur =
     (let (cur1, ch) = peek cur in
      case ch of
        None \<Rightarrow> Inr (None, cur1)
      | Some c \<Rightarrow>
          (case cur1 of
             TextPart t # ps \<Rightarrow> Inr (Some c, TextPart (tl t) # ps)
           | _ \<Rightarrow> Inl ''internal: nextChar on literal boundary''))"

definition takeLiteral :: "cursor \<Rightarrow> string + bytes \<times> cursor" where
  "takeLiteral cur =
     (case cur of LiteralPart b # ps \<Rightarrow> Inr (b, ps) | _ \<Rightarrow> Inl ''internal: takeLiteral off boundary'')"

definition atLiteral :: "cursor \<Rightarrow> cursor \<times> bool" where
  "atLiteral cur =
     (let cur1 = skipEmpty cur in (cur1, case cur1 of LiteralPart _ # _ \<Rightarrow> True | _ \<Rightarrow> False))"

text \<open>What is left, as a measure.\<close>

fun part_size :: "line_part \<Rightarrow> nat" where
  "part_size (TextPart t) = length t + 1"
| "part_size (LiteralPart b) = 1"

definition csize :: "cursor \<Rightarrow> nat" where
  "csize cur = sum_list (map part_size cur)"

lemma csize_simps [simp]: "csize [] = 0" "csize (p # ps) = part_size p + csize ps"
  by (simp_all add: csize_def)

function (sequential) skipSpaces :: "cursor \<Rightarrow> cursor" where
  "skipSpaces (TextPart (c # cs) # ps) =
     (if c = SP then skipSpaces (TextPart cs # ps) else TextPart (c # cs) # ps)"
| "skipSpaces (TextPart [] # ps) = skipSpaces ps"
| "skipSpaces ps = ps"
  by pat_completeness auto
termination
  by (relation "measure csize") simp_all

definition atEnd :: "cursor \<Rightarrow> bool" where
  "atEnd cur \<longleftrightarrow> snd (peek cur) = None"

lemma skipEmpty_size: "csize (skipEmpty cur) \<le> csize cur"
  by (induction cur rule: skipEmpty.induct) auto

lemma skipSpaces_size: "csize (skipSpaces cur) \<le> csize cur"
  by (induction cur rule: skipSpaces.induct) auto

lemma nextChar_size: "nextChar cur = Inr (Some c, cur1) \<Longrightarrow> csize cur1 < csize cur"
  using skipEmpty_size [of cur]
  by (auto simp: nextChar_def peek_def Let_def split: list.splits line_part.splits)

lemma atLiteral_size: "atLiteral cur = (cur1, l) \<Longrightarrow> csize cur1 \<le> csize cur"
  using skipEmpty_size [of cur] by (auto simp: atLiteral_def Let_def)

section \<open>Parsing\<close>

function quotedLoop :: "string \<Rightarrow> cursor \<Rightarrow> string + imap_value \<times> cursor" where
  "quotedLoop out cur =
     (case nextChar cur of
        Inl e \<Rightarrow> Inl e
      | Inr (None, _) \<Rightarrow> Inl ''unterminated quoted string''
      | Inr (Some ch, cur1) \<Rightarrow>
          if ch = QUOTE then Inr (V_quoted out, cur1)
          else if ch = BACKSLASH then
            (case nextChar cur1 of
               Inl e \<Rightarrow> Inl e
             | Inr (None, _) \<Rightarrow> Inl ''invalid quoted-string escape''
             | Inr (Some esc, cur2) \<Rightarrow>
                 if esc \<noteq> QUOTE \<and> esc \<noteq> BACKSLASH then Inl ''invalid quoted-string escape''
                 else quotedLoop (out @ [esc]) cur2)
          else quotedLoop (out @ [ch]) cur1)"
  by pat_completeness auto
termination
  by (relation "measure (\<lambda>(out, cur). csize cur)") (auto dest!: nextChar_size [OF sym] nextChar_size)

declare quotedLoop.simps [simp del]

definition parseQuoted :: "cursor \<Rightarrow> string + imap_value \<times> cursor" where
  "parseQuoted cur = (case nextChar cur of Inl e \<Rightarrow> Inl e | Inr (_, cur1) \<Rightarrow> quotedLoop [] cur1)"

function atomLoop :: "string \<Rightarrow> cursor \<Rightarrow> string + string \<times> cursor" where
  "atomLoop out cur =
     (let (cur1, lit) = atLiteral cur in
      if lit then Inr (out, cur1)
      else case snd (peek cur1) of
        None \<Rightarrow> Inr (out, cur1)
      | Some ch \<Rightarrow>
          if \<not> isAtomChar ch then Inr (out, cur1)
          else (case nextChar cur1 of
                  Inl e \<Rightarrow> Inl e
                | Inr (None, cur2) \<Rightarrow> Inr (out, cur2)
                | Inr (Some c, cur2) \<Rightarrow> atomLoop (out @ [c]) cur2))"
  by pat_completeness auto
termination
  by (relation "measure (\<lambda>(out, cur). csize cur)") (auto dest!: nextChar_size atLiteral_size [OF sym])

declare atomLoop.simps [simp del]

definition parseAtom :: "cursor \<Rightarrow> string + imap_value \<times> cursor" where
  "parseAtom cur =
     (case atomLoop [] cur of
        Inl e \<Rightarrow> Inl e
      | Inr (out, cur1) \<Rightarrow> if length out = 0 then Inl ''expected atom'' else Inr (V_atom out, cur1))"

text \<open>The flag production: a backslash and an atom.\<close>

definition parseFlag :: "cursor \<Rightarrow> string + imap_value \<times> cursor" where
  "parseFlag cur =
     (case nextChar cur of
        Inl e \<Rightarrow> Inl e
      | Inr (_, cur1) \<Rightarrow>
          (case parseAtom cur1 of
             Inl e \<Rightarrow> Inl e
           | Inr (inner, cur2) \<Rightarrow>
               Inr (V_atom (BACKSLASH # (case inner of V_atom a \<Rightarrow> a | _ \<Rightarrow> [])), cur2)))"

fun parseValue :: "nat \<Rightarrow> cursor \<Rightarrow> (string + imap_value \<times> cursor) option"
  and parseListLoop :: "nat \<Rightarrow> imap_value list \<Rightarrow> cursor \<Rightarrow> (string + imap_value \<times> cursor) option" where
  "parseValue 0 cur = None"
| "parseValue (Suc fuel) cur =
     (let (cur0, lit) = atLiteral cur in
      if lit then
        Some (case takeLiteral cur0 of Inl e \<Rightarrow> Inl e | Inr (b, cur1) \<Rightarrow> Inr (V_literal b, cur1))
      else case snd (peek cur0) of
        None \<Rightarrow> Some (Inl ''unexpected end of command'')
      | Some ch \<Rightarrow>
          if ch = QUOTE then Some (parseQuoted cur0)
          else if ch = CHR ''('' then
            (case nextChar cur0 of Inl e \<Rightarrow> Some (Inl e) | Inr (_, cur1) \<Rightarrow> parseListLoop fuel [] cur1)
          else if ch = BACKSLASH then Some (parseFlag cur0)
          else Some (parseAtom cur0))"
| "parseListLoop 0 items cur = None"
| "parseListLoop (Suc fuel) items cur =
     (let (cur0, lit) = atLiteral (skipSpaces cur) in
      if lit then
        (case takeLiteral cur0 of
           Inl e \<Rightarrow> Some (Inl e)
         | Inr (b, cur1) \<Rightarrow> parseListLoop fuel (items @ [V_literal b]) cur1)
      else case snd (peek cur0) of
        None \<Rightarrow> Some (Inl ''unterminated parenthesized list'')
      | Some ch \<Rightarrow>
          if ch = CHR '')'' then
            Some (case nextChar cur0 of Inl e \<Rightarrow> Inl e | Inr (_, cur1) \<Rightarrow> Inr (V_list items, cur1))
          else (case parseValue fuel cur0 of
                  None \<Rightarrow> None
                | Some (Inl e) \<Rightarrow> Some (Inl e)
                | Some (Inr (v, cur1)) \<Rightarrow> parseListLoop fuel (items @ [v]) cur1))"

fun parseValuesLoop :: "nat \<Rightarrow> imap_value list \<Rightarrow> cursor \<Rightarrow> (string + imap_value list) option" where
  "parseValuesLoop 0 vals cur = None"
| "parseValuesLoop (Suc fuel) vals cur =
     (let cur0 = skipSpaces cur in
      if atEnd cur0 then Some (Inr vals)
      else (case parseValue fuel cur0 of
              None \<Rightarrow> None
            | Some (Inl e) \<Rightarrow> Some (Inl e)
            | Some (Inr (v, cur1)) \<Rightarrow> parseValuesLoop fuel (vals @ [v]) cur1))"

definition parseValues :: "line_part list \<Rightarrow> (string + imap_value list) option" where
  "parseValues parts = parseValuesLoop (2 * csize parts + 2) [] parts"

definition commandOf :: "imap_value list \<Rightarrow> string + parsed_command" where
  "commandOf vals =
     (case vals of
        V_atom tag # rest \<Rightarrow>
          if CHR ''+'' \<in> set tag \<or> CHR ''*'' \<in> set tag \<or> CHR ''%'' \<in> set tag then Inl ''invalid tag''
          else (case rest of
                  V_atom name # args \<Rightarrow> Inr \<lparr>pc_tag = tag, pc_name = toUpperCase name, pc_args = args\<rparr>
                | _ \<Rightarrow> Inl ''missing command name'')
      | _ \<Rightarrow> Inl ''missing command tag'')"

definition parseCommand :: "line_part list \<Rightarrow> (string + parsed_command) option" where
  "parseCommand parts =
     (case parseValues parts of
        None \<Rightarrow> None
      | Some (Inl e) \<Rightarrow> Some (Inl e)
      | Some (Inr vals) \<Rightarrow> Some (commandOf vals))"

fun valueText :: "imap_value \<Rightarrow> string option" where
  "valueText (V_atom v) = Some v"
| "valueText (V_quoted v) = Some v"
| "valueText (V_literal b) = Some b"
| "valueText (V_list _) = None"


section \<open>Progress and fuel\<close>

lemma nextChar_le:
  assumes "nextChar cur = Inr (ch, cur1)"
  shows "csize cur1 \<le> csize cur"
proof -
  have "cur1 = skipEmpty cur \<or> (\<exists>t ps. skipEmpty cur = TextPart t # ps \<and> cur1 = TextPart (tl t) # ps)"
    using assms by (auto simp: nextChar_def peek_def Let_def split: list.splits line_part.splits option.splits)
  then have "csize cur1 \<le> csize (skipEmpty cur)" by auto
  then show ?thesis using skipEmpty_size [of cur] by simp
qed

lemma quotedLoop_size: "quotedLoop out cur = Inr (v, cur') \<Longrightarrow> csize cur' < csize cur"
proof (induction out cur rule: quotedLoop.induct)
  case (1 out cur)
  obtain ch cur1 where n: "nextChar cur = Inr (Some ch, cur1)"
    using "1.prems" by (subst (asm) quotedLoop.simps) (auto split: sum.splits option.splits)
  note lt = nextChar_size [OF n]
  consider "ch = QUOTE" | "ch = BACKSLASH" | "ch \<noteq> QUOTE" "ch \<noteq> BACKSLASH" by blast
  then show ?case
  proof cases
    case 1
    then show ?thesis using "1.prems" n lt by (subst (asm) quotedLoop.simps) simp
  next
    case 2
    obtain esc cur2 where m: "nextChar cur1 = Inr (Some esc, cur2)" and q: "quotedLoop (out @ [esc]) cur2 = Inr (v, cur')"
        and e: "esc = QUOTE \<or> esc = BACKSLASH"
      using "1.prems" n 2 by (subst (asm) quotedLoop.simps) (auto split: sum.splits option.splits if_splits)
    have "csize cur' < csize cur2"
      using "1.IH"(1) [OF n refl refl _ 2 m refl refl _ q] 2 e by simp
    then show ?thesis using nextChar_size [OF m] lt by simp
  next
    case 3
    then have q: "quotedLoop (out @ [ch]) cur1 = Inr (v, cur')"
      using "1.prems" n by (subst (asm) quotedLoop.simps) simp
    have "csize cur' < csize cur1" using "1.IH"(2) [OF n refl refl 3 q] .
    then show ?thesis using lt by simp
  qed
qed

lemma atomLoop_size:
  "atomLoop out cur = Inr (out', cur') \<Longrightarrow> csize cur' \<le> csize cur \<and> (out' \<noteq> out \<longrightarrow> csize cur' < csize cur)"
proof (induction out cur rule: atomLoop.induct)
  case (1 out cur)
  obtain cur1 lit where a: "atLiteral cur = (cur1, lit)" by force
  note le = atLiteral_size [OF a]
  show ?case
  proof (cases "\<exists>ch c cur2. \<not> lit \<and> snd (peek cur1) = Some ch \<and> isAtomChar ch \<and> nextChar cur1 = Inr (Some c, cur2)")
    case True
    then obtain ch c cur2 where h: "\<not> lit" "snd (peek cur1) = Some ch" "isAtomChar ch" "nextChar cur1 = Inr (Some c, cur2)"
      by blast
    then have q: "atomLoop (out @ [c]) cur2 = Inr (out', cur')"
      using "1.prems" a by (subst (asm) atomLoop.simps) simp
    have "csize cur' \<le> csize cur2" using "1.IH" [OF a [symmetric] refl h(1,2) _ h(4) refl refl q] h(3) by simp
    then show ?thesis using nextChar_size [OF h(4)] le by simp
  next
    case False
    then have "out' = out \<and> csize cur' \<le> csize cur1"
      using "1.prems" a nextChar_le [of cur1]
      by (subst (asm) atomLoop.simps) (auto split: sum.splits option.splits if_splits)
    then show ?thesis using le by simp
  qed
qed

lemma parseAtom_size: "parseAtom cur = Inr (v, cur') \<Longrightarrow> csize cur' < csize cur"
  by (auto simp: parseAtom_def split: sum.splits if_splits dest!: atomLoop_size)

lemma parseFlag_size: "parseFlag cur = Inr (v, cur') \<Longrightarrow> csize cur' < csize cur"
  by (auto simp: parseFlag_def split: sum.splits dest!: parseAtom_size nextChar_le)

lemma parseQuoted_size: "parseQuoted cur = Inr (v, cur') \<Longrightarrow> csize cur' < csize cur"
  by (auto simp: parseQuoted_def split: sum.splits dest!: quotedLoop_size nextChar_le)

lemma takeLiteral_size: "takeLiteral cur = Inr (b, cur') \<Longrightarrow> csize cur' < csize cur"
  by (auto simp: takeLiteral_def split: list.splits line_part.splits)

lemmas parse_sizes = parseAtom_size parseFlag_size parseQuoted_size takeLiteral_size nextChar_le

lemma parse_value_size:
  "parseValue f cur = Some (Inr (v, cur')) \<Longrightarrow> csize cur' < csize cur"
  "parseListLoop f items cur = Some (Inr (v, cur')) \<Longrightarrow> csize cur' \<le> csize cur"
proof (induction f cur and f items cur arbitrary: v cur' and v cur' rule: parseValue_parseListLoop.induct)
  case (2 fuel cur)
  obtain cur0 lit where a: "atLiteral cur = (cur0, lit)" by force
  note le = atLiteral_size [OF a]
  show ?case
  proof (cases lit)
    case True
    then show ?thesis using "2.prems" a le by (auto split: sum.splits dest!: takeLiteral_size)
  next
    case False
    then obtain ch where ch: "snd (peek cur0) = Some ch" using "2.prems" a by (auto split: option.splits)
    show ?thesis
    proof (cases "ch \<noteq> QUOTE \<and> ch = CHR ''(''")
      case True
      then obtain c cur1 where n: "nextChar cur0 = Inr (c, cur1)" "parseListLoop fuel [] cur1 = Some (Inr (v, cur'))"
        using "2.prems" a False ch by (auto split: sum.splits)
      then have "c \<noteq> None" using ch by (auto simp: nextChar_def peek_def Let_def split: list.splits line_part.splits)
      then obtain d where "nextChar cur0 = Inr (Some d, cur1)" using n(1) by auto
      then have "csize cur1 < csize cur0" by (rule nextChar_size)
      moreover have "csize cur' \<le> csize cur1"
        using "2.IH" [OF a [symmetric] refl False ch _ _ n(1) refl n(2)] True by simp
      ultimately show ?thesis using le by simp
    next
      case False
      with \<open>\<not> lit\<close> show ?thesis using "2.prems" a ch le
        by (auto split: if_splits dest: parseAtom_size parseFlag_size parseQuoted_size)
    qed
  qed
next
  case (4 fuel items cur)
  obtain cur0 lit where a: "atLiteral (skipSpaces cur) = (cur0, lit)" by force
  have le: "csize cur0 \<le> csize cur" using atLiteral_size [OF a] skipSpaces_size [of cur] by simp
  show ?case
  proof (cases lit)
    case True
    then obtain b cur1 where t: "takeLiteral cur0 = Inr (b, cur1)" "parseListLoop fuel (items @ [V_literal b]) cur1 = Some (Inr (v, cur'))"
      using "4.prems" a by (auto split: sum.splits)
    then have "csize cur' \<le> csize cur1" using "4.IH"(1) [OF a [symmetric] refl True t(1) refl t(2)] by simp
    then show ?thesis using takeLiteral_size [OF t(1)] le by simp
  next
    case False
    then obtain ch where ch: "snd (peek cur0) = Some ch" using "4.prems" a by (auto split: option.splits)
    show ?thesis
    proof (cases "ch = CHR '')''")
      case True
      then show ?thesis using "4.prems" a False ch le by (auto split: sum.splits dest!: nextChar_le)
    next
      case nb: False
      then obtain w cur1 where p: "parseValue fuel cur0 = Some (Inr (w, cur1))"
          "parseListLoop fuel (items @ [w]) cur1 = Some (Inr (v, cur'))"
        using "4.prems" a False ch by (auto split: sum.splits option.splits)
      have "csize cur1 < csize cur0" using "4.IH"(2) [OF a [symmetric] refl False ch nb p(1)] .
      moreover have "csize cur' \<le> csize cur1"
        using "4.IH"(3) [OF a [symmetric] refl False ch nb p(1) refl refl p(2)] .
      ultimately show ?thesis using le by simp
    qed
  qed
qed simp_all

lemma parse_value_fuel:
  "2 * csize cur < f \<Longrightarrow> parseValue f cur \<noteq> None"
  "2 * csize cur + 1 < f \<Longrightarrow> parseListLoop f items cur \<noteq> None"
proof (induction f cur and f items cur rule: parseValue_parseListLoop.induct)
  case (2 fuel cur)
  obtain cur0 lit where a: "atLiteral cur = (cur0, lit)" by force
  note le = atLiteral_size [OF a]
  have "parseListLoop fuel [] cur1 \<noteq> None"
    if h: "\<not> lit" "snd (peek cur0) = Some ch" "ch \<noteq> QUOTE" "ch = CHR ''(''" "nextChar cur0 = Inr (c, cur1)" for ch c cur1
  proof -
    have "c \<noteq> None" using h by (auto simp: nextChar_def peek_def Let_def split: list.splits line_part.splits)
    then have "csize cur1 < csize cur0" using h(5) nextChar_size by fastforce
    then show ?thesis using "2.IH" [OF a [symmetric] refl h(1,2,3,4,5) refl] "2.prems" le by simp
  qed
  with a show ?case by (auto split: option.splits sum.splits)
next
  case (4 fuel items cur)
  obtain cur0 lit where a: "atLiteral (skipSpaces cur) = (cur0, lit)" by force
  have le: "csize cur0 \<le> csize cur" using atLiteral_size [OF a] skipSpaces_size [of cur] by simp
  have l: "parseListLoop fuel (items @ [V_literal b]) cur1 \<noteq> None" if h: "lit" "takeLiteral cur0 = Inr (b, cur1)" for b cur1
    using "4.IH"(1) [OF a [symmetric] refl h refl] "4.prems" takeLiteral_size [OF h(2)] le by simp
  have v: "parseValue fuel cur0 \<noteq> None" if h: "\<not> lit" "snd (peek cur0) = Some ch" "ch \<noteq> CHR '')''" for ch
    using "4.IH"(2) [OF a [symmetric] refl h] "4.prems" le by simp
  have r: "parseListLoop fuel (items @ [w]) cur1 \<noteq> None"
    if h: "\<not> lit" "snd (peek cur0) = Some ch" "ch \<noteq> CHR '')''" "parseValue fuel cur0 = Some (Inr (w, cur1))" for ch w cur1
    using "4.IH"(3) [OF a [symmetric] refl h refl refl] "4.prems" parse_value_size(1) [OF h(4)] le by simp
  show ?case
  proof (cases lit)
    case True
    with a l show ?thesis by (auto split: sum.splits)
  next
    case False
    with a v r show ?thesis by (auto split: option.splits sum.splits)
  qed
qed simp_all

lemma parseValuesLoop_fuel: "2 * csize cur + 1 < f \<Longrightarrow> parseValuesLoop f vals cur \<noteq> None"
proof (induction f vals cur rule: parseValuesLoop.induct)
  case (2 fuel vals cur)
  let ?c = "skipSpaces cur"
  have le: "csize ?c \<le> csize cur" by (rule skipSpaces_size)
  have v: "parseValue fuel ?c \<noteq> None" using "2.prems" le by (intro parse_value_fuel(1)) simp
  show ?case
  proof (cases "\<exists>w cur1. \<not> atEnd ?c \<and> parseValue fuel ?c = Some (Inr (w, cur1))")
    case True
    then obtain w cur1 where h: "\<not> atEnd ?c" "parseValue fuel ?c = Some (Inr (w, cur1))" by blast
    have "parseValuesLoop fuel (vals @ [w]) cur1 \<noteq> None"
      using "2.IH" [OF refl h refl refl] parse_value_size(1) [OF h(2)] "2.prems" le by simp
    with h show ?thesis by simp
  next
    case False
    with v consider "atEnd ?c" | e where "parseValue fuel ?c = Some (Inl e)"
      by (metis not_None_eq old.sum.exhaust surj_pair)
    then show ?thesis by cases (simp_all add: Let_def)
  qed
qed simp

text \<open>The parser ends. On every logical line the recursion of the parser stays within fuel linear in
  the length of the line: parsing a command always gives a command or an error.\<close>

lemma imap_parser_total: "\<exists>r. parseCommand parts = Some r"
proof -
  have "parseValues parts \<noteq> None" unfolding parseValues_def by (rule parseValuesLoop_fuel) simp
  then show ?thesis by (auto simp: parseCommand_def split: option.split sum.split)
qed


section \<open>Printing\<close>

text \<open>A line as a sequence of characters and literals, and how values are written.\<close>

datatype item = IC char | IL bytes

fun part_items :: "line_part \<Rightarrow> item list" where
  "part_items (TextPart t) = map IC t"
| "part_items (LiteralPart b) = [IL b]"

definition flat :: "cursor \<Rightarrow> item list" where
  "flat cur = concat (map part_items cur)"

definition quote_items :: "string \<Rightarrow> item list" where
  "quote_items s = concat (map (\<lambda>c. if c = QUOTE \<or> c = BACKSLASH then [IC BACKSLASH, IC c] else [IC c]) s)"

fun print_value :: "imap_value \<Rightarrow> item list"
  and print_values :: "imap_value list \<Rightarrow> item list" where
  "print_value (V_atom a) = map IC a"
| "print_value (V_quoted s) = IC QUOTE # quote_items s @ [IC QUOTE]"
| "print_value (V_literal b) = [IL b]"
| "print_value (V_list vs) = IC CHR ''('' # print_values vs @ [IC CHR '')'']"
| "print_values [] = []"
| "print_values [v] = print_value v"
| "print_values (v # w # vs) = print_value v @ IC SP # print_values (w # vs)"

text \<open>What can be written: an atom is not empty, and has only atom characters after at most one leading backslash.\<close>

definition atom_ok :: "string \<Rightarrow> bool" where
  "atom_ok a \<longleftrightarrow> (let b = (if startsWith [BACKSLASH] a then tl a else a) in b \<noteq> [] \<and> list_all isAtomChar b)"

fun value_ok :: "imap_value \<Rightarrow> bool" where
  "value_ok (V_atom a) = atom_ok a"
| "value_ok (V_list vs) = list_all value_ok vs"
| "value_ok _ = True"

definition stops :: "item list \<Rightarrow> bool" where
  "stops r \<longleftrightarrow> (case r of IC c # _ \<Rightarrow> \<not> isAtomChar c | _ \<Rightarrow> True)"

lemma flat_simps [simp]:
  "flat [] = []" "flat (TextPart t # ps) = map IC t @ flat ps" "flat (LiteralPart b # ps) = IL b # flat ps"
  by (simp_all add: flat_def)

lemma quote_items_simps [simp]:
  "quote_items [] = []"
  "quote_items (c # s) = (if c = QUOTE \<or> c = BACKSLASH then [IC BACKSLASH, IC c] else [IC c]) @ quote_items s"
  by (simp_all add: quote_items_def)

lemma flat_skipEmpty [simp]: "flat (skipEmpty cur) = flat cur"
  by (induction cur rule: skipEmpty.induct) auto

lemma flat_skipSpaces: "flat (skipSpaces cur) = dropWhile (\<lambda>i. i = IC SP) (flat cur)"
  by (induction cur rule: skipSpaces.induct) auto

lemma skipEmpty_cases:
  obtains "skipEmpty cur = []" | b ps where "skipEmpty cur = LiteralPart b # ps"
  | c cs ps where "skipEmpty cur = TextPart (c # cs) # ps"
  by (induction cur rule: skipEmpty.induct) auto

lemma peek_flat:
  "snd (peek cur) = (case flat cur of [] \<Rightarrow> None | IC c # _ \<Rightarrow> Some c | IL b # _ \<Rightarrow> Some CHR ''{'')"
proof -
  have f: "flat cur = flat (skipEmpty cur)" by simp
  show ?thesis unfolding peek_def Let_def f by (cases rule: skipEmpty_cases [of cur]) simp_all
qed

lemma nextChar_flat:
  assumes "flat cur = IC c # r"
  shows "\<exists>cur1. nextChar cur = Inr (Some c, cur1) \<and> flat cur1 = r"
proof -
  have f: "flat (skipEmpty cur) = IC c # r" using assms by simp
  show ?thesis using f by (cases rule: skipEmpty_cases [of cur]) (auto simp: nextChar_def peek_def Let_def)
qed

lemma atLiteral_flat:
  assumes "flat cur = IL b # r"
  shows "\<exists>ps. atLiteral cur = (LiteralPart b # ps, True) \<and> flat ps = r"
proof -
  have f: "flat (skipEmpty cur) = IL b # r" using assms by simp
  show ?thesis using f by (cases rule: skipEmpty_cases [of cur]) (auto simp: atLiteral_def)
qed

lemma not_atLiteral_flat:
  assumes "\<nexists>b r. flat cur = IL b # r"
  shows "atLiteral cur = (skipEmpty cur, False)"
proof -
  have "\<nexists>b r. flat (skipEmpty cur) = IL b # r" using assms by simp
  then show ?thesis by (cases rule: skipEmpty_cases [of cur]) (auto simp: atLiteral_def)
qed

lemma quotedLoop_print:
  "flat cur = quote_items s @ IC QUOTE # r \<Longrightarrow> \<exists>cur'. quotedLoop out cur = Inr (V_quoted (out @ s), cur') \<and> flat cur' = r"
proof (induction s arbitrary: cur out)
  case Nil
  then show ?case using nextChar_flat [of cur QUOTE r] by (subst quotedLoop.simps) auto
next
  case (Cons c s)
  show ?case
  proof (cases "c = QUOTE \<or> c = BACKSLASH")
    case True
    with Cons.prems have "flat cur = IC BACKSLASH # IC c # quote_items s @ IC QUOTE # r" by simp
    then obtain cur1 where n: "nextChar cur = Inr (Some BACKSLASH, cur1)" "flat cur1 = IC c # quote_items s @ IC QUOTE # r"
      using nextChar_flat by blast
    obtain cur2 where m: "nextChar cur1 = Inr (Some c, cur2)" "flat cur2 = quote_items s @ IC QUOTE # r"
      using nextChar_flat [OF n(2)] by blast
    have "quotedLoop out cur = quotedLoop (out @ [c]) cur2" using n m True by (subst quotedLoop.simps) auto
    then show ?thesis using Cons.IH [OF m(2), of "out @ [c]"] by simp
  next
    case False
    with Cons.prems have "flat cur = IC c # quote_items s @ IC QUOTE # r" by simp
    then obtain cur1 where n: "nextChar cur = Inr (Some c, cur1)" "flat cur1 = quote_items s @ IC QUOTE # r"
      using nextChar_flat by blast
    have "quotedLoop out cur = quotedLoop (out @ [c]) cur1" using n False by (subst quotedLoop.simps) auto
    then show ?thesis using Cons.IH [OF n(2), of "out @ [c]"] by simp
  qed
qed

lemma atomLoop_print:
  "flat cur = map IC a @ r \<Longrightarrow> list_all isAtomChar a \<Longrightarrow> stops r \<Longrightarrow>
     \<exists>cur'. atomLoop out cur = Inr (out @ a, cur') \<and> flat cur' = r"
proof (induction a arbitrary: cur out)
  case Nil
  show ?case
  proof (cases "\<exists>b q. r = IL b # q")
    case True
    then show ?thesis using Nil atLiteral_flat [of cur] by (subst atomLoop.simps) auto
  next
    case False
    then have "atLiteral cur = (skipEmpty cur, False)" using Nil by (intro not_atLiteral_flat) auto
    then show ?thesis
      using Nil False by (subst atomLoop.simps) (auto simp: peek_flat stops_def split: list.splits item.splits)
  qed
next
  case (Cons c a)
  then have f: "flat (skipEmpty cur) = IC c # map IC a @ r" by simp
  have l: "atLiteral cur = (skipEmpty cur, False)" using Cons.prems by (intro not_atLiteral_flat) auto
  obtain cur2 where n: "nextChar (skipEmpty cur) = Inr (Some c, cur2)" "flat cur2 = map IC a @ r"
    using nextChar_flat [OF f] by blast
  have "atomLoop out cur = atomLoop (out @ [c]) cur2"
    using l n Cons.prems(2) f by (subst atomLoop.simps) (simp add: peek_flat)
  then show ?case using Cons.IH [OF n(2), of "out @ [c]"] Cons.prems by simp
qed

lemma atomChar_simps [simp]:
  "\<not> isAtomChar SP" "\<not> isAtomChar CHR '')''" "\<not> isAtomChar CHR ''(''" "\<not> isAtomChar QUOTE" "\<not> isAtomChar BACKSLASH"
  by (simp_all add: isAtomChar_def ATOM_SPECIALS_def)

lemma stops_simps [simp]: "stops []" "stops (IL b # r)" "stops (IC c # r) \<longleftrightarrow> \<not> isAtomChar c"
  by (simp_all add: stops_def)

lemma parseAtom_print:
  assumes "flat cur = map IC a @ r" "a \<noteq> []" "list_all isAtomChar a" "stops r"
  shows "\<exists>cur'. parseAtom cur = Inr (V_atom a, cur') \<and> flat cur' = r"
  using atomLoop_print [OF assms(1,3,4), of "[]"] assms(2) by (auto simp: parseAtom_def)

lemma parseFlag_print:
  assumes "flat cur = IC BACKSLASH # map IC a @ r" "a \<noteq> []" "list_all isAtomChar a" "stops r"
  shows "\<exists>cur'. parseFlag cur = Inr (V_atom (BACKSLASH # a), cur') \<and> flat cur' = r"
proof -
  obtain cur1 where "nextChar cur = Inr (Some BACKSLASH, cur1)" "flat cur1 = map IC a @ r"
    using nextChar_flat [OF assms(1)] by blast
  then show ?thesis using parseAtom_print [of cur1 a r] assms by (auto simp: parseFlag_def)
qed

text \<open>The first item of a written value.\<close>

lemma print_first:
  assumes "value_ok v"
  shows "\<exists>i is. print_value v = i # is \<and> i \<noteq> IC SP \<and> i \<noteq> IC CHR '')'' \<and> ((\<exists>b. i = IL b) \<longleftrightarrow> (\<exists>b. v = V_literal b))"
proof (cases v)
  case (V_atom a)
  then obtain c cs where a: "a = c # cs" using assms by (cases a) (auto simp: atom_ok_def Let_def)
  then have "c = BACKSLASH \<or> isAtomChar c" using assms V_atom by (auto simp: atom_ok_def Let_def split: if_splits)
  then have "c \<noteq> SP" "c \<noteq> CHR '')''" by auto
  then show ?thesis using V_atom a by simp
qed auto


lemma parseValue_atom:
  assumes "atom_ok a" "flat cur = map IC a @ r" "stops r"
  shows "\<exists>cur'. parseValue (Suc f) cur = Some (Inr (V_atom a, cur')) \<and> flat cur' = r"
proof -
  obtain c cs where a: "a = c # cs" using assms(1) by (cases a) (auto simp: atom_ok_def Let_def)
  have l: "atLiteral cur = (skipEmpty cur, False)" using assms(2) a by (intro not_atLiteral_flat) auto
  have p: "snd (peek (skipEmpty cur)) = Some c" using assms(2) a by (simp add: peek_flat)
  show ?thesis
  proof (cases "c = BACKSLASH")
    case True
    then show ?thesis
      using parseFlag_print [of "skipEmpty cur" cs r] assms a l p by (auto simp: atom_ok_def Let_def)
  next
    case False
    then have c: "isAtomChar c" "list_all isAtomChar a" using assms(1) a by (auto simp: atom_ok_def Let_def)
    then have "c \<noteq> QUOTE" "c \<noteq> CHR ''(''" by auto
    then show ?thesis using parseAtom_print [of "skipEmpty cur" a r] assms a l p False c by auto
  qed
qed

lemma parseValue_quoted:
  assumes "flat cur = IC QUOTE # quote_items s @ IC QUOTE # r"
  shows "\<exists>cur'. parseValue (Suc f) cur = Some (Inr (V_quoted s, cur')) \<and> flat cur' = r"
proof -
  have l: "atLiteral cur = (skipEmpty cur, False)" using assms by (intro not_atLiteral_flat) auto
  obtain cur1 where n: "nextChar (skipEmpty cur) = Inr (Some QUOTE, cur1)" "flat cur1 = quote_items s @ IC QUOTE # r"
    using nextChar_flat [of "skipEmpty cur"] assms by auto
  then show ?thesis using quotedLoop_print [OF n(2), of "[]"] l assms by (auto simp: peek_flat parseQuoted_def)
qed

lemma parseValue_literal:
  assumes "flat cur = IL b # r"
  shows "\<exists>cur'. parseValue (Suc f) cur = Some (Inr (V_literal b, cur')) \<and> flat cur' = r"
  using atLiteral_flat [OF assms] by (auto simp: takeLiteral_def)

text \<open>One item of a list, literal or not.\<close>

lemma parseListLoop_item:
  assumes "value_ok v" "dropWhile (\<lambda>i. i = IC SP) (flat cur) = print_value v @ r" "2 * csize cur + 1 < Suc f"
    and "\<And>cur0. flat cur0 = print_value v @ r \<Longrightarrow> csize cur0 \<le> csize cur \<Longrightarrow>
      \<exists>cur1. parseValue f cur0 = Some (Inr (v, cur1)) \<and> flat cur1 = r"
  shows "\<exists>cur1. parseListLoop (Suc f) items cur = parseListLoop f (items @ [v]) cur1 \<and> flat cur1 = r \<and> csize cur1 < csize cur"
proof -
  let ?c = "skipSpaces cur"
  have f: "flat ?c = print_value v @ r" using assms(2) by (simp add: flat_skipSpaces)
  have le: "csize ?c \<le> csize cur" by (rule skipSpaces_size)
  obtain i "is" where i: "print_value v = i # is" "i \<noteq> IC CHR '')''" "(\<exists>b. i = IL b) \<longleftrightarrow> (\<exists>b. v = V_literal b)"
    using print_first [OF assms(1)] by (elim exE conjE) (rule that)
  show ?thesis
  proof (cases "\<exists>b. v = V_literal b")
    case True
    then obtain b where v: "v = V_literal b" by blast
    then obtain ps where l: "atLiteral ?c = (LiteralPart b # ps, True)" "flat ps = r"
      using atLiteral_flat [of ?c b r] f by auto
    then have "csize ps < csize cur" using atLiteral_size [OF l(1)] le by simp
    then show ?thesis using l v by (auto simp: takeLiteral_def)
  next
    case False
    then obtain ch where ch: "i = IC ch" using i(3) by (cases i) auto
    have l: "atLiteral ?c = (skipEmpty ?c, False)" using f i(1) ch by (intro not_atLiteral_flat) auto
    have p: "snd (peek (skipEmpty ?c)) = Some ch" "ch \<noteq> CHR '')''" using f i ch by (auto simp: peek_flat)
    obtain cur1 where v: "parseValue f (skipEmpty ?c) = Some (Inr (v, cur1))" "flat cur1 = r"
      using assms(4) [of "skipEmpty ?c"] f le skipEmpty_size [of ?c] by auto
    have "csize cur1 < csize cur" using parse_value_size(1) [OF v(1)] skipEmpty_size [of ?c] le by simp
    then show ?thesis using l p v by auto
  qed
qed

lemma parse_print:
  "value_ok v \<Longrightarrow> flat cur = print_value v @ r \<Longrightarrow> stops r \<Longrightarrow> 2 * csize cur < f \<Longrightarrow>
     \<exists>cur'. parseValue f cur = Some (Inr (v, cur')) \<and> flat cur' = r"
  "list_all value_ok vs \<Longrightarrow> dropWhile (\<lambda>i. i = IC SP) (flat cur) = print_values vs @ IC CHR '')'' # r \<Longrightarrow>
     2 * csize cur + 1 < f \<Longrightarrow>
     \<exists>cur'. parseListLoop f items cur = Some (Inr (V_list (items @ vs), cur')) \<and> flat cur' = r"
proof (induction v and vs arbitrary: cur r f and cur r f items rule: print_value_print_values.induct)
  case (1 a)
  then obtain g where "f = Suc g" by (cases f) auto
  then show ?case using parseValue_atom [of a cur r g] 1 by simp
next
  case (2 s)
  then obtain g where "f = Suc g" by (cases f) auto
  then show ?case using parseValue_quoted [of cur s r g] 2 by simp
next
  case (3 b)
  then obtain g where "f = Suc g" by (cases f) auto
  then show ?case using parseValue_literal [of cur b r g] 3 by simp
next
  case (4 vs)
  then obtain g where g: "f = Suc g" by (cases f) auto
  let ?c = "skipEmpty cur"
  have fl: "flat ?c = IC CHR ''('' # print_values vs @ IC CHR '')'' # r" using "4.prems"(2) by simp
  have l: "atLiteral cur = (?c, False)" using "4.prems"(2) by (intro not_atLiteral_flat) auto
  obtain cur1 where n: "nextChar ?c = Inr (Some CHR ''('', cur1)" "flat cur1 = print_values vs @ IC CHR '')'' # r"
    using nextChar_flat [OF fl] by blast
  have sp: "dropWhile (\<lambda>i. i = IC SP) (flat cur1) = print_values vs @ IC CHR '')'' # r"
  proof (cases vs)
    case (Cons v ws)
    then obtain i "is" where "print_value v = i # is" "i \<noteq> IC SP" using print_first [of v] "4.prems"(1) by auto
    then show ?thesis using n(2) Cons by (cases ws) auto
  qed (simp add: n(2))
  have "2 * csize cur1 + 1 < g" using nextChar_size [OF n(1)] skipEmpty_size [of cur] "4.prems"(4) g by simp
  from "4.IH" [OF _ sp this, of "[]"] "4.prems"(1) obtain cur' where
    "parseListLoop g [] cur1 = Some (Inr (V_list vs, cur'))" "flat cur' = r" by auto
  then show ?case using l n fl g by (auto simp: peek_flat)
next
  case 5
  then obtain g where g: "f = Suc g" by (cases f) auto
  let ?c = "skipSpaces cur"
  have fl: "flat (skipEmpty ?c) = IC CHR '')'' # r" using "5.prems"(2) by (simp add: flat_skipSpaces)
  then have l: "atLiteral ?c = (skipEmpty ?c, False)" by (intro not_atLiteral_flat) auto
  obtain cur1 where "nextChar (skipEmpty ?c) = Inr (Some CHR '')'', cur1)" "flat cur1 = r"
    using nextChar_flat [OF fl] by blast
  then show ?case using l fl g by (auto simp: peek_flat)
next
  case (6 v)
  then obtain g where g: "f = Suc g" by (cases f) auto
  have "\<exists>cur1. parseListLoop (Suc g) items cur = parseListLoop g (items @ [v]) cur1 \<and>
      flat cur1 = IC CHR '')'' # r \<and> csize cur1 < csize cur"
    using 6 g by (intro parseListLoop_item) auto
  then obtain cur1 where c: "parseListLoop (Suc g) items cur = parseListLoop g (items @ [v]) cur1"
      "flat cur1 = IC CHR '')'' # r" "csize cur1 < csize cur" by blast
  obtain h where h: "g = Suc h" using "6.prems"(3) g by (cases g) auto
  have fl: "flat (skipEmpty (skipSpaces cur1)) = IC CHR '')'' # r" using c(2) by (simp add: flat_skipSpaces)
  then have l: "atLiteral (skipSpaces cur1) = (skipEmpty (skipSpaces cur1), False)" by (intro not_atLiteral_flat) auto
  obtain cur2 where "nextChar (skipEmpty (skipSpaces cur1)) = Inr (Some CHR '')'', cur2)" "flat cur2 = r"
    using nextChar_flat [OF fl] by blast
  then show ?case using c(1) l fl g h by (auto simp: peek_flat)
next
  case (7 v w vs)
  then obtain g where g: "f = Suc g" by (cases f) auto
  let ?r = "IC SP # print_values (w # vs) @ IC CHR '')'' # r"
  have "\<exists>cur1. parseListLoop (Suc g) items cur = parseListLoop g (items @ [v]) cur1 \<and>
      flat cur1 = ?r \<and> csize cur1 < csize cur"
    using 7 g by (intro parseListLoop_item) auto
  then obtain cur1 where c: "parseListLoop (Suc g) items cur = parseListLoop g (items @ [v]) cur1"
      "flat cur1 = ?r" "csize cur1 < csize cur" by blast
  obtain i "is" where "print_value w = i # is" "i \<noteq> IC SP" using print_first [of w] "7.prems"(1) by auto
  then have "dropWhile (\<lambda>i. i = IC SP) (flat cur1) = print_values (w # vs) @ IC CHR '')'' # r"
    using c(2) by (cases vs) auto
  moreover have "2 * csize cur1 + 1 < g" using c(3) "7.prems"(3) g by simp
  ultimately show ?case using "7.IH"(2) [of cur1 r g "items @ [v]"] "7.prems"(1) c(1) g by simp
qed

lemma print_values_no_space:
  "list_all value_ok vs \<Longrightarrow> dropWhile (\<lambda>i. i = IC SP) (print_values vs) = print_values vs"
proof (cases vs)
  case (Cons v ws)
  assume "list_all value_ok vs"
  then obtain i "is" where "print_value v = i # is" "i \<noteq> IC SP" using print_first [of v] Cons by auto
  then show ?thesis using Cons by (cases ws) auto
qed simp

lemma parseValuesLoop_print:
  "list_all value_ok vs \<Longrightarrow> dropWhile (\<lambda>i. i = IC SP) (flat cur) = print_values vs \<Longrightarrow> 2 * csize cur + 1 < f \<Longrightarrow>
     parseValuesLoop f vals cur = Some (Inr (vals @ vs))"
proof (induction vs arbitrary: vals cur f)
  case Nil
  then obtain g where "f = Suc g" by (cases f) auto
  moreover have "flat (skipSpaces cur) = []" using Nil by (simp add: flat_skipSpaces)
  ultimately show ?case by (simp add: atEnd_def peek_flat)
next
  case (Cons v ws)
  obtain g where g: "f = Suc g" using Cons.prems(3) by (cases f) auto
  let ?c = "skipSpaces cur" and ?r = "if ws = [] then [] else IC SP # print_values ws"
  have fl: "flat ?c = print_value v @ ?r" using Cons.prems(2) by (cases ws) (simp_all add: flat_skipSpaces)
  have ok: "value_ok v" using Cons.prems(1) by simp
  have le: "csize ?c \<le> csize cur" by (rule skipSpaces_size)
  have st: "stops ?r" by simp
  obtain cur1 where p: "parseValue g ?c = Some (Inr (v, cur1))" "flat cur1 = ?r"
    using parse_print(1) [OF ok fl st, of g] Cons.prems(3) g le by auto
  have "\<not> atEnd ?c" using fl print_first [OF ok] by (auto simp: atEnd_def peek_flat split: item.split)
  then have "parseValuesLoop f vals cur = parseValuesLoop g (vals @ [v]) cur1" using p g by simp
  also have "\<dots> = Some (Inr ((vals @ [v]) @ ws))"
  proof (rule Cons.IH)
    show "dropWhile (\<lambda>i. i = IC SP) (flat cur1) = print_values ws"
      using p(2) print_values_no_space [of ws] Cons.prems(1) by (cases ws) auto
    show "2 * csize cur1 + 1 < g" using parse_value_size(1) [OF p(1)] le Cons.prems(3) g by simp
  qed (use Cons.prems(1) in simp)
  finally show ?case by simp
qed

text \<open>A line that spells out any sequence of values is parsed to exactly those values.\<close>

lemma parseValues_print:
  assumes "list_all value_ok vs" "flat parts = print_values vs"
  shows "parseValues parts = Some (Inr vs)"
proof -
  have "parseValuesLoop (2 * csize parts + 2) [] parts = Some (Inr ([] @ vs))"
    using assms print_values_no_space [OF assms(1)] by (intro parseValuesLoop_print) simp_all
  then show ?thesis unfolding parseValues_def by (simp only: append_Nil)
qed

section \<open>From the wire to the command\<close>

text \<open>The items of a line as text pieces with non-synchronising literals, and the last piece.\<close>

fun segsOf :: "string \<Rightarrow> item list \<Rightarrow> (string \<times> bytes \<times> bool) list \<times> string" where
  "segsOf acc [] = ([], acc)"
| "segsOf acc (IC c # r) = segsOf (acc @ [c]) r"
| "segsOf acc (IL b # r) = (let (segs, final) = segsOf [] r in ((acc, b, True) # segs, final))"

lemma flat_segsOf: "segsOf acc items = (segs, final) \<Longrightarrow> flat (lineParts segs @ [TextPart final]) = map IC acc @ items"
  by (induction acc items arbitrary: segs final rule: segsOf.induct) (auto split: prod.splits)

lemma segsOf_continues: "segsOf acc items = (segs, final) \<Longrightarrow> lineContinues segs = []"
  by (induction acc items arbitrary: segs final rule: segsOf.induct) (auto split: prod.splits)

lemma flat_nonempty_parts: "flat (lineParts segs @ [TextPart final]) \<noteq> [] \<Longrightarrow> final \<noteq> [] \<or> segs \<noteq> []"
  by (cases segs) auto

text \<open>C36: IMAP commands over the wire. A command with any arguments, atoms, flags, quoted strings with
  their escapes, literals of any bytes and lists nested to any depth, written to the wire with
  non-synchronising literals and within the reader's limits, comes out of the reader as one
  logical line and of the parser as exactly that tag, name and arguments.\<close>

theorem imap_command_wire:
  assumes "reader_idle r" "ir_buffer r = []" "ir_parts r = []" "ir_textLen r = 0"
    and "atom_ok tag" "\<not> (CHR ''+'' \<in> set tag \<or> CHR ''*'' \<in> set tag \<or> CHR ''%'' \<in> set tag)" "atom_ok name" "list_all value_ok args"
    and "segsOf [] (print_values (V_atom tag # V_atom name # args)) = (segs, final)" "lineFits r 0 segs final"
  shows "\<exists>parts. reader_feed (wireLine segs final) r = (r, [RE_line parts]) \<and>
    parseCommand parts = Some (Inr \<lparr>pc_tag = tag, pc_name = toUpperCase name, pc_args = args\<rparr>)"
proof -
  let ?vs = "V_atom tag # V_atom name # args" and ?parts = "lineParts segs @ [TextPart final]"
  have f: "flat ?parts = print_values ?vs" using flat_segsOf [OF assms(9)] by simp
  have ok: "list_all value_ok ?vs" using assms(5,7,8) by simp
  have "print_values ?vs \<noteq> []" using print_first [of "V_atom tag"] assms(5) by auto
  then have "final \<noteq> [] \<or> segs \<noteq> []" using flat_nonempty_parts [of segs final] f by argo
  then have "reader_feed (wireLine segs final) r = (r, [RE_line ?parts])"
    using reader_feed_line [OF assms(1-4,10)] segsOf_continues [OF assms(9)] by auto
  moreover have "parseCommand ?parts = Some (Inr \<lparr>pc_tag = tag, pc_name = toUpperCase name, pc_args = args\<rparr>)"
    using parseValues_print [OF ok f] assms(6) by (simp add: parseCommand_def commandOf_def)
  ultimately show ?thesis by blast
qed

theorem imap_command_wire_witness:
  "\<exists>parts. reader_feed (''a1 login {1+}'' @ CRLF @ [LF] @ '' (x)'' @ CRLF) (imapReader_new None None None) =
       (imapReader_new None None None, [RE_line parts]) \<and>
     parseCommand parts = Some (Inr \<lparr>pc_tag = ''a1'', pc_name = ''LOGIN'', pc_args = [V_literal [LF], V_list [V_atom ''x'']]\<rparr>)"
proof -
  let ?r = "imapReader_new None None None" and ?segs = "[(''a1 login '', [LF], True)]" and ?args = "[V_literal [LF], V_list [V_atom ''x'']]"
  have r: "reader_idle ?r" "ir_buffer ?r = []" "ir_parts ?r = []" "ir_textLen ?r = 0"
    by (simp_all add: reader_idle_def imapReader_new_def)
  have a: "atom_ok ''a1''" "\<not> (CHR ''+'' \<in> set ''a1'' \<or> CHR ''*'' \<in> set ''a1'' \<or> CHR ''%'' \<in> set ''a1'')" "atom_ok ''login''"
      "list_all value_ok ?args"
    by code_simp+
  have s: "segsOf [] (print_values (V_atom ''a1'' # V_atom ''login'' # ?args)) = (?segs, '' (x)'')" "lineFits ?r 0 ?segs '' (x)''"
    by code_simp+
  have "wireLine ?segs '' (x)'' = ''a1 login {1+}'' @ CRLF @ [LF] @ '' (x)'' @ CRLF" "toUpperCase ''login'' = ''LOGIN''"
    by code_simp+
  then show ?thesis using imap_command_wire [OF r a s] by simp
qed

end
