(* ===== verification/RegexSyntax.thy ===== *)
theory RegexSyntax
  imports Prelude
begin

text \<open>
  The pattern parser of the regular expression engine (\<open>core/src/regex.ts\<close>), which Sieve's
  \<open>:regex\<close> uses. The parser state \<open>{src, pos, groups}\<close> is the pair of the input from \<open>pos\<close> on and the
  number of groups; \<open>RegexSyntaxError\<close> is \<open>Inl\<close>. The recursion through groups takes fuel, with \<open>None\<close>
  for running out, and \<open>parsePattern_total\<close> shows that the fuel given is enough for every pattern.
\<close>

section \<open>The syntax tree\<close>

type_synonym code_ranges = "(nat \<times> nat) list"

datatype rnode =
    RN_empty
  | RN_char char
  | RN_any
  | RN_class bool code_ranges
  | RN_bol
  | RN_eol
  | RN_cat "rnode list"
  | RN_alt "rnode list"
  | RN_repeat rnode nat "nat option"
  | RN_group rnode nat

type_synonym re_state = "string \<times> nat"

definition MAX_PATTERN_CHARS :: nat where
  "MAX_PATTERN_CHARS = 4096"

definition MAX_REPEAT :: nat where
  "MAX_REPEAT = 1000"

definition WORD_RANGES :: code_ranges where
  "WORD_RANGES = [(48, 57), (65, 90), (95, 95), (97, 122)]"

definition SHORTHAND :: "char \<Rightarrow> (bool \<times> code_ranges) option" where
  "SHORTHAND c =
     (if c = CHR ''d'' then Some (False, [(48, 57)])
      else if c = CHR ''D'' then Some (True, [(48, 57)])
      else if c = CHR ''w'' then Some (False, WORD_RANGES)
      else if c = CHR ''W'' then Some (True, WORD_RANGES)
      else if c = CHR ''s'' then Some (False, [(9, 13), (32, 32)])
      else if c = CHR ''S'' then Some (True, [(9, 13), (32, 32)])
      else None)"

text \<open>\<open>CONTROL_ESCAPES[esc] ?? esc\<close>.\<close>

definition control_escape :: "char \<Rightarrow> char" where
  "control_escape c =
     (if c = CHR ''n'' then LF else if c = CHR ''r'' then CR else if c = CHR ''t'' then TAB
      else if c = CHR ''f'' then CHR 0x0C else if c = CHR ''v'' then CHR 0x0B
      else if c = CHR ''0'' then CHR 0x00 else c)"

abbreviation BSLASH :: char where "BSLASH \<equiv> CHR 0x5C"

section \<open>Bounds and classes\<close>

text \<open>
  \<open>/^(\d+)(?:(,)(\d*))?$/\<close> on the text between the braces; the argument begins at the opening brace.
  \<open>Inr None\<close> is the result \<open>null\<close>: the brace is a literal character.
\<close>

definition boundsMatch :: "string \<Rightarrow> (nat \<times> nat option) option" where
  "boundsMatch body =
     (let ds = takeWhile is_digit body; r = dropWhile is_digit body in
      if ds = [] then None
      else case r of
        [] \<Rightarrow> Some (digits_value ds, Some (digits_value ds))
      | c # ds2 \<Rightarrow>
          if c = CHR '','' \<and> list_all is_digit ds2
          then Some (digits_value ds, if ds2 = [] then None else Some (digits_value ds2)) else None)"

definition parseBounds :: "string \<Rightarrow> string + (nat \<times> nat option \<times> string) option" where
  "parseBounds r =
     (case indexOf CHR ''}'' r of
        None \<Rightarrow> Inr None
      | Some close \<Rightarrow>
          (case boundsMatch (slice 1 close r) of
             None \<Rightarrow> Inr None
           | Some (mn, mx) \<Rightarrow>
               if mn > MAX_REPEAT \<or> (case mx of Some m \<Rightarrow> m > MAX_REPEAT | None \<Rightarrow> False)
               then Inl (''repetition count too large (max '' @ show_nat MAX_REPEAT @ '')'')
               else if (case mx of Some m \<Rightarrow> m < mn | None \<Rightarrow> False) then Inl ''repetition bounds out of order''
               else Inr (Some (mn, mx, drop (close + 1) r))))"

text \<open>After the lower end of a range: the upper end, when a hyphen and a character other than \<open>]\<close> follow.\<close>

definition classRange :: "nat \<Rightarrow> string \<Rightarrow> string + (nat \<times> nat) \<times> string" where
  "classRange lo r =
     (case r of
        h # x # r1 \<Rightarrow>
          if h \<noteq> CHR ''-'' \<or> x = CHR '']'' then Inr ((lo, lo), r)
          else if x = BSLASH then
            (case r1 of
               [] \<Rightarrow> Inl ''trailing backslash in class''
             | esc # r2 \<Rightarrow>
                 (let hi = code (control_escape esc) in
                  if hi < lo then Inl ''character class range out of order'' else Inr ((lo, hi), r2)))
          else if code x < lo then Inl ''character class range out of order'' else Inr ((lo, code x), r1)
      | _ \<Rightarrow> Inr ((lo, lo), r))"

lemma classRange_shorter: "classRange lo r = Inr (p, r') \<Longrightarrow> length r' \<le> length r"
  by (auto simp: classRange_def Let_def split: list.splits if_splits)

function classLoop :: "string \<Rightarrow> code_ranges \<Rightarrow> string + code_ranges \<times> string" where
  "classLoop r ranges =
     (case r of
        [] \<Rightarrow> Inl ''unclosed character class''
      | ch # r1 \<Rightarrow>
          if ch = CHR '']'' then Inr (ranges, r1)
          else if ch = BSLASH then
            (case r1 of
               [] \<Rightarrow> Inl ''trailing backslash in class''
             | esc # r2 \<Rightarrow>
                 (case SHORTHAND esc of
                    Some (neg, rs) \<Rightarrow>
                      if neg then Inl (BSLASH # esc # '' inside a character class is not supported'')
                      else classLoop r2 (ranges @ rs)
                  | None \<Rightarrow>
                      (case classRange (code (control_escape esc)) r2 of
                         Inl e \<Rightarrow> Inl e
                       | Inr (p, r3) \<Rightarrow> classLoop r3 (ranges @ [p]))))
          else (case classRange (code ch) r1 of
                  Inl e \<Rightarrow> Inl e
                | Inr (p, r3) \<Rightarrow> classLoop r3 (ranges @ [p])))"
  by pat_completeness auto
termination
  by (relation "measure (\<lambda>(r, ranges). length r)") (auto dest!: classRange_shorter)

declare classLoop.simps [simp del]

text \<open>The argument begins after the opening bracket.\<close>

definition parseClass :: "string \<Rightarrow> string + rnode \<times> string" where
  "parseClass r =
     (let negate = startsWith ''^'' r;
          r1 = (if negate then tl r else r);
          lit = startsWith '']'' r1;
          r2 = (if lit then tl r1 else r1)
      in case classLoop r2 (if lit then [(93, 93)] else []) of
           Inl e \<Rightarrow> Inl e
         | Inr (ranges, r3) \<Rightarrow> Inr (RN_class negate ranges, r3))"

section \<open>The recursive parser\<close>

text \<open>Sequencing of fallible calls that may run out of fuel.\<close>

definition pbind :: "('e + 'a) option \<Rightarrow> ('a \<Rightarrow> ('e + 'b) option) \<Rightarrow> ('e + 'b) option" where
  "pbind x f = (case x of None \<Rightarrow> None | Some (Inl e) \<Rightarrow> Some (Inl e) | Some (Inr a) \<Rightarrow> f a)"

lemma pbind_simps [simp]:
  "pbind None f = None" "pbind (Some (Inl e)) f = Some (Inl e)" "pbind (Some (Inr a)) f = f a"
  by (simp_all add: pbind_def)

lemma pbind_Some_iff [simp]:
  "pbind x f = Some (Inr b) \<longleftrightarrow> (\<exists>a. x = Some (Inr a) \<and> f a = Some (Inr b))"
  by (auto simp: pbind_def split: option.split sum.split)

lemma pbind_not_None: "x \<noteq> None \<Longrightarrow> (\<And>a. x = Some (Inr a) \<Longrightarrow> f a \<noteq> None) \<Longrightarrow> pbind x f \<noteq> None"
  by (auto simp: pbind_def split: option.split sum.split)

definition altNode :: "rnode list \<Rightarrow> rnode" where
  "altNode parts = (if length parts = 1 then hd parts else RN_alt parts)"

definition catNode :: "rnode list \<Rightarrow> rnode" where
  "catNode parts = (if length parts = 0 then RN_empty else if length parts = 1 then hd parts else RN_cat parts)"

text \<open>An escape outside a class; the argument begins after the backslash.\<close>

definition parseEscape :: "string \<Rightarrow> string + rnode \<times> string" where
  "parseEscape r =
     (case r of
        [] \<Rightarrow> Inl ''trailing backslash''
      | esc # r1 \<Rightarrow>
          if 49 \<le> code esc \<and> code esc \<le> 57 then Inl ''backreferences are not supported''
          else (case SHORTHAND esc of
                  Some (neg, rs) \<Rightarrow> Inr (RN_class neg rs, r1)
                | None \<Rightarrow> Inr (RN_char (control_escape esc), r1)))"

text \<open>The quantifiers after an atom: a loop over \<open>*\<close>, \<open>+\<close>, \<open>?\<close> and bounds.\<close>

lemma parseBounds_shorter:
  assumes "parseBounds r = Inr (Some (mn, mx, r'))"
  shows "length r' < length r"
proof -
  obtain c where "indexOf CHR ''}'' r = Some c" "r' = drop (c + 1) r"
    using assms by (auto simp: parseBounds_def split: option.splits if_splits prod.splits)
  then show ?thesis using find_index_SomeD [of "\<lambda>x. x = CHR ''}''" r c] by auto
qed

function repeatLoop :: "rnode \<Rightarrow> string \<Rightarrow> string + rnode \<times> string" where
  "repeatLoop nd r =
     (case r of
        [] \<Rightarrow> Inr (nd, r)
      | ch # r1 \<Rightarrow>
          if ch = CHR ''*'' then repeatLoop (RN_repeat nd 0 None) r1
          else if ch = CHR ''+'' then repeatLoop (RN_repeat nd 1 None) r1
          else if ch = CHR ''?'' then repeatLoop (RN_repeat nd 0 (Some 1)) r1
          else if ch = CHR ''{'' then
            (case parseBounds r of
               Inl e \<Rightarrow> Inl e
             | Inr None \<Rightarrow> Inr (nd, r)
             | Inr (Some (mn, mx, r2)) \<Rightarrow> repeatLoop (RN_repeat nd mn mx) r2)
          else Inr (nd, r))"
  by pat_completeness auto
termination
  by (relation "measure (\<lambda>(nd, r). length r)") (auto dest: parseBounds_shorter)

declare repeatLoop.simps [simp del]

text \<open>
  The functions call each other through groups only, so \<open>alt\<close>, the parser of what is inside a group,
  is an argument of the ones below \<open>parseAlternation\<close>, whose fuel is the nesting depth; the two
  \<open>while\<close> loops count down the characters left.
\<close>

type_synonym re_result = "(string + rnode \<times> re_state) option"

definition re_parseAtom :: "(re_state \<Rightarrow> re_result) \<Rightarrow> re_state \<Rightarrow> re_result" where
  "re_parseAtom alt st =
     (let (r, g) = st in
      case r of
        [] \<Rightarrow> Some (Inr (RN_empty, r, g))
      | ch # r1 \<Rightarrow>
          if ch = CHR ''('' then
            (if startsWith ''?'' r1 then Some (Inl ''(?...) groups are not supported'')
             else pbind (alt (r1, g + 1))
                    (\<lambda>(inner, r2, g2).
                       Some (if startsWith '')'' r2 then Inr (RN_group inner (g + 1), tl r2, g2)
                             else Inl ''unclosed group'')))
          else if ch = CHR ''['' then
            Some (case parseClass r1 of Inl e \<Rightarrow> Inl e | Inr (nd, r2) \<Rightarrow> Inr (nd, r2, g))
          else if ch = DOT then Some (Inr (RN_any, r1, g))
          else if ch = CHR ''^'' then Some (Inr (RN_bol, r1, g))
          else if ch = CHR ''$'' then Some (Inr (RN_eol, r1, g))
          else if ch = BSLASH then
            Some (case parseEscape r1 of Inl e \<Rightarrow> Inl e | Inr (nd, r2) \<Rightarrow> Inr (nd, r2, g))
          else if ch = CHR '')'' then Some (Inl ''unmatched )'')
          else Some (Inr (RN_char ch, r1, g)))"

definition parseRepeat :: "(re_state \<Rightarrow> re_result) \<Rightarrow> re_state \<Rightarrow> re_result" where
  "parseRepeat alt st =
     pbind (re_parseAtom alt st)
       (\<lambda>(nd, r1, g1). Some (case repeatLoop nd r1 of Inl e \<Rightarrow> Inl e | Inr (nd1, r2) \<Rightarrow> Inr (nd1, r2, g1)))"

fun concatLoop :: "(re_state \<Rightarrow> re_result) \<Rightarrow> nat \<Rightarrow> rnode list \<Rightarrow> re_state \<Rightarrow> re_result" where
  "concatLoop alt 0 parts st = None"
| "concatLoop alt (Suc n) parts st =
     (let (r, g) = st in
      if length r > 0 \<and> hd r \<noteq> CHR ''|'' \<and> hd r \<noteq> CHR '')''
      then pbind (parseRepeat alt st) (\<lambda>(p, st1). concatLoop alt n (parts @ [p]) st1)
      else Some (Inr (catNode parts, st)))"

definition parseConcat :: "(re_state \<Rightarrow> re_result) \<Rightarrow> re_state \<Rightarrow> re_result" where
  "parseConcat alt st = concatLoop alt (length (fst st) + 1) [] st"

fun altLoop :: "(re_state \<Rightarrow> re_result) \<Rightarrow> nat \<Rightarrow> rnode list \<Rightarrow> re_state \<Rightarrow> re_result" where
  "altLoop alt 0 parts st = None"
| "altLoop alt (Suc n) parts st =
     (let (r, g) = st in
      if startsWith ''|'' r
      then pbind (parseConcat alt (tl r, g)) (\<lambda>(p, st1). altLoop alt n (parts @ [p]) st1)
      else Some (Inr (altNode parts, st)))"

fun parseAlternation :: "nat \<Rightarrow> re_state \<Rightarrow> re_result" where
  "parseAlternation 0 st = None"
| "parseAlternation (Suc depth) st =
     pbind (parseConcat (parseAlternation depth) st)
       (\<lambda>(p, st1). altLoop (parseAlternation depth) (length (fst st1) + 1) [p] st1)"

text \<open>The first part of \<open>compileRegex\<close>: the tree and the number of groups of a whole pattern.\<close>

definition parsePattern :: "string \<Rightarrow> (string + rnode \<times> nat) option" where
  "parsePattern pattern =
     (if length pattern > MAX_PATTERN_CHARS
      then Some (Inl (''pattern too long (max '' @ show_nat MAX_PATTERN_CHARS @ '')''))
      else pbind (parseAlternation (length pattern + 1) (pattern, 0))
             (\<lambda>(ast, r, g).
                Some (if r \<noteq> []
                      then Inl (''unexpected '' @ [hd r] @ '' at '' @ show_nat (length pattern - length r))
                      else Inr (ast, g))))"
section \<open>Totality\<close>

lemma startsWith_one [simp]: "startsWith [c] r \<longleftrightarrow> (\<exists>r1. r = c # r1)"
  by (cases r) auto

lemma classLoop_shorter: "classLoop r ranges = Inr (rs, r') \<Longrightarrow> length r' < length r"
proof (induction "length r" arbitrary: r ranges rule: less_induct)
  case less
  obtain ch r1 where r: "r = ch # r1" using less.prems by (cases r) (auto simp: classLoop.simps)
  have rec: "length r' < length r" if "classLoop r3 x = Inr (rs, r')" "length r3 \<le> length r1" for r3 x
    using less.hyps [OF _ that(1)] that(2) r by simp
  have range: "length r' < length r"
    if "(case classRange lo r2 of Inl e \<Rightarrow> Inl e | Inr (p, r3) \<Rightarrow> classLoop r3 (ranges @ [p])) = Inr (rs, r')"
      "length r2 \<le> length r1" for lo r2
    using that(1) rec classRange_shorter [of lo r2] order_trans [OF _ that(2)] by (auto split: sum.splits)
  show ?case
  proof (cases "ch = BSLASH")
    case True
    then obtain esc r2 where r1: "r1 = esc # r2"
      using less.prems r by (cases r1) (auto simp: classLoop.simps)
    have l: "length r2 \<le> length r1" by (simp add: r1)
    show ?thesis
    proof (cases "SHORTHAND esc")
      case None
      then show ?thesis using less.prems r r1 True range [of _ r2] l by (subst (asm) classLoop.simps) simp
    next
      case (Some a)
      then show ?thesis
        using less.prems r r1 True rec [of r2] l by (subst (asm) classLoop.simps) (auto split: prod.splits if_splits)
    qed
  next
    case False
    then show ?thesis
      using less.prems r range [of "code ch" r1] by (subst (asm) classLoop.simps) (simp split: if_splits)
  qed
qed

lemma parseClass_shorter: "parseClass r = Inr (nd, r') \<Longrightarrow> length r' < length r"
  by (auto simp: parseClass_def Let_def dest!: classLoop_shorter split: if_splits sum.splits)

lemma parseEscape_shorter: "parseEscape r = Inr (nd, r') \<Longrightarrow> length r' < length r"
  by (auto simp: parseEscape_def split: list.splits if_splits option.splits)

lemma repeatLoop_shorter: "repeatLoop nd r = Inr (nd', r') \<Longrightarrow> length r' \<le> length r"
proof (induction "length r" arbitrary: nd r rule: less_induct)
  case less
  show ?case
  proof (cases r)
    case Nil
    then show ?thesis using less.prems by (simp add: repeatLoop.simps)
  next
    case (Cons ch r1)
    have rec: "length r' \<le> length r" if "repeatLoop x r3 = Inr (nd', r')" "length r3 < length r" for r3 x
      using less.hyps [OF that(2,1)] that(2) by simp
    show ?thesis
    proof (cases "\<exists>mn mx r2. ch = CHR ''{'' \<and> parseBounds r = Inr (Some (mn, mx, r2))")
      case True
      then obtain mn mx r2 where b: "ch = CHR ''{''" "parseBounds r = Inr (Some (mn, mx, r2))" by blast
      then have "repeatLoop (RN_repeat nd mn mx) r2 = Inr (nd', r')"
        using less.prems Cons by (subst (asm) repeatLoop.simps) simp
      then show ?thesis using rec parseBounds_shorter [OF b(2)] by blast
    next
      case False
      then show ?thesis
        using less.prems Cons rec [of _ r1]
        by (subst (asm) repeatLoop.simps) (auto split: if_splits sum.splits option.splits)
    qed
  qed
qed

text \<open>A parser that, on inputs shorter than \<open>N\<close>, returns and does not lengthen the input.\<close>

definition good_parser :: "nat \<Rightarrow> (re_state \<Rightarrow> re_result) \<Rightarrow> bool" where
  "good_parser N alt \<longleftrightarrow> (\<forall>r g. length r < N \<longrightarrow> alt (r, g) \<noteq> None \<and>
     (\<forall>nd r' g'. alt (r, g) = Some (Inr (nd, r', g')) \<longrightarrow> length r' \<le> length r))"

lemma good_parserD:
  assumes "good_parser N alt" "length r < N"
  shows "alt (r, g) \<noteq> None" "alt (r, g) = Some (Inr (nd, r', g')) \<Longrightarrow> length r' \<le> length r"
  using assms unfolding good_parser_def by blast+

lemma good_parserI:
  assumes "\<And>r g. length r < N \<Longrightarrow> alt (r, g) \<noteq> None"
    and "\<And>r g nd r' g'. length r < N \<Longrightarrow> alt (r, g) = Some (Inr (nd, r', g')) \<Longrightarrow> length r' \<le> length r"
  shows "good_parser N alt"
  using assms unfolding good_parser_def by blast

lemma re_parseAtom_good:
  assumes "good_parser N alt" "length r \<le> N" "r \<noteq> []"
  shows "re_parseAtom alt (r, g) \<noteq> None"
    and "re_parseAtom alt (r, g) = Some (Inr (nd, r', g')) \<Longrightarrow> length r' < length r"
proof -
  obtain ch r1 where r: "r = ch # r1" using assms(3) by (cases r) auto
  have "length r1 < N" using assms(2) r by simp
  note a = good_parserD [OF assms(1) this, of "g + 1"]
  show "re_parseAtom alt (r, g) \<noteq> None"
    using a(1) by (auto simp: re_parseAtom_def r pbind_def split: option.split sum.split prod.split)
  show "length r' < length r" if h: "re_parseAtom alt (r, g) = Some (Inr (nd, r', g'))"
  proof (cases "ch = CHR ''(''")
    case True
    then obtain inner r2 where "alt (r1, g + 1) = Some (Inr (inner, r2, g'))" "r2 = CHR '')'' # r'"
      using h by (auto simp: re_parseAtom_def r split: if_splits)
    then show ?thesis using a(2) r by fastforce
  next
    case False
    then show ?thesis
      using h parseClass_shorter [of r1 nd r'] parseEscape_shorter [of r1 nd r']
      by (auto simp: re_parseAtom_def r split: if_splits sum.splits)
  qed
qed

lemma re_result_cases [case_names none error parsed]:
  assumes "x = None \<Longrightarrow> P" "\<And>e. x = Some (Inl e) \<Longrightarrow> P"
    and "\<And>nd r g. x = Some (Inr (nd, (r :: string), (g :: nat))) \<Longrightarrow> P"
  shows P
  using assms by (cases x; cases "the x") auto

lemma parseRepeat_good:
  assumes "good_parser N alt" "length r \<le> N" "r \<noteq> []"
  shows "parseRepeat alt (r, g) \<noteq> None"
    and "parseRepeat alt (r, g) = Some (Inr (nd, r', g')) \<Longrightarrow> length r' < length r"
proof -
  show "parseRepeat alt (r, g) \<noteq> None"
    using re_parseAtom_good(1) [OF assms, of g] unfolding parseRepeat_def by (intro pbind_not_None) auto
  assume "parseRepeat alt (r, g) = Some (Inr (nd, r', g'))"
  then obtain nd1 r1 where "re_parseAtom alt (r, g) = Some (Inr (nd1, r1, g'))" "repeatLoop nd1 r1 = Inr (nd, r')"
    by (cases "re_parseAtom alt (r, g)" rule: re_result_cases) (auto simp: parseRepeat_def split: sum.splits)
  then show "length r' < length r" using re_parseAtom_good(2) [OF assms] repeatLoop_shorter le_less_trans by blast
qed

lemma concatLoop_good:
  assumes "good_parser N alt" "length r \<le> N" "length r < n"
  shows "concatLoop alt n parts (r, g) \<noteq> None"
    and "concatLoop alt n parts (r, g) = Some (Inr (nd, r', g')) \<Longrightarrow> length r' \<le> length r"
proof -
  have "concatLoop alt n parts (r, g) \<noteq> None \<and>
    (\<forall>nd r' g'. concatLoop alt n parts (r, g) = Some (Inr (nd, r', g')) \<longrightarrow> length r' \<le> length r)"
    using assms(2,3)
  proof (induction n arbitrary: parts r g)
    case (Suc n)
    show ?case
    proof (cases "length r > 0 \<and> hd r \<noteq> CHR ''|'' \<and> hd r \<noteq> CHR '')''")
      case True
      then have r: "r \<noteq> []" by auto
      note p = parseRepeat_good [OF assms(1) Suc.prems(1) r, of g]
      have "concatLoop alt n (parts @ [q]) (r1, g1) \<noteq> None \<and>
          (\<forall>nd r' g'. concatLoop alt n (parts @ [q]) (r1, g1) = Some (Inr (nd, r', g')) \<longrightarrow> length r' \<le> length r)"
        if "parseRepeat alt (r, g) = Some (Inr (q, r1, g1))" for q r1 g1
        using Suc.IH [of r1 "parts @ [q]" g1] p(2) [OF that] Suc.prems by force
      then show ?thesis
        using True p(1) by (cases "parseRepeat alt (r, g)" rule: re_result_cases) auto
    next
      case False
      then show ?thesis by auto
    qed
  qed simp
  then show "concatLoop alt n parts (r, g) \<noteq> None"
    "concatLoop alt n parts (r, g) = Some (Inr (nd, r', g')) \<Longrightarrow> length r' \<le> length r" by blast+
qed

lemma altLoop_good:
  assumes "good_parser N alt" "length r \<le> N" "length r < n"
  shows "altLoop alt n parts (r, g) \<noteq> None"
    and "altLoop alt n parts (r, g) = Some (Inr (nd, r', g')) \<Longrightarrow> length r' \<le> length r"
proof -
  have "altLoop alt n parts (r, g) \<noteq> None \<and>
    (\<forall>nd r' g'. altLoop alt n parts (r, g) = Some (Inr (nd, r', g')) \<longrightarrow> length r' \<le> length r)"
    using assms(2,3)
  proof (induction n arbitrary: parts r g)
    case (Suc n)
    show ?case
    proof (cases "\<exists>r1. r = CHR ''|'' # r1")
      case True
      then obtain r1 where r: "r = CHR ''|'' # r1" by blast
      have "length r1 \<le> N" using Suc.prems r by simp
      note p = concatLoop_good [OF assms(1) this, of "length r1 + 1" "[]" g]
      have "altLoop alt n (parts @ [q]) (r2, g2) \<noteq> None \<and>
          (\<forall>nd r' g'. altLoop alt n (parts @ [q]) (r2, g2) = Some (Inr (nd, r', g')) \<longrightarrow> length r' \<le> length r)"
        if "parseConcat alt (r1, g) = Some (Inr (q, r2, g2))" for q r2 g2
        using Suc.IH [of r2 "parts @ [q]" g2] p(2) that Suc.prems r by (force simp: parseConcat_def)
      moreover have "parseConcat alt (r1, g) \<noteq> None" using p(1) by (simp add: parseConcat_def)
      ultimately show ?thesis
        using r by (cases "parseConcat alt (r1, g)" rule: re_result_cases) auto
    next
      case False
      then show ?thesis by auto
    qed
  qed simp
  then show "altLoop alt n parts (r, g) \<noteq> None"
    "altLoop alt n parts (r, g) = Some (Inr (nd, r', g')) \<Longrightarrow> length r' \<le> length r" by blast+
qed

lemma parseAlternation_good: "good_parser N (parseAlternation N)"
proof (induction N)
  case (Suc N)
  have s: "parseAlternation (Suc N) (r, g) \<noteq> None \<and>
      (\<forall>nd r' g'. parseAlternation (Suc N) (r, g) = Some (Inr (nd, r', g')) \<longrightarrow> length r' \<le> length r)"
    if "length r < Suc N" for r g
  proof -
    have l: "length r \<le> N" using that by simp
    have p: "parseConcat (parseAlternation N) (r, g) \<noteq> None"
      using concatLoop_good(1) [OF Suc l] by (simp add: parseConcat_def del: concatLoop.simps)
    have "altLoop (parseAlternation N) (length r1 + 1) [q] (r1, g1) \<noteq> None \<and>
        (\<forall>nd r' g'. altLoop (parseAlternation N) (length r1 + 1) [q] (r1, g1) = Some (Inr (nd, r', g')) \<longrightarrow> length r' \<le> length r)"
      if c: "parseConcat (parseAlternation N) (r, g) = Some (Inr (q, r1, g1))" for q r1 g1
    proof -
      have "length r1 \<le> length r" using concatLoop_good(2) [OF Suc l _ c [unfolded parseConcat_def]] by simp
      then show ?thesis using altLoop_good [OF Suc, of r1 "length r1 + 1" "[q]" g1] l by (force simp del: altLoop.simps)
    qed
    then show ?thesis
      using p by (cases "parseConcat (parseAlternation N) (r, g)" rule: re_result_cases) (auto simp del: altLoop.simps)
  qed
  then show ?case by (intro good_parserI) blast+
qed (simp add: good_parser_def)

lemma parsePattern_total: "parsePattern pattern \<noteq> None"
proof -
  have "parseAlternation (length pattern + 1) (pattern, 0) \<noteq> None"
    by (rule good_parserD(1) [OF parseAlternation_good]) simp
  then show ?thesis unfolding parsePattern_def
    by (cases "parseAlternation (length pattern + 1) (pattern, 0)" rule: re_result_cases)
      (auto simp del: parseAlternation.simps)
qed

end
