(* ===== verification/RegexProgram.thy ===== *)
theory RegexProgram
  imports RegexSyntax
begin

text \<open>
  The compiler of the regular expression engine (\<open>compileNode\<close>, \<open>compileRegex\<close>) and its correctness:
  the program of a pattern, run as a nondeterministic machine, gets from its first instruction at
  position \<open>i\<close> to its \<open>match\<close> at position \<open>j\<close> exactly when the pattern matches the input between \<open>i\<close>
  and \<open>j\<close>. The relation \<open>fragment\<close> says that a stretch of a program is the code of a node; the compiler
  is shown to produce fragments, and fragments to run as the meaning of their node.
\<close>

section \<open>Instructions\<close>

datatype inst =
    I_char nat
  | I_any
  | I_class bool code_ranges
  | I_bol
  | I_eol
  | I_split nat nat
  | I_jmp nat
  | I_save nat
  | I_match

record compiled_regex =
  cr_prog :: "inst list"
  cr_groups :: nat
  cr_caseInsensitive :: bool

definition MAX_PROGRAM_SIZE :: nat where
  "MAX_PROGRAM_SIZE = 20000"

definition emit :: "inst \<Rightarrow> inst list \<Rightarrow> string + inst list" where
  "emit i prog =
     (if length prog \<ge> MAX_PROGRAM_SIZE
      then Inl (''pattern too complex (max '' @ show_nat MAX_PROGRAM_SIZE @ '' instructions)'')
      else Inr (prog @ [i]))"

text \<open>Sequencing of fallible steps, a step repeated, and the patching of jump targets.\<close>

fun rbind :: "'e + 'a \<Rightarrow> ('a \<Rightarrow> 'e + 'b) \<Rightarrow> 'e + 'b" where
  "rbind (Inl e) f = Inl e"
| "rbind (Inr a) f = f a"

lemma rbind_Inr_iff [simp]: "rbind x f = Inr b \<longleftrightarrow> (\<exists>a. x = Inr a \<and> f a = Inr b)"
  by (cases x) auto

fun repeatTimes :: "nat \<Rightarrow> ('a \<Rightarrow> 'e + 'a) \<Rightarrow> 'a \<Rightarrow> 'e + 'a" where
  "repeatTimes 0 f x = Inr x"
| "repeatTimes (Suc n) f x = rbind (f x) (repeatTimes n f)"

fun set_b :: "nat \<Rightarrow> inst \<Rightarrow> inst" where
  "set_b n (I_split a b) = I_split a n"
| "set_b n i = i"

definition patchSplit :: "nat \<Rightarrow> nat \<Rightarrow> inst list \<Rightarrow> inst list" where
  "patchSplit target sp prog = prog[sp := set_b target (prog ! sp)]"

definition patchJmp :: "nat \<Rightarrow> nat \<Rightarrow> inst list \<Rightarrow> inst list" where
  "patchJmp target j prog = prog[j := I_jmp target]"

text \<open>
  A \<open>split\<close> whose first branch is the next instruction and whose second is patched later, the loop
  \<open>x*\<close>, and the optional copies of \<open>x{n,m}\<close>, whose second branches all go to the end.
\<close>

definition emitSplit :: "inst list \<Rightarrow> string + inst list" where
  "emitSplit prog = emit (I_split (length prog + 1) 0) prog"

definition compileStar :: "(inst list \<Rightarrow> string + inst list) \<Rightarrow> inst list \<Rightarrow> string + inst list" where
  "compileStar body prog =
     rbind (emitSplit prog) (\<lambda>p1. rbind (body p1) (\<lambda>p2. rbind (emit (I_jmp (length prog)) p2) (\<lambda>p3.
       Inr (patchSplit (length p3) (length prog) p3))))"

fun compileOptional :: "nat \<Rightarrow> (inst list \<Rightarrow> string + inst list) \<Rightarrow> nat list \<Rightarrow> inst list \<Rightarrow> string + inst list" where
  "compileOptional 0 body splits prog = Inr (fold (patchSplit (length prog)) splits prog)"
| "compileOptional (Suc n) body splits prog =
     rbind (emitSplit prog) (\<lambda>p1. rbind (body p1) (compileOptional n body (splits @ [length prog])))"

fun compileNode :: "bool \<Rightarrow> rnode \<Rightarrow> inst list \<Rightarrow> string + inst list"
  and compileCat :: "bool \<Rightarrow> rnode list \<Rightarrow> inst list \<Rightarrow> string + inst list"
  and compileAlt :: "bool \<Rightarrow> rnode list \<Rightarrow> nat list \<Rightarrow> inst list \<Rightarrow> string + inst list" where
  "compileNode ci RN_empty prog = Inr prog"
| "compileNode ci (RN_char c) prog = emit (I_char (code (if ci then lower_char c else c))) prog"
| "compileNode ci RN_any prog = emit I_any prog"
| "compileNode ci (RN_class negate ranges) prog = emit (I_class negate ranges) prog"
| "compileNode ci RN_bol prog = emit I_bol prog"
| "compileNode ci RN_eol prog = emit I_eol prog"
| "compileNode ci (RN_cat parts) prog = compileCat ci parts prog"
| "compileNode ci (RN_alt parts) prog = compileAlt ci parts [] prog"
| "compileNode ci (RN_group nd index) prog =
     rbind (emit (I_save (index * 2)) prog) (\<lambda>p1. rbind (compileNode ci nd p1) (emit (I_save (index * 2 + 1))))"
| "compileNode ci (RN_repeat nd mn mx) prog =
     rbind (repeatTimes mn (compileNode ci nd) prog)
       (case mx of
          None \<Rightarrow> compileStar (compileNode ci nd)
        | Some m \<Rightarrow> compileOptional (m - mn) (compileNode ci nd) [])"
| "compileCat ci [] prog = Inr prog"
| "compileCat ci (p # ps) prog = rbind (compileNode ci p prog) (compileCat ci ps)"
| "compileAlt ci [] jumps prog = Inr (fold (patchJmp (length prog)) jumps prog)"
| "compileAlt ci [p] jumps prog =
     rbind (compileNode ci p prog) (\<lambda>p1. Inr (fold (patchJmp (length p1)) jumps p1))"
| "compileAlt ci (p # q # ps) jumps prog =
     rbind (emitSplit prog) (\<lambda>p1. rbind (compileNode ci p p1) (\<lambda>p2. rbind (emit (I_jmp 0) p2) (\<lambda>p3.
       compileAlt ci (q # ps) (jumps @ [length p2]) (patchSplit (length p3) (length prog) p3))))"

definition compileRegex :: "string \<Rightarrow> bool \<Rightarrow> (string + compiled_regex) option" where
  "compileRegex pattern ci =
     pbind (parsePattern pattern)
       (\<lambda>(ast, groups).
          Some (rbind (emit (I_save 0) []) (\<lambda>p1. rbind (compileNode ci ast p1) (\<lambda>p2. rbind (emit (I_save 1) p2) (\<lambda>p3.
            rbind (emit I_match p3) (\<lambda>p4. Inr \<lparr>cr_prog = p4, cr_groups = groups, cr_caseInsensitive = ci\<rparr>))))))"

section \<open>What a pattern means\<close>

text \<open>
  \<open>meaning ci hay nd\<close> relates the positions \<open>i\<close> and \<open>j\<close> of the input between which the node matches.
  A class is compared with the codes of the input as it is searched, that is, in lower case when the
  match ignores case.
\<close>

definition in_ranges :: "code_ranges \<Rightarrow> nat \<Rightarrow> bool" where
  "in_ranges ranges c \<longleftrightarrow> (\<exists>(lo, hi) \<in> set ranges. lo \<le> c \<and> c \<le> hi)"

fun meaning :: "bool \<Rightarrow> string \<Rightarrow> rnode \<Rightarrow> (nat \<times> nat) set"
  and meaning_cat :: "bool \<Rightarrow> string \<Rightarrow> rnode list \<Rightarrow> (nat \<times> nat) set"
  and meaning_alt :: "bool \<Rightarrow> string \<Rightarrow> rnode list \<Rightarrow> (nat \<times> nat) set" where
  "meaning ci hay RN_empty = Id"
| "meaning ci hay (RN_char c) = {(i, Suc i) |i. i < length hay \<and> hay ! i = (if ci then lower_char c else c)}"
| "meaning ci hay RN_any = {(i, Suc i) |i. i < length hay}"
| "meaning ci hay (RN_class negate ranges) =
     {(i, Suc i) |i. i < length hay \<and> (in_ranges ranges (code (hay ! i)) \<longleftrightarrow> \<not> negate)}"
| "meaning ci hay RN_bol = {(0, 0)}"
| "meaning ci hay RN_eol = {(length hay, length hay)}"
| "meaning ci hay (RN_cat parts) = meaning_cat ci hay parts"
| "meaning ci hay (RN_alt parts) = meaning_alt ci hay parts"
| "meaning ci hay (RN_group nd index) = meaning ci hay nd"
| "meaning ci hay (RN_repeat nd mn mx) =
     (\<Union>k \<in> {k. mn \<le> k \<and> (case mx of None \<Rightarrow> True | Some m \<Rightarrow> k \<le> max mn m)}. meaning ci hay nd ^^ k)"
| "meaning_cat ci hay [] = Id"
| "meaning_cat ci hay (p # ps) = meaning ci hay p O meaning_cat ci hay ps"
| "meaning_alt ci hay [] = Id"
| "meaning_alt ci hay [p] = meaning ci hay p"
| "meaning_alt ci hay (p # q # ps) = meaning ci hay p \<union> meaning_alt ci hay (q # ps)"


section \<open>Code fragments\<close>

inductive fragment :: "inst list \<Rightarrow> bool \<Rightarrow> nat \<Rightarrow> rnode \<Rightarrow> nat \<Rightarrow> bool" for P ci where
  empty: "fragment P ci s RN_empty s"
| char: "P ! s = I_char (code (if ci then lower_char c else c)) \<Longrightarrow> fragment P ci s (RN_char c) (Suc s)"
| any: "P ! s = I_any \<Longrightarrow> fragment P ci s RN_any (Suc s)"
| charclass: "P ! s = I_class negate ranges \<Longrightarrow> fragment P ci s (RN_class negate ranges) (Suc s)"
| bol: "P ! s = I_bol \<Longrightarrow> fragment P ci s RN_bol (Suc s)"
| eol: "P ! s = I_eol \<Longrightarrow> fragment P ci s RN_eol (Suc s)"
| cat_nil: "fragment P ci s (RN_cat []) s"
| cat_cons: "fragment P ci s p m \<Longrightarrow> fragment P ci m (RN_cat ps) e \<Longrightarrow> fragment P ci s (RN_cat (p # ps)) e"
| alt_nil: "fragment P ci s (RN_alt []) s"
| alt_one: "fragment P ci s p e \<Longrightarrow> fragment P ci s (RN_alt [p]) e"
| alt_cons: "P ! s = I_split (Suc s) (Suc j) \<Longrightarrow> fragment P ci (Suc s) p j \<Longrightarrow> P ! j = I_jmp e \<Longrightarrow>
    fragment P ci (Suc j) (RN_alt (q # ps)) e \<Longrightarrow> fragment P ci s (RN_alt (p # q # ps)) e"
| group: "P ! s = I_save (index * 2) \<Longrightarrow> fragment P ci (Suc s) nd m \<Longrightarrow> P ! m = I_save (index * 2 + 1) \<Longrightarrow>
    fragment P ci s (RN_group nd index) (Suc m)"
| rep_min: "fragment P ci s nd m \<Longrightarrow> fragment P ci m (RN_repeat nd k (map_option (\<lambda>x. x - 1) mx)) e \<Longrightarrow>
    fragment P ci s (RN_repeat nd (Suc k) mx) e"
| rep_star: "P ! s = I_split (Suc s) (Suc j) \<Longrightarrow> fragment P ci (Suc s) nd j \<Longrightarrow> P ! j = I_jmp s \<Longrightarrow>
    fragment P ci s (RN_repeat nd 0 None) (Suc j)"
| rep_none: "fragment P ci s (RN_repeat nd 0 (Some 0)) s"
| rep_opt: "P ! s = I_split (Suc s) e \<Longrightarrow> fragment P ci (Suc s) nd m \<Longrightarrow>
    fragment P ci m (RN_repeat nd 0 (Some k)) e \<Longrightarrow> fragment P ci s (RN_repeat nd 0 (Some (Suc k))) e"

lemma fragment_le: "fragment P ci s nd e \<Longrightarrow> s \<le> e"
  by (induction rule: fragment.induct) auto

lemma fragment_cong:
  "fragment P ci s nd e \<Longrightarrow> (\<And>k. s \<le> k \<Longrightarrow> k < e \<Longrightarrow> Q ! k = P ! k) \<Longrightarrow> fragment Q ci s nd e"
proof (induction rule: fragment.induct)
  case (cat_cons s p m ps e)
  then show ?case using fragment_le [OF cat_cons(1)] fragment_le [OF cat_cons(2)] by (intro fragment.cat_cons [of Q ci s p m]) auto
next
  case (alt_cons s j p e q ps)
  then show ?case
    using fragment_le [OF alt_cons(2)] fragment_le [OF alt_cons(4)] by (intro fragment.alt_cons [of Q s j]) auto
next
  case (group s index nd m)
  then show ?case using fragment_le [OF group(2)] by (intro fragment.group) auto
next
  case (rep_min s nd m k mx e)
  then show ?case using fragment_le [OF rep_min(1)] fragment_le [OF rep_min(2)] by (intro fragment.rep_min [of Q ci s nd m]) auto
next
  case (rep_star s j nd)
  then show ?case using fragment_le [OF rep_star(2)] by (intro fragment.rep_star) auto
next
  case (rep_opt s e nd m k)
  then show ?case using fragment_le [OF rep_opt(2)] fragment_le [OF rep_opt(3)] by (intro fragment.rep_opt [of Q s e ci nd m]) auto
qed (auto intro: fragment.intros)

text \<open>A step of the compiler that appends the code of a node and leaves what was there.\<close>

definition extends :: "inst list \<Rightarrow> inst list \<Rightarrow> bool" where
  "extends prog prog' \<longleftrightarrow> length prog \<le> length prog' \<and> (\<forall>k < length prog. prog' ! k = prog ! k)"

definition codes :: "bool \<Rightarrow> rnode \<Rightarrow> (inst list \<Rightarrow> string + inst list) \<Rightarrow> bool" where
  "codes ci nd f \<longleftrightarrow> (\<forall>prog prog'. f prog = Inr prog' \<longrightarrow>
     extends prog prog' \<and> fragment prog' ci (length prog) nd (length prog'))"

lemma extends_trans: "extends a b \<Longrightarrow> extends b c \<Longrightarrow> extends a c"
  by (auto simp: extends_def)

lemma extends_append [simp]: "extends prog (prog @ x)"
  by (auto simp: extends_def nth_append)

lemma extends_fragment: "extends a b \<Longrightarrow> fragment a ci s nd e \<Longrightarrow> e \<le> length a \<Longrightarrow> fragment b ci s nd e"
  by (rule fragment_cong) (auto simp: extends_def)

lemma emit_Inr [simp]: "emit i prog = Inr prog' \<longleftrightarrow> length prog < MAX_PROGRAM_SIZE \<and> prog' = prog @ [i]"
  by (auto simp: emit_def)

lemma codesI:
  "(\<And>prog prog'. f prog = Inr prog' \<Longrightarrow> extends prog prog' \<and> fragment prog' ci (length prog) nd (length prog')) \<Longrightarrow>
   codes ci nd f"
  by (simp add: codes_def)

lemma codesD:
  "codes ci nd f \<Longrightarrow> f prog = Inr prog' \<Longrightarrow> extends prog prog' \<and> fragment prog' ci (length prog) nd (length prog')"
  by (simp add: codes_def)

lemma codes_emit:
  assumes "\<And>P s. P ! s = i \<Longrightarrow> fragment P ci s nd (Suc s)"
  shows "codes ci nd (emit i)"
  using assms by (intro codesI) (auto simp: nth_append)

lemma codes_star:
  assumes "codes ci nd body"
  shows "codes ci (RN_repeat nd 0 None) (compileStar body)"
proof (rule codesI)
  fix prog prog' assume c: "compileStar body prog = Inr prog'"
  let ?s = "length prog" and ?p1 = "prog @ [I_split (length prog + 1) 0]"
  obtain p2 where p2: "body ?p1 = Inr p2"
      and prog': "prog' = patchSplit (length p2 + 1) ?s (p2 @ [I_jmp ?s])"
    using c by (auto simp: compileStar_def emitSplit_def)
  note b = codesD [OF assms p2]
  then have l: "Suc ?s \<le> length p2" "p2 ! ?s = I_split (?s + 1) 0" by (auto simp: extends_def nth_append)
  have n: "prog' ! k = (if k = ?s then I_split (Suc ?s) (Suc (length p2)) else (p2 @ [I_jmp ?s]) ! k)" for k
    using l by (auto simp: prog' patchSplit_def nth_append nth_list_update)
  have "fragment prog' ci (Suc ?s) nd (length p2)"
    using conjunct2 [OF b] by (rule_tac fragment_cong) (auto simp: n nth_append)
  moreover have "length prog' = Suc (length p2)" by (simp add: prog' patchSplit_def)
  ultimately have "fragment prog' ci ?s (RN_repeat nd 0 None) (length prog')"
    using l(1) by (auto intro!: fragment.rep_star [where j = "length p2"] simp: n)
  moreover have "extends prog prog'"
    using b l by (auto simp: extends_def n nth_append \<open>length prog' = _\<close>)
  ultimately show "extends prog prog' \<and> fragment prog' ci ?s (RN_repeat nd 0 None) (length prog')" by simp
qed

lemma fold_patchSplit:
  "length (fold (patchSplit t) sps p) = length p \<and>
   (\<forall>k < length p. fold (patchSplit t) sps p ! k = (if k \<in> set sps then set_b t (p ! k) else p ! k))"
proof (induction sps arbitrary: p)
  case (Cons sp sps)
  have "set_b t (set_b t i) = set_b t i" for i by (cases i) auto
  moreover have "length (patchSplit t sp p) = length p" by (simp add: patchSplit_def)
  moreover have "k < length p \<Longrightarrow> patchSplit t sp p ! k = (if k = sp then set_b t (p ! k) else p ! k)" for k
    by (auto simp: patchSplit_def nth_list_update)
  ultimately show ?case using Cons [of "patchSplit t sp p"] by simp
qed simp

lemma fold_patchJmp:
  "length (fold (patchJmp t) js p) = length p \<and>
   (\<forall>k < length p. fold (patchJmp t) js p ! k = (if k \<in> set js then I_jmp t else p ! k))"
proof (induction js arbitrary: p)
  case (Cons j js)
  have "length (patchJmp t j p) = length p" by (simp add: patchJmp_def)
  moreover have "k < length p \<Longrightarrow> patchJmp t j p ! k = (if k = j then I_jmp t else p ! k)" for k
    by (auto simp: patchJmp_def nth_list_update)
  ultimately show ?case using Cons [of "patchJmp t j p"] by simp
qed simp

lemma compileOptional_code:
  assumes "codes ci nd body" "\<forall>sp \<in> set splits. sp < length prog" "compileOptional n body splits prog = Inr prog'"
  shows "length prog \<le> length prog' \<and>
    (\<forall>k < length prog. prog' ! k = (if k \<in> set splits then set_b (length prog') (prog ! k) else prog ! k)) \<and>
    fragment prog' ci (length prog) (RN_repeat nd 0 (Some n)) (length prog')"
  using assms(2,3)
proof (induction n arbitrary: splits prog)
  case 0
  then show ?case using fold_patchSplit [of "length prog" splits prog] by (auto intro: fragment.rep_none)
next
  case (Suc n)
  let ?s = "length prog" and ?p1 = "prog @ [I_split (length prog + 1) 0]"
  obtain p2 where p2: "body ?p1 = Inr p2" and r: "compileOptional n body (splits @ [?s]) p2 = Inr prog'"
    using Suc.prems(2) by (auto simp: emitSplit_def)
  note b = codesD [OF assms(1) p2]
  then have l: "Suc ?s \<le> length p2" "p2 ! ?s = I_split (?s + 1) 0" "\<forall>k < ?s. p2 ! k = prog ! k"
    by (auto simp: extends_def nth_append)
  have "\<forall>sp \<in> set (splits @ [?s]). sp < length p2" using Suc.prems(1) l(1) by auto
  note ih = Suc.IH [OF this r]
  have "prog' ! ?s = I_split (Suc ?s) (length prog')" using ih l by auto
  moreover have "fragment prog' ci (Suc ?s) nd (length p2)"
    using conjunct2 [OF b] Suc.prems(1) ih by (rule_tac fragment_cong) auto
  ultimately have "fragment prog' ci ?s (RN_repeat nd 0 (Some (Suc n))) (length prog')"
    using ih by (intro fragment.rep_opt) auto
  then show ?case using ih l by auto
qed

lemma codes_optional: "codes ci nd body \<Longrightarrow> codes ci (RN_repeat nd 0 (Some n)) (compileOptional n body [])"
  using compileOptional_code [of ci nd body "[]"] by (intro codesI) (simp add: extends_def)

lemma codes_repeat:
  assumes "codes ci nd body"
  shows "codes ci (RN_repeat nd mn mx) (\<lambda>prog. rbind (repeatTimes mn body prog)
    (case mx of None \<Rightarrow> compileStar body | Some m \<Rightarrow> compileOptional (m - mn) body []))"
proof (induction mn arbitrary: mx)
  case 0
  then show ?case using codes_star [OF assms] codes_optional [OF assms] by (cases mx) simp_all
next
  case (Suc mn)
  let ?mx = "map_option (\<lambda>x. x - 1) mx"
  show ?case
  proof (rule codesI)
    fix prog prog'
    assume "rbind (repeatTimes (Suc mn) body prog)
      (case mx of None \<Rightarrow> compileStar body | Some m \<Rightarrow> compileOptional (m - Suc mn) body []) = Inr prog'"
    then obtain p1 where p1: "body prog = Inr p1"
        and r: "rbind (repeatTimes mn body p1) (case ?mx of None \<Rightarrow> compileStar body | Some m \<Rightarrow> compileOptional (m - mn) body []) = Inr prog'"
      by (cases mx) auto
    note a = codesD [OF assms p1] and b = codesD [OF Suc.IH [of ?mx] r]
    have "fragment prog' ci (length prog) nd (length p1)"
      using extends_fragment [of p1 prog'] a b by blast
    with a b show "extends prog prog' \<and> fragment prog' ci (length prog) (RN_repeat nd (Suc mn) mx) (length prog')"
      by (auto intro: extends_trans fragment.rep_min)
  qed
qed

text \<open>The compiler produces fragments; in an alternative, the jumps of earlier branches are patched.\<close>

lemma compileAlt_code:
  assumes "\<forall>p \<in> set qs. codes ci p (compileNode ci p)" "\<forall>j \<in> set jumps. j < length prog"
    and "compileAlt ci qs jumps prog = Inr prog'"
  shows "length prog \<le> length prog' \<and>
    (\<forall>k < length prog. prog' ! k = (if k \<in> set jumps then I_jmp (length prog') else prog ! k)) \<and>
    fragment prog' ci (length prog) (RN_alt qs) (length prog')"
  using assms
proof (induction qs arbitrary: jumps prog rule: induct_list012)
  case 1
  then show ?case using fold_patchJmp [of "length prog" jumps prog] by (auto intro: fragment.alt_nil)
next
  case (2 p)
  obtain p1 where p1: "compileNode ci p prog = Inr p1" and r: "prog' = fold (patchJmp (length p1)) jumps p1"
    using "2.prems"(3) by auto
  note b = codesD [OF "2.prems"(1) [rule_format, of p] p1, simplified]
  have "fragment prog' ci (length prog) p (length p1)"
    using conjunct2 [OF b] fold_patchJmp [of "length p1" jumps p1] "2.prems"(2)
    by (rule_tac fragment_cong) (auto simp: r)
  then show ?case
    using b fold_patchJmp [of "length p1" jumps p1] by (auto simp: r extends_def intro: fragment.alt_one)
next
  case (3 p q qs)
  let ?s = "length prog" and ?p1 = "prog @ [I_split (length prog + 1) 0]"
  obtain p2 where p2: "compileNode ci p ?p1 = Inr p2"
      and r: "compileAlt ci (q # qs) (jumps @ [length p2]) (patchSplit (Suc (length p2)) ?s (p2 @ [I_jmp 0])) = Inr prog'"
    using "3.prems"(3) by (auto simp: emitSplit_def)
  let ?p3 = "patchSplit (Suc (length p2)) ?s (p2 @ [I_jmp 0])"
  note b = codesD [OF "3.prems"(1) [rule_format, of p] p2, simplified]
  then have l: "Suc ?s \<le> length p2" "p2 ! ?s = I_split (?s + 1) 0" "\<forall>k < ?s. p2 ! k = prog ! k"
    by (auto simp: extends_def nth_append)
  have p3: "length ?p3 = Suc (length p2)" by (simp add: patchSplit_def)
  have n: "?p3 ! k = (if k = ?s then I_split (Suc ?s) (Suc (length p2)) else (p2 @ [I_jmp 0]) ! k)" for k
    using l by (auto simp: patchSplit_def nth_append nth_list_update)
  have "\<forall>j \<in> set (jumps @ [length p2]). j < length ?p3" using "3.prems"(2) l(1) p3 by auto
  note ih = "3.IH"(2) [OF _ this r, simplified p3]
  have ih: "Suc (length p2) \<le> length prog'"
      "\<And>k. k < Suc (length p2) \<Longrightarrow> prog' ! k = (if k \<in> set (jumps @ [length p2]) then I_jmp (length prog') else ?p3 ! k)"
      "fragment prog' ci (Suc (length p2)) (RN_alt (q # qs)) (length prog')"
    using ih "3.prems"(1) by auto
  have notin: "?s \<notin> set (jumps @ [length p2])" "\<And>k. ?s < k \<Longrightarrow> k < length p2 \<Longrightarrow> k \<notin> set (jumps @ [length p2])"
    using "3.prems"(2) l(1) by auto
  have "prog' ! ?s = I_split (Suc ?s) (Suc (length p2))" "prog' ! length p2 = I_jmp (length prog')"
    using ih(2) [of ?s] ih(2) [of "length p2"] notin(1) l(1) by (auto simp: n)
  moreover have "fragment prog' ci (Suc ?s) p (length p2)"
    using conjunct2 [OF b] ih(2) notin(2) by (rule_tac fragment_cong) (auto simp: n nth_append)
  ultimately have "fragment prog' ci ?s (RN_alt (p # q # qs)) (length prog')"
    using ih(3) by (intro fragment.alt_cons)
  moreover have "prog' ! k = (if k \<in> set jumps then I_jmp (length prog') else prog ! k)" if "k < ?s" for k
    using ih(2) [of k] that l by (auto simp: n nth_append)
  ultimately show ?case using ih(1) l(1) by auto
qed

lemma codes_cat:
  "\<forall>p \<in> set ps. codes ci p (compileNode ci p) \<Longrightarrow> codes ci (RN_cat ps) (compileCat ci ps)"
proof (induction ps)
  case Nil
  then show ?case by (intro codesI) (auto simp: extends_def intro: fragment.cat_nil)
next
  case (Cons p ps)
  show ?case
  proof (rule codesI)
    fix prog prog' assume "compileCat ci (p # ps) prog = Inr prog'"
    then obtain p1 where p1: "compileNode ci p prog = Inr p1" and r: "compileCat ci ps p1 = Inr prog'" by auto
    have a: "extends prog p1 \<and> fragment p1 ci (length prog) p (length p1)" using Cons.prems codesD p1 by auto
    have b: "extends p1 prog' \<and> fragment prog' ci (length p1) (RN_cat ps) (length prog')"
      using Cons r by (auto dest: codesD)
    have "fragment prog' ci (length prog) p (length p1)" using extends_fragment [of p1 prog'] a b by blast
    with a b show "extends prog prog' \<and> fragment prog' ci (length prog) (RN_cat (p # ps)) (length prog')"
      by (auto intro: extends_trans fragment.cat_cons)
  qed
qed

lemma codes_group:
  assumes "codes ci nd body"
  shows "codes ci (RN_group nd index)
    (\<lambda>prog. rbind (emit (I_save (index * 2)) prog) (\<lambda>p1. rbind (body p1) (emit (I_save (index * 2 + 1)))))"
proof (rule codesI)
  fix prog prog'
  assume "rbind (emit (I_save (index * 2)) prog) (\<lambda>p1. rbind (body p1) (emit (I_save (index * 2 + 1)))) = Inr prog'"
  then obtain p2 where p2: "body (prog @ [I_save (index * 2)]) = Inr p2" and r: "prog' = p2 @ [I_save (index * 2 + 1)]"
    by auto
  note b = codesD [OF assms p2]
  have "fragment prog' ci (Suc (length prog)) nd (length p2)"
    using extends_fragment [of p2 prog' ci "Suc (length prog)" nd "length p2"] b r by simp
  moreover have "prog' ! length prog = I_save (index * 2)" using b r by (auto simp: extends_def nth_append)
  ultimately show "extends prog prog' \<and> fragment prog' ci (length prog) (RN_group nd index) (length prog')"
    using b r by (auto simp: extends_def nth_append intro!: fragment.group)
qed

theorem compileNode_codes: "codes ci nd (compileNode ci nd)"
proof (induction nd)
  case RN_empty
  show ?case by (intro codesI) (auto simp: extends_def intro: fragment.empty)
next
  case (RN_char c)
  show ?case using codes_emit [of "I_char (code (if ci then lower_char c else c))"] by (simp add: codes_def fragment.char)
next
  case (RN_class negate ranges)
  show ?case using codes_emit [of "I_class negate ranges"] by (simp add: codes_def fragment.charclass)
next
  case (RN_cat ps)
  then show ?case using codes_cat [of ps ci] by (simp add: codes_def)
next
  case (RN_alt ps)
  then show ?case using compileAlt_code [of ps ci "[]"] by (intro codesI) (simp add: extends_def)
next
  case (RN_repeat nd mn mx)
  then show ?case using codes_repeat [of ci nd "compileNode ci nd" mn mx] by (simp add: codes_def)
next
  case (RN_group nd index)
  then show ?case using codes_group [of ci nd "compileNode ci nd" index] by (simp add: codes_def)
next
  case RN_any
  show ?case using codes_emit [of I_any] by (simp add: codes_def fragment.any)
next
  case RN_bol
  show ?case using codes_emit [of I_bol] by (simp add: codes_def fragment.bol)
next
  case RN_eol
  show ?case using codes_emit [of I_eol] by (simp add: codes_def fragment.eol)
qed

section \<open>Programs as nondeterministic machines\<close>

text \<open>
  A configuration is an instruction and a position. \<open>accepts\<close> says which characters a consuming
  instruction takes.
\<close>

fun accepts :: "inst \<Rightarrow> nat \<Rightarrow> bool" where
  "accepts (I_char c) ch \<longleftrightarrow> c = ch"
| "accepts I_any ch \<longleftrightarrow> True"
| "accepts (I_class negate ranges) ch \<longleftrightarrow> (in_ranges ranges ch \<longleftrightarrow> \<not> negate)"
| "accepts _ ch \<longleftrightarrow> False"

fun silent :: "inst \<Rightarrow> nat \<Rightarrow> nat \<Rightarrow> nat \<Rightarrow> nat \<Rightarrow> bool" where
  "silent (I_jmp t) n i pc pc' \<longleftrightarrow> pc' = t"
| "silent (I_split a b) n i pc pc' \<longleftrightarrow> pc' = a \<or> pc' = b"
| "silent (I_save slot) n i pc pc' \<longleftrightarrow> pc' = Suc pc"
| "silent I_bol n i pc pc' \<longleftrightarrow> i = 0 \<and> pc' = Suc pc"
| "silent I_eol n i pc pc' \<longleftrightarrow> i = n \<and> pc' = Suc pc"
| "silent _ n i pc pc' \<longleftrightarrow> False"

inductive mstep :: "inst list \<Rightarrow> string \<Rightarrow> nat \<times> nat \<Rightarrow> nat \<times> nat \<Rightarrow> bool" for P hay where
  quiet: "pc < length P \<Longrightarrow> silent (P ! pc) (length hay) i pc pc' \<Longrightarrow> mstep P hay (pc, i) (pc', i)"
| eats: "pc < length P \<Longrightarrow> i < length hay \<Longrightarrow> accepts (P ! pc) (code (hay ! i)) \<Longrightarrow> mstep P hay (pc, i) (Suc pc, Suc i)"

inductive_cases mstepE: "mstep P hay (pc, i) c"

abbreviation msteps :: "inst list \<Rightarrow> string \<Rightarrow> nat \<times> nat \<Rightarrow> nat \<times> nat \<Rightarrow> bool" where
  "msteps P hay \<equiv> (mstep P hay)\<^sup>*\<^sup>*"

lemma meaning_repeat_Suc:
  "meaning ci hay (RN_repeat nd (Suc k) mx) =
     meaning ci hay nd O meaning ci hay (RN_repeat nd k (map_option (\<lambda>x. x - 1) mx))"
proof -
  let ?R = "meaning ci hay nd"
  have s: "{j. Suc k \<le> j \<and> (case mx of None \<Rightarrow> True | Some m \<Rightarrow> j \<le> max (Suc k) m)} =
      Suc ` {j. k \<le> j \<and> (case map_option (\<lambda>x. x - 1) mx of None \<Rightarrow> True | Some m \<Rightarrow> j \<le> max k m)}" (is "?A = Suc ` ?B")
  proof (intro equalityI subsetI)
    fix j assume "j \<in> ?A"
    then have "j - 1 \<in> ?B" "j = Suc (j - 1)" by (auto split: option.splits)
    then show "j \<in> Suc ` ?B" by blast
  qed (auto split: option.splits)
  have "?R ^^ Suc j = ?R O ?R ^^ j" for j by (metis relpow.simps(2) relpow_commute)
  then show ?thesis by (simp only: meaning.simps s) auto
qed

lemma meaning_star_unfold:
  "meaning ci hay (RN_repeat nd 0 None) = Id \<union> meaning ci hay nd O meaning ci hay (RN_repeat nd 0 None)"
proof -
  let ?R = "meaning ci hay nd"
  have "(\<Union>k. ?R ^^ k) = ?R\<^sup>*" by (rule rtrancl_is_UN_relpow [symmetric])
  moreover have "?R\<^sup>* = Id \<union> ?R O ?R\<^sup>*" by (metis r_comp_rtrancl_eq rtrancl_unfold)
  ultimately show ?thesis by simp
qed

lemma meaning_opt_Suc:
  "meaning ci hay (RN_repeat nd 0 (Some (Suc k))) = Id \<union> meaning ci hay nd O meaning ci hay (RN_repeat nd 0 (Some k))"
proof -
  let ?R = "meaning ci hay nd"
  have s: "{j. j \<le> Suc k} = insert 0 (Suc ` {j. j \<le> k})" by (auto simp: image_iff) (metis Suc_le_mono not0_implies_Suc)
  have "?R ^^ Suc j = ?R O ?R ^^ j" for j by (metis relpow.simps(2) relpow_commute)
  then show ?thesis by (simp add: s del: relpow.simps(2)) auto
qed

text \<open>Every match of a node is a run through its fragment.\<close>

lemma mstep_at:
  assumes "pc < length P"
  shows "P ! pc = I_jmp t \<Longrightarrow> mstep P hay (pc, i) (t, i)"
    and "P ! pc = I_split a b \<Longrightarrow> mstep P hay (pc, i) (a, i)" "P ! pc = I_split a b \<Longrightarrow> mstep P hay (pc, i) (b, i)"
    and "P ! pc = I_save slot \<Longrightarrow> mstep P hay (pc, i) (Suc pc, i)"
  using assms by (auto intro: mstep.quiet)

lemma star_runs:
  assumes "\<And>i j. (i, j) \<in> R \<Longrightarrow> msteps P hay (s, i) (s, j)" "(i, j) \<in> R ^^ k"
  shows "msteps P hay (s, i) (s, j)"
  using assms(2)
proof (induction k arbitrary: j)
  case (Suc k)
  then obtain m where "(i, m) \<in> R ^^ k" "(m, j) \<in> R" by auto
  then show ?case using Suc.IH assms(1) rtranclp_trans by metis
qed simp

lemma fragment_complete:
  assumes "fragment P ci s nd e" "e \<le> length P" "(i, j) \<in> meaning ci hay nd"
  shows "msteps P hay (s, i) (e, j)"
  using assms
proof (induction arbitrary: i j rule: fragment.induct)
  case (cat_cons s p m ps e)
  then obtain k where "(i, k) \<in> meaning ci hay p" "(k, j) \<in> meaning ci hay (RN_cat ps)" by auto
  then show ?case
    using cat_cons.IH(1) [of i k] cat_cons.IH(2) [of k j] fragment_le [OF cat_cons(2)] cat_cons.prems(1) rtranclp_trans
    by (metis order_trans)
next
  case (alt_cons s jm p e q ps)
  have le: "Suc jm \<le> e" "Suc s \<le> jm" using fragment_le alt_cons.hyps by blast+
  have sp: "mstep P hay (s, i) (Suc s, i)" "mstep P hay (s, i) (Suc jm, i)"
    using alt_cons.hyps(1) le alt_cons.prems(1) by (auto intro: mstep_at)
  consider "(i, j) \<in> meaning ci hay p" | "(i, j) \<in> meaning ci hay (RN_alt (q # ps))" using alt_cons.prems(2) by auto
  then show ?case
  proof cases
    case 1
    then have "msteps P hay (Suc s, i) (jm, j)" using alt_cons.IH(1) le alt_cons.prems(1) by simp
    moreover have "mstep P hay (jm, j) (e, j)" using alt_cons.hyps le alt_cons.prems(1) by (auto intro: mstep_at)
    ultimately show ?thesis using sp(1) by (meson converse_rtranclp_into_rtranclp rtranclp.rtrancl_into_rtrancl)
  next
    case 2
    then show ?thesis using alt_cons.IH(2) sp(2) alt_cons.prems(1) by (meson converse_rtranclp_into_rtranclp)
  qed
next
  case (group s index nd m)
  have le: "Suc s \<le> m" using fragment_le group.hyps by blast
  then have "mstep P hay (s, i) (Suc s, i)" "mstep P hay (m, j) (Suc m, j)"
    using group by (auto intro: mstep_at)
  moreover have "msteps P hay (Suc s, i) (m, j)" using group by simp
  ultimately show ?case by (meson converse_rtranclp_into_rtranclp rtranclp.rtrancl_into_rtrancl)
next
  case (rep_min s nd m k mx e)
  then obtain x where "(i, x) \<in> meaning ci hay nd" "(x, j) \<in> meaning ci hay (RN_repeat nd k (map_option (\<lambda>x. x - 1) mx))"
    using meaning_repeat_Suc by blast
  then show ?case
    using rep_min.IH(1) [of i x] rep_min.IH(2) [of x j] fragment_le [OF rep_min(2)] rep_min.prems(1) rtranclp_trans
    by (metis order_trans)
next
  case (rep_star s jm nd)
  have le: "Suc s \<le> jm" using fragment_le rep_star.hyps by blast
  have "msteps P hay (s, a) (s, b)" if "(a, b) \<in> meaning ci hay nd" for a b
  proof -
    have "mstep P hay (s, a) (Suc s, a)" "mstep P hay (jm, b) (s, b)"
      using rep_star.hyps rep_star.prems(1) le by (auto intro: mstep_at)
    moreover have "msteps P hay (Suc s, a) (jm, b)" using rep_star.IH that rep_star.prems(1) by simp
    ultimately show ?thesis by (meson converse_rtranclp_into_rtranclp rtranclp.rtrancl_into_rtrancl)
  qed
  moreover obtain k where "(i, j) \<in> meaning ci hay nd ^^ k" using rep_star.prems(2) by auto
  ultimately have "msteps P hay (s, i) (s, j)" using star_runs by blast
  moreover have "mstep P hay (s, j) (Suc jm, j)"
    using rep_star.hyps rep_star.prems(1) le by (auto intro: mstep_at)
  ultimately show ?case by (meson rtranclp.rtrancl_into_rtrancl)
next
  case (rep_opt s e nd m k)
  have le: "Suc s \<le> m" "m \<le> e" using fragment_le rep_opt.hyps by blast+
  have sp: "mstep P hay (s, i) (Suc s, i)" "mstep P hay (s, i) (e, i)"
    using rep_opt.hyps(1) le rep_opt.prems(1) by (auto intro: mstep_at)
  consider "i = j" | x where "(i, x) \<in> meaning ci hay nd" "(x, j) \<in> meaning ci hay (RN_repeat nd 0 (Some k))"
    using rep_opt.prems(2) meaning_opt_Suc by blast
  then show ?case
  proof cases
    case 1
    then show ?thesis using sp(2) by blast
  next
    case 2
    then have "msteps P hay (Suc s, i) (m, x)" "msteps P hay (m, x) (e, j)"
      using rep_opt.IH le rep_opt.prems(1) by auto
    then show ?thesis using sp(1) by (meson converse_rtranclp_into_rtranclp rtranclp_trans)
  qed
qed (auto intro!: r_into_rtranclp mstep.intros)

text \<open>
  A run that enters a fragment at its start and ends outside it has left it through its end, after a
  match of its node.
\<close>

lemma relpowp_first:
  assumes "(R ^^ k) x y" "x \<noteq> y"
  obtains k' z where "k = Suc k'" "R x z" "(R ^^ k') z y"
proof (cases k)
  case (Suc k')
  then obtain z where "R x z" "(R ^^ k') z y" using assms(1) by (meson relpowp_Suc_E2)
  with Suc show ?thesis by (rule_tac that)
qed (use assms in simp)

definition leaves :: "inst list \<Rightarrow> bool \<Rightarrow> string \<Rightarrow> nat \<Rightarrow> rnode \<Rightarrow> nat \<Rightarrow> bool" where
  "leaves P ci hay s nd e \<longleftrightarrow> (\<forall>k i q j. (mstep P hay ^^ k) (s, i) (q, j) \<longrightarrow> q < s \<or> e \<le> q \<longrightarrow>
     (\<exists>x k'. k' \<le> k \<and> (i, x) \<in> meaning ci hay nd \<and> (mstep P hay ^^ k') (e, x) (q, j)))"

lemma leavesD:
  assumes "leaves P ci hay s nd e" "(mstep P hay ^^ k) (s, i) (q, j)" "q < s \<or> e \<le> q"
  obtains x k' where "k' \<le> k" "(i, x) \<in> meaning ci hay nd" "(mstep P hay ^^ k') (e, x) (q, j)"
  using assms unfolding leaves_def by blast

lemma leaves_one:
  assumes "\<And>i c. mstep P hay (s, i) c \<Longrightarrow> \<exists>x. c = (Suc s, x) \<and> (i, x) \<in> meaning ci hay nd"
  shows "leaves P ci hay s nd (Suc s)"
  unfolding leaves_def
proof (intro allI impI)
  fix k i q j assume r: "(mstep P hay ^^ k) (s, i) (q, j)" and q: "q < s \<or> Suc s \<le> q"
  from r q obtain k' z where "k = Suc k'" "mstep P hay (s, i) z" "(mstep P hay ^^ k') z (q, j)"
    by (auto elim: relpowp_first)
  then show "\<exists>x k'. k' \<le> k \<and> (i, x) \<in> meaning ci hay nd \<and> (mstep P hay ^^ k') (Suc s, x) (q, j)"
    using assms by (metis le_SucI order_refl)
qed

lemma leaves_then:
  assumes "leaves P ci hay s p m" "leaves P ci hay m r e" "s \<le> m" "m \<le> e"
    and "meaning ci hay p O meaning ci hay r \<subseteq> meaning ci hay nd"
  shows "leaves P ci hay s nd e"
  unfolding leaves_def
proof (intro allI impI)
  fix k i q j assume r: "(mstep P hay ^^ k) (s, i) (q, j)" and q: "q < s \<or> e \<le> q"
  then have out: "q < s \<or> m \<le> q" "q < m \<or> e \<le> q" using assms(3,4) by auto
  obtain x k1 where x: "k1 \<le> k" "(i, x) \<in> meaning ci hay p" "(mstep P hay ^^ k1) (m, x) (q, j)"
    using leavesD [OF assms(1) r] out by blast
  obtain y k2 where "k2 \<le> k1" "(x, y) \<in> meaning ci hay r" "(mstep P hay ^^ k2) (e, y) (q, j)"
    using leavesD [OF assms(2) x(3)] out by blast
  then show "\<exists>x k'. k' \<le> k \<and> (i, x) \<in> meaning ci hay nd \<and> (mstep P hay ^^ k') (e, x) (q, j)"
    using x assms(5) by (meson order_trans relcompI subsetD)
qed

text \<open>An instruction inside a fragment from which every step goes to one place, without input.\<close>

lemma must_step:
  assumes "(mstep P hay ^^ k) (pc, i) (q, j)" "q \<noteq> pc" "\<And>c. mstep P hay (pc, i) c \<Longrightarrow> c = (t, i)"
  obtains k' where "k = Suc k'" "(mstep P hay ^^ k') (t, i) (q, j)"
proof -
  have "(pc, i) \<noteq> (q, j)" using assms(2) by simp
  then obtain k' z where "k = Suc k'" "mstep P hay (pc, i) z" "(mstep P hay ^^ k') z (q, j)"
    using assms(1) by (blast elim: relpowp_first)
  with assms(3) that show ?thesis by blast
qed

lemma must_branch:
  assumes "(mstep P hay ^^ k) (pc, i) (q, j)" "q \<noteq> pc" "P ! pc = I_split a b"
  obtains k' where "k = Suc k'" "(mstep P hay ^^ k') (a, i) (q, j)"
  | k' where "k = Suc k'" "(mstep P hay ^^ k') (b, i) (q, j)"
proof -
  have "(pc, i) \<noteq> (q, j)" using assms(2) by simp
  then obtain k' z where k: "k = Suc k'" "mstep P hay (pc, i) z" "(mstep P hay ^^ k') z (q, j)"
    using assms(1) by (blast elim: relpowp_first)
  have "z = (a, i) \<or> z = (b, i)" using k(2) assms(3) by (auto elim: mstepE)
  with k that show ?thesis by blast
qed

lemma jmp_step: "P ! pc = I_jmp t \<Longrightarrow> mstep P hay (pc, i) c \<Longrightarrow> c = (t, i)"
  by (auto elim: mstepE)

lemma save_step: "P ! pc = I_save slot \<Longrightarrow> mstep P hay (pc, i) c \<Longrightarrow> c = (Suc pc, i)"
  by (auto elim: mstepE)

lemma leaves_alt:
  assumes "P ! s = I_split (Suc s) (Suc m)" "P ! m = I_jmp e" "leaves P ci hay (Suc s) p m" "leaves P ci hay (Suc m) r e"
    and "Suc s \<le> m" "Suc m \<le> e" "meaning ci hay p \<union> meaning ci hay r \<subseteq> meaning ci hay nd"
  shows "leaves P ci hay s nd e"
  unfolding leaves_def
proof (intro allI impI)
  fix k i q j assume r: "(mstep P hay ^^ k) (s, i) (q, j)" and q: "q < s \<or> e \<le> q"
  then have out: "q \<noteq> s" "q < Suc s \<or> m \<le> q" "q \<noteq> m" "q < Suc m \<or> e \<le> q" using assms(5,6) by auto
  show "\<exists>x k'. k' \<le> k \<and> (i, x) \<in> meaning ci hay nd \<and> (mstep P hay ^^ k') (e, x) (q, j)"
    using r out(1) assms(1)
  proof (cases rule: must_branch)
    case (1 k1)
    obtain x k2 where x: "k2 \<le> k1" "(i, x) \<in> meaning ci hay p" "(mstep P hay ^^ k2) (m, x) (q, j)"
      using leavesD [OF assms(3) 1(2) out(2)] by blast
    obtain k3 where "k2 = Suc k3" "(mstep P hay ^^ k3) (e, x) (q, j)"
      using must_step [OF x(3) out(3) jmp_step [of P m e hay x, OF assms(2)]] by blast
    then show ?thesis using x 1(1) assms(7) by (metis Suc_leD UnI1 le_SucI subsetD)
  next
    case (2 k1)
    obtain x k2 where "k2 \<le> k1" "(i, x) \<in> meaning ci hay r" "(mstep P hay ^^ k2) (e, x) (q, j)"
      using leavesD [OF assms(4) 2(2) out(4)] by blast
    then show ?thesis using 2(1) assms(7) by (metis UnI2 le_SucI subsetD)
  qed
qed

lemma leaves_star:
  assumes "P ! s = I_split (Suc s) (Suc m)" "P ! m = I_jmp s" "leaves P ci hay (Suc s) nd m" "Suc s \<le> m"
  shows "leaves P ci hay s (RN_repeat nd 0 None) (Suc m)"
proof -
  let ?M = "meaning ci hay (RN_repeat nd 0 None)"
  have "\<exists>x k'. k' \<le> k \<and> (i, x) \<in> ?M \<and> (mstep P hay ^^ k') (Suc m, x) (q, j)"
    if "(mstep P hay ^^ k) (s, i) (q, j)" "q < s \<or> Suc m \<le> q" for k i q j
    using that(1)
  proof (induction k arbitrary: i rule: less_induct)
    case (less k)
    have out: "q \<noteq> s" "q < Suc s \<or> m \<le> q" "q \<noteq> m" using that(2) assms(4) by auto
    show ?case
      using less.prems out(1) assms(1)
    proof (cases rule: must_branch)
      case (1 k1)
      obtain x k2 where x: "k2 \<le> k1" "(i, x) \<in> meaning ci hay nd" "(mstep P hay ^^ k2) (m, x) (q, j)"
        using leavesD [OF assms(3) 1(2) out(2)] by blast
      obtain k3 where k3: "k2 = Suc k3" "(mstep P hay ^^ k3) (s, x) (q, j)"
        using must_step [OF x(3) out(3) jmp_step [of P m s hay x, OF assms(2)]] by blast
      have "k3 < k" using k3(1) x(1) 1(1) by simp
      then obtain y k4 where "k4 \<le> k3" "(x, y) \<in> ?M" "(mstep P hay ^^ k4) (Suc m, y) (q, j)"
        using less.IH k3(2) by blast
      moreover have "(i, y) \<in> ?M" using meaning_star_unfold x(2) \<open>(x, y) \<in> ?M\<close> by blast
      ultimately show ?thesis using \<open>k3 < k\<close> by (meson less_imp_le order_trans)
    next
      case (2 k1)
      have "(i, i) \<in> ?M" using meaning_star_unfold by blast
      with 2 show ?thesis by (metis le_SucI order_refl)
    qed
  qed
  then show ?thesis unfolding leaves_def by blast
qed

lemma leaves_optional:
  assumes "P ! s = I_split (Suc s) e" "leaves P ci hay (Suc s) nd m" "leaves P ci hay m (RN_repeat nd 0 (Some n)) e"
    and "Suc s \<le> m" "m \<le> e"
  shows "leaves P ci hay s (RN_repeat nd 0 (Some (Suc n))) e"
  unfolding leaves_def
proof (intro allI impI)
  fix k i q j assume r: "(mstep P hay ^^ k) (s, i) (q, j)" and q: "q < s \<or> e \<le> q"
  then have out: "q \<noteq> s" "q < Suc s \<or> m \<le> q" "q < m \<or> e \<le> q" using assms(4,5) by auto
  let ?M = "meaning ci hay (RN_repeat nd 0 (Some (Suc n)))"
  show "\<exists>x k'. k' \<le> k \<and> (i, x) \<in> ?M \<and> (mstep P hay ^^ k') (e, x) (q, j)"
    using r out(1) assms(1)
  proof (cases rule: must_branch)
    case (1 k1)
    obtain x k2 where x: "k2 \<le> k1" "(i, x) \<in> meaning ci hay nd" "(mstep P hay ^^ k2) (m, x) (q, j)"
      using leavesD [OF assms(2) 1(2) out(2)] by blast
    obtain y k3 where y: "k3 \<le> k2" "(x, y) \<in> meaning ci hay (RN_repeat nd 0 (Some n))" "(mstep P hay ^^ k3) (e, y) (q, j)"
      using leavesD [OF assms(3) x(3) out(3)] by blast
    have "(i, y) \<in> ?M" using meaning_opt_Suc x(2) y(2) by blast
    moreover have "k3 \<le> k" using y(1) x(1) 1(1) by simp
    ultimately show ?thesis using y(3) by blast
  next
    case (2 k1)
    have "(i, i) \<in> ?M" using meaning_opt_Suc by blast
    with 2 show ?thesis by (metis le_SucI order_refl)
  qed
qed

lemma leaves_group:
  assumes "P ! s = I_save (index * 2)" "P ! m = I_save (index * 2 + 1)" "leaves P ci hay (Suc s) nd m" "Suc s \<le> m"
  shows "leaves P ci hay s (RN_group nd index) (Suc m)"
  unfolding leaves_def
proof (intro allI impI)
  fix k i q j assume r: "(mstep P hay ^^ k) (s, i) (q, j)" and q: "q < s \<or> Suc m \<le> q"
  then have out: "q \<noteq> s" "q < Suc s \<or> m \<le> q" "q \<noteq> m" using assms(4) by auto
  obtain k1 where k1: "k = Suc k1" "(mstep P hay ^^ k1) (Suc s, i) (q, j)"
    using must_step [OF r out(1) save_step [of P s _ hay i, OF assms(1)]] by blast
  obtain x k2 where x: "k2 \<le> k1" "(i, x) \<in> meaning ci hay nd" "(mstep P hay ^^ k2) (m, x) (q, j)"
    using leavesD [OF assms(3) k1(2) out(2)] by blast
  obtain k3 where "k2 = Suc k3" "(mstep P hay ^^ k3) (Suc m, x) (q, j)"
    using must_step [OF x(3) out(3) save_step [of P m _ hay x, OF assms(2)]] by blast
  then show "\<exists>x k'. k' \<le> k \<and> (i, x) \<in> meaning ci hay (RN_group nd index) \<and> (mstep P hay ^^ k') (Suc m, x) (q, j)"
    using x k1 by (metis Suc_leD le_SucI meaning.simps(9))
qed

lemma leaves_nothing: "Id \<subseteq> meaning ci hay nd \<Longrightarrow> leaves P ci hay s nd s"
  unfolding leaves_def by blast

lemma fragment_sound: "fragment P ci s nd e \<Longrightarrow> leaves P ci hay s nd e"
proof (induction rule: fragment.induct)
  case (char s c)
  then show ?case by (intro leaves_one) (auto elim!: mstepE)
next
  case (charclass s negate ranges)
  then show ?case by (intro leaves_one) (auto elim!: mstepE)
next
  case (cat_cons s p m ps e)
  then show ?case using fragment_le by (intro leaves_then [OF cat_cons.IH]) auto
next
  case (alt_one s p e)
  then show ?case by (simp add: leaves_def)
next
  case (alt_cons s j p e q ps)
  have "Suc s \<le> j" "Suc j \<le> e" using alt_cons.hyps fragment_le by blast+
  then show ?case using alt_cons by (intro leaves_alt [OF alt_cons.hyps(1,3) alt_cons.IH]) auto
next
  case (group s index nd m)
  then show ?case using leaves_group fragment_le by blast
next
  case (rep_min s nd m k mx e)
  have "s \<le> m" "m \<le> e" using rep_min.hyps fragment_le by blast+
  then show ?case using meaning_repeat_Suc by (intro leaves_then [OF rep_min.IH]) blast+
next
  case (rep_star s j nd)
  then show ?case using leaves_star fragment_le by blast
next
  case (rep_opt s e nd m k)
  have "Suc s \<le> m" "m \<le> e" using rep_opt.hyps fragment_le by blast+
  then show ?case using leaves_optional rep_opt by blast
next
  case (any s)
  then show ?case by (intro leaves_one) (auto elim!: mstepE)
next
  case (bol s)
  then show ?case by (intro leaves_one) (auto elim!: mstepE)
next
  case (eol s)
  then show ?case by (intro leaves_one) (auto elim!: mstepE)
qed (auto intro: leaves_nothing)

section \<open>Compiled patterns\<close>

lemma relpowp_stuck: "(R ^^ k) x y \<Longrightarrow> (\<And>z. \<not> R x z) \<Longrightarrow> x = y"
  using relpowp_first [of k R x y] by metis

text \<open>The program of a pattern: a slot for the start, its code, a slot for the end, and \<open>match\<close>.\<close>

definition program_of :: "inst list \<Rightarrow> bool \<Rightarrow> rnode \<Rightarrow> bool" where
  "program_of P ci ast \<longleftrightarrow> 3 \<le> length P \<and> P ! 0 = I_save 0 \<and> fragment P ci 1 ast (length P - 2) \<and>
     P ! (length P - 2) = I_save 1 \<and> P ! (length P - 1) = I_match"

lemma compileRegex_program:
  assumes "compileRegex pattern ci = Some (Inr re)"
  shows "\<exists>ast. parsePattern pattern = Some (Inr (ast, cr_groups re)) \<and> program_of (cr_prog re) ci ast \<and>
    cr_caseInsensitive re = ci \<and> length (cr_prog re) \<le> MAX_PROGRAM_SIZE"
proof -
  obtain ast groups where a: "parsePattern pattern = Some (Inr (ast, groups))"
    using assms by (auto simp: compileRegex_def)
  then obtain p2 where p2: "compileNode ci ast [I_save 0] = Inr p2" "length p2 + 1 < MAX_PROGRAM_SIZE"
      and re: "re = \<lparr>cr_prog = p2 @ [I_save 1, I_match], cr_groups = groups, cr_caseInsensitive = ci\<rparr>"
    using assms by (auto simp: compileRegex_def)
  note c = codesD [OF compileNode_codes p2(1), simplified]
  then have l: "1 \<le> length p2" "p2 ! 0 = I_save 0" by (auto simp: extends_def)
  have "fragment (p2 @ [I_save 1, I_match]) ci 1 ast (length p2)"
    using extends_fragment [of p2 "p2 @ [I_save 1, I_match]"] c by simp
  moreover have "p2 \<noteq> []" using l(1) by auto
  ultimately show ?thesis using a p2(2) l by (simp add: re program_of_def nth_append)
qed

lemma program_runs:
  assumes "program_of P ci ast"
  shows "msteps P hay (0, i) (length P - 1, j) \<longleftrightarrow> (i, j) \<in> meaning ci hay ast"
proof
  let ?e = "length P - 2"
  have e: "length P - 1 = Suc ?e" "1 \<le> ?e" "?e < length P" using assms by (auto simp: program_of_def)
  { assume "msteps P hay (0, i) (length P - 1, j)"
    then obtain k where "(mstep P hay ^^ k) (0, i) (Suc ?e, j)" using e(1) by (metis rtranclp_imp_relpowp)
    then obtain k1 where k1: "(mstep P hay ^^ k1) (1, i) (Suc ?e, j)"
      using must_step [of k P hay 0 i "Suc ?e" j 1] save_step [of P 0 0 hay i] assms e(2)
      by (auto simp: program_of_def)
    have f: "leaves P ci hay 1 ast ?e" using assms fragment_sound by (simp add: program_of_def)
    obtain x k2 where x: "(i, x) \<in> meaning ci hay ast" "(mstep P hay ^^ k2) (?e, x) (Suc ?e, j)"
      by (rule leavesD [OF f k1]) auto
    then obtain k3 where "(mstep P hay ^^ k3) (Suc ?e, x) (Suc ?e, j)"
      using must_step [OF x(2), of "Suc ?e"] save_step [of P ?e 1 hay x] assms by (auto simp: program_of_def)
    moreover have "\<not> mstep P hay (Suc ?e, x) z" for z
      using assms e(1) by (auto simp: program_of_def elim!: mstepE)
    ultimately have "x = j" using relpowp_stuck by fastforce
    with x(1) show "(i, j) \<in> meaning ci hay ast" by simp
  }
  { assume "(i, j) \<in> meaning ci hay ast"
    then have "msteps P hay (1, i) (?e, j)" using fragment_complete assms e(3) by (auto simp: program_of_def)
    moreover have "mstep P hay (0, i) (Suc 0, i)"
      using assms by (intro mstep_at(4) [of 0 P 0]) (auto simp: program_of_def)
    moreover have "mstep P hay (?e, j) (Suc ?e, j)"
      using assms by (intro mstep_at(4) [OF e(3), of 1]) (simp add: program_of_def)
    ultimately show "msteps P hay (0, i) (length P - 1, j)"
      using e(1) by (metis One_nat_def converse_rtranclp_into_rtranclp rtranclp.rtrancl_into_rtrancl)
  }
qed

end
