(* ===== verification/RegexMatch.thy ===== *)
theory RegexMatch
  imports RegexProgram
begin

text \<open>
  The matcher of the regular expression engine (\<open>execRegex\<close>, a Pike virtual machine) and its
  correctness: for every pattern that compiles and every input it reports a match exactly when the
  pattern matches somewhere in the input. Threads with the same instruction are merged, so that at
  most as many threads as instructions are alive at a position.

  \<open>seen\<close> is the array of the position at which an instruction was last added. A program produced by the
  compiler never leaves its own range (\<open>program_closed\<close>); outside it, where the array access of the
  source fails, \<open>addThread\<close> adds nothing.
\<close>

section \<open>Threads\<close>

type_synonym thread = "nat \<times> int list"
type_synonym thread_list = "thread list \<times> int list"

record regex_match =
  rm_matched :: bool
  rm_captures :: "string list"

definition inClass :: "bool \<Rightarrow> code_ranges \<Rightarrow> nat \<Rightarrow> bool" where
  "inClass negate ranges c =
     (let hit = list_ex (\<lambda>(lo, hi). lo \<le> c \<and> c \<le> hi) ranges in if negate then \<not> hit else hit)"

definition unseen :: "int \<Rightarrow> int list \<Rightarrow> nat" where
  "unseen gen seen = card {k. k < length seen \<and> seen ! k \<noteq> gen}"

lemma unseen_update:
  assumes "pc < length seen" "seen ! pc \<noteq> gen"
  shows "unseen gen (seen[pc := gen]) < unseen gen seen"
proof -
  have "{k. k < length (seen[pc := gen]) \<and> seen[pc := gen] ! k \<noteq> gen} = {k. k < length seen \<and> seen ! k \<noteq> gen} - {pc}"
    using assms by (auto simp: nth_list_update)
  moreover have "card ({k. k < length seen \<and> seen ! k \<noteq> gen} - {pc}) < card {k. k < length seen \<and> seen ! k \<noteq> gen}"
    using assms by (intro card_Diff1_less) simp_all
  ultimately show ?thesis by (simp only: unseen_def)
qed

function addThread ::
  "inst list \<Rightarrow> nat \<Rightarrow> int \<Rightarrow> nat \<Rightarrow> nat \<Rightarrow> int list \<Rightarrow> thread_list \<Rightarrow> thread_list" where
  "addThread P n gen pos pc slots acc =
     (if length (snd acc) \<le> pc \<or> snd acc ! pc = gen then acc
      else let acc1 = (fst acc, (snd acc)[pc := gen]) in
        case P ! pc of
          I_jmp t \<Rightarrow> addThread P n gen pos t slots acc1
        | I_split a b \<Rightarrow> addThread P n gen pos b slots (addThread P n gen pos a slots acc1)
        | I_save slot \<Rightarrow> addThread P n gen pos (pc + 1) (slots[slot := int pos]) acc1
        | I_bol \<Rightarrow> if pos = 0 then addThread P n gen pos (pc + 1) slots acc1 else acc1
        | I_eol \<Rightarrow> if pos = n then addThread P n gen pos (pc + 1) slots acc1 else acc1
        | _ \<Rightarrow> (fst acc1 @ [(pc, slots)], snd acc1))"
  by pat_completeness auto

termination
proof -
  have kept: "addThread_dom (P, n, gen, pos, pc, slots, acc) \<Longrightarrow>
      unseen gen (snd (addThread P n gen pos pc slots acc)) \<le> unseen gen (snd acc)" for P n gen pos pc slots acc
  proof (induction P n gen pos pc slots acc rule: addThread.pinduct)
    case (1 P n gen pos pc slots acc)
    show ?case
    proof (cases "length (snd acc) \<le> pc \<or> snd acc ! pc = gen")
      case True
      then show ?thesis using "1.hyps" by (simp add: addThread.psimps)
    next
      case False
      then have u: "unseen gen ((snd acc)[pc := gen]) \<le> unseen gen (snd acc)"
        using unseen_update [of pc "snd acc" gen] by auto
      show ?thesis
        using "1.IH" [OF False refl] "1.hyps" False u
        by (cases "P ! pc") (auto simp: addThread.psimps Let_def intro: order_trans)
    qed
  qed
  show "All addThread_dom"
    by (relation "measure (\<lambda>(P, n, gen, pos, pc, slots, acc). unseen gen (snd acc))")
      (auto intro!: unseen_update, rule le_less_trans [OF kept], auto intro!: unseen_update)
qed

declare addThread.simps [simp del]

section \<open>The matcher\<close>

text \<open>One position: the threads in order; the first one at \<open>match\<close> wins and cuts off the rest.\<close>

fun runThreads ::
  "inst list \<Rightarrow> string \<Rightarrow> nat \<Rightarrow> thread list \<Rightarrow> thread_list \<Rightarrow> int list option \<Rightarrow> thread_list \<times> int list option" where
  "runThreads P hay pos [] nacc best = (nacc, best)"
| "runThreads P hay pos ((pc, slots) # ths) nacc best =
     (if P ! pc = I_match then (nacc, Some slots)
      else if pos \<ge> length hay then runThreads P hay pos ths nacc best
      else let ch = code (hay ! pos);
               ok = (case P ! pc of
                       I_char c \<Rightarrow> c = ch
                     | I_any \<Rightarrow> True
                     | I_class negate ranges \<Rightarrow> inClass negate ranges ch
                     | _ \<Rightarrow> False)
        in runThreads P hay pos ths
             (if ok then addThread P (length hay) (int pos + 1) (pos + 1) (pc + 1) slots nacc else nacc) best)"

definition fresh :: "inst list \<Rightarrow> int list" where
  "fresh P = replicate (length P) (-1)"

primrec execLoop ::
  "inst list \<Rightarrow> nat \<Rightarrow> string \<Rightarrow> nat list \<Rightarrow> thread_list \<Rightarrow> int list option \<Rightarrow> int list option" where
  "execLoop P slotCount hay [] cacc best = best"
| "execLoop P slotCount hay (pos # rest) cacc best =
     (let cacc1 = (if best = None
                   then addThread P (length hay) (int pos) pos 0 (replicate slotCount (-1)) cacc else cacc)
      in if fst cacc1 = [] \<and> best \<noteq> None then best
         else let (nacc, best1) = runThreads P hay pos (fst cacc1) ([], fresh P) best
              in execLoop P slotCount hay rest nacc best1)"

definition nth_or :: "int list \<Rightarrow> nat \<Rightarrow> int" where
  "nth_or slots k = (if k < length slots then slots ! k else -1)"

definition capture :: "string \<Rightarrow> int list \<Rightarrow> nat \<Rightarrow> string" where
  "capture input slots g =
     (let s = nth_or slots (g * 2); e = nth_or slots (g * 2 + 1) in
      if s \<ge> 0 \<and> e \<ge> s then slice (nat s) (nat e) input else [])"

definition execRegex :: "compiled_regex \<Rightarrow> string \<Rightarrow> regex_match" where
  "execRegex re input =
     (let hay = (if cr_caseInsensitive re then toLowerCase input else input);
          slotCount = (cr_groups re + 1) * 2
      in case execLoop (cr_prog re) slotCount hay [0..<length hay + 1] ([], fresh (cr_prog re)) None of
           None \<Rightarrow> \<lparr>rm_matched = False, rm_captures = []\<rparr>
         | Some slots \<Rightarrow> \<lparr>rm_matched = True, rm_captures = map (capture input slots) [1..<cr_groups re + 1]\<rparr>)"

definition regexMatch :: "string \<Rightarrow> string \<Rightarrow> bool \<Rightarrow> (string + regex_match) option" where
  "regexMatch pattern input ci =
     pbind (compileRegex pattern ci) (\<lambda>re. Some (Inr (execRegex re input)))"

section \<open>Adding threads\<close>

definition seenset :: "int \<Rightarrow> thread_list \<Rightarrow> nat set" where
  "seenset gen acc = {k. k < length (snd acc) \<and> snd acc ! k = gen}"

definition quiets :: "inst list \<Rightarrow> nat \<Rightarrow> nat \<Rightarrow> (nat \<times> nat) set" where
  "quiets P n pos = {(pc, pc'). pc < length P \<and> silent (P ! pc) n pos pc pc'}"

fun leaf :: "inst \<Rightarrow> bool" where
  "leaf (I_char c) = True" | "leaf I_any = True" | "leaf (I_class negate ranges) = True" | "leaf I_match = True"
| "leaf _ = False"

text \<open>
  What adding the instructions \<open>R\<close> does: they are seen afterwards, what is newly seen is reached from
  them without input and everything reached from it is seen, and the waiting instructions among it
  are appended to the list, each once.
\<close>

definition each_once :: "int \<Rightarrow> thread_list \<Rightarrow> bool" where
  "each_once gen acc \<longleftrightarrow> distinct (map fst (fst acc)) \<and> fst ` set (fst acc) \<subseteq> seenset gen acc"

definition adds :: "inst list \<Rightarrow> nat \<Rightarrow> int \<Rightarrow> nat \<Rightarrow> nat set \<Rightarrow> thread_list \<Rightarrow> thread_list \<Rightarrow> bool" where
  "adds P n gen pos R acc acc' \<longleftrightarrow>
     (let S = seenset gen acc; S' = seenset gen acc'; E = quiets P n pos in
      length (snd acc') = length (snd acc) \<and> S \<subseteq> S' \<and> R \<inter> {..<length (snd acc)} \<subseteq> S' \<and>
      E `` (S' - S) \<inter> {..<length (snd acc)} \<subseteq> S' \<and> S' - S \<subseteq> E\<^sup>* `` R \<and>
      fst ` set (fst acc') = fst ` set (fst acc) \<union> {k \<in> S' - S. leaf (P ! k)} \<and>
      (each_once gen acc \<longrightarrow> each_once gen acc'))"

lemma adds_length: "adds P n gen pos R acc acc' \<Longrightarrow> length (snd acc') = length (snd acc)"
  by (simp add: adds_def Let_def)

lemma adds_refl: "R \<inter> {..<length (snd acc)} \<subseteq> seenset gen acc \<Longrightarrow> adds P n gen pos R acc acc"
  by (auto simp: adds_def Let_def)

lemma adds_trans:
  assumes "adds P n gen pos A acc acc1" "adds P n gen pos B acc1 acc2"
  shows "adds P n gen pos (A \<union> B) acc acc2"
proof -
  let ?S = "seenset gen acc" and ?S1 = "seenset gen acc1" and ?S2 = "seenset gen acc2" and ?E = "quiets P n pos"
  have a: "length (snd acc1) = length (snd acc)" "?S \<subseteq> ?S1" "A \<inter> {..<length (snd acc)} \<subseteq> ?S1"
      "?E `` (?S1 - ?S) \<inter> {..<length (snd acc)} \<subseteq> ?S1" "?S1 - ?S \<subseteq> ?E\<^sup>* `` A"
      "fst ` set (fst acc1) = fst ` set (fst acc) \<union> {k \<in> ?S1 - ?S. leaf (P ! k)}"
    using assms(1) unfolding adds_def Let_def by simp_all
  have b: "length (snd acc2) = length (snd acc)" "?S1 \<subseteq> ?S2" "B \<inter> {..<length (snd acc)} \<subseteq> ?S2"
      "?E `` (?S2 - ?S1) \<inter> {..<length (snd acc)} \<subseteq> ?S2" "?S2 - ?S1 \<subseteq> ?E\<^sup>* `` B"
      "fst ` set (fst acc2) = fst ` set (fst acc1) \<union> {k \<in> ?S2 - ?S1. leaf (P ! k)}"
    using assms(2) a(1) unfolding adds_def Let_def by simp_all
  have d: "?S2 - ?S = (?S2 - ?S1) \<union> (?S1 - ?S)" using a(2) b(2) by auto
  have "?E `` (?S2 - ?S) \<inter> {..<length (snd acc)} \<subseteq> ?S2" unfolding d using a(4) b(2,4) by blast
  moreover have "?S2 - ?S \<subseteq> ?E\<^sup>* `` (A \<union> B)" unfolding d using a(5) b(5) by blast
  moreover have "fst ` set (fst acc2) = fst ` set (fst acc) \<union> {k \<in> ?S2 - ?S. leaf (P ! k)}"
  proof -
    have "{k \<in> ?S2 - ?S. leaf (P ! k)} = {k \<in> ?S2 - ?S1. leaf (P ! k)} \<union> {k \<in> ?S1 - ?S. leaf (P ! k)}"
      unfolding d by (rule set_eqI) auto
    then show ?thesis by (simp only: a(6) b(6) Un_ac)
  qed
  moreover have "(A \<union> B) \<inter> {..<length (snd acc)} \<subseteq> ?S2" using a(3) b(2,3) by blast
  moreover have "each_once gen acc \<longrightarrow> each_once gen acc2" using assms by (simp add: adds_def Let_def)
  ultimately show ?thesis unfolding adds_def Let_def using a(2) b(1,2) by simp
qed

lemma adds_node:
  assumes "length (snd acc) = length P" "pc < length P" "snd acc ! pc \<noteq> gen" "\<not> leaf (P ! pc)"
    and "adds P n gen pos (quiets P n pos `` {pc}) (fst acc, (snd acc)[pc := gen]) acc'"
  shows "adds P n gen pos {pc} acc acc'"
proof -
  let ?acc1 = "(fst acc, (snd acc)[pc := gen])" and ?E = "quiets P n pos"
  let ?S = "seenset gen acc" and ?S1 = "seenset gen ?acc1" and ?S' = "seenset gen acc'"
  have s1: "?S1 = insert pc ?S" "pc \<notin> ?S" using assms(1-3) by (auto simp: seenset_def nth_list_update)
  have a: "length (snd acc') = length (snd acc)" "?S1 \<subseteq> ?S'" "?E `` {pc} \<inter> {..<length (snd acc)} \<subseteq> ?S'"
      "?E `` (?S' - ?S1) \<inter> {..<length (snd acc)} \<subseteq> ?S'" "?S' - ?S1 \<subseteq> ?E\<^sup>* `` (?E `` {pc})"
      "fst ` set (fst acc') = fst ` set (fst acc) \<union> {k \<in> ?S' - ?S1. leaf (P ! k)}"
    using assms(5) by (auto simp: adds_def Let_def)
  have d: "?S' - ?S = insert pc (?S' - ?S1)" using a(2) s1 by auto
  have "?E\<^sup>* `` (?E `` {pc}) \<subseteq> ?E\<^sup>* `` {pc}" by (auto intro: converse_rtrancl_into_rtrancl)
  then have "?S' - ?S \<subseteq> ?E\<^sup>* `` {pc}" using a(5) d by auto
  moreover have "?E `` (?S' - ?S) \<inter> {..<length (snd acc)} \<subseteq> ?S'" using a(3,4) d by auto
  moreover have "fst ` set (fst acc') = fst ` set (fst acc) \<union> {k \<in> ?S' - ?S. leaf (P ! k)}" using a(6) d assms(4) by auto
  moreover have "each_once gen acc \<longrightarrow> each_once gen acc'"
    using assms(5) s1 by (auto simp: adds_def Let_def each_once_def)
  moreover have "{pc} \<inter> {..<length (snd acc)} \<subseteq> ?S'" "?S \<subseteq> ?S'" using a(2) s1 by auto
  ultimately show ?thesis using a(1) unfolding adds_def Let_def by simp
qed

lemma adds_leaf:
  assumes "length (snd acc) = length P" "pc < length P" "snd acc ! pc \<noteq> gen" "leaf (P ! pc)"
  shows "adds P n gen pos {pc} acc (fst acc @ [(pc, slots)], (snd acc)[pc := gen])"
proof -
  let ?acc' = "(fst acc @ [(pc, slots)], (snd acc)[pc := gen])" and ?E = "quiets P n pos"
  have s: "seenset gen ?acc' = insert pc (seenset gen acc)" "pc \<notin> seenset gen acc"
    using assms(1-3) by (auto simp: seenset_def nth_list_update)
  have "?E `` {pc} = {}" using assms(4) by (cases "P ! pc") (auto simp: quiets_def)
  moreover have "seenset gen ?acc' - seenset gen acc = {pc}" using s by auto
  ultimately show ?thesis using assms(4) s by (auto simp: adds_def Let_def each_once_def)
qed

lemma quiets_at:
  assumes "pc < length P"
  shows "quiets P n pos `` {pc} = {pc'. silent (P ! pc) n pos pc pc'}"
  using assms by (auto simp: quiets_def)

lemma addThread_adds:
  "length (snd acc) = length P \<Longrightarrow> adds P n gen pos {pc} acc (addThread P n gen pos pc slots acc)"
proof (induction P n gen pos pc slots acc rule: addThread.induct)
  case (1 P n gen pos pc slots acc)
  let ?acc1 = "(fst acc, (snd acc)[pc := gen])" and ?E = "quiets P n pos"
  show ?case
  proof (cases "length (snd acc) \<le> pc \<or> snd acc ! pc = gen")
    case True
    then show ?thesis
      by (subst addThread.simps) (auto intro: adds_refl simp: seenset_def)
  next
    case False
    then have pc: "pc < length P" "snd acc ! pc \<noteq> gen" "length (snd ?acc1) = length P" using "1.prems" by auto
    note ih = "1.IH" [OF False refl]
    have none: "adds P n gen pos {} ?acc1 ?acc1" by (rule adds_refl) simp
    have node: "adds P n gen pos {pc} acc acc'"
      if "\<not> leaf (P ! pc)" "adds P n gen pos {pc'. silent (P ! pc) n pos pc pc'} ?acc1 acc'" for acc'
      using adds_node [OF "1.prems" pc(1,2) that(1)] that(2) quiets_at [OF pc(1), of n pos] by simp
    have lf: "adds P n gen pos {pc} acc (fst acc @ [(pc, slots)], (snd acc)[pc := gen])" if "leaf (P ! pc)"
      by (rule adds_leaf [OF "1.prems" pc(1,2) that])
    show ?thesis
    proof (cases "P ! pc")
      case (I_split a b)
      have "adds P n gen pos {a} ?acc1 (addThread P n gen pos a slots ?acc1)" using ih(3) [OF I_split] pc(3) by simp
      moreover from adds_length [OF this] have
        "adds P n gen pos {b} (addThread P n gen pos a slots ?acc1)
          (addThread P n gen pos b slots (addThread P n gen pos a slots ?acc1))"
        using ih(4) [OF I_split] pc(3) by simp
      ultimately have "adds P n gen pos ({a} \<union> {b}) ?acc1 (addThread P n gen pos b slots (addThread P n gen pos a slots ?acc1))"
        by (rule adds_trans)
      moreover have "{a} \<union> {b} = {pc'. silent (P ! pc) n pos pc pc'}" using I_split by auto
      ultimately show ?thesis using False I_split node by (subst addThread.simps) (simp add: Let_def)
    next
      case (I_jmp t)
      then show ?thesis using False ih(5) [OF I_jmp] pc(3) node by (subst addThread.simps) (simp add: Let_def)
    next
      case (I_save slot)
      then show ?thesis using False ih(6) [OF I_save] pc(3) node by (subst addThread.simps) (simp add: Let_def)
    next
      case I_bol
      then show ?thesis using False ih(1) [OF I_bol] pc(3) node none by (subst addThread.simps) (simp add: Let_def)
    next
      case I_eol
      then show ?thesis using False ih(2) [OF I_eol] pc(3) node none by (subst addThread.simps) (simp add: Let_def)
    qed (use False lf in \<open>subst addThread.simps, simp add: Let_def\<close>)+
  qed
qed

section \<open>The simulation\<close>

text \<open>The instructions that a run from a start before \<open>k\<close> reaches at a position.\<close>

definition reached :: "inst list \<Rightarrow> string \<Rightarrow> nat \<Rightarrow> nat \<Rightarrow> nat set" where
  "reached P hay k pos = {pc. pc < length P \<and> (\<exists>i < k. msteps P hay (0, i) (pc, pos))}"

lemma quiets_msteps: "(a, b) \<in> (quiets P (length hay) pos)\<^sup>* \<Longrightarrow> msteps P hay (a, pos) (b, pos)"
  by (induction rule: rtrancl_induct) (auto simp: quiets_def intro: rtranclp.rtrancl_into_rtrancl mstep.quiet)

lemma msteps_position: "msteps P hay c c' \<Longrightarrow> snd c \<le> snd c'"
  by (induction rule: rtranclp_induct) (auto elim: mstep.cases)

lemma reached_closed: "quiets P (length hay) pos `` reached P hay k pos \<inter> {..<length P} \<subseteq> reached P hay k pos"
  by (auto simp: reached_def quiets_def intro: rtranclp.rtrancl_into_rtrancl mstep.quiet)

text \<open>Adding the start at a position completes the instructions reached there.\<close>

lemma start_added:
  assumes "adds P (length hay) gen pos {0} acc acc'" "seenset gen acc = reached P hay pos pos" "length (snd acc) = length P"
  shows "seenset gen acc' = reached P hay (Suc pos) pos"
proof (intro equalityI subsetI)
  let ?S = "seenset gen acc" and ?S' = "seenset gen acc'" and ?E = "quiets P (length hay) pos"
  have a: "?S \<subseteq> ?S'" "{0} \<inter> {..<length P} \<subseteq> ?S'" "?E `` (?S' - ?S) \<inter> {..<length P} \<subseteq> ?S'" "?S' - ?S \<subseteq> ?E\<^sup>* `` {0}"
      "length (snd acc') = length P"
    using assms(1,3) by (simp_all add: adds_def Let_def)
  { fix pc assume pc: "pc \<in> ?S'"
    then have "pc < length P" using a(5) by (simp add: seenset_def)
    moreover have "\<exists>i < Suc pos. msteps P hay (0, i) (pc, pos)"
    proof (cases "pc \<in> ?S")
      case True
      then show ?thesis using assms(2) by (auto simp: reached_def less_Suc_eq)
    next
      case False
      then show ?thesis using pc a(4) quiets_msteps by blast
    qed
    ultimately show "pc \<in> reached P hay (Suc pos) pos" by (simp add: reached_def) }
  { fix pc assume "pc \<in> reached P hay (Suc pos) pos"
    then obtain i where i: "i < Suc pos" "msteps P hay (0, i) (pc, pos)" "pc < length P" by (auto simp: reached_def)
    have closed: "?E `` ?S' \<inter> {..<length P} \<subseteq> ?S'" using a(1,3) reached_closed [of P hay pos pos] assms(2) by blast
    have "pc < length P \<longrightarrow> pc \<in> ?S'" if "i = pos"
    proof -
      have "snd c = pos \<Longrightarrow> fst c < length P \<longrightarrow> fst c \<in> ?S'" if "msteps P hay (0, pos) c" for c
        using that
      proof (induction rule: rtranclp_induct)
        case base
        then show ?case using a(2) by auto
      next
        case (step c d)
        have "snd c = pos" using msteps_position [OF step(1)] step.prems step(2) by (auto elim: mstep.cases)
        then have c: "fst c < length P \<longrightarrow> fst c \<in> ?S'" using step.IH by blast
        have "fst c < length P \<and> (fst c, fst d) \<in> ?E"
          using step(2) \<open>snd c = pos\<close> step.prems by (cases rule: mstep.cases) (auto simp: quiets_def)
        then show ?case using c closed by auto
      qed
      then show ?thesis using i(2) \<open>i = pos\<close> by fastforce
    qed
    moreover have "pc \<in> reached P hay pos pos" if "i \<noteq> pos"
      using i that unfolding reached_def by (metis (mono_tags, lifting) less_antisym mem_Collect_eq)
    ultimately show "pc \<in> ?S'" using i(3) a(1) assms(2) by blast }
qed

text \<open>Advancing every waiting instruction gives what is reached at the next position.\<close>

lemma next_added:
  assumes "adds P (length hay) gen (Suc pos) R acc acc'" "seenset gen acc = {}" "length (snd acc) = length P"
    and "R = {Suc pc |pc. pc \<in> reached P hay (Suc pos) pos \<and> pos < length hay \<and> accepts (P ! pc) (code (hay ! pos))}"
  shows "seenset gen acc' = reached P hay (Suc pos) (Suc pos)"
proof (intro equalityI subsetI)
  let ?S' = "seenset gen acc'" and ?E = "quiets P (length hay) (Suc pos)"
  have a: "R \<inter> {..<length P} \<subseteq> ?S'" "?E `` ?S' \<inter> {..<length P} \<subseteq> ?S'" "?S' \<subseteq> ?E\<^sup>* `` R" "length (snd acc') = length P"
    using assms(1-3) by (simp_all add: adds_def Let_def)
  { fix k assume k: "k \<in> ?S'"
    then obtain pc i where pc: "(Suc pc, k) \<in> ?E\<^sup>*" "pc < length P" "i < Suc pos" "msteps P hay (0, i) (pc, pos)"
        "pos < length hay" "accepts (P ! pc) (code (hay ! pos))"
      using a(3) assms(4) by (auto simp: reached_def)
    have "mstep P hay (pc, pos) (Suc pc, Suc pos)" using pc by (intro mstep.eats)
    then have "msteps P hay (0, i) (k, Suc pos)"
      using pc(4) quiets_msteps [OF pc(1)] by (meson rtranclp.rtrancl_into_rtrancl rtranclp_trans)
    then show "k \<in> reached P hay (Suc pos) (Suc pos)" using k a(4) pc(3) by (auto simp: reached_def seenset_def) }
  { fix k assume "k \<in> reached P hay (Suc pos) (Suc pos)"
    then obtain i where i: "i < Suc pos" "msteps P hay (0, i) (k, Suc pos)" "k < length P" by (auto simp: reached_def)
    have "snd c = Suc pos \<Longrightarrow> fst c < length P \<longrightarrow> fst c \<in> ?S'" if "msteps P hay (0, i) c" for c
      using that
    proof (induction rule: rtranclp_induct)
      case base
      then show ?case using i(1) by simp
    next
      case (step c d)
      from step(2) show ?case
      proof (cases rule: mstep.cases)
        case (quiet pc j pc')
        then show ?thesis using step a(2) by (auto simp: quiets_def)
      next
        case (eats pc j)
        then have "pc \<in> reached P hay (Suc pos) pos" using step i(1) by (auto simp: reached_def)
        then show ?thesis using eats step.prems a(1) assms(4) by auto
      qed
    qed
    then show "k \<in> ?S'" using i(2,3) by fastforce }
qed

lemma inClass_accepts: "inClass negate ranges c \<longleftrightarrow> accepts (I_class negate ranges) c"
  by (auto simp: inClass_def in_ranges_def list_ex_iff Let_def)

text \<open>One position, with no thread at \<open>match\<close> and with one.\<close>

lemma runThreads_advances:
  assumes "\<forall>th \<in> set ths. P ! fst th \<noteq> I_match" "length (snd nacc) = length P"
  shows "\<exists>nacc'. runThreads P hay pos ths nacc best = (nacc', best) \<and>
    adds P (length hay) (int pos + 1) (Suc pos)
      {Suc pc |pc. pc \<in> fst ` set ths \<and> pos < length hay \<and> accepts (P ! pc) (code (hay ! pos))} nacc nacc'"
  using assms
proof (induction ths arbitrary: nacc)
  case Nil
  then show ?case by (auto intro: adds_refl)
next
  case (Cons th ths)
  obtain pc slots where th: "th = (pc, slots)" by force
  let ?A = "accepts (P ! pc) (code (hay ! pos)) \<and> pos < length hay"
  let ?n1 = "if ?A then addThread P (length hay) (int pos + 1) (pos + 1) (pc + 1) slots nacc else nacc"
  let ?R = "\<lambda>ths. {Suc pc |pc. pc \<in> fst ` set ths \<and> pos < length hay \<and> accepts (P ! pc) (code (hay ! pos))}"
  have ok: "(case P ! pc of I_char c \<Rightarrow> c = ch | I_any \<Rightarrow> True | I_class negate ranges \<Rightarrow> inClass negate ranges ch | _ \<Rightarrow> False)
      = accepts (P ! pc) ch" for ch
    by (cases "P ! pc") (auto simp: inClass_accepts)
  have run: "runThreads P hay pos (th # ths) nacc best = runThreads P hay pos ths ?n1 best"
    using Cons.prems(1) th by (simp add: ok Let_def)
  have n1: "adds P (length hay) (int pos + 1) (Suc pos) (if ?A then {Suc pc} else {}) nacc ?n1"
    using addThread_adds [OF Cons.prems(2), of "length hay" "int pos + 1" "pos + 1" "pc + 1" slots] by (auto intro: adds_refl)
  obtain nacc' where "runThreads P hay pos ths ?n1 best = (nacc', best)"
      "adds P (length hay) (int pos + 1) (Suc pos) (?R ths) ?n1 nacc'"
    using Cons.IH [of ?n1] Cons.prems adds_length [OF n1] by auto
  moreover have "?R (th # ths) = (if ?A then {Suc pc} else {}) \<union> ?R ths" by (auto simp: th)
  ultimately show ?case using run adds_trans [OF n1] by simp
qed

lemma runThreads_matches:
  assumes "\<exists>th \<in> set ths. P ! fst th = I_match"
  shows "snd (runThreads P hay pos ths nacc best) \<noteq> None"
  using assms
proof (induction ths arbitrary: nacc)
  case (Cons th ths)
  have "\<exists>th \<in> set ths. P ! fst th = I_match" if "P ! fst th \<noteq> I_match" using Cons.prems that by auto
  then show ?case using Cons.IH by (cases th) (simp add: Let_def)
qed simp

lemma runThreads_keeps: "snd (runThreads P hay pos ths nacc (Some b)) \<noteq> None"
  by (induction P hay pos ths nacc "Some b" rule: runThreads.induct) (auto simp: Let_def)

lemma execLoop_keeps: "execLoop P sc hay ps cacc (Some b) \<noteq> None"
proof (induction ps arbitrary: cacc b)
  case (Cons pos ps)
  obtain nacc b1 where "runThreads P hay pos (fst cacc) ([], fresh P) (Some b) = (nacc, b1)" by (metis prod.exhaust)
  moreover from this obtain b2 where "b1 = Some b2" using runThreads_keeps by (metis not_None_eq snd_conv)
  ultimately show ?case using Cons.IH by simp
qed simp

text \<open>The state of the loop before a position.\<close>

definition loop_state :: "inst list \<Rightarrow> string \<Rightarrow> nat \<Rightarrow> thread_list \<Rightarrow> bool" where
  "loop_state P hay pos cacc \<longleftrightarrow> length (snd cacc) = length P \<and> seenset (int pos) cacc = reached P hay pos pos \<and>
     fst ` set (fst cacc) = {pc \<in> reached P hay pos pos. leaf (P ! pc)}"

lemma execLoop_matches:
  assumes "loop_state P hay pos cacc" "pos \<le> Suc (length hay)"
  shows "execLoop P sc hay [pos..<Suc (length hay)] cacc None \<noteq> None \<longleftrightarrow>
    (\<exists>j pc. pos \<le> j \<and> j \<le> length hay \<and> pc \<in> reached P hay (Suc j) j \<and> P ! pc = I_match)"
  using assms
proof (induction "Suc (length hay) - pos" arbitrary: pos cacc)
  case 0
  then show ?case by simp
next
  case (Suc d)
  have pos: "pos \<le> length hay" using Suc.hyps(2) by simp
  let ?c = "addThread P (length hay) (int pos) pos 0 (replicate sc (-1)) cacc"
  let ?R = "reached P hay (Suc pos) pos"
  note ad = addThread_adds [of cacc P "length hay" "int pos" pos 0 "replicate sc (-1)"]
  have len: "length (snd cacc) = length P" using Suc.prems(1) by (simp add: loop_state_def)
  have seen: "seenset (int pos) ?c = ?R" using start_added [OF ad [OF len]] Suc.prems(1) by (simp add: loop_state_def)
  have "fst ` set (fst ?c) = fst ` set (fst cacc) \<union> {k \<in> ?R - reached P hay pos pos. leaf (P ! k)}"
    using ad [OF len] seen Suc.prems(1) by (simp add: adds_def Let_def loop_state_def)
  moreover have "reached P hay pos pos \<subseteq> ?R" by (auto simp: reached_def less_Suc_eq)
  ultimately have list: "fst ` set (fst ?c) = {k \<in> ?R. leaf (P ! k)}" using Suc.prems(1) by (auto simp: loop_state_def)
  have ups: "[pos..<Suc (length hay)] = pos # [Suc pos..<Suc (length hay)]" using pos by (simp add: upt_conv_Cons)
  show ?case
  proof (cases "\<exists>pc \<in> ?R. P ! pc = I_match")
    case True
    then have "\<exists>th \<in> set (fst ?c). P ! fst th = I_match" using list by (metis (mono_tags, lifting) image_iff leaf.simps(4) mem_Collect_eq)
    then obtain nacc b where "runThreads P hay pos (fst ?c) ([], fresh P) None = (nacc, Some b)"
      using runThreads_matches [of "fst ?c" P hay pos "([], fresh P)" None] by (metis not_None_eq prod.collapse)
    then show ?thesis using ups execLoop_keeps True pos by auto
  next
    case False
    have fr: "length (snd ([], fresh P)) = length P" "seenset (int pos + 1) ([], fresh P) = {}"
      by (auto simp: fresh_def seenset_def)
    have "\<forall>th \<in> set (fst ?c). P ! fst th \<noteq> I_match" using False list by (metis (mono_tags, lifting) image_eqI mem_Collect_eq)
    then obtain nacc where n: "runThreads P hay pos (fst ?c) ([], fresh P) None = (nacc, None)"
        "adds P (length hay) (int pos + 1) (Suc pos)
          {Suc pc |pc. pc \<in> fst ` set (fst ?c) \<and> pos < length hay \<and> accepts (P ! pc) (code (hay ! pos))} ([], fresh P) nacc"
      using runThreads_advances [of "fst ?c" P "([], fresh P)" hay pos None] fr(1) by blast
    have "accepts i ch \<Longrightarrow> leaf i" for i ch by (cases i) auto
    then have "{Suc pc |pc. pc \<in> fst ` set (fst ?c) \<and> pos < length hay \<and> accepts (P ! pc) (code (hay ! pos))} =
        {Suc pc |pc. pc \<in> ?R \<and> pos < length hay \<and> accepts (P ! pc) (code (hay ! pos))}"
      using list by auto
    note n2 = n(2) [unfolded this]
    have "seenset (int pos + 1) nacc = reached P hay (Suc pos) (Suc pos)" using next_added [OF n2 fr(2,1) refl] by simp
    then have "loop_state P hay (Suc pos) nacc"
      using n2 fr by (auto simp: loop_state_def adds_def Let_def add.commute)
    then have ih: "execLoop P sc hay [Suc pos..<Suc (length hay)] nacc None \<noteq> None \<longleftrightarrow>
        (\<exists>j pc. Suc pos \<le> j \<and> j \<le> length hay \<and> pc \<in> reached P hay (Suc j) j \<and> P ! pc = I_match)"
      using Suc.hyps pos by (intro Suc.hyps(1)) simp_all
    have "execLoop P sc hay [pos..<Suc (length hay)] cacc None = execLoop P sc hay [Suc pos..<Suc (length hay)] nacc None"
      using ups n(1) by simp
    moreover have "(\<exists>j pc. pos \<le> j \<and> j \<le> length hay \<and> pc \<in> reached P hay (Suc j) j \<and> P ! pc = I_match) \<longleftrightarrow>
        (\<exists>j pc. Suc pos \<le> j \<and> j \<le> length hay \<and> pc \<in> reached P hay (Suc j) j \<and> P ! pc = I_match)"
      using False by (metis Suc_leD le_antisym not_less_eq_eq)
    ultimately show ?thesis using ih by simp
  qed
qed

section \<open>Correctness of the matcher\<close>

text \<open>Inside a fragment there is no \<open>match\<close>, and every jump stays within it or goes to its end.\<close>

lemma fragment_inside:
  "fragment P ci s nd e \<Longrightarrow> s \<le> k \<Longrightarrow> k < e \<Longrightarrow> P ! k \<noteq> I_match \<and> (silent (P ! k) n pos k k' \<longrightarrow> k' \<le> e)"
proof (induction arbitrary: k rule: fragment.induct)
  case (cat_cons s p m ps e)
  have "m \<le> e" using fragment_le cat_cons.hyps by blast
  then show ?case using cat_cons.IH cat_cons.prems by (cases "k < m") (auto intro: order_trans simp: not_less)
next
  case (alt_cons s j p e q ps)
  have le: "Suc j \<le> e" "Suc s \<le> j" using fragment_le alt_cons.hyps by blast+
  consider "k = s" | "Suc s \<le> k" "k < j" | "k = j" | "Suc j \<le> k" using alt_cons.prems by linarith
  then show ?case
  proof cases
    case 2
    then show ?thesis using alt_cons.IH(1) [of k] le by auto
  qed (use le alt_cons.hyps alt_cons.IH(2) alt_cons.prems in auto)
next
  case (group s index nd m)
  consider "k = s" | "Suc s \<le> k" "k < m" | "k = m" using group.prems by linarith
  then show ?case using group.hyps group.IH [of k] fragment_le [OF group.hyps(2)] by cases auto
next
  case (rep_min s nd m j mx e)
  have "m \<le> e" using fragment_le rep_min.hyps by blast
  then show ?case using rep_min.IH rep_min.prems by (cases "k < m") (auto intro: order_trans simp: not_less)
next
  case (rep_star s j nd)
  consider "k = s" | "Suc s \<le> k" "k < j" | "k = j" using rep_star.prems by linarith
  then show ?case using rep_star.hyps rep_star.IH [of k] fragment_le [OF rep_star.hyps(2)] by cases auto
next
  case (rep_opt s e nd m j)
  have le: "m \<le> e" "Suc s \<le> m" using fragment_le rep_opt.hyps by blast+
  consider "k = s" | "Suc s \<le> k" "k < m" | "m \<le> k" using rep_opt.prems by linarith
  then show ?case
    using le rep_opt.hyps rep_opt.IH rep_opt.prems by cases (auto intro: order_trans)
qed (auto simp: less_Suc_eq_le dest!: le_antisym)

lemma program_match_unique:
  assumes "program_of P ci ast" "pc < length P" "P ! pc = I_match"
  shows "pc = length P - 1"
proof (rule ccontr)
  assume "pc \<noteq> length P - 1"
  moreover have "pc \<noteq> 0" "pc \<noteq> length P - 2" using assms(1,3) unfolding program_of_def by (intro notI, simp)+
  ultimately have "1 \<le> pc" "pc < length P - 2" using assms(2) by auto
  then show False using fragment_inside [of P ci 1 ast "length P - 2" pc] assms by (simp add: program_of_def)
qed

lemma program_closed:
  assumes "program_of P ci ast" "mstep P hay (pc, i) (pc', i')"
  shows "pc' < length P"
proof -
  have len: "3 \<le> length P" using assms(1) by (simp add: program_of_def)
  have pc: "pc < length P" using assms(2) by (auto elim: mstepE)
  have ne: "pc \<noteq> length P - 1" using assms by (auto simp: program_of_def elim: mstepE)
  consider "pc = 0" | "pc = length P - 2" | "1 \<le> pc" "pc < length P - 2" using pc ne by linarith
  then show ?thesis
  proof cases
    case 1
    then show ?thesis using assms len by (auto simp: program_of_def elim: mstepE)
  next
    case 2
    then show ?thesis using assms len by (auto simp: program_of_def elim: mstepE)
  next
    case 3
    have "silent (P ! pc) (length hay) i pc pc' \<Longrightarrow> pc' \<le> length P - 2"
      using fragment_inside [of P ci 1 ast "length P - 2" pc] 3 assms(1) by (auto simp: program_of_def)
    then show ?thesis using assms(2) 3 len by (auto elim!: mstepE)
  qed
qed

lemma execLoop_program:
  assumes "program_of P ci ast"
  shows "execLoop P sc hay [0..<length hay + 1] ([], fresh P) None \<noteq> None \<longleftrightarrow>
    (\<exists>i j. i \<le> j \<and> j \<le> length hay \<and> (i, j) \<in> meaning ci hay ast)"
proof -
  have "loop_state P hay 0 ([], fresh P)" by (auto simp: loop_state_def fresh_def seenset_def reached_def)
  then have "execLoop P sc hay [0..<length hay + 1] ([], fresh P) None \<noteq> None \<longleftrightarrow>
      (\<exists>j pc. j \<le> length hay \<and> pc \<in> reached P hay (Suc j) j \<and> P ! pc = I_match)"
    using execLoop_matches [of P hay 0 "([], fresh P)" sc] by simp
  also have "\<dots> \<longleftrightarrow> (\<exists>j \<le> length hay. \<exists>i \<le> j. msteps P hay (0, i) (length P - 1, j))"
  proof -
    have "pc \<in> reached P hay (Suc j) j \<and> P ! pc = I_match \<longleftrightarrow>
        pc = length P - 1 \<and> (\<exists>i \<le> j. msteps P hay (0, i) (length P - 1, j))" for pc j
      using program_match_unique [OF assms] assms by (auto simp: reached_def program_of_def less_Suc_eq_le)
    then show ?thesis by blast
  qed
  finally show ?thesis using program_runs [OF assms] by auto
qed

text \<open>C39: Regular expressions. For every pattern that compiles and every input, the virtual machine
  reports a match exactly when the pattern, read as its syntax tree, matches the input between some two
  positions, anchors, bounded repetition and empty loops included. With the option to ignore case,
  the input and the characters of the pattern are compared in lower case.\<close>

theorem regex_decides:
  assumes "compileRegex pattern ci = Some (Inr re)"
  shows "\<exists>ast. parsePattern pattern = Some (Inr (ast, cr_groups re)) \<and>
    (\<forall>input. rm_matched (execRegex re input) \<longleftrightarrow>
      (\<exists>i j. i \<le> j \<and> j \<le> length input \<and> (i, j) \<in> meaning ci (if ci then toLowerCase input else input) ast))"
proof -
  obtain ast where a: "parsePattern pattern = Some (Inr (ast, cr_groups re))" "program_of (cr_prog re) ci ast"
      "cr_caseInsensitive re = ci"
    using compileRegex_program [OF assms] by blast
  have "rm_matched (execRegex re input) \<longleftrightarrow>
      (\<exists>i j. i \<le> j \<and> j \<le> length input \<and> (i, j) \<in> meaning ci (if ci then toLowerCase input else input) ast)" for input
  proof -
    let ?hay = "if ci then toLowerCase input else input"
    let ?r = "execLoop (cr_prog re) ((cr_groups re + 1) * 2) ?hay [0..<length ?hay + 1] ([], fresh (cr_prog re)) None"
    have "rm_matched (execRegex re input) \<longleftrightarrow> ?r \<noteq> None"
      unfolding execRegex_def Let_def a(3) by (cases ?r) (simp_all del: upt_Suc)
    then show ?thesis unfolding execLoop_program [OF a(2)] by simp
  qed
  with a(1) show ?thesis by blast
qed

theorem regex_decides_witness:
  "\<exists>re ast. compileRegex ''(a|b)+$'' False = Some (Inr re) \<and> parsePattern ''(a|b)+$'' = Some (Inr (ast, 1)) \<and>
    rm_matched (execRegex re ''xab'') \<and> (\<exists>i j. i \<le> j \<and> j \<le> 3 \<and> (i, j) \<in> meaning False ''xab'' ast)"
proof -
  obtain re where re: "compileRegex ''(a|b)+$'' False = Some (Inr re)" "cr_groups re = 1" "rm_matched (execRegex re ''xab'')"
  proof -
    have "(case compileRegex ''(a|b)+$'' False of Some (Inr re) \<Rightarrow> cr_groups re = 1 \<and> rm_matched (execRegex re ''xab'') | _ \<Rightarrow> False)"
      by code_simp
    then show ?thesis using that by (auto split: option.splits sum.splits)
  qed
  show ?thesis using regex_decides [OF re(1)] re by fastforce
qed

text \<open>At most one thread per instruction is alive.\<close>

lemma adds_each_once: "adds P n gen pos R acc acc' \<Longrightarrow> each_once gen acc \<Longrightarrow> each_once gen acc'"
  by (simp add: adds_def Let_def)

lemma each_once_bound:
  assumes "each_once gen acc" "length (snd acc) = length P"
  shows "length (fst acc) \<le> length P"
proof -
  have "length (fst acc) = card (fst ` set (fst acc))"
    using assms(1) by (metis each_once_def distinct_card length_map list.set_map)
  also have "\<dots> \<le> card {..<length P}"
    using assms by (intro card_mono) (auto simp: each_once_def seenset_def)
  finally show ?thesis by simp
qed

text \<open>Ignoring case lowers the input but not the ranges of a class, so that a class of capitals matches nothing.\<close>

lemma class_of_capitals_never_matches:
  "(case compileRegex ''[A-Z]'' True of Some (Inr re) \<Rightarrow> \<not> rm_matched (execRegex re ''ABC'') | _ \<Rightarrow> False)"
  by code_simp

end
