(* ===== verification/ManageSieve.thy ===== *)
theory ManageSieve
  imports ImapParser Scram Glob
begin

text \<open>
  The ManageSieve server of \<open>proto-managesieve/src/engine.ts\<close>, over the IMAP line reader. The class
  \<open>ManageSieveEngine\<close> is the record \<open>ms\<close> with its fixed options apart in \<open>ms_options\<close>; each public
  method is a function on it, and a method that raises returns \<open>Inl\<close>. Every value \<open>parseParts\<close> pushes
  has a \<open>text\<close>, so a value is that string; a literal's text is its bytes decoded as UTF-8, the identity
  here (exact on ASCII). \<open>rnd\<close> is what \<open>randomBytes\<close> returns during a call: a call begins at
  most one SCRAM exchange, because the request for keys stops it.
\<close>

section \<open>State and actions\<close>

datatype ms_action =
    MA_reply string
  | MA_replyBytes bytes
  | MA_close
  | MA_startTls
  | MA_auth string string
  | MA_scramKeys string
  | MA_authVerified string
  | MA_authFailed "string option" string
  | MA_putScript string string
  | MA_checkScript string
  | MA_listScripts
  | MA_getScript string
  | MA_deleteScript string
  | MA_renameScript string string
  | MA_setActive string

datatype ms_op_result = OpOk | OpFailed "string option" string

record ms_options =
  mo_hostname :: string
  mo_secure :: bool
  mo_allowInsecureAuth :: bool
  mo_tlsAvailable :: bool
  mo_scramOffered :: bool
  mo_scramDecoySecret :: bytes
  mo_maxScriptBytes :: nat

datatype ms_sasl = MS_PLAIN | MS_SCRAM

datatype ms_pending =
    MP_auth ms_sasl
  | MP_scramKeys
  | MP_authLine ms_sasl
  | MP_putScript string
  | MP_checkScript
  | MP_list
  | MP_get string
  | MP_op

datatype ms_stage = MS_clientFirst | MS_clientFinal | MS_serverFinal

record ms_scram =
  mx_session :: scram_session
  mx_stage :: ms_stage
  mx_username :: "string option"

record ms =
  ms_secure :: bool
  ms_scram :: "ms_scram option"
  ms_reader :: imap_reader
  ms_authed :: bool
  ms_closed :: bool
  ms_awaitingTls :: bool
  ms_pending :: "ms_pending option"
  ms_queued :: "line_part list list"

definition ms_newReader :: "ms_options \<Rightarrow> imap_reader" where
  "ms_newReader opt = imapReader_new None (Some (mo_maxScriptBytes opt)) None"

definition ms_new :: "ms_options \<Rightarrow> ms" where
  "ms_new opt =
     \<lparr>ms_secure = mo_secure opt, ms_scram = None, ms_reader = ms_newReader opt, ms_authed = False, ms_closed = False,
      ms_awaitingTls = False, ms_pending = None, ms_queued = []\<rparr>"

section \<open>Values of a line\<close>

text \<open>
  The quoted string after its opening quote, and the rest of the text after its closing one. A
  backslash takes the next character as it is; the end of the text closes the string.
\<close>

fun ms_quoted :: "string \<Rightarrow> string \<times> string" where
  "ms_quoted [] = ([], [])"
| "ms_quoted [c] = (if c = QUOTE \<or> c = BACKSLASH then ([], []) else ([c], []))"
| "ms_quoted (c # d # cs) =
     (if c = QUOTE then ([], d # cs)
      else if c = BACKSLASH then (let (v, r) = ms_quoted cs in (d # v, r))
      else let (v, r) = ms_quoted (d # cs) in (c # v, r))"

lemma ms_quoted_length: "length (snd (ms_quoted s)) \<le> length s"
  by (induction s rule: ms_quoted.induct) (auto simp: split_beta)

abbreviation ms_blank :: "char \<Rightarrow> bool" where "ms_blank c \<equiv> c = SP \<or> c = TAB"

function ms_tokens :: "string \<Rightarrow> string list" where
  "ms_tokens [] = []"
| "ms_tokens (c # s) =
     (if ms_blank c then ms_tokens s
      else if c = QUOTE then (let (v, r) = ms_quoted s in v # ms_tokens r)
      else takeWhile (\<lambda>x. \<not> ms_blank x) (c # s) # ms_tokens (dropWhile (\<lambda>x. \<not> ms_blank x) (c # s)))"
  by pat_completeness auto
termination
proof (relation "measure length", goal_cases)
  case (3 c s v r p)
  then show ?case using ms_quoted_length [of s] by (metis in_measure le_imp_less_Suc length_Cons snd_conv)
next
  case (4 c s)
  then show ?case using length_dropWhile_le [of "\<lambda>x. \<not> ms_blank x" s] by simp
qed simp_all

fun parseParts :: "line_part list \<Rightarrow> string list" where
  "parseParts [] = []"
| "parseParts (LiteralPart b # ps) = utf8Decode b # parseParts ps"
| "parseParts (TextPart t # ps) = ms_tokens t @ parseParts ps"

definition value_at :: "nat \<Rightarrow> string list \<Rightarrow> string option" where
  "value_at i vs = (if i < length vs then Some (vs ! i) else None)"

definition value_or :: "string \<Rightarrow> nat \<Rightarrow> string list \<Rightarrow> string" where
  "value_or d i vs = (case value_at i vs of Some v \<Rightarrow> v | None \<Rightarrow> d)"

definition ms_quote :: "string \<Rightarrow> string" where
  "ms_quote s =
     [QUOTE] @ replaceAllChar QUOTE [BACKSLASH, QUOTE] (replaceAllChar BACKSLASH [BACKSLASH, BACKSLASH] s) @ [QUOTE]"

text \<open>The replies of the sources that are a word and a fixed quoted text.\<close>

definition says :: "string \<Rightarrow> string \<Rightarrow> ms_action" where
  "says word t = MA_reply (word @ '' '' @ [QUOTE] @ t @ [QUOTE])"

section \<open>The number of HAVESPACE\<close>

text \<open>
  JavaScript's \<open>Number(s)\<close>: white space is dropped at both ends, the empty string is 0, and the rest is a
  decimal literal with an optional fraction and exponent, \<open>Infinity\<close>, or digits in base 2, 8 or 16; a
  decimal may have a sign. A finite value is \<open>m * 10 ^ e\<close> before it is rounded to a double.
\<close>

datatype js_number = JS_NaN | JS_Infinity | JS_decimal int int

definition digit_in :: "nat \<Rightarrow> char \<Rightarrow> nat option" where
  "digit_in base c =
     (let n = code c;
          v = (if 48 \<le> n \<and> n \<le> 57 then n - 48
               else if 97 \<le> n \<and> n \<le> 102 then n - 87
               else if 65 \<le> n \<and> n \<le> 70 then n - 55 else 99)
      in if v < base then Some v else None)"

definition ms_radix_value :: "nat \<Rightarrow> string \<Rightarrow> js_number" where
  "ms_radix_value base ds =
     (if ds \<noteq> [] \<and> list_all (\<lambda>c. digit_in base c \<noteq> None) ds
      then JS_decimal (int (foldl (\<lambda>n c. base * n + the (digit_in base c)) 0 ds)) 0 else JS_NaN)"

definition exponent_value :: "string \<Rightarrow> int option" where
  "exponent_value s =
     (if s = [] then Some 0
      else if hd s \<noteq> CHR ''e'' \<and> hd s \<noteq> CHR ''E'' then None
      else let t = tl s;
               neg = startsWith ''-'' t;
               ds = (if neg \<or> startsWith ''+'' t then tl t else t)
           in if all_digits ds then Some (if neg then - int (digits_value ds) else int (digits_value ds)) else None)"

definition unsigned_decimal :: "string \<Rightarrow> js_number" where
  "unsigned_decimal s =
     (let whole = takeWhile is_digit s;
          r = dropWhile is_digit s;
          dot = startsWith ''.'' r;
          frac = (if dot then takeWhile is_digit (tl r) else []);
          rest = (if dot then dropWhile is_digit (tl r) else r)
      in if s = ''Infinity'' then JS_Infinity
         else if whole = [] \<and> frac = [] then JS_NaN
         else case exponent_value rest of
           None \<Rightarrow> JS_NaN
         | Some e \<Rightarrow> JS_decimal (int (digits_value (whole @ frac))) (e - int (length frac)))"

definition js_Number :: "string \<Rightarrow> js_number" where
  "js_Number str =
     (let s = trim str in
      if s = [] then JS_decimal 0 0
      else if startsWith ''0x'' s \<or> startsWith ''0X'' s then ms_radix_value 16 (drop 2 s)
      else if startsWith ''0o'' s \<or> startsWith ''0O'' s then ms_radix_value 8 (drop 2 s)
      else if startsWith ''0b'' s \<or> startsWith ''0B'' s then ms_radix_value 2 (drop 2 s)
      else if startsWith ''-'' s
        then (case unsigned_decimal (tl s) of JS_decimal m e \<Rightarrow> JS_decimal (- m) e | n \<Rightarrow> n)
      else unsigned_decimal (if startsWith ''+'' s then tl s else s))"

text \<open>\<open>m * 10 ^ e\<close> compared with a fraction \<open>p / q\<close>.\<close>

definition decimal_le :: "int \<Rightarrow> int \<Rightarrow> int \<Rightarrow> int \<Rightarrow> bool" where
  "decimal_le m e p q = (if e \<ge> 0 then m * 10 ^ nat e * q \<le> p else m * q \<le> p * 10 ^ nat (- e))"

text \<open>
  \<open>Number.isFinite(n) && n <= limit\<close> on the double nearest to the value, for a limit below \<open>2 ^ 52\<close>. The
  double is at most the limit exactly when the value is at most the limit and half the distance to the
  next double (a tie goes to the limit, whose significand is even); it is finite exactly when its magnitude
  is below \<open>2 ^ 1024 - 2 ^ 970\<close>.
\<close>

fun half_ulp_denominator :: "nat \<Rightarrow> nat" where
  "half_ulp_denominator n = (if n < 2 then 2 ^ 53 else half_ulp_denominator (n div 2) div 2)"

declare half_ulp_denominator.simps [simp del]

fun number_at_most :: "js_number \<Rightarrow> nat \<Rightarrow> bool" where
  "number_at_most (JS_decimal m e) limit \<longleftrightarrow>
     (if limit = 0 then m \<le> 0 \<or> decimal_le m e 1 (2 ^ 1075)
      else decimal_le m e (int (limit * half_ulp_denominator limit) + 1) (int (half_ulp_denominator limit))) \<and>
     \<not> decimal_le m e (- (2 ^ 1024 - 2 ^ 970)) 1"
| "number_at_most _ limit = False"

section \<open>Commands\<close>

definition ms_authAllowed :: "ms_options \<Rightarrow> ms \<Rightarrow> bool" where
  "ms_authAllowed opt s \<longleftrightarrow> ms_secure s \<or> mo_allowInsecureAuth opt"

definition ms_starttlsOffered :: "ms_options \<Rightarrow> ms \<Rightarrow> bool" where
  "ms_starttlsOffered opt s \<longleftrightarrow> mo_tlsAvailable opt \<and> \<not> ms_secure s"

definition in_quotes :: "string \<Rightarrow> string" where
  "in_quotes t = [QUOTE] @ t @ [QUOTE]"

definition CAP_LINES :: "string \<Rightarrow> bool \<Rightarrow> bool \<Rightarrow> bool \<Rightarrow> string list" where
  "CAP_LINES hostname authAllowed starttls scramOffered =
     [in_quotes ''IMPLEMENTATION'' @ '' '' @ in_quotes ''ionosphere ManageSieve'',
      in_quotes ''SIEVE'' @ '' '' @ in_quotes (join '' '' SUPPORTED_EXTENSION_LIST),
      in_quotes ''VERSION'' @ '' '' @ in_quotes ''1.0''] @
     (if starttls then [in_quotes ''STARTTLS''] else []) @
     (if authAllowed
      then [if scramOffered then in_quotes ''SASL'' @ '' '' @ in_quotes ''SCRAM-SHA-256 PLAIN''
            else in_quotes ''SASL'' @ '' '' @ in_quotes ''PLAIN'']
      else [in_quotes ''SASL'' @ '' '' @ in_quotes []])"

definition ms_capabilities :: "ms_options \<Rightarrow> ms \<Rightarrow> ms_action list" where
  "ms_capabilities opt s =
     map MA_reply (CAP_LINES (mo_hostname opt) (ms_authAllowed opt s) (ms_starttlsOffered opt s) (mo_scramOffered opt))"

definition ms_greeting :: "ms_options \<Rightarrow> ms \<Rightarrow> ms_action list" where
  "ms_greeting opt s = ms_capabilities opt s @ [says ''OK'' (mo_hostname opt @ '' ManageSieve ready'')]"

definition ms_cmdStartTls :: "ms_options \<Rightarrow> ms \<Rightarrow> ms \<times> ms_action list" where
  "ms_cmdStartTls opt s =
     (if ms_secure s then (s, [says ''NO'' ''TLS already active''])
      else if \<not> mo_tlsAvailable opt then (s, [says ''NO'' ''STARTTLS not available''])
      else if ms_pending s \<noteq> None then (s, [says ''NO'' ''STARTTLS not allowed mid-command''])
      else (s\<lparr>ms_awaitingTls := True, ms_queued := []\<rparr>, [says ''OK'' ''Begin TLS negotiation now'', MA_startTls]))"

definition ms_scramFailedAction :: "scram_step \<Rightarrow> ms_action" where
  "ms_scramFailedAction step =
     MA_authFailed (case step of Failed (Some u) \<Rightarrow> (if u = [] then None else Some u) | _ \<Rightarrow> None) ''SCRAM-SHA-256''"

text \<open>A SASL challenge as a literal.\<close>

definition ms_challenge :: "string \<Rightarrow> ms_action" where
  "ms_challenge message =
     (let b64 = b64_encode (utf8Encode message) in MA_reply (literalDecl (length b64) True @ CRLF @ b64))"

definition ms_handleScramLine :: "crypto \<Rightarrow> bytes \<Rightarrow> string \<Rightarrow> ms \<Rightarrow> ms \<times> ms_action list" where
  "ms_handleScramLine c rnd b64 s =
     (case ms_scram s of
        None \<Rightarrow> (s, [says ''NO'' ''authentication failed''])
      | Some sc \<Rightarrow>
          if mx_stage sc = MS_serverFinal then
            (s\<lparr>ms_scram := None, ms_pending := Some (MP_auth MS_SCRAM)\<rparr>,
             [MA_authVerified (case mx_username sc of Some u \<Rightarrow> u | None \<Rightarrow> [])])
          else case decodeSaslBase64 b64 of
            None \<Rightarrow> (s\<lparr>ms_scram := None\<rparr>, [says ''NO'' ''invalid base64''])
          | Some bs \<Rightarrow>
              if mx_stage sc = MS_clientFirst then
                (case scram_start rnd (utf8Decode bs) (mx_session sc) of
                   (session1, NeedLookup user) \<Rightarrow>
                     (s\<lparr>ms_scram := Some (sc\<lparr>mx_session := session1, mx_stage := MS_clientFinal\<rparr>),
                        ms_pending := Some MP_scramKeys\<rparr>, [MA_scramKeys user])
                 | (session1, step) \<Rightarrow>
                     (s\<lparr>ms_scram := None\<rparr>, [ms_scramFailedAction step, says ''NO'' ''authentication failed'']))
              else
                (case scram_final c (utf8Decode bs) (mx_session sc) of
                   (session1, Done user message) \<Rightarrow>
                     (s\<lparr>ms_scram := Some \<lparr>mx_session = session1, mx_stage = MS_serverFinal, mx_username = Some user\<rparr>,
                        ms_pending := Some (MP_authLine MS_SCRAM)\<rparr>, [ms_challenge message])
                 | (session1, step) \<Rightarrow>
                     (s\<lparr>ms_scram := None\<rparr>, [ms_scramFailedAction step, says ''NO'' ''authentication failed''])))"

definition ms_decodePlain :: "string \<Rightarrow> ms \<Rightarrow> ms \<times> ms_action list" where
  "ms_decodePlain b64 s =
     (case decodeSaslBase64 b64 of
        None \<Rightarrow> (s, [says ''NO'' ''invalid base64''])
      | Some bs \<Rightarrow>
          (case parseSaslPlain bs of
             None \<Rightarrow> (s, [says ''NO'' ''malformed PLAIN''])
           | Some (user, pass) \<Rightarrow> (s\<lparr>ms_pending := Some (MP_auth MS_PLAIN)\<rparr>, [MA_auth user pass])))"

definition ms_cmdAuthenticate ::
  "crypto \<Rightarrow> ms_options \<Rightarrow> bytes \<Rightarrow> string list \<Rightarrow> ms \<Rightarrow> ms \<times> ms_action list" where
  "ms_cmdAuthenticate c opt rnd vs s =
     (if ms_authed s then (s, [says ''NO'' ''already authenticated''])
      else if \<not> ms_authAllowed opt s then (s, [says ''NO'' ''TLS required before AUTHENTICATE''])
      else let mech = toUpperCase (value_or [] 1 vs) in
        if mech = ''SCRAM-SHA-256'' then
          (if \<not> mo_scramOffered opt then (s, [says ''NO'' ''unsupported SASL mechanism''])
           else let s1 = s\<lparr>ms_scram := Some \<lparr>mx_session = newScramSession (mo_scramDecoySecret opt),
                                             mx_stage = MS_clientFirst, mx_username = None\<rparr>\<rparr>
             in case value_at 2 vs of
                  Some irs \<Rightarrow> ms_handleScramLine c rnd irs s1
                | None \<Rightarrow> (s1\<lparr>ms_pending := Some (MP_authLine MS_SCRAM)\<rparr>, [MA_reply (in_quotes [])]))
        else if mech \<noteq> ''PLAIN'' then (s, [says ''NO'' ''unsupported SASL mechanism''])
        else case value_at 2 vs of
          Some ir \<Rightarrow> ms_decodePlain ir s
        | None \<Rightarrow> (s\<lparr>ms_pending := Some (MP_authLine MS_PLAIN)\<rparr>, [MA_reply (in_quotes [])]))"

text \<open>The commands of an authenticated client.\<close>

definition ms_scriptCommand :: "ms_options \<Rightarrow> string \<Rightarrow> string list \<Rightarrow> ms \<Rightarrow> ms \<times> ms_action list" where
  "ms_scriptCommand opt cmd vs s =
     (if cmd = ''PUTSCRIPT'' then
        (case (value_at 1 vs, value_at 2 vs) of
           (Some name, Some content) \<Rightarrow> (s\<lparr>ms_pending := Some (MP_putScript name)\<rparr>, [MA_putScript name content])
         | _ \<Rightarrow> (s, [says ''NO'' ''PUTSCRIPT needs name and script'']))
      else if cmd = ''CHECKSCRIPT'' then
        (case value_at 1 vs of
           Some content \<Rightarrow> (s\<lparr>ms_pending := Some MP_checkScript\<rparr>, [MA_checkScript content])
         | None \<Rightarrow> (s, [says ''NO'' ''CHECKSCRIPT needs script'']))
      else if cmd = ''LISTSCRIPTS'' then (s\<lparr>ms_pending := Some MP_list\<rparr>, [MA_listScripts])
      else if cmd = ''SETACTIVE'' then (s\<lparr>ms_pending := Some MP_op\<rparr>, [MA_setActive (value_or [] 1 vs)])
      else if cmd = ''GETSCRIPT'' then
        (case value_at 1 vs of
           Some name \<Rightarrow> (s\<lparr>ms_pending := Some (MP_get name)\<rparr>, [MA_getScript name])
         | None \<Rightarrow> (s, [says ''NO'' ''GETSCRIPT needs name'']))
      else if cmd = ''DELETESCRIPT'' then
        (case value_at 1 vs of
           Some name \<Rightarrow> (s\<lparr>ms_pending := Some MP_op\<rparr>, [MA_deleteScript name])
         | None \<Rightarrow> (s, [says ''NO'' ''DELETESCRIPT needs name'']))
      else if cmd = ''RENAMESCRIPT'' then
        (case (value_at 1 vs, value_at 2 vs) of
           (Some old, Some new) \<Rightarrow> (s\<lparr>ms_pending := Some MP_op\<rparr>, [MA_renameScript old new])
         | _ \<Rightarrow> (s, [says ''NO'' ''RENAMESCRIPT needs old and new name'']))
      else if cmd = ''HAVESPACE'' then
        (if number_at_most (js_Number (value_or ''0'' 2 vs)) (mo_maxScriptBytes opt) then (s, [MA_reply ''OK''])
         else (s, [says ''NO (QUOTA/MAXSIZE)'' ''script too large'']))
      else (s, [says ''NO'' ''unknown command'']))"

definition ms_handleLine ::
  "crypto \<Rightarrow> ms_options \<Rightarrow> bytes \<Rightarrow> line_part list \<Rightarrow> ms \<Rightarrow> ms \<times> ms_action list" where
  "ms_handleLine c opt rnd parts s =
     (let vs = parseParts parts in
      if vs = [] then (s, [says ''NO'' ''empty command''])
      else let cmd = toUpperCase (hd vs) in
        if cmd = ''LOGOUT'' then (s\<lparr>ms_closed := True\<rparr>, [says ''OK'' ''bye'', MA_close])
        else if cmd = ''NOOP'' then (s, [says ''OK'' ''NOOP completed''])
        else if cmd = ''CAPABILITY'' then (s, ms_capabilities opt s @ [MA_reply ''OK''])
        else if cmd = ''AUTHENTICATE'' then ms_cmdAuthenticate c opt rnd vs s
        else if cmd = ''STARTTLS'' then ms_cmdStartTls opt s
        else if \<not> ms_authed s then (s, [says ''NO'' ''Authenticate first''])
        else ms_scriptCommand opt cmd vs s)"

section \<open>Transitions\<close>

text \<open>How one line changes the state, and what it makes the engine ask of its environment.\<close>

definition ms_script :: "ms_action \<Rightarrow> bool" where
  "ms_script a \<longleftrightarrow> (case a of MA_putScript _ _ \<Rightarrow> True | MA_checkScript _ \<Rightarrow> True | MA_listScripts \<Rightarrow> True
     | MA_getScript _ \<Rightarrow> True | MA_deleteScript _ \<Rightarrow> True | MA_renameScript _ _ \<Rightarrow> True | MA_setActive _ \<Rightarrow> True | _ \<Rightarrow> False)"

definition ms_login :: "ms_action \<Rightarrow> bool" where
  "ms_login a \<longleftrightarrow> (case a of MA_auth _ _ \<Rightarrow> True | MA_scramKeys _ \<Rightarrow> True | MA_authVerified _ \<Rightarrow> True | _ \<Rightarrow> False)"

definition ms_request :: "ms_action \<Rightarrow> bool" where
  "ms_request a \<longleftrightarrow> ms_script a \<or> ms_login a"

definition ms_plain :: "ms_action \<Rightarrow> bool" where
  "ms_plain a \<longleftrightarrow> (case a of MA_reply _ \<Rightarrow> True | MA_replyBytes _ \<Rightarrow> True | MA_authFailed _ _ \<Rightarrow> True | _ \<Rightarrow> False)"

text \<open>The answer an action waits for.\<close>

fun ms_expected :: "ms_action \<Rightarrow> ms_pending option" where
  "ms_expected (MA_auth u p) = Some (MP_auth MS_PLAIN)"
| "ms_expected (MA_authVerified u) = Some (MP_auth MS_SCRAM)"
| "ms_expected (MA_scramKeys u) = Some MP_scramKeys"
| "ms_expected (MA_putScript n t) = Some (MP_putScript n)"
| "ms_expected (MA_checkScript t) = Some MP_checkScript"
| "ms_expected MA_listScripts = Some MP_list"
| "ms_expected (MA_getScript n) = Some (MP_get n)"
| "ms_expected (MA_deleteScript n) = Some MP_op"
| "ms_expected (MA_renameScript n m) = Some MP_op"
| "ms_expected (MA_setActive n) = Some MP_op"
| "ms_expected _ = None"

definition ms_can_auth :: "ms_options \<Rightarrow> ms \<Rightarrow> bool" where
  "ms_can_auth opt s \<longleftrightarrow> ms_authAllowed opt s \<and> \<not> ms_authed s"

inductive ms_effect :: "ms_options \<Rightarrow> ms \<Rightarrow> ms_action list \<Rightarrow> ms \<Rightarrow> bool" for opt where
  replies: "list_all ms_plain acts \<Longrightarrow> ms_effect opt s acts s"
| logout: "ms_plain a \<Longrightarrow> ms_effect opt s [a, MA_close] (s\<lparr>ms_closed := True\<rparr>)"
| stls: "\<not> ms_secure s \<Longrightarrow> mo_tlsAvailable opt \<Longrightarrow> ms_pending s = None \<Longrightarrow> ms_plain a \<Longrightarrow>
    ms_effect opt s [a, MA_startTls] (s\<lparr>ms_awaitingTls := True, ms_queued := []\<rparr>)"
| sasl: "ms_can_auth opt s \<Longrightarrow> list_all ms_plain acts \<Longrightarrow> ms_effect opt s acts (s\<lparr>ms_scram := x\<rparr>)"
| challenge: "ms_can_auth opt s \<Longrightarrow> list_all ms_plain acts \<Longrightarrow> y = MS_SCRAM \<longrightarrow> x \<noteq> None \<Longrightarrow>
    ms_effect opt s acts (s\<lparr>ms_scram := x, ms_pending := Some (MP_authLine y)\<rparr>)"
| login: "ms_can_auth opt s \<Longrightarrow> ms_login a \<Longrightarrow> ms_expected a = Some p \<Longrightarrow> p = MP_scramKeys \<longrightarrow> x \<noteq> None \<Longrightarrow>
    ms_effect opt s [a] (s\<lparr>ms_scram := x, ms_pending := Some p\<rparr>)"
| script: "ms_authed s \<Longrightarrow> ms_script a \<Longrightarrow> ms_expected a = Some p \<Longrightarrow> ms_effect opt s [a] (s\<lparr>ms_pending := Some p\<rparr>)"

inductive_cases ms_effectE: "ms_effect opt s acts s'"

abbreviation ms_has_effect :: "ms_options \<Rightarrow> ms \<Rightarrow> ms \<times> ms_action list \<Rightarrow> bool" where
  "ms_has_effect opt s r \<equiv> ms_effect opt s (snd r) (fst r)"

lemma ms_plain_simps [simp]:
  "ms_plain (says w t)" "ms_plain (MA_reply t)" "ms_plain (ms_scramFailedAction st)" "ms_plain (ms_challenge m)"
  "ms_plain (MA_authFailed u m)" "ms_plain (MA_replyBytes b)" "list_all ms_plain (ms_capabilities opt s)"
  by (simp_all add: ms_plain_def says_def ms_scramFailedAction_def ms_challenge_def Let_def ms_capabilities_def list_all_iff)

lemma ms_scram_frame: "s\<lparr>ms_pending := p\<rparr> = s\<lparr>ms_scram := ms_scram s, ms_pending := p\<rparr>"
  by (cases s) simp

lemma ms_handleScramLine_effect:
  assumes "ms_can_auth opt s"
  shows "ms_has_effect opt s (ms_handleScramLine c rnd b64 (s\<lparr>ms_scram := x\<rparr>))"
  using assms
  by (auto simp: ms_handleScramLine_def split: option.split prod.split scram_step.split
      intro: sasl challenge login simp: ms_login_def)

lemma ms_decodePlain_effect:
  assumes "ms_can_auth opt s"
  shows "ms_has_effect opt s (ms_decodePlain b64 s)"
proof -
  have "ms_has_effect opt s (s\<lparr>ms_pending := Some (MP_auth MS_PLAIN)\<rparr>, [MA_auth u p])" for u p
    using login [OF assms, of "MA_auth u p" "MP_auth MS_PLAIN" "ms_scram s"]
    by (simp add: ms_login_def flip: ms_scram_frame)
  then show ?thesis by (simp add: ms_decodePlain_def replies split: option.split prod.split)
qed

lemma ms_cmdAuthenticate_effect: "ms_has_effect opt s (ms_cmdAuthenticate c opt rnd vs s)"
proof (cases "ms_can_auth opt s")
  case True
  have "ms_has_effect opt s (s\<lparr>ms_pending := Some (MP_authLine MS_PLAIN)\<rparr>, [MA_reply (in_quotes [])])"
    using challenge [OF True, of _ MS_PLAIN "ms_scram s"] by (simp flip: ms_scram_frame)
  moreover have "ms_has_effect opt s (s\<lparr>ms_scram := Some x, ms_pending := Some (MP_authLine MS_SCRAM)\<rparr>, [MA_reply (in_quotes [])])" for x
    using challenge [OF True, of _ MS_SCRAM "Some x"] by simp
  ultimately show ?thesis
    using ms_handleScramLine_effect [OF True] ms_decodePlain_effect [OF True]
    by (simp add: ms_cmdAuthenticate_def Let_def replies split: option.split)
next
  case False
  then show ?thesis by (auto simp: ms_cmdAuthenticate_def ms_can_auth_def replies)
qed

lemma ms_scriptCommand_effect: "ms_authed s \<Longrightarrow> ms_has_effect opt s (ms_scriptCommand opt cmd vs s)"
  by (simp add: ms_scriptCommand_def replies script ms_script_def split: option.split)

lemma ms_handleLine_effect: "ms_has_effect opt s (ms_handleLine c opt rnd parts s)"
  by (simp add: ms_handleLine_def Let_def ms_cmdAuthenticate_effect ms_scriptCommand_effect ms_cmdStartTls_def replies logout stls)

lemma ms_effect_queue: "ms_effect opt s acts s' \<Longrightarrow> ms_queued s' = ms_queued s \<or> ms_queued s' = []"
  by (erule ms_effectE) simp_all

section \<open>The queue\<close>

definition ms_stopped :: "ms \<Rightarrow> bool" where
  "ms_stopped s \<longleftrightarrow> ms_queued s = [] \<or> ms_pending s \<noteq> None \<or> ms_closed s \<or> ms_awaitingTls s"

definition ms_step :: "crypto \<Rightarrow> ms_options \<Rightarrow> bytes \<Rightarrow> ms \<Rightarrow> ms \<times> ms_action list \<times> bool" where
  "ms_step c opt rnd s =
     (case ms_queued s of
        [] \<Rightarrow> (s, [], False)
      | parts # q \<Rightarrow> (let (s1, acts) = ms_handleLine c opt rnd parts (s\<lparr>ms_queued := q\<rparr>) in (s1, acts, True)))"

lemma ms_step_decreases:
  assumes "ms_step c opt rnd s = (s1, acts, True)"
  shows "length (ms_queued s1) < length (ms_queued s)"
proof (cases "ms_queued s")
  case (Cons parts q)
  then have "ms_handleLine c opt rnd parts (s\<lparr>ms_queued := q\<rparr>) = (s1, acts)"
    using assms by (simp add: ms_step_def split: prod.splits)
  then have "ms_queued s1 = q \<or> ms_queued s1 = []"
    using ms_effect_queue [OF ms_handleLine_effect, of c opt rnd parts "s\<lparr>ms_queued := q\<rparr>"] by simp
  with Cons show ?thesis by auto
qed (use assms in \<open>simp add: ms_step_def\<close>)

function ms_drain :: "crypto \<Rightarrow> ms_options \<Rightarrow> bytes \<Rightarrow> ms \<Rightarrow> ms \<times> ms_action list" where
  "ms_drain c opt rnd s =
     (if ms_stopped s then (s, [])
      else let (s1, acts, again) = ms_step c opt rnd s in
        if again then (let (s2, acts2) = ms_drain c opt rnd s1 in (s2, acts @ acts2)) else (s1, acts))"
  by pat_completeness auto
termination
  by (relation "measure (\<lambda>(c, opt, rnd, s). length (ms_queued s))") (auto intro: ms_step_decreases [OF sym])

declare ms_drain.simps [simp del]

interpretation ms: line_loop "ms_drain c opt rnd" "ms_step c opt rnd" ms_stopped "\<lambda>s. length (ms_queued s)" for c opt rnd
  by unfold_locales (rule ms_drain.simps, rule ms_step_decreases)

definition ms_thenDrain :: "crypto \<Rightarrow> ms_options \<Rightarrow> bytes \<Rightarrow> ms_action list \<Rightarrow> ms \<Rightarrow> ms \<times> ms_action list" where
  "ms_thenDrain c opt rnd acts s = (let (s1, acts1) = ms_drain c opt rnd s in (s1, acts @ acts1))"

section \<open>Public methods\<close>

definition ms_tlsUpgraded :: "ms_options \<Rightarrow> ms \<Rightarrow> ms \<times> ms_action list" where
  "ms_tlsUpgraded opt s =
     (let s1 = s\<lparr>ms_secure := True, ms_awaitingTls := False, ms_authed := False, ms_pending := None, ms_queued := [],
                 ms_reader := ms_newReader opt\<rparr>
      in (s1, ms_capabilities opt s1 @ [says ''OK'' ''TLS negotiated'']))"

definition ms_onEvent :: "crypto \<Rightarrow> ms_options \<Rightarrow> bytes \<Rightarrow> reader_event \<Rightarrow> ms \<Rightarrow> ms \<times> ms_action list" where
  "ms_onEvent c opt rnd ev s =
     (case ev of
        RE_continue _ \<Rightarrow> (s, [MA_reply ''OK''])
      | RE_error message \<Rightarrow> (s, [says ''NO'' message])
      | RE_line parts \<Rightarrow>
          (case ms_pending s of
             Some (MP_authLine sasl) \<Rightarrow>
               (let s1 = s\<lparr>ms_pending := None\<rparr>;
                    b64 = value_or [] 0 (parseParts parts)
                in if b64 = ''*''
                   then ms_thenDrain c opt rnd [says ''NO'' ''authentication aborted''] (s1\<lparr>ms_scram := None\<rparr>)
                   else if sasl = MS_SCRAM then ms_handleScramLine c rnd b64 s1
                   else ms_decodePlain b64 s1)
           | Some _ \<Rightarrow> (s\<lparr>ms_queued := ms_queued s @ [parts]\<rparr>, [])
           | None \<Rightarrow> ms_handleLine c opt rnd parts s))"

fun ms_events :: "crypto \<Rightarrow> ms_options \<Rightarrow> bytes \<Rightarrow> reader_event list \<Rightarrow> ms \<Rightarrow> ms \<times> ms_action list" where
  "ms_events c opt rnd [] s = (s, [])"
| "ms_events c opt rnd (ev # evs) s =
     (let (s1, acts) = ms_onEvent c opt rnd ev s in
      if ms_closed s1 \<or> ms_awaitingTls s1 then (s1, acts)
      else let (s2, acts2) = ms_events c opt rnd evs s1 in (s2, acts @ acts2))"

definition ms_feed :: "crypto \<Rightarrow> ms_options \<Rightarrow> bytes \<Rightarrow> bytes \<Rightarrow> ms \<Rightarrow> ms \<times> ms_action list" where
  "ms_feed c opt rnd chunk s =
     (if ms_closed s then (s, [])
      else if ms_awaitingTls s then (s, [])
      else let (r, evs) = reader_feed chunk (ms_reader s) in ms_events c opt rnd evs (s\<lparr>ms_reader := r\<rparr>))"

definition ms_awaitsAuth :: "ms \<Rightarrow> bool" where
  "ms_awaitsAuth s \<longleftrightarrow> (case ms_pending s of Some (MP_auth _) \<Rightarrow> True | Some (MP_authLine _) \<Rightarrow> True | _ \<Rightarrow> False)"

definition ms_authResult ::
  "crypto \<Rightarrow> ms_options \<Rightarrow> bytes \<Rightarrow> string option \<Rightarrow> ms \<Rightarrow> string + ms \<times> ms_action list" where
  "ms_authResult c opt rnd accountId s =
     (if \<not> ms_awaitsAuth s then Inl ''authResult''
      else let s1 = s\<lparr>ms_pending := None\<rparr> in
        case accountId of
          None \<Rightarrow> Inr (ms_thenDrain c opt rnd [says ''NO'' ''authentication failed''] s1)
        | Some _ \<Rightarrow> Inr (ms_thenDrain c opt rnd [says ''OK'' ''authenticated''] (s1\<lparr>ms_authed := True\<rparr>)))"

definition ms_opReply :: "ms_op_result \<Rightarrow> ms_action" where
  "ms_opReply r =
     (case r of
        OpOk \<Rightarrow> MA_reply ''OK''
      | OpFailed codeOpt message \<Rightarrow>
          MA_reply (''NO '' @ (case codeOpt of Some k \<Rightarrow> (if k = [] then [] else ''('' @ k @ '') '') | None \<Rightarrow> []) @ ms_quote message))"

definition ms_opResult ::
  "crypto \<Rightarrow> ms_options \<Rightarrow> bytes \<Rightarrow> ms_op_result \<Rightarrow> ms \<Rightarrow> string + ms \<times> ms_action list" where
  "ms_opResult c opt rnd r s =
     (case ms_pending s of
        Some (MP_putScript _) \<Rightarrow> Inr (ms_thenDrain c opt rnd [ms_opReply r] (s\<lparr>ms_pending := None\<rparr>))
      | Some MP_checkScript \<Rightarrow> Inr (ms_thenDrain c opt rnd [ms_opReply r] (s\<lparr>ms_pending := None\<rparr>))
      | Some MP_op \<Rightarrow> Inr (ms_thenDrain c opt rnd [ms_opReply r] (s\<lparr>ms_pending := None\<rparr>))
      | _ \<Rightarrow> Inl ''opResult'')"

definition ms_listResult ::
  "crypto \<Rightarrow> ms_options \<Rightarrow> bytes \<Rightarrow> (string \<times> bool) list \<Rightarrow> ms \<Rightarrow> string + ms \<times> ms_action list" where
  "ms_listResult c opt rnd scripts s =
     (if ms_pending s \<noteq> Some MP_list then Inl ''listResult''
      else Inr (ms_thenDrain c opt rnd
                  (map (\<lambda>(name, active). MA_reply (ms_quote name @ (if active then '' ACTIVE'' else []))) scripts @ [MA_reply ''OK''])
                  (s\<lparr>ms_pending := None\<rparr>)))"

definition ms_getReply :: "string option \<Rightarrow> ms_action" where
  "ms_getReply r =
     (case r of
        None \<Rightarrow> says ''NO'' ''script not found''
      | Some content \<Rightarrow>
          (let bs = utf8Encode content in
           MA_replyBytes (utf8Encode (literalDecl (length bs) False @ CRLF) @ bs @ utf8Encode (CRLF @ ''OK'' @ CRLF))))"

definition ms_getResult ::
  "crypto \<Rightarrow> ms_options \<Rightarrow> bytes \<Rightarrow> string option \<Rightarrow> ms \<Rightarrow> string + ms \<times> ms_action list" where
  "ms_getResult c opt rnd r s =
     (case ms_pending s of
        Some (MP_get _) \<Rightarrow> Inr (ms_thenDrain c opt rnd [ms_getReply r] (s\<lparr>ms_pending := None\<rparr>))
      | _ \<Rightarrow> Inl ''getResult'')"

definition ms_scramKeysResult ::
  "crypto \<Rightarrow> ms_options \<Rightarrow> bytes \<Rightarrow> scram_keys option \<Rightarrow> ms \<Rightarrow> string + ms \<times> ms_action list" where
  "ms_scramKeysResult c opt rnd ks s =
     (if ms_pending s \<noteq> Some MP_scramKeys then Inl ''scramKeysResult''
      else case ms_scram s of
        None \<Rightarrow> Inr (ms_thenDrain c opt rnd [] (s\<lparr>ms_pending := None\<rparr>))
      | Some sc \<Rightarrow>
          (case provideKeys c ks (mx_session sc) of
             (session1, NeedSend message) \<Rightarrow>
               Inr (ms_thenDrain c opt rnd [ms_challenge message]
                      (s\<lparr>ms_scram := Some (sc\<lparr>mx_session := session1\<rparr>), ms_pending := Some (MP_authLine MS_SCRAM)\<rparr>))
           | (session1, step) \<Rightarrow>
               Inr (ms_thenDrain c opt rnd [ms_scramFailedAction step, says ''NO'' ''authentication failed'']
                      (s\<lparr>ms_scram := None, ms_pending := None\<rparr>))))"

datatype ms_input =
    MsFeed bytes
  | MsTls
  | MsAuth "string option"
  | MsScramKeys "scram_keys option"
  | MsOp ms_op_result
  | MsList "(string \<times> bool) list"
  | MsGet "string option"

fun ms_call :: "crypto \<Rightarrow> ms_options \<Rightarrow> bytes \<Rightarrow> ms_input \<Rightarrow> ms \<Rightarrow> string + ms \<times> ms_action list" where
  "ms_call c opt rnd (MsFeed chunk) s = Inr (ms_feed c opt rnd chunk s)"
| "ms_call c opt rnd MsTls s = Inr (ms_tlsUpgraded opt s)"
| "ms_call c opt rnd (MsAuth a) s = ms_authResult c opt rnd a s"
| "ms_call c opt rnd (MsScramKeys ks) s = ms_scramKeysResult c opt rnd ks s"
| "ms_call c opt rnd (MsOp r) s = ms_opResult c opt rnd r s"
| "ms_call c opt rnd (MsList l) s = ms_listResult c opt rnd l s"
| "ms_call c opt rnd (MsGet r) s = ms_getResult c opt rnd r s"

end
