(* ===== verification/ManageSieveSession.thy ===== *)
theory ManageSieveSession
  imports ManageSieve
begin

text \<open>
  Sessions of the ManageSieve engine, with a log of what goes in and out. The locale \<open>ms_contract\<close>
  lifts an invariant between the state and the log from single transitions to whole sessions; it is
  interpreted for the order of requests and answers, for authentication and for TLS.
\<close>

section \<open>Answers\<close>

fun ms_finishes :: "ms_input \<Rightarrow> ms_pending \<Rightarrow> bool" where
  "ms_finishes (MsOp r) p \<longleftrightarrow> (case p of MP_putScript _ \<Rightarrow> True | MP_checkScript \<Rightarrow> True | MP_op \<Rightarrow> True | _ \<Rightarrow> False)"
| "ms_finishes (MsList l) p \<longleftrightarrow> p = MP_list"
| "ms_finishes (MsGet r) p \<longleftrightarrow> (case p of MP_get _ \<Rightarrow> True | _ \<Rightarrow> False)"
| "ms_finishes _ p \<longleftrightarrow> False"

inductive ms_answer :: "ms_options \<Rightarrow> ms_input \<Rightarrow> ms \<Rightarrow> ms_action list \<Rightarrow> ms \<Rightarrow> bool" for opt where
  tls: "list_all ms_plain acts \<Longrightarrow> ms_answer opt MsTls s acts
    (s\<lparr>ms_secure := True, ms_awaitingTls := False, ms_authed := False, ms_pending := None, ms_queued := [],
       ms_reader := ms_newReader opt\<rparr>)"
| refused: "ms_awaitsAuth s \<Longrightarrow> ms_plain a \<Longrightarrow> ms_answer opt (MsAuth None) s [a] (s\<lparr>ms_pending := None\<rparr>)"
| granted: "ms_awaitsAuth s \<Longrightarrow> ms_plain a \<Longrightarrow>
    ms_answer opt (MsAuth (Some i)) s [a] (s\<lparr>ms_pending := None, ms_authed := True\<rparr>)"
| keys: "ms_pending s = Some MP_scramKeys \<Longrightarrow> ms_scram s \<noteq> None \<Longrightarrow> list_all ms_plain acts \<Longrightarrow>
    p = None \<or> p = Some (MP_authLine MS_SCRAM) \<and> x \<noteq> None \<Longrightarrow>
    ms_answer opt (MsScramKeys ks) s acts (s\<lparr>ms_scram := x, ms_pending := p\<rparr>)"
| finished: "ms_pending s = Some p \<Longrightarrow> ms_finishes i p \<Longrightarrow> list_all ms_plain acts \<Longrightarrow>
    ms_answer opt i s acts (s\<lparr>ms_pending := None\<rparr>)"

inductive_cases ms_answerE: "ms_answer opt i s acts s'"

section \<open>Well-formed states\<close>

definition ms_wf :: "ms_options \<Rightarrow> ms \<Rightarrow> bool" where
  "ms_wf opt s \<longleftrightarrow>
     (case ms_pending s of
        None \<Rightarrow> True
      | Some (MP_auth y) \<Rightarrow> ms_can_auth opt s
      | Some (MP_authLine y) \<Rightarrow> ms_can_auth opt s \<and> (y = MS_SCRAM \<longrightarrow> ms_scram s \<noteq> None)
      | Some MP_scramKeys \<Rightarrow> ms_can_auth opt s \<and> ms_scram s \<noteq> None
      | Some _ \<Rightarrow> ms_authed s)"

lemma ms_can_auth_frame [simp]:
  "ms_can_auth opt (s\<lparr>ms_pending := p\<rparr>) = ms_can_auth opt s" "ms_can_auth opt (s\<lparr>ms_scram := x\<rparr>) = ms_can_auth opt s"
  "ms_can_auth opt (s\<lparr>ms_reader := r\<rparr>) = ms_can_auth opt s" "ms_can_auth opt (s\<lparr>ms_queued := q\<rparr>) = ms_can_auth opt s"
  "ms_can_auth opt (s\<lparr>ms_closed := k\<rparr>) = ms_can_auth opt s" "ms_can_auth opt (s\<lparr>ms_awaitingTls := w\<rparr>) = ms_can_auth opt s"
  by (simp_all add: ms_can_auth_def ms_authAllowed_def)

lemma ms_wf_frame [simp]:
  "ms_wf opt (s\<lparr>ms_reader := r\<rparr>) = ms_wf opt s" "ms_wf opt (s\<lparr>ms_queued := q\<rparr>) = ms_wf opt s"
  "ms_wf opt (s\<lparr>ms_closed := k\<rparr>) = ms_wf opt s" "ms_wf opt (s\<lparr>ms_awaitingTls := w\<rparr>) = ms_wf opt s"
  "ms_pending s = None \<Longrightarrow> ms_wf opt s" "ms_wf opt (s\<lparr>ms_pending := None\<rparr>)"
  by (simp_all add: ms_wf_def cong: option.case_cong ms_pending.case_cong)

lemma ms_wf_effect:
  assumes "ms_pending s = None" "ms_effect opt s acts s'"
  shows "ms_wf opt s'"
  using assms(2)
proof (cases rule: ms_effect.cases)
  case (login a p x)
  then show ?thesis by (cases a) (auto simp: ms_wf_def ms_login_def)
next
  case (script a p)
  then show ?thesis by (cases a) (auto simp: ms_wf_def ms_script_def)
qed (use assms(1) in \<open>simp_all add: ms_wf_def\<close>)

lemma ms_wf_answer:
  assumes "ms_wf opt s" "ms_answer opt i s acts s'"
  shows "ms_wf opt s'"
  using assms(2)
proof (cases rule: ms_answer.cases)
  case (keys p x ks)
  with assms(1) show ?thesis by (auto simp: ms_wf_def)
qed simp_all

section \<open>Methods as answers\<close>

definition ms_answered ::
  "crypto \<Rightarrow> ms_options \<Rightarrow> bytes \<Rightarrow> ms_input \<Rightarrow> ms \<Rightarrow> ms \<times> ms_action list \<Rightarrow> bool" where
  "ms_answered c opt rnd i s r \<longleftrightarrow>
     (\<exists>s1 acts. ms_answer opt i s acts s1 \<and> (r = (s1, acts) \<or> r = ms_thenDrain c opt rnd acts s1))"

lemma ms_answered_drain:
  "ms_answer opt i s acts s1 \<Longrightarrow> ms_answered c opt rnd i s (ms_thenDrain c opt rnd acts s1)"
  unfolding ms_answered_def by blast

lemma ms_scramKeysResult_answer:
  assumes "ms_wf opt s" "ms_scramKeysResult c opt rnd ks s = Inr r"
  shows "ms_answered c opt rnd (MsScramKeys ks) s r"
proof -
  have p: "ms_pending s = Some MP_scramKeys" using assms(2) by (simp add: ms_scramKeysResult_def split: if_splits)
  then obtain sc where sc: "ms_scram s = Some sc" using assms(1) by (auto simp: ms_wf_def)
  obtain se st where k: "provideKeys c ks (mx_session sc) = (se, st)" by force
  have a: "ms_answered c opt rnd (MsScramKeys ks) s (ms_thenDrain c opt rnd acts (s\<lparr>ms_scram := x, ms_pending := q\<rparr>))"
    if "list_all ms_plain acts" "q = None \<or> q = Some (MP_authLine MS_SCRAM) \<and> x \<noteq> None" for acts q x
    using that p sc by (intro ms_answered_drain keys) simp_all
  show ?thesis using assms(2) p sc k a by (cases st) (auto simp: ms_scramKeysResult_def)
qed

lemma ms_simple_answers:
  "ms_authResult c opt rnd a s = Inr r \<Longrightarrow> ms_answered c opt rnd (MsAuth a) s r"
  "ms_opResult c opt rnd o1 s = Inr r \<Longrightarrow> ms_answered c opt rnd (MsOp o1) s r"
  "ms_listResult c opt rnd l s = Inr r \<Longrightarrow> ms_answered c opt rnd (MsList l) s r"
  "ms_getResult c opt rnd g s = Inr r \<Longrightarrow> ms_answered c opt rnd (MsGet g) s r"
proof -
  assume "ms_authResult c opt rnd a s = Inr r"
  then show "ms_answered c opt rnd (MsAuth a) s r"
    by (auto simp: ms_authResult_def Let_def intro!: ms_answered_drain refused granted split: option.splits if_splits)
next
  have p: "ms_plain (ms_opReply o1)" by (simp add: ms_opReply_def split: ms_op_result.split)
  assume "ms_opResult c opt rnd o1 s = Inr r"
  then show "ms_answered c opt rnd (MsOp o1) s r"
    using p by (auto simp: ms_opResult_def intro!: ms_answered_drain finished split: option.splits ms_pending.splits)
next
  assume "ms_listResult c opt rnd l s = Inr r"
  then show "ms_answered c opt rnd (MsList l) s r"
    by (auto simp: ms_listResult_def list_all_iff intro!: ms_answered_drain finished split: if_splits)
next
  have p: "ms_plain (ms_getReply g)" by (simp add: ms_getReply_def Let_def split: option.split)
  assume "ms_getResult c opt rnd g s = Inr r"
  then show "ms_answered c opt rnd (MsGet g) s r"
    using p by (auto simp: ms_getResult_def intro!: ms_answered_drain finished split: option.splits ms_pending.splits)
qed

lemma ms_call_cases:
  assumes "ms_wf opt s" "ms_call c opt rnd i s = Inr r"
  shows "(\<exists>chunk. i = MsFeed chunk \<and> r = ms_feed c opt rnd chunk s) \<or> (\<forall>chunk. i \<noteq> MsFeed chunk) \<and> ms_answered c opt rnd i s r"
proof (cases i)
  case MsTls
  with assms(2) tls [of "ms_capabilities opt t @ [says ''OK'' ''TLS negotiated'']" opt s for t] show ?thesis
    by (auto simp: ms_tlsUpgraded_def Let_def ms_answered_def)
qed (use assms ms_scramKeysResult_answer ms_simple_answers in auto)

section \<open>Contract of a session\<close>

datatype ms_event = In ms_input | Out ms_action

inductive ms_session :: "crypto \<Rightarrow> ms_options \<Rightarrow> ms \<Rightarrow> ms_event list \<Rightarrow> bool" for c opt where
  start: "ms_session c opt (ms_new opt) []"
| call: "ms_session c opt s h \<Longrightarrow> ms_call c opt rnd i s = Inr (s', out) \<Longrightarrow>
    ms_session c opt s' (h @ In i # map Out out)"

locale ms_contract =
  fixes c :: crypto
    and opt :: ms_options
    and inv :: "ms \<Rightarrow> ms_event list \<Rightarrow> bool"
  assumes inv_new: "inv (ms_new opt) []"
    and inv_frame: "inv (s\<lparr>ms_reader := r\<rparr>) h = inv s h" "inv (s\<lparr>ms_queued := q\<rparr>) h = inv s h"
    and inv_fed: "inv s h \<Longrightarrow> inv s (h @ [In (MsFeed b)])"
    and inv_said: "inv s h \<Longrightarrow> ms_plain a \<Longrightarrow> inv s (h @ [Out a])"
    and inv_line: "inv s h \<Longrightarrow> ms_pending s = Some (MP_authLine y) \<Longrightarrow> inv (s\<lparr>ms_pending := None\<rparr>) h"
    and inv_effect: "inv s h \<Longrightarrow> ms_pending s = None \<Longrightarrow> ms_effect opt s acts s' \<Longrightarrow> inv s' (h @ map Out acts)"
    and inv_answer: "inv s h \<Longrightarrow> ms_wf opt s \<Longrightarrow> ms_answer opt i s acts s' \<Longrightarrow> inv s' (h @ In i # map Out acts)"
begin

lemma effect_kept:
  "inv s h \<Longrightarrow> ms_pending s = None \<Longrightarrow> ms_has_effect opt s r \<Longrightarrow> r = (s', acts) \<Longrightarrow>
     ms_wf opt s' \<and> inv s' (h @ map Out acts)"
  using inv_effect ms_wf_effect by fastforce

lemma step_kept:
  assumes "inv s h" "\<not> ms_stopped s" "ms_step c opt rnd s = (s1, acts, b)"
  shows "ms_wf opt s1 \<and> inv s1 (h @ map Out acts)"
proof (cases "ms_queued s")
  case (Cons parts q)
  then have "ms_handleLine c opt rnd parts (s\<lparr>ms_queued := q\<rparr>) = (s1, acts)"
    using assms(3) by (simp add: ms_step_def split: prod.splits)
  then show ?thesis
    using assms(1,2) by (intro effect_kept [OF _ _ ms_handleLine_effect]) (simp_all add: inv_frame ms_stopped_def)
qed (use assms(2) in \<open>simp add: ms_stopped_def\<close>)

lemma drain_kept:
  assumes "ms_drain c opt rnd s = (s', acts)" "ms_wf opt s" "inv s h"
  shows "ms_wf opt s' \<and> inv s' (h @ map Out acts)"
  using ms.loop_rel [OF assms(1), of "\<lambda>s a s'. \<forall>h. ms_wf opt s \<and> inv s h \<longrightarrow> ms_wf opt s' \<and> inv s' (h @ map Out a)"]
    step_kept assms(2,3) by (simp flip: append_assoc) blast

lemma thenDrain_kept:
  assumes "ms_thenDrain c opt rnd acts s = (s', out)" "ms_wf opt s" "inv s (h @ map Out acts)"
  shows "ms_wf opt s' \<and> inv s' (h @ map Out out)"
  using assms drain_kept [of rnd s s' _ "h @ map Out acts"] by (auto simp: ms_thenDrain_def split: prod.splits)

lemma authLine_kept:
  assumes "inv s h" "ms_wf opt s" "ms_pending s = Some (MP_authLine y)" "ms_onEvent c opt rnd (RE_line parts) s = (s', acts)"
  shows "ms_wf opt s' \<and> inv s' (h @ map Out acts)"
proof -
  let ?s = "s\<lparr>ms_pending := None\<rparr>" and ?v = "value_or [] 0 (parseParts parts)"
  have i: "inv ?s h" and a: "ms_can_auth opt ?s" using assms(1-3) inv_line by (auto simp: ms_wf_def)
  have abort: "inv (?s\<lparr>ms_scram := None\<rparr>) (h @ [Out (says w t)])" for w t
    using inv_effect [OF i _ sasl [OF a, of "[says w t]" None]] by simp
  have scram: "ms_has_effect opt ?s (ms_handleScramLine c rnd ?v ?s)"
    using ms_handleScramLine_effect [OF a, of c rnd ?v "ms_scram ?s"] by simp
  show ?thesis
  proof (cases "?v = ''*''")
    case True
    then show ?thesis
      using assms(3,4) thenDrain_kept [of rnd "[says ''NO'' ''authentication aborted'']" "?s\<lparr>ms_scram := None\<rparr>" s' acts h] abort
      by (simp add: ms_onEvent_def)
  next
    case False
    then have "(s', acts) = ms_handleScramLine c rnd ?v ?s \<or> (s', acts) = ms_decodePlain ?v ?s"
      using assms(3,4) by (auto simp: ms_onEvent_def Let_def split: if_splits)
    then show ?thesis
      using effect_kept [OF i _ scram sym] effect_kept [OF i _ ms_decodePlain_effect [OF a] sym] by auto
  qed
qed

lemma event_kept:
  assumes "inv s h" "ms_wf opt s" "ms_onEvent c opt rnd ev s = (s', acts)"
  shows "ms_wf opt s' \<and> inv s' (h @ map Out acts)"
proof (cases ev)
  case (RE_line parts)
  show ?thesis
  proof (cases "ms_pending s")
    case None
    then show ?thesis
      using assms RE_line effect_kept [OF assms(1) None ms_handleLine_effect [of opt s c rnd parts]]
      by (simp add: ms_onEvent_def)
  next
    case (Some p)
    then show ?thesis
      using authLine_kept [OF assms(1,2)] assms RE_line
      by (cases p) (auto simp: ms_onEvent_def inv_frame)
  qed
qed (use assms inv_said in \<open>auto simp: ms_onEvent_def\<close>)

lemma events_kept:
  "ms_events c opt rnd evs s = (s', acts) \<Longrightarrow> inv s h \<Longrightarrow> ms_wf opt s \<Longrightarrow> ms_wf opt s' \<and> inv s' (h @ map Out acts)"
proof (induction evs arbitrary: s h acts)
  case (Cons ev evs)
  obtain s1 a where e: "ms_onEvent c opt rnd ev s = (s1, a)" by force
  note k = event_kept [OF Cons.prems(2,3) e]
  show ?case
  proof (cases "ms_closed s1 \<or> ms_awaitingTls s1")
    case True
    with Cons.prems(1) e k show ?thesis by simp
  next
    case False
    then obtain b where "ms_events c opt rnd evs s1 = (s', b)" "acts = a @ b"
      using Cons.prems(1) e by (auto split: prod.splits)
    then show ?thesis using Cons.IH [of s1 b "h @ map Out a"] k by simp
  qed
qed simp

lemma call_kept:
  assumes "ms_call c opt rnd i s = Inr (s', out)" "ms_wf opt s" "inv s h"
  shows "ms_wf opt s' \<and> inv s' (h @ In i # map Out out)"
  using ms_call_cases [OF assms(2,1)] unfolding ms_answered_def
proof (elim disjE exE conjE)
  fix chunk assume i: "i = MsFeed chunk" "(s', out) = ms_feed c opt rnd chunk s"
  obtain r evs where "reader_feed chunk (ms_reader s) = (r, evs)" by force
  then show ?thesis
    using i assms(2,3) inv_fed events_kept [of rnd evs "s\<lparr>ms_reader := r\<rparr>" s' out "h @ [In i]"]
    by (auto simp: ms_feed_def inv_frame split: if_splits)
next
  fix s1 acts assume a: "ms_answer opt i s acts s1" "(s', out) = ms_thenDrain c opt rnd acts s1"
  then show ?thesis
    using ms_wf_answer [OF assms(2) a(1)] inv_answer [OF assms(3,2) a(1)] thenDrain_kept [of rnd acts s1 s' out "h @ [In i]"]
    by simp
qed (use inv_answer ms_wf_answer assms(2,3) in blast)

lemma session_kept: "ms_session c opt s h \<Longrightarrow> ms_wf opt s \<and> inv s h"
proof (induction rule: ms_session.induct)
  case start
  have "ms_pending (ms_new opt) = None" by (simp add: ms_new_def)
  then show ?case by (simp add: inv_new)
next
  case (call s h rnd i s' out)
  then show ?case using call_kept by blast
qed

end

section \<open>Requests and answers\<close>

text \<open>The request that waits for its answer at the end of a log.\<close>

fun ms_open_after :: "ms_action option \<Rightarrow> ms_event \<Rightarrow> ms_action option" where
  "ms_open_after open1 (In (MsFeed b)) = open1"
| "ms_open_after open1 (In i) = None"
| "ms_open_after open1 (Out a) = (if ms_request a then Some a else open1)"

definition ms_open :: "ms_event list \<Rightarrow> ms_action option" where
  "ms_open h = foldl ms_open_after None h"

text \<open>Everything the log emits that \<open>P\<close> selects is emitted where \<open>Q\<close> holds of what came before.\<close>

definition emitted_where :: "(ms_action \<Rightarrow> bool) \<Rightarrow> (ms_event list \<Rightarrow> bool) \<Rightarrow> ms_event list \<Rightarrow> bool" where
  "emitted_where P Q h \<longleftrightarrow> (\<forall>pre a post. h = pre @ Out a # post \<longrightarrow> P a \<longrightarrow> Q pre)"

lemma emitted_where_snoc:
  "emitted_where P Q (h @ [e]) \<longleftrightarrow> emitted_where P Q h \<and> (\<forall>a. e = Out a \<longrightarrow> P a \<longrightarrow> Q h)"
proof
  assume l: "emitted_where P Q (h @ [e])"
  show "emitted_where P Q h \<and> (\<forall>a. e = Out a \<longrightarrow> P a \<longrightarrow> Q h)"
    unfolding emitted_where_def
  proof (intro conjI allI impI)
    fix pre a post assume "h = pre @ Out a # post" "P a"
    then show "Q pre" using l [unfolded emitted_where_def, rule_format, of pre a "post @ [e]"] by simp
  next
    fix a assume "e = Out a" "P a"
    then show "Q h" using l [unfolded emitted_where_def, rule_format, of h a "[]"] by simp
  qed
next
  assume r: "emitted_where P Q h \<and> (\<forall>a. e = Out a \<longrightarrow> P a \<longrightarrow> Q h)"
  show "emitted_where P Q (h @ [e])"
    unfolding emitted_where_def
  proof (intro allI impI)
    fix pre a post assume e: "h @ [e] = pre @ Out a # post" "P a"
    show "Q pre"
    proof (cases post rule: rev_cases)
      case Nil
      with e r show ?thesis by simp
    next
      case (snoc post1 x)
      with e(1) have "h = pre @ Out a # post1" by (metis append_Cons append_assoc butlast_snoc)
      with e(2) r show ?thesis unfolding emitted_where_def by blast
    qed
  qed
qed

lemma emitted_where_unselected:
  "list_all (\<lambda>a. \<not> P a) acts \<Longrightarrow> emitted_where P Q (h @ map Out acts) = emitted_where P Q h"
  by (induction acts arbitrary: h rule: rev_induct) (auto simp: emitted_where_snoc simp flip: append_assoc)

lemma emitted_where_answer:
  assumes "list_all (\<lambda>a. \<not> P a) acts"
  shows "emitted_where P Q (h @ In i # map Out acts) = emitted_where P Q h"
  using emitted_where_unselected [OF assms, of Q "h @ [In i]"] by (simp add: emitted_where_snoc)

lemma ms_plain_not_request: "ms_plain a \<Longrightarrow> \<not> ms_request a"
  by (cases a) (simp_all add: ms_plain_def ms_request_def ms_script_def ms_login_def)

lemma ms_open_snoc [simp]: "ms_open (h @ [e]) = ms_open_after (ms_open h) e" "ms_open [] = None"
  by (simp_all add: ms_open_def)

lemma ms_open_quiet: "list_all (\<lambda>a. \<not> ms_request a) acts \<Longrightarrow> ms_open (h @ map Out acts) = ms_open h"
  by (induction acts arbitrary: h rule: rev_induct) (auto simp flip: append_assoc)

text \<open>The state waits for an answer exactly when the log has an open request, and then for its answer.\<close>

fun ms_free :: "ms_pending option \<Rightarrow> bool" where
  "ms_free None \<longleftrightarrow> True"
| "ms_free (Some (MP_authLine y)) \<longleftrightarrow> True"
| "ms_free (Some p) \<longleftrightarrow> False"

definition ms_in_turn :: "ms_pending option \<Rightarrow> ms_event list \<Rightarrow> bool" where
  "ms_in_turn p h \<longleftrightarrow> (case ms_open h of None \<Rightarrow> ms_free p | Some a \<Rightarrow> p = ms_expected a \<and> ms_request a)"

definition ms_turns :: "ms \<Rightarrow> ms_event list \<Rightarrow> bool" where
  "ms_turns s h \<longleftrightarrow> emitted_where ms_request (\<lambda>pre. ms_open pre = None) h \<and> ms_in_turn (ms_pending s) h"

lemma ms_expected_request: "ms_request a \<Longrightarrow> \<not> ms_free (ms_expected a)"
  by (cases a) (simp_all add: ms_request_def ms_script_def ms_login_def)

lemma ms_in_turn_free: "ms_in_turn p h \<Longrightarrow> ms_free p \<Longrightarrow> ms_open h = None"
  using ms_expected_request by (cases "ms_open h") (auto simp: ms_in_turn_def)

lemma ms_plain_quiet: "list_all ms_plain acts \<Longrightarrow> list_all (\<lambda>a. \<not> ms_request a) acts"
  by (auto simp: list_all_iff ms_plain_not_request)

lemma ms_request_simps [simp]:
  "\<not> ms_request MA_close" "\<not> ms_request MA_startTls" "ms_script a \<Longrightarrow> ms_request a" "ms_login a \<Longrightarrow> ms_request a"
  by (simp_all add: ms_request_def ms_script_def ms_login_def)

lemma ms_turns_said:
  "ms_turns s h \<Longrightarrow> list_all (\<lambda>a. \<not> ms_request a) acts \<Longrightarrow> ms_turns s (h @ map Out acts)"
  by (simp add: ms_turns_def ms_in_turn_def ms_open_quiet emitted_where_unselected)

lemma ms_turns_quiet:
  assumes "ms_turns s h" "ms_free (ms_pending s)" "list_all (\<lambda>a. \<not> ms_request a) acts" "ms_free (ms_pending s')"
  shows "ms_turns s' (h @ map Out acts)"
proof -
  have "ms_open (h @ map Out acts) = None"
    using assms(1-3) ms_in_turn_free [of "ms_pending s" h] by (simp add: ms_turns_def ms_open_quiet)
  with assms show ?thesis by (simp add: ms_turns_def ms_in_turn_def emitted_where_unselected)
qed

lemma ms_turns_request:
  assumes "ms_turns s h" "ms_pending s = None" "ms_request a" "ms_pending s' = ms_expected a"
  shows "ms_turns s' (h @ [Out a])"
  using assms ms_in_turn_free [of None h] by (simp add: ms_turns_def ms_in_turn_def emitted_where_snoc)

lemma ms_turns_effect:
  assumes "ms_turns s h" "ms_pending s = None" "ms_effect opt s acts s'"
  shows "ms_turns s' (h @ map Out acts)"
proof -
  have "list_all (\<lambda>a. \<not> ms_request a) acts \<and> ms_free (ms_pending s') \<or>
      (\<exists>a. acts = [a] \<and> ms_request a \<and> ms_pending s' = ms_expected a)"
    using assms(3) by (cases rule: ms_effect.cases)
      (use assms(2) in \<open>auto simp: ms_plain_quiet ms_plain_not_request\<close>)
  then show ?thesis using assms(1,2) ms_turns_quiet [of s h acts s'] ms_turns_request [of s h _ s'] by auto
qed

lemma ms_answer_free: "ms_answer opt i s acts s' \<Longrightarrow> list_all ms_plain acts \<and> ms_free (ms_pending s') \<and> (\<forall>b. i \<noteq> MsFeed b)"
  by (erule ms_answerE) auto

lemma ms_turns_answer:
  assumes "ms_turns s h" "ms_answer opt i s acts s'"
  shows "ms_turns s' (h @ In i # map Out acts)"
proof -
  note a = ms_answer_free [OF assms(2)]
  have "ms_open_after (ms_open h) (In i) = None" using a by (cases i) auto
  then have "ms_open (h @ In i # map Out acts) = None"
    using ms_open_quiet [OF ms_plain_quiet, of acts "h @ [In i]"] a by simp
  moreover have "emitted_where ms_request (\<lambda>pre. ms_open pre = None) (h @ In i # map Out acts)"
    using assms(1) a emitted_where_answer [OF ms_plain_quiet] by (simp add: ms_turns_def)
  ultimately show ?thesis using a by (simp add: ms_turns_def ms_in_turn_def)
qed

interpretation ms_order: ms_contract c opt ms_turns for c opt
proof unfold_locales
  show "ms_turns (ms_new opt) []" by (simp add: ms_turns_def ms_in_turn_def emitted_where_def ms_new_def)
next
  fix s h b assume "ms_turns s h"
  then show "ms_turns s (h @ [In (MsFeed b)])" by (simp add: ms_turns_def ms_in_turn_def emitted_where_snoc)
next
  fix s h y assume "ms_turns s h" "ms_pending s = Some (MP_authLine y)"
  then show "ms_turns (s\<lparr>ms_pending := None\<rparr>) h" using ms_turns_quiet [of s h "[]"] by simp
next
  fix s h a assume "ms_turns s h" "ms_plain a"
  then show "ms_turns s (h @ [Out a])" using ms_turns_said [of s h "[a]"] ms_plain_not_request by simp
qed (simp add: ms_turns_def, simp add: ms_turns_def, rule ms_turns_effect, assumption+, rule ms_turns_answer, assumption+)

section \<open>Authentication\<close>

text \<open>Whether the log, since the connection began or was last upgraded, has a positive answer.\<close>

fun ms_granted_after :: "bool \<Rightarrow> ms_event \<Rightarrow> bool" where
  "ms_granted_after g (In MsTls) = False"
| "ms_granted_after g (In (MsAuth (Some a))) = True"
| "ms_granted_after g e = g"

definition ms_granted :: "ms_event list \<Rightarrow> bool" where
  "ms_granted h = foldl ms_granted_after False h"

definition ms_tls_seen :: "ms_options \<Rightarrow> ms_event list \<Rightarrow> bool" where
  "ms_tls_seen opt h \<longleftrightarrow> mo_secure opt \<or> mo_allowInsecureAuth opt \<or> In MsTls \<in> set h"

definition ms_guarded :: "ms_options \<Rightarrow> ms \<Rightarrow> ms_event list \<Rightarrow> bool" where
  "ms_guarded opt s h \<longleftrightarrow>
     emitted_where ms_script ms_granted h \<and> emitted_where ms_login (ms_tls_seen opt) h \<and>
     ms_authed s = ms_granted h \<and> (ms_secure s \<longrightarrow> mo_secure opt \<or> In MsTls \<in> set h)"

lemma ms_granted_snoc [simp]: "ms_granted (h @ [e]) = ms_granted_after (ms_granted h) e" "ms_granted [] = False"
  by (simp_all add: ms_granted_def)

lemma ms_granted_out [simp]: "ms_granted (h @ map Out acts) = ms_granted h"
  by (induction acts arbitrary: h rule: rev_induct) (auto simp flip: append_assoc)

lemma ms_granted_in [simp]: "ms_granted (h @ In i # map Out acts) = ms_granted_after (ms_granted h) (In i)"
  using ms_granted_out [of "h @ [In i]" acts] by simp

lemma ms_unselected: "ms_plain a \<Longrightarrow> \<not> ms_script a" "ms_plain a \<Longrightarrow> \<not> ms_login a" "ms_script a \<Longrightarrow> \<not> ms_login a"
    "\<not> ms_script MA_close" "\<not> ms_login MA_close" "\<not> ms_script MA_startTls" "\<not> ms_login MA_startTls"
  by (cases a; simp add: ms_plain_def ms_script_def ms_login_def)+

lemma ms_plain_unselected:
  "list_all ms_plain acts \<Longrightarrow> list_all (\<lambda>a. \<not> ms_script a) acts \<and> list_all (\<lambda>a. \<not> ms_login a) acts"
  by (auto simp: list_all_iff ms_unselected)

lemma ms_guarded_keep:
  assumes "ms_guarded opt s h" "list_all (\<lambda>a. \<not> ms_script a) acts" "list_all (\<lambda>a. \<not> ms_login a) acts"
    and "ms_authed s' = ms_authed s" "ms_secure s' = ms_secure s"
  shows "ms_guarded opt s' (h @ map Out acts)"
  using assms by (auto simp: ms_guarded_def emitted_where_unselected)

lemma ms_guarded_effect:
  assumes "ms_guarded opt s h" "ms_effect opt s acts s'"
  shows "ms_guarded opt s' (h @ map Out acts)"
  using assms(2)
proof (cases rule: ms_effect.cases)
  case (login a p x)
  then have "ms_tls_seen opt h" "\<not> ms_script a"
    using assms(1) ms_unselected(3) by (auto simp: ms_guarded_def ms_tls_seen_def ms_can_auth_def ms_authAllowed_def)
  with login assms(1) show ?thesis by (simp add: ms_guarded_def emitted_where_snoc)
next
  case (script a p)
  then show ?thesis using assms(1) ms_unselected(3) [of a] by (simp add: ms_guarded_def emitted_where_snoc)
qed (rule ms_guarded_keep [OF assms(1)]; simp add: ms_plain_unselected ms_unselected)+

lemma ms_guarded_answer:
  assumes "ms_guarded opt s h" "ms_answer opt i s acts s'"
  shows "ms_guarded opt s' (h @ In i # map Out acts)"
proof -
  note a = ms_answer_free [OF assms(2)]
  have "ms_authed s' = ms_granted_after (ms_authed s) (In i)" "ms_secure s' = (i = MsTls \<or> ms_secure s)"
    using assms(2) by (auto elim!: ms_answerE) (cases i; simp)+
  then show ?thesis
    using assms(1) a ms_plain_unselected [of acts] by (auto simp: ms_guarded_def emitted_where_answer)
qed

interpretation ms_guard: ms_contract c opt "ms_guarded opt" for c opt
proof unfold_locales
  show "ms_guarded opt (ms_new opt) []" by (simp add: ms_guarded_def emitted_where_def ms_new_def)
next
  fix s h a assume "ms_guarded opt s h" "ms_plain a"
  then show "ms_guarded opt s (h @ [Out a])" using ms_guarded_keep [of opt s h "[a]" s] ms_unselected by simp
qed (simp add: ms_guarded_def, simp add: ms_guarded_def, simp add: ms_guarded_def emitted_where_snoc, simp add: ms_guarded_def,
    rule ms_guarded_effect, assumption+, rule ms_guarded_answer, assumption+)

end
