(* ===== verification/ManageSieveTls.thy ===== *)
theory ManageSieveTls
  imports ManageSieveSession
begin

text \<open>
  The properties of ManageSieve sessions, and that the plaintext part of a connection leaves no
  trace after the TLS upgrade, shown by a simulation that ignores a stale SCRAM exchange.
\<close>

section \<open>After the upgrade\<close>

text \<open>
  The one field \<open>tlsUpgraded\<close> leaves alone is the SCRAM exchange. Two states are alike when they
  differ at most there, and only while no SCRAM line or key is awaited.
\<close>

fun ms_scram_due :: "ms_pending option \<Rightarrow> bool" where
  "ms_scram_due (Some MP_scramKeys) \<longleftrightarrow> True"
| "ms_scram_due (Some (MP_authLine y)) \<longleftrightarrow> y = MS_SCRAM"
| "ms_scram_due _ \<longleftrightarrow> False"

definition ms_alike :: "ms \<Rightarrow> ms \<Rightarrow> bool" where
  "ms_alike s t \<longleftrightarrow> s = t \<or> s\<lparr>ms_scram := None\<rparr> = t\<lparr>ms_scram := None\<rparr> \<and> \<not> ms_scram_due (ms_pending s)"

definition ms_same :: "ms \<times> ms_action list \<Rightarrow> ms \<times> ms_action list \<Rightarrow> bool" where
  "ms_same r q \<longleftrightarrow> snd r = snd q \<and> ms_alike (fst r) (fst q)"

lemma ms_alike_refl [simp]: "ms_alike s s" "ms_same r r"
  by (simp_all add: ms_alike_def ms_same_def)

lemma ms_alikeI: "s\<lparr>ms_scram := None\<rparr> = t\<lparr>ms_scram := None\<rparr> \<Longrightarrow> \<not> ms_scram_due (ms_pending s) \<Longrightarrow> ms_alike s t"
  by (simp add: ms_alike_def)

lemma ms_alike_cases [consumes 1, case_names equal differ]:
  assumes "ms_alike s t" "s = t \<Longrightarrow> P" "\<And>x. t = s\<lparr>ms_scram := x\<rparr> \<Longrightarrow> \<not> ms_scram_due (ms_pending s) \<Longrightarrow> P"
  shows P
proof -
  have "t = s\<lparr>ms_scram := ms_scram t\<rparr>" if "s\<lparr>ms_scram := None\<rparr> = t\<lparr>ms_scram := None\<rparr>"
    using that by (cases s; cases t) simp
  with assms show ?thesis unfolding ms_alike_def by blast
qed

lemma ms_alike_fields:
  assumes "ms_alike s t"
  shows "ms_pending t = ms_pending s" "ms_queued t = ms_queued s" "ms_closed t = ms_closed s" "ms_awaitingTls t = ms_awaitingTls s"
    "ms_reader t = ms_reader s" "ms_stopped t = ms_stopped s" "ms_awaitsAuth t = ms_awaitsAuth s"
  using assms by (auto elim!: ms_alike_cases simp: ms_stopped_def ms_awaitsAuth_def)

lemma ms_alike_upd:
  assumes "ms_alike s t"
  shows "ms_alike (s\<lparr>ms_queued := q\<rparr>) (t\<lparr>ms_queued := q\<rparr>)" "ms_alike (s\<lparr>ms_reader := r\<rparr>) (t\<lparr>ms_reader := r\<rparr>)"
    "ms_alike (s\<lparr>ms_authed := a\<rparr>) (t\<lparr>ms_authed := a\<rparr>)"
    "\<not> ms_scram_due p \<Longrightarrow> ms_alike (s\<lparr>ms_pending := p\<rparr>) (t\<lparr>ms_pending := p\<rparr>)"
  using assms by (auto elim!: ms_alike_cases intro: ms_alikeI)

lemma ms_decodePlain_same:
  "ms_pending s = None \<Longrightarrow> ms_same (ms_decodePlain b64 s) (ms_decodePlain b64 (s\<lparr>ms_scram := x\<rparr>))"
  by (auto simp: ms_decodePlain_def ms_same_def split: option.split intro: ms_alikeI)

lemma ms_cmdAuthenticate_same:
  assumes "ms_pending s = None"
  shows "ms_same (ms_cmdAuthenticate c opt rnd vs s) (ms_cmdAuthenticate c opt rnd vs (s\<lparr>ms_scram := x\<rparr>))"
proof -
  have r: "ms_same (s, acts) (s\<lparr>ms_scram := x\<rparr>, acts)"
      "ms_same (s\<lparr>ms_pending := Some (MP_authLine MS_PLAIN)\<rparr>, acts) (s\<lparr>ms_scram := x, ms_pending := Some (MP_authLine MS_PLAIN)\<rparr>, acts)" for acts
    using assms by (auto simp: ms_same_def intro!: ms_alikeI)
  show ?thesis
    using ms_decodePlain_same [OF assms] r
    by (simp add: ms_cmdAuthenticate_def Let_def ms_authAllowed_def split: option.split)
qed

lemma ms_scriptCommand_same:
  "ms_pending s = None \<Longrightarrow> ms_same (ms_scriptCommand opt cmd vs s) (ms_scriptCommand opt cmd vs (s\<lparr>ms_scram := x\<rparr>))"
proof -
  assume p: "ms_pending s = None"
  have r: "ms_same (s, acts) (s\<lparr>ms_scram := x\<rparr>, acts)"
      "\<not> ms_scram_due q \<Longrightarrow> ms_same (s\<lparr>ms_pending := q\<rparr>, acts) (s\<lparr>ms_scram := x, ms_pending := q\<rparr>, acts)" for acts q
    using p by (simp_all add: ms_same_def ms_alikeI)
  then show ?thesis by (simp add: ms_scriptCommand_def split: option.split)
qed

lemma ms_handleLine_same:
  assumes "ms_pending s = None"
  shows "ms_same (ms_handleLine c opt rnd parts s) (ms_handleLine c opt rnd parts (s\<lparr>ms_scram := x\<rparr>))"
proof -
  have r: "ms_same (s, acts) (s\<lparr>ms_scram := x\<rparr>, acts)"
      "ms_same (s\<lparr>ms_closed := True\<rparr>, acts) (s\<lparr>ms_scram := x, ms_closed := True\<rparr>, acts)" for acts
    using assms by (auto simp: ms_same_def intro!: ms_alikeI)
  have t: "ms_same (ms_cmdStartTls opt s) (ms_cmdStartTls opt (s\<lparr>ms_scram := x\<rparr>))"
    using assms by (auto simp: ms_cmdStartTls_def ms_same_def intro!: ms_alikeI)
  have k: "ms_capabilities opt (s\<lparr>ms_scram := x\<rparr>) = ms_capabilities opt s"
    by (simp add: ms_capabilities_def ms_authAllowed_def ms_starttlsOffered_def)
  show ?thesis
    using r t k ms_cmdAuthenticate_same [OF assms] ms_scriptCommand_same [OF assms]
    by (simp add: ms_handleLine_def Let_def)
qed

lemma ms_handleLine_alike:
  "ms_alike s t \<Longrightarrow> ms_pending s = None \<Longrightarrow> ms_same (ms_handleLine c opt rnd parts s) (ms_handleLine c opt rnd parts t)"
  by (erule ms_alike_cases) (simp_all add: ms_handleLine_same)

lemma ms_drain_alike: "ms_alike s t \<Longrightarrow> ms_same (ms_drain c opt rnd s) (ms_drain c opt rnd t)"
proof (induction "length (ms_queued s)" arbitrary: s t rule: less_induct)
  case less
  show ?case
  proof (cases "ms_stopped s")
    case True
    then show ?thesis
      using less.prems ms_alike_fields(6) [OF less.prems] by (simp add: ms.loop_stopped ms_same_def)
  next
    case False
    then obtain parts q where q: "ms_queued s = parts # q" by (cases "ms_queued s") (auto simp: ms_stopped_def)
    obtain s1 a t1 b where h: "ms_handleLine c opt rnd parts (s\<lparr>ms_queued := q\<rparr>) = (s1, a)"
        "ms_handleLine c opt rnd parts (t\<lparr>ms_queued := q\<rparr>) = (t1, b)" by fastforce
    have "ms_pending (s\<lparr>ms_queued := q\<rparr>) = None" using False by (simp add: ms_stopped_def)
    then have "b = a" "ms_alike s1 t1"
      using ms_handleLine_alike [OF ms_alike_upd(1) [OF less.prems], of q c opt rnd parts] h by (simp_all add: ms_same_def)
    moreover have st: "ms_step c opt rnd s = (s1, a, True)" "ms_step c opt rnd t = (t1, b, True)"
      using h q ms_alike_fields(2) [OF less.prems] by (simp_all add: ms_step_def)
    moreover have "ms_same (ms_drain c opt rnd s1) (ms_drain c opt rnd t1)"
      using less.hyps [OF ms_step_decreases [OF st(1)]] calculation(2) by blast
    ultimately show ?thesis
      using ms.loop_pass [OF False st(1)] ms.loop_pass [OF _ st(2)] False ms_alike_fields(6) [OF less.prems]
      by (simp add: ms_same_def split_beta)
  qed
qed

lemma ms_thenDrain_alike: "ms_alike s t \<Longrightarrow> ms_same (ms_thenDrain c opt rnd acts s) (ms_thenDrain c opt rnd acts t)"
  using ms_drain_alike [of s t c opt rnd] by (simp add: ms_thenDrain_def ms_same_def split_beta)

lemma ms_onEvent_alike:
  assumes "ms_alike s t"
  shows "ms_same (ms_onEvent c opt rnd ev s) (ms_onEvent c opt rnd ev t)"
  using assms
proof (cases rule: ms_alike_cases)
  case (differ x)
  have q: "ms_same (s\<lparr>ms_queued := l\<rparr>, []) (s\<lparr>ms_scram := x, ms_queued := l\<rparr>, [])" for l
    using differ(2) by (auto simp: ms_same_def intro!: ms_alikeI)
  have e: "s\<lparr>ms_scram := x, ms_pending := None\<rparr> = s\<lparr>ms_pending := None, ms_scram := x\<rparr>" by simp
  have p: "ms_same (ms_decodePlain b64 (s\<lparr>ms_pending := None\<rparr>)) (ms_decodePlain b64 (s\<lparr>ms_scram := x, ms_pending := None\<rparr>))" for b64
    unfolding e by (rule ms_decodePlain_same) simp
  show ?thesis
  proof (cases ev)
    case (RE_line parts)
    show ?thesis
    proof (cases "ms_pending s")
      case None
      then show ?thesis using ms_handleLine_same [OF None] differ(1) RE_line by (simp add: ms_onEvent_def)
    next
      case (Some d)
      then show ?thesis using differ q p RE_line by (cases d) (simp_all add: ms_onEvent_def Let_def)
    qed
  qed (use assms in \<open>simp_all add: ms_onEvent_def ms_same_def\<close>)
qed simp

lemma ms_events_alike: "ms_alike s t \<Longrightarrow> ms_same (ms_events c opt rnd evs s) (ms_events c opt rnd evs t)"
proof (induction evs arbitrary: s t)
  case (Cons ev evs)
  obtain s1 a t1 b where e: "ms_onEvent c opt rnd ev s = (s1, a)" "ms_onEvent c opt rnd ev t = (t1, b)" by fastforce
  then have "b = a" "ms_alike s1 t1" using ms_onEvent_alike [OF Cons.prems, of c opt rnd ev] by (simp_all add: ms_same_def)
  then show ?case
    using e Cons.IH [of s1 t1] ms_alike_fields(3,4) [of s1 t1] by (simp add: ms_same_def split_beta)
qed (simp add: ms_same_def)

lemma ms_feed_alike: "ms_alike s t \<Longrightarrow> ms_same (ms_feed c opt rnd chunk s) (ms_feed c opt rnd chunk t)"
  using ms_events_alike [OF ms_alike_upd(2)] ms_alike_fields [of s t]
  by (auto simp: ms_feed_def ms_same_def split: prod.split)

text \<open>The methods: alike states raise alike, and otherwise give the same actions and alike states.\<close>

definition ms_same_result :: "string + ms \<times> ms_action list \<Rightarrow> string + ms \<times> ms_action list \<Rightarrow> bool" where
  "ms_same_result r q \<longleftrightarrow>
     (case (r, q) of (Inl e, Inl f) \<Rightarrow> e = f | (Inr x, Inr y) \<Rightarrow> ms_same x y | _ \<Rightarrow> False)"

lemma ms_call_alike:
  assumes "ms_alike s t"
  shows "ms_same_result (ms_call c opt rnd i s) (ms_call c opt rnd i t)"
proof -
  note f = ms_alike_fields [OF assms] ms_thenDrain_alike ms_alike_upd [OF assms] ms_alike_upd(3)
  show ?thesis
  proof (cases i)
    case (MsScramKeys ks)
    show ?thesis
    proof (cases "ms_pending s = Some MP_scramKeys")
      case True
      then have "s = t" using assms by (auto elim: ms_alike_cases)
      then show ?thesis by (cases "ms_call c opt rnd i t") (simp_all add: ms_same_result_def)
    next
      case False
      then show ?thesis using MsScramKeys f(1) by (simp add: ms_same_result_def ms_scramKeysResult_def)
    qed
  next
    case MsTls
    have "ms_capabilities opt (u\<lparr>ms_scram := x\<rparr>) = ms_capabilities opt u" for u x
      by (simp add: ms_capabilities_def ms_authAllowed_def ms_starttlsOffered_def)
    from assms show ?thesis
      by (cases rule: ms_alike_cases)
        (use MsTls in \<open>auto simp: ms_same_result_def ms_same_def ms_tlsUpgraded_def Let_def ms_capabilities_def
          ms_authAllowed_def ms_starttlsOffered_def intro!: ms_alikeI\<close>)
  next
    case (MsAuth a)
    then show ?thesis
      using f by (simp add: ms_same_result_def ms_authResult_def Let_def split: option.split)
  next
    case (MsOp r)
    then show ?thesis using f by (simp add: ms_same_result_def ms_opResult_def split: option.split ms_pending.split)
  next
    case (MsList l)
    then show ?thesis using f by (simp add: ms_same_result_def ms_listResult_def)
  next
    case (MsGet r)
    then show ?thesis using f by (simp add: ms_same_result_def ms_getResult_def split: option.split ms_pending.split)
  next
    case (MsFeed b)
    then show ?thesis using ms_feed_alike [OF assms] by (simp add: ms_same_result_def)
  qed
qed

text \<open>What a session puts out; a call that raises leaves the state as it is.\<close>

fun ms_outputs :: "crypto \<Rightarrow> ms_options \<Rightarrow> (bytes \<times> ms_input) list \<Rightarrow> ms \<Rightarrow> (string + ms_action list) list" where
  "ms_outputs c opt [] s = []"
| "ms_outputs c opt ((rnd, i) # ins) s =
     (case ms_call c opt rnd i s of
        Inl e \<Rightarrow> Inl e # ms_outputs c opt ins s
      | Inr (s1, acts) \<Rightarrow> Inr acts # ms_outputs c opt ins s1)"

lemma ms_outputs_alike: "ms_alike s t \<Longrightarrow> ms_outputs c opt ins s = ms_outputs c opt ins t"
proof (induction ins arbitrary: s t)
  case (Cons x ins)
  obtain rnd i where x: "x = (rnd, i)" by force
  from ms_call_alike [OF Cons.prems, of c opt rnd i] show ?case
    using Cons.IH Cons.prems by (auto simp: x ms_same_result_def ms_same_def split: sum.splits)
qed simp

section \<open>A session\<close>

fun ms_run :: "crypto \<Rightarrow> ms_options \<Rightarrow> ms_input list \<Rightarrow> ms \<times> ms_event list \<Rightarrow> (ms \<times> ms_event list) option" where
  "ms_run c opt [] sh = Some sh"
| "ms_run c opt (i # ins) sh =
     (case ms_call c opt [] i (fst sh) of
        Inl e \<Rightarrow> None
      | Inr (s1, out) \<Rightarrow> ms_run c opt ins (s1, snd sh @ In i # map Out out))"

lemma ms_run_session:
  "ms_session c opt (fst sh) (snd sh) \<Longrightarrow> ms_run c opt ins sh = Some r \<Longrightarrow> ms_session c opt (fst r) (snd r)"
proof (induction c opt ins sh rule: ms_run.induct)
  case (2 c opt i ins sh)
  then obtain s1 out where r: "ms_call c opt [] i (fst sh) = Inr (s1, out)" by (auto split: sum.splits)
  with "2.prems"(1) have "ms_session c opt s1 (snd sh @ In i # map Out out)" by (rule ms_session.call)
  with "2.IH" r "2.prems"(2) show ?case by simp
qed simp

definition ms_demo_opt :: ms_options where
  "ms_demo_opt = \<lparr>mo_hostname = ''h'', mo_secure = False, mo_allowInsecureAuth = False, mo_tlsAvailable = True,
     mo_scramOffered = True, mo_scramDecoySecret = [], mo_maxScriptBytes = 1048576\<rparr>"

definition ms_demo :: "ms_input list" where
  "ms_demo =
     [MsFeed (''STARTTLS'' @ CRLF), MsTls, MsFeed (''AUTHENTICATE PLAIN AGEAYg=='' @ CRLF), MsAuth (Some ''id''),
      MsFeed (''LISTSCRIPTS'' @ CRLF)]"

lemma ms_demo_ok:
  "\<exists>s h. ms_session toy_crypto ms_demo_opt s h \<and> {Out (MA_auth ''a'' ''b''), Out MA_listScripts} \<subseteq> set h \<and>
     ms_pending s = Some MP_list"
proof -
  have "case ms_run toy_crypto ms_demo_opt ms_demo (ms_new ms_demo_opt, []) of
      Some r \<Rightarrow> Out (MA_auth ''a'' ''b'') \<in> set (snd r) \<and> Out MA_listScripts \<in> set (snd r) \<and> ms_pending (fst r) = Some MP_list
    | None \<Rightarrow> False"
    by code_simp
  then obtain s h where "ms_run toy_crypto ms_demo_opt ms_demo (ms_new ms_demo_opt, []) = Some (s, h)"
      "{Out (MA_auth ''a'' ''b''), Out MA_listScripts} \<subseteq> set h" "ms_pending s = Some MP_list"
    by (auto split: option.splits)
  moreover have "ms_session toy_crypto ms_demo_opt (fst (ms_new ms_demo_opt, [])) (snd (ms_new ms_demo_opt, []))"
    by (simp add: ms_session.start)
  ultimately show ?thesis using ms_run_session by fastforce
qed

text \<open>Which inputs the engine expects; the others raise.\<close>

fun ms_due :: "ms_input \<Rightarrow> ms_pending option \<Rightarrow> bool" where
  "ms_due (MsFeed b) p \<longleftrightarrow> True"
| "ms_due MsTls p \<longleftrightarrow> True"
| "ms_due (MsAuth a) p \<longleftrightarrow> (\<exists>y. p = Some (MP_auth y) \<or> p = Some (MP_authLine y))"
| "ms_due (MsScramKeys ks) p \<longleftrightarrow> p = Some MP_scramKeys"
| "ms_due i p \<longleftrightarrow> (\<exists>q. p = Some q \<and> ms_finishes i q)"

lemma ms_call_raises: "(\<exists>e. ms_call c opt rnd i s = Inl e) \<longleftrightarrow> \<not> ms_due i (ms_pending s)"
proof (cases i)
  case (MsAuth a)
  then show ?thesis
    by (simp add: ms_authResult_def ms_awaitsAuth_def Let_def split: option.split ms_pending.split)
next
  case (MsScramKeys ks)
  then show ?thesis by (auto simp: ms_scramKeysResult_def split: option.split prod.split scram_step.split)
qed (auto simp: ms_opResult_def ms_listResult_def ms_getResult_def split: option.split ms_pending.split)

section \<open>Properties\<close>

text \<open>C29: Access control of ManageSieve. In every session, every request on scripts is made after the
  backend accepted the client's credentials on the current connection, where a TLS upgrade begins anew;
  and credentials reach the backend only after TLS, unless the server is configured to accept them
  in plaintext.\<close>

theorem managesieve_guarded:
  assumes "ms_session c opt s h"
  shows "emitted_where ms_script ms_granted h \<and> emitted_where ms_login (ms_tls_seen opt) h"
  using ms_guard.session_kept [OF assms] by (simp add: ms_guarded_def)

theorem managesieve_guarded_witness:
  "\<exists>s h. ms_session toy_crypto ms_demo_opt s h \<and> Out MA_listScripts \<in> set h \<and>
     emitted_where ms_script ms_granted h \<and> emitted_where ms_login (ms_tls_seen ms_demo_opt) h"
proof -
  obtain s h where "ms_session toy_crypto ms_demo_opt s h" "Out MA_listScripts \<in> set h" using ms_demo_ok by blast
  then show ?thesis using managesieve_guarded [of toy_crypto ms_demo_opt s h] by blast
qed

text \<open>Requests and answers alternate. A session never makes a request while another waits for its
  answer; the engine waits exactly for the answer to the open request of the log; and a method raises,
  changing nothing, exactly when its answer is not the one due.\<close>

lemma managesieve_turns:
  assumes "ms_session c opt s h"
  shows "emitted_where ms_request (\<lambda>pre. ms_open pre = None) h \<and> ms_in_turn (ms_pending s) h \<and>
    ((\<exists>e. ms_call c opt rnd i s = Inl e) \<longleftrightarrow> \<not> ms_due i (ms_pending s))"
  using ms_order.session_kept [OF assms] ms_call_raises by (simp add: ms_turns_def)

text \<open>C30: No plaintext crosses the upgrade. Whatever happened on the plaintext connection, from the TLS
  handshake on every session has exactly the output of a session on a connection that was secure from its
  start: nothing sent or negotiated before it is executed or trusted after it.\<close>

theorem managesieve_tls_fresh:
  assumes "\<not> ms_closed s"
  shows "ms_outputs c opt ins (fst (ms_tlsUpgraded opt s)) = ms_outputs c opt ins (ms_new (opt\<lparr>mo_secure := True\<rparr>))"
proof (rule ms_outputs_alike, rule ms_alikeI)
  show "(fst (ms_tlsUpgraded opt s))\<lparr>ms_scram := None\<rparr> = (ms_new (opt\<lparr>mo_secure := True\<rparr>))\<lparr>ms_scram := None\<rparr>"
    using assms by (simp add: ms_tlsUpgraded_def ms_new_def Let_def ms_newReader_def)
qed (simp add: ms_tlsUpgraded_def Let_def)

theorem managesieve_tls_fresh_witness:
  "ms_outputs toy_crypto ms_demo_opt [([], MsFeed (''NOOP'' @ CRLF))]
     (fst (ms_tlsUpgraded ms_demo_opt (fst (ms_feed toy_crypto ms_demo_opt [] (''STARTTLS'' @ CRLF @ ''LOGOUT'' @ CRLF) (ms_new ms_demo_opt))))) =
   ms_outputs toy_crypto ms_demo_opt [([], MsFeed (''NOOP'' @ CRLF))] (ms_new (ms_demo_opt\<lparr>mo_secure := True\<rparr>))"
proof -
  have "\<not> ms_closed (fst (ms_feed toy_crypto ms_demo_opt [] (''STARTTLS'' @ CRLF @ ''LOGOUT'' @ CRLF) (ms_new ms_demo_opt)))"
    by code_simp
  then show ?thesis by (rule managesieve_tls_fresh)
qed

end
