(* ===== verification/ManageSieveWire.thy ===== *)
theory ManageSieveWire
  imports ManageSieveTls
begin

text \<open>
  What a client puts on the wire and what the engine makes of it: a script is taken over byte for byte,
  a name through its quoted form, and a script over the limit of non-synchronising literals is refused
  although \<open>HAVESPACE\<close> promised the space.
\<close>

section \<open>Quoted names\<close>

lemma replaceAllChar_simps [simp]:
  "replaceAllChar c r [] = []" "replaceAllChar c r (x # s) = (if x = c then r else [x]) @ replaceAllChar c r s"
  "replaceAllChar c r (s @ t) = replaceAllChar c r s @ replaceAllChar c r t"
  by (simp_all add: replaceAllChar_def)

lemma ms_quote_escape: "ms_quote s = QUOTE # quote_escape s @ [QUOTE]"
proof -
  have "replaceAllChar QUOTE [BACKSLASH, QUOTE] (replaceAllChar BACKSLASH [BACKSLASH, BACKSLASH] s) = quote_escape s"
    by (induction s) auto
  then show ?thesis by (simp add: ms_quote_def)
qed





section \<open>Numbers\<close>

lemma trim_digits:
  assumes "list_all is_digit s"
  shows "trim s = s"
proof -
  have d: "dropWhile is_space t = t" if "list_all is_digit t" for t
    using that by (cases t) (auto simp: is_digit_def is_space_def)
  show ?thesis using assms d [of s] d [of "rev s"] by (simp add: trim_def list_all_rev)
qed

lemma js_Number_digits:
  assumes "all_digits s"
  shows "js_Number s = JS_decimal (int (digits_value s)) 0"
proof -
  have d: "list_all is_digit s" "s \<noteq> []" using assms by (simp_all add: all_digits_def)
  have sw: "\<not> startsWith (a # [b]) s" if "\<not> is_digit b" for a b
    using d that by (cases s; cases "tl s") auto
  have hd1: "\<not> startsWith [b] s" if "\<not> is_digit b" for b
    using d that by (cases s) auto
  have w: "takeWhile is_digit s = s" "dropWhile is_digit s = []"
    using d(1) by (simp_all add: takeWhile_eq_all_conv dropWhile_eq_Nil_conv list_all_iff)
  have inf: "s \<noteq> ''Infinity''" using d(1) by (auto simp: is_digit_def)
  have "unsigned_decimal s = JS_decimal (int (digits_value s)) 0"
    by (simp add: unsigned_decimal_def exponent_value_def w inf d(2))
  then show ?thesis
    using d sw hd1 by (simp add: js_Number_def trim_digits is_digit_def)
qed

lemma half_ulp_denominator_large: "n < 2 ^ Suc k \<Longrightarrow> k \<le> 52 \<Longrightarrow> 2 ^ (53 - k) \<le> half_ulp_denominator n"
proof (induction n arbitrary: k rule: half_ulp_denominator.induct)
  case (1 n)
  show ?case
  proof (cases "n < 2")
    case True
    moreover have "(2::nat) ^ (53 - k) \<le> 2 ^ 53" by (intro power_increasing) simp_all
    ultimately show ?thesis by (subst half_ulp_denominator.simps) simp
  next
    case False
    then obtain j where k: "k = Suc j" using "1.prems" by (cases k) auto
    have "2 ^ (53 - j) \<le> half_ulp_denominator (n div 2)"
      using "1.IH" [OF False, of j] "1.prems" k by (simp add: less_mult_imp_div_less)
    moreover have "(2::nat) ^ (53 - j) = 2 * 2 ^ (53 - k)" using "1.prems" k by (simp flip: power_Suc)
    ultimately show ?thesis using False by (subst half_ulp_denominator.simps) simp
  qed
qed

lemma number_at_most_digits:
  assumes "all_digits s" "0 < limit" "limit < 2 ^ 52"
  shows "number_at_most (js_Number s) limit \<longleftrightarrow> digits_value s \<le> limit"
proof -
  let ?q = "half_ulp_denominator limit" and ?n = "digits_value s"
  have q: "2 \<le> ?q" using half_ulp_denominator_large [of limit 51] assms(3) by simp
  have "?n * ?q \<le> limit * ?q + 1 \<longleftrightarrow> ?n \<le> limit"
  proof
    assume a: "?n * ?q \<le> limit * ?q + 1"
    show "?n \<le> limit"
    proof (rule ccontr)
      assume "\<not> ?n \<le> limit"
      then have "(limit + 1) * ?q \<le> ?n * ?q" by (intro mult_le_mono1) simp
      with a q show False by simp
    qed
  qed (simp add: le_SucI)
  moreover have "decimal_le (int ?n) 0 (int (limit * ?q) + 1) (int ?q) \<longleftrightarrow> ?n * ?q \<le> limit * ?q + 1"
    using of_nat_le_iff [of "?n * ?q" "limit * ?q + 1", where 'a = int] by (simp add: decimal_le_def add.commute)
  moreover have "\<not> decimal_le (int ?n) 0 (- (2 ^ 1024 - 2 ^ 970)) 1" by (simp add: decimal_le_def)
  ultimately show ?thesis using assms by (simp add: js_Number_digits)
qed

section \<open>Scripts on the wire\<close>

text \<open>A reader between two lines.\<close>

definition reader_ready :: "imap_reader \<Rightarrow> bool" where
  "reader_ready r \<longleftrightarrow> reader_idle r \<and> ir_buffer r = [] \<and> ir_parts r = [] \<and> ir_textLen r = 0"

lemma ms_newReader_simps [simp]:
  "reader_ready (ms_newReader opt)" "ir_maxLineBytes (ms_newReader opt) = MAX_IMAP_LINE_BYTES"
  "ir_maxLiteralBytes (ms_newReader opt) = mo_maxScriptBytes opt" "ir_maxNonSync (ms_newReader opt) = 4096"
  by (simp_all add: ms_newReader_def imapReader_new_def reader_ready_def reader_idle_def DEFAULT_MAX_NONSYNC_def)

definition putscript_head :: "string \<Rightarrow> string" where
  "putscript_head name = ''PUTSCRIPT '' @ ms_quote name @ '' ''"


lemma LF_escape: "LF \<in> set (quote_escape s) \<longleftrightarrow> LF \<in> set s"
  by (induction s) auto

lemma reader_oversized:
  assumes "reader_ready r" "LF \<notin> set t" "length (t @ literalDecl (length b) True) \<le> ir_maxLineBytes r"
    and "min (ir_maxLiteralBytes r) (ir_maxNonSync r) < length b" "length b \<le> MAX_SAFE_INTEGER"
  shows "reader_feed (wireLine [(t, b, True)] []) r = (r, [RE_error ''literal too large''])"
proof -
  let ?l = "t @ literalDecl (length b) True"
  let ?r1 = "r\<lparr>ir_buffer := b @ CRLF, ir_parts := [TextPart t], ir_textLen := length t,
               ir_discarding := Some ''literal too large'', ir_literalRemaining := Some (length b)\<rparr>"
  let ?r2 = "?r1\<lparr>ir_buffer := CRLF, ir_literalRemaining := None\<rparr>"
  have idle: "ir_literalRemaining r = None" "ir_discarding r = None" "ir_literalChunks r = []" "ir_buffer r = []"
      "ir_parts r = []" "ir_textLen r = 0"
    using assms(1) by (simp_all add: reader_ready_def reader_idle_def)
  have l: "LF \<notin> set ?l" using assms(2) literalDecl_no_LF by auto
  have "consumeLine_text ?l (r\<lparr>ir_buffer := b @ CRLF\<rparr>) = (?r1, LO_undefined)"
    using assms(3,4) idle matchLiteralTail_decl [OF assms(5), of t True] by (simp add: consumeLine_text_def)
  then have s1: "reader_step (r\<lparr>ir_buffer := ?l @ CR # LF # b @ CRLF\<rparr>) = (?r1, [], True)"
    using idle consumeLine_whole [OF l, of "b @ CRLF" r] by (simp add: reader_step_def)
  have "0 < length b" using assms(4) by linarith
  then have s2: "reader_step ?r1 = (?r2, [], True)"
    using idle by (simp add: reader_step_def consumeLiteral_def)
  have "?r2 = ?r1\<lparr>ir_literalRemaining := None, ir_buffer := [] @ CR # LF # []\<rparr>" by simp
  moreover have "dropLine (r\<lparr>ir_literalRemaining := None, ir_discarding := None, ir_buffer := []\<rparr>) = r"
    using idle by (cases r) (simp add: dropLine_def)
  ultimately have s3: "reader_step ?r2 = (r, [RE_error ''literal too large''], True)"
    using idle consumeLine_whole [of "[]" "[]" "?r1\<lparr>ir_literalRemaining := None\<rparr>"]
    by (cases r) (simp add: reader_step_def consumeLine_text_def matchLiteralTail_def dropLine_def)
  have s4: "reader_step r = (r, [], False)"
    using idle by (simp add: reader_step_def consumeLine_def consumeLine_wait_def)
  have "reader_loop (r\<lparr>ir_buffer := ?l @ CR # LF # b @ CRLF\<rparr>) = (r, [RE_error ''literal too large''])"
    using reader.loop_pass [OF _ s1] reader.loop_pass [OF _ s2] reader.loop_pass [OF _ s3] reader.loop_last [OF _ s4] by simp
  then show ?thesis using idle by (simp add: reader_feed_def)
qed

text \<open>The engine between two commands of an authenticated client.\<close>

definition ms_at_rest :: "ms \<Rightarrow> bool" where
  "ms_at_rest s \<longleftrightarrow> ms_authed s \<and> \<not> ms_closed s \<and> \<not> ms_awaitingTls s \<and> ms_pending s = None"

lemma ms_feed_idle:
  assumes "ms_at_rest s" "reader_feed chunk (ms_reader s) = (ms_reader s, evs)"
  shows "ms_feed c opt rnd chunk s = ms_events c opt rnd evs s"
  using assms by (simp add: ms_feed_def ms_at_rest_def)

lemma ms_events_one:
  "ms_events c opt rnd [ev] s = ms_onEvent c opt rnd ev s"
  by (simp add: split_beta)




text \<open>\<open>HAVESPACE\<close> and \<open>PUTSCRIPT\<close> disagree. For every size above 4096 bytes that the configured script
  limit allows, the engine answers \<open>HAVESPACE\<close> with \<open>OK\<close>, and refuses the script of that very size when it
  is sent as a non-synchronising literal, the only form of RFC 5804.\<close>

lemma managesieve_nonsync_limit:
  assumes "ms_at_rest s" "ms_reader s = ms_newReader opt"
    and "LF \<notin> set name" "length (putscript_head name @ literalDecl (length script) True) \<le> MAX_IMAP_LINE_BYTES"
    and "4096 < length script" "length script \<le> mo_maxScriptBytes opt" "mo_maxScriptBytes opt < 2 ^ 52"
  shows "ms_scriptCommand opt ''HAVESPACE'' [''HAVESPACE'', name, show_nat (length script)] s = (s, [MA_reply ''OK'']) \<and>
    ms_feed c opt rnd (wireLine [(putscript_head name, script, True)] []) s = (s, [says ''NO'' ''literal too large''])"
proof
  show "ms_scriptCommand opt ''HAVESPACE'' [''HAVESPACE'', name, show_nat (length script)] s = (s, [MA_reply ''OK''])"
    using number_at_most_digits [of "show_nat (length script)" "mo_maxScriptBytes opt"] assms(5-7)
    by (simp add: ms_scriptCommand_def value_or_def value_at_def)
next
  have "LF \<notin> set (putscript_head name)" using assms(3) by (simp add: putscript_head_def ms_quote_escape LF_escape)
  then have "reader_feed (wireLine [(putscript_head name, script, True)] []) (ms_reader s) =
      (ms_reader s, [RE_error ''literal too large''])"
    using assms(2,4-7) by (intro reader_oversized) (simp_all add: MAX_SAFE_INTEGER_def)
  then have "ms_feed c opt rnd (wireLine [(putscript_head name, script, True)] []) s =
      ms_onEvent c opt rnd (RE_error ''literal too large'') s"
    using ms_feed_idle [OF assms(1)] ms_events_one by metis
  then show "ms_feed c opt rnd (wireLine [(putscript_head name, script, True)] []) s = (s, [says ''NO'' ''literal too large''])"
    by (simp add: ms_onEvent_def)
qed

text \<open>
  A refused SASL response, unlike every other end of a request, does not go on with the queued lines: they
  stay where they are, and the next line of the client is executed before them.
\<close>

lemma managesieve_refused_line_keeps_queue:
  assumes "ms_pending s = Some (MP_authLine MS_PLAIN)" "value_or [] 0 (parseParts parts) = v" "v \<noteq> ''*''" "decodeSaslBase64 v = None"
  shows "ms_onEvent c opt rnd (RE_line parts) s = (s\<lparr>ms_pending := None\<rparr>, [says ''NO'' ''invalid base64''])"
    and "ms_onEvent c opt rnd (RE_line l) (s\<lparr>ms_pending := None\<rparr>) = ms_handleLine c opt rnd l (s\<lparr>ms_pending := None\<rparr>)"
  using assms by (simp_all add: ms_onEvent_def ms_decodePlain_def Let_def)

end
