(* ===== verification/SieveLexer.thy ===== *)
theory SieveLexer
  imports ImapParser
begin

text \<open>
  The Sieve lexer (\<open>sieve/src/lexer.ts\<close>). The source is read from the left; \<open>lexOne\<close> is one pass of the
  loop of \<open>tokenize\<close> at position \<open>i\<close> with the rest of the source, and gives the token it pushes, if any,
  and what is left. A thrown \<open>SieveSyntaxError\<close> is its message and position. Number tokens are exact
  natural numbers (the source computes them as doubles, exact below \<open>2 ^ 53\<close>).

  Shown: every pass consumes input, so that lexing ends; and the printed form of a list of tokens is
  read back as these tokens, with any text in their strings.
\<close>

section \<open>Tokens\<close>

datatype sieve_token_type = ST_identifier | ST_tag | ST_number | ST_string | ST_punct char

record sieve_token =
  tk_type :: sieve_token_type
  tk_value :: string
  tk_pos :: nat

type_synonym sieve_error = "string \<times> nat"

definition IDENT_START :: "char \<Rightarrow> bool" where
  "IDENT_START c \<longleftrightarrow> (let n = code c in (65 \<le> n \<and> n \<le> 90) \<or> (97 \<le> n \<and> n \<le> 122) \<or> n = 95)"

definition IDENT_CHAR :: "char \<Rightarrow> bool" where
  "IDENT_CHAR c \<longleftrightarrow> IDENT_START c \<or> is_digit c \<or> c = DOT"

definition sieve_blank :: "char \<Rightarrow> bool" where
  "sieve_blank c \<longleftrightarrow> c = SP \<or> c = TAB \<or> c = CR \<or> c = LF"

definition sieve_punct :: "char \<Rightarrow> bool" where
  "sieve_punct c \<longleftrightarrow> c \<in> set ''(){}[],;''"

section \<open>One token\<close>

text \<open>A quoted string after its opening quote; \<open>None\<close> when the source ends in it.\<close>

fun sieve_quoted :: "string \<Rightarrow> (string \<times> string) option" where
  "sieve_quoted [] = None"
| "sieve_quoted [c] = (if c = QUOTE then Some ([], []) else None)"
| "sieve_quoted (c # d # cs) =
     (if c = QUOTE then Some ([], d # cs)
      else if c = BACKSLASH then map_option (\<lambda>(v, r). (d # v, r)) (sieve_quoted cs)
      else map_option (\<lambda>(v, r). (c # v, r)) (sieve_quoted (d # cs)))"

definition until_newline :: "string \<Rightarrow> string \<times> string" where
  "until_newline s = (takeWhile (\<lambda>c. c \<noteq> LF) s, tl (dropWhile (\<lambda>c. c \<noteq> LF) s))"

text \<open>The lines of a multi-line string, from position \<open>i\<close>; the position of an error is where its line begins.\<close>

function sieve_multiline :: "nat \<Rightarrow> string \<Rightarrow> string \<Rightarrow> sieve_error + string \<times> string" where
  "sieve_multiline i s out =
     (let (line, r) = until_newline s;
          trimmed = stripCR line;
          out1 = out @ (if startsWith ''..'' trimmed then tl trimmed else trimmed) @ CRLF
      in if trimmed = ''.'' then Inr (out, r)
         else if r = [] then Inl (''unterminated multi-line string'', i)
         else sieve_multiline (i + (length s - length r)) r out1)"
  by pat_completeness auto
termination
proof (relation "measure (\<lambda>(i, s, out). length s)", goal_cases)
  case (2 i s out p line r trimmed out1)
  have "length (tl (dropWhile (\<lambda>c. c \<noteq> LF) s)) < length s" if "tl (dropWhile (\<lambda>c. c \<noteq> LF) s) \<noteq> []"
    using that length_dropWhile_le [of "\<lambda>c. c \<noteq> LF" s] by (cases "dropWhile (\<lambda>c. c \<noteq> LF) s") auto
  with 2 show ?case by (simp add: until_newline_def)
qed simp

declare sieve_multiline.simps [simp del]

text \<open>\<open>JSON.stringify\<close> of a one-character string that is neither a letter, a digit nor a quote.\<close>

definition json_char :: "char \<Rightarrow> string" where
  "json_char c =
     (let n = code c;
          body = (if c = BACKSLASH then [BACKSLASH, BACKSLASH]
                  else if c = QUOTE then [BACKSLASH, QUOTE]
                  else if n = 8 then BACKSLASH # ''b''
                  else if n = 9 then BACKSLASH # ''t''
                  else if n = 10 then BACKSLASH # ''n''
                  else if n = 12 then BACKSLASH # ''f''
                  else if n = 13 then BACKSLASH # ''r''
                  else if n < 32 then BACKSLASH # ''u00'' @ [hexChar (n div 16), hexChar (n mod 16)]
                  else [c])
      in [QUOTE] @ body @ [QUOTE])"

definition number_unit :: "string \<Rightarrow> nat" where
  "number_unit r =
     (if startsWith ''K'' r \<or> startsWith ''k'' r then 1024
      else if startsWith ''M'' r \<or> startsWith ''m'' r then 1024 * 1024
      else if startsWith ''G'' r \<or> startsWith ''g'' r then 1024 * 1024 * 1024 else 1)"

type_synonym lexed = "sieve_error + sieve_token option \<times> string"

definition pushed :: "sieve_token_type \<Rightarrow> string \<Rightarrow> nat \<Rightarrow> string \<Rightarrow> lexed" where
  "pushed ty v i r = Inr (Some \<lparr>tk_type = ty, tk_value = v, tk_pos = i\<rparr>, r)"

definition lexBlockComment :: "nat \<Rightarrow> string \<Rightarrow> lexed" where
  "lexBlockComment i s =
     (case sub_index ''*/'' (tl s) of
        None \<Rightarrow> Inl (''unterminated block comment'', i)
      | Some k \<Rightarrow> Inr (None, drop (k + 2) (tl s)))"

definition lexTag :: "nat \<Rightarrow> string \<Rightarrow> lexed" where
  "lexTag i s =
     (let name = takeWhile IDENT_CHAR s in
      if length name = 0 then Inl (''empty tag'', i) else pushed ST_tag name i (dropWhile IDENT_CHAR s))"

definition lexNumber :: "nat \<Rightarrow> char \<Rightarrow> string \<Rightarrow> lexed" where
  "lexNumber i c s =
     (let num = takeWhile is_digit (c # s);
          r = dropWhile is_digit s;
          mult = number_unit r
      in pushed ST_number (show_nat (digits_value num * mult)) i (if mult = 1 then r else tl r))"

definition lexQuoted :: "nat \<Rightarrow> string \<Rightarrow> lexed" where
  "lexQuoted i s =
     (case sieve_quoted s of
        None \<Rightarrow> Inl (''unterminated string'', i)
      | Some (v, r) \<Rightarrow> pushed ST_string v i r)"

definition lexText :: "nat \<Rightarrow> string \<Rightarrow> lexed" where
  "lexText i s =
     (let r = snd (until_newline (drop 4 s)) in
      case sieve_multiline (i + (Suc (length s) - length r)) r [] of
        Inl e \<Rightarrow> Inl e
      | Inr (v, r1) \<Rightarrow> pushed ST_string v i r1)"

definition lexOne :: "nat \<Rightarrow> char \<Rightarrow> string \<Rightarrow> lexed" where
  "lexOne i c s =
     (if sieve_blank c then Inr (None, s)
      else if c = CHR ''#'' then Inr (None, dropWhile (\<lambda>x. x \<noteq> LF) s)
      else if c = CHR ''/'' \<and> startsWith ''*'' s then lexBlockComment i s
      else if sieve_punct c then pushed (ST_punct c) [c] i s
      else if c = CHR '':'' then lexTag i s
      else if is_digit c then lexNumber i c s
      else if c = QUOTE then lexQuoted i s
      else if startsWith ''text:'' (c # s) then lexText i s
      else if IDENT_START c then pushed ST_identifier (takeWhile IDENT_CHAR (c # s)) i (dropWhile IDENT_CHAR s)
      else Inl (''unexpected character '' @ json_char c, i))"

section \<open>Every pass consumes input\<close>

lemma sieve_quoted_length: "sieve_quoted s = Some (v, r) \<Longrightarrow> length r < length s"
  by (induction s arbitrary: v r rule: sieve_quoted.induct) (fastforce split: if_splits)+

lemma until_newline_length: "length (snd (until_newline s)) \<le> length s"
  using length_dropWhile_le [of "\<lambda>c. c \<noteq> LF" s] by (simp add: until_newline_def)

lemma sieve_multiline_length: "sieve_multiline i s out = Inr (v, r) \<Longrightarrow> length r \<le> length s"
proof (induction i s out rule: sieve_multiline.induct)
  case (1 i s out)
  obtain line r1 where u: "until_newline s = (line, r1)" by force
  then have "length r1 \<le> length s" using until_newline_length [of s] by simp
  then show ?case
    using "1.prems" "1.IH" [OF u [symmetric] refl refl]
    by (subst (asm) sieve_multiline.simps) (auto simp: u Let_def split: if_splits)
qed

lemma pushed_Inr: "pushed ty v i r = Inr (t, r1) \<longleftrightarrow> t = Some \<lparr>tk_type = ty, tk_value = v, tk_pos = i\<rparr> \<and> r1 = r"
  by (auto simp: pushed_def)

lemma lexText_length: "lexText i s = Inr (t, r) \<Longrightarrow> length r \<le> length s"
  using until_newline_length [of "drop 4 s"]
  by (auto simp: lexText_def Let_def pushed_Inr split: sum.splits dest!: sieve_multiline_length)

lemma lexOne_length:
  assumes "lexOne i c s = Inr (t, r)"
  shows "length r \<le> length s"
proof -
  have dw: "length (dropWhile P s) \<le> length s" "length (tl (dropWhile P s)) \<le> length s" for P
    using length_dropWhile_le [of P s] by simp_all
  have n: "lexNumber i c s = Inr (t, r) \<Longrightarrow> length r \<le> length s"
    using dw(1) [of is_digit] by (auto simp: lexNumber_def Let_def pushed_Inr split: if_splits)
  have q: "lexQuoted i s = Inr (t, r) \<Longrightarrow> length r \<le> length s"
    by (auto simp: lexQuoted_def pushed_Inr split: option.splits dest!: sieve_quoted_length)
  have g: "lexTag i s = Inr (t, r) \<Longrightarrow> length r \<le> length s"
    by (auto simp: lexTag_def Let_def pushed_Inr dw split: if_splits)
  have k: "lexBlockComment i s = Inr (t, r) \<Longrightarrow> length r \<le> length s"
    by (auto simp: lexBlockComment_def split: option.splits)
  show ?thesis
    using assms n q g k lexText_length unfolding lexOne_def
    by (auto simp: pushed_Inr dw simp del: startsWith.simps split: if_splits)
qed

function sieve_tokenize_from :: "nat \<Rightarrow> string \<Rightarrow> sieve_error + sieve_token list" where
  "sieve_tokenize_from i [] = Inr []"
| "sieve_tokenize_from i (c # s) =
     (case lexOne i c s of
        Inl e \<Rightarrow> Inl e
      | Inr (t, r) \<Rightarrow>
          (case sieve_tokenize_from (i + (Suc (length s) - length r)) r of
             Inl e \<Rightarrow> Inl e
           | Inr ts \<Rightarrow> Inr ((case t of None \<Rightarrow> [] | Some k \<Rightarrow> [k]) @ ts)))"
  by pat_completeness auto
termination
  by (relation "measure (\<lambda>(i, s). length s)") (auto dest!: lexOne_length)

declare sieve_tokenize_from.simps(2) [simp del]

definition sieve_tokenize :: "string \<Rightarrow> sieve_error + sieve_token list" where
  "sieve_tokenize src = sieve_tokenize_from 0 src"

section \<open>Printing\<close>

text \<open>A token as a script writer prints it: strings in quotes, and a blank after every token.\<close>

type_synonym plain_token = "sieve_token_type \<times> string"

fun show_token :: "plain_token \<Rightarrow> string" where
  "show_token (ST_tag, v) = CHR '':'' # v"
| "show_token (ST_string, v) = QUOTE # quote_escape v @ [QUOTE]"
| "show_token (ty, v) = v"

definition show_tokens :: "plain_token list \<Rightarrow> string" where
  "show_tokens ts = concat (map (\<lambda>t. show_token t @ [SP]) ts)"

fun token_ok :: "plain_token \<Rightarrow> bool" where
  "token_ok (ST_identifier, v) \<longleftrightarrow> v \<noteq> [] \<and> IDENT_START (hd v) \<and> list_all IDENT_CHAR v"
| "token_ok (ST_tag, v) \<longleftrightarrow> v \<noteq> [] \<and> list_all IDENT_CHAR v"
| "token_ok (ST_number, v) \<longleftrightarrow> (\<exists>n. v = show_nat n)"
| "token_ok (ST_string, v) \<longleftrightarrow> True"
| "token_ok (ST_punct c, v) \<longleftrightarrow> sieve_punct c \<and> v = [c]"

definition plain :: "sieve_token \<Rightarrow> plain_token" where
  "plain t = (tk_type t, tk_value t)"

lemma show_tokens_simps [simp]:
  "show_tokens [] = []" "show_tokens (t # ts) = show_token t @ SP # show_tokens ts"
  "show_tokens (ts @ us) = show_tokens ts @ show_tokens us"
  by (simp_all add: show_tokens_def)

lemma sieve_quoted_escape: "sieve_quoted (quote_escape v @ QUOTE # r) = Some (v, r)"
proof (induction v)
  case Nil
  show ?case by (cases r) auto
next
  case (Cons c v)
  obtain d ds where "quote_escape v @ QUOTE # r = d # ds" by (cases "quote_escape v") auto
  with Cons show ?case by auto
qed

lemma IDENT_CHAR_simps [simp]: "\<not> IDENT_CHAR SP" "\<not> IDENT_CHAR CHR '':''"
  by (simp_all add: IDENT_CHAR_def IDENT_START_def is_digit_def Let_def)

lemma IDENT_START_simps:
  assumes "IDENT_START c"
  shows "\<not> sieve_blank c" "c \<noteq> CHR ''#''" "c \<noteq> CHR ''/''" "\<not> sieve_punct c" "c \<noteq> CHR '':''" "\<not> is_digit c" "c \<noteq> QUOTE" "IDENT_CHAR c"
  using assms by (auto simp: IDENT_START_def IDENT_CHAR_def sieve_blank_def sieve_punct_def is_digit_def)

lemma digit_simps:
  assumes "is_digit c"
  shows "\<not> sieve_blank c" "c \<noteq> CHR ''#''" "c \<noteq> CHR ''/''" "\<not> sieve_punct c" "c \<noteq> CHR '':''"
  using assms by (auto simp: sieve_blank_def sieve_punct_def is_digit_def)

lemma word_end:
  assumes "list_all P v" "\<not> P SP"
  shows "takeWhile P (v @ SP # r) = v" "dropWhile P (v @ SP # r) = SP # r"
  using assms by (auto simp: takeWhile_append dropWhile_append list_all_iff)

lemma not_text_word:
  assumes "list_all IDENT_CHAR v"
  shows "\<not> startsWith ''text:'' (v @ SP # r)"
proof
  assume "startsWith ''text:'' (v @ SP # r)"
  then obtain u where u: "v @ SP # r = ''text'' @ CHR '':'' # u" by (auto simp: startsWith_iff)
  have "CHR '':'' \<in> set v \<or> SP \<in> set ''text''" 
  proof (cases "length v \<le> 4")
    case True
    then have "(v @ SP # r) ! length v = SP" "length v < 5" by simp_all
    moreover have "(v @ SP # r) ! length v = (''text'' @ CHR '':'' # u) ! length v" using u by simp
    ultimately show ?thesis by (cases "length v"; auto simp: nth_Cons' nth_append split: if_splits)
  next
    case False
    then have "(v @ SP # r) ! 4 = v ! 4" by (simp add: nth_append)
    then have "v ! 4 = CHR '':''" using u by simp
    then show ?thesis using False by (metis nth_mem not_le)
  qed
  then show False using assms by (auto simp: list_all_iff)
qed

lemma lexOne_token:
  assumes "token_ok t"
  obtains c s where "show_token t @ SP # r = c # s"
    "lexOne i c s = Inr (Some \<lparr>tk_type = fst t, tk_value = snd t, tk_pos = i\<rparr>, SP # r)"
  using assms
proof (cases t rule: token_ok.cases)
  case (1 v)
  then obtain c w where v: "v = c # w" "IDENT_START c" "list_all IDENT_CHAR w" using assms by (cases v) auto
  have "\<not> startsWith ''text:'' (c # w @ SP # r)" using not_text_word [of v r] 1 assms v by simp
  then show ?thesis
    using that [of c "w @ SP # r"] 1 v IDENT_START_simps [OF v(2)] word_end [OF v(3)]
    by (simp add: lexOne_def pushed_def del: startsWith.simps)
next
  case (2 v)
  then show ?thesis
    using that [of "CHR '':''" "v @ SP # r"] assms word_end [of IDENT_CHAR v]
    by (simp add: lexOne_def lexTag_def sieve_blank_def sieve_punct_def pushed_def)
next
  case (3 v)
  then obtain n where n: "v = show_nat n" using assms by auto
  then obtain c w where v: "v = c # w" by (metis neq_Nil_conv show_nat_not_Nil)
  have "list_all is_digit (c # w)" using show_nat_digits [of n] n v by metis
  then have d: "is_digit c" "list_all is_digit w" by simp_all
  have u: "number_unit (SP # r) = 1" by (simp add: number_unit_def)
  have t: "takeWhile is_digit (c # w @ SP # r) = c # w" "dropWhile is_digit (w @ SP # r) = SP # r"
    using d word_end [of is_digit w r] by (simp_all add: is_digit_def)
  have "digits_value (c # w) = n" using n v by (metis digits_value_show_nat)
  then have "lexNumber i c (w @ SP # r) = pushed ST_number (show_nat n) i (SP # r)"
    unfolding lexNumber_def t u Let_def by simp
  then have "lexOne i c (w @ SP # r) = Inr (Some \<lparr>tk_type = fst t, tk_value = snd t, tk_pos = i\<rparr>, SP # r)"
    using 3 n digit_simps [OF d(1)] d(1) by (simp add: lexOne_def pushed_def)
  then show ?thesis using that [of c "w @ SP # r"] 3 v by simp
next
  case (4 v)
  then show ?thesis
    using that [of QUOTE "quote_escape v @ QUOTE # SP # r"]
    by (simp add: lexOne_def lexQuoted_def sieve_quoted_escape pushed_def sieve_blank_def sieve_punct_def is_digit_def)
next
  case (5 c v)
  then show ?thesis
    using that [of c "SP # r"] assms
    by (auto simp: lexOne_def pushed_def sieve_blank_def sieve_punct_def)
qed

lemma tokenize_show:
  assumes "list_all token_ok ts"
  shows "\<exists>us. sieve_tokenize_from i (show_tokens ts) = Inr us \<and> map plain us = ts"
  using assms
proof (induction ts arbitrary: i)
  case (Cons t ts)
  let ?r = "show_tokens ts"
  obtain c s where s: "show_token t @ SP # ?r = c # s"
      "lexOne i c s = Inr (Some \<lparr>tk_type = fst t, tk_value = snd t, tk_pos = i\<rparr>, SP # ?r)"
    using lexOne_token [of t ?r i] Cons.prems by auto
  define j where "j = i + (Suc (length s) - length (SP # ?r))"
  obtain us where u: "sieve_tokenize_from (j + 1) ?r = Inr us" "map plain us = ts"
    using Cons.IH [of "j + 1"] Cons.prems by auto
  have "sieve_tokenize_from j (SP # ?r) = Inr us"
    using u(1) by (simp add: sieve_tokenize_from.simps(2) lexOne_def sieve_blank_def)
  then have "sieve_tokenize_from i (show_tokens (t # ts)) = Inr (\<lparr>tk_type = fst t, tk_value = snd t, tk_pos = i\<rparr> # us)"
    using s by (simp add: sieve_tokenize_from.simps(2) j_def)
  then show ?case using u(2) by (auto simp: plain_def)
qed simp

end
