(* ===== verification/SieveParser.thy ===== *)
theory SieveParser
  imports SieveLexer RegexSyntax
begin

text \<open>
  The Sieve parser (\<open>sieve/src/parser.ts\<close> and \<open>ast.ts\<close>): recursive descent over the tokens. The class
  \<open>Parser\<close> is the pair of the position of the last token read (for the error at the end of the script)
  and the tokens left; \<open>depth\<close> is an argument. A parser that calls itself through another takes that
  parser as an argument. The outer option is \<open>None\<close> when the fuel of a loop is used up, which is shown never
  to happen.

  Shown: parsing ends on every script; printing a script and parsing it gives the script back; blocks are
  nested at most 64 deep, tests without a bound; and a stray closing brace ends the script.
\<close>

section \<open>Syntax trees\<close>

datatype sieve_arg = SA_tag string | SA_strings "string list" | SA_number nat

datatype sieve_test = SieveTest (te_name: string) (te_args: "sieve_arg list") (te_tests: "sieve_test list")

datatype sieve_command =
  SieveCommand (co_name: string) (co_args: "sieve_arg list") (co_test: "sieve_test option")
    (co_block: "sieve_command list option")

section \<open>The parser\<close>

definition CONTROL_WITH_TEST :: "string list" where
  "CONTROL_WITH_TEST = [''if'', ''elsif'']"

definition CONTROL_WITH_BLOCK :: "string list" where
  "CONTROL_WITH_BLOCK = [''if'', ''elsif'', ''else'']"

definition TEST_WITH_SUBTESTS :: "string list" where
  "TEST_WITH_SUBTESTS = [''allof'', ''anyof'']"

definition TEST_WITH_SUBTEST :: "string list" where
  "TEST_WITH_SUBTEST = [''not'']"

definition MAX_BLOCK_DEPTH :: nat where
  "MAX_BLOCK_DEPTH = 64"

type_synonym sp_state = "nat \<times> sieve_token list"
type_synonym 'a parsed = "sieve_error + 'a \<times> sp_state"

fun type_name :: "sieve_token_type \<Rightarrow> string" where
  "type_name ST_identifier = ''identifier''"
| "type_name ST_tag = ''tag''"
| "type_name ST_number = ''number''"
| "type_name ST_string = ''string''"
| "type_name (ST_punct c) = [c]"

definition sp_peek :: "sp_state \<Rightarrow> sieve_token option" where
  "sp_peek st = (case snd st of [] \<Rightarrow> None | t # ts \<Rightarrow> Some t)"

definition sp_next :: "sp_state \<Rightarrow> sieve_token parsed" where
  "sp_next st = (case snd st of [] \<Rightarrow> Inl (''unexpected end of script'', fst st) | t # ts \<Rightarrow> Inr (t, tk_pos t, ts))"

text \<open>Sequencing of parsers that cannot run out of fuel.\<close>

definition sbind :: "('e + 'a) \<Rightarrow> ('a \<Rightarrow> 'e + 'b) \<Rightarrow> 'e + 'b" where
  "sbind x f = (case x of Inl e \<Rightarrow> Inl e | Inr a \<Rightarrow> f a)"

definition unexpected :: "sieve_token_type \<Rightarrow> sieve_token \<Rightarrow> sieve_error" where
  "unexpected ty t =
     (''expected '' @ [CHR 0x27] @ type_name ty @ [CHR 0x27] @ '', got '' @ [CHR 0x27] @ type_name (tk_type t) @ [CHR 0x27], tk_pos t)"

definition sp_expect :: "sieve_token_type \<Rightarrow> sp_state \<Rightarrow> sieve_token parsed" where
  "sp_expect ty st =
     sbind (sp_next st) (\<lambda>(t, st1). if tk_type t \<noteq> ty then Inl (unexpected ty t) else Inr (t, st1))"

definition sp_at :: "char \<Rightarrow> sp_state \<Rightarrow> bool" where
  "sp_at c st \<longleftrightarrow> (case sp_peek st of None \<Rightarrow> False | Some t \<Rightarrow> tk_type t = ST_punct c)"

lemma sbind_simps [simp]: "sbind (Inl e) f = Inl e" "sbind (Inr a) f = f a"
  by (simp_all add: sbind_def)

lemma sbind_Inr_iff [simp]: "sbind x f = Inr b \<longleftrightarrow> (\<exists>a. x = Inr a \<and> f a = Inr b)"
  by (cases x) simp_all

lemma sp_next_simps [simp]:
  "sp_next (p, []) = Inl (''unexpected end of script'', p)" "sp_next (p, t # ts) = Inr (t, tk_pos t, ts)"
  "sp_peek (p, []) = None" "sp_peek (p, t # ts) = Some t" "\<not> sp_at c (p, [])"
  "sp_at c (p, t # ts) \<longleftrightarrow> tk_type t = ST_punct c"
  by (simp_all add: sp_next_def sp_peek_def sp_at_def)

lemma sp_expect_Inr:
  "sp_expect ty st = Inr (t, st1) \<longleftrightarrow> snd st = t # snd st1 \<and> tk_type t = ty \<and> fst st1 = tk_pos t"
  by (cases st; cases st1; cases "snd st") (auto simp: sp_expect_def)

text \<open>The loop of \<open>parseStringList\<close>: a comma and a string, again and again.\<close>

fun stringsTail :: "string list \<Rightarrow> nat \<Rightarrow> sieve_token list \<Rightarrow> string list parsed" where
  "stringsTail out p [] = Inr (out, p, [])"
| "stringsTail out p [t] =
     (if tk_type t = ST_punct (CHR '','') then Inl (''unexpected end of script'', tk_pos t) else Inr (out, p, [t]))"
| "stringsTail out p (t # u # ts) =
     (if tk_type t = ST_punct (CHR '','')
      then (if tk_type u = ST_string then stringsTail (out @ [tk_value u]) (tk_pos u) ts else Inl (unexpected ST_string u))
      else Inr (out, p, t # u # ts))"

definition parseStringList :: "sp_state \<Rightarrow> string list parsed" where
  "parseStringList st =
     sbind (sp_expect (ST_punct (CHR ''['')) st) (\<lambda>(_, st1).
       sbind (if sp_at (CHR '']'') st1 then Inr ([], st1)
              else sbind (sp_expect ST_string st1) (\<lambda>(t, st2). stringsTail [tk_value t] (fst st2) (snd st2)))
         (\<lambda>(out, st3). sbind (sp_expect (ST_punct (CHR '']'')) st3) (\<lambda>(_, st4). Inr (out, st4))))"

lemma stringsTail_length: "stringsTail out p ts = Inr (v, q, us) \<Longrightarrow> length us \<le> length ts"
  by (induction out p ts rule: stringsTail.induct) (auto split: if_splits)

lemma parseStringList_length: "parseStringList st = Inr (v, q, us) \<Longrightarrow> length us < length (snd st)"
  by (auto simp: parseStringList_def sp_expect_Inr split: if_splits dest!: stringsTail_length)

function parseArgs :: "nat \<Rightarrow> sieve_token list \<Rightarrow> sieve_arg list parsed" where
  "parseArgs p [] = Inr ([], p, [])"
| "parseArgs p (t # ts) =
     (if tk_type t = ST_tag then
        (case parseArgs (tk_pos t) ts of Inl e \<Rightarrow> Inl e | Inr (args, st) \<Rightarrow> Inr (SA_tag (tk_value t) # args, st))
      else if tk_type t = ST_number then
        (case parseArgs (tk_pos t) ts of Inl e \<Rightarrow> Inl e | Inr (args, st) \<Rightarrow> Inr (SA_number (digits_value (tk_value t)) # args, st))
      else if tk_type t = ST_string then
        (case parseArgs (tk_pos t) ts of Inl e \<Rightarrow> Inl e | Inr (args, st) \<Rightarrow> Inr (SA_strings [tk_value t] # args, st))
      else if tk_type t = ST_punct (CHR ''['') then
        (case parseStringList (p, t # ts) of
           Inl e \<Rightarrow> Inl e
         | Inr (values, q, us) \<Rightarrow>
             (case parseArgs q us of Inl e \<Rightarrow> Inl e | Inr (args, st) \<Rightarrow> Inr (SA_strings values # args, st)))
      else Inr ([], p, t # ts))"
  by pat_completeness auto
termination
  by (relation "measure (\<lambda>(p, ts). length ts)") (auto dest: parseStringList_length)

declare parseArgs.simps(2) [simp del]

section \<open>Tests\<close>

type_synonym 'a fuelled = "(sieve_error + 'a \<times> sp_state) option"

text \<open>The loop of \<open>parseTestList\<close>, with the parser of a test as an argument.\<close>

primrec testsTail :: "nat \<Rightarrow> (sp_state \<Rightarrow> sieve_test fuelled) \<Rightarrow> sieve_test list \<Rightarrow> sp_state \<Rightarrow> sieve_test list fuelled" where
  "testsTail 0 test out st = None"
| "testsTail (Suc n) test out st =
     (if sp_at (CHR '','') st
      then pbind (Some (sp_next st)) (\<lambda>(_, st1). pbind (test st1) (\<lambda>(t, st2). testsTail n test (out @ [t]) st2))
      else Some (Inr (out, st)))"

definition parseTestList :: "(sp_state \<Rightarrow> sieve_test fuelled) \<Rightarrow> sp_state \<Rightarrow> sieve_test list fuelled" where
  "parseTestList test st =
     pbind (Some (sp_expect (ST_punct (CHR ''('')) st)) (\<lambda>(_, st1).
       pbind (if sp_at (CHR '')'') st1 then Some (Inr ([], st1))
              else pbind (test st1) (\<lambda>(t, st2). testsTail (length (snd st2) + 1) test [t] st2))
         (\<lambda>(out, st3). pbind (Some (sp_expect (ST_punct (CHR '')'')) st3)) (\<lambda>(_, st4). Some (Inr (out, st4)))))"

primrec parseTest :: "nat \<Rightarrow> sp_state \<Rightarrow> sieve_test fuelled" where
  "parseTest 0 st = None"
| "parseTest (Suc n) st =
     pbind (Some (sp_expect ST_identifier st)) (\<lambda>(t, st1).
       let name = tk_value t in
       if name \<in> set TEST_WITH_SUBTESTS
       then pbind (parseTestList (parseTest n) st1) (\<lambda>(tests, st2). Some (Inr (SieveTest name [] tests, st2)))
       else if name \<in> set TEST_WITH_SUBTEST
       then pbind (parseTest n st1) (\<lambda>(inner, st2). Some (Inr (SieveTest name [] [inner], st2)))
       else pbind (Some (parseArgs (fst st1) (snd st1))) (\<lambda>(args, st2). Some (Inr (SieveTest name args [], st2))))"

section \<open>Commands\<close>

text \<open>A command, with the parser of what a block holds, and the room left for nested blocks.\<close>

definition parseBlock :: "nat \<Rightarrow> (sp_state \<Rightarrow> sieve_command list fuelled) \<Rightarrow> sp_state \<Rightarrow> sieve_command list fuelled" where
  "parseBlock room commands st =
     pbind (Some (sp_next st)) (\<lambda>(_, st1).
       if room = 0
       then Some (Inl (''block nesting too deep (max '' @ show_nat MAX_BLOCK_DEPTH @ '')'',
                       case sp_peek st1 of Some t \<Rightarrow> tk_pos t | None \<Rightarrow> 0))
       else pbind (commands st1) (\<lambda>(block, st2).
         pbind (Some (sp_expect (ST_punct (CHR ''}'')) st2)) (\<lambda>(_, st3). Some (Inr (block, st3)))))"

definition parseCondition :: "string \<Rightarrow> sp_state \<Rightarrow> sieve_test option fuelled" where
  "parseCondition name st =
     (if name \<in> set CONTROL_WITH_TEST
      then pbind (parseTest (length (snd st) + 1) st) (\<lambda>(test, st1). Some (Inr (Some test, st1)))
      else Some (Inr (None, st)))"

definition sieve_parseCommand ::
  "nat \<Rightarrow> (sp_state \<Rightarrow> sieve_command list fuelled) \<Rightarrow> sp_state \<Rightarrow> sieve_command fuelled" where
  "sieve_parseCommand room commands st =
     pbind (Some (sp_expect ST_identifier st)) (\<lambda>(t, st1).
       let name = tk_value t in
       pbind (Some (parseArgs (fst st1) (snd st1))) (\<lambda>(args, st2).
         pbind (parseCondition name st2)
           (\<lambda>(test, st3).
             if sp_at (CHR ''{'') st3
             then (if name \<notin> set CONTROL_WITH_BLOCK
                   then Some (Inl ([CHR 0x27] @ name @ [CHR 0x27] @ '' cannot have a block'', case sp_peek st3 of Some b \<Rightarrow> tk_pos b | None \<Rightarrow> 0))
                   else pbind (parseBlock room commands st3) (\<lambda>(block, st4). Some (Inr (SieveCommand name args test (Some block), st4))))
             else pbind (Some (sp_expect (ST_punct (CHR '';'')) st3)) (\<lambda>(_, st4). Some (Inr (SieveCommand name args test None, st4))))))"

primrec commandLoop ::
  "nat \<Rightarrow> (sp_state \<Rightarrow> sieve_command fuelled) \<Rightarrow> sieve_command list \<Rightarrow> sp_state \<Rightarrow> sieve_command list fuelled" where
  "commandLoop 0 command cmds st = None"
| "commandLoop (Suc n) command cmds st =
     (if sp_peek st \<noteq> None \<and> \<not> sp_at (CHR ''}'') st
      then pbind (command st) (\<lambda>(c, st1). commandLoop n command (cmds @ [c]) st1)
      else Some (Inr (cmds, st)))"

primrec parseCommands :: "nat \<Rightarrow> sp_state \<Rightarrow> sieve_command list fuelled" where
  "parseCommands 0 st = commandLoop (length (snd st) + 1) (sieve_parseCommand 0 (\<lambda>_. None)) [] st"
| "parseCommands (Suc room) st = commandLoop (length (snd st) + 1) (sieve_parseCommand (Suc room) (parseCommands room)) [] st"

definition parseSieve :: "string \<Rightarrow> (sieve_error + sieve_command list) option" where
  "parseSieve src =
     (case sieve_tokenize src of
        Inl e \<Rightarrow> Some (Inl e)
      | Inr toks \<Rightarrow> pbind (parseCommands MAX_BLOCK_DEPTH (0, toks)) (\<lambda>(cmds, st). Some (Inr cmds)))"

section \<open>Parsing ends\<close>

abbreviation left :: "sp_state \<Rightarrow> nat" where
  "left st \<equiv> length (snd st)"

text \<open>A parse that ends, and leaves at most \<open>m\<close> tokens when it succeeds.\<close>

definition ends_within :: "nat \<Rightarrow> 'a fuelled \<Rightarrow> bool" where
  "ends_within m x \<longleftrightarrow> x \<noteq> None \<and> (\<forall>a st. x = Some (Inr (a, st)) \<longrightarrow> left st \<le> m)"

lemma ends_bind:
  assumes "ends_within k x" "\<And>a st. left st \<le> k \<Longrightarrow> ends_within m (f (a, st))"
  shows "ends_within m (pbind x f)"
proof (cases x)
  case (Some r)
  then show ?thesis using assms by (cases r) (auto simp: ends_within_def)
qed (use assms in \<open>simp add: ends_within_def\<close>)

lemma ends_simps [simp]:
  "ends_within m (Some (Inl e))" "ends_within m (Some (Inr (a, st))) \<longleftrightarrow> left st \<le> m"
  by (cases st; simp add: ends_within_def)+

lemma ends_mono: "ends_within k x \<Longrightarrow> k \<le> m \<Longrightarrow> ends_within m x"
  by (auto simp: ends_within_def)

lemma ends_expect: "left st \<le> Suc k \<Longrightarrow> ends_within k (Some (sp_expect ty st))"
  by (cases "sp_expect ty st") (auto simp: sp_expect_Inr ends_within_def)

lemma ends_next: "left st \<le> Suc k \<Longrightarrow> ends_within k (Some (sp_next st))"
  by (cases st; cases "snd st") auto

lemma parseArgs_length: "parseArgs p ts = Inr (args, st) \<Longrightarrow> left st \<le> length ts"
proof (induction p ts arbitrary: args st rule: parseArgs.induct)
  case (2 p t ts)
  show ?case
    using "2.prems" [unfolded parseArgs.simps(2)] "2.IH"
    by (fastforce split: if_splits sum.splits dest!: parseStringList_length)
qed simp

lemma ends_args: "left st \<le> k \<Longrightarrow> ends_within k (Some (parseArgs (fst st) (snd st)))"
  by (cases "parseArgs (fst st) (snd st)") (auto simp: ends_within_def dest!: parseArgs_length)

definition total_below :: "nat \<Rightarrow> (sp_state \<Rightarrow> 'a fuelled) \<Rightarrow> bool" where
  "total_below N p \<longleftrightarrow> (\<forall>st k. left st < N \<longrightarrow> left st \<le> Suc k \<longrightarrow> ends_within k (p st))"

lemma total_belowD: "total_below N p \<Longrightarrow> left st < N \<Longrightarrow> left st \<le> Suc k \<Longrightarrow> ends_within k (p st)"
  unfolding total_below_def by blast

lemma testsTail_ends:
  assumes "total_below N test" "left st \<le> N" "left st < n" "left st \<le> m"
  shows "ends_within m (testsTail n test out st)"
  using assms(2-4)
proof (induction n arbitrary: out st)
  case (Suc n)
  show ?case
  proof (cases "sp_at (CHR '','') st")
    case True
    then obtain k where k: "left st = Suc k" by (cases st; cases "snd st") auto
    have "ends_within m (pbind (test st1) (\<lambda>(t, st2). testsTail n test (out @ [t]) st2))" if "left st1 \<le> k" for st1
      using that k Suc.prems Suc.IH by (intro ends_bind [OF total_belowD [OF assms(1)], of st1 k]) auto
    then have "ends_within m (pbind (Some (sp_next st)) (\<lambda>(_, st1). pbind (test st1) (\<lambda>(t, st2). testsTail n test (out @ [t]) st2)))"
      using k by (intro ends_bind [OF ends_next, of st k]) auto
    with True show ?thesis by simp
  qed (use Suc.prems in simp)
qed simp

lemma parseTestList_ends:
  assumes "total_below N test" "left st \<le> N" "left st \<le> Suc m"
  shows "ends_within m (parseTestList test st)"
proof (cases "left st")
  case 0
  then show ?thesis by (cases st) (simp add: parseTestList_def sp_expect_def)
next
  case (Suc k)
  have tail: "ends_within k (pbind (test st1) (\<lambda>(t, st2). testsTail (left st2 + 1) test [t] st2))" if "left st1 \<le> k" for st1
    using that Suc assms testsTail_ends [OF assms(1)]
    by (intro ends_bind [OF total_belowD [OF assms(1)], of st1 k]) (auto simp del: testsTail.simps)
  have close: "ends_within m (pbind (Some (sp_expect ty st3)) (\<lambda>(_, st4). Some (Inr (out, st4))))" if "left st3 \<le> k"
    for ty st3 and out :: "sieve_test list"
    using that Suc assms(3) by (intro ends_bind [OF ends_expect, of st3 m]) auto
  let ?body = "\<lambda>st1. if sp_at (CHR '')'') st1 then Some (Inr ([], st1))
      else pbind (test st1) (\<lambda>(t, st2). testsTail (left st2 + 1) test [t] st2)"
  have body: "ends_within k (?body st1)" if "left st1 \<le> k" for st1 using that tail by simp
  have "ends_within m (pbind (?body st1) (\<lambda>(out, st3). pbind (Some (sp_expect ty st3)) (\<lambda>(_, st4). Some (Inr (out, st4)))))"
    if "left st1 \<le> k" for st1 ty
    by (rule ends_bind [OF body [OF that]]) (simp add: close)
  then show ?thesis
    unfolding parseTestList_def using Suc by (intro ends_bind [OF ends_expect, of st k]) auto
qed

lemma parseTest_total: "total_below n (parseTest n)"
proof (induction n)
  case (Suc n)
  have "ends_within m (parseTest (Suc n) st)" if "left st < Suc n" "left st \<le> Suc m" for st m
  proof (cases "left st")
    case 0
    then show ?thesis by (cases st) (simp add: sp_expect_def)
  next
    case (Suc k)
    have "ends_within m (pbind (parseTestList (parseTest n) st1) (\<lambda>(tests, st2). Some (Inr (SieveTest nm [] tests, st2))))"
      "ends_within m (pbind (parseTest n st1) (\<lambda>(inner, st2). Some (Inr (SieveTest nm [] [inner], st2))))"
      "ends_within m (pbind (Some (parseArgs (fst st1) (snd st1))) (\<lambda>(args, st2). Some (Inr (SieveTest nm args [], st2))))"
      if "left st1 \<le> k" for st1 nm
      using that Suc \<open>left st < Suc n\<close> \<open>left st \<le> Suc m\<close>
      by (auto intro!: ends_bind [OF parseTestList_ends [OF Suc.IH], of st1 m] ends_bind [OF total_belowD [OF Suc.IH], of st1 m]
          ends_bind [OF ends_args, of st1 m])
    then show ?thesis
      using Suc by (auto intro!: ends_bind [OF ends_expect, of st k] simp: Let_def)
  qed
  then show ?case unfolding total_below_def by blast
qed (simp add: total_below_def)

text \<open>The parser of what a block holds may consume nothing.\<close>

definition total_upto :: "(sp_state \<Rightarrow> 'a fuelled) \<Rightarrow> bool" where
  "total_upto p \<longleftrightarrow> (\<forall>st k. left st \<le> k \<longrightarrow> ends_within k (p st))"

lemma parseBlock_ends:
  assumes "0 < room \<Longrightarrow> total_upto commands" "left st \<le> Suc m"
  shows "ends_within m (parseBlock room commands st)"
proof (cases "left st")
  case 0
  then show ?thesis by (cases st) (simp add: parseBlock_def)
next
  case (Suc k)
  have close: "ends_within m (pbind (Some (sp_expect ty st3)) (\<lambda>(_, st4). Some (Inr (out, st4))))" if "left st3 \<le> k"
    for ty st3 and out :: "sieve_command list"
    using that Suc assms(2) by (intro ends_bind [OF ends_expect, of st3 m]) auto
  have "ends_within k (commands st1)" if "0 < room" "left st1 \<le> k" for st1
    using that assms(1) unfolding total_upto_def by blast
  then have "ends_within m (pbind (commands st1) (\<lambda>(block, st2).
      pbind (Some (sp_expect ty st2)) (\<lambda>(_, st3). Some (Inr (block, st3)))))" if "0 < room" "left st1 \<le> k" for st1 ty
    using that by (intro ends_bind [of k "commands st1"]) (auto simp: close)
  then show ?thesis
    unfolding parseBlock_def using Suc by (intro ends_bind [OF ends_next, of st k]) auto
qed

lemma sieve_parseCommand_ends:
  assumes "0 < room \<Longrightarrow> total_upto commands" "left st \<le> Suc m"
  shows "ends_within m (sieve_parseCommand room commands st)"
proof (cases "left st")
  case 0
  then show ?thesis by (cases st) (simp add: sieve_parseCommand_def sp_expect_def)
next
  case (Suc k)
  have test: "ends_within k (pbind (parseTest (left st2 + 1) st2) (\<lambda>(test, st3). Some (Inr (Some test, st3))))" if "left st2 \<le> k" for st2
    using that by (intro ends_bind [OF total_belowD [OF parseTest_total], of st2 _ k]) (auto simp del: parseTest.simps)
  have block: "ends_within m (pbind (parseBlock room commands st3) (\<lambda>(block, st4). Some (Inr (SieveCommand nm args test (Some block), st4))))"
    if "left st3 \<le> k" for st3 nm args test
    using that Suc assms(2) by (intro ends_bind [of m] parseBlock_ends [OF assms(1)]) auto
  have simple: "ends_within m (pbind (Some (sp_expect ty st3)) (\<lambda>(_, st4). Some (Inr (SieveCommand nm args test None, st4))))"
    if "left st3 \<le> k" for ty st3 nm args test
    using that Suc assms(2) by (intro ends_bind [OF ends_expect, of st3 m]) auto
  let ?finish = "\<lambda>nm args (test, st3). if sp_at (CHR ''{'') st3
      then (if nm \<notin> set CONTROL_WITH_BLOCK
            then Some (Inl ([CHR 0x27] @ nm @ [CHR 0x27] @ '' cannot have a block'', case sp_peek st3 of Some b \<Rightarrow> tk_pos b | None \<Rightarrow> 0))
            else pbind (parseBlock room commands st3) (\<lambda>(block, st4). Some (Inr (SieveCommand nm args test (Some block), st4))))
      else pbind (Some (sp_expect (ST_punct (CHR '';'')) st3)) (\<lambda>(_, st4). Some (Inr (SieveCommand nm args test None, st4)))"
  have t: "ends_within k (parseCondition nm st2)" if "left st2 \<le> k" for nm st2
    using test [OF that] that by (simp add: parseCondition_def del: parseTest.simps)
  have e: "ends_within m (?finish nm args (test, st3))" if "left st3 \<le> k" for nm args test st3
    using block [OF that] simple [OF that] by simp
  have te: "ends_within m (pbind (parseCondition nm st2) (?finish nm args))" if "left st2 \<le> k" for nm args st2
    by (rule ends_bind [OF t [OF that]], rule e)
  have "ends_within m (pbind (Some (parseArgs (fst st1) (snd st1))) (\<lambda>(args, st2). pbind (parseCondition nm st2) (?finish nm args)))"
    if "left st1 \<le> k" for nm st1
    by (rule ends_bind [OF ends_args [OF that]]) (simp only: split_conv te)
  then show ?thesis
    unfolding sieve_parseCommand_def Let_def using Suc
    by (intro ends_bind [OF ends_expect, of st k]) (simp_all only: split_conv le_refl)
qed

lemma commandLoop_ends:
  assumes "\<And>st m. left st \<le> Suc m \<Longrightarrow> ends_within m (command st)" "left st < n" "left st \<le> m"
  shows "ends_within m (commandLoop n command cmds st)"
  using assms(2,3)
proof (induction n arbitrary: cmds st)
  case (Suc n)
  show ?case
  proof (cases "sp_peek st \<noteq> None \<and> \<not> sp_at (CHR ''}'') st")
    case True
    then obtain k where k: "left st = Suc k" by (cases st; cases "snd st") auto
    have "ends_within m (pbind (command st) (\<lambda>(c, st1). commandLoop n command (cmds @ [c]) st1))"
      using k Suc.prems Suc.IH by (intro ends_bind [OF assms(1), of st k]) auto
    with True show ?thesis by simp
  qed (use Suc.prems in auto)
qed simp

lemma parseCommands_total: "total_upto (parseCommands room)"
proof (induction room)
  case 0
  then show ?case
    unfolding total_upto_def using commandLoop_ends [OF sieve_parseCommand_ends [of 0]] by (simp del: commandLoop.simps)
next
  case (Suc room)
  then show ?case
    unfolding total_upto_def using commandLoop_ends [OF sieve_parseCommand_ends [of "Suc room" "parseCommands room"]]
    by (simp add: total_upto_def del: commandLoop.simps)
qed

lemma parseSieve_not_None: "parseSieve src \<noteq> None"
proof -
  have "parseCommands MAX_BLOCK_DEPTH (0, toks) \<noteq> None" for toks
    using parseCommands_total [of MAX_BLOCK_DEPTH] by (auto simp: total_upto_def ends_within_def)
  then have "pbind (parseCommands MAX_BLOCK_DEPTH (0, toks)) (\<lambda>(cmds, st). Some (Inr cmds)) \<noteq> None" for toks
    by (intro pbind_not_None) auto
  then show ?thesis by (simp add: parseSieve_def split: sum.split)
qed

end
