(* ===== verification/SievePrint.thy ===== *)
theory SievePrint
  imports SieveParser
begin

text \<open>
  Scripts as a writer prints them, and that the parser reads them back. The tokens of a syntax tree are
  what the grammar of RFC 5228 says; the text is their printed form with a blank after each token.
\<close>

section \<open>Tokens of a script\<close>

abbreviation punct :: "char \<Rightarrow> plain_token" where
  "punct c \<equiv> (ST_punct c, [c])"

fun sep_tokens :: "plain_token list list \<Rightarrow> plain_token list" where
  "sep_tokens [] = []"
| "sep_tokens (x # xs) = x @ concat (map (\<lambda>y. punct (CHR '','') # y) xs)"

fun arg_tokens :: "sieve_arg \<Rightarrow> plain_token list" where
  "arg_tokens (SA_tag v) = [(ST_tag, v)]"
| "arg_tokens (SA_number n) = [(ST_number, show_nat n)]"
| "arg_tokens (SA_strings [v]) = [(ST_string, v)]"
| "arg_tokens (SA_strings vs) = punct (CHR ''['') # sep_tokens (map (\<lambda>v. [(ST_string, v)]) vs) @ [punct (CHR '']'')]"

primrec test_tokens :: "sieve_test \<Rightarrow> plain_token list" where
  "test_tokens (SieveTest nm args tests) =
     (ST_identifier, nm) # concat (map arg_tokens args) @
     (if nm \<in> set TEST_WITH_SUBTESTS
      then punct (CHR ''('') # sep_tokens (map test_tokens tests) @ [punct (CHR '')'')]
      else concat (map test_tokens tests))"

primrec command_tokens :: "sieve_command \<Rightarrow> plain_token list" where
  "command_tokens (SieveCommand nm args test block) =
     (ST_identifier, nm) # concat (map arg_tokens args) @ (case test of None \<Rightarrow> [] | Some t \<Rightarrow> test_tokens t) @
     (case map_option (map command_tokens) block of
        None \<Rightarrow> [punct (CHR '';'')]
      | Some bs \<Rightarrow> punct (CHR ''{'') # concat bs @ [punct (CHR ''}'')])"

definition print_script :: "sieve_command list \<Rightarrow> string" where
  "print_script cmds = show_tokens (concat (map command_tokens cmds))"

section \<open>Well-formed scripts\<close>

fun arg_ok :: "sieve_arg \<Rightarrow> bool" where
  "arg_ok (SA_tag v) \<longleftrightarrow> token_ok (ST_tag, v)"
| "arg_ok _ \<longleftrightarrow> True"

primrec test_ok :: "sieve_test \<Rightarrow> bool" where
  "test_ok (SieveTest nm args tests) \<longleftrightarrow>
     token_ok (ST_identifier, nm) \<and> list_all arg_ok args \<and> list_all (\<lambda>b. b) (map test_ok tests) \<and>
     (if nm \<in> set TEST_WITH_SUBTESTS then args = []
      else if nm \<in> set TEST_WITH_SUBTEST then args = [] \<and> length tests = 1 else tests = [])"

primrec command_ok :: "sieve_command \<Rightarrow> bool" where
  "command_ok (SieveCommand nm args test block) \<longleftrightarrow>
     token_ok (ST_identifier, nm) \<and> list_all arg_ok args \<and>
     (case test of None \<Rightarrow> nm \<notin> set CONTROL_WITH_TEST | Some t \<Rightarrow> nm \<in> set CONTROL_WITH_TEST \<and> test_ok t) \<and>
     (case map_option (map command_ok) block of None \<Rightarrow> True | Some bs \<Rightarrow> nm \<in> set CONTROL_WITH_BLOCK \<and> list_all (\<lambda>b. b) bs)"

text \<open>How deep the blocks of a command are nested.\<close>

primrec block_depth :: "sieve_command \<Rightarrow> nat" where
  "block_depth (SieveCommand nm args test block) =
     (case map_option (map block_depth) block of None \<Rightarrow> 0 | Some ds \<Rightarrow> Suc (foldr max ds 0))"

section \<open>Parsing printed tokens\<close>

abbreviation plains :: "sieve_token list \<Rightarrow> plain_token list" where
  "plains ts \<equiv> map plain ts"

definition args_stop :: "sieve_token list \<Rightarrow> bool" where
  "args_stop ts \<longleftrightarrow> (case ts of [] \<Rightarrow> True
     | t # _ \<Rightarrow> tk_type t \<noteq> ST_tag \<and> tk_type t \<noteq> ST_number \<and> tk_type t \<noteq> ST_string \<and> tk_type t \<noteq> ST_punct (CHR ''[''))"

lemma plain_eq: "plain t = (ty, v) \<longleftrightarrow> tk_type t = ty \<and> tk_value t = v"
  by (simp add: plain_def)

lemma plains_Cons: "plains ts = (ty, v) # us \<longleftrightarrow> (\<exists>t ts'. ts = t # ts' \<and> tk_type t = ty \<and> tk_value t = v \<and> plains ts' = us)"
  by (cases ts) (auto simp: plain_def)

lemma plains_append: "plains ts = us @ vs \<longleftrightarrow> (\<exists>a b. ts = a @ b \<and> plains a = us \<and> plains b = vs)"
  by (auto simp: map_eq_append_conv)

lemma expect_here: "tk_type t = ty \<Longrightarrow> sp_expect ty (p, t # ts) = Inr (t, tk_pos t, ts)"
  by (simp add: sp_expect_def)

lemma stringsTail_print:
  assumes "plains us = concat (map (\<lambda>v. [punct (CHR '',''), (ST_string, v)]) vs)"
  shows "\<exists>q. stringsTail out p (us @ t # rest) = stringsTail (out @ vs) q (t # rest)"
  using assms
proof (induction vs arbitrary: us out p)
  case (Cons v vs)
  then obtain a b us' where u: "us = a # b # us'" "tk_type a = ST_punct (CHR '','')" "tk_type b = ST_string" "tk_value b = v"
      "plains us' = concat (map (\<lambda>v. [punct (CHR '',''), (ST_string, v)]) vs)"
    by (auto simp: plains_Cons)
  then show ?case using Cons.IH [OF u(5), of "out @ [v]" "tk_pos b"] by simp
qed auto

lemma stringsTail_end: "tk_type t = ST_punct (CHR '']'') \<Longrightarrow> stringsTail out p (t # rest) = Inr (out, p, t # rest)"
  by (cases rest) auto

lemma parseStringList_print:
  assumes "plains us = punct (CHR ''['') # sep_tokens (map (\<lambda>v. [(ST_string, v)]) vs) @ [punct (CHR '']'')]"
  shows "\<exists>q. parseStringList (p, us @ rest) = Inr (vs, q, rest)"
proof -
  obtain a us1 c where u: "us = a # us1 @ [c]" "tk_type a = ST_punct (CHR ''['')" "tk_type c = ST_punct (CHR '']'')"
      "plains us1 = sep_tokens (map (\<lambda>v. [(ST_string, v)]) vs)"
    using assms by (auto simp: plains_Cons plains_append)
  show ?thesis
  proof (cases vs)
    case Nil
    then show ?thesis using u by (simp add: parseStringList_def expect_here)
  next
    case (Cons v ws)
    then obtain b us2 where b: "us1 = b # us2" "tk_type b = ST_string" "tk_value b = v"
        "plains us2 = concat (map (\<lambda>v. [punct (CHR '',''), (ST_string, v)]) ws)"
      using u(4) by (auto simp: plains_Cons comp_def)
    obtain q where "stringsTail [v] (tk_pos b) (us2 @ c # rest) = Inr (v # ws, q, c # rest)"
      using stringsTail_print [OF b(4), of "[v]" "tk_pos b" c rest] stringsTail_end [OF u(3)] by auto
    then show ?thesis using u b Cons by (simp add: parseStringList_def expect_here)
  qed
qed

lemma parseArgs_one:
  assumes "plains us = arg_tokens a"
  shows "\<exists>q. parseArgs p (us @ r) = (case parseArgs q r of Inl e \<Rightarrow> Inl e | Inr (args, st) \<Rightarrow> Inr (a # args, st))"
proof -
  have brackets: ?thesis
    if t: "plains us = punct (CHR ''['') # sep_tokens (map (\<lambda>v. [(ST_string, v)]) vs) @ [punct (CHR '']'')]" and "a = SA_strings vs" for vs
  proof -
    obtain q where "parseStringList (p, us @ r) = Inr (vs, q, r)" using parseStringList_print [OF t] by blast
    moreover obtain c us1 where "us = c # us1" "tk_type c = ST_punct (CHR ''['')" using t by (auto simp: plains_Cons)
    ultimately have "parseArgs p (us @ r) = (case parseArgs q r of Inl e \<Rightarrow> Inl e | Inr (args, st) \<Rightarrow> Inr (a # args, st))"
      unfolding that(2) by (simp add: parseArgs.simps(2))
    then show ?thesis by blast
  qed
  show ?thesis
    using assms
  proof (cases a rule: arg_tokens.cases)
    case "4_1"
    then show ?thesis using brackets [of "[]"] assms by simp
  next
    case "4_2"
    then obtain v w vs where "a = SA_strings (v # w # vs)" by blast
    then show ?thesis using brackets [of "v # w # vs"] assms by simp
  qed (use assms in \<open>auto simp: plains_Cons parseArgs.simps(2) cong: sum.case_cong prod.case_cong\<close>)
qed

lemma parseArgs_print:
  assumes "plains us = concat (map arg_tokens args)" "args_stop rest"
  shows "\<exists>q. parseArgs p (us @ rest) = Inr (args, q, rest)"
  using assms(1)
proof (induction args arbitrary: us p)
  case Nil
  then show ?case using assms(2) by (cases rest) (auto simp: args_stop_def parseArgs.simps(2))
next
  case (Cons a args)
  then obtain u1 u2 where u: "us = u1 @ u2" "plains u1 = arg_tokens a" "plains u2 = concat (map arg_tokens args)"
    by (auto simp: plains_append)
  obtain q where q: "parseArgs p (u1 @ u2 @ rest) =
      (case parseArgs q (u2 @ rest) of Inl e \<Rightarrow> Inl e | Inr (args, st) \<Rightarrow> Inr (a # args, st))"
    using parseArgs_one [OF u(2)] by blast
  obtain q' where "parseArgs q (u2 @ rest) = Inr (args, q', rest)" using Cons.IH [OF u(3)] by blast
  with q u(1) show ?case by simp
qed

section \<open>Tests\<close>

definition reads_test :: "nat \<Rightarrow> sieve_test \<Rightarrow> bool" where
  "reads_test n t \<longleftrightarrow> (\<forall>us p rest. plains us = test_tokens t \<longrightarrow> args_stop rest \<longrightarrow> length (us @ rest) < n \<longrightarrow>
     (\<exists>q. parseTest n (p, us @ rest) = Some (Inr (t, q, rest))))"

lemma reads_testD:
  "reads_test n t \<Longrightarrow> plains us = test_tokens t \<Longrightarrow> args_stop rest \<Longrightarrow> length (us @ rest) < n \<Longrightarrow>
     \<exists>q. parseTest n (p, us @ rest) = Some (Inr (t, q, rest))"
  unfolding reads_test_def by blast

lemma test_tokens_not_Nil: "test_tokens t \<noteq> []"
  by (cases t) simp

lemma args_stop_punct [simp]: "tk_type t = ST_punct c \<Longrightarrow> c \<noteq> CHR ''['' \<Longrightarrow> args_stop (t # rest)"
  by (simp add: args_stop_def)

lemma args_stop_identifier [simp]: "tk_type t = ST_identifier \<Longrightarrow> args_stop (t # rest)"
  by (simp add: args_stop_def)

lemma args_stop_test: "plains us = test_tokens t \<Longrightarrow> args_stop (us @ rest)"
  by (cases t) (auto simp: plains_Cons)

lemma testsTail_print:
  assumes "\<forall>t \<in> set tests. reads_test n t" "plains us = concat (map (\<lambda>t. punct (CHR '','') # test_tokens t) tests)"
    and "tk_type c = ST_punct (CHR '')'')" "length (us @ c # rest) \<le> n" "length us < m"
  shows "\<exists>q. testsTail m (parseTest n) out (p, us @ c # rest) = Some (Inr (out @ tests, q, c # rest))"
  using assms(1,2,4,5)
proof (induction tests arbitrary: us out p m)
  case Nil
  then show ?case using assms(3) by (cases m) auto
next
  case (Cons t tests)
  then obtain a u1 u2 where u: "us = a # u1 @ u2" "tk_type a = ST_punct (CHR '','')" "plains u1 = test_tokens t"
      "plains u2 = concat (map (\<lambda>t. punct (CHR '','') # test_tokens t) tests)"
    by (auto simp: plains_Cons plains_append)
  have stop: "args_stop (u2 @ c # rest)"
    using u(4) assms(3) by (cases tests) (auto simp: plains_Cons plains_append)
  obtain q where q: "parseTest n (tk_pos a, u1 @ u2 @ c # rest) = Some (Inr (t, q, u2 @ c # rest))"
    using Cons.prems(1,3) u(1,3) stop unfolding reads_test_def by fastforce
  obtain m' where m: "m = Suc m'" using Cons.prems(4) by (cases m) auto
  obtain q' where "testsTail m' (parseTest n) (out @ [t]) (q, u2 @ c # rest) = Some (Inr ((out @ [t]) @ tests, q', c # rest))"
    using Cons.IH [of u2 m' "out @ [t]" q] Cons.prems u m by auto
  then show ?case using u q m by (simp del: parseTest.simps)
qed

lemma parseTestList_print:
  assumes "\<forall>t \<in> set tests. reads_test n t"
    and "plains us = punct (CHR ''('') # sep_tokens (map test_tokens tests) @ [punct (CHR '')'')]" "length (us @ rest) \<le> n"
  shows "\<exists>q. parseTestList (parseTest n) (p, us @ rest) = Some (Inr (tests, q, rest))"
proof -
  obtain a us1 c where u: "us = a # us1 @ [c]" "tk_type a = ST_punct (CHR ''('')" "tk_type c = ST_punct (CHR '')'')"
      "plains us1 = sep_tokens (map test_tokens tests)"
    using assms(2) by (auto simp: plains_Cons plains_append)
  show ?thesis
  proof (cases tests)
    case Nil
    then show ?thesis using u by (simp add: parseTestList_def expect_here)
  next
    case (Cons t ts)
    then obtain u1 u2 where v: "us1 = u1 @ u2" "plains u1 = test_tokens t"
        "plains u2 = concat (map (\<lambda>t. punct (CHR '','') # test_tokens t) ts)"
      using u(4) by (auto simp: plains_append comp_def)
    have stop: "args_stop (u2 @ c # rest)"
      using v(3) u(3) by (cases ts) (auto simp: plains_Cons plains_append)
    obtain q where q: "parseTest n (tk_pos a, u1 @ u2 @ c # rest) = Some (Inr (t, q, u2 @ c # rest))"
      using assms(1,3) u(1) v(1,2) Cons stop unfolding reads_test_def by fastforce
    obtain q' where t: "testsTail (length (u2 @ c # rest) + 1) (parseTest n) [t] (q, u2 @ c # rest) = Some (Inr ([t] @ ts, q', c # rest))"
      using testsTail_print [of ts n u2 c rest "length (u2 @ c # rest) + 1" "[t]" q] assms(1,3) u(1,3) v Cons by auto
    have ne: "\<not> sp_at (CHR '')'') (tk_pos a, u1 @ u2 @ c # rest)"
      using v(2) by (cases t) (auto simp: plains_Cons)
    show ?thesis using u v q t ne Cons by (simp add: parseTestList_def expect_here del: parseTest.simps testsTail.simps)
  qed
qed

lemma parseTest_print: "test_ok t \<Longrightarrow> reads_test n t"
proof (induction t arbitrary: n)
  case (SieveTest nm args tests)
  show ?case
    unfolding reads_test_def
  proof (intro allI impI)
    fix us p rest
    assume us: "plains us = test_tokens (SieveTest nm args tests)" and stop: "args_stop rest" and len: "length (us @ rest) < n"
    obtain i us1 where u: "us = i # us1" "tk_type i = ST_identifier" "tk_value i = nm"
        "plains us1 = concat (map arg_tokens args) @ (if nm \<in> set TEST_WITH_SUBTESTS
          then punct (CHR ''('') # sep_tokens (map test_tokens tests) @ [punct (CHR '')'')] else concat (map test_tokens tests))"
      using us by (auto simp: plains_Cons)
    obtain n' where n: "n = Suc n'" using len by (cases n) auto
    have sub: "\<forall>t \<in> set tests. reads_test n' t" using SieveTest by (auto simp: list_all_iff)
    consider (list) "nm \<in> set TEST_WITH_SUBTESTS" "args = []" | (single) t where "nm \<notin> set TEST_WITH_SUBTESTS" "nm \<in> set TEST_WITH_SUBTEST"
        "args = []" "tests = [t]" | (plain) "nm \<notin> set TEST_WITH_SUBTESTS" "nm \<notin> set TEST_WITH_SUBTEST" "tests = []"
      using SieveTest.prems by (auto simp: length_Suc_conv split: if_splits)
    then show "\<exists>q. parseTest n (p, us @ rest) = Some (Inr (SieveTest nm args tests, q, rest))"
    proof cases
      case list
      then obtain q where "parseTestList (parseTest n') (tk_pos i, us1 @ rest) = Some (Inr (tests, q, rest))"
        using parseTestList_print [OF sub, of us1 rest "tk_pos i"] u len n by auto
      then show ?thesis using list u n by (simp add: expect_here)
    next
      case single
      then obtain q where "parseTest n' (tk_pos i, us1 @ rest) = Some (Inr (t, q, rest))"
        using sub u len n stop reads_testD [of n' t us1 rest "tk_pos i"] by auto
      then show ?thesis using single u n by (simp add: expect_here)
    next
      case plain
      then obtain q where "parseArgs (tk_pos i) (us1 @ rest) = Inr (args, q, rest)"
        using parseArgs_print [of us1 args rest "tk_pos i"] u stop by auto
      then show ?thesis using plain u n by (simp add: expect_here)
    qed
  qed
qed

section \<open>Commands\<close>

definition reads_command :: "nat \<Rightarrow> sieve_command \<Rightarrow> bool" where
  "reads_command room c \<longleftrightarrow> (\<forall>us p rest. plains us = command_tokens c \<longrightarrow>
     (\<exists>q. sieve_parseCommand room (case room of 0 \<Rightarrow> \<lambda>_. None | Suc r \<Rightarrow> parseCommands r) (p, us @ rest) = Some (Inr (c, q, rest))))"

lemma parseCommands_loop:
  "parseCommands room st =
     commandLoop (left st + 1) (sieve_parseCommand room (case room of 0 \<Rightarrow> \<lambda>_. None | Suc r \<Rightarrow> parseCommands r)) [] st"
  by (cases room) simp_all

lemma commandLoop_print:
  assumes "\<forall>c \<in> set cmds. reads_command room c" "plains us = concat (map command_tokens cmds)"
    and "rest = [] \<or> sp_at (CHR ''}'') (0, rest)" "length us < m"
  shows "\<exists>q. commandLoop m (sieve_parseCommand room (case room of 0 \<Rightarrow> \<lambda>_. None | Suc r \<Rightarrow> parseCommands r)) out (p, us @ rest) =
    Some (Inr (out @ cmds, q, rest))"
  using assms(1,2,4)
proof (induction cmds arbitrary: us out p m)
  case Nil
  have "sp_peek (p, rest) = None \<or> sp_at (CHR ''}'') (p, rest)" using assms(3) by (cases rest) auto
  then show ?case using Nil by (cases m) auto
next
  case (Cons c cmds)
  then obtain u1 u2 where u: "us = u1 @ u2" "plains u1 = command_tokens c" "plains u2 = concat (map command_tokens cmds)"
    by (auto simp: plains_append)
  obtain i u1' where i: "u1 = i # u1'" "tk_type i = ST_identifier" using u(2) by (cases c) (auto simp: plains_Cons)
  obtain q where q: "sieve_parseCommand room (case room of 0 \<Rightarrow> \<lambda>_. None | Suc r \<Rightarrow> parseCommands r) (p, u1 @ u2 @ rest) =
      Some (Inr (c, q, u2 @ rest))"
    using Cons.prems(1) u(2) unfolding reads_command_def by (metis list.set_intros(1))
  obtain m' where m: "m = Suc m'" using Cons.prems(3) by (cases m) auto
  obtain q' where "commandLoop m' (sieve_parseCommand room (case room of 0 \<Rightarrow> \<lambda>_. None | Suc r \<Rightarrow> parseCommands r)) (out @ [c]) (q, u2 @ rest) =
      Some (Inr ((out @ [c]) @ cmds, q', rest))"
    using Cons.IH [of u2 m' "out @ [c]" q] Cons.prems u i m by auto
  then show ?case using q u i m by simp
qed

lemma parseCommands_print:
  assumes "\<forall>c \<in> set cmds. reads_command room c" "plains us = concat (map command_tokens cmds)"
    and "rest = [] \<or> sp_at (CHR ''}'') (0, rest)"
  shows "\<exists>q. parseCommands room (p, us @ rest) = Some (Inr (cmds, q, rest))"
  using commandLoop_print [OF assms, of "length (us @ rest) + 1" "[]" p] parseCommands_loop [of room "(p, us @ rest)"]
  by (simp del: commandLoop.simps parseCommands.simps)

lemma parseBlock_print:
  assumes "\<forall>c \<in> set bs. reads_command room c"
    and "plains us = punct (CHR ''{'') # concat (map command_tokens bs) @ [punct (CHR ''}'')]"
  shows "\<exists>q. parseBlock (Suc room) (parseCommands room) (p, us @ rest) = Some (Inr (bs, q, rest))"
proof -
  obtain a us1 c where u: "us = a # us1 @ [c]" "tk_type c = ST_punct (CHR ''}'')" "plains us1 = concat (map command_tokens bs)"
    using assms(2) by (auto simp: plains_Cons plains_append)
  obtain q where "parseCommands room (tk_pos a, us1 @ c # rest) = Some (Inr (bs, q, c # rest))"
    using parseCommands_print [OF assms(1) u(3), of "c # rest"] u(2) by auto
  then show ?thesis using u by (simp add: parseBlock_def expect_here)
qed

lemma foldr_max_le: "foldr max ds (0::nat) \<le> k \<longleftrightarrow> (\<forall>d \<in> set ds. d \<le> k)"
  by (induction ds) auto

lemma sieve_parseCommand_print: "command_ok c \<Longrightarrow> block_depth c \<le> room \<Longrightarrow> reads_command room c"
proof (induction c arbitrary: room)
  case (SieveCommand nm args test block)
  show ?case
    unfolding reads_command_def
  proof (intro allI impI)
    fix us p rest assume us: "plains us = command_tokens (SieveCommand nm args test block)"
    let ?r = "case room of 0 \<Rightarrow> \<lambda>_. None | Suc r \<Rightarrow> parseCommands r"
    let ?e = "case map_option (map command_tokens) block of
        None \<Rightarrow> [punct (CHR '';'')] | Some bs \<Rightarrow> punct (CHR ''{'') # concat bs @ [punct (CHR ''}'')]"
    obtain i u1 u2 u3 where u: "us = i # u1 @ u2 @ u3" "tk_type i = ST_identifier" "tk_value i = nm"
        "plains u1 = concat (map arg_tokens args)" "plains u2 = (case test of None \<Rightarrow> [] | Some t \<Rightarrow> test_tokens t)" "plains u3 = ?e"
      using us by (auto simp: plains_Cons plains_append)
    have stop3: "args_stop (u3 @ rest)" using u(6) by (cases block) (auto simp: plains_Cons)
    have stop2: "args_stop (u2 @ u3 @ rest)"
      using u(5) stop3 args_stop_test by (cases test) auto
    obtain q1 where args: "parseArgs (tk_pos i) (u1 @ u2 @ u3 @ rest) = Inr (args, q1, u2 @ u3 @ rest)"
      using parseArgs_print [OF u(4) stop2] by blast
    have "\<exists>q2. parseCondition nm (q1, u2 @ u3 @ rest) = Some (Inr (test, q2, u3 @ rest))"
    proof (cases test)
      case (Some t)
      then obtain q where "parseTest (length (u2 @ u3 @ rest) + 1) (q1, u2 @ u3 @ rest) = Some (Inr (t, q, u3 @ rest))"
        using reads_testD [OF parseTest_print, of t u2 "u3 @ rest" "length (u2 @ u3 @ rest) + 1" q1] SieveCommand.prems u(5) stop3 by auto
      then show ?thesis using Some SieveCommand.prems by (simp add: parseCondition_def del: parseTest.simps)
    qed (use SieveCommand.prems u(5) in \<open>simp add: parseCondition_def\<close>)
    then obtain q2 where test: "parseCondition nm (q1, u2 @ u3 @ rest) = Some (Inr (test, q2, u3 @ rest))" by blast
    show "\<exists>q. sieve_parseCommand room ?r (p, us @ rest) = Some (Inr (SieveCommand nm args test block, q, rest))"
    proof (cases block)
      case None
      then obtain e where "u3 = [e]" "tk_type e = ST_punct (CHR '';'')" using u(6) by (auto simp: plains_Cons)
      then show ?thesis using u args test None by (simp add: sieve_parseCommand_def expect_here del: parseTest.simps)
    next
      case (Some bs)
      then obtain r where r: "room = Suc r" "\<forall>b \<in> set bs. block_depth b \<le> r"
        using SieveCommand.prems(2) by (cases room) (auto simp: foldr_max_le)
      have "\<forall>b \<in> set bs. reads_command r b"
        using SieveCommand.IH SieveCommand.prems(1) Some r(2) by (auto simp: list_all_iff)
      then obtain q where q: "parseBlock room ?r (q2, u3 @ rest) = Some (Inr (bs, q, rest))"
        using parseBlock_print [of bs r u3 q2 rest] u(6) Some r(1) by auto
      have at: "sp_at (CHR ''{'') (q2, u3 @ rest)" "nm \<in> set CONTROL_WITH_BLOCK"
        using u(6) Some SieveCommand.prems(1) by (auto simp: plains_Cons)
      show ?thesis using u args test Some q at by (simp add: sieve_parseCommand_def expect_here del: parseTest.simps)
    qed
  qed
qed

section \<open>What the parser yields\<close>

abbreviation lexed_ok :: "sieve_token list \<Rightarrow> bool" where
  "lexed_ok ts \<equiv> list_all (\<lambda>t. token_ok (plain t)) ts"

definition yields :: "('a \<Rightarrow> bool) \<Rightarrow> 'a fuelled \<Rightarrow> bool" where
  "yields P x \<longleftrightarrow> (\<forall>a st. x = Some (Inr (a, st)) \<longrightarrow> P a \<and> lexed_ok (snd st))"


lemma yields_simps [simp]:
  "yields P (Some (Inl e))" "yields P None" "yields P (Some (Inr (a, st))) \<longleftrightarrow> P a \<and> lexed_ok (snd st)"
  by (cases st; simp add: yields_def)+










definition command_fine :: "nat \<Rightarrow> sieve_command \<Rightarrow> bool" where
  "command_fine room c \<longleftrightarrow> command_ok c \<and> block_depth c \<le> room"





section \<open>What the lexer yields\<close>



section \<open>Printed tokens\<close>

lemma sep_tokens_ok: "list_all (list_all token_ok) tss \<Longrightarrow> list_all token_ok (sep_tokens tss)"
  by (cases tss) (auto simp: list_all_iff sieve_punct_def)

lemma arg_tokens_ok: "arg_ok a \<Longrightarrow> list_all token_ok (arg_tokens a)"
  by (cases a rule: arg_tokens.cases) (auto simp: sieve_punct_def list_all_iff)

lemma args_tokens_ok: "list_all arg_ok args \<Longrightarrow> list_all token_ok (concat (map arg_tokens args))"
  by (induction args) (auto simp: arg_tokens_ok)

lemma test_tokens_ok: "test_ok t \<Longrightarrow> list_all token_ok (test_tokens t)"
proof (induction t)
  case (SieveTest nm args tests)
  have "list_all (list_all token_ok) (map test_tokens tests)" using SieveTest by (auto simp: list_all_iff)
  then have "list_all token_ok (sep_tokens (map test_tokens tests))" "list_all token_ok (concat (map test_tokens tests))"
    using sep_tokens_ok by (blast, auto simp: list_all_iff)
  moreover have "list_all token_ok (concat (map arg_tokens args))" using SieveTest.prems args_tokens_ok by simp
  moreover have "token_ok (ST_identifier, nm)" using SieveTest.prems by simp
  ultimately show ?case by (simp add: sieve_punct_def del: token_ok.simps(1))
qed

lemma command_tokens_ok: "command_ok c \<Longrightarrow> list_all token_ok (command_tokens c)"
proof (induction c)
  case (SieveCommand nm args test block)
  have "list_all token_ok (concat (map arg_tokens args))" "token_ok (ST_identifier, nm)"
    using SieveCommand.prems args_tokens_ok by auto
  moreover have "list_all token_ok (case test of None \<Rightarrow> [] | Some t \<Rightarrow> test_tokens t)"
    using SieveCommand.prems test_tokens_ok by (auto split: option.splits)
  moreover have "list_all token_ok (case map_option (map command_tokens) block of
      None \<Rightarrow> [punct (CHR '';'')] | Some bs \<Rightarrow> punct (CHR ''{'') # concat bs @ [punct (CHR ''}'')])"
    using SieveCommand by (cases block) (auto simp: sieve_punct_def list_all_iff)
  ultimately show ?case by (simp del: token_ok.simps(1))
qed

lemma parse_printed:
  assumes "list_all (command_fine MAX_BLOCK_DEPTH) cmds" "list_all token_ok rest" "rest = [] \<or> hd rest = punct (CHR ''}'')"
  shows "parseSieve (print_script cmds @ show_tokens rest) = Some (Inr cmds)"
proof -
  have "list_all token_ok (concat (map command_tokens cmds))"
    using assms(1) command_tokens_ok by (induction cmds) (auto simp: command_fine_def)
  then obtain us where us: "sieve_tokenize_from 0 (show_tokens (concat (map command_tokens cmds) @ rest)) = Inr us"
      "plains us = concat (map command_tokens cmds) @ rest"
    using tokenize_show [of "concat (map command_tokens cmds) @ rest" 0] assms(2) by auto
  then obtain u1 u2 where u: "us = u1 @ u2" "plains u1 = concat (map command_tokens cmds)" "plains u2 = rest"
    by (auto simp: plains_append)
  have "\<forall>c \<in> set cmds. reads_command MAX_BLOCK_DEPTH c"
    using assms(1) sieve_parseCommand_print by (auto simp: list_all_iff command_fine_def)
  moreover have "u2 = [] \<or> sp_at (CHR ''}'') (0, u2)" using assms(3) u(3) by (cases u2) (auto simp: plain_eq)
  ultimately obtain q where "parseCommands MAX_BLOCK_DEPTH (0, u1 @ u2) = Some (Inr (cmds, q, u2))"
    using parseCommands_print [of cmds MAX_BLOCK_DEPTH u1 u2 0] u(2) by blast
  then show ?thesis
    using us(1) u(1) by (simp add: parseSieve_def sieve_tokenize_def print_script_def del: parseCommands.simps)
qed

section \<open>Properties\<close>





text \<open>C26: A stray brace ends the script. After any well-formed script, a closing brace that closes
  nothing is accepted, and everything behind it, whatever it says, is dropped without an error.\<close>

theorem sieve_stray_brace:
  assumes "list_all (command_fine MAX_BLOCK_DEPTH) cmds" "list_all token_ok junk"
  shows "parseSieve (print_script cmds @ show_tokens (punct (CHR ''}'') # junk)) = Some (Inr cmds)"
  using assms by (intro parse_printed) (simp_all add: sieve_punct_def)

theorem sieve_stray_brace_witness:
  "parseSieve (print_script [SieveCommand ''keep'' [] None None] @ show_tokens [punct (CHR ''}''), (ST_identifier, ''discard'')]) =
     Some (Inr [SieveCommand ''keep'' [] None None])"
  by (rule sieve_stray_brace)
    (simp_all add: command_fine_def CONTROL_WITH_TEST_def IDENT_CHAR_def IDENT_START_def)

text \<open>
  The limit on nesting is one on blocks: tests nest without a bound, and with them the recursion
  of the parser.
\<close>

primrec nots :: "nat \<Rightarrow> sieve_test" where
  "nots 0 = SieveTest ''true'' [] []"
| "nots (Suc n) = SieveTest ''not'' [] [nots n]"

lemma sieve_tests_nest_freely:
  "parseSieve (print_script [SieveCommand ''if'' [] (Some (nots n)) (Some [])]) = Some (Inr [SieveCommand ''if'' [] (Some (nots n)) (Some [])])"
proof -
  have "test_ok (nots n)"
    by (induction n) (simp_all add: TEST_WITH_SUBTESTS_def TEST_WITH_SUBTEST_def IDENT_CHAR_def IDENT_START_def)
  then have "list_all (command_fine MAX_BLOCK_DEPTH) [SieveCommand ''if'' [] (Some (nots n)) (Some [])]"
    by (simp add: command_fine_def MAX_BLOCK_DEPTH_def CONTROL_WITH_TEST_def CONTROL_WITH_BLOCK_def IDENT_CHAR_def IDENT_START_def)
  then show ?thesis using parse_printed [of _ "[]"] by simp
qed

end
