(* ===== verification/Calendar.thy ===== *)
theory Calendar
  imports Prelude
begin

text \<open>
  The proleptic Gregorian calendar behind JavaScript's \<open>Date\<close>: a time is a number of milliseconds since
  1970, a day a number of days. Shown: the day made from the year, month and date of a day is that day.
\<close>

section \<open>The calendar\<close>

definition msPerDay :: int where
  "msPerDay = 86400000"

definition dayFromYear :: "int \<Rightarrow> int" where
  "dayFromYear y = 365 * (y - 1970) + (y - 1969) div 4 - (y - 1901) div 100 + (y - 1601) div 400"

definition isLeap :: "int \<Rightarrow> bool" where
  "isLeap y \<longleftrightarrow> y mod 4 = 0 \<and> (y mod 100 \<noteq> 0 \<or> y mod 400 = 0)"

text \<open>
  \<open>YearFromTime\<close>: the year whose first day is the last one not after the day. An era of 400 years has
  146097 days, so the year is sought among the 400 of the era.
\<close>

definition yearFromDay :: "int \<Rightarrow> int" where
  "yearFromDay d =
     (let era = (d - dayFromYear 2000) div 146097;
          base = 2000 + 400 * era
      in base + int (length (takeWhile (\<lambda>k. dayFromYear (base + int k) \<le> d) [1..<400])))"

definition monthStarts :: "int \<Rightarrow> int list" where
  "monthStarts y = (let l = (if isLeap y then 1 else 0) in
     [0, 31, 59 + l, 90 + l, 120 + l, 151 + l, 181 + l, 212 + l, 243 + l, 273 + l, 304 + l, 334 + l])"

definition monthFromDay :: "int \<Rightarrow> nat" where
  "monthFromDay d =
     (let y = yearFromDay d; k = d - dayFromYear y
      in length (takeWhile (\<lambda>s. s \<le> k) (tl (monthStarts y))))"

definition dateFromDay :: "int \<Rightarrow> int" where
  "dateFromDay d = (let y = yearFromDay d in d - dayFromYear y - monthStarts y ! monthFromDay d + 1)"

definition weekDay :: "int \<Rightarrow> nat" where
  "weekDay d = nat ((d + 4) mod 7)"

text \<open>
  \<open>Date.UTC\<close> for a month that is one of the twelve; a year below 100 is one of the twentieth century.
\<close>

definition dateUTC :: "int \<Rightarrow> nat \<Rightarrow> int \<Rightarrow> int \<Rightarrow> int \<Rightarrow> int \<Rightarrow> int" where
  "dateUTC year month day hours minutes seconds =
     (let y = (if 0 \<le> year \<and> year \<le> 99 then 1900 + year else year)
      in (dayFromYear y + monthStarts y ! month + day - 1) * msPerDay + hours * 3600000 + minutes * 60000 + seconds * 1000)"

section \<open>Printing\<close>

definition show_int :: "int \<Rightarrow> string" where
  "show_int n = (if n < 0 then ''-'' @ show_nat (nat (- n)) else show_nat (nat n))"

definition padStart :: "nat \<Rightarrow> string \<Rightarrow> string" where
  "padStart w s = replicate (w - length s) (CHR ''0'') @ s"

definition pad :: "int \<Rightarrow> string" where
  "pad n = padStart 2 (show_nat (nat \<bar>n\<bar>))"

definition MONTHS :: "string list" where
  "MONTHS = [''Jan'', ''Feb'', ''Mar'', ''Apr'', ''May'', ''Jun'', ''Jul'', ''Aug'', ''Sep'', ''Oct'', ''Nov'', ''Dec'']"

section \<open>The parts of a day\<close>

lemma dayFromYear_era: "dayFromYear (y + 400 * e) = dayFromYear y + 146097 * e"
proof -
  have "y + 400 * e - 1969 = (y - 1969) + (100 * e) * 4" "y + 400 * e - 1901 = (y - 1901) + (4 * e) * 100"
    "y + 400 * e - 1601 = (y - 1601) + e * 400" by simp_all
  then have "(y + 400 * e - 1969) div 4 = (y - 1969) div 4 + 100 * e"
    "(y + 400 * e - 1901) div 100 = (y - 1901) div 100 + 4 * e"
    "(y + 400 * e - 1601) div 400 = (y - 1601) div 400 + e"
    by (simp_all only: div_mult_self1 [of 4] div_mult_self1 [of 100] div_mult_self1 [of 400])
  then show ?thesis by (simp add: dayFromYear_def)
qed

lemma div_Suc_int:
  assumes "0 < (n :: int)" "(m - 1) mod n = 0"
  shows "(y + 1 - m) div n = (y - m) div n + (if y mod n = 0 then 1 else 0)"
proof -
  obtain k where "m - 1 = n * k" using assms(2) by (auto simp: mod_eq_0_iff_dvd dvd_def)
  then have k: "m = n * k + 1" by simp
  define x where "x = y - m"
  have m: "(x + 1) mod n = y mod n" using mod_mult_self2 [of "y - n * k" n k] by (simp add: x_def k)
  have x: "x = n * (x div n) + x mod n" "0 \<le> x mod n" "x mod n < n" using assms(1) by simp_all
  have "(x + 1) div n = x div n + (if (x + 1) mod n = 0 then 1 else 0)"
  proof (cases "x mod n + 1 = n")
    case True
    then have "x + 1 = n * (x div n + 1) + 0" using x(1) by (simp only: distrib_left)
    then show ?thesis using int_div_pos_eq [of "x + 1" n] int_mod_pos_eq [of "x + 1" n] assms(1) by fastforce
  next
    case False
    then have "x + 1 = n * (x div n) + (x mod n + 1)" "x mod n + 1 < n" using x by simp_all
    then have "(x + 1) div n = x div n" "(x + 1) mod n = x mod n + 1"
      using int_div_pos_eq [of "x + 1" n] int_mod_pos_eq [of "x + 1" n] x(2) by fastforce+
    then show ?thesis using x(2) by simp
  qed
  then show ?thesis unfolding m by (simp add: x_def algebra_simps)
qed

lemma leap_year_sum:
  fixes a b c y :: int
  assumes "r \<longrightarrow> q" "q \<longrightarrow> p"
    and "a' = a + (if p then 1 else 0)" "b' = b + (if q then 1 else 0)" "c' = c + (if r then 1 else 0)"
  shows "365 * (y + 1 - 1970) + a' - b' + c' = 365 * (y - 1970) + a - b + c + (if p \<and> (\<not> q \<or> r) then 366 else 365)"
  using assms by (cases p; cases q; cases r) simp_all

lemma dayFromYear_Suc: "dayFromYear (y + 1) = dayFromYear y + (if isLeap y then 366 else 365)"
proof -
  have d: "y mod 400 = 0 \<longrightarrow> y mod 100 = 0" "y mod 100 = 0 \<longrightarrow> y mod 4 = 0"
    using dvd_trans [of 100 400 y] dvd_trans [of 4 100 y] by (simp_all add: mod_eq_0_iff_dvd)
  have "(y + 1 - 1969) div 4 = (y - 1969) div 4 + (if y mod 4 = 0 then 1 else 0)"
    "(y + 1 - 1901) div 100 = (y - 1901) div 100 + (if y mod 100 = 0 then 1 else 0)"
    "(y + 1 - 1601) div 400 = (y - 1601) div 400 + (if y mod 400 = 0 then 1 else 0)"
    by (rule div_Suc_int; simp)+
  then show ?thesis unfolding dayFromYear_def isLeap_def by (rule leap_year_sum [OF d])
qed

lemma takeWhile_upt_bounds:
  assumes "n = length (takeWhile P [1..<m])"
  shows "n = 0 \<or> P n" "Suc n < m \<Longrightarrow> \<not> P (Suc n)" "n < max m 1"
proof -
  have l: "n \<le> m - 1" using length_takeWhile_le [of P "[1..<m]"] assms by simp
  show "n = 0 \<or> P n"
  proof (cases n)
    case (Suc k)
    then have "takeWhile P [1..<m] ! k = n" using assms l by (simp add: takeWhile_nth)
    moreover have "P (takeWhile P [1..<m] ! k)"
      using Suc assms by (metis lessI nth_mem set_takeWhileD)
    ultimately show ?thesis by simp
  qed simp
  show "Suc n < m \<Longrightarrow> \<not> P (Suc n)" using nth_length_takeWhile [of P "[1..<m]"] assms by simp
  show "n < max m 1" using l by auto
qed

lemma yearFromDay_bounds: "dayFromYear (yearFromDay d) \<le> d \<and> d < dayFromYear (yearFromDay d + 1)"
proof -
  define era where "era = (d - dayFromYear 2000) div 146097"
  define base where "base = 2000 + 400 * era"
  define n where "n = length (takeWhile (\<lambda>k. dayFromYear (base + int k) \<le> d) [1..<400])"
  have y: "yearFromDay d = base + int n" by (simp add: yearFromDay_def Let_def era_def base_def n_def)
  have lo: "dayFromYear base \<le> d" and hi: "d < dayFromYear (base + 400)"
    using dayFromYear_era [of 2000 era] dayFromYear_era [of 2000 "era + 1"]
    by (simp_all add: base_def era_def algebra_simps)
  note b = takeWhile_upt_bounds [OF n_def]
  have "dayFromYear (base + int n) \<le> d" using b(1) lo by auto
  moreover have "d < dayFromYear (base + int n + 1)"
    proof (cases "Suc n < 400")
    case True
    with b(2) show ?thesis by (simp add: algebra_simps)
  next
    case False
    with b(3) have "int n = 399" by simp
    with hi show ?thesis by (simp add: add.commute)
  qed
  ultimately show ?thesis by (simp add: y)
qed

lemma month_date_bounds: "monthFromDay d < 12 \<and> 1 \<le> dateFromDay d \<and> dateFromDay d \<le> 31"
proof -
  let ?y = "yearFromDay d"
  define k where "k = d - dayFromYear ?y"
  have "0 \<le> k" "k < (if isLeap ?y then 366 else 365)"
    using yearFromDay_bounds [of d] dayFromYear_Suc [of ?y] by (simp_all add: k_def split: if_splits)
  then show ?thesis
    by (auto simp: monthFromDay_def dateFromDay_def Let_def monthStarts_def simp flip: k_def)
qed

text \<open>The day made from its parts is the day.\<close>

lemma dateUTC_parts:
  assumes "\<not> (0 \<le> yearFromDay d \<and> yearFromDay d \<le> 99)"
  shows "dateUTC (yearFromDay d) (monthFromDay d) (dateFromDay d) h m s = d * msPerDay + h * 3600000 + m * 60000 + s * 1000"
  using assms by (auto simp: dateUTC_def dateFromDay_def Let_def)

end
