(* ===== verification/SieveVars.thy ===== *)
theory SieveVars
  imports SievePrint Glob Calendar
begin

text \<open>
  Variables and date parts of Sieve (\<open>sieve/src/variables.ts\<close>, \<open>date-parts.ts\<close>). The class
  \<open>SieveVariables\<close> is the record \<open>sieve_vars\<close>. A time is an integer number of milliseconds; the calendar of
  \<open>Date\<close> is written out from the day numbers of the ECMAScript standard. \<open>Date.parse\<close>, whose format is
  left to the implementation, is an argument.

  Shown: a value quoted with \<open>:quotewildcard\<close> matches exactly itself.
\<close>

section \<open>Variables\<close>

definition VAR_NAME :: "string \<Rightarrow> bool" where
  "VAR_NAME name \<longleftrightarrow>
     list_all (\<lambda>w. w \<noteq> [] \<and> IDENT_START (hd w) \<and> list_all (\<lambda>c. IDENT_START c \<or> is_digit c) w) (split_char DOT name)"

definition isValidVariableName :: "string \<Rightarrow> bool" where
  "isValidVariableName name = VAR_NAME name"

definition MODIFIER_ORDER :: "string list" where
  "MODIFIER_ORDER = [''lower'', ''upper'', ''lowerfirst'', ''upperfirst'', ''quotewildcard'', ''length'']"

definition isModifier :: "string \<Rightarrow> bool" where
  "isModifier name \<longleftrightarrow> name \<in> set MODIFIER_ORDER"

definition quoteWildcard :: "string \<Rightarrow> string" where
  "quoteWildcard v = concat (map (\<lambda>c. if c = BACKSLASH \<or> c = CHR ''*'' \<or> c = CHR ''?'' then [BACKSLASH, c] else [c]) v)"

definition applyModifier :: "string \<Rightarrow> string \<Rightarrow> string" where
  "applyModifier m v =
     (if m = ''lower'' then toLowerCase v
      else if m = ''upper'' then toUpperCase v
      else if m = ''lowerfirst'' then (if length v = 0 then v else toLowerCase [hd v] @ tl v)
      else if m = ''upperfirst'' then (if length v = 0 then v else toUpperCase [hd v] @ tl v)
      else if m = ''quotewildcard'' then quoteWildcard v
      else if m = ''length'' then show_nat (length v)
      else v)"

definition applyModifiers :: "string \<Rightarrow> string list \<Rightarrow> string" where
  "applyModifiers value mods = foldl (\<lambda>v m. if m \<in> set mods then applyModifier m v else v) value MODIFIER_ORDER"

record sieve_vars =
  sv_vars :: "string \<Rightarrow> string option"
  sv_matches :: "string list"

definition vars_new :: sieve_vars where
  "vars_new = \<lparr>sv_vars = (\<lambda>_. None), sv_matches = []\<rparr>"

definition vars_set :: "string \<Rightarrow> string \<Rightarrow> sieve_vars \<Rightarrow> sieve_vars" where
  "vars_set name value v = v\<lparr>sv_vars := (sv_vars v)(toLowerCase name := Some value)\<rparr>"

definition setMatches :: "string \<Rightarrow> string list \<Rightarrow> sieve_vars \<Rightarrow> sieve_vars" where
  "setMatches whole caps v = v\<lparr>sv_matches := whole # caps\<rparr>"

definition vars_get :: "string \<Rightarrow> sieve_vars \<Rightarrow> string" where
  "vars_get name v =
     (let lower = toLowerCase name in
      if all_digits lower
      then (if digits_value lower < length (sv_matches v) then sv_matches v ! digits_value lower else [])
      else case sv_vars v lower of Some x \<Rightarrow> x | None \<Rightarrow> [])"

text \<open>The loop of \<open>expand\<close>, from where the last variable ended.\<close>

function expand :: "sieve_vars \<Rightarrow> string \<Rightarrow> string" where
  "expand v txt =
     (case sub_index ''${'' txt of
        None \<Rightarrow> txt
      | Some start \<Rightarrow>
          (case indexOf (CHR ''}'') (drop (start + 2) txt) of
             None \<Rightarrow> txt
           | Some k \<Rightarrow>
               (let name = take k (drop (start + 2) txt) in
                take start txt @
                (if all_digits name \<or> isValidVariableName name then vars_get name v else ''${'' @ name @ ''}'') @
                expand v (drop (start + 2 + k + 1) txt))))"
  by pat_completeness auto
termination
  by (relation "measure (\<lambda>(v, txt). length txt)") (auto dest!: sub_index_bound)

declare expand.simps [simp del]

section \<open>Date parts\<close>

definition DATE_PARTS :: "string list" where
  "DATE_PARTS = [''year'', ''month'', ''day'', ''date'', ''julian'', ''hour'', ''minute'', ''second'', ''time'', ''iso8601'',
     ''std11'', ''zone'', ''weekday'']"

definition DAYS :: "string list" where
  "DAYS = [''Sun'', ''Mon'', ''Tue'', ''Wed'', ''Thu'', ''Fri'', ''Sat'']"

definition parseZoneOffset :: "string \<Rightarrow> int option" where
  "parseZoneOffset zone =
     (case trim zone of
        [s, a, b, c, d] \<Rightarrow>
          if (s = CHR ''+'' \<or> s = CHR ''-'') \<and> list_all is_digit [a, b, c, d]
          then let minutes = int (digits_value [a, b]) * 60 + int (digits_value [c, d])
               in Some (if s = CHR ''-'' then - minutes else minutes)
          else None
      | _ \<Rightarrow> None)"

definition formatZone :: "int \<Rightarrow> string" where
  "formatZone off =
     (let a = \<bar>off\<bar> in (if off < 0 then ''-'' else ''+'') @ pad (a div 60) @ pad (a mod 60))"

definition showDate :: "int \<Rightarrow> string" where
  "showDate d = padStart 4 (show_int (yearFromDay d)) @ ''-'' @ pad (int (monthFromDay d) + 1) @ ''-'' @ pad (dateFromDay d)"

definition showTime :: "int \<Rightarrow> string" where
  "showTime t =
     (let r = t mod msPerDay in
      pad (r div 3600000) @ '':'' @ pad (r div 60000 mod 60) @ '':'' @ pad (r div 1000 mod 60))"

definition datePartOf :: "int \<Rightarrow> int \<Rightarrow> string \<Rightarrow> string" where
  "datePartOf ms off part =
     (let t = ms + off * 60000;
          d = t div msPerDay;
          r = t mod msPerDay
      in if part = ''year'' then padStart 4 (show_int (yearFromDay d))
         else if part = ''month'' then pad (int (monthFromDay d) + 1)
         else if part = ''day'' then pad (dateFromDay d)
         else if part = ''date'' then showDate d
         else if part = ''julian'' then show_int (d + 40587)
         else if part = ''hour'' then pad (r div 3600000)
         else if part = ''minute'' then pad (r div 60000 mod 60)
         else if part = ''second'' then pad (r div 1000 mod 60)
         else if part = ''time'' then showTime t
         else if part = ''iso8601'' then
           showDate d @ ''T'' @ showTime t @
           (if off = 0 then ''Z'' else take 3 (formatZone off) @ '':'' @ drop 3 (formatZone off))
         else if part = ''std11'' then
           DAYS ! weekDay d @ '', '' @ show_int (dateFromDay d) @ '' '' @ MONTHS ! monthFromDay d @ '' '' @
           show_int (yearFromDay d) @ '' '' @ showTime t @ '' '' @ formatZone off
         else if part = ''zone'' then formatZone off
         else show_nat (weekDay d))"

text \<open>
  \<open>parseHeaderDate\<close>: the time from \<open>Date.parse\<close>, and the numeric zone \<open>/([+-]\d{4})\s*$/\<close> at the end of the text.
\<close>

definition endZone :: "string \<Rightarrow> int" where
  "endZone txt =
     (let r = rev (dropWhile is_space (rev txt));
          z = drop (length r - 5) r
      in if length r < 5 then 0 else case parseZoneOffset z of Some m \<Rightarrow> m | None \<Rightarrow> 0)"

definition parseHeaderDate :: "(string \<Rightarrow> int option) \<Rightarrow> string \<Rightarrow> (int \<times> int) option" where
  "parseHeaderDate dateParse value =
     (let txt = trim value in
      case dateParse txt of None \<Rightarrow> None | Some ms \<Rightarrow> Some (ms, endZone txt))"

section \<open>Quoting wildcards\<close>

lemma lower_char_cases: "lower_char c = c \<or> 97 \<le> code (lower_char c)"
  by (auto simp: lower_char_def Let_def)

lemma lower_char_eq: "code d < 97 \<Longrightarrow> lower_char d = d \<Longrightarrow> lower_char c = d \<longleftrightarrow> c = d"
  using lower_char_cases [of c] by auto

lemma lower_char_special [simp]:
  "lower_char c = CHR ''*'' \<longleftrightarrow> c = CHR ''*''" "lower_char c = CHR ''?'' \<longleftrightarrow> c = CHR ''?''"
  "lower_char c = BACKSLASH \<longleftrightarrow> c = BACKSLASH"
  by (rule lower_char_eq; simp add: lower_char_def)+

lemma lower_char_idem [simp]: "lower_char (lower_char c) = lower_char c"
  by (auto simp: lower_char_def Let_def)

lemma quoteWildcard_Cons:
  "quoteWildcard (c # v) =
     (if c = BACKSLASH \<or> c = CHR ''*'' \<or> c = CHR ''?'' then [BACKSLASH, c] else [c]) @ quoteWildcard v"
  by (simp add: quoteWildcard_def)

lemma toLowerCase_quoteWildcard: "toLowerCase (quoteWildcard v) = quoteWildcard (toLowerCase v)"
  by (induction v) (auto simp: quoteWildcard_Cons toLowerCase_def quoteWildcard_def)

lemma plainTokens_quoteWildcard: "plainTokens SIEVE_MATCH_SYNTAX (quoteWildcard v) = map Literal v"
  by (induction v) (auto simp: quoteWildcard_Cons SIEVE_MATCH_SYNTAX_def quoteWildcard_def)

text \<open>A quoted value is a pattern that matches the value and nothing else, but for case.\<close>

lemma quoteWildcard_matches:
  "globMatch (toLowerCase (quoteWildcard w)) v SIEVE_MATCH_SYNTAX \<longleftrightarrow> toLowerCase v = toLowerCase w"
proof -
  have "map (litOf SIEVE_MATCH_SYNTAX) (toLowerCase w) = toLowerCase w"
    by (simp add: litOf_def SIEVE_MATCH_SYNTAX_def toLowerCase_def)
  then show ?thesis
    by (simp add: globMatch_iff toLowerCase_quoteWildcard plainTokens_quoteWildcard gm_all_Literals)
       (simp add: hayOf_def SIEVE_MATCH_SYNTAX_def)
qed

end
