(* ===== verification/SieveRun.thy ===== *)
theory SieveRun
  imports SieveVars RegexMatch
begin

text \<open>
  The Sieve interpreter (\<open>sieve/src/interpret.ts\<close>): a parsed script is run on the envelope and the headers of a
  message and gives the delivery instructions. A thrown \<open>SieveError\<close> is a value of \<open>run_error\<close>. The mutable
  \<open>ExecState\<close> is the record \<open>exec_state\<close>, passed on. \<open>Date.parse\<close> and \<open>Date.now\<close> are fields of the
  environment. The outer option is \<open>None\<close> when the fuel of the parser or of nested includes is used up, which
  is shown never to happen.

  Theory \<open>SieveTheorems\<close> shows that every script ends, one that includes itself too, that a script without
  \<open>discard\<close> loses no message, and that the instructions are well formed.
\<close>

section \<open>Data\<close>

record sieve_env =
  se_headers :: "string \<Rightarrow> string list option"
  se_envelopeFrom :: string
  se_envelopeTo :: "string list"
  se_size :: nat
  se_mailboxes :: "string list option"
  se_subaddressDelimiter :: "string option"
  se_bodyText :: "string option"
  se_bodyRaw :: "string option"
  se_bodyParts :: "(string \<times> string) list option"
  se_spamScore :: "int option"
  se_now :: "int option"
  se_scripts :: "string \<Rightarrow> string option"
  se_dateNow :: int
  se_dateParse :: "string \<Rightarrow> int option"

record vacation_request =
  va_reason :: string
  va_days :: nat
  va_subject :: "string option"
  va_from :: "string option"
  va_addresses :: "string list"
  va_handle :: "string option"
  va_mime :: bool

record sieve_result =
  sr_keep :: bool
  sr_fileinto :: "string list"
  sr_fileintoCreate :: "string list"
  sr_redirect :: "string list"
  sr_flags :: "string list"
  sr_discarded :: bool
  sr_reject :: "string option"
  sr_vacation :: "vacation_request option"

text \<open>
  The errors: of the parser, a \<open>SieveError\<close> with its message, the message of a rejected \<open>:regex\<close> pattern, and the
  \<open>TypeError\<close> of reading a test that is not there.
\<close>

datatype run_error = RE_syntax sieve_error | RE_sieve string | RE_regex string | RE_type

type_synonym 'a outcome = "(run_error + 'a) option"

abbreviation throw :: "string \<Rightarrow> 'a outcome" where
  "throw msg \<equiv> Some (Inl (RE_sieve msg))"

abbreviation ok :: "'a \<Rightarrow> 'a outcome" where
  "ok x \<equiv> Some (Inr x)"

record exec_state =
  es_fileinto :: "string list"
  es_fileintoCreate :: "string list"
  es_redirect :: "string list"
  es_flags :: "string list"
  es_canceledImplicit :: bool
  es_explicitKeep :: bool
  es_reject :: "string option"
  es_vacation :: "vacation_request option"
  es_stopped :: bool
  es_returned :: bool
  es_included :: "string list"
  es_depth :: nat
  es_vars :: sieve_vars
  es_varsEnabled :: bool

definition MAX_INCLUDE_DEPTH :: nat where
  "MAX_INCLUDE_DEPTH = 3"

text \<open>A JavaScript set keeps the order in which its members came.\<close>

definition set_add :: "'a \<Rightarrow> 'a list \<Rightarrow> 'a list" where
  "set_add x xs = (if x \<in> set xs then xs else xs @ [x])"

definition new_Set :: "'a list \<Rightarrow> 'a list" where
  "new_Set xs = fold set_add xs []"

definition set_delete :: "'a \<Rightarrow> 'a list \<Rightarrow> 'a list" where
  "set_delete x xs = filter (\<lambda>y. y \<noteq> x) xs"

section \<open>Arguments\<close>

fun positionalStringGroups :: "sieve_arg list \<Rightarrow> string list \<Rightarrow> string list list" where
  "positionalStringGroups [] valueTags = []"
| "positionalStringGroups [SA_tag n] valueTags = []"
| "positionalStringGroups (SA_tag n # a # args) valueTags =
     (if n \<in> set valueTags
      then (case a of SA_tag _ \<Rightarrow> positionalStringGroups (a # args) valueTags
            | _ \<Rightarrow> positionalStringGroups args valueTags)
      else positionalStringGroups (a # args) valueTags)"
| "positionalStringGroups (SA_strings vs # args) valueTags = vs # positionalStringGroups args valueTags"
| "positionalStringGroups (SA_number n # args) valueTags = positionalStringGroups args valueTags"

definition positionalStrings :: "sieve_arg list \<Rightarrow> string list \<Rightarrow> string list" where
  "positionalStrings args valueTags = concat (positionalStringGroups args valueTags)"

definition VACATION_VALUE_TAGS :: "string list" where
  "VACATION_VALUE_TAGS = [''days'', ''subject'', ''from'', ''addresses'', ''handle'']"

definition DEFAULT_VACATION_DAYS :: nat where
  "DEFAULT_VACATION_DAYS = 7"

definition opt_hd :: "'a list \<Rightarrow> 'a option" where
  "opt_hd xs = (case xs of [] \<Rightarrow> None | x # _ \<Rightarrow> Some x)"

text \<open>The argument right after the first tag of that name.\<close>

fun after_tag :: "sieve_arg list \<Rightarrow> string \<Rightarrow> sieve_arg option" where
  "after_tag [] name = None"
| "after_tag (a # args) name = (if a = SA_tag name then opt_hd args else after_tag args name)"

definition tagString :: "sieve_arg list \<Rightarrow> string \<Rightarrow> string option" where
  "tagString args name = (case after_tag args name of Some (SA_strings vs) \<Rightarrow> opt_hd vs | _ \<Rightarrow> None)"

definition tagStrings :: "sieve_arg list \<Rightarrow> string \<Rightarrow> string list" where
  "tagStrings args name = (case after_tag args name of Some (SA_strings vs) \<Rightarrow> vs | _ \<Rightarrow> [])"

definition tagNumber :: "sieve_arg list \<Rightarrow> string \<Rightarrow> nat option" where
  "tagNumber args name = (case after_tag args name of Some (SA_number n) \<Rightarrow> Some n | _ \<Rightarrow> None)"

definition hasTag :: "sieve_arg list \<Rightarrow> string \<Rightarrow> bool" where
  "hasTag args name \<longleftrightarrow> SA_tag name \<in> set args"

fun stringArgs :: "sieve_arg list \<Rightarrow> string list list" where
  "stringArgs [] = []"
| "stringArgs (SA_strings vs # args) = vs # stringArgs args"
| "stringArgs (a # args) = stringArgs args"

definition firstStrings :: "sieve_arg list \<Rightarrow> string list" where
  "firstStrings args = (case stringArgs args of [] \<Rightarrow> [] | vs # _ \<Rightarrow> vs)"

fun firstNumber :: "sieve_arg list \<Rightarrow> nat option" where
  "firstNumber [] = None"
| "firstNumber (SA_number n # args) = Some n"
| "firstNumber (a # args) = firstNumber args"

definition flagArgs :: "sieve_arg list \<Rightarrow> string list" where
  "flagArgs args = concat (map (\<lambda>s. filter (\<lambda>x. length x > 0) (split_ws s)) (concat (stringArgs args)))"

datatype address_part = AP_all | AP_localpart | AP_domain | AP_user | AP_detail

definition addressPart :: "sieve_arg list \<Rightarrow> address_part" where
  "addressPart args =
     (if hasTag args ''localpart'' then AP_localpart
      else if hasTag args ''domain'' then AP_domain
      else if hasTag args ''user'' then AP_user
      else if hasTag args ''detail'' then AP_detail
      else AP_all)"

text \<open>\<open>/<([^>]*)>/\<close>: the text between the first \<open><\<close> and the next \<open>>\<close>.\<close>

definition inAngles :: "string \<Rightarrow> string option" where
  "inAngles part =
     (case indexOf (CHR ''<'') part of
        None \<Rightarrow> None
      | Some i \<Rightarrow> map_option (\<lambda>k. take k (drop (Suc i) part)) (indexOf (CHR ''>'') (drop (Suc i) part)))"

definition extractAddresses :: "string \<Rightarrow> string list" where
  "extractAddresses header =
     filter (\<lambda>addr. CHR ''@'' \<in> set addr)
       (map (\<lambda>part. trim (case inAngles part of Some a \<Rightarrow> a | None \<Rightarrow> part)) (split_char (CHR '','') header))"

definition lastIndexOf :: "'a \<Rightarrow> 'a list \<Rightarrow> nat option" where
  "lastIndexOf c s = map_option (\<lambda>k. length s - Suc k) (indexOf c (rev s))"

definition addrPart :: "string \<Rightarrow> address_part \<Rightarrow> string \<Rightarrow> string" where
  "addrPart addr part delimiter =
     (case lastIndexOf (CHR ''@'') addr of
        None \<Rightarrow> addr
      | Some at \<Rightarrow>
          (let local = take at addr in
           case part of
             AP_all \<Rightarrow> addr
           | AP_domain \<Rightarrow> drop (Suc at) addr
           | AP_localpart \<Rightarrow> local
           | _ \<Rightarrow>
               (case (if length delimiter > 0 then sub_index delimiter local else None) of
                  None \<Rightarrow> (if part = AP_user then local else [])
                | Some idx \<Rightarrow> (if part = AP_user then take idx local else drop (idx + length delimiter) local))))"

definition TEST_VALUE_TAGS :: "string list" where
  "TEST_VALUE_TAGS = [''comparator'', ''value'', ''count'']"

definition BODY_VALUE_TAGS :: "string list" where
  "BODY_VALUE_TAGS = [''comparator'', ''content'', ''value'', ''count'']"

definition DATE_VALUE_TAGS :: "string list" where
  "DATE_VALUE_TAGS = [''comparator'', ''zone'', ''value'', ''count'']"

definition opt_or :: "'a option \<Rightarrow> 'a \<Rightarrow> 'a" where
  "opt_or x d = (case x of Some v \<Rightarrow> v | None \<Rightarrow> d)"

definition bodyValues :: "sieve_arg list \<Rightarrow> sieve_env \<Rightarrow> string list" where
  "bodyValues args env =
     (if hasTag args ''raw'' then [opt_or (se_bodyRaw env) []]
      else if hasTag args ''content'' then
        (let wanted = map toLowerCase (tagStrings args ''content'') in
         map snd (filter (\<lambda>(ty, _). list_ex (\<lambda>w. w = [] \<or> startsWith w (toLowerCase ty)) wanted)
           (opt_or (se_bodyParts env) [])))
      else [opt_or (se_bodyText env) []])"

definition zoneOffsetArg :: "sieve_arg list \<Rightarrow> int outcome" where
  "zoneOffsetArg args =
     (case tagString args ''zone'' of
        None \<Rightarrow> ok 0
      | Some z \<Rightarrow> (case parseZoneOffset z of None \<Rightarrow> throw (''invalid :zone value: '' @ z) | Some off \<Rightarrow> ok off))"

section \<open>Matching\<close>

datatype relation = R_gt | R_ge | R_lt | R_le | R_eq | R_ne

datatype match_kind = MK_is | MK_contains | MK_matches | MK_regex | MK_value relation | MK_count relation

definition relationOf :: "string \<Rightarrow> relation option" where
  "relationOf r =
     (if r = ''gt'' then Some R_gt else if r = ''ge'' then Some R_ge else if r = ''lt'' then Some R_lt
      else if r = ''le'' then Some R_le else if r = ''eq'' then Some R_eq else if r = ''ne'' then Some R_ne else None)"

definition matchRelation :: "(relation \<Rightarrow> match_kind) \<Rightarrow> string \<Rightarrow> match_kind outcome" where
  "matchRelation k rel =
     (case relationOf (toLowerCase rel) of
        None \<Rightarrow> throw (''unknown relational operator: '' @ rel) | Some r \<Rightarrow> ok (k r))"

definition matchType :: "sieve_arg list \<Rightarrow> match_kind outcome" where
  "matchType args =
     (if hasTag args ''contains'' then ok MK_contains
      else if hasTag args ''matches'' then ok MK_matches
      else if hasTag args ''regex'' then ok MK_regex
      else case tagString args ''value'' of
             Some rel \<Rightarrow> matchRelation MK_value rel
           | None \<Rightarrow>
               (case tagString args ''count'' of
                  Some rel \<Rightarrow> matchRelation MK_count rel
                | None \<Rightarrow> ok MK_is))"

definition isNumericComparator :: "sieve_arg list \<Rightarrow> bool" where
  "isNumericComparator args \<longleftrightarrow> toLowerCase (opt_or (tagString args ''comparator'') []) = ''i;ascii-numeric''"

text \<open>
  Comparison of strings by code units, and of numbers, where a text that does not start with a digit counts as
  infinite (\<open>None\<close>). \<open>parseInt\<close> is exact for the numbers below \<open>2 ^ 53\<close>.
\<close>

fun str_less :: "string \<Rightarrow> string \<Rightarrow> bool" where
  "str_less xs [] = False"
| "str_less [] (y # ys) = True"
| "str_less (x # xs) (y # ys) \<longleftrightarrow> code x < code y \<or> (x = y \<and> str_less xs ys)"

definition leadingNumber :: "string \<Rightarrow> nat option" where
  "leadingNumber s =
     (let ds = takeWhile is_digit (trim s) in if ds = [] then None else Some (digits_value ds))"

definition num_less :: "nat option \<Rightarrow> nat option \<Rightarrow> bool" where
  "num_less a b = (case (a, b) of (Some m, Some n) \<Rightarrow> m < n | (Some _, None) \<Rightarrow> True | (None, _) \<Rightarrow> False)"

definition compared :: "string \<Rightarrow> string \<Rightarrow> bool \<Rightarrow> int" where
  "compared a b numeric =
     (if numeric
      then (if leadingNumber a = leadingNumber b then 0
            else if num_less (leadingNumber a) (leadingNumber b) then -1 else 1)
      else (if a = b then 0 else if str_less a b then -1 else 1))"

definition relate :: "relation \<Rightarrow> string \<Rightarrow> string \<Rightarrow> bool \<Rightarrow> bool" where
  "relate rel a b numeric =
     (let c = compared a b numeric in
      case rel of
        R_gt \<Rightarrow> c > 0 | R_ge \<Rightarrow> c \<ge> 0 | R_lt \<Rightarrow> c < 0 | R_le \<Rightarrow> c \<le> 0 | R_eq \<Rightarrow> c = 0 | R_ne \<Rightarrow> c \<noteq> 0)"

text \<open>The captures of the first pair of a value and a key that matches, values first.\<close>

fun firstMatch :: "('k \<Rightarrow> string \<Rightarrow> string list option) \<Rightarrow> 'k list \<Rightarrow> string list \<Rightarrow> (string \<times> string list) option" where
  "firstMatch f keys [] = None"
| "firstMatch f keys (v # vs) =
     (case List.find (\<lambda>k. f k v \<noteq> None) keys of
        Some k \<Rightarrow> Some (v, opt_or (f k v) [])
      | None \<Rightarrow> firstMatch f keys vs)"

definition globKey :: "string \<Rightarrow> string \<Rightarrow> string list option" where
  "globKey k v =
     (let r = globCaptures (toLowerCase k) v SIEVE_MATCH_SYNTAX in if matched r then Some (captures r) else None)"

definition regexKey :: "compiled_regex \<Rightarrow> string \<Rightarrow> string list option" where
  "regexKey re v = (let r = execRegex re v in if rm_matched r then Some (rm_captures r) else None)"

fun compileKeys :: "string list \<Rightarrow> compiled_regex list outcome" where
  "compileKeys [] = ok []"
| "compileKeys (k # ks) =
     (case compileRegex k True of
        None \<Rightarrow> None
      | Some (Inl msg) \<Rightarrow> Some (Inl (RE_regex msg))
      | Some (Inr re) \<Rightarrow> pbind (compileKeys ks) (\<lambda>res. ok (re # res)))"

text \<open>What a match leaves in the variables: \<open>vars\<close> is \<open>undefined\<close> when the extension is off.\<close>

definition noteMatch :: "bool \<Rightarrow> sieve_vars \<Rightarrow> (string \<times> string list) option \<Rightarrow> bool \<times> sieve_vars" where
  "noteMatch on vars m =
     (case m of None \<Rightarrow> (False, vars) | Some (v, caps) \<Rightarrow> (True, if on then setMatches v caps vars else vars))"

definition anyMatch ::
  "string list \<Rightarrow> string list \<Rightarrow> match_kind \<Rightarrow> bool \<Rightarrow> bool \<Rightarrow> sieve_vars \<Rightarrow> (bool \<times> sieve_vars) outcome" where
  "anyMatch values keys kind numeric on vars =
     (case kind of
        MK_count rel \<Rightarrow> ok (list_ex (\<lambda>k. relate rel (show_nat (length values)) k True) keys, vars)
      | MK_value rel \<Rightarrow>
          ok (list_ex (\<lambda>v. list_ex (\<lambda>k. relate rel (if numeric then v else toLowerCase v)
                (if numeric then k else toLowerCase k) numeric) keys) values, vars)
      | MK_matches \<Rightarrow>
          (if on then ok (noteMatch on vars (firstMatch globKey keys values))
           else ok (list_ex (\<lambda>v. list_ex (\<lambda>k. compileGlob (toLowerCase k) SIEVE_MATCH_SYNTAX (toLowerCase v)) keys) values, vars))
      | MK_regex \<Rightarrow>
          pbind (compileKeys keys) (\<lambda>compiled. ok (noteMatch on vars (firstMatch regexKey compiled values)))
      | MK_is \<Rightarrow> ok (list_ex (\<lambda>v. list_ex (\<lambda>k. toLowerCase v = toLowerCase k) keys) values, vars)
      | MK_contains \<Rightarrow>
          ok (list_ex (\<lambda>v. list_ex (\<lambda>k. sub_index (toLowerCase k) (toLowerCase v) \<noteq> None) keys) values, vars))"

section \<open>Tests\<close>

definition withExpanded :: "bool \<Rightarrow> sieve_vars \<Rightarrow> sieve_arg list \<Rightarrow> sieve_arg list" where
  "withExpanded on vars args =
     (if \<not> on then args
      else map (\<lambda>a. case a of SA_strings vs \<Rightarrow> SA_strings (map (expand vars) vs) | _ \<Rightarrow> a) args)"

definition nth_group :: "string list list \<Rightarrow> nat \<Rightarrow> string list" where
  "nth_group strs i = (if i < length strs then strs ! i else [])"

definition headersOf :: "sieve_env \<Rightarrow> string \<Rightarrow> string list" where
  "headersOf env nm = opt_or (se_headers env (toLowerCase nm)) []"

definition delimiterOf :: "sieve_env \<Rightarrow> string" where
  "delimiterOf env = opt_or (se_subaddressDelimiter env) ''+''"

type_synonym test_result = "(bool \<times> sieve_vars) outcome"

definition evalSize :: "sieve_env \<Rightarrow> sieve_arg list \<Rightarrow> sieve_vars \<Rightarrow> test_result" where
  "evalSize env args vars =
     (case firstNumber args of
        None \<Rightarrow> throw ''size requires a number''
      | Some limit \<Rightarrow>
          if hasTag args ''over'' then ok (se_size env > limit, vars)
          else if hasTag args ''under'' then ok (se_size env < limit, vars)
          else throw ''size requires :over or :under'')"

text \<open>The values of the tests with a list of names and a list of keys.\<close>

definition evalKeyed ::
  "(string list \<Rightarrow> string list) \<Rightarrow> sieve_arg list \<Rightarrow> bool \<Rightarrow> sieve_vars \<Rightarrow> test_result" where
  "evalKeyed valuesOf args on vars =
     pbind (matchType args) (\<lambda>kind.
       let strs = positionalStringGroups args TEST_VALUE_TAGS in
       anyMatch (valuesOf (nth_group strs 0)) (nth_group strs 1) kind (isNumericComparator args) on vars)"

definition headerValues :: "sieve_env \<Rightarrow> string list \<Rightarrow> string list" where
  "headerValues env names = concat (map (headersOf env) names)"

definition addressValues :: "sieve_env \<Rightarrow> sieve_arg list \<Rightarrow> string list \<Rightarrow> string list" where
  "addressValues env args names =
     concat (map (\<lambda>nm. concat (map (\<lambda>h. map (\<lambda>a. addrPart a (addressPart args) (delimiterOf env)) (extractAddresses h))
       (headersOf env nm))) names)"

definition envelopeValues :: "sieve_env \<Rightarrow> sieve_arg list \<Rightarrow> string list \<Rightarrow> string list" where
  "envelopeValues env args fs =
     concat (map (\<lambda>f.
       if toLowerCase f = ''from'' then [addrPart (se_envelopeFrom env) (addressPart args) (delimiterOf env)]
       else if toLowerCase f = ''to'' then map (\<lambda>t. addrPart t (addressPart args) (delimiterOf env)) (se_envelopeTo env)
       else []) fs)"

definition evalBody :: "sieve_env \<Rightarrow> sieve_arg list \<Rightarrow> bool \<Rightarrow> sieve_vars \<Rightarrow> test_result" where
  "evalBody env args on vars =
     pbind (matchType args) (\<lambda>kind.
       let keys = positionalStrings args BODY_VALUE_TAGS in
       if keys = [] then throw ''body requires a key''
       else anyMatch (bodyValues args env) keys kind (isNumericComparator args) on vars)"

definition isDatePart :: "string \<Rightarrow> bool" where
  "isDatePart s \<longleftrightarrow> s \<in> set DATE_PARTS"

text \<open>The time and the offset that a date test looks at; \<open>None\<close> when the header is missing or unreadable.\<close>

definition dateOf :: "sieve_env \<Rightarrow> bool \<Rightarrow> string list \<Rightarrow> sieve_arg list \<Rightarrow> (int \<times> int) option outcome" where
  "dateOf env isHeaderDate strs args =
     (if isHeaderDate then
        (case strs of
           [] \<Rightarrow> throw ''date requires a header name''
         | headerName # _ \<Rightarrow>
             (case opt_hd (headersOf env headerName) of
                None \<Rightarrow> ok None
              | Some raw \<Rightarrow>
                  (case parseHeaderDate (se_dateParse env) raw of
                     None \<Rightarrow> ok None
                   | Some (ms, off) \<Rightarrow>
                       if hasTag args ''originalzone'' then ok (Some (ms, off))
                       else pbind (zoneOffsetArg args) (\<lambda>off. ok (Some (ms, off))))))
      else pbind (zoneOffsetArg args) (\<lambda>off. ok (Some (opt_or (se_now env) (se_dateNow env), off))))"

definition evalDate :: "string \<Rightarrow> sieve_env \<Rightarrow> sieve_arg list \<Rightarrow> bool \<Rightarrow> sieve_vars \<Rightarrow> test_result" where
  "evalDate name env args on vars =
     pbind (matchType args) (\<lambda>kind.
       let strs = positionalStrings args DATE_VALUE_TAGS;
           isHeaderDate = (name = ''date'');
           partAt = (if isHeaderDate then 1 else 0);
           keys = drop (Suc partAt) strs
       in case map_option toLowerCase (opt_hd (drop partAt strs)) of
            None \<Rightarrow> throw ''unknown date-part: (none)''
          | Some partName \<Rightarrow>
              if \<not> isDatePart partName then throw (''unknown date-part: '' @ partName)
              else if keys = [] then throw (name @ '' requires a key'')
              else pbind (dateOf env isHeaderDate strs args) (\<lambda>date.
                case date of
                  None \<Rightarrow> ok (False, vars)
                | Some (ms, off) \<Rightarrow> anyMatch [datePartOf ms off partName] keys kind (isNumericComparator args) on vars))"

text \<open>
  \<open>Math.round((score - 1) / 9 * 100)\<close>: the scores are whole numbers, for which the quotient is never half-way
  between two whole numbers.
\<close>

definition percentScore :: "int \<Rightarrow> int" where
  "percentScore score = (200 * (score - 1) + 9) div 18"

definition evalSpamtest :: "sieve_env \<Rightarrow> sieve_arg list \<Rightarrow> bool \<Rightarrow> sieve_vars \<Rightarrow> test_result" where
  "evalSpamtest env args on vars =
     pbind (matchType args) (\<lambda>kind.
       let keys = positionalStrings args TEST_VALUE_TAGS;
           value = (case se_spamScore env of
                      None \<Rightarrow> ''0''
                    | Some score \<Rightarrow> show_int (if hasTag args ''percent'' then percentScore score else score))
       in if keys = [] then throw ''spamtest requires a value'' else anyMatch [value] keys kind True on vars)"

definition evalString :: "sieve_arg list \<Rightarrow> bool \<Rightarrow> sieve_vars \<Rightarrow> test_result" where
  "evalString args on vars =
     pbind (matchType args) (\<lambda>kind.
       let groups = positionalStringGroups args TEST_VALUE_TAGS in
       if nth_group groups 1 = [] then throw ''string requires a key''
       else anyMatch (nth_group groups 0) (nth_group groups 1) kind (isNumericComparator args) on vars)"

text \<open>The tests without subtests, their arguments already expanded.\<close>

definition evalLeaf :: "sieve_env \<Rightarrow> bool \<Rightarrow> string \<Rightarrow> sieve_arg list \<Rightarrow> sieve_vars \<Rightarrow> test_result" where
  "evalLeaf env on name args vars =
     (if name = ''true'' then ok (True, vars)
      else if name = ''false'' then ok (False, vars)
      else if name = ''exists'' then ok (list_all (\<lambda>nm. length (headersOf env nm) > 0) (firstStrings args), vars)
      else if name = ''size'' then evalSize env args vars
      else if name = ''header'' then evalKeyed (headerValues env) args on vars
      else if name = ''address'' then evalKeyed (addressValues env args) args on vars
      else if name = ''envelope'' then evalKeyed (envelopeValues env args) args on vars
      else if name = ''mailboxexists'' then
        (let names = concat (stringArgs args) in
         if names = [] then throw ''mailboxexists requires a mailbox name''
         else ok (list_all (\<lambda>n. n \<in> set (opt_or (se_mailboxes env) [])) names, vars))
      else if name = ''body'' then evalBody env args on vars
      else if name = ''date'' \<or> name = ''currentdate'' then evalDate name env args on vars
      else if name = ''spamtest'' then evalSpamtest env args on vars
      else if name = ''string'' then evalString args on vars
      else throw (''unknown test: '' @ name))"

fun evalTest :: "sieve_env \<Rightarrow> bool \<Rightarrow> sieve_test \<Rightarrow> sieve_vars \<Rightarrow> test_result"
  and evalEvery :: "sieve_env \<Rightarrow> bool \<Rightarrow> sieve_test list \<Rightarrow> sieve_vars \<Rightarrow> test_result"
  and evalSome :: "sieve_env \<Rightarrow> bool \<Rightarrow> sieve_test list \<Rightarrow> sieve_vars \<Rightarrow> test_result" where
  "evalTest env on (SieveTest name args tests) vars =
     (if name = ''not'' then
        (case tests of
           [] \<Rightarrow> Some (Inl RE_type)
         | t # _ \<Rightarrow> pbind (evalTest env on t vars) (\<lambda>(b, vars'). ok (\<not> b, vars')))
      else if name = ''allof'' then evalEvery env on tests vars
      else if name = ''anyof'' then evalSome env on tests vars
      else evalLeaf env on name (withExpanded on vars args) vars)"
| "evalEvery env on [] vars = ok (True, vars)"
| "evalEvery env on (t # ts) vars =
     pbind (evalTest env on t vars) (\<lambda>(b, vars'). if b then evalEvery env on ts vars' else ok (False, vars'))"
| "evalSome env on [] vars = ok (False, vars)"
| "evalSome env on (t # ts) vars =
     pbind (evalTest env on t vars) (\<lambda>(b, vars'). if b then ok (True, vars') else evalSome env on ts vars')"

section \<open>Actions\<close>

fun execRequire :: "string list \<Rightarrow> exec_state \<Rightarrow> exec_state outcome" where
  "execRequire [] st = ok st"
| "execRequire (e # exts) st =
     (if e \<notin> set SUPPORTED_EXTENSION_LIST then throw (''unsupported extension: '' @ e)
      else execRequire exts (if e = ''variables'' then st\<lparr>es_varsEnabled := True\<rparr> else st))"

fun tagNames :: "sieve_arg list \<Rightarrow> string list" where
  "tagNames [] = []"
| "tagNames (SA_tag n # args) = n # tagNames args"
| "tagNames (a # args) = tagNames args"

definition execSet :: "sieve_arg list \<Rightarrow> exec_state \<Rightarrow> exec_state outcome" where
  "execSet args st =
     (if \<not> es_varsEnabled st then throw (''set requires: require '' @ [QUOTE] @ ''variables'' @ [QUOTE])
      else case List.find (\<lambda>m. \<not> isModifier m) (tagNames args) of
             Some m \<Rightarrow> throw (''unknown set modifier: :'' @ m)
           | None \<Rightarrow>
               (case positionalStrings args [] of
                  name # value # _ \<Rightarrow>
                    if \<not> isValidVariableName name then throw (''invalid variable name: '' @ name)
                    else ok (st\<lparr>es_vars := vars_set name (applyModifiers value (tagNames args)) (es_vars st)\<rparr>)
                | _ \<Rightarrow> throw ''set requires a name and a value''))"

text \<open>\<open>include\<close>: \<open>run\<close> parses and runs a script.\<close>

definition execInclude ::
  "(string \<Rightarrow> exec_state \<Rightarrow> exec_state outcome) \<Rightarrow> sieve_env \<Rightarrow> sieve_arg list \<Rightarrow> exec_state \<Rightarrow> exec_state outcome" where
  "execInclude run env args st =
     (case opt_hd (positionalStrings args []) of
        None \<Rightarrow> throw ''include requires a script name''
      | Some name \<Rightarrow>
          (let optional = hasTag args ''optional'' in
           if hasTag args ''global'' then (if optional then ok st else throw ''include :global is not supported'')
           else if hasTag args ''once'' \<and> name \<in> set (es_included st) then ok st
           else case se_scripts env name of
                  None \<Rightarrow> if optional then ok st else throw (''included script not found: '' @ name)
                | Some src \<Rightarrow>
                    if es_depth st \<ge> MAX_INCLUDE_DEPTH
                    then throw (''include nesting too deep (max '' @ show_nat MAX_INCLUDE_DEPTH @ '')'')
                    else pbind (run src (st\<lparr>es_included := set_add name (es_included st), es_depth := es_depth st + 1,
                                            es_returned := False\<rparr>))
                           (\<lambda>st'. ok (st'\<lparr>es_depth := es_depth st' - 1, es_returned := es_returned st\<rparr>))))"

definition execReturn :: "exec_state \<Rightarrow> exec_state" where
  "execReturn st = (if es_depth st > 0 then st\<lparr>es_returned := True\<rparr> else st\<lparr>es_stopped := True\<rparr>)"

definition execReject :: "string \<Rightarrow> sieve_arg list \<Rightarrow> exec_state \<Rightarrow> exec_state outcome" where
  "execReject name args st =
     (case opt_hd (firstStrings args) of
        None \<Rightarrow> throw (name @ '' requires a reason string'')
      | Some reason \<Rightarrow> ok (st\<lparr>es_reject := Some reason, es_canceledImplicit := True\<rparr>))"

definition execFileinto :: "sieve_arg list \<Rightarrow> exec_state \<Rightarrow> exec_state outcome" where
  "execFileinto args st =
     (case opt_or (opt_hd (firstStrings args)) [] of
        [] \<Rightarrow> throw ''fileinto requires a mailbox''
      | c # cs \<Rightarrow>
          ok (st\<lparr>es_fileinto := es_fileinto st @ [c # cs],
                 es_fileintoCreate := es_fileintoCreate st @ (if hasTag args ''create'' then [c # cs] else []),
                 es_canceledImplicit := es_canceledImplicit st \<or> \<not> hasTag args ''copy''\<rparr>))"

definition execRedirect :: "sieve_arg list \<Rightarrow> exec_state \<Rightarrow> exec_state outcome" where
  "execRedirect args st =
     (case opt_or (opt_hd (firstStrings args)) [] of
        [] \<Rightarrow> throw ''redirect requires an address''
      | c # cs \<Rightarrow>
          ok (st\<lparr>es_redirect := es_redirect st @ [c # cs],
                 es_canceledImplicit := es_canceledImplicit st \<or> \<not> hasTag args ''copy''\<rparr>))"

definition execVacation :: "sieve_arg list \<Rightarrow> exec_state \<Rightarrow> exec_state outcome" where
  "execVacation args st =
     (if es_vacation st \<noteq> None then ok st
      else case opt_hd (positionalStrings args VACATION_VALUE_TAGS) of
             None \<Rightarrow> throw ''vacation requires a reason string''
           | Some reason \<Rightarrow>
               if tagNumber args ''days'' = Some 0 then throw ''vacation :days must be a positive integer''
               else ok (st\<lparr>es_vacation := Some
                      \<lparr>va_reason = reason, va_days = opt_or (tagNumber args ''days'') DEFAULT_VACATION_DAYS,
                       va_subject = tagString args ''subject'', va_from = tagString args ''from'',
                       va_addresses = tagStrings args ''addresses'', va_handle = tagString args ''handle'',
                       va_mime = hasTag args ''mime''\<rparr>\<rparr>))"

definition execAction ::
  "(string \<Rightarrow> exec_state \<Rightarrow> exec_state outcome) \<Rightarrow> sieve_env \<Rightarrow> string \<Rightarrow> sieve_arg list \<Rightarrow> exec_state \<Rightarrow> exec_state outcome" where
  "execAction run env name rawArgs st =
     (let args = withExpanded (es_varsEnabled st) (es_vars st) rawArgs in
      if name = ''require'' then execRequire (firstStrings args) st
      else if name = ''set'' then execSet args st
      else if name = ''stop'' then ok (st\<lparr>es_stopped := True\<rparr>)
      else if name = ''include'' then execInclude run env args st
      else if name = ''return'' then ok (execReturn st)
      else if name = ''reject'' \<or> name = ''ereject'' then execReject name args st
      else if name = ''keep'' then ok (st\<lparr>es_explicitKeep := True\<rparr>)
      else if name = ''discard'' then ok (st\<lparr>es_canceledImplicit := True\<rparr>)
      else if name = ''fileinto'' then execFileinto args st
      else if name = ''redirect'' then execRedirect args st
      else if name = ''vacation'' then execVacation args st
      else if name = ''setflag'' then ok (st\<lparr>es_flags := fold set_add (flagArgs args) []\<rparr>)
      else if name = ''addflag'' then ok (st\<lparr>es_flags := fold set_add (flagArgs args) (es_flags st)\<rparr>)
      else if name = ''removeflag'' then ok (st\<lparr>es_flags := fold set_delete (flagArgs args) (es_flags st)\<rparr>)
      else throw (''unknown command: '' @ name))"

section \<open>Running a script\<close>

definition runTest :: "sieve_env \<Rightarrow> sieve_test option \<Rightarrow> exec_state \<Rightarrow> (bool \<times> exec_state) outcome" where
  "runTest env tst st =
     (case tst of
        None \<Rightarrow> Some (Inl RE_type)
      | Some t \<Rightarrow> pbind (evalTest env (es_varsEnabled st) t (es_vars st)) (\<lambda>(b, vars). ok (b, st\<lparr>es_vars := vars\<rparr>)))"

text \<open>The loop of \<open>execBlock\<close>; \<open>prevMatched\<close> is the state of a chain of \<open>if\<close> and \<open>elsif\<close>.\<close>

function execBlock ::
  "(string \<Rightarrow> exec_state \<Rightarrow> exec_state outcome) \<Rightarrow> sieve_env \<Rightarrow> sieve_command list \<Rightarrow> bool \<Rightarrow> exec_state \<Rightarrow> exec_state outcome" where
  "execBlock run env [] prevMatched st = ok st"
| "execBlock run env (SieveCommand name args tst block # cmds) prevMatched st =
     (if es_stopped st \<or> es_returned st then ok st
      else if name = ''if'' \<or> (name = ''elsif'' \<and> \<not> prevMatched) then
        pbind (runTest env tst st) (\<lambda>(b, st1).
          pbind (if b then execBlock run env (opt_or block []) False st1 else ok st1) (execBlock run env cmds b))
      else if name = ''elsif'' then execBlock run env cmds prevMatched st
      else if name = ''else'' then
        pbind (if prevMatched then ok st else execBlock run env (opt_or block []) False st) (execBlock run env cmds False)
      else pbind (execAction run env name args st) (execBlock run env cmds False))"
  by pat_completeness auto
termination
  by (relation "measure (\<lambda>(run, env, cmds, prev, st). size_list size cmds)") (auto simp: opt_or_def split: option.splits)

text \<open>A script that is run with fuel for \<open>n\<close> nested includes.\<close>

primrec execScript :: "nat \<Rightarrow> sieve_env \<Rightarrow> string \<Rightarrow> exec_state \<Rightarrow> exec_state outcome" where
  "execScript 0 env src st = None"
| "execScript (Suc n) env src st =
     (case parseSieve src of
        None \<Rightarrow> None
      | Some (Inl e) \<Rightarrow> Some (Inl (RE_syntax e))
      | Some (Inr cmds) \<Rightarrow> execBlock (execScript n env) env cmds False st)"

definition initState :: exec_state where
  "initState =
     \<lparr>es_fileinto = [], es_fileintoCreate = [], es_redirect = [], es_flags = [], es_canceledImplicit = False,
      es_explicitKeep = False, es_reject = None, es_vacation = None, es_stopped = False, es_returned = False,
      es_included = [], es_depth = 0, es_vars = vars_new, es_varsEnabled = False\<rparr>"

definition resultOf :: "exec_state \<Rightarrow> sieve_result" where
  "resultOf r =
     (case es_reject r of
        Some reason \<Rightarrow>
          \<lparr>sr_keep = False, sr_fileinto = [], sr_fileintoCreate = [], sr_redirect = [], sr_flags = [], sr_discarded = False,
           sr_reject = Some reason, sr_vacation = None\<rparr>
      | None \<Rightarrow>
          (let keep = es_explicitKeep r \<or> \<not> es_canceledImplicit r in
           \<lparr>sr_keep = keep, sr_fileinto = new_Set (es_fileinto r), sr_fileintoCreate = new_Set (es_fileintoCreate r),
            sr_redirect = new_Set (es_redirect r), sr_flags = es_flags r,
            sr_discarded = (\<not> keep \<and> es_fileinto r = [] \<and> es_redirect r = []), sr_reject = None,
            sr_vacation = es_vacation r\<rparr>))"

definition runSieve :: "string \<Rightarrow> sieve_env \<Rightarrow> sieve_result outcome" where
  "runSieve src env = pbind (execScript (Suc MAX_INCLUDE_DEPTH) env src initState) (\<lambda>st. ok (resultOf st))"

end
