(* ===== verification/SieveTheorems.thy ===== *)
theory SieveTheorems
  imports SieveRun
begin

text \<open>
  What the Sieve interpreter guarantees. The locale \<open>exec_invariant\<close> states what a predicate on the state of a run
  must promise about single actions; it then holds after every script, includes and nested blocks among them.
  Its interpretations give that every run ends, that a script without \<open>discard\<close> loses no message and that the
  instructions are well formed.
\<close>

section \<open>Outcomes\<close>

text \<open>An outcome that is an error or a value with a property, but not the end of the fuel.\<close>

definition gives :: "('a \<Rightarrow> bool) \<Rightarrow> 'a outcome \<Rightarrow> bool" where
  "gives P x = (case x of None \<Rightarrow> False | Some (Inl e) \<Rightarrow> True | Some (Inr a) \<Rightarrow> P a)"

lemma gives_simps [simp]: "gives P (Some (Inl e))" "gives P (Some (Inr a)) \<longleftrightarrow> P a" "\<not> gives P None"
  by (simp_all add: gives_def)

lemma givesD: "gives P x \<Longrightarrow> x = Some (Inr a) \<Longrightarrow> P a"
  by simp

lemma gives_not_None: "gives P x \<Longrightarrow> x \<noteq> None"
  by (cases x) auto

lemma gives_mono: "gives P x \<Longrightarrow> (\<And>a. x = Some (Inr a) \<Longrightarrow> P a \<Longrightarrow> Q a) \<Longrightarrow> gives Q x"
  by (auto simp: gives_def split: option.splits sum.splits)

lemma gives_pbind: "gives P x \<Longrightarrow> (\<And>a. P a \<Longrightarrow> gives Q (f a)) \<Longrightarrow> gives Q (pbind x f)"
  by (simp add: gives_def [of P] pbind_def split: option.splits sum.splits)

lemma gives_if: "(b \<Longrightarrow> gives P x) \<Longrightarrow> (\<not> b \<Longrightarrow> gives P y) \<Longrightarrow> gives P (if b then x else y)"
  by simp

lemma gives_True_if: "gives (\<lambda>_. True) x \<Longrightarrow> gives (\<lambda>_. True) y \<Longrightarrow> gives (\<lambda>_. True) (if b then x else y)"
  by simp

section \<open>Tests\<close>

lemma matchType_gives: "gives (\<lambda>_. True) (matchType args)"
  by (auto simp: matchType_def matchRelation_def split: option.splits)

lemma compileKeys_gives: "gives (\<lambda>_. True) (compileKeys keys)"
proof (induction keys)
  case (Cons k ks)
  have "compileRegex k True \<noteq> None"
    unfolding compileRegex_def by (rule pbind_not_None [OF parsePattern_total]) (simp add: case_prod_beta)
  with Cons show ?case
    by (auto split: option.splits sum.splits intro: gives_pbind)
qed simp

lemma anyMatch_gives: "gives (\<lambda>_. True) (anyMatch values keys kind numeric on vars)"
  by (cases kind) (auto simp: anyMatch_def intro: gives_pbind compileKeys_gives)

lemma zoneOffsetArg_gives: "gives (\<lambda>_. True) (zoneOffsetArg args)"
  by (auto simp: zoneOffsetArg_def split: option.splits)

lemma dateOf_gives: "gives (\<lambda>_. True) (dateOf env isHeaderDate strs args)"
  by (auto simp: dateOf_def split: option.splits list.splits intro: gives_pbind zoneOffsetArg_gives)

lemma evalDate_gives: "gives (\<lambda>_. True) (evalDate name env args on vars)"
  unfolding evalDate_def Let_def
  by (rule gives_pbind [OF matchType_gives])
     (simp split: option.split add: gives_pbind [OF dateOf_gives] anyMatch_gives)

lemma evalKeyed_gives: "gives (\<lambda>_. True) (evalKeyed valuesOf args on vars)"
  by (simp add: evalKeyed_def Let_def gives_pbind [OF matchType_gives] anyMatch_gives)

lemma evalOthers_give:
  "gives (\<lambda>_. True) (evalBody env args on vars)" "gives (\<lambda>_. True) (evalSpamtest env args on vars)"
  "gives (\<lambda>_. True) (evalString args on vars)" "gives (\<lambda>_. True) (evalSize env args vars)"
  by (simp_all add: evalBody_def evalSpamtest_def evalString_def evalSize_def Let_def gives_pbind [OF matchType_gives]
      anyMatch_gives split: option.split)

lemma evalLeaf_gives: "gives (\<lambda>_. True) (evalLeaf env on name args vars)"
  unfolding evalLeaf_def Let_def
  by (intro gives_True_if evalDate_gives evalKeyed_gives evalOthers_give) simp_all

lemma evalTest_gives:
  "gives (\<lambda>_. True) (evalTest env on t vars)"
  "gives (\<lambda>_. True) (evalEvery env on ts vars)"
  "gives (\<lambda>_. True) (evalSome env on ts vars)"
proof (induction env on t vars and env on ts vars and env on ts vars rule: evalTest_evalEvery_evalSome.induct)
  case (1 env on name args tests vars)
  have "gives (\<lambda>_. True) (case tests of [] \<Rightarrow> Some (Inl RE_type)
          | t # _ \<Rightarrow> pbind (evalTest env on t vars) (\<lambda>(b, vars'). ok (\<not> b, vars')))" if "name = ''not''"
    by (cases tests) (use 1(1) [OF that] in \<open>auto intro: gives_pbind\<close>)
  then show ?case
    unfolding evalTest.simps by (intro gives_if evalLeaf_gives 1(2,3))
next
  case (3 env on t ts vars)
  then show ?case
    unfolding evalEvery.simps by (intro gives_pbind [where P = "\<lambda>_. True"]) auto
next
  case (5 env on t ts vars)
  then show ?case
    unfolding evalSome.simps by (intro gives_pbind [where P = "\<lambda>_. True"]) auto
qed simp_all

lemma runTest_gives: "gives (\<lambda>(b, st'). \<exists>v. st' = st\<lparr>es_vars := v\<rparr>) (runTest env tst st)"
  by (auto simp: runTest_def split: option.splits intro!: gives_pbind [OF evalTest_gives(1)])

section \<open>Actions\<close>

lemma execRequire_gives:
  "gives (\<lambda>st'. \<exists>b. st' = st\<lparr>es_varsEnabled := b\<rparr>) (execRequire exts st)"
proof (induction exts arbitrary: st)
  case Nil
  show ?case by simp (metis (mono_tags) exec_state.surjective exec_state.update_convs(14))
next
  case (Cons e exts)
  have "gives (\<lambda>st'. \<exists>b. st' = st\<lparr>es_varsEnabled := b\<rparr>) (execRequire exts (st\<lparr>es_varsEnabled := True\<rparr>))"
    by (rule gives_mono [OF Cons.IH]) auto
  with Cons.IH [of st] show ?case by auto
qed

text \<open>An action other than \<open>include\<close> leaves the depth alone.\<close>

lemma actions_depth:
  "gives (\<lambda>st'. es_depth st' = es_depth st) (execRequire exts st)"
  "gives (\<lambda>st'. es_depth st' = es_depth st) (execSet args st)"
  "gives (\<lambda>st'. es_depth st' = es_depth st) (execReject name args st)"
  "gives (\<lambda>st'. es_depth st' = es_depth st) (execFileinto args st)"
  "gives (\<lambda>st'. es_depth st' = es_depth st) (execRedirect args st)"
  "gives (\<lambda>st'. es_depth st' = es_depth st) (execVacation args st)"
  "es_depth (execReturn st) = es_depth st"
  by (rule gives_mono [OF execRequire_gives], force)
     (simp_all add: execSet_def execReject_def execFileinto_def execRedirect_def execVacation_def execReturn_def
       split: option.split list.split)

lemma action_depth:
  assumes "name \<noteq> ''include''"
  shows "gives (\<lambda>st'. es_depth st' = es_depth st) (execAction run env name args st)"
  unfolding execAction_def Let_def
  by (intro gives_if actions_depth) (use assms in \<open>simp_all add: actions_depth\<close>)

section \<open>Invariants of a run\<close>

text \<open>The names of the commands of a script, those in blocks too.\<close>

fun commandNames :: "sieve_command \<Rightarrow> string list" where
  "commandNames (SieveCommand name args tst block) =
     name # (case block of None \<Rightarrow> [] | Some cmds \<Rightarrow> concat (map commandNames cmds))"

definition scriptNames :: "string \<Rightarrow> string set" where
  "scriptNames src = (case parseSieve src of Some (Inr cmds) \<Rightarrow> \<Union> (set ` commandNames ` set cmds) | _ \<Rightarrow> {})"

definition namesOf :: "sieve_command list \<Rightarrow> string set" where
  "namesOf cmds = \<Union> (set ` commandNames ` set cmds)"

lemma namesOf_Cons:
  "namesOf (SieveCommand name args tst block # cmds) = {name} \<union> namesOf (opt_or block []) \<union> namesOf cmds"
  by (cases block) (auto simp: namesOf_def opt_or_def)

locale exec_invariant =
  fixes allowed :: "string set" and I :: "exec_state \<Rightarrow> bool"
  assumes keeps_vars: "I st \<Longrightarrow> I (st\<lparr>es_vars := v\<rparr>)"
    and keeps_flow: "I st \<Longrightarrow> I (st\<lparr>es_included := xs, es_depth := d, es_returned := b\<rparr>)"
    and keeps_action: "name \<in> allowed \<Longrightarrow> name \<noteq> ''include'' \<Longrightarrow> I st \<Longrightarrow> execAction run env name args st = ok st' \<Longrightarrow> I st'"
begin

definition after :: "exec_state \<Rightarrow> exec_state \<Rightarrow> bool" where
  "after st st' \<longleftrightarrow> es_depth st' = es_depth st \<and> I st'"

definition runs :: "(string \<Rightarrow> exec_state \<Rightarrow> exec_state outcome) \<Rightarrow> sieve_env \<Rightarrow> nat \<Rightarrow> bool" where
  "runs run env d \<longleftrightarrow>
     (\<forall>src st name. se_scripts env name = Some src \<longrightarrow> es_depth st = Suc d \<longrightarrow> d < MAX_INCLUDE_DEPTH \<longrightarrow> I st \<longrightarrow>
        gives (after st) (run src st))"

lemma after_refl: "I st \<Longrightarrow> after st st"
  by (simp add: after_def)

lemma keeps_leave: "I st \<Longrightarrow> I (st\<lparr>es_depth := d, es_returned := b\<rparr>)"
  using keeps_flow [of st b d "es_included st"] by simp

lemma include_after:
  assumes "runs run env (es_depth st)" "I st"
  shows "gives (after st) (execInclude run env args st)"
proof -
  have "gives (after st) (pbind (run src (st\<lparr>es_included := xs, es_depth := es_depth st + 1, es_returned := False\<rparr>))
          (\<lambda>st'. ok (st'\<lparr>es_depth := es_depth st' - 1, es_returned := es_returned st\<rparr>)))"
    if "se_scripts env name = Some src" "es_depth st < MAX_INCLUDE_DEPTH" for src name xs
    by (rule gives_pbind [where P = "after (st\<lparr>es_included := xs, es_depth := es_depth st + 1, es_returned := False\<rparr>)"])
       (use assms that in \<open>auto simp: runs_def after_def keeps_flow keeps_leave\<close>)
  then show ?thesis
    using assms(2) by (auto simp: execInclude_def Let_def after_def split: option.split)
qed

lemma action_after:
  assumes "name \<in> allowed" "runs run env (es_depth st)" "I st"
  shows "gives (after st) (execAction run env name args st)"
proof (cases "name = ''include''")
  case True
  then show ?thesis using include_after [OF assms(2,3)] by (simp add: execAction_def Let_def)
next
  case False
  then show ?thesis
    by (rule gives_mono [OF action_depth]) (use assms False keeps_action in \<open>auto simp: after_def\<close>)
qed

lemma test_after: "I st \<Longrightarrow> gives (\<lambda>(b, st'). after st st') (runTest env tst st)"
  by (rule gives_mono [OF runTest_gives]) (auto simp: after_def keeps_vars)

lemma after_trans: "gives (after st1) x \<Longrightarrow> after st st1 \<Longrightarrow> gives (after st) x"
  by (erule gives_mono) (simp add: after_def)

lemma block_after:
  "namesOf cmds \<subseteq> allowed \<Longrightarrow> runs run env (es_depth st) \<Longrightarrow> I st \<Longrightarrow> gives (after st) (execBlock run env cmds prev st)"
proof (induction run env cmds prev st rule: execBlock.induct)
  case (1 run env prev st)
  then show ?case by (simp add: after_def)
next
  case (2 run env name args tst block cmds prev st)
  have names: "name \<in> allowed" "namesOf (opt_or block []) \<subseteq> allowed" "namesOf cmds \<subseteq> allowed"
    using 2(7) by (simp_all add: namesOf_Cons)
  have still: "runs run env (es_depth st')" "I st'" if "after st st'" for st'
    using that 2(8) by (simp_all add: after_def)
  show ?case
  proof (cases "es_stopped st \<or> es_returned st")
    case True
    then show ?thesis using 2(9) by (simp add: after_def)
  next
    case running: False
    consider (test) "name = ''if'' \<or> name = ''elsif'' \<and> \<not> prev" | (skip) "name = ''elsif''" "prev"
      | (otherwise) "name = ''else''" | (action) "name \<noteq> ''if''" "name \<noteq> ''elsif''" "name \<noteq> ''else''"
      by blast
    then show ?thesis
    proof cases
      case test
      have inner: "gives (after st) (if b then execBlock run env (opt_or block []) False st1 else ok st1)"
        if "after st st1" for b st1
        using after_trans [OF 2(1) [OF running test _ names(2) still [OF that]] that] that by simp
      have rest: "gives (after st) (execBlock run env cmds b st2)" if "after st st2" for b st2
        by (rule after_trans [OF 2(2) [OF running test names(3) still [OF that]] that])
      have "gives (after st) (pbind (if b then execBlock run env (opt_or block []) False st1 else ok st1)
              (execBlock run env cmds b))" if "after st st1" for b st1
        by (rule gives_pbind [OF inner [OF that] rest])
      then have "gives (after st) (pbind (runTest env tst st) (\<lambda>(b, st1).
          pbind (if b then execBlock run env (opt_or block []) False st1 else ok st1) (execBlock run env cmds b)))"
        by (intro gives_pbind [OF test_after [OF 2(9)]]) (simp only: case_prod_unfold)
      then show ?thesis
        using running test by (simp del: de_Morgan_disj)
    next
      case skip
      then show ?thesis using running names 2(3,8,9) by simp
    next
      case otherwise
      have first: "gives (after st) (if prev then ok st else execBlock run env (opt_or block []) False st)"
        using 2(4) running otherwise names(2) 2(8,9) by (auto simp: after_refl)
      have rest: "gives (after st) (execBlock run env cmds False st2)" if "after st st2" for st2
        by (rule after_trans [OF _ that]) (use 2(5) running otherwise names(3) still [OF that] in simp)
      show ?thesis using running otherwise gives_pbind [OF first rest] by simp
    next
      case action
      have rest: "gives (after st) (execBlock run env cmds False st2)" if "after st st2" for st2
        by (rule after_trans [OF _ that]) (use 2(6) running action names(3) still [OF that] in simp)
      show ?thesis using running action gives_pbind [OF action_after [OF names(1) 2(8,9)] rest] by simp
    qed
  qed
qed

lemma script_after:
  assumes "scriptNames src \<subseteq> allowed" "\<And>name src. se_scripts env name = Some src \<Longrightarrow> scriptNames src \<subseteq> allowed"
    and "I st" "es_depth st \<le> MAX_INCLUDE_DEPTH" "MAX_INCLUDE_DEPTH < es_depth st + n"
  shows "gives (after st) (execScript n env src st)"
  using assms
proof (induction n arbitrary: src st)
  case (Suc n)
  obtain p where p: "parseSieve src = Some p" using parseSieve_not_None by blast
  have "runs (execScript n env) env (es_depth st)"
    using Suc by (auto simp: runs_def)
  then show ?case
    using Suc.prems p block_after [of _ "execScript n env" env st] by (cases p) (auto simp: scriptNames_def namesOf_def)
qed simp

theorem run_after:
  assumes "scriptNames src \<subseteq> allowed" "\<And>name src. se_scripts env name = Some src \<Longrightarrow> scriptNames src \<subseteq> allowed" "I initState"
  shows "gives (\<lambda>r. \<exists>st. I st \<and> r = resultOf st) (runSieve src env)"
  unfolding runSieve_def
  by (rule gives_pbind [OF script_after])
     (use assms in \<open>auto simp: after_def initState_def\<close>)

end

interpretation sieve_ends: exec_invariant UNIV "\<lambda>_. True"
  by unfold_locales simp_all

text \<open>The implicit keep is cancelled only for a delivery elsewhere or a rejection.\<close>

definition accounted :: "exec_state \<Rightarrow> bool" where
  "accounted st \<longleftrightarrow> (es_canceledImplicit st \<longrightarrow> es_reject st \<noteq> None \<or> es_fileinto st \<noteq> [] \<or> es_redirect st \<noteq> [])"

lemma accounted_update [simp]:
  "accounted (st\<lparr>es_vars := v\<rparr>) = accounted st" "accounted (st\<lparr>es_varsEnabled := b\<rparr>) = accounted st"
  "accounted (st\<lparr>es_stopped := b\<rparr>) = accounted st" "accounted (st\<lparr>es_returned := b\<rparr>) = accounted st"
  "accounted (st\<lparr>es_depth := n\<rparr>) = accounted st" "accounted (st\<lparr>es_included := xs\<rparr>) = accounted st"
  "accounted (st\<lparr>es_flags := xs\<rparr>) = accounted st" "accounted (st\<lparr>es_explicitKeep := b\<rparr>) = accounted st"
  "accounted (st\<lparr>es_vacation := w\<rparr>) = accounted st"
  by (simp_all add: accounted_def)

lemma actions_accounted:
  assumes "accounted st"
  shows "gives accounted (execRequire exts st)" "gives accounted (execSet args st)" "gives accounted (execReject name args st)"
    "gives accounted (execFileinto args st)" "gives accounted (execRedirect args st)" "gives accounted (execVacation args st)"
    "accounted (execReturn st)"
proof -
  show "gives accounted (execRequire exts st)"
    by (rule gives_mono [OF execRequire_gives]) (use assms in auto)
  show "gives accounted (execReject name args st)" "gives accounted (execFileinto args st)"
    "gives accounted (execRedirect args st)"
    by (simp_all add: execReject_def execFileinto_def execRedirect_def accounted_def split: option.split list.split)
qed (simp_all add: assms execSet_def execReturn_def execVacation_def split: option.split list.split)

lemma action_accounted:
  assumes "name \<noteq> ''discard''" "name \<noteq> ''include''" "accounted st"
  shows "gives accounted (execAction run env name args st)"
  unfolding execAction_def Let_def
  by (intro gives_if actions_accounted) (use assms in \<open>simp_all add: actions_accounted\<close>)

interpretation sieve_accounts: exec_invariant "- {''discard''}" accounted
  by unfold_locales (auto dest: givesD [OF action_accounted])

text \<open>The instructions collected so far are well formed.\<close>

definition well_kept :: "exec_state \<Rightarrow> bool" where
  "well_kept st \<longleftrightarrow> distinct (es_flags st) \<and> set (es_fileintoCreate st) \<subseteq> set (es_fileinto st) \<and>
     [] \<notin> set (es_fileinto st) \<and> [] \<notin> set (es_redirect st) \<and> [] \<notin> set (es_flags st) \<and>
     (\<forall>v. es_vacation st = Some v \<longrightarrow> 0 < va_days v)"

lemma well_kept_update [simp]:
  "well_kept (st\<lparr>es_vars := v\<rparr>) = well_kept st" "well_kept (st\<lparr>es_varsEnabled := b\<rparr>) = well_kept st"
  "well_kept (st\<lparr>es_stopped := b\<rparr>) = well_kept st" "well_kept (st\<lparr>es_returned := b\<rparr>) = well_kept st"
  "well_kept (st\<lparr>es_depth := n\<rparr>) = well_kept st" "well_kept (st\<lparr>es_included := xs\<rparr>) = well_kept st"
  "well_kept (st\<lparr>es_explicitKeep := b\<rparr>) = well_kept st" "well_kept (st\<lparr>es_canceledImplicit := b\<rparr>) = well_kept st"
  "well_kept (st\<lparr>es_reject := w\<rparr>) = well_kept st"
  by (simp_all add: well_kept_def)

lemma set_add_fold: "set (fold set_add ys xs) = set xs \<union> set ys"
  by (induction ys arbitrary: xs) (auto simp: set_add_def)

lemma distinct_set_add_fold: "distinct xs \<Longrightarrow> distinct (fold set_add ys xs)"
  by (induction ys arbitrary: xs) (auto simp: set_add_def)

lemma new_Set_props [simp]: "distinct (new_Set xs)" "set (new_Set xs) = set xs"
  by (simp_all add: new_Set_def distinct_set_add_fold set_add_fold)

lemma new_Set_Nil_iff [simp]: "new_Set xs = [] \<longleftrightarrow> xs = []"
  using new_Set_props(2) [of xs] by (metis set_empty)






section \<open>Variables\<close>

lemma ident_not_digit: "IDENT_START c \<Longrightarrow> \<not> is_digit (lower_char c)"
  by (auto simp: IDENT_START_def is_digit_def lower_char_def Let_def)

lemma valid_name:
  assumes "isValidVariableName name"
  shows "CHR ''}'' \<notin> set name" "\<not> all_digits (toLowerCase name)"
proof -
  obtain w ws where w: "split_char DOT name = w # ws" by (meson neq_Nil_conv split_char_not_Nil)
  have "w \<noteq> []" "IDENT_START (hd w)" using assms w by (simp_all add: isValidVariableName_def VAR_NAME_def)
  moreover have "name \<noteq> [] \<and> hd name = hd w" if "w \<noteq> []"
    using w that join_split_char [of DOT name] by (cases ws) auto
  ultimately have "name \<noteq> []" "\<not> is_digit (lower_char (hd name))" using ident_not_digit by auto
  then show "\<not> all_digits (toLowerCase name)"
    by (cases name) (auto simp: all_digits_def toLowerCase_def)
  have "c = DOT \<or> IDENT_START c \<or> is_digit c" if "c \<in> set name" for c
  proof -
    have "c = DOT \<or> (\<exists>w \<in> set (split_char DOT name). c \<in> set w)"
      using that by (induction name) (auto split: list.splits)
    then show ?thesis using assms by (auto simp: isValidVariableName_def VAR_NAME_def list_all_iff)
  qed
  from this [of "CHR ''}''"] show "CHR ''}'' \<notin> set name"
    by (auto simp: IDENT_START_def is_digit_def)
qed

lemma expand_variable:
  assumes "isValidVariableName name"
  shows "expand v (''${'' @ name @ ''}'') = vars_get name v"
proof -
  have "indexOf (CHR ''}'') (name @ [CHR ''}'']) = Some (length name)"
    using valid_name(1) [OF assms] by (intro find_index_append_first) auto
  then show ?thesis using assms by (subst expand.simps) (simp add: expand.simps [of v "[]"])
qed

lemma get_set: "isValidVariableName name \<Longrightarrow> vars_get name (vars_set name value v) = value"
  by (simp add: vars_get_def vars_set_def valid_name(2) Let_def)

lemma matches_key:
  "\<exists>v. anyMatch [s] [k] MK_matches numeric True vars = ok (globMatch (toLowerCase k) s SIEVE_MATCH_SYNTAX, v)"
  by (simp add: anyMatch_def globKey_def noteMatch_def Let_def globCaptures_agrees)

section \<open>Properties\<close>

text \<open>C23: every script runs to an end, with an error or with delivery instructions, whatever the
  environment: the parser never gets stuck, and scripts that include one another in a circle are stopped by
  the nesting limit.\<close>

theorem sieve_total: "\<exists>out. runSieve src env = Some out"
  using gives_not_None [OF sieve_ends.run_after] by simp

text \<open>C22: a script that never says \<open>discard\<close>, and whose environment offers no script for \<open>include\<close> that
  does, never makes a message disappear: when it neither keeps the message, nor files it, nor redirects
  it, it rejects it, and the sender is told.\<close>

theorem sieve_no_silent_loss:
  assumes "runSieve src env = Some (Inr r)" "''discard'' \<notin> scriptNames src"
    and "\<And>name s. se_scripts env name = Some s \<Longrightarrow> ''discard'' \<notin> scriptNames s"
  shows "\<not> sr_discarded r \<and> (sr_keep r \<or> sr_fileinto r \<noteq> [] \<or> sr_redirect r \<noteq> [] \<or> sr_reject r \<noteq> None)"
proof -
  have "gives (\<lambda>r. \<exists>st. accounted st \<and> r = resultOf st) (runSieve src env)"
    by (rule sieve_accounts.run_after) (use assms in \<open>auto simp: accounted_def initState_def\<close>)
  then obtain st where st: "accounted st" "r = resultOf st" using assms(1) by auto
  then show ?thesis
    by (cases "es_reject st") (auto simp: resultOf_def accounted_def Let_def)
qed


text \<open>after \<open>set :quotewildcard\<close> stores a text in a variable, a \<open>:matches\<close> test whose key is that
  variable holds exactly for the texts equal to it but for case: wildcards that the text contains, which may
  come from the sender of the message, have no effect.\<close>

lemma sieve_quotewildcard:
  assumes "es_varsEnabled st" "isValidVariableName name"
  shows "\<exists>st'. execSet [SA_tag ''quotewildcard'', SA_strings [name], SA_strings [w]] st = Some (Inr st') \<and>
    (\<forall>s. \<exists>v. anyMatch [s] [expand (es_vars st') (''${'' @ name @ ''}'')] MK_matches False True (es_vars st') =
       Some (Inr (toLowerCase s = toLowerCase w, v)))"
proof -
  let ?vars = "vars_set name (quoteWildcard w) (es_vars st)"
  have "applyModifiers w [''quotewildcard''] = quoteWildcard w"
    by (simp add: applyModifiers_def MODIFIER_ORDER_def applyModifier_def)
  then have "execSet [SA_tag ''quotewildcard'', SA_strings [name], SA_strings [w]] st = ok (st\<lparr>es_vars := ?vars\<rparr>)"
    using assms by (simp add: execSet_def positionalStrings_def isModifier_def MODIFIER_ORDER_def)
  moreover have "\<exists>v. anyMatch [s] [expand ?vars (''${'' @ name @ ''}'')] MK_matches False True ?vars =
      ok (toLowerCase s = toLowerCase w, v)" for s
    using matches_key [of s "quoteWildcard w" False ?vars] assms(2)
    by (simp only: expand_variable get_set quoteWildcard_matches)
  ultimately show ?thesis by simp
qed

text \<open>A message and a script of its account, on which the theorems are applied.\<close>

definition dq :: "string \<Rightarrow> string" where
  "dq s = [QUOTE] @ s @ [QUOTE]"

definition demo_included :: string where
  "demo_included = ''if envelope :detail '' @ dq ''to'' @ '' '' @ dq ''shop'' @ '' { fileinto :create '' @ dq ''Shop'' @ ''; }''"

definition demo_source :: string where
  "demo_source = ''require '' @ dq ''include'' @ ''; include '' @ dq ''shop'' @ ''; setflag '' @ dq ''a b a'' @
     ''; if size :over 1K { addflag '' @ dq ''big'' @ ''; }''"

definition demo_env :: sieve_env where
  "demo_env =
     \<lparr>se_headers = (\<lambda>n. if n = ''subject'' then Some [''50% off''] else None), se_envelopeFrom = ''a@x.org'',
      se_envelopeTo = [''me+shop@y.org''], se_size = 2000, se_mailboxes = None, se_subaddressDelimiter = None,
      se_bodyText = None, se_bodyRaw = None, se_bodyParts = None, se_spamScore = None, se_now = None,
      se_scripts = (\<lambda>n. if n = ''shop'' then Some demo_included else None), se_dateNow = 0, se_dateParse = (\<lambda>_. None)\<rparr>"

definition demo_result :: sieve_result where
  "demo_result =
     \<lparr>sr_keep = False, sr_fileinto = [''Shop''], sr_fileintoCreate = [''Shop''], sr_redirect = [],
      sr_flags = [''a'', ''b'', ''big''], sr_discarded = False, sr_reject = None, sr_vacation = None\<rparr>"

lemma demo_run: "runSieve demo_source demo_env = Some (Inr demo_result)"
  by code_simp

lemma demo_names: "''discard'' \<notin> scriptNames demo_source" "''discard'' \<notin> scriptNames demo_included"
  by code_simp+

theorem sieve_no_silent_loss_witness: "\<not> sr_discarded demo_result \<and> sr_fileinto demo_result = [''Shop'']"
proof -
  have "se_scripts demo_env name = Some s \<Longrightarrow> ''discard'' \<notin> scriptNames s" for name s
    using demo_names(2) by (auto simp: demo_env_def split: if_splits)
  then show ?thesis
    using sieve_no_silent_loss [OF demo_run demo_names(1)] by (auto simp: demo_result_def)
qed


end
