(* ===== verification/AuthThrottle.thy ===== *)
theory AuthThrottle
  imports Prelude "HOL-Library.AList"
begin

text \<open>
  The throttle of failed logins (\<open>core/src/auth-throttle.ts\<close>). A JavaScript \<open>Map\<close> is an association list, in the
  order of insertion. Times are integers, in milliseconds. Every method that waits for the shared store is cut at
  its \<open>await\<close>s: the part before a wait and the part after it are steps of their own, and the answer of the store
  (\<open>None\<close> or \<open>False\<close> when it throws) is an argument of the latter, so that calls interleave freely. The test
  \<open>isIP\<close> of the platform is an argument.
\<close>

section \<open>Counters and the policy\<close>

record throttle_counter =
  tc_fails :: nat
  tc_lastFailAt :: int

record throttle_policy =
  tp_freeFailures :: nat
  tp_baseDelayMs :: int
  tp_maxDelayMs :: int
  tp_resetAfterMs :: int

definition AUTH_THROTTLE_FREE_FAILURES :: nat where
  "AUTH_THROTTLE_FREE_FAILURES = 5"

definition AUTH_THROTTLE_BASE_DELAY_MS :: int where
  "AUTH_THROTTLE_BASE_DELAY_MS = 1000"

definition AUTH_THROTTLE_MAX_DELAY_MS :: int where
  "AUTH_THROTTLE_MAX_DELAY_MS = 15 * 60000"

definition AUTH_THROTTLE_RESET_AFTER_MS :: int where
  "AUTH_THROTTLE_RESET_AFTER_MS = 15 * 60000"

definition SHARED_SWEEP_INTERVAL_MS :: int where
  "SHARED_SWEEP_INTERVAL_MS = 10 * 60000"

definition SHARED_ERROR_LOG_INTERVAL_MS :: int where
  "SHARED_ERROR_LOG_INTERVAL_MS = 60000"

definition READ_MEMO_MS :: int where
  "READ_MEMO_MS = 30000"

definition MAX_READ_MEMO :: nat where
  "MAX_READ_MEMO = 10000"

definition MAX_BLOCK_CACHE :: nat where
  "MAX_BLOCK_CACHE = 10000"

definition blockedUntil :: "throttle_counter option \<Rightarrow> int \<Rightarrow> throttle_policy \<Rightarrow> int" where
  "blockedUntil c now p =
     (case c of
        None \<Rightarrow> 0
      | Some c \<Rightarrow>
          if tc_fails c < tp_freeFailures p then 0
          else if now - tc_lastFailAt c \<ge> tp_resetAfterMs p then 0
          else let ex = min (tc_fails c - tp_freeFailures p) 30;
                   delay = min (tp_baseDelayMs p * 2 ^ ex) (tp_maxDelayMs p);
                   until = tc_lastFailAt c + delay
               in if until > now then until else 0)"

section \<open>Addresses\<close>

definition UNKNOWN :: string where
  "UNKNOWN = ''unknown''"

definition MAX_ACCOUNT_KEY_LEN :: nat where
  "MAX_ACCOUNT_KEY_LEN = 254"

definition accountKeyOf :: "string option \<Rightarrow> string option" where
  "accountKeyOf account =
     (let s = toLowerCase (trim (case account of Some a \<Rightarrow> a | None \<Rightarrow> [])) in
      if s = [] then None else Some (take MAX_ACCOUNT_KEY_LEN s))"

definition isLoopback :: "string \<Rightarrow> bool" where
  "isLoopback addr \<longleftrightarrow> addr = ''127.0.0.1'' \<or> addr = ''::1'' \<or> addr = ''::ffff:127.0.0.1''"

definition trustLoopbackOnly :: "string \<Rightarrow> bool" where
  "trustLoopbackOnly = isLoopback"

datatype forwarded = FW_undefined | FW_one string | FW_many "string list"

definition claimedForwardedFor :: "forwarded \<Rightarrow> string option" where
  "claimedForwardedFor fw =
     (case fw of
        FW_one v \<Rightarrow> (let f = trim (hd (split_char (CHR '','') v)) in if f = [] then None else Some f)
      | _ \<Rightarrow> None)"

definition stripBrackets :: "string \<Rightarrow> string" where
  "stripBrackets addr =
     (if startsWith ''['' addr \<and> endsWith '']'' addr then butlast (tl addr) else addr)"

definition stripZone :: "string \<Rightarrow> string" where
  "stripZone addr = (case indexOf (CHR ''%'') addr of None \<Rightarrow> addr | Some i \<Rightarrow> take i addr)"

text \<open>\<open>/^::ffff:(\d+\.\d+\.\d+\.\d+)$/i\<close>.\<close>

definition mappedText :: "string \<Rightarrow> string option" where
  "mappedText ip =
     (let r = drop 7 ip; parts = split_char DOT r in
      if toLowerCase (take 7 ip) = ''::ffff:'' \<and> length parts = 4 \<and> list_all all_digits parts then Some r else None)"

definition normalizeIp :: "string option \<Rightarrow> string" where
  "normalizeIp ip =
     (case ip of
        None \<Rightarrow> UNKNOWN
      | Some a \<Rightarrow> if a = [] then UNKNOWN else case mappedText a of Some v4 \<Rightarrow> v4 | None \<Rightarrow> a)"

definition clientIpOf :: "(string \<Rightarrow> nat) \<Rightarrow> forwarded \<Rightarrow> string option \<Rightarrow> (string \<Rightarrow> bool) \<Rightarrow> string" where
  "clientIpOf isIP forwardedFor remoteAddress trustPeer =
     (let peer = (case remoteAddress of Some a \<Rightarrow> a | None \<Rightarrow> []);
          bare = (if trustPeer peer then map_option (\<lambda>c. stripZone (stripBrackets c)) (claimedForwardedFor forwardedFor) else None)
      in case bare of
           Some b \<Rightarrow> if isIP b \<noteq> 0 then normalizeIp (Some b) else normalizeIp (Some peer)
         | None \<Rightarrow> normalizeIp (Some peer))"

text \<open>\<open>parseInt(p, 16)\<close> on hexadecimal digits in lower case, and \<open>toString(16)\<close>.\<close>

definition is_hex :: "char \<Rightarrow> bool" where
  "is_hex c \<longleftrightarrow> is_digit c \<or> (97 \<le> code c \<and> code c \<le> 102)"

definition hexDigit :: "char \<Rightarrow> nat" where
  "hexDigit c = (if is_digit c then code c - 48 else code c - 87)"

definition hexNumber :: "string \<Rightarrow> nat" where
  "hexNumber s = foldl (\<lambda>n c. 16 * n + hexDigit c) 0 s"

fun show_hex :: "nat \<Rightarrow> string" where
  "show_hex n = (if n < 16 then [hexChar n] else show_hex (n div 16) @ [hexChar (n mod 16)])"

declare show_hex.simps [simp del]

text \<open>The dotted tail \<open>(\d{1,3})\.(\d{1,3})\.(\d{1,3})\.(\d{1,3})$\<close> and where it starts.\<close>

definition isDotted :: "string \<Rightarrow> bool" where
  "isDotted s \<longleftrightarrow>
     (let parts = split_char DOT s in length parts = 4 \<and> list_all (\<lambda>p. all_digits p \<and> length p \<le> 3) parts)"

definition dottedIndex :: "string \<Rightarrow> nat option" where
  "dottedIndex s = List.find (\<lambda>i. isDotted (drop i s)) [0..<length s]"

definition dottedToHex :: "string \<Rightarrow> string option" where
  "dottedToHex s =
     (case dottedIndex s of
        None \<Rightarrow> Some s
      | Some i \<Rightarrow>
          (let octets = map digits_value (split_char DOT (drop i s)) in
           if list_ex (\<lambda>n. n > 255) octets then None
           else Some (take i s @ show_hex (octets ! 0 * 256 + octets ! 1) @ '':'' @ show_hex (octets ! 2 * 256 + octets ! 3))))"

text \<open>\<open>split("::")\<close>.\<close>

function split_colons :: "string \<Rightarrow> string list" where
  "split_colons s =
     (case sub_index ''::'' s of None \<Rightarrow> [s] | Some i \<Rightarrow> take i s # split_colons (drop (i + 2) s))"
  by pat_completeness auto
termination
  by (relation "measure length") (auto dest!: sub_index_bound)

declare split_colons.simps [simp del]

definition hextetsOf :: "string \<Rightarrow> string list" where
  "hextetsOf half = (if half = [] then [] else split_char (CHR '':'') half)"

definition hextetOk :: "string \<Rightarrow> bool" where
  "hextetOk p \<longleftrightarrow> p \<noteq> [] \<and> length p \<le> 4 \<and> list_all is_hex p"

definition normalHextets :: "string list \<Rightarrow> string list option" where
  "normalHextets parts =
     (if list_all hextetOk parts \<and> length parts = 8 then Some (map (\<lambda>p. show_hex (hexNumber p)) parts) else None)"

definition expandIpv6 :: "string \<Rightarrow> string list option" where
  "expandIpv6 addr =
     (case dottedToHex (toLowerCase addr) of
        None \<Rightarrow> None
      | Some s \<Rightarrow>
          (case split_colons s of
             [one] \<Rightarrow>
               (let head = hextetsOf one in if length head \<noteq> 8 then None else normalHextets head)
           | [a, b] \<Rightarrow>
               (let head = hextetsOf a; tail = hextetsOf b in
                if length head + length tail > 8 then None
                else normalHextets (head @ replicate (8 - length head - length tail) ''0'' @ tail))
           | _ \<Rightarrow> None))"

definition ipv4Of :: "(string \<Rightarrow> nat) \<Rightarrow> string \<Rightarrow> string option" where
  "ipv4Of isIP addr =
     (if isIP addr = 4 then Some addr
      else if isIP addr \<noteq> 6 then None
      else case expandIpv6 addr of
             None \<Rightarrow> None
           | Some h \<Rightarrow>
               if take 6 h = [''0'', ''0'', ''0'', ''0'', ''0'', ''ffff'']
               then (let hi = hexNumber (h ! 6); lo = hexNumber (h ! 7) in
                     Some (show_nat (hi div 256) @ ''.'' @ show_nat (hi mod 256) @ ''.'' @
                           show_nat (lo div 256) @ ''.'' @ show_nat (lo mod 256)))
               else None)"

definition throttleKeyOf :: "(string \<Rightarrow> nat) \<Rightarrow> string option \<Rightarrow> string" where
  "throttleKeyOf isIP addr =
     (let raw = trim (case addr of Some a \<Rightarrow> a | None \<Rightarrow> []) in
      if raw = [] then UNKNOWN
      else let bare = stripZone (stripBrackets raw) in
           case ipv4Of isIP bare of
             Some v4 \<Rightarrow> v4
           | None \<Rightarrow>
               if isIP bare \<noteq> 6 then UNKNOWN
               else case expandIpv6 bare of
                      None \<Rightarrow> UNKNOWN
                    | Some hextets \<Rightarrow> join '':'' (take 4 hextets) @ ''::/64'')"

section \<open>The throttle\<close>

datatype axis_name = AX_ip | AX_account

record axis =
  ax_axis :: axis_name
  ax_id :: string
  ax_key :: string

record auth_subject =
  as_ip :: "string option"
  as_account :: "string option"

definition IP_PREFIX :: string where
  "IP_PREFIX = ''ip|''"

definition ACCOUNT_PREFIX :: string where
  "ACCOUNT_PREFIX = ''account|''"

definition axesOf :: "(string \<Rightarrow> nat) \<Rightarrow> auth_subject \<Rightarrow> axis list" where
  "axesOf isIP s =
     (case as_ip s of
        None \<Rightarrow> []
      | Some ip \<Rightarrow>
          (let key = throttleKeyOf isIP (Some ip) in [\<lparr>ax_axis = AX_ip, ax_id = key, ax_key = IP_PREFIX @ key\<rparr>])) @
     (case accountKeyOf (as_account s) of
        None \<Rightarrow> []
      | Some account \<Rightarrow> [\<lparr>ax_axis = AX_account, ax_id = account, ax_key = ACCOUNT_PREFIX @ account\<rparr>])"

record throttle =
  th_local :: "(string \<times> throttle_counter) list"
  th_readMemo :: "(string \<times> int \<times> bool) list"
  th_blockCache :: "(string \<times> int) list"
  th_unsynced :: "(string \<times> int) list"
  th_lastLocalSweep :: int
  th_lastSharedSweep :: int
  th_lastSharedErrorLog :: int
  th_policy :: throttle_policy
  th_shared :: bool

datatype throttle_log = LogThrottled axis_name string nat | LogSharedFailed

record throttle_options =
  to_freeFailures :: "nat option"
  to_baseDelayMs :: "int option"
  to_maxDelayMs :: "int option"
  to_resetAfterMs :: "int option"
  to_shared :: bool

definition default_to :: "'a \<Rightarrow> 'a option \<Rightarrow> 'a" where
  "default_to d x = (case x of Some v \<Rightarrow> v | None \<Rightarrow> d)"

definition throttle_new :: "throttle_options \<Rightarrow> throttle" where
  "throttle_new opts =
     \<lparr>th_local = [], th_readMemo = [], th_blockCache = [], th_unsynced = [], th_lastLocalSweep = 0, th_lastSharedSweep = 0,
      th_lastSharedErrorLog = 0,
      th_policy = \<lparr>tp_freeFailures = default_to AUTH_THROTTLE_FREE_FAILURES (to_freeFailures opts),
                   tp_baseDelayMs = default_to AUTH_THROTTLE_BASE_DELAY_MS (to_baseDelayMs opts),
                   tp_maxDelayMs = default_to AUTH_THROTTLE_MAX_DELAY_MS (to_maxDelayMs opts),
                   tp_resetAfterMs = default_to AUTH_THROTTLE_RESET_AFTER_MS (to_resetAfterMs opts)\<rparr>,
      th_shared = to_shared opts\<rparr>"

definition attachShared :: "throttle \<Rightarrow> throttle" where
  "attachShared th = th\<lparr>th_shared := True\<rparr>"

definition sharedFailed :: "int \<Rightarrow> throttle \<Rightarrow> throttle \<times> throttle_log list" where
  "sharedFailed now th =
     (if now - th_lastSharedErrorLog th < SHARED_ERROR_LOG_INTERVAL_MS then (th, [])
      else (th\<lparr>th_lastSharedErrorLog := now\<rparr>, [LogSharedFailed]))"

subsection \<open>\<open>retryAfterSeconds\<close>\<close>

text \<open>The loop over the cached decisions; expired ones are dropped.\<close>

definition cacheStep :: "int \<Rightarrow> axis \<Rightarrow> int \<times> (string \<times> int) list \<Rightarrow> int \<times> (string \<times> int) list" where
  "cacheStep now ax s =
     (case map_of (snd s) (ax_key ax) of
        None \<Rightarrow> s
      | Some u \<Rightarrow> if u > now then (max (fst s) u, snd s) else (fst s, AList.delete (ax_key ax) (snd s)))"

definition waitSeconds :: "int \<Rightarrow> int \<Rightarrow> int" where
  "waitSeconds until now = max 1 ((until - now + 999) div 1000)"

datatype retry_step = RetryAnswer int | RetryRead "axis list"

definition retryStart :: "(string \<Rightarrow> nat) \<Rightarrow> auth_subject \<Rightarrow> int \<Rightarrow> throttle \<Rightarrow> throttle \<times> retry_step" where
  "retryStart isIP subject now th =
     (let axes = axesOf isIP subject in
      if axes = [] then (th, RetryAnswer 0)
      else let (cached, cache) = fold (cacheStep now) axes (0, th_blockCache th);
               th1 = th\<lparr>th_blockCache := cache\<rparr>
           in if cached > now then (th1, RetryAnswer (waitSeconds cached now)) else (th1, RetryRead axes))"

text \<open>\<open>readShared\<close> after the store answered; without a store there is nothing to wait for.\<close>

definition readShared ::
  "string list \<Rightarrow> int \<Rightarrow> (string \<Rightarrow> throttle_counter option) option \<Rightarrow> throttle \<Rightarrow>
   throttle \<times> (string \<Rightarrow> throttle_counter option) option \<times> throttle_log list" where
  "readShared keys now got th =
     (if \<not> th_shared th then (th, None, [])
      else case got of
             None \<Rightarrow> (case sharedFailed now th of (th1, logs) \<Rightarrow> (th1, None, logs))
           | Some m \<Rightarrow>
               (let memo = (if length (th_readMemo th) \<ge> MAX_READ_MEMO then [] else th_readMemo th) in
                (th\<lparr>th_readMemo := fold (\<lambda>k. AList.update k (now, m k \<noteq> None)) keys memo\<rparr>, Some m, [])))"

definition isUnsynced :: "string \<Rightarrow> int \<Rightarrow> throttle \<Rightarrow> throttle \<times> bool" where
  "isUnsynced key now th =
     (case map_of (th_unsynced th) key of
        None \<Rightarrow> (th, False)
      | Some u \<Rightarrow> if u > now then (th, True) else (th\<lparr>th_unsynced := AList.delete key (th_unsynced th)\<rparr>, False))"

definition axisUntil ::
  "(string \<Rightarrow> throttle_counter option) option \<Rightarrow> int \<Rightarrow> axis \<Rightarrow> throttle \<Rightarrow> throttle \<times> int" where
  "axisUntil shared now ax th =
     (let lcl = blockedUntil (map_of (th_local th) (ax_key ax)) now (th_policy th) in
      case shared of
        None \<Rightarrow> (th, lcl)
      | Some m \<Rightarrow>
          (let shr = blockedUntil (m (ax_key ax)) now (th_policy th);
               (th1, uns) = isUnsynced (ax_key ax) now th
           in (th1, if uns then max lcl shr else shr)))"

definition cacheBlock :: "string \<Rightarrow> int \<Rightarrow> throttle \<Rightarrow> throttle" where
  "cacheBlock key u th =
     th\<lparr>th_blockCache := AList.update key u (if length (th_blockCache th) \<ge> MAX_BLOCK_CACHE then [] else th_blockCache th)\<rparr>"

fun axesUntil ::
  "(string \<Rightarrow> throttle_counter option) option \<Rightarrow> int \<Rightarrow> axis list \<Rightarrow> throttle \<Rightarrow> int \<Rightarrow> throttle \<times> int" where
  "axesUntil shared now [] th until = (th, until)"
| "axesUntil shared now (ax # axes) th until =
     (case axisUntil shared now ax th of
        (th1, u) \<Rightarrow> axesUntil shared now axes (if u > now then cacheBlock (ax_key ax) u th1 else th1) (max until u))"

definition retryFinish ::
  "axis list \<Rightarrow> int \<Rightarrow> (string \<Rightarrow> throttle_counter option) option \<Rightarrow> throttle \<Rightarrow> throttle \<times> int \<times> throttle_log list" where
  "retryFinish axes now got th =
     (case readShared (map ax_key axes) now got th of
        (th1, shared, logs) \<Rightarrow>
          (case axesUntil shared now axes th1 0 of
             (th2, until) \<Rightarrow> (th2, if until > now then waitSeconds until now else 0, logs)))"

subsection \<open>\<open>recordFailure\<close>\<close>

definition nextCounter :: "throttle_counter option \<Rightarrow> int \<Rightarrow> throttle_policy \<Rightarrow> throttle_counter" where
  "nextCounter prev now p =
     (case prev of
        None \<Rightarrow> \<lparr>tc_fails = 1, tc_lastFailAt = now\<rparr>
      | Some c \<Rightarrow>
          if now - tc_lastFailAt c \<ge> tp_resetAfterMs p then \<lparr>tc_fails = 1, tc_lastFailAt = now\<rparr>
          else \<lparr>tc_fails = tc_fails c + 1, tc_lastFailAt = now\<rparr>)"

definition countFailure :: "int \<Rightarrow> axis \<Rightarrow> throttle \<times> throttle_log list \<Rightarrow> throttle \<times> throttle_log list" where
  "countFailure now ax s =
     (let th = fst s;
          nxt = nextCounter (map_of (th_local th) (ax_key ax)) now (th_policy th)
      in (th\<lparr>th_local := AList.update (ax_key ax) nxt (th_local th), th_readMemo := AList.delete (ax_key ax) (th_readMemo th)\<rparr>,
          snd s @ (if tc_fails nxt = tp_freeFailures (th_policy th) then [LogThrottled (ax_axis ax) (ax_id ax) (tc_fails nxt)] else [])))"

definition sweepLocal :: "int \<Rightarrow> throttle \<Rightarrow> throttle" where
  "sweepLocal now th =
     (if now - th_lastLocalSweep th < tp_resetAfterMs (th_policy th) then th
      else th\<lparr>th_lastLocalSweep := now,
              th_local := filter (\<lambda>(k, c). \<not> now - tc_lastFailAt c \<ge> tp_resetAfterMs (th_policy th)) (th_local th),
              th_readMemo := filter (\<lambda>(k, m). \<not> now - fst m \<ge> READ_MEMO_MS) (th_readMemo th),
              th_blockCache := filter (\<lambda>(k, u). \<not> u \<le> now) (th_blockCache th),
              th_unsynced := filter (\<lambda>(k, u). \<not> u \<le> now) (th_unsynced th)\<rparr>)"

text \<open>The counting, then the axes whose failure is to be written to the store.\<close>

definition recordStart :: "(string \<Rightarrow> nat) \<Rightarrow> auth_subject \<Rightarrow> int \<Rightarrow> throttle \<Rightarrow> throttle \<times> axis list \<times> throttle_log list" where
  "recordStart isIP subject now th =
     (let axes = axesOf isIP subject;
          (th1, logs) = fold (countFailure now) axes (th, []);
          th2 = sweepLocal now th1
      in (th2, if \<not> th_shared th then [] else axes, logs))"

definition recordWrite :: "axis \<Rightarrow> int \<Rightarrow> bool \<Rightarrow> throttle \<Rightarrow> throttle \<times> throttle_log list" where
  "recordWrite ax now written th =
     (if written then (th, [])
      else sharedFailed now
        (th\<lparr>th_unsynced := AList.update (ax_key ax) (now + tp_resetAfterMs (th_policy th))
             (if length (th_unsynced th) \<ge> MAX_BLOCK_CACHE then [] else th_unsynced th)\<rparr>))"

text \<open>Whether the store is to be swept, and what a failure of that does.\<close>

definition recordSweep :: "int \<Rightarrow> throttle \<Rightarrow> throttle \<times> bool" where
  "recordSweep now th =
     (if now - th_lastSharedSweep th \<ge> SHARED_SWEEP_INTERVAL_MS then (th\<lparr>th_lastSharedSweep := now\<rparr>, True) else (th, False))"

definition recordSwept :: "int \<Rightarrow> bool \<Rightarrow> throttle \<Rightarrow> throttle \<times> throttle_log list" where
  "recordSwept now swept th = (if swept then (th, []) else sharedFailed now th)"

subsection \<open>\<open>clear\<close>\<close>

definition forget :: "axis \<Rightarrow> throttle \<Rightarrow> throttle" where
  "forget ax th =
     th\<lparr>th_local := AList.delete (ax_key ax) (th_local th), th_blockCache := AList.delete (ax_key ax) (th_blockCache th),
        th_unsynced := AList.delete (ax_key ax) (th_unsynced th)\<rparr>"

definition knownAbsent :: "int \<Rightarrow> throttle \<Rightarrow> string \<Rightarrow> bool" where
  "knownAbsent now th k =
     (case map_of (th_readMemo th) k of None \<Rightarrow> False | Some (at, present) \<Rightarrow> \<not> present \<and> now - at < READ_MEMO_MS)"

definition clearStart :: "(string \<Rightarrow> nat) \<Rightarrow> auth_subject \<Rightarrow> int \<Rightarrow> throttle \<Rightarrow> throttle \<times> string list" where
  "clearStart isIP subject now th =
     (let axes = axesOf isIP subject; th1 = fold forget axes th in
      (th1, if \<not> th_shared th then [] else filter (\<lambda>k. \<not> knownAbsent now th1 k) (map ax_key axes)))"

definition clearFinish :: "string list \<Rightarrow> int \<Rightarrow> bool \<Rightarrow> throttle \<Rightarrow> throttle \<times> throttle_log list" where
  "clearFinish toClear now cleared th =
     (if cleared then (th\<lparr>th_readMemo := fold (\<lambda>k. AList.update k (now, False)) toClear (th_readMemo th)\<rparr>, [])
      else sharedFailed now th)"

end
