(* ===== verification/ThrottleSafety.thy ===== *)
theory ThrottleSafety
  imports AuthThrottle
begin

text \<open>
  Runs of the login throttle: any interleaving of checks, failures and successes, cut at the waits for the shared
  store, with any answers of that store. Time does not go back from call to call; a step after a wait uses
  the time at which its call began.

  Shown: when the store cannot be read, a login is let through only if the failures counted in this process have
  been waited out; a wait never ends later than the longest delay after the present; and addresses are counted by
  /64 network, or as IPv4 when they are mapped.
\<close>

section \<open>Runs\<close>

datatype throttle_event = Failed "string list" int | Succeeded "string list"

text \<open>What is to be counted for a key: its failures since the last success, newest event first.\<close>

fun failures :: "throttle_policy \<Rightarrow> throttle_event list \<Rightarrow> string \<Rightarrow> throttle_counter option" where
  "failures p [] k = None"
| "failures p (Failed keys now # log) k =
     (if k \<in> set keys then Some (nextCounter (failures p log k) now p) else failures p log k)"
| "failures p (Succeeded keys # log) k = (if k \<in> set keys then None else failures p log k)"

inductive throttle_run :: "(string \<Rightarrow> nat) \<Rightarrow> throttle_options \<Rightarrow> throttle_event list \<Rightarrow> int \<Rightarrow> throttle \<Rightarrow> bool"
  for isIP opts where
  start: "0 \<le> t \<Longrightarrow> throttle_run isIP opts [] t (throttle_new opts)"
| attach: "throttle_run isIP opts log t th \<Longrightarrow> throttle_run isIP opts log t (attachShared th)"
| check: "throttle_run isIP opts log t th \<Longrightarrow> t \<le> now \<Longrightarrow> throttle_run isIP opts log now (fst (retryStart isIP s now th))"
| checked: "throttle_run isIP opts log t th \<Longrightarrow> now \<le> t \<Longrightarrow>
    (\<And>m k c. got = Some m \<Longrightarrow> m k = Some c \<Longrightarrow> tc_lastFailAt c \<le> t) \<Longrightarrow>
    throttle_run isIP opts log t (fst (retryFinish (axesOf isIP s) now got th))"
| failed: "throttle_run isIP opts log t th \<Longrightarrow> t \<le> now \<Longrightarrow>
    throttle_run isIP opts (Failed (map ax_key (axesOf isIP s)) now # log) now (fst (recordStart isIP s now th))"
| "write": "throttle_run isIP opts log t th \<Longrightarrow> now \<le> t \<Longrightarrow> throttle_run isIP opts log t (fst (recordWrite ax now ok th))"
| sweep: "throttle_run isIP opts log t th \<Longrightarrow> now \<le> t \<Longrightarrow> throttle_run isIP opts log t (fst (recordSweep now th))"
| swept: "throttle_run isIP opts log t th \<Longrightarrow> now \<le> t \<Longrightarrow> throttle_run isIP opts log t (fst (recordSwept now ok th))"
| succeeded: "throttle_run isIP opts log t th \<Longrightarrow> t \<le> now \<Longrightarrow>
    throttle_run isIP opts (Succeeded (map ax_key (axesOf isIP s)) # log) now (fst (clearStart isIP s now th))"
| cleared: "throttle_run isIP opts log t th \<Longrightarrow> now \<le> t \<Longrightarrow> throttle_run isIP opts log t (fst (clearFinish ks now ok th))"

section \<open>Frames\<close>

text \<open>The steps that leave the counters and the policy alone.\<close>

definition same_counts :: "throttle \<Rightarrow> throttle \<Rightarrow> bool" where
  "same_counts th th' \<longleftrightarrow> th_local th' = th_local th \<and> th_policy th' = th_policy th"

lemma same_counts_refl [simp]: "same_counts th th"
  by (simp add: same_counts_def)

lemma same_counts_trans: "same_counts a b \<Longrightarrow> same_counts b c \<Longrightarrow> same_counts a c"
  by (simp add: same_counts_def)

lemma same_counts_update [simp]:
  "same_counts th (th\<lparr>th_readMemo := m\<rparr>)" "same_counts th (th\<lparr>th_blockCache := b\<rparr>)" "same_counts th (th\<lparr>th_unsynced := u\<rparr>)"
  "same_counts th (th\<lparr>th_lastSharedSweep := t\<rparr>)" "same_counts th (th\<lparr>th_lastSharedErrorLog := t\<rparr>)" "same_counts th (th\<lparr>th_shared := x\<rparr>)"
  by (simp_all add: same_counts_def)

lemma sharedFailed_same: "same_counts th (fst (sharedFailed now th))"
  by (simp add: sharedFailed_def)

lemma readShared_same: "same_counts th (fst (readShared keys now got th))"
  using sharedFailed_same [of th now] by (auto simp: readShared_def Let_def split: option.splits prod.splits)

lemma axisUntil_same: "same_counts th (fst (axisUntil shared now ax th))"
  by (auto simp: axisUntil_def isUnsynced_def Let_def split: option.splits)

lemma axesUntil_same: "same_counts th (fst (axesUntil shared now axes th until))"
proof (induction axes arbitrary: th until)
  case (Cons ax axes)
  obtain th1 u where u: "axisUntil shared now ax th = (th1, u)" by force
  have "same_counts th th1" using axisUntil_same [of th shared now ax] u by simp
  moreover have "same_counts th1 (cacheBlock (ax_key ax) u th1)" by (simp add: cacheBlock_def)
  ultimately show ?case
    using Cons same_counts_trans u by (auto intro: same_counts_trans)
qed simp

lemma retryFinish_same: "same_counts th (fst (retryFinish axes now got th))"
proof -
  obtain th1 shared logs where r: "readShared (map ax_key axes) now got th = (th1, shared, logs)" by (metis prod_cases3)
  then have "same_counts th th1" using readShared_same [of th "map ax_key axes" now got] by simp
  moreover have "same_counts th1 (fst (axesUntil shared now axes th1 0))" by (rule axesUntil_same)
  ultimately show ?thesis by (auto simp: retryFinish_def r split: prod.splits intro: same_counts_trans)
qed

lemma retryStart_same: "same_counts th (fst (retryStart isIP s now th))"
  by (auto simp: retryStart_def Let_def split: prod.splits)

lemma recordWrite_same: "same_counts th (fst (recordWrite ax now ok th))"
  unfolding recordWrite_def by (auto intro: same_counts_trans [OF _ sharedFailed_same])

lemma others_same:
  "same_counts th (fst (recordSweep now th))" "same_counts th (fst (recordSwept now ok th))"
  "same_counts th (fst (clearFinish ks now ok th))" "same_counts th (attachShared th)"
  by (simp_all add: recordSweep_def recordSwept_def clearFinish_def attachShared_def sharedFailed_same)

section \<open>Counting\<close>

text \<open>A counter that was swept away has expired, so that it would count for nothing.\<close>

definition counts :: "throttle_policy \<Rightarrow> int \<Rightarrow> throttle_counter option \<Rightarrow> throttle_counter option \<Rightarrow> bool" where
  "counts p t l c \<longleftrightarrow> l = c \<or> (l = None \<and> (\<exists>d. c = Some d \<and> tp_resetAfterMs p \<le> t - tc_lastFailAt d))"

lemma counts_later: "counts p t l c \<Longrightarrow> t \<le> t' \<Longrightarrow> counts p t' l c"
  by (auto simp: counts_def)

lemma counts_next: "counts p t l c \<Longrightarrow> t \<le> now \<Longrightarrow> nextCounter l now p = nextCounter c now p"
  by (auto simp: counts_def nextCounter_def)

lemma distinct_axes: "distinct (map ax_key (axesOf isIP s))"
  by (auto simp: axesOf_def IP_PREFIX_def ACCOUNT_PREFIX_def Let_def split: option.splits)

lemma countFailure_fold:
  assumes "distinct (map ax_key axes)"
  shows "map_of (th_local (fst (fold (countFailure now) axes (th, logs)))) k =
      (if k \<in> ax_key ` set axes then Some (nextCounter (map_of (th_local th) k) now (th_policy th)) else map_of (th_local th) k) \<and>
    th_policy (fst (fold (countFailure now) axes (th, logs))) = th_policy th \<and>
    th_blockCache (fst (fold (countFailure now) axes (th, logs))) = th_blockCache th"
  using assms
proof (induction axes arbitrary: th logs)
  case (Cons ax axes)
  obtain th1 logs1 where t: "countFailure now ax (th, logs) = (th1, logs1)" by force
  then have th1: "th_local th1 = AList.update (ax_key ax) (nextCounter (map_of (th_local th) (ax_key ax)) now (th_policy th)) (th_local th)"
      "th_policy th1 = th_policy th" "th_blockCache th1 = th_blockCache th"
    by (auto simp: countFailure_def Let_def)
  show ?case using Cons.IH [of th1 logs1] Cons.prems by (auto simp: t th1 update_conv')
qed simp

lemma map_of_filter_values:
  "distinct (map fst xs) \<Longrightarrow> map_of (filter (\<lambda>(k, v). P v) xs) k = (case map_of xs k of Some v \<Rightarrow> if P v then Some v else None | None \<Rightarrow> None)"
  by (induction xs) (auto split: option.splits simp: map_of_eq_None_iff rev_image_eqI)


definition th_counted :: "throttle_policy \<Rightarrow> throttle_event list \<Rightarrow> int \<Rightarrow> throttle \<Rightarrow> bool" where
  "th_counted p log t th \<longleftrightarrow> th_policy th = p \<and> distinct (map fst (th_local th)) \<and> 0 \<le> t \<and>
     (\<forall>k. counts p t (map_of (th_local th) k) (failures p log k)) \<and>
     (\<forall>k c. map_of (th_local th) k = Some c \<longrightarrow> tc_lastFailAt c \<le> t)"

lemma counted_same: "th_counted p log t th \<Longrightarrow> same_counts th th' \<Longrightarrow> t \<le> t' \<Longrightarrow> th_counted p log t' th'"
  by (fastforce simp: th_counted_def same_counts_def intro: counts_later)

lemma nextCounter_time [simp]: "tc_lastFailAt (nextCounter c now p) = now"
  by (simp add: nextCounter_def split: option.split)

lemma distinct_countFailure:
  "distinct (map fst (th_local th)) \<Longrightarrow> distinct (map fst (th_local (fst (fold (countFailure now) axes (th, logs)))))"
proof (induction axes arbitrary: th logs)
  case (Cons ax axes)
  obtain th1 logs1 where t: "countFailure now ax (th, logs) = (th1, logs1)" by force
  then have "distinct (map fst (th_local th1))"
    using Cons.prems by (auto simp: countFailure_def Let_def distinct_update)
  then show ?case using Cons.IH [of th1 logs1] t by simp
qed simp

lemma counted_failures:
  assumes "th_counted p log t th" "t \<le> now"
  shows "th_counted p (Failed (map ax_key (axesOf isIP s)) now # log) now (fst (fold (countFailure now) (axesOf isIP s) (th, logs)))"
proof -
  note f = countFailure_fold [OF distinct_axes [of isIP s], of now th logs]
  have c: "counts p t (map_of (th_local th) k) (failures p log k)" for k using assms(1) by (simp add: th_counted_def)
  have time: "\<forall>k c. map_of (th_local th) k = Some c \<longrightarrow> tc_lastFailAt c \<le> now"
    using assms by (force simp: th_counted_def)
  show ?thesis
    using assms distinct_countFailure [of th now "axesOf isIP s" logs] time
    by (auto simp: th_counted_def f counts_next [OF c] counts_later [OF c] counts_def [of p now "Some _"])
qed

lemma counted_sweep:
  assumes "th_counted p log now th"
  shows "th_counted p log now (sweepLocal now th)"
proof (cases "now - th_lastLocalSweep th < tp_resetAfterMs p")
  case False
  have d: "distinct (map fst (th_local th))" using assms by (simp add: th_counted_def)
  have l: "map_of (th_local (sweepLocal now th)) k = (case map_of (th_local th) k of
      Some c \<Rightarrow> if \<not> now - tc_lastFailAt c \<ge> tp_resetAfterMs p then Some c else None | None \<Rightarrow> None)" for k
    using False assms map_of_filter_values [OF d, of "\<lambda>c. \<not> now - tc_lastFailAt c \<ge> tp_resetAfterMs p" k]
    by (simp add: sweepLocal_def th_counted_def)
  have "distinct (map fst (th_local (sweepLocal now th)))" using d by (simp add: sweepLocal_def distinct_map_filter)
  moreover have "counts p now (map_of (th_local (sweepLocal now th)) k) (failures p log k)" for k
  proof -
    have "counts p now (map_of (th_local th) k) (failures p log k)" using assms by (simp add: th_counted_def)
    then show ?thesis by (auto simp: l counts_def split: option.splits if_splits)
  qed
  moreover have "tc_lastFailAt c \<le> now" if "map_of (th_local (sweepLocal now th)) k = Some c" for k c
    using assms that by (auto simp: l th_counted_def split: option.splits if_splits)
  ultimately show ?thesis
    using assms by (simp add: th_counted_def) (simp add: sweepLocal_def)
qed (use assms in \<open>simp add: sweepLocal_def th_counted_def\<close>)

lemma counted_forget:
  assumes "th_counted p log t th" "t \<le> now"
  shows "th_counted p (Succeeded (map ax_key axes) # log) now (fold forget axes th)"
proof -
  have f: "map_of (th_local (fold forget axes th)) k = (if k \<in> ax_key ` set axes then None else map_of (th_local th) k) \<and>
      th_policy (fold forget axes th) = th_policy th \<and>
      (distinct (map fst (th_local th)) \<longrightarrow> distinct (map fst (th_local (fold forget axes th))))" for k
    by (induction axes arbitrary: th) (auto simp: forget_def delete_conv' distinct_delete)
  show ?thesis
    using assms f by (fastforce simp: th_counted_def counts_def)
qed

lemma run_counted: "throttle_run isIP opts log t th \<Longrightarrow> th_counted (th_policy (throttle_new opts)) log t th"
proof (induction rule: throttle_run.induct)
  case (start t)
  then show ?case by (simp add: th_counted_def throttle_new_def counts_def)
next
  case (failed log t th now s)
  then show ?case
    using counted_sweep [OF counted_failures [OF failed.IH failed.hyps(2), of isIP s "[]"]]
    by (simp add: recordStart_def Let_def case_prod_unfold)
next
  case (succeeded log t th now s)
  then show ?case
    using counted_forget [OF succeeded.IH succeeded.hyps(2)] by (simp add: clearStart_def Let_def)
qed (auto elim!: counted_same simp: retryStart_same retryFinish_same recordWrite_same others_same)

section \<open>Decisions\<close>




lemma blockedUntil_max: "blockedUntil c now p = 0 \<or> (\<exists>d. c = Some d \<and> blockedUntil c now p \<le> tc_lastFailAt d + tp_maxDelayMs p)"
  by (auto simp: blockedUntil_def Let_def split: option.splits)


definition still_unsynced :: "int \<Rightarrow> throttle \<Rightarrow> string \<Rightarrow> bool" where
  "still_unsynced now th k = (case map_of (th_unsynced th) k of None \<Rightarrow> False | Some u \<Rightarrow> u > now)"

text \<open>Whose counters a decision on a key rests on.\<close>

definition local_counts :: "(string \<Rightarrow> throttle_counter option) option \<Rightarrow> int \<Rightarrow> throttle \<Rightarrow> string \<Rightarrow> bool" where
  "local_counts shared now th k \<longleftrightarrow> shared = None \<or> still_unsynced now th k"

lemma axisUntil_bounds:
  assumes "axisUntil shared now ax th = (th1, u)"
  shows "local_counts shared now th (ax_key ax) \<Longrightarrow> blockedUntil (map_of (th_local th) (ax_key ax)) now (th_policy th) \<le> u"
    "shared = Some m \<Longrightarrow> blockedUntil (m (ax_key ax)) now (th_policy th) \<le> u"
    "still_unsynced now th1 k = still_unsynced now th k"
    "th_blockCache th1 = th_blockCache th"
  using assms
  by (auto simp: axisUntil_def isUnsynced_def still_unsynced_def local_counts_def delete_conv' Let_def split: option.splits if_splits)



section \<open>How long a wait can be\<close>

definition cached_until :: "int \<Rightarrow> throttle \<Rightarrow> bool" where
  "cached_until b th \<longleftrightarrow> (\<forall>(k, u) \<in> set (th_blockCache th). u \<le> b)"

definition stored_until :: "int \<Rightarrow> (string \<Rightarrow> throttle_counter option) option \<Rightarrow> bool" where
  "stored_until t got \<longleftrightarrow> (\<forall>m k c. got = Some m \<longrightarrow> m k = Some c \<longrightarrow> tc_lastFailAt c \<le> t)"

lemma cached_until_later: "cached_until b th \<Longrightarrow> b \<le> b' \<Longrightarrow> cached_until b' th"
  by (fastforce simp: cached_until_def)

lemma cached_until_subset: "cached_until b th \<Longrightarrow> set (th_blockCache th') \<subseteq> set (th_blockCache th) \<Longrightarrow> cached_until b th'"
  by (fastforce simp: cached_until_def)

lemma cacheStep_subset: "set (snd (fold (cacheStep now) axes s)) \<subseteq> set (snd s)"
proof (induction axes arbitrary: s)
  case (Cons ax axes)
  have "set (snd (cacheStep now ax s)) \<subseteq> set (snd s)"
    by (auto simp: cacheStep_def AList.delete_eq split: option.splits)
  then show ?case using Cons [of "cacheStep now ax s"] by auto
qed simp

lemma cacheStep_bound:
  "(\<forall>(k, u) \<in> set (snd s). u \<le> b) \<Longrightarrow> fst s \<le> b \<Longrightarrow> fst (fold (cacheStep now) axes s) \<le> b"
proof (induction axes arbitrary: s)
  case (Cons ax axes)
  have "fst (cacheStep now ax s) \<le> b"
    using Cons.prems by (auto simp: cacheStep_def dest!: map_of_SomeD split: option.splits)
  moreover have "\<forall>(k, u) \<in> set (snd (cacheStep now ax s)). u \<le> b"
    using Cons.prems cacheStep_subset [of now "[ax]" s] by auto
  ultimately show ?case using Cons.IH [of "cacheStep now ax s"] by simp
qed simp

lemma set_AList_update: "set (AList.update k v xs) \<subseteq> insert (k, v) (set xs)"
  by (induction xs) auto

lemma blocked_bound:
  assumes "\<And>d. c = Some d \<Longrightarrow> tc_lastFailAt d \<le> t" "0 \<le> t + tp_maxDelayMs p"
  shows "blockedUntil c now p \<le> t + tp_maxDelayMs p"
  using blockedUntil_max [of c now p] assms by force

lemma axisUntil_max:
  assumes "axisUntil shared now ax th = (th1, u)" "\<And>k d. map_of (th_local th) k = Some d \<Longrightarrow> tc_lastFailAt d \<le> t"
    and "stored_until t shared" "0 \<le> t + tp_maxDelayMs (th_policy th)"
  shows "u \<le> t + tp_maxDelayMs (th_policy th)"
proof -
  have "blockedUntil (map_of (th_local th) (ax_key ax)) now (th_policy th) \<le> t + tp_maxDelayMs (th_policy th)"
    by (rule blocked_bound) (use assms in auto)
  moreover have "blockedUntil (m (ax_key ax)) now (th_policy th) \<le> t + tp_maxDelayMs (th_policy th)" if "shared = Some m" for m
    by (rule blocked_bound) (use assms that in \<open>auto simp: stored_until_def\<close>)
  ultimately show ?thesis
    using assms(1) by (auto simp: axisUntil_def Let_def split: option.splits prod.splits)
qed

lemma axesUntil_max:
  assumes "axesUntil shared now axes th until = (th2, r)" "\<And>k d. map_of (th_local th) k = Some d \<Longrightarrow> tc_lastFailAt d \<le> t"
    and "stored_until t shared" "0 \<le> b" "b = t + tp_maxDelayMs (th_policy th)" "until \<le> b" "cached_until b th"
  shows "r \<le> b \<and> cached_until b th2"
  using assms
proof (induction axes arbitrary: th until)
  case (Cons a axes)
  obtain th1 u where u: "axisUntil shared now a th = (th1, u)" by force
  let ?th = "if u > now then cacheBlock (ax_key a) u th1 else th1"
  have s: "th_local ?th = th_local th" "th_policy ?th = th_policy th"
    using axisUntil_same [of th shared now a] u by (simp_all add: same_counts_def cacheBlock_def)
  have ub: "u \<le> b" using axisUntil_max [OF u] Cons.prems by auto
  have c1: "cached_until b th1" using axisUntil_bounds(4) [OF u] Cons.prems(7) by (simp add: cached_until_def)
  have "cached_until b (cacheBlock (ax_key a) u th1)"
    using c1 ub set_AList_update by (fastforce simp: cached_until_def cacheBlock_def split: if_splits)
  then have c: "cached_until b ?th" using c1 by simp
  have "axesUntil shared now axes ?th (max until u) = (th2, r)" using Cons.prems by (simp add: u)
  then show ?case using Cons.IH [of ?th "max until u"] s c ub Cons.prems by auto
qed simp

lemma readShared_frame:
  assumes "readShared keys now got th = (th1, shared, logs)"
  shows "th_local th1 = th_local th" "th_policy th1 = th_policy th" "th_blockCache th1 = th_blockCache th"
    "stored_until t got \<Longrightarrow> stored_until t shared"
  using assms by (auto simp: readShared_def sharedFailed_def stored_until_def Let_def split: option.splits if_splits)

lemma retryFinish_max:
  assumes "th_counted p log t th" "cached_until (t + tp_maxDelayMs p) th" "stored_until t got" "0 \<le> tp_maxDelayMs p"
    and "retryFinish axes now got th = (th', n, logs)"
  shows "cached_until (t + tp_maxDelayMs p) th' \<and> n \<le> max 1 ((t - now + tp_maxDelayMs p + 999) div 1000)"
proof -
  obtain th1 shared l1 where r: "readShared (map ax_key axes) now got th = (th1, shared, l1)" by (metis prod_cases3)
  obtain th2 until where a: "axesUntil shared now axes th1 0 = (th2, until)" by force
  note f = readShared_frame [OF r]
  have "until \<le> t + tp_maxDelayMs p \<and> cached_until (t + tp_maxDelayMs p) th2"
    by (rule axesUntil_max [OF a, where t = t]) (use assms f in \<open>auto simp: th_counted_def cached_until_def\<close>)
  moreover have "(until - now + 999) div 1000 \<le> (t - now + tp_maxDelayMs p + 999) div 1000" if "until \<le> t + tp_maxDelayMs p"
    using that by (intro zdiv_mono1) auto
  ultimately show ?thesis
    using assms(5) r a by (auto simp: retryFinish_def waitSeconds_def split: if_splits)
qed

lemma retryStart_max:
  assumes "cached_until b th" "0 \<le> b" "retryStart isIP s now th = (th', RetryAnswer n)"
  shows "n \<le> max 1 ((b - now + 999) div 1000)"
proof -
  obtain u c where f: "fold (cacheStep now) (axesOf isIP s) (0, th_blockCache th) = (u, c)" by force
  then have "u \<le> b" using cacheStep_bound [of "(0, th_blockCache th)" b now "axesOf isIP s"] assms(1,2) by (simp add: cached_until_def)
  then have "(u - now + 999) div 1000 \<le> (b - now + 999) div 1000" by (intro zdiv_mono1) auto
  then show ?thesis using assms(3) f by (auto simp: retryStart_def waitSeconds_def Let_def split: if_splits)
qed

lemma forget_subset: "set (th_blockCache (fold forget axes th)) \<subseteq> set (th_blockCache th)"
proof (induction axes arbitrary: th)
  case (Cons ax axes)
  have "set (th_blockCache (forget ax th)) \<subseteq> set (th_blockCache th)" by (auto simp: forget_def AList.delete_eq)
  then show ?case using Cons [of "forget ax th"] by auto
qed simp

lemma run_cached:
  assumes "throttle_run isIP opts log t th" "0 \<le> tp_maxDelayMs (th_policy (throttle_new opts))"
  shows "cached_until (t + tp_maxDelayMs (th_policy (throttle_new opts))) th"
  using assms
proof (induction rule: throttle_run.induct)
  case (start t)
  then show ?case by (simp add: cached_until_def throttle_new_def)
next
  case (check log t th now s)
  have "set (th_blockCache (fst (retryStart isIP s now th))) \<subseteq> set (th_blockCache th)"
    using cacheStep_subset [of now "axesOf isIP s" "(0, th_blockCache th)"]
    by (auto simp: retryStart_def Let_def split: prod.splits)
  with check show ?case by (auto intro: cached_until_subset cached_until_later)
next
  case (checked log t th now got s)
  obtain th' n logs where r: "retryFinish (axesOf isIP s) now got th = (th', n, logs)" by (metis prod_cases3)
  show ?case
    using retryFinish_max [OF run_counted [OF checked.hyps(1)] checked.IH [OF checked.prems] _ checked.prems r] checked.hyps(3) r
    by (auto simp: stored_until_def)
next
  case (failed log t th now s)
  have "set (th_blockCache (fst (recordStart isIP s now th))) \<subseteq> set (th_blockCache th)"
    using countFailure_fold [OF distinct_axes [of isIP s], of now th "[]"]
    by (auto simp: recordStart_def sweepLocal_def Let_def case_prod_unfold)
  with failed show ?case by (auto intro: cached_until_subset cached_until_later)
next
  case (succeeded log t th now s)
  then show ?case
    using forget_subset [of "axesOf isIP s" th] by (auto simp: clearStart_def Let_def intro: cached_until_subset cached_until_later)
qed (auto simp: cached_until_def attachShared_def recordWrite_def recordSweep_def recordSwept_def clearFinish_def sharedFailed_def)

section \<open>Properties\<close>


text \<open>C28: no lock is permanent: in every run, the time a client is told to wait ends at most the longest delay after
  the present, rounded up to whole seconds, provided that the store returns no failures from the future.\<close>

theorem throttle_wait_bounded:
  assumes "throttle_run isIP opts log t th" "0 \<le> tp_maxDelayMs (th_policy th)"
  shows "(\<forall>now th' n. t \<le> now \<and> retryStart isIP s now th = (th', RetryAnswer n) \<longrightarrow>
      n \<le> max 1 ((tp_maxDelayMs (th_policy th) + 999) div 1000)) \<and>
    (\<forall>now got th' n logs. stored_until t got \<and> retryFinish (axesOf isIP s) now got th = (th', n, logs) \<longrightarrow>
      n \<le> max 1 ((t - now + tp_maxDelayMs (th_policy th) + 999) div 1000))"
proof -
  have c: "th_counted (th_policy th) log t th" "th_policy th = th_policy (throttle_new opts)"
    using run_counted [OF assms(1)] by (auto simp: th_counted_def)
  then have b: "cached_until (t + tp_maxDelayMs (th_policy th)) th" using run_cached [OF assms(1)] assms(2) by simp
  have "n \<le> max 1 ((tp_maxDelayMs (th_policy th) + 999) div 1000)"
    if "t \<le> now" "retryStart isIP s now th = (th', RetryAnswer n)" for now th' n
    using retryStart_max [OF cached_until_later [OF b, of "now + tp_maxDelayMs (th_policy th)"] _ that(2)] that(1) c assms(2)
    by (auto simp: th_counted_def)
  then show ?thesis using retryFinish_max [OF c(1) b _ assms(2)] by blast
qed

text \<open>the marks that keep the counters of this process in force after a failed write are all dropped when
  there are too many of them: the next failed write, for a key of someone else, makes every other key depend on the
  store alone again, so that a login is let through although its failures in this process are not waited out.\<close>

lemma throttle_marks_flushed:
  assumes "length (th_unsynced th) \<ge> MAX_BLOCK_CACHE" "th_shared th" "ax_key ax \<notin> ax_key ` set axes" "0 \<le> now"
  shows "fst (snd (retryFinish axes now (Some (\<lambda>_. None)) (fst (recordWrite ax now False th)))) = 0"
proof -
  let ?th = "fst (recordWrite ax now False th)"
  have u: "th_unsynced ?th = [(ax_key ax, now + tp_resetAfterMs (th_policy th))]" "th_shared ?th"
    using assms(1,2) by (simp_all add: recordWrite_def sharedFailed_def)
  have z: "snd (axesUntil (Some (\<lambda>_. None)) now axs th1 0) = 0"
    if "th_unsynced th1 = th_unsynced ?th" "ax_key ax \<notin> ax_key ` set axs" for axs th1
    using that u(1) assms(4)
    by (induction axs arbitrary: th1) (auto simp: axisUntil_def isUnsynced_def blockedUntil_def cacheBlock_def)
  obtain th1 where r: "readShared (map ax_key axes) now (Some (\<lambda>_. None)) ?th = (th1, Some (\<lambda>_. None), [])"
      "th_unsynced th1 = th_unsynced ?th"
    using u(2) by (auto simp: readShared_def Let_def)
  show ?thesis using assms(4) by (simp add: retryFinish_def r case_prod_unfold z [OF r(2) assms(3)])
qed

section \<open>Examples\<close>

definition demo_isIP :: "string \<Rightarrow> nat" where
  "demo_isIP a = (if a = ''192.0.2.1'' \<or> a = ''192.0.2.2'' then 4 else 0)"

definition demo_subject :: auth_subject where
  "demo_subject = \<lparr>as_ip = Some ''192.0.2.1'', as_account = None\<rparr>"

definition demo_throttle :: throttle where
  "demo_throttle = throttle_new \<lparr>to_freeFailures = None, to_baseDelayMs = None, to_maxDelayMs = None, to_resetAfterMs = None, to_shared = False\<rparr>"

definition demo_fails :: "nat \<Rightarrow> throttle" where
  "demo_fails n = ((\<lambda>th. fst (recordStart demo_isIP demo_subject 0 th)) ^^ n) demo_throttle"

lemma demo_fails_run:
  "throttle_run demo_isIP \<lparr>to_freeFailures = None, to_baseDelayMs = None, to_maxDelayMs = None, to_resetAfterMs = None, to_shared = False\<rparr>
     (replicate n (Failed (map ax_key (axesOf demo_isIP demo_subject)) 0)) 0 (demo_fails n)"
proof (induction n)
  case 0
  show ?case by (simp add: demo_fails_def demo_throttle_def throttle_run.start)
next
  case (Suc n)
  from throttle_run.failed [OF this, of 0 demo_subject] show ?case by (simp add: demo_fails_def)
qed

definition demo_checked :: throttle where
  "demo_checked = fst (retryStart demo_isIP demo_subject 2000 (demo_fails 5))"


definition demo_axis :: axis where
  "demo_axis = \<lparr>ax_axis = AX_ip, ax_id = ''192.0.2.1'', ax_key = ''ip|192.0.2.1''\<rparr>"

lemma demo_axes [simp]: "axesOf demo_isIP demo_subject = [demo_axis]" "ax_key demo_axis = ''ip|192.0.2.1''"
  by code_simp+

definition demo_counting :: "nat \<Rightarrow> throttle" where
  "demo_counting n =
     \<lparr>th_local = (if n = 0 then [] else [(''ip|192.0.2.1'', \<lparr>tc_fails = n, tc_lastFailAt = 0\<rparr>)]), th_readMemo = [], th_blockCache = [],
      th_unsynced = [], th_lastLocalSweep = 0, th_lastSharedSweep = 0, th_lastSharedErrorLog = 0,
      th_policy = \<lparr>tp_freeFailures = 5, tp_baseDelayMs = 1000, tp_maxDelayMs = 900000, tp_resetAfterMs = 900000\<rparr>, th_shared = False\<rparr>"

lemma demo_fails_eq: "demo_fails n = demo_counting n"
proof (induction n)
  case 0
  show ?case
    by (simp add: demo_fails_def demo_throttle_def demo_counting_def throttle_new_def default_to_def AUTH_THROTTLE_FREE_FAILURES_def
        AUTH_THROTTLE_BASE_DELAY_MS_def AUTH_THROTTLE_MAX_DELAY_MS_def AUTH_THROTTLE_RESET_AFTER_MS_def)
next
  case (Suc n)
  then show ?case
    by (simp add: demo_fails_def recordStart_def countFailure_def sweepLocal_def nextCounter_def demo_counting_def Let_def AList.delete_eq)
qed

lemma demo_answers:
  "snd (retryFinish [demo_axis] 2000 None demo_checked) = (0, [])"
  "snd (retryFinish [demo_axis] 0 None (demo_fails 8)) = (8, [])"
  "tp_maxDelayMs (th_policy (demo_fails 8)) = 900000"
  by (simp_all add: demo_checked_def demo_fails_eq demo_counting_def retryStart_def cacheStep_def retryFinish_def readShared_def
      axisUntil_def blockedUntil_def waitSeconds_def cacheBlock_def Let_def)


theorem throttle_wait_bounded_witness:
  "\<exists>th'. retryFinish (axesOf demo_isIP demo_subject) 0 None (demo_fails 8) = (th', 8, []) \<and> (8::int) \<le> 900"
proof -
  obtain th' where f: "retryFinish (axesOf demo_isIP demo_subject) 0 None (demo_fails 8) = (th', 8, [])"
    using demo_answers(2) by (simp) (metis prod.collapse)
  have "8 \<le> max 1 ((0 - 0 + tp_maxDelayMs (th_policy (demo_fails 8)) + 999) div 1000)"
    using throttle_wait_bounded [OF demo_fails_run [of 8], of demo_subject] f by (auto simp: stored_until_def demo_answers(3))
  then show ?thesis using f by (simp add: demo_answers(3))
qed

definition demo_marked :: throttle where
  "demo_marked = (demo_fails 8)\<lparr>th_unsynced := map (\<lambda>n. (show_nat n, 900000)) [0..<MAX_BLOCK_CACHE] , th_shared := True\<rparr>"

text \<open>
  The wait that is answered is not always the longest: a decision kept for the address is returned without a look
  at the counters of the account, however long that is blocked.
\<close>

lemma throttle_cached_axis_hides:
  assumes "axesOf isIP s = [a, b]" "map_of (th_blockCache th) (ax_key a) = Some u" "now < u" "0 \<le> now"
    and "map_of (th_blockCache th) (ax_key b) = None"
  shows "snd (retryStart isIP s now th) = RetryAnswer (waitSeconds u now)"
  using assms by (simp add: retryStart_def cacheStep_def)

end
