(* ===== verification/ThrottleKeys.thy ===== *)
theory ThrottleKeys
  imports ThrottleSafety
begin

text \<open>
  Which addresses the throttle counts together: IPv6 addresses of one /64 network, however they are written, and
  an IPv4 address with its mapped forms. An address in the \<open>x-forwarded-for\<close> header counts only when the peer is
  trusted and the value is an address.
\<close>

section \<open>Hexadecimal\<close>

lemma hexChar_code: "n < 16 \<Longrightarrow> code (hexChar n) = (if n < 10 then 48 + n else 87 + n)"
  by (simp add: hexChar_def)

lemma is_hex_hexChar: "n < 16 \<Longrightarrow> is_hex (hexChar n)"
  by (auto simp: is_hex_def is_digit_def hexChar_code)

lemma hexDigit_hexChar: "n < 16 \<Longrightarrow> hexDigit (hexChar n) = n"
  by (auto simp: hexDigit_def is_digit_def hexChar_code)

lemma hexNumber_snoc: "hexNumber (s @ [c]) = 16 * hexNumber s + hexDigit c"
  by (simp add: hexNumber_def)

lemma hexNumber_show [simp]: "hexNumber (show_hex n) = n"
proof (induction n rule: show_hex.induct)
  case (1 n)
  then show ?case
    by (cases "n < 16") (simp_all add: show_hex.simps [of n] hexNumber_snoc hexDigit_hexChar, simp add: hexNumber_def hexDigit_hexChar)
qed

lemma show_hex_inj [simp]: "show_hex m = show_hex n \<longleftrightarrow> m = n"
  by (metis hexNumber_show)

lemma show_hex_chars: "list_all is_hex (show_hex n) \<and> show_hex n \<noteq> []"
proof (induction n rule: show_hex.induct)
  case (1 n)
  then show ?case by (cases "n < 16") (simp_all add: show_hex.simps [of n] is_hex_hexChar)
qed

lemma show_hex_no_colon: "CHR '':'' \<notin> set (show_hex n)" "DOT \<notin> set (show_hex n)"
  using show_hex_chars [of n] by (auto simp: list_all_iff is_hex_def is_digit_def)

lemma hexNumber_less: "list_all is_hex s \<Longrightarrow> hexNumber s < 16 ^ length s"
proof (induction s rule: rev_induct)
  case (snoc c s)
  have "hexDigit c < 16" using snoc.prems by (auto simp: hexDigit_def is_hex_def is_digit_def)
  then show ?case using snoc by (simp add: hexNumber_snoc)
qed (simp add: hexNumber_def)

section \<open>Buckets\<close>

text \<open>The hextets of an address are its eight numbers in their shortest form.\<close>

lemma expandIpv6_hextets:
  assumes "expandIpv6 a = Some h"
  obtains ns where "h = map show_hex ns" "length ns = 8" "\<forall>n \<in> set ns. n < 65536"
proof -
  obtain parts where p: "normalHextets parts = Some h"
    using assms by (auto simp: expandIpv6_def Let_def split: option.splits list.splits if_splits)
  then have h: "h = map show_hex (map hexNumber parts)" "length parts = 8" "list_all hextetOk parts"
    by (auto simp: normalHextets_def split: if_splits)
  have "hexNumber q < 65536" if "hextetOk q" for q
  proof -
    have "hexNumber q < 16 ^ length q" using that by (simp add: hextetOk_def hexNumber_less)
    also have "(16::nat) ^ length q \<le> 16 ^ 4" using that by (intro power_increasing) (auto simp: hextetOk_def)
    finally show ?thesis by simp
  qed
  then show ?thesis using that [of "map hexNumber parts"] h by (auto simp: list_all_iff)
qed

definition mapped :: "string list \<Rightarrow> bool" where
  "mapped h \<longleftrightarrow> take 6 h = [''0'', ''0'', ''0'', ''0'', ''0'', ''ffff'']"

definition bare :: "string \<Rightarrow> bool" where
  "bare a \<longleftrightarrow> a \<noteq> [] \<and> stripZone (stripBrackets (trim a)) = a \<and> trim a = a"

definition dottedForm :: "nat \<Rightarrow> nat \<Rightarrow> string" where
  "dottedForm hi lo = join ''.'' (map show_nat [hi div 256, hi mod 256, lo div 256, lo mod 256])"

definition networkForm :: "nat list \<Rightarrow> string" where
  "networkForm ns = join '':'' (map show_hex (take 4 ns)) @ ''::/64''"

lemma key_forms:
  assumes "bare a" "isIP a = 6" "expandIpv6 a = Some (map show_hex ns)" "length ns = 8"
  shows "throttleKeyOf isIP (Some a) =
    (if mapped (map show_hex ns) then dottedForm (ns ! 6) (ns ! 7) else networkForm ns)"
  using assms by (auto simp: throttleKeyOf_def bare_def ipv4Of_def mapped_def dottedForm_def networkForm_def take_map Let_def)

lemma dottedForm_inj: "dottedForm a b = dottedForm c d \<Longrightarrow> a = c \<and> b = d"
proof -
  assume eq: "dottedForm a b = dottedForm c d"
  have sp: "split_char DOT (dottedForm x y) = map show_nat [x div 256, x mod 256, y div 256, y mod 256]" for x y
    unfolding dottedForm_def by (rule split_join) (auto simp: show_nat_no_char is_digit_def)
  have "map show_nat [a div 256, a mod 256, b div 256, b mod 256] = map show_nat [c div 256, c mod 256, d div 256, d mod 256]"
    using eq sp by metis
  then have "a div 256 = c div 256" "a mod 256 = c mod 256" "b div 256 = d div 256" "b mod 256 = d mod 256"
    by (auto dest: show_nat_inj)
  then show ?thesis by (metis div_mult_mod_eq)
qed

lemma networkForm_inj:
  assumes "networkForm ns = networkForm ms" "length ns = 8" "length ms = 8"
  shows "take 4 ns = take 4 ms"
proof -
  have "join '':'' (map show_hex (take 4 ns)) = join '':'' (map show_hex (take 4 ms))"
    using assms(1) by (simp add: networkForm_def)
  moreover have "split_char (CHR '':'') (join '':'' (map show_hex (take 4 xs))) = map show_hex (take 4 xs)" if "length xs = 8" for xs
    using that by (intro split_join) (auto simp: show_hex_no_colon)
  ultimately have "map show_hex (take 4 ns) = map show_hex (take 4 ms)" using assms(2,3) by metis
  then show ?thesis by (metis list.map_comp list.map_id comp_def hexNumber_show map_idI)
qed

lemma dotted_not_network: "dottedForm a b \<noteq> networkForm ns"
proof
  assume "dottedForm a b = networkForm ns"
  then have "CHR ''/'' \<in> set (dottedForm a b)" by (simp add: networkForm_def)
  then show False by (auto simp: dottedForm_def show_nat_no_char is_digit_def)
qed

lemma eight_split: "length ns = 8 \<Longrightarrow> ns = take 6 ns @ [ns ! 6, ns ! 7]"
  by (rule nth_equalityI) (auto simp: nth_append less_Suc_eq numeral_eq_Suc)

section \<open>Compressed addresses\<close>

definition word :: "string \<Rightarrow> bool" where
  "word w \<longleftrightarrow> w \<noteq> [] \<and> CHR '':'' \<notin> set w"

lemma sub_index_skip: "CHR '':'' \<notin> set w \<Longrightarrow> sub_index ''::'' (w @ r) = map_option (\<lambda>i. length w + i) (sub_index ''::'' r)"
  by (cases "sub_index ''::'' r"; induction w) auto

lemma sub_index_colon: "word w \<Longrightarrow> sub_index ''::'' (CHR '':'' # w @ r) = map_option (\<lambda>i. Suc (length w + i)) (sub_index ''::'' r)"
  using sub_index_skip [of w r] by (cases w; cases "sub_index ''::'' r") (auto simp: word_def)

lemma sub_index_join:
  "list_all word ws \<Longrightarrow>
   sub_index ''::'' (join '':'' ws @ r) =
     (if ws = [] then sub_index ''::'' r else map_option (\<lambda>i. length (join '':'' ws) + i) (sub_index ''::'' r))"
proof (induction ws)
  case (Cons w ws)
  show ?case
  proof (cases ws)
    case Nil
    then show ?thesis using Cons.prems sub_index_skip [of w r] by (simp add: word_def)
  next
    case (Cons v vs)
    have "join '':'' ws @ r = v @ drop (length v) (join '':'' ws @ r)" by (cases vs) (simp_all add: Cons)
    then have "sub_index ''::'' (CHR '':'' # join '':'' ws @ r) = map_option Suc (sub_index ''::'' (join '':'' ws @ r))"
      using sub_index_colon [of v "drop (length v) (join '':'' ws @ r)"] sub_index_skip [of v "drop (length v) (join '':'' ws @ r)"]
        Cons.prems Cons by (auto simp: word_def option.map_comp comp_def)
    then show ?thesis
      using Cons.IH Cons.prems Cons sub_index_skip [of w "CHR '':'' # join '':'' ws @ r"]
      by (cases "sub_index ''::'' r") (auto simp: word_def join_Cons)
  qed
qed simp

lemma words_show_hex: "list_all word (map show_hex ns)"
  using show_hex_chars show_hex_no_colon by (auto simp: list_all_iff word_def)

lemma hextetsOf_join: "list_all word ws \<Longrightarrow> hextetsOf (join '':'' ws) = ws"
proof (cases ws)
  case (Cons w vs)
  assume "list_all word ws"
  moreover have "join '':'' ws \<noteq> []" using \<open>list_all word ws\<close> Cons by (cases vs) (auto simp: word_def)
  ultimately show ?thesis using Cons by (auto simp: hextetsOf_def list_all_iff word_def intro!: split_join)
qed (simp add: hextetsOf_def)

definition hexText :: "string \<Rightarrow> bool" where
  "hexText s \<longleftrightarrow> list_all (\<lambda>c. is_hex c \<or> c = CHR '':'') s"

lemma hexText_join: "hexText (join '':'' (map show_hex ns))"
proof (induction ns)
  case (Cons n ns)
  then show ?case using show_hex_chars [of n] by (cases ns) (auto simp: hexText_def list_all_iff)
qed (simp add: hexText_def)

lemma hexText_plain:
  assumes "hexText s"
  shows "dottedToHex (toLowerCase s) = Some s"
proof -
  have l: "toLowerCase s = s"
    unfolding toLowerCase_def by (rule map_idI) (use assms in \<open>auto simp: hexText_def list_all_iff is_hex_def is_digit_def lower_char_def\<close>)
  have "\<not> isDotted (drop i s)" for i
  proof -
    have "DOT \<notin> set (drop i s)"
      using assms in_set_dropD [of DOT i s] by (force simp: hexText_def list_all_iff is_hex_def is_digit_def)
    then show ?thesis by (simp add: isDotted_def split_char_nosep)
  qed
  then have "dottedIndex s = None" by (simp add: dottedIndex_def find_None_iff)
  then show ?thesis by (simp add: l dottedToHex_def)
qed

lemma show_hex_length: "n < 16 ^ k \<Longrightarrow> 0 < k \<Longrightarrow> length (show_hex n) \<le> k"
proof (induction k arbitrary: n)
  case (Suc k)
  show ?case
  proof (cases "n < 16")
    case False
    then have "0 < k" using Suc.prems(1) by (cases k) auto
    moreover have "n div 16 < 16 ^ k" using Suc.prems(1) by (simp add: less_mult_imp_div_less)
    ultimately show ?thesis using Suc.IH [of "n div 16"] False by (simp add: show_hex.simps [of n])
  qed (simp add: show_hex.simps [of n])
qed simp

lemma normalHextets_show:
  "length ns = 8 \<Longrightarrow> \<forall>n \<in> set ns. n < 65536 \<Longrightarrow> normalHextets (map show_hex ns) = Some (map show_hex ns)"
  using show_hex_length [of _ 4] show_hex_chars by (auto simp: normalHextets_def hextetOk_def list_all_iff)

lemma split_colons_none: "sub_index ''::'' s = None \<Longrightarrow> split_colons s = [s]"
  by (simp add: split_colons.simps)

lemma no_double_colon: "sub_index ''::'' (join '':'' (map show_hex ns)) = None"
  using sub_index_join [OF words_show_hex [of ns], of "[]"] by (cases ns) auto

text \<open>The full notation, and every notation that leaves out a run of zeros.\<close>

lemma expand_full:
  assumes "length ns = 8" "\<forall>n \<in> set ns. n < 65536"
  shows "expandIpv6 (join '':'' (map show_hex ns)) = Some (map show_hex ns)"
  using assms normalHextets_show [OF assms]
  by (simp add: expandIpv6_def hexText_plain [OF hexText_join] split_colons_none no_double_colon hextetsOf_join words_show_hex)

lemma show_hex_0: "show_hex 0 = ''0''"
  by code_simp

lemma expand_compressed:
  assumes "length hs + length ts < 8" "\<forall>n \<in> set hs \<union> set ts. n < 65536"
  shows "expandIpv6 (join '':'' (map show_hex hs) @ ''::'' @ join '':'' (map show_hex ts)) =
    Some (map show_hex (hs @ replicate (8 - length hs - length ts) 0 @ ts))"
proof -
  let ?H = "join '':'' (map show_hex hs)" and ?T = "join '':'' (map show_hex ts)"
  have "sub_index ''::'' (?H @ ''::'' @ ?T) = Some (length ?H)"
    using sub_index_join [OF words_show_hex [of hs], of "''::'' @ ?T"] by auto
  then have "split_colons (?H @ ''::'' @ ?T) = [?H, ?T]"
    by (subst split_colons.simps) (simp add: split_colons_none no_double_colon)
  moreover have "hexText (?H @ ''::'' @ ?T)" using hexText_join [of hs] hexText_join [of ts] by (simp add: hexText_def)
  moreover have "normalHextets (map show_hex (hs @ replicate (8 - length hs - length ts) 0 @ ts)) =
      Some (map show_hex (hs @ replicate (8 - length hs - length ts) 0 @ ts))"
    by (rule normalHextets_show) (use assms in auto)
  ultimately show ?thesis
    using assms(1) by (simp add: expandIpv6_def hexText_plain hextetsOf_join words_show_hex show_hex_0)
qed

section \<open>Properties\<close>

text \<open>two IPv6 addresses, in whatever notation, are counted in one bucket exactly when they are in the
  same /64 network; addresses that map IPv4 are counted as that IPv4 address, apart from all networks.\<close>

lemma throttle_key_network:
  assumes "bare a" "isIP a = 6" "expandIpv6 a = Some h" and "bare b" "isIP b = 6" "expandIpv6 b = Some g"
  shows "throttleKeyOf isIP (Some a) = throttleKeyOf isIP (Some b) \<longleftrightarrow>
    (if mapped h then h = g else \<not> mapped g \<and> take 4 h = take 4 g)"
proof -
  obtain ns where ns: "h = map show_hex ns" "length ns = 8" using expandIpv6_hextets [OF assms(3)] by blast
  obtain ms where ms: "g = map show_hex ms" "length ms = 8" using expandIpv6_hextets [OF assms(6)] by blast
  note k = key_forms [where isIP = isIP, OF assms(1,2) assms(3) [unfolded ns(1)] ns(2)] key_forms [where isIP = isIP, OF assms(4,5) assms(6) [unfolded ms(1)] ms(2)]
  have both: "h = g" if "mapped h" "mapped g" "ns ! 6 = ms ! 6" "ns ! 7 = ms ! 7"
  proof -
    have "map show_hex (take 6 ns) = map show_hex (take 6 ms)" using that(1,2) by (simp add: mapped_def ns ms take_map)
    then have "map show_hex (take 6 ns @ [ns ! 6, ns ! 7]) = map show_hex (take 6 ms @ [ms ! 6, ms ! 7])" using that(3,4) by simp
    then show ?thesis using eight_split [OF ns(2)] eight_split [OF ms(2)] ns(1) ms(1) by simp
  qed
  have net: "networkForm ns = networkForm ms \<longleftrightarrow> take 4 h = take 4 g"
    using networkForm_inj [OF _ ns(2) ms(2)] by (auto simp: networkForm_def ns ms take_map)
  have dot: "dottedForm (ns ! 6) (ns ! 7) = dottedForm (ms ! 6) (ms ! 7) \<longleftrightarrow> h = g" if "mapped h" "mapped g"
    using dottedForm_inj both [OF that] by (auto simp: ns ms dest: map_eq_imp_length_eq)
      (metis hexNumber_show list.map_comp list.map_id0 comp_def map_idI)+
  show ?thesis
    using k net dot dotted_not_network [of "ns ! 6" "ns ! 7" ms] dotted_not_network [of "ms ! 6" "ms ! 7" ns]
    by (auto simp: ns(1) [symmetric] ms(1) [symmetric])
qed

text \<open>
  The header of a proxy is believed only from a trusted peer and only if it is an address: whatever else is sent,
  the peer counts.
\<close>

lemma client_ip_not_forged:
  "clientIpOf isIP fw (Some peer) trust = normalizeIp (Some peer) \<or>
   (trust peer \<and> (\<exists>ip. isIP ip \<noteq> 0 \<and> clientIpOf isIP fw (Some peer) trust = normalizeIp (Some ip)))"
  by (auto simp: clientIpOf_def Let_def split: option.splits)

end
