(* ===== verification/ImapFetch.thy ===== *)
theory ImapFetch
  imports Scram ImapParser Glob Calendar
begin

text \<open>
  What FETCH asks for and how it is printed: \<open>proto-imap/src/fetch-items.ts\<close> and
  \<open>proto-imap/src/fetch-format.ts\<close>. The MIME parsers of the package \<open>@ionosphere/mime\<close> are the record
  \<open>mime_lib\<close>, which every definition that needs them takes. Numbers are exact, where a double is exact up to
  \<open>2 ^ 53\<close>.
\<close>

section \<open>Items\<close>

record section_spec =
  ss_path :: "nat list"
  ss_sub :: "string option"
  ss_fields :: "string list"

datatype fetch_item =
    FI_flags
  | FI_uid
  | FI_modseq
  | FI_internaldate
  | FI_savedate
  | FI_emailid
  | FI_threadid
  | FI_rfc822size
  | FI_envelope
  | FI_body
  | FI_bodystructure
  | FI_section bool section_spec "(nat \<times> nat) option" string
  | FI_binary bool "nat list" "(nat \<times> nat) option" string
  | FI_binarySize "nat list" string

text \<open>\<open>/^[1-9]\d*$/\<close>\<close>

definition isPartNumber :: "string \<Rightarrow> bool" where
  "isPartNumber s \<longleftrightarrow> all_digits s \<and> \<not> startsWith ''0'' s"

fun parseBinarySegs :: "string list \<Rightarrow> nat list option" where
  "parseBinarySegs [] = Some []"
| "parseBinarySegs (seg # segs) =
     (if \<not> isPartNumber seg then None
      else case parseBinarySegs segs of None \<Rightarrow> None | Some path \<Rightarrow> Some (digits_value seg # path))"

definition parseBinaryPath :: "string \<Rightarrow> nat list option" where
  "parseBinaryPath inner = (if length inner = 0 then Some [] else parseBinarySegs (split_char CHR ''.'' inner))"

definition parseSectionSpec :: "string \<Rightarrow> string list option \<Rightarrow> section_spec option" where
  "parseSectionSpec inner flds =
     (if length inner = 0
      then (if flds = None then Some \<lparr>ss_path = [], ss_sub = None, ss_fields = []\<rparr> else None)
      else let segs = split_char CHR ''.'' inner;
               path = map digits_value (takeWhile isPartNumber segs);
               rest = toUpperCase (join ''.'' (dropWhile isPartNumber segs))
           in if rest = [] then
                (if flds = None \<and> length path > 0 then Some \<lparr>ss_path = path, ss_sub = None, ss_fields = []\<rparr> else None)
              else if rest = ''HEADER'' \<or> rest = ''TEXT'' then
                (if flds = None then Some \<lparr>ss_path = path, ss_sub = Some rest, ss_fields = []\<rparr> else None)
              else if rest = ''MIME'' then
                (if flds = None \<and> length path > 0 then Some \<lparr>ss_path = path, ss_sub = Some ''MIME'', ss_fields = []\<rparr> else None)
              else if rest = ''HEADER.FIELDS'' \<or> rest = ''HEADER.FIELDS.NOT'' then
                (case flds of
                   Some fs \<Rightarrow> if length fs > 0 then Some \<lparr>ss_path = path, ss_sub = Some rest, ss_fields = map toUpperCase fs\<rparr> else None
                 | None \<Rightarrow> None)
              else None)"

text \<open>
  \<open>/^(N1|N2|...)\[([^\]]*)\](<(\d+)\.(\d+)>)?$/i\<close> for names without a bracket: the name in capitals, what is
  between the brackets, and the numbers of the partial.
\<close>

definition matchPartial :: "string \<Rightarrow> (nat \<times> nat) option option" where
  "matchPartial t =
     (if t = [] then Some None
      else let a = takeWhile is_digit (tl t); r = dropWhile is_digit (tl t);
               b = takeWhile is_digit (tl r); r2 = dropWhile is_digit (tl r)
           in if startsWith ''<'' t \<and> a \<noteq> [] \<and> startsWith ''.'' r \<and> b \<noteq> [] \<and> r2 = ''>''
              then Some (Some (digits_value a, digits_value b)) else None)"

definition matchSectionItem :: "string list \<Rightarrow> string \<Rightarrow> (string \<times> string \<times> (nat \<times> nat) option) option" where
  "matchSectionItem names t =
     (let name = takeWhile (\<lambda>c. c \<noteq> CHR ''['') t; r = tl (dropWhile (\<lambda>c. c \<noteq> CHR ''['') t);
          inner = takeWhile (\<lambda>c. c \<noteq> CHR '']'') r; r2 = dropWhile (\<lambda>c. c \<noteq> CHR '']'') r
      in if toLowerCase name \<in> set (map toLowerCase names) \<and> CHR ''['' \<in> set t \<and> r2 \<noteq> []
         then (case matchPartial (tl r2) of None \<Rightarrow> None | Some p \<Rightarrow> Some (toUpperCase name, inner, p))
         else None)"

definition partialLabel :: "(nat \<times> nat) option \<Rightarrow> string" where
  "partialLabel p = (case p of None \<Rightarrow> [] | Some (start, count) \<Rightarrow> ''<'' @ show_nat start @ ''>'')"

definition binaryItem :: "string \<Rightarrow> string \<Rightarrow> (nat \<times> nat) option \<Rightarrow> fetch_item option" where
  "binaryItem which inner p =
     (case parseBinaryPath inner of
        None \<Rightarrow> None
      | Some path \<Rightarrow>
          (let label = ''['' @ join ''.'' (map show_nat path) @ '']'' in
           if which = ''BINARY.SIZE''
           then (if p = None then Some (FI_binarySize path (''BINARY.SIZE'' @ label)) else None)
           else Some (FI_binary (which = ''BINARY.PEEK'') path p (''BINARY'' @ label @ partialLabel p))))"

definition sectionItem :: "string \<Rightarrow> string \<Rightarrow> string list option \<Rightarrow> (nat \<times> nat) option \<Rightarrow> fetch_item option" where
  "sectionItem which inner flds p =
     (case parseSectionSpec inner flds of
        None \<Rightarrow> None
      | Some spec \<Rightarrow>
          (let nums = join ''.'' (map show_nat (ss_path spec));
               label = (case ss_sub spec of
                          None \<Rightarrow> nums
                        | Some sub \<Rightarrow>
                            nums @ (if length nums > 0 then ''.'' else []) @ sub @
                            (if length (ss_fields spec) > 0 then '' ('' @ join '' '' (ss_fields spec) @ '')'' else []))
           in Some (FI_section (which = ''BODY.PEEK'') spec p (''BODY['' @ label @ '']'' @ partialLabel p))))"

datatype single_item = OneItem fetch_item | ManyItems "fetch_item list"

definition wholeSection :: "bool \<Rightarrow> string option \<Rightarrow> string \<Rightarrow> fetch_item" where
  "wholeSection pk sub label = FI_section pk \<lparr>ss_path = [], ss_sub = sub, ss_fields = []\<rparr> None label"

definition FETCH_NAMES :: "(string \<times> single_item) list" where
  "FETCH_NAMES =
     [(''ALL'', ManyItems [FI_flags, FI_internaldate, FI_rfc822size, FI_envelope]),
      (''FAST'', ManyItems [FI_flags, FI_internaldate, FI_rfc822size]),
      (''FULL'', ManyItems [FI_flags, FI_internaldate, FI_rfc822size, FI_envelope, FI_body]),
      (''FLAGS'', OneItem FI_flags),
      (''UID'', OneItem FI_uid),
      (''MODSEQ'', OneItem FI_modseq),
      (''INTERNALDATE'', OneItem FI_internaldate),
      (''SAVEDATE'', OneItem FI_savedate),
      (''EMAILID'', OneItem FI_emailid),
      (''THREADID'', OneItem FI_threadid),
      (''RFC822.SIZE'', OneItem FI_rfc822size),
      (''ENVELOPE'', OneItem FI_envelope),
      (''BODY'', OneItem FI_body),
      (''BODYSTRUCTURE'', OneItem FI_bodystructure),
      (''RFC822'', OneItem (wholeSection False None ''RFC822'')),
      (''RFC822.HEADER'', OneItem (wholeSection True (Some ''HEADER'') ''RFC822.HEADER'')),
      (''RFC822.TEXT'', OneItem (wholeSection False (Some ''TEXT'') ''RFC822.TEXT''))]"

definition parseSingleItem :: "string \<Rightarrow> string list option \<Rightarrow> single_item option" where
  "parseSingleItem t flds =
     (case (if flds = None then map_of FETCH_NAMES (toUpperCase t) else None) of
        Some item \<Rightarrow> Some item
      | None \<Rightarrow>
          (case matchSectionItem [''BINARY'', ''BINARY.PEEK'', ''BINARY.SIZE''] t of
             Some (which, inner, p) \<Rightarrow> if flds \<noteq> None then None else map_option OneItem (binaryItem which inner p)
           | None \<Rightarrow>
               (case matchSectionItem [''BODY'', ''BODY.PEEK''] t of
                  Some (which, inner, p) \<Rightarrow> map_option OneItem (sectionItem which inner flds p)
                | None \<Rightarrow> None)))"

fun valueTexts :: "imap_value list \<Rightarrow> string list option" where
  "valueTexts [] = Some []"
| "valueTexts (v # vs) =
     (case valueText v of
        None \<Rightarrow> None
      | Some t \<Rightarrow> (case valueTexts vs of None \<Rightarrow> None | Some ts \<Rightarrow> Some (t # ts)))"

text \<open>The loop of \<open>parseFetchItems\<close>: a section whose field list was split off is put together again.\<close>

fun fetchItemsLoop :: "imap_value list \<Rightarrow> fetch_item list option" where
  "fetchItemsLoop [] = Some []"
| "fetchItemsLoop (v # vs) =
     (case valueText v of
        None \<Rightarrow> None
      | Some t \<Rightarrow>
          if CHR ''['' \<in> set t \<and> CHR '']'' \<notin> set t then
            (case vs of
               V_list fs # close # rest \<Rightarrow>
                 (case (valueText close, valueTexts fs) of
                    (Some ct, Some flds) \<Rightarrow>
                      if \<not> startsWith '']'' ct then None
                      else (case parseSingleItem (t @ '']'' @ tl ct) (Some flds) of
                              Some (OneItem item) \<Rightarrow> map_option (Cons item) (fetchItemsLoop rest)
                            | _ \<Rightarrow> None)
                  | _ \<Rightarrow> None)
             | _ \<Rightarrow> None)
          else (case parseSingleItem t None of
                  None \<Rightarrow> None
                | Some (OneItem item) \<Rightarrow> map_option (Cons item) (fetchItemsLoop vs)
                | Some (ManyItems items) \<Rightarrow> map_option (append items) (fetchItemsLoop vs)))"

definition parseFetchItems :: "imap_value list \<Rightarrow> fetch_item list option" where
  "parseFetchItems values =
     (let flat = (case values of [V_list items] \<Rightarrow> items | _ \<Rightarrow> values)
      in if length flat = 0 then None else fetchItemsLoop flat)"

section \<open>Strings on the wire\<close>

definition literalWire :: "bytes \<Rightarrow> string" where
  "literalWire b = ''{'' @ show_nat (length b) @ ''}'' @ CRLF @ b"

definition binaryLiteralWire :: "bytes \<Rightarrow> string" where
  "binaryLiteralWire b = (if CHR 0x00 \<in> set b then ''~'' else []) @ ''{'' @ show_nat (length b) @ ''}'' @ CRLF @ b"

definition QUOTED_SAFE :: "string \<Rightarrow> bool" where
  "QUOTED_SAFE s \<longleftrightarrow> list_all (\<lambda>c. 0x20 \<le> code c \<and> code c \<le> 0x7E) s"

definition nstring :: "string option \<Rightarrow> string" where
  "nstring value =
     (case value of
        None \<Rightarrow> ''NIL''
      | Some v \<Rightarrow>
          if QUOTED_SAFE v \<and> QUOTE \<notin> set v \<and> BACKSLASH \<notin> set v then [QUOTE] @ v @ [QUOTE]
          else if QUOTED_SAFE v
            then [QUOTE] @ replaceAllChar QUOTE [BACKSLASH, QUOTE] (replaceAllChar BACKSLASH [BACKSLASH, BACKSLASH] v) @ [QUOTE]
          else literalWire (utf8Encode v))"

section \<open>INTERNALDATE\<close>

definition is_alpha :: "char \<Rightarrow> bool" where
  "is_alpha c \<longleftrightarrow> 65 \<le> code c \<and> code c \<le> 90 \<or> 97 \<le> code c \<and> code c \<le> 122"

text \<open>\<open>/^\s*(\d{1,2})-([A-Za-z]{3})-(\d{4}) (\d{2}):(\d{2}):(\d{2}) ([+-])(\d{2})(\d{2})$/\<close> after the day.\<close>

definition DATE_TIME_TAIL :: "(char \<Rightarrow> bool) list" where
  "DATE_TIME_TAIL =
     [(=) CHR ''-'', is_alpha, is_alpha, is_alpha, (=) CHR ''-'', is_digit, is_digit, is_digit, is_digit, (=) SP,
      is_digit, is_digit, (=) CHR '':'', is_digit, is_digit, (=) CHR '':'', is_digit, is_digit, (=) SP,
      \<lambda>c. c = CHR ''+'' \<or> c = CHR ''-'', is_digit, is_digit, is_digit, is_digit]"

definition monthIndex :: "string \<Rightarrow> nat option" where
  "monthIndex m = find_index (\<lambda>x. toLowerCase x = toLowerCase m) MONTHS"

definition parseImapDateTime :: "string \<Rightarrow> int option" where
  "parseImapDateTime s =
     (let t = dropWhile is_space s; day = takeWhile is_digit t; r = dropWhile is_digit t;
          num = (\<lambda>i j. int (digits_value (Prelude.slice i j r)))
      in if length day = 0 \<or> length day > 2 \<or> \<not> list_all2 (\<lambda>p c. p c) DATE_TIME_TAIL r then None
         else case monthIndex (Prelude.slice 1 4 r) of
           None \<Rightarrow> None
         | Some month \<Rightarrow>
             (let base = dateUTC (num 5 9) month (int (digits_value day)) (num 10 12) (num 13 15) (num 16 18);
                  offsetMin = num 20 22 * 60 + num 22 24
              in Some (base - (if r ! 19 = CHR ''+'' then 1 else - 1) * offsetMin * 60000)))"

definition formatInternalDate :: "int \<Rightarrow> string" where
  "formatInternalDate ms =
     (let d = ms div msPerDay; r = ms mod msPerDay
      in pad (dateFromDay d) @ ''-'' @ MONTHS ! monthFromDay d @ ''-'' @ show_int (yearFromDay d) @ '' '' @
         pad (r div 3600000) @ '':'' @ pad (r div 60000 mod 60) @ '':'' @ pad (r div 1000 mod 60) @ '' +0000'')"

section \<open>ENVELOPE\<close>

record parsed_address =
  pa_name :: "string option"
  pa_email :: string

record parsed_message =
  pm_headers :: "(string \<times> string list) list"
  pm_subject :: "string option"
  pm_messageId :: "string option"
  pm_sentAt :: "int option"
  pm_from :: "parsed_address list"
  pm_to :: "parsed_address list"
  pm_cc :: "parsed_address list"
  pm_bcc :: "parsed_address list"
  pm_replyTo :: "parsed_address list"
  pm_sender :: "parsed_address list"

datatype mime_part =
  MimePart (mp_start: nat) (mp_bodyStart: nat) (mp_stop: nat) (mp_type: string) (mp_subtype: string)
    (mp_params: "(string \<times> string) list") (mp_contentId: "string option") (mp_description: "string option")
    (mp_encoding: string) (mp_disposition: "(string \<times> (string \<times> string) list) option")
    (mp_size: nat) (mp_lines: nat) (mp_children: "mime_part list")

record mime_lib =
  ml_parseMessage :: "bytes \<Rightarrow> parsed_message"
  ml_parseStructure :: "bytes \<Rightarrow> mime_part"
  ml_base64Decode :: "string \<Rightarrow> bytes"
  ml_quotedPrintableDecode :: "string \<Rightarrow> bytes"

definition addr :: "parsed_address \<Rightarrow> string" where
  "addr a =
     (let (mailbox, host) =
        (case sub_last_index ''@'' (pa_email a) of
           None \<Rightarrow> (pa_email a, None)
         | Some at \<Rightarrow> (take at (pa_email a), Some (drop (at + 1) (pa_email a))))
      in ''('' @ nstring (pa_name a) @ '' NIL '' @ nstring (Some mailbox) @ '' '' @ nstring host @ '')'')"

definition addrList :: "parsed_address list \<Rightarrow> string" where
  "addrList l = (if length l = 0 then ''NIL'' else ''('' @ concat (map addr l) @ '')'')"

definition firstRaw :: "(string \<times> string list) list \<Rightarrow> string \<Rightarrow> string option" where
  "firstRaw headers name = (case map_of headers name of Some (v # _) \<Rightarrow> Some v | _ \<Rightarrow> None)"

definition formatEnvelope :: "mime_lib \<Rightarrow> bytes \<Rightarrow> string" where
  "formatEnvelope lib raw =
     (let m = ml_parseMessage lib raw;
          from = addrList (pm_from m);
          sender = (if length (pm_sender m) > 0 then addrList (pm_sender m) else from);
          replyTo = (if length (pm_replyTo m) > 0 then addrList (pm_replyTo m) else from);
          messageId = map_option (\<lambda>i. ''<'' @ i @ ''>'') (pm_messageId m)
      in ''('' @ join '' '' [nstring (firstRaw (pm_headers m) ''date''), nstring (pm_subject m), from, sender, replyTo,
           addrList (pm_to m), addrList (pm_cc m), addrList (pm_bcc m),
           nstring (firstRaw (pm_headers m) ''in-reply-to''), nstring messageId] @ '')'')"

section \<open>BODYSTRUCTURE\<close>

definition paramsList :: "(string \<times> string) list \<Rightarrow> string" where
  "paramsList entries =
     (if length entries = 0 then ''NIL''
      else ''('' @ join '' '' (map (\<lambda>(k, v). nstring (Some k) @ '' '' @ nstring (Some v)) entries) @ '')'')"

definition dispositionStr :: "(string \<times> (string \<times> string) list) option \<Rightarrow> string" where
  "dispositionStr d =
     (case d of None \<Rightarrow> ''NIL'' | Some (ty, ps) \<Rightarrow> ''('' @ nstring (Some ty) @ '' '' @ paramsList ps @ '')'')"

fun bodyPart :: "mime_lib \<Rightarrow> bool \<Rightarrow> bytes \<Rightarrow> mime_part \<Rightarrow> string" where
  "bodyPart lib ext raw (MimePart start bodyStart stop ty subtype params contentId description encoding disposition sz lns children) =
     (let kids = map (bodyPart lib ext raw) children in
      if ty = ''multipart'' then
        (let base = ''('' @ (if length children > 0 then concat kids else ''(NIL NIL NIL NIL NIL 0 0)'') @ '' '' @
                    nstring (Some (toUpperCase subtype))
         in if \<not> ext then base @ '')''
            else base @ '' '' @ paramsList params @ '' '' @ dispositionStr disposition @ '' NIL NIL)'')
      else
        (let common = join '' '' [nstring (Some (toUpperCase ty)), nstring (Some (toUpperCase subtype)), paramsList params,
               nstring contentId, nstring description, nstring (Some (toUpperCase encoding)), show_nat sz];
             typed = common @
               (if ty = ''message'' \<and> subtype = ''rfc822'' \<and> children \<noteq> [] then
                  '' '' @ formatEnvelope lib (Prelude.slice bodyStart stop raw) @ '' '' @ hd kids @ '' '' @ show_nat lns
                else if ty = ''text'' then '' '' @ show_nat lns else [])
         in if \<not> ext then ''('' @ typed @ '')''
            else ''('' @ typed @ '' NIL '' @ dispositionStr disposition @ '' NIL NIL)''))"

definition formatBodyStructure :: "mime_lib \<Rightarrow> bytes \<Rightarrow> bool \<Rightarrow> string" where
  "formatBodyStructure lib raw ext = bodyPart lib ext raw (ml_parseStructure lib raw)"

section \<open>Sections\<close>

text \<open>A node of the tree with whether it is the root itself, which \<open>node === root\<close> tells.\<close>

type_synonym node = "bool \<times> mime_part"

definition isEmbedded :: "mime_part \<Rightarrow> bool" where
  "isEmbedded p \<longleftrightarrow> mp_type p = ''message'' \<and> mp_subtype p = ''rfc822''"

definition stepPart :: "node \<Rightarrow> nat \<Rightarrow> node option" where
  "stepPart node n =
     (let content = (if isEmbedded (snd node) \<and> mp_children (snd node) \<noteq> [] then (False, hd (mp_children (snd node))) else node)
      in if mp_type (snd content) = ''multipart''
         then (if n - 1 < length (mp_children (snd content)) then Some (False, mp_children (snd content) ! (n - 1)) else None)
         else if n = 1 then Some content else None)"

fun resolvePath :: "node \<Rightarrow> nat list \<Rightarrow> node option" where
  "resolvePath node [] = Some node"
| "resolvePath node (n # ns) = (case stepPart node n of None \<Rightarrow> None | Some node1 \<Rightarrow> resolvePath node1 ns)"

text \<open>\<open>split(/\r?\n/)\<close>\<close>

definition imap_splitLines :: "string \<Rightarrow> string list" where
  "imap_splitLines s =
     (let ls = split_char LF s in map (\<lambda>l. if l \<noteq> [] \<and> last l = CR then butlast l else l) (butlast ls) @ [last ls])"

fun filterHeaderLines :: "(string \<Rightarrow> bool) \<Rightarrow> bool \<Rightarrow> string list \<Rightarrow> string list" where
  "filterHeaderLines keep keeping [] = []"
| "filterHeaderLines keep keeping (l # ls) =
     (case l of
        [] \<Rightarrow> filterHeaderLines keep keeping ls
      | c # _ \<Rightarrow>
          if c = SP \<or> c = TAB then (if keeping then [l] else []) @ filterHeaderLines keep keeping ls
          else let k = (case indexOf CHR '':'' l of None \<Rightarrow> False | Some i \<Rightarrow> keep (toUpperCase (trim (take i l))))
               in (if k then [l] else []) @ filterHeaderLines keep k ls)"

definition filterHeaderFields :: "bytes \<Rightarrow> string list \<Rightarrow> bool \<Rightarrow> bytes" where
  "filterHeaderFields headerBytes flds negate =
     (let wanted = map toUpperCase flds;
          out = filterHeaderLines (\<lambda>name. if negate then name \<notin> set wanted else name \<in> set wanted) False (imap_splitLines headerBytes)
      in if length out > 0 then join CRLF out @ CRLF @ CRLF else CRLF)"

definition asMessage :: "mime_part \<Rightarrow> node \<Rightarrow> mime_part option" where
  "asMessage root node =
     (if fst node then Some root
      else if isEmbedded (snd node) then (case mp_children (snd node) of [] \<Rightarrow> None | p # _ \<Rightarrow> Some p)
      else None)"

definition extractSection :: "mime_lib \<Rightarrow> bytes \<Rightarrow> section_spec \<Rightarrow> bytes option" where
  "extractSection lib raw spec =
     (let root = ml_parseStructure lib raw in
      case resolvePath (True, root) (ss_path spec) of
        None \<Rightarrow> None
      | Some target \<Rightarrow>
          (let message = (if length (ss_path spec) = 0 then Some root else asMessage root target) in
           case ss_sub spec of
             None \<Rightarrow> if length (ss_path spec) = 0 then Some raw else Some (Prelude.slice (mp_bodyStart (snd target)) (mp_stop (snd target)) raw)
           | Some sub \<Rightarrow>
               if sub = ''HEADER'' then map_option (\<lambda>m. Prelude.slice (mp_start m) (mp_bodyStart m) raw) message
               else if sub = ''TEXT'' then map_option (\<lambda>m. Prelude.slice (mp_bodyStart m) (mp_stop m) raw) message
               else if sub = ''MIME'' then
                 (if length (ss_path spec) = 0 then None else Some (Prelude.slice (mp_start (snd target)) (mp_bodyStart (snd target)) raw))
               else map_option (\<lambda>m. filterHeaderFields (Prelude.slice (mp_start m) (mp_bodyStart m) raw) (ss_fields spec)
                                       (sub = ''HEADER.FIELDS.NOT'')) message))"

datatype binary_content = BC_bytes bytes | BC_unknownCte

definition decodeCte :: "mime_lib \<Rightarrow> bytes \<Rightarrow> string \<Rightarrow> binary_content" where
  "decodeCte lib b encoding =
     (let e = toLowerCase (trim encoding) in
      if e \<in> {[], ''7bit'', ''8bit'', ''binary''} then BC_bytes b
      else if e = ''base64'' then BC_bytes (ml_base64Decode lib b)
      else if e = ''quoted-printable'' then BC_bytes (ml_quotedPrintableDecode lib b)
      else BC_unknownCte)"

definition extractBinary :: "mime_lib \<Rightarrow> bytes \<Rightarrow> nat list \<Rightarrow> binary_content option" where
  "extractBinary lib raw path =
     (let root = ml_parseStructure lib raw in
      case resolvePath (True, root) path of
        None \<Rightarrow> None
      | Some (_, target) \<Rightarrow>
          (case decodeCte lib (Prelude.slice (mp_bodyStart target) (mp_stop target) raw) (mp_encoding target) of
             BC_unknownCte \<Rightarrow> Some BC_unknownCte
           | BC_bytes b \<Rightarrow>
               if length path > 0 then Some (BC_bytes b)
               else Some (BC_bytes (Prelude.slice (mp_start root) (mp_bodyStart root) raw @ b))))"

end
