(* ===== verification/ImapSearch.thy ===== *)
theory ImapSearch
  imports ImapFetch SequenceSet
begin

text \<open>
  SEARCH, SORT and THREAD: \<open>proto-imap/src/search-criteria.ts\<close> and \<open>proto-imap/src/sort-thread.ts\<close>. The
  recursion of \<open>parseKey\<close> takes fuel, and \<open>None\<close> says that it ran out; the number of values and one more is
  shown to be enough.

  Shown: parsing always ends; a program that does not ask for the text of the messages is decided without
  it.
\<close>

section \<open>Search keys\<close>

datatype date_op = D_before | D_on | D_since

datatype search_key =
    SK_all
  | SK_none
  | SK_flag string bool
  | SK_larger nat
  | SK_smaller nat
  | SK_uid "seq_range list"
  | SK_seq "seq_range list"
  | SK_internalDate date_op int
  | SK_sentDate date_op int
  | SK_saveDate date_op int
  | SK_header string string
  | SK_text string bool
  | SK_modseq nat
  | SK_not search_key
  | SK_or search_key search_key
  | SK_and "search_key list"

record search_message =
  sm_seq :: nat
  sm_uid :: nat
  sm_flags :: "string list"
  sm_size :: nat
  sm_internalDateMs :: int
  sm_saveDateMs :: "int option"
  sm_modseq :: "nat option"
  sm_raw :: "bytes option"

datatype search_parse = SP_ok search_key | SP_bad bool

definition FLAG_KEYS :: "(string \<times> string) list" where
  "FLAG_KEYS =
     [(''ANSWERED'', BACKSLASH # ''Answered''), (''DELETED'', BACKSLASH # ''Deleted''), (''DRAFT'', BACKSLASH # ''Draft''),
      (''FLAGGED'', BACKSLASH # ''Flagged''), (''SEEN'', BACKSLASH # ''Seen'')]"

definition HEADER_SHORTCUTS :: "string list" where
  "HEADER_SHORTCUTS = [''FROM'', ''TO'', ''CC'', ''BCC'', ''SUBJECT'']"

text \<open>\<open>/^"?(\d{1,2})-([A-Za-z]{3})-(\d{4})"?$/\<close>\<close>

definition SEARCH_DATE_TAIL :: "(char \<Rightarrow> bool) list" where
  "SEARCH_DATE_TAIL =
     [(=) CHR ''-'', is_alpha, is_alpha, is_alpha, (=) CHR ''-'', is_digit, is_digit, is_digit, is_digit]"

definition parseSearchDate :: "string \<Rightarrow> int option" where
  "parseSearchDate s =
     (let t = (if startsWith [QUOTE] s then tl s else s);
          day = takeWhile is_digit t; r0 = dropWhile is_digit t;
          r = (if endsWith [QUOTE] r0 then butlast r0 else r0)
      in if length day = 0 \<or> length day > 2 \<or> \<not> list_all2 (\<lambda>p c. p c) SEARCH_DATE_TAIL r then None
         else case monthIndex (Prelude.slice 1 4 r) of
           None \<Rightarrow> None
         | Some month \<Rightarrow> Some (dateUTC (int (digits_value (Prelude.slice 5 9 r))) month (int (digits_value day)) 0 0 0))"

section \<open>Parsing\<close>

text \<open>What \<open>TokenStream.next\<close> and \<open>argText\<close> give, with the values left.\<close>

definition argText :: "imap_value list \<Rightarrow> string option \<times> imap_value list" where
  "argText vs = (case vs of [] \<Rightarrow> (None, []) | v # r \<Rightarrow> (valueText v, r))"

definition argNumber :: "imap_value list \<Rightarrow> nat option \<times> imap_value list" where
  "argNumber vs =
     (case argText vs of
        (Some t, r) \<Rightarrow> (if all_digits t then Some (digits_value t) else None, r)
      | (None, r) \<Rightarrow> (None, r))"

definition DATE_KEYS :: "(string \<times> (date_op \<Rightarrow> int \<Rightarrow> search_key) \<times> date_op) list" where
  "DATE_KEYS =
     [(''BEFORE'', SK_internalDate, D_before), (''ON'', SK_internalDate, D_on), (''SINCE'', SK_internalDate, D_since),
      (''SENTBEFORE'', SK_sentDate, D_before), (''SENTON'', SK_sentDate, D_on), (''SENTSINCE'', SK_sentDate, D_since),
      (''SAVEDBEFORE'', SK_saveDate, D_before), (''SAVEDON'', SK_saveDate, D_on), (''SAVEDSINCE'', SK_saveDate, D_since)]"

definition parseModseqArg :: "imap_value list \<Rightarrow> (search_key \<times> imap_value list) option" where
  "parseModseqArg vs =
     (let (t, r) = argText vs;
          (t1, r1) = (case t of
                        Some w \<Rightarrow> if all_digits w then (t, r) else argText (snd (argText r))
                      | None \<Rightarrow> (t, r))
      in case t1 of
           Some w \<Rightarrow> if all_digits w then Some (SK_modseq (digits_value w), r1) else None
         | None \<Rightarrow> None)"

text \<open>The keys that do not hold others: the word, its capitals and the values after it.\<close>

definition parseWordKey :: "string \<Rightarrow> string \<Rightarrow> imap_value list \<Rightarrow> (search_key \<times> imap_value list) option" where
  "parseWordKey txt upper vs =
     (case (if startsWith ''UN'' upper then map_of FLAG_KEYS (drop 2 upper) else None) of
        Some flag \<Rightarrow> Some (SK_flag flag True, vs)
      | None \<Rightarrow>
      case map_of FLAG_KEYS upper of
        Some flag \<Rightarrow> Some (SK_flag flag False, vs)
      | None \<Rightarrow>
      if upper = ''ALL'' then Some (SK_all, vs)
      else if upper = ''RECENT'' \<or> upper = ''NEW'' then Some (SK_none, vs)
      else if upper = ''OLD'' then Some (SK_all, vs)
      else if upper = ''KEYWORD'' \<or> upper = ''UNKEYWORD'' then
        (case argText vs of (Some kw, r) \<Rightarrow> Some (SK_flag kw (upper = ''UNKEYWORD''), r) | _ \<Rightarrow> None)
      else if upper = ''LARGER'' \<or> upper = ''SMALLER'' then
        (case argNumber vs of (Some n, r) \<Rightarrow> Some (if upper = ''LARGER'' then SK_larger n else SK_smaller n, r) | _ \<Rightarrow> None)
      else if upper = ''UID'' then
        (case argText vs of
           (Some t, r) \<Rightarrow> (case parseSequenceSet t of Some ranges \<Rightarrow> Some (SK_uid ranges, r) | None \<Rightarrow> None)
         | _ \<Rightarrow> None)
      else case map_of DATE_KEYS upper of
        Some (mk, op) \<Rightarrow>
          (case argText vs of
             (Some d, r) \<Rightarrow> (case parseSearchDate d of Some ms \<Rightarrow> Some (mk op ms, r) | None \<Rightarrow> None)
           | _ \<Rightarrow> None)
      | None \<Rightarrow>
      if upper = ''HEADER'' then
        (case argText vs of
           (Some field, r) \<Rightarrow> (case argText r of (Some value, r2) \<Rightarrow> Some (SK_header (toUpperCase field) value, r2) | _ \<Rightarrow> None)
         | _ \<Rightarrow> None)
      else if upper = ''BODY'' \<or> upper = ''TEXT'' then
        (case argText vs of (Some value, r) \<Rightarrow> Some (SK_text value (upper = ''TEXT''), r) | _ \<Rightarrow> None)
      else if upper = ''MODSEQ'' then parseModseqArg vs
      else if upper \<in> set HEADER_SHORTCUTS then
        (case argText vs of (Some value, r) \<Rightarrow> Some (SK_header upper value, r) | _ \<Rightarrow> None)
      else case parseSequenceSet txt of Some ranges \<Rightarrow> Some (SK_seq ranges, vs) | None \<Rightarrow> None)"

text \<open>The CHARSET in front of a program: the values after it, or \<open>None\<close> for one that is not supported.\<close>

definition skipCharset :: "imap_value list \<Rightarrow> imap_value list option" where
  "skipCharset values =
     (if map_option toUpperCase (fst (argText values)) = Some ''CHARSET'' then
        (case argText (snd (argText values)) of
           (Some name, r) \<Rightarrow> if toUpperCase name = ''UTF-8'' \<or> toUpperCase name = ''US-ASCII'' then Some r else None
         | _ \<Rightarrow> None)
      else Some values)"

fun parseKey :: "nat \<Rightarrow> imap_value list \<Rightarrow> (search_key \<times> imap_value list) option option"
  and parseKeys :: "nat \<Rightarrow> imap_value list \<Rightarrow> search_key list option option"
  and parseProgram :: "nat \<Rightarrow> imap_value list \<Rightarrow> search_parse option" where
  "parseKey 0 vs = None"
| "parseKey (Suc fuel) values =
     (case values of
        [] \<Rightarrow> Some None
      | v # vs \<Rightarrow>
          (case v of
             V_list items \<Rightarrow>
               (case parseProgram fuel items of
                  None \<Rightarrow> None
                | Some (SP_ok key) \<Rightarrow> Some (Some (key, vs))
                | Some (SP_bad _) \<Rightarrow> Some None)
           | _ \<Rightarrow>
               (case valueText v of
                  None \<Rightarrow> Some None
                | Some txt \<Rightarrow>
                    (let upper = toUpperCase txt in
                     if upper = ''NOT'' then
                       (case parseKey fuel vs of
                          None \<Rightarrow> None
                        | Some None \<Rightarrow> Some None
                        | Some (Some (key, r)) \<Rightarrow> Some (Some (SK_not key, r)))
                     else if upper = ''OR'' then
                       (case parseKey fuel vs of
                          None \<Rightarrow> None
                        | Some None \<Rightarrow> Some None
                        | Some (Some (a, r)) \<Rightarrow>
                            (case parseKey fuel r of
                               None \<Rightarrow> None
                             | Some None \<Rightarrow> Some None
                             | Some (Some (b, r2)) \<Rightarrow> Some (Some (SK_or a b, r2))))
                     else Some (parseWordKey txt upper vs)))))"
| "parseKeys 0 vs = None"
| "parseKeys (Suc fuel) values =
     (case values of
        [] \<Rightarrow> Some (Some [])
      | v # vs \<Rightarrow>
          (case parseKey fuel (v # vs) of
             None \<Rightarrow> None
           | Some None \<Rightarrow> Some None
           | Some (Some (key, r)) \<Rightarrow>
               (case parseKeys fuel r of
                  None \<Rightarrow> None
                | Some None \<Rightarrow> Some None
                | Some (Some ks) \<Rightarrow> Some (Some (key # ks)))))"
| "parseProgram 0 values = None"
| "parseProgram (Suc fuel) values =
     (case skipCharset values of
        None \<Rightarrow> Some (SP_bad True)
      | Some vs \<Rightarrow>
          (case parseKeys fuel vs of
             None \<Rightarrow> None
           | Some None \<Rightarrow> Some (SP_bad False)
           | Some (Some []) \<Rightarrow> Some (SP_bad False)
           | Some (Some [key]) \<Rightarrow> Some (SP_ok key)
           | Some (Some ks) \<Rightarrow> Some (SP_ok (SK_and ks))))"

fun value_count :: "imap_value \<Rightarrow> nat" where
  "value_count (V_list items) = 1 + sum_list (map value_count items)"
| "value_count v = 1"

definition values_count :: "imap_value list \<Rightarrow> nat" where
  "values_count vs = sum_list (map value_count vs)"

definition parseSearchProgram :: "imap_value list \<Rightarrow> search_parse option" where
  "parseSearchProgram values = parseProgram (3 * values_count values + 3) values"

section \<open>Evaluation\<close>

fun searchNeedsRaw :: "search_key \<Rightarrow> bool" where
  "searchNeedsRaw (SK_sentDate op ms) = True"
| "searchNeedsRaw (SK_header f v) = True"
| "searchNeedsRaw (SK_text v h) = True"
| "searchNeedsRaw (SK_not k) = searchNeedsRaw k"
| "searchNeedsRaw (SK_or a b) = (searchNeedsRaw a \<or> searchNeedsRaw b)"
| "searchNeedsRaw (SK_and ks) = list_ex searchNeedsRaw ks"
| "searchNeedsRaw _ = False"

definition dateMatch :: "date_op \<Rightarrow> int \<Rightarrow> int \<Rightarrow> bool" where
  "dateMatch op targetMs valueMs =
     (let t = targetMs div msPerDay; v = valueMs div msPerDay
      in case op of D_before \<Rightarrow> v < t | D_on \<Rightarrow> v = t | D_since \<Rightarrow> v \<ge> t)"

definition js_includes :: "string \<Rightarrow> string \<Rightarrow> bool" where
  "js_includes hay needle \<longleftrightarrow> sub_index needle hay \<noteq> None"

text \<open>From \<open>search(/\r?\n\r?\n/)\<close> on, or nothing when there is no such place.\<close>

fun fromBlankLine :: "string \<Rightarrow> string" where
  "fromBlankLine [] = []"
| "fromBlankLine (c # s) =
     (if startsWith [CR, LF, CR, LF] (c # s) \<or> startsWith [CR, LF, LF] (c # s) \<or>
         startsWith [LF, CR, LF] (c # s) \<or> startsWith [LF, LF] (c # s)
      then c # s else fromBlankLine s)"

fun evaluateSearch :: "mime_lib \<Rightarrow> search_key \<Rightarrow> search_message \<Rightarrow> nat \<Rightarrow> nat \<Rightarrow> bool" where
  "evaluateSearch lib SK_all msg maxSeq maxUid = True"
| "evaluateSearch lib SK_none msg maxSeq maxUid = False"
| "evaluateSearch lib (SK_flag flag negate) msg maxSeq maxUid =
     (let has = list_ex (\<lambda>f. toUpperCase f = toUpperCase flag) (sm_flags msg) in if negate then \<not> has else has)"
| "evaluateSearch lib (SK_larger n) msg maxSeq maxUid = (sm_size msg > n)"
| "evaluateSearch lib (SK_smaller n) msg maxSeq maxUid = (sm_size msg < n)"
| "evaluateSearch lib (SK_uid ranges) msg maxSeq maxUid = matchSequenceSet ranges (sm_uid msg) maxUid"
| "evaluateSearch lib (SK_seq ranges) msg maxSeq maxUid = matchSequenceSet ranges (sm_seq msg) maxSeq"
| "evaluateSearch lib (SK_internalDate op ms) msg maxSeq maxUid = dateMatch op ms (sm_internalDateMs msg)"
| "evaluateSearch lib (SK_saveDate op ms) msg maxSeq maxUid =
     dateMatch op ms (case sm_saveDateMs msg of Some d \<Rightarrow> d | None \<Rightarrow> sm_internalDateMs msg)"
| "evaluateSearch lib (SK_sentDate op ms) msg maxSeq maxUid =
     (case sm_raw msg of
        None \<Rightarrow> False
      | Some raw \<Rightarrow> (case pm_sentAt (ml_parseMessage lib raw) of None \<Rightarrow> False | Some sentAt \<Rightarrow> dateMatch op ms sentAt))"
| "evaluateSearch lib (SK_header field value) msg maxSeq maxUid =
     (case sm_raw msg of
        None \<Rightarrow> False
      | Some raw \<Rightarrow>
          (let vals = (case map_of (pm_headers (ml_parseMessage lib raw)) (toLowerCase field) of Some l \<Rightarrow> l | None \<Rightarrow> [])
           in if length value = 0 then length vals > 0
              else list_ex (\<lambda>h. js_includes (toLowerCase h) (toLowerCase value)) vals))"
| "evaluateSearch lib (SK_text value includeHeaders) msg maxSeq maxUid =
     (case sm_raw msg of
        None \<Rightarrow> False
      | Some raw \<Rightarrow>
          (let full = toLowerCase (utf8Decode raw)
           in js_includes (if includeHeaders then full else fromBlankLine full) (toLowerCase value)))"
| "evaluateSearch lib (SK_modseq n) msg maxSeq maxUid = ((case sm_modseq msg of Some m \<Rightarrow> m | None \<Rightarrow> 0) \<ge> n)"
| "evaluateSearch lib (SK_not k) msg maxSeq maxUid = (\<not> evaluateSearch lib k msg maxSeq maxUid)"
| "evaluateSearch lib (SK_or a b) msg maxSeq maxUid =
     (evaluateSearch lib a msg maxSeq maxUid \<or> evaluateSearch lib b msg maxSeq maxUid)"
| "evaluateSearch lib (SK_and ks) msg maxSeq maxUid = list_all (\<lambda>k. evaluateSearch lib k msg maxSeq maxUid) ks"

section \<open>SORT and THREAD\<close>

record sort_keys =
  so_subjectBase :: string
  so_sentAtMs :: int
  so_threadId :: string
  so_from :: string
  so_to :: string
  so_cc :: string

datatype sort_key_name = ARRIVAL | CC | DATE | FROM | SIZE | SUBJECT | TO

record sort_spec =
  sp_key :: sort_key_name
  sp_reverse :: bool

record sort_item =
  si_num :: nat
  si_seq :: nat
  si_uid :: nat
  si_keys :: sort_keys

type_synonym sort_meta = "(nat \<times> int \<times> nat) list"

definition SORT_KEYS :: "(string \<times> sort_key_name) list" where
  "SORT_KEYS = [(''ARRIVAL'', ARRIVAL), (''CC'', CC), (''DATE'', DATE), (''FROM'', FROM), (''SIZE'', SIZE),
     (''SUBJECT'', SUBJECT), (''TO'', TO)]"

fun parseSortLoop :: "bool \<Rightarrow> sort_spec list \<Rightarrow> imap_value list \<Rightarrow> sort_spec list option" where
  "parseSortLoop reverse out [] = (if reverse \<or> length out = 0 then None else Some out)"
| "parseSortLoop reverse out (v # vs) =
     (case valueText v of
        None \<Rightarrow> None
      | Some txt \<Rightarrow>
          (let t = toUpperCase txt in
           if t = ''REVERSE'' then (if reverse then None else parseSortLoop True out vs)
           else case map_of SORT_KEYS t of
             None \<Rightarrow> None
           | Some key \<Rightarrow> parseSortLoop False (out @ [\<lparr>sp_key = key, sp_reverse = reverse\<rparr>]) vs))"

definition parseSortSpec :: "imap_value list \<Rightarrow> sort_spec list option" where
  "parseSortSpec items = parseSortLoop False [] items"

fun cmpStr :: "string \<Rightarrow> string \<Rightarrow> int" where
  "cmpStr [] [] = 0"
| "cmpStr [] (b # bs) = - 1"
| "cmpStr (a # as) [] = 1"
| "cmpStr (a # as) (b # bs) = (if code a < code b then - 1 else if code b < code a then 1 else cmpStr as bs)"

definition metaDate :: "sort_meta \<Rightarrow> sort_item \<Rightarrow> int" where
  "metaDate meta a = (case map_of meta (si_uid a) of Some (d, sz) \<Rightarrow> d | None \<Rightarrow> 0)"

definition metaSize :: "sort_meta \<Rightarrow> sort_item \<Rightarrow> int" where
  "metaSize meta a = (case map_of meta (si_uid a) of Some (d, sz) \<Rightarrow> int sz | None \<Rightarrow> 0)"

definition sentOrArrived :: "sort_meta \<Rightarrow> sort_item \<Rightarrow> int" where
  "sentOrArrived meta a = (if so_sentAtMs (si_keys a) = 0 then metaDate meta a else so_sentAtMs (si_keys a))"

fun cmpBy :: "sort_meta \<Rightarrow> sort_key_name \<Rightarrow> sort_item \<Rightarrow> sort_item \<Rightarrow> int" where
  "cmpBy meta ARRIVAL a b = metaDate meta a - metaDate meta b"
| "cmpBy meta SIZE a b = metaSize meta a - metaSize meta b"
| "cmpBy meta DATE a b = sentOrArrived meta a - sentOrArrived meta b"
| "cmpBy meta SUBJECT a b = cmpStr (so_subjectBase (si_keys a)) (so_subjectBase (si_keys b))"
| "cmpBy meta FROM a b = cmpStr (so_from (si_keys a)) (so_from (si_keys b))"
| "cmpBy meta TO a b = cmpStr (so_to (si_keys a)) (so_to (si_keys b))"
| "cmpBy meta CC a b = cmpStr (so_cc (si_keys a)) (so_cc (si_keys b))"

text \<open>\<open>Array.prototype.sort\<close>: a stable sort, for a comparator that orders the elements.\<close>

fun insertBy :: "('a \<Rightarrow> 'a \<Rightarrow> int) \<Rightarrow> 'a \<Rightarrow> 'a list \<Rightarrow> 'a list" where
  "insertBy cmp x [] = [x]"
| "insertBy cmp x (y # ys) = (if cmp x y \<le> 0 then x # y # ys else y # insertBy cmp x ys)"

definition jsSort :: "('a \<Rightarrow> 'a \<Rightarrow> int) \<Rightarrow> 'a list \<Rightarrow> 'a list" where
  "jsSort cmp xs = foldr (insertBy cmp) xs []"

fun cmpSpecs :: "sort_meta \<Rightarrow> sort_spec list \<Rightarrow> sort_item \<Rightarrow> sort_item \<Rightarrow> int" where
  "cmpSpecs meta [] a b = int (si_seq a) - int (si_seq b)"
| "cmpSpecs meta (s # specs) a b =
     (let r = cmpBy meta (sp_key s) a b
      in if r \<noteq> 0 then (if sp_reverse s then - r else r) else cmpSpecs meta specs a b)"

definition formatSortLine :: "sort_item list \<Rightarrow> sort_spec list \<Rightarrow> sort_meta \<Rightarrow> string" where
  "formatSortLine hits specs meta =
     (let sorted = jsSort (cmpSpecs meta specs) hits
      in ''* SORT'' @ (if length sorted > 0 then '' '' @ join '' '' (map (\<lambda>h. show_nat (si_num h)) sorted) else []))"

definition threadKey :: "sort_item \<Rightarrow> string" where
  "threadKey h =
     (if so_threadId (si_keys h) = [] then CHR 0x00 # ''solo-'' @ show_nat (si_uid h) else so_threadId (si_keys h))"

fun groupAdd :: "sort_item \<Rightarrow> (string \<times> sort_item list) list \<Rightarrow> (string \<times> sort_item list) list" where
  "groupAdd h [] = [(threadKey h, [h])]"
| "groupAdd h ((k, g) # gs) = (if k = threadKey h then (k, g @ [h]) # gs else (k, g) # groupAdd h gs)"

definition cmpSent :: "sort_item \<Rightarrow> sort_item \<Rightarrow> int" where
  "cmpSent a b =
     (let r = so_sentAtMs (si_keys a) - so_sentAtMs (si_keys b) in if r \<noteq> 0 then r else int (si_seq a) - int (si_seq b))"

definition cmpThreads :: "string \<Rightarrow> sort_item list \<Rightarrow> sort_item list \<Rightarrow> int" where
  "cmpThreads algorithm a b =
     (let x = hd a; y = hd b;
          r = (if algorithm = ''ORDEREDSUBJECT'' then cmpStr (so_subjectBase (si_keys x)) (so_subjectBase (si_keys y)) else 0)
      in if r \<noteq> 0 then r else cmpSent x y)"

definition threadGroups :: "sort_item list \<Rightarrow> string \<Rightarrow> sort_item list list" where
  "threadGroups hits algorithm =
     jsSort (cmpThreads algorithm) (map (\<lambda>(k, g). jsSort cmpSent g) (fold groupAdd hits []))"

definition formatThreadLine :: "sort_item list \<Rightarrow> string \<Rightarrow> string" where
  "formatThreadLine hits algorithm =
     (let body = concat (map (\<lambda>g. ''('' @ join '' '' (map (\<lambda>h. show_nat (si_num h)) g) @ '')'') (threadGroups hits algorithm))
      in ''* THREAD'' @ (if length body > 0 then '' '' @ body else []))"

section \<open>Parsing ends\<close>

lemma values_count_simps [simp]: "values_count [] = 0" "values_count (v # vs) = value_count v + values_count vs"
  by (simp_all add: values_count_def)

lemma value_count_pos: "0 < value_count v"
  by (cases v) simp_all

lemma argText_count: "argText vs = (t, r) \<Longrightarrow> values_count r \<le> values_count vs"
  by (auto simp: argText_def split: list.splits)

lemma argNumber_count: "argNumber vs = (t, r) \<Longrightarrow> values_count r \<le> values_count vs"
  by (auto simp: argNumber_def dest: argText_count split: prod.splits option.splits)

lemma parseModseqArg_count:
  assumes "parseModseqArg vs = Some (k, r)"
  shows "values_count r \<le> values_count vs"
proof -
  obtain t1 r1 where 1: "argText vs = (t1, r1)" by force
  obtain t2 r2 where 2: "argText r1 = (t2, r2)" by force
  obtain t3 r3 where 3: "argText r2 = (t3, r3)" by force
  have "r = r1 \<or> r = r3" using assms 1 2 3 by (auto simp: parseModseqArg_def split: option.splits if_splits)
  then show ?thesis using argText_count [OF 1] argText_count [OF 2] argText_count [OF 3] by auto
qed

text \<open>\<open>shrinks\<close>: what a parser leaves is no more than it was given.\<close>

definition shrinks :: "nat \<Rightarrow> (search_key \<times> imap_value list) option \<Rightarrow> bool" where
  "shrinks n p \<longleftrightarrow> (\<forall>k r. p = Some (k, r) \<longrightarrow> values_count r \<le> n)"

lemma shrinks_simps [simp]: "shrinks n None" "shrinks n (Some (k, r)) \<longleftrightarrow> values_count r \<le> n"
  by (simp_all add: shrinks_def)

lemma shrinks_arg:
  "(\<And>x r. values_count r \<le> values_count vs \<Longrightarrow> shrinks (values_count vs) (f x r)) \<Longrightarrow>
   shrinks (values_count vs) (case argText vs of (None, r) \<Rightarrow> None | (Some x, r) \<Rightarrow> f x r)"
  using argText_count by (auto split: prod.split option.split)

lemma parseWordKey_count: "shrinks (values_count vs) (parseWordKey txt upper vs)"
proof -
  have h: "shrinks (values_count vs)
      (case argText r of (None, r2) \<Rightarrow> None | (Some x, r2) \<Rightarrow> Some (f x, r2))" if "values_count r \<le> values_count vs" for r f
    using argText_count [of r] that by (auto split: prod.split option.split)
  have n: "shrinks (values_count vs) (case argNumber vs of (None, r) \<Rightarrow> None | (Some x, r) \<Rightarrow> Some (f x, r))" for f
    using argNumber_count by (auto split: prod.split option.split)
  have o: "shrinks (values_count vs) (case p of None \<Rightarrow> None | Some x \<Rightarrow> Some (g x, r))" if "values_count r \<le> values_count vs" for p g r
    using that by (simp split: option.split)
  have m: "shrinks (values_count vs) (parseModseqArg vs)"
    using parseModseqArg_count by (auto simp: shrinks_def)
  note rules = shrinks_arg h [OF order_refl] h n o m
  have w: "shrinks (values_count vs) (if b then x else y)" if "shrinks (values_count vs) x" "shrinks (values_count vs) y" for b x y
    using that by simp
  show ?thesis
    unfolding parseWordKey_def
    by (cases "if startsWith ''UN'' upper then map_of FLAG_KEYS (drop 2 upper) else None"; cases "map_of FLAG_KEYS upper";
        cases "map_of DATE_KEYS upper"; cases "the (map_of DATE_KEYS upper)")
      (simp_all only: option.case prod.case option.sel, simp_all only: shrinks_simps order_refl, (intro w rules | simp)+)
qed

text \<open>A word: one that holds other keys, or one that does not.\<close>

lemma parseKey_word:
  assumes "valueText v = Some txt"
  shows "parseKey (Suc n) (v # vs) =
     (if toUpperCase txt = ''NOT'' then
        (case parseKey n vs of
           None \<Rightarrow> None
         | Some None \<Rightarrow> Some None
         | Some (Some (key, r)) \<Rightarrow> Some (Some (SK_not key, r)))
      else if toUpperCase txt = ''OR'' then
        (case parseKey n vs of
           None \<Rightarrow> None
         | Some None \<Rightarrow> Some None
         | Some (Some (a, r)) \<Rightarrow>
             (case parseKey n r of
                None \<Rightarrow> None
              | Some None \<Rightarrow> Some None
              | Some (Some (b, r2)) \<Rightarrow> Some (Some (SK_or a b, r2))))
      else Some (parseWordKey txt (toUpperCase txt) vs))"
  using assms by (cases v) (simp_all add: Let_def)

lemma parseKey_cases [case_names empty group keyword]:
  assumes "vs = [] \<Longrightarrow> P" "\<And>items us. vs = V_list items # us \<Longrightarrow> P" "\<And>v us txt. vs = v # us \<Longrightarrow> valueText v = Some txt \<Longrightarrow> P"
  shows P
proof (cases vs)
  case (Cons v us)
  with assms show ?thesis by (cases v) auto
qed (use assms in simp)

lemma parseKey_count: "parseKey n vs = Some (Some (k, r)) \<Longrightarrow> values_count r < values_count vs"
proof (induction n arbitrary: vs k r)
  case (Suc n)
  show ?case
  proof (cases vs rule: parseKey_cases)
    case (group items us)
    then show ?thesis using Suc.prems by (auto split: option.splits search_parse.splits)
  next
    case (keyword v us tx)
    have p: "0 < value_count v" by (rule value_count_pos)
    consider (not) x where "parseKey n us = Some (Some (x, r))"
      | (or) a b r1 where "parseKey n us = Some (Some (a, r1))" "parseKey n r1 = Some (Some (b, r))"
      | (leaf) "parseWordKey tx (toUpperCase tx) us = Some (k, r)"
      using Suc.prems parseKey_word [OF keyword(2), of n us] keyword(1) by (auto split: if_splits option.splits prod.splits)
    then show ?thesis
    proof cases
      case leaf
      then show ?thesis using parseWordKey_count [of us tx "toUpperCase tx"] keyword(1) p by simp
    next
      case not
      then show ?thesis using Suc.IH keyword(1) by fastforce
    next
      case or
      then show ?thesis using Suc.IH [OF or(1)] Suc.IH [OF or(2)] keyword(1) by simp
    qed
  qed (use Suc.prems in simp)
qed simp

lemma search_fuel:
  "(0 < n \<longrightarrow> 3 * values_count vs \<le> n \<longrightarrow> parseKey n vs \<noteq> None) \<and>
   (3 * values_count vs + 1 \<le> n \<longrightarrow> parseKeys n vs \<noteq> None) \<and>
   (3 * values_count vs + 2 \<le> n \<longrightarrow> parseProgram n vs \<noteq> None)"
proof (induction n arbitrary: vs)
  case (Suc n)
  have key: "parseKey (Suc n) vs \<noteq> None" if "3 * values_count vs \<le> Suc n"
  proof (cases vs rule: parseKey_cases)
    case (group items us)
    then have "parseProgram n items \<noteq> None" using Suc.IH [of items] that by (simp add: values_count_def)
    with group show ?thesis by (auto split: option.splits search_parse.splits)
  next
    case (keyword v us tx)
    have p: "0 < value_count v" by (rule value_count_pos)
    have n: "0 < n" "3 * values_count us \<le> n" using that keyword(1) p by simp_all
    have a: "parseKey n us \<noteq> None" using Suc.IH [of us] n by simp
    have b: "parseKey n r \<noteq> None" if "parseKey n us = Some (Some (x, r))" for x r
      using Suc.IH [of r] parseKey_count [OF that] n by simp
    show ?thesis using a b parseKey_word [OF keyword(2), of n us] keyword(1) by (auto split: option.split)
  qed simp
  have keys: "parseKeys (Suc n) vs \<noteq> None" if "3 * values_count vs + 1 \<le> Suc n"
  proof (cases vs)
    case (Cons v us)
    have p: "0 < value_count v" by (rule value_count_pos)
    have n: "0 < n" "3 * values_count vs \<le> n" using that Cons p by simp_all
    have a: "parseKey n vs \<noteq> None" using Suc.IH [of vs] n by simp
    have b: "parseKeys n r \<noteq> None" if "parseKey n vs = Some (Some (x, r))" for x r
      using Suc.IH [of r] parseKey_count [OF that] n by simp
    show ?thesis using a b Cons by (auto split: option.split)
  qed simp
  have "parseProgram (Suc n) vs \<noteq> None" if "3 * values_count vs + 2 \<le> Suc n"
  proof -
    have "skipCharset vs = Some us \<Longrightarrow> values_count us \<le> values_count vs" for us
      by (auto simp: skipCharset_def argText_def split: list.splits option.splits if_splits)
    then have "skipCharset vs = Some us \<Longrightarrow> parseKeys n us \<noteq> None" for us using Suc.IH [of us] that by fastforce
    then show ?thesis by (auto split: option.split list.split)
  qed
  with key keys show ?case by blast
qed simp

lemma parseSearchProgram_total: "parseSearchProgram values \<noteq> None"
  using search_fuel [of "3 * values_count values + 3" "values"] by (simp add: parseSearchProgram_def)

text \<open>A program that does not need the text of a message gives the same answer without it.\<close>

lemma evaluateSearch_raw:
  "\<not> searchNeedsRaw key \<Longrightarrow> evaluateSearch lib key (msg\<lparr>sm_raw := r\<rparr>) maxSeq maxUid = evaluateSearch lib key msg maxSeq maxUid"
  by (induction lib key msg maxSeq maxUid rule: evaluateSearch.induct) (auto simp: list_all_iff list_ex_iff split: option.splits)

end
