(* ===== verification/ImapState.thy ===== *)
theory ImapState
  imports ImapSearch
begin

text \<open>
  The data of the IMAP engine (\<open>proto-imap/src/engine.ts\<close>): mailboxes, requests to the backend and its
  responses, actions, the view of a selected mailbox, and the state of the engine. A \<open>Set\<close> is a list in
  insertion order without repetition. The function that a pending backend request holds is one of the
  constructors of \<open>imap_cont\<close>, with the values that the function captured.
\<close>

section \<open>Mailboxes, requests, responses\<close>

record imap_mailbox =
  mb_name :: string
  mb_role :: "string option"
  mb_subscribed :: "bool option"
  mb_uidvalidity :: nat
  mb_uidnext :: nat
  mb_highestmodseq :: nat
  mb_totalCount :: nat
  mb_unreadCount :: nat
  mb_totalBytes :: nat
  mb_mailboxId :: "string option"
  mb_deletedCount :: "nat option"
  mb_deletedBytes :: "nat option"
  mb_readable :: "bool option"

record append_item =
  ai_raw :: bytes
  ai_flags :: "string list"
  ai_internalDateMs :: "int option"

datatype store_mode = SM_set | SM_add | SM_remove

datatype imap_request =
    RQ_listMailboxes bool bool
  | RQ_getQuota
  | RQ_createMailbox string
  | RQ_deleteMailbox string
  | RQ_renameMailbox string string
  | RQ_getAcl string
  | RQ_setAcl string string string
  | RQ_deleteAcl string string
  | RQ_listRights string string
  | RQ_myRights string
  | RQ_setSubscribed string bool
  | RQ_selectMailbox string
  | RQ_expungeMailbox string
  | RQ_fetchMessages string "nat list" bool bool bool
  | RQ_storeFlags string "nat list" store_mode "string list" "nat option"
  | RQ_syncSince string nat "seq_range list option" bool
  | RQ_expunge string "nat list option"
  | RQ_appendMessage string "string list" "int option" bytes "append_item list"
  | RQ_replaceMessage string string nat bytes "string list" "int option"
  | RQ_copyMessages string string "nat list"
  | RQ_moveMessages string string "nat list"

record fetch_data =
  fd_uid :: nat
  fd_emailId :: "string option"
  fd_threadId :: "string option"
  fd_flags :: "string list"
  fd_internalDateMs :: int
  fd_saveDateMs :: "int option"
  fd_size :: nat
  fd_modseq :: nat
  fd_raw :: "bytes option"
  fd_sortKeys :: "sort_keys option"

datatype imap_response =
    RS_mailboxes "imap_mailbox list"
  | RS_selected imap_mailbox "nat list" "nat option" "string list option"
  | RS_messages "fetch_data list"
  | RS_flagsUpdated "(nat \<times> string list \<times> nat option) list" "nat list option"
  | RS_sync "nat list" "(nat \<times> string list \<times> nat) list"
  | RS_expunged "nat list"
  | RS_appended nat nat "nat list option"
  | RS_replaced nat nat "nat option"
  | RS_copied nat "nat list" "nat list"
  | RS_acl string "(string \<times> string) list"
  | RS_rights string string string
  | RS_quota nat nat nat
  | RS_ok
  | RS_no "string option" string

datatype imap_action =
    IA_reply string
  | IA_replyBinary bytes
  | IA_close
  | IA_startTls
  | IA_startCompress
  | IA_auth string string
  | IA_scramKeys string
  | IA_authVerified string string
  | IA_authFailed "string option" string
  | IA_backend imap_request

text \<open>Replies: a tagged one, with its tag, its word and its text, and an untagged one.\<close>

definition tagReply :: "string \<Rightarrow> string \<Rightarrow> string \<Rightarrow> imap_action" where
  "tagReply tag word t = IA_reply (tag @ '' '' @ word @ '' '' @ t)"

definition starReply :: "string \<Rightarrow> imap_action" where
  "starReply t = IA_reply (''* '' @ t)"

section \<open>State of the engine\<close>

record selected_view =
  vw_name :: string
  vw_readWrite :: bool
  vw_uidvalidity :: nat
  vw_uids :: "nat list"
  vw_uidnext :: nat
  vw_announcedKeywords :: "string list"
  vw_lastSyncModseq :: nat

record qresync_params =
  qr_uidvalidity :: nat
  qr_modseq :: nat
  qr_knownUids :: "seq_range list option"

record list_context =
  lc_tag :: string
  lc_verb :: string
  lc_select :: "string list"
  lc_patterns :: "string list"
  lc_statusItems :: "string list option"
  lc_returnSubscribed :: bool

record fetch_context =
  fc_tag :: string
  fc_verb :: string
  fc_name :: string
  fc_items :: "fetch_item list"
  fc_changedSince :: "nat option"
  fc_needRaw :: bool
  fc_markSeen :: bool
  fc_targets :: "(nat \<times> nat) list"

record store_context =
  st_tag :: string
  st_verb :: string
  st_uidMode :: bool
  st_silent :: bool
  st_seqByUid :: "(nat \<times> nat) list"

record search_context =
  se_tag :: string
  se_verb :: string
  se_uidMode :: bool
  se_name :: string
  se_key :: search_key
  se_uids :: "nat list"

datatype sort_mode = SO_sort "sort_spec list" | SO_thread string

datatype imap_cont =
    K_simple string string
  | K_getAcl string
  | K_listRights string
  | K_myRights string
  | K_list list_context
  | K_select string bool "qresync_params option"
  | K_selectSync string bool
  | K_fetch fetch_context nat
  | K_vanished fetch_context "seq_range list" nat
  | K_append string string
  | K_replace string string string
  | K_copyMove string string bool
  | K_store store_context
  | K_expunge string string
  | K_refresh "(string \<times> string) option"
  | K_refreshSync "(string \<times> string) option" nat "string list"
  | K_search search_context "string list option" nat "nat list" "nat list"
  | K_sortThread search_context sort_mode nat "sort_item list" sort_meta
  | K_status string string "string list"
  | K_quota string string string

datatype imap_mech = IM_PLAIN | IM_XOAUTH2 | IM_OAUTHBEARER | IM_SCRAM

datatype imap_stage = IS_clientFirst | IS_clientFinal | IS_serverFinal

record imap_scram =
  ix_session :: scram_session
  ix_stage :: imap_stage
  ix_username :: "string option"

record sasl_pending =
  sl_tag :: string
  sl_mechanism :: imap_mech
  sl_scram :: "imap_scram option"

datatype imap_pending =
    IP_auth string
  | IP_saslLine sasl_pending
  | IP_scramKeys sasl_pending
  | IP_backend imap_cont

datatype imap_state = NotAuthenticated | Authenticated | Selected

record imap_options =
  io_hostname :: string
  io_secure :: bool
  io_allowInsecureAuth :: bool
  io_tlsAvailable :: bool
  io_scramOffered :: bool
  io_scramDecoySecret :: bytes
  io_maxLineBytes :: "nat option"
  io_maxLiteralBytes :: "nat option"

record imap =
  im_secure :: bool
  im_awaitingTls :: bool
  im_compressed :: bool
  im_reader :: imap_reader
  im_state :: imap_state
  im_selected :: "selected_view option"
  im_closed :: bool
  im_pending :: "imap_pending option"
  im_idleTag :: "string option"
  im_queued :: "line_part list list"
  im_queuedBytes :: int
  im_enabled :: "string list"
  im_savedSearch :: "nat list"

definition MAX_PREAUTH_LITERAL_BYTES :: nat where
  "MAX_PREAUTH_LITERAL_BYTES = 8 * 1024"

definition MAX_QUEUED_LINE_BYTES :: int where
  "MAX_QUEUED_LINE_BYTES = 1024 * 1024"

definition FETCH_BATCH_RAW :: nat where
  "FETCH_BATCH_RAW = 32"

definition FETCH_BATCH_META :: nat where
  "FETCH_BATCH_META = 512"

definition batchSize :: "bool \<Rightarrow> nat" where
  "batchSize needRaw = (if needRaw then FETCH_BATCH_RAW else FETCH_BATCH_META)"

definition authedMaxLiteralBytes :: "imap_options \<Rightarrow> nat" where
  "authedMaxLiteralBytes opt = (case io_maxLiteralBytes opt of Some n \<Rightarrow> n | None \<Rightarrow> MAX_MESSAGE_BYTES)"

definition imap_new :: "imap_options \<Rightarrow> imap" where
  "imap_new opt =
     \<lparr>im_secure = io_secure opt, im_awaitingTls = False, im_compressed = False,
      im_reader = imapReader_new (io_maxLineBytes opt) (Some (min (authedMaxLiteralBytes opt) MAX_PREAUTH_LITERAL_BYTES)) None,
      im_state = NotAuthenticated, im_selected = None, im_closed = False, im_pending = None, im_idleTag = None,
      im_queued = [], im_queuedBytes = 0, im_enabled = [], im_savedSearch = []\<rparr>"

section \<open>Helpers\<close>

definition js_set_add :: "'a \<Rightarrow> 'a list \<Rightarrow> 'a list" where
  "js_set_add x xs = (if x \<in> set xs then xs else xs @ [x])"

fun part_bytes :: "line_part \<Rightarrow> nat" where
  "part_bytes (TextPart t) = length t"
| "part_bytes (LiteralPart b) = length b"

definition lineBytes :: "line_part list \<Rightarrow> int" where
  "lineBytes parts = int (sum_list (map part_bytes parts))"

definition SYSTEM_FLAGS :: "string list" where
  "SYSTEM_FLAGS = map (Cons BACKSLASH) [''Answered'', ''Flagged'', ''Deleted'', ''Seen'', ''Draft'']"

definition flagsLine :: "string list \<Rightarrow> imap_action" where
  "flagsLine keywords = starReply (''FLAGS ('' @ join '' '' (SYSTEM_FLAGS @ keywords) @ '')'')"

definition callBackend :: "imap_request \<Rightarrow> imap_cont \<Rightarrow> imap \<Rightarrow> imap \<times> imap_action list" where
  "callBackend req k s = (s\<lparr>im_pending := Some (IP_backend k)\<rparr>, [IA_backend req])"

definition leaveSelected :: "imap \<Rightarrow> imap" where
  "leaveSelected s = s\<lparr>im_selected := None, im_state := Authenticated\<rparr>"

definition noReply :: "string \<Rightarrow> string \<Rightarrow> string option \<Rightarrow> string \<Rightarrow> imap_action" where
  "noReply tag verb codeOpt message =
     tagReply tag ''NO'' ((case codeOpt of Some k \<Rightarrow> (if k = [] then [] else ''['' @ k @ ''] '') | None \<Rightarrow> []) @ verb @ '' '' @ message)"

definition arg :: "nat \<Rightarrow> parsed_command \<Rightarrow> imap_value option" where
  "arg i cmd = (if i < length (pc_args cmd) then Some (pc_args cmd ! i) else None)"

definition identifierArg :: "parsed_command \<Rightarrow> nat \<Rightarrow> string option" where
  "identifierArg cmd i = (case arg i cmd of Some v \<Rightarrow> valueText v | None \<Rightarrow> None)"

definition mailboxArg :: "parsed_command \<Rightarrow> nat \<Rightarrow> string option" where
  "mailboxArg cmd i = map_option normalizeMailboxName (identifierArg cmd i)"

text \<open>\<open>valueText(v ?? { kind: "atom", value: "" })?.toUpperCase()\<close>\<close>

definition upperText :: "imap_value option \<Rightarrow> string option" where
  "upperText v = (case v of None \<Rightarrow> Some [] | Some w \<Rightarrow> map_option toUpperCase (valueText w))"

section \<open>The view\<close>

text \<open>\<open>resolveTargets\<close>: sequence number and UID of the messages of a set.\<close>

definition resolveTargets :: "seq_range list \<Rightarrow> bool \<Rightarrow> imap \<Rightarrow> (nat \<times> nat) list" where
  "resolveTargets ranges uidMode s =
     (case im_selected s of
        None \<Rightarrow> []
      | Some view \<Rightarrow>
          (let uids = vw_uids view;
               numbered = zip [1..<Suc (length uids)] uids
           in if uidMode
              then filter (\<lambda>(seq, uid). matchSequenceSet ranges uid (if length uids > 0 then last uids else 0)) numbered
              else filter (\<lambda>(seq, uid). matchSequenceSet ranges seq (length uids)) numbered))"

definition savedNumbers :: "nat list \<Rightarrow> bool \<Rightarrow> nat list \<Rightarrow> nat list" where
  "savedNumbers uids uidMode saved =
     List.map_filter (\<lambda>uid. map_option (\<lambda>i. if uidMode then uid else i + 1) (indexOf uid uids)) saved"

definition resolveSetArg :: "string \<Rightarrow> bool \<Rightarrow> imap \<Rightarrow> seq_range list option" where
  "resolveSetArg t uidMode s =
     (if t \<noteq> ''$'' then parseSequenceSet t
      else case im_selected s of
        None \<Rightarrow> None
      | Some view \<Rightarrow>
          Some (map (\<lambda>n. \<lparr>sr_from = SeqNum n, sr_to = SeqNum n\<rparr>)
                 (sort (savedNumbers (vw_uids view) uidMode (im_savedSearch s)))))"

definition setArg :: "parsed_command \<Rightarrow> bool \<Rightarrow> imap \<Rightarrow> seq_range list option" where
  "setArg cmd uidMode s = (case identifierArg cmd 0 of Some t \<Rightarrow> resolveSetArg t uidMode s | None \<Rightarrow> None)"

text \<open>\<open>view.uids.splice(i, 1)\<close>, and the index \<open>-1\<close> of \<open>indexOf\<close>, which takes the last element.\<close>

definition splice_at :: "nat \<Rightarrow> 'a list \<Rightarrow> 'a list" where
  "splice_at i xs = take i xs @ drop (Suc i) xs"

definition splice_value :: "'a \<Rightarrow> 'a list \<Rightarrow> 'a list" where
  "splice_value u xs = (case indexOf u xs of Some i \<Rightarrow> splice_at i xs | None \<Rightarrow> butlast xs)"

definition expungeReply :: "nat \<Rightarrow> imap_action" where
  "expungeReply i = starReply (show_nat (i + 1) @ '' EXPUNGE'')"

definition existsReply :: "nat list \<Rightarrow> imap_action" where
  "existsReply uids = starReply (show_nat (length uids) @ '' EXISTS'')"

definition descendingIndexes :: "nat list \<Rightarrow> nat list \<Rightarrow> nat list" where
  "descendingIndexes view uids = rev (sort (List.map_filter (\<lambda>uid. indexOf uid view) uids))"

definition removalActions :: "nat list \<Rightarrow> imap \<Rightarrow> imap \<times> imap_action list" where
  "removalActions uids s =
     (case im_selected s of
        None \<Rightarrow> (s, [])
      | Some view \<Rightarrow>
          if ''QRESYNC'' \<in> set (im_enabled s) then
            (let present = filter (\<lambda>u. u \<in> set (vw_uids view)) uids
             in (s\<lparr>im_selected := Some (view\<lparr>vw_uids := fold splice_value present (vw_uids view)\<rparr>)\<rparr>,
                 if length present > 0 then [starReply (''VANISHED '' @ formatUidSet present)] else []))
          else
            (let idxs = descendingIndexes (vw_uids view) uids
             in (s\<lparr>im_selected := Some (view\<lparr>vw_uids := fold splice_at idxs (vw_uids view)\<rparr>)\<rparr>, map expungeReply idxs)))"

definition ensureFlagsAnnounced :: "string list \<Rightarrow> imap \<Rightarrow> imap \<times> imap_action list" where
  "ensureFlagsAnnounced flags s =
     (case im_selected s of
        None \<Rightarrow> (s, [])
      | Some view \<Rightarrow>
          (let systems = map toUpperCase SYSTEM_FLAGS;
               announced = fold js_set_add (filter (\<lambda>f. toUpperCase f \<notin> set systems) flags) (vw_announcedKeywords view)
           in if announced = vw_announcedKeywords view then (s, [])
              else (s\<lparr>im_selected := Some (view\<lparr>vw_announcedKeywords := announced\<rparr>)\<rparr>, [flagsLine announced])))"

text \<open>New UIDs of an APPEND, a REPLACE or a refresh, put into the view.\<close>

definition addUids :: "nat list \<Rightarrow> selected_view \<Rightarrow> selected_view" where
  "addUids new view =
     view\<lparr>vw_uids := sort (vw_uids view @ new), vw_uidnext := fold (\<lambda>u n. max n (u + 1)) new (vw_uidnext view)\<rparr>"

end
