(* ===== verification/ImapCommands.thy ===== *)
theory ImapCommands
  imports ImapState
begin

text \<open>
  The commands of the IMAP engine that ask the backend (\<open>cmdList\<close> to \<open>cmdGetQuota\<close> of
  \<open>proto-imap/src/engine.ts\<close>). Each is a function of the command and the state that gives the new state and
  the actions; one that waits for the backend leaves its continuation in \<open>im_pending\<close>.
\<close>

abbreviation badReply :: "string \<Rightarrow> string \<Rightarrow> imap_action list" where
  "badReply tag t \<equiv> [tagReply tag ''BAD'' t]"

definition notSelected :: "parsed_command \<Rightarrow> imap_action list" where
  "notSelected cmd = badReply (pc_tag cmd) ''command requires a selected mailbox''"

definition readOnly :: "parsed_command \<Rightarrow> imap_action list" where
  "readOnly cmd = [tagReply (pc_tag cmd) ''NO'' ''[READ-ONLY] mailbox is read-only'']"

definition completed :: "string \<Rightarrow> string \<Rightarrow> imap_action" where
  "completed tag verb = tagReply tag ''OK'' (verb @ '' completed'')"

section \<open>Access control lists\<close>

definition cmdGetAcl :: "parsed_command \<Rightarrow> imap \<Rightarrow> imap \<times> imap_action list" where
  "cmdGetAcl cmd s =
     (case mailboxArg cmd 0 of
        Some name \<Rightarrow>
          if length (pc_args cmd) \<noteq> 1 then (s, badReply (pc_tag cmd) ''GETACL expects mailbox name'')
          else callBackend (RQ_getAcl name) (K_getAcl (pc_tag cmd)) s
      | None \<Rightarrow> (s, badReply (pc_tag cmd) ''GETACL expects mailbox name''))"

definition cmdSetAcl :: "parsed_command \<Rightarrow> imap \<Rightarrow> imap \<times> imap_action list" where
  "cmdSetAcl cmd s =
     (case (mailboxArg cmd 0, identifierArg cmd 1, identifierArg cmd 2) of
        (Some name, Some identifier, Some rights) \<Rightarrow>
          if length (pc_args cmd) \<noteq> 3 then (s, badReply (pc_tag cmd) ''SETACL expects mailbox identifier rights'')
          else callBackend (RQ_setAcl name identifier rights) (K_simple (pc_tag cmd) ''SETACL'') s
      | _ \<Rightarrow> (s, badReply (pc_tag cmd) ''SETACL expects mailbox identifier rights''))"

definition cmdDeleteAcl :: "parsed_command \<Rightarrow> imap \<Rightarrow> imap \<times> imap_action list" where
  "cmdDeleteAcl cmd s =
     (case (mailboxArg cmd 0, identifierArg cmd 1) of
        (Some name, Some identifier) \<Rightarrow>
          if length (pc_args cmd) \<noteq> 2 then (s, badReply (pc_tag cmd) ''DELETEACL expects mailbox identifier'')
          else callBackend (RQ_deleteAcl name identifier) (K_simple (pc_tag cmd) ''DELETEACL'') s
      | _ \<Rightarrow> (s, badReply (pc_tag cmd) ''DELETEACL expects mailbox identifier''))"

definition cmdListRights :: "parsed_command \<Rightarrow> imap \<Rightarrow> imap \<times> imap_action list" where
  "cmdListRights cmd s =
     (case (mailboxArg cmd 0, identifierArg cmd 1) of
        (Some name, Some identifier) \<Rightarrow>
          if length (pc_args cmd) \<noteq> 2 then (s, badReply (pc_tag cmd) ''LISTRIGHTS expects mailbox identifier'')
          else callBackend (RQ_listRights name identifier) (K_listRights (pc_tag cmd)) s
      | _ \<Rightarrow> (s, badReply (pc_tag cmd) ''LISTRIGHTS expects mailbox identifier''))"

definition cmdMyRights :: "parsed_command \<Rightarrow> imap \<Rightarrow> imap \<times> imap_action list" where
  "cmdMyRights cmd s =
     (case mailboxArg cmd 0 of
        Some name \<Rightarrow>
          if length (pc_args cmd) \<noteq> 1 then (s, badReply (pc_tag cmd) ''MYRIGHTS expects mailbox name'')
          else callBackend (RQ_myRights name) (K_myRights (pc_tag cmd)) s
      | None \<Rightarrow> (s, badReply (pc_tag cmd) ''MYRIGHTS expects mailbox name''))"

section \<open>LIST\<close>

definition LIST_SELECT_OPTIONS :: "string list" where
  "LIST_SELECT_OPTIONS = [''SUBSCRIBED'', ''REMOTE'', ''RECURSIVEMATCH'', ''SPECIAL-USE'']"

definition STATUS_ITEMS :: "string list" where
  "STATUS_ITEMS = [''MESSAGES'', ''RECENT'', ''UIDNEXT'', ''UIDVALIDITY'', ''UNSEEN'', ''DELETED'', ''SIZE'', ''HIGHESTMODSEQ'',
     ''MAILBOXID'', ''DELETED-STORAGE'']"

definition statusListRequest :: "string list \<Rightarrow> imap_request" where
  "statusListRequest items = RQ_listMailboxes True (''DELETED'' \<in> set items \<or> ''DELETED-STORAGE'' \<in> set items)"

fun statusItemsLoop :: "imap_value list \<Rightarrow> string + string list" where
  "statusItemsLoop [] = Inr []"
| "statusItemsLoop (v # vs) =
     (case map_option toUpperCase (valueText v) of
        None \<Rightarrow> Inl ''invalid STATUS item''
      | Some t \<Rightarrow>
          if t = [] then Inl ''invalid STATUS item''
          else if t \<notin> set STATUS_ITEMS then Inl ''unknown STATUS item''
          else (case statusItemsLoop vs of Inl e \<Rightarrow> Inl e | Inr items \<Rightarrow> Inr (t # items)))"

definition parseStatusItems :: "imap_value \<Rightarrow> string + string list" where
  "parseStatusItems l = (case l of V_list items \<Rightarrow> statusItemsLoop items | _ \<Rightarrow> Inl ''STATUS expects item list'')"

fun parseSelectOptions :: "imap_value list \<Rightarrow> string list \<Rightarrow> string list option" where
  "parseSelectOptions [] sel = Some sel"
| "parseSelectOptions (v # vs) sel =
     (case map_option toUpperCase (valueText v) of
        None \<Rightarrow> None
      | Some o1 \<Rightarrow> if o1 \<notin> set LIST_SELECT_OPTIONS then None else parseSelectOptions vs (js_set_add o1 sel))"

fun parseReturnOptions :: "imap_value list \<Rightarrow> string list option \<Rightarrow> bool \<Rightarrow> string + string list option \<times> bool" where
  "parseReturnOptions [] items subscribed = Inr (items, subscribed)"
| "parseReturnOptions (v # vs) items subscribed =
     (let o1 = map_option toUpperCase (valueText v) in
      if o1 = Some ''SUBSCRIBED'' then parseReturnOptions vs items True
      else if o1 = Some ''CHILDREN'' \<or> o1 = Some ''SPECIAL-USE'' then parseReturnOptions vs items subscribed
      else if o1 = Some ''STATUS'' then
        (case vs of
           [] \<Rightarrow> Inl ''RETURN STATUS expects item list''
         | l # vs2 \<Rightarrow>
             (case parseStatusItems l of
                Inl e \<Rightarrow> Inl e
              | Inr its \<Rightarrow> parseReturnOptions vs2 (Some its) subscribed))
      else Inl ''unknown RETURN option'')"

definition parsePatterns :: "string \<Rightarrow> imap_value option \<Rightarrow> string list option" where
  "parsePatterns verb patArg =
     (case patArg of
        None \<Rightarrow> None
      | Some (V_list items) \<Rightarrow>
          if verb = ''LIST''
          then (case valueTexts items of Some ps \<Rightarrow> (if length ps > 0 then Some ps else None) | None \<Rightarrow> None)
          else None
      | Some v \<Rightarrow> map_option (\<lambda>p. [p]) (valueText v))"

definition isListValue :: "imap_value option \<Rightarrow> bool" where
  "isListValue v \<longleftrightarrow> (case v of Some (V_list _) \<Rightarrow> True | _ \<Rightarrow> False)"

text \<open>The options before the reference, and how many arguments they take.\<close>

definition listSelection :: "string \<Rightarrow> parsed_command \<Rightarrow> string + string list \<times> nat" where
  "listSelection verb cmd =
     (case arg 0 cmd of
        Some (V_list items) \<Rightarrow>
          if verb \<noteq> ''LIST'' then Inr ([], 0)
          else (case parseSelectOptions items [] of
                  None \<Rightarrow> Inl ''unknown selection option''
                | Some sel \<Rightarrow>
                    if ''RECURSIVEMATCH'' \<in> set sel \<and> ''SUBSCRIBED'' \<notin> set sel \<and> ''SPECIAL-USE'' \<notin> set sel
                    then Inl ''RECURSIVEMATCH requires another selection option'' else Inr (sel, 1))
      | _ \<Rightarrow> Inr ([], 0))"

definition listReturn :: "string \<Rightarrow> imap_value list \<Rightarrow> string + string list option \<times> bool" where
  "listReturn verb rest =
     (case rest of
        [] \<Rightarrow> Inr (None, False)
      | [kw, V_list opts] \<Rightarrow>
          if verb \<noteq> ''LIST'' \<or> map_option toUpperCase (valueText kw) \<noteq> Some ''RETURN'' then Inl ''invalid arguments''
          else parseReturnOptions opts None False
      | _ \<Rightarrow> Inl ''invalid arguments'')"

definition imap_cmdList :: "parsed_command \<Rightarrow> string \<Rightarrow> imap \<Rightarrow> imap \<times> imap_action list" where
  "imap_cmdList cmd verb s =
     (let bad = (\<lambda>why. (s, badReply (pc_tag cmd) (verb @ '' '' @ why))) in
      case listSelection verb cmd of
        Inl e \<Rightarrow> bad e
      | Inr (select, at) \<Rightarrow>
          (case (identifierArg cmd at, parsePatterns verb (arg (at + 1) cmd)) of
             (Some ref, Some patterns) \<Rightarrow>
               (let rest = drop (at + 2) (pc_args cmd) in
                case listReturn verb rest of
                  Inl e \<Rightarrow> bad e
                | Inr (statusItems, ret) \<Rightarrow>
                    if \<not> (at > 0 \<or> isListValue (arg (at + 1) cmd) \<or> length rest > 0) \<and> patterns = [[]]
                    then (s, [starReply (verb @ '' ('' @ [BACKSLASH] @ ''Noselect) '' @ [QUOTE, HIERARCHY_DELIMITER, QUOTE] @ '' '' @ [QUOTE, QUOTE]),
                              completed (pc_tag cmd) verb])
                    else callBackend
                           (case statusItems of Some items \<Rightarrow> statusListRequest items | None \<Rightarrow> RQ_listMailboxes False False)
                           (K_list \<lparr>lc_tag = pc_tag cmd, lc_verb = verb, lc_select = select,
                                    lc_patterns = map (\<lambda>p. normalizeMailboxName (joinListPattern ref p)) (filter (\<lambda>p. length p > 0) patterns),
                                    lc_statusItems = statusItems, lc_returnSubscribed = ret \<or> ''SUBSCRIBED'' \<in> set select\<rparr>) s)
           | _ \<Rightarrow> bad ''expects reference and pattern''))"

definition ceilKiB :: "nat \<Rightarrow> nat" where
  "ceilKiB n = (n + 1023) div 1024"

definition statusField :: "imap_mailbox \<Rightarrow> string \<Rightarrow> string list" where
  "statusField m item =
     (if item = ''MESSAGES'' then [''MESSAGES '' @ show_nat (mb_totalCount m)]
      else if item = ''RECENT'' then [''RECENT 0'']
      else if item = ''MAILBOXID'' then (case mb_mailboxId m of Some i \<Rightarrow> [''MAILBOXID ('' @ i @ '')''] | None \<Rightarrow> [])
      else if item = ''UIDNEXT'' then [''UIDNEXT '' @ show_nat (mb_uidnext m)]
      else if item = ''UIDVALIDITY'' then [''UIDVALIDITY '' @ show_nat (mb_uidvalidity m)]
      else if item = ''UNSEEN'' then [''UNSEEN '' @ show_nat (mb_unreadCount m)]
      else if item = ''SIZE'' then [''SIZE '' @ show_nat (mb_totalBytes m)]
      else if item = ''HIGHESTMODSEQ'' then [''HIGHESTMODSEQ '' @ show_nat (mb_highestmodseq m)]
      else if item = ''DELETED'' then [''DELETED '' @ show_nat (case mb_deletedCount m of Some n \<Rightarrow> n | None \<Rightarrow> 0)]
      else if item = ''DELETED-STORAGE'' then
        [''DELETED-STORAGE '' @ show_nat (ceilKiB (case mb_deletedBytes m of Some n \<Rightarrow> n | None \<Rightarrow> 0))]
      else [])"

definition statusFields :: "imap_mailbox \<Rightarrow> string list \<Rightarrow> string list" where
  "statusFields m wanted = concat (map (statusField m) wanted)"

definition statusReply :: "imap_mailbox \<Rightarrow> string list \<Rightarrow> imap_action" where
  "statusReply m wanted = starReply (''STATUS '' @ quoteMailboxName (mb_name m) @ '' ('' @ join '' '' (statusFields m wanted) @ '')'')"

text \<open>The paths of the mailboxes above one.\<close>

definition ancestors :: "string \<Rightarrow> string list" where
  "ancestors name =
     (let segs = split_char HIERARCHY_DELIMITER name in map (\<lambda>i. join [HIERARCHY_DELIMITER] (take i segs)) [1..<length segs])"

definition parentPaths :: "imap_mailbox list \<Rightarrow> string list" where
  "parentPaths mbs = concat (map (\<lambda>m. ancestors (mb_name m)) mbs)"

definition listMatches :: "list_context \<Rightarrow> string \<Rightarrow> bool" where
  "listMatches c name = list_ex (\<lambda>p. compileListPattern p name) (lc_patterns c)"

definition passesSelection :: "list_context \<Rightarrow> imap_mailbox \<Rightarrow> bool" where
  "passesSelection c m \<longleftrightarrow>
     (''SUBSCRIBED'' \<notin> set (lc_select c) \<or> mb_subscribed m \<noteq> Some False) \<and>
     (''SPECIAL-USE'' \<notin> set (lc_select c) \<or> roleToAttribute (mb_role m) \<noteq> None)"

definition listAttributes :: "string list \<Rightarrow> imap_mailbox \<Rightarrow> bool \<Rightarrow> string" where
  "listAttributes parents m subscribedFlag =
     join '' '' ((case roleToAttribute (mb_role m) of Some a \<Rightarrow> [a] | None \<Rightarrow> []) @
       [if mb_name m \<in> set parents then BACKSLASH # ''HasChildren'' else BACKSLASH # ''HasNoChildren''] @
       (if mb_readable m = Some False then [BACKSLASH # ''NoSelect''] else []) @
       (if subscribedFlag then [BACKSLASH # ''Subscribed''] else []))"

definition childInfo :: "list_context \<Rightarrow> bool" where
  "childInfo c \<longleftrightarrow> ''RECURSIVEMATCH'' \<in> set (lc_select c) \<and> ''SUBSCRIBED'' \<in> set (lc_select c)"

definition selectedDesc :: "list_context \<Rightarrow> imap_mailbox list \<Rightarrow> string list" where
  "selectedDesc c mbs = (if childInfo c then parentPaths (filter (passesSelection c) mbs) else [])"

definition unreturnedSelectedDesc :: "list_context \<Rightarrow> imap_mailbox list \<Rightarrow> string list" where
  "unreturnedSelectedDesc c mbs =
     (if childInfo c then parentPaths (filter (\<lambda>m. passesSelection c m \<and> \<not> listMatches c (mb_name m)) mbs) else [])"

definition listLine :: "list_context \<Rightarrow> string list \<Rightarrow> imap_mailbox \<Rightarrow> bool \<Rightarrow> bool \<Rightarrow> imap_action" where
  "listLine c parents m subscribedFlag withChildInfo =
     starReply (lc_verb c @ '' ('' @ listAttributes parents m subscribedFlag @ '') '' @ [QUOTE, HIERARCHY_DELIMITER, QUOTE] @ '' '' @
       quoteMailboxName (mb_name m) @
       (if withChildInfo
        then '' ('' @ [QUOTE] @ ''CHILDINFO'' @ [QUOTE] @ '' ('' @ [QUOTE] @ ''SUBSCRIBED'' @ [QUOTE] @ ''))'' else []))"

definition listLines :: "list_context \<Rightarrow> imap_mailbox list \<Rightarrow> imap_mailbox \<Rightarrow> imap_action list" where
  "listLines c mbs m =
     (if \<not> listMatches c (mb_name m) then []
      else if lc_verb c = ''LSUB'' \<and> mb_subscribed m = Some False then []
      else if \<not> passesSelection c m then
        (if childInfo c \<and> mb_name m \<in> set (unreturnedSelectedDesc c mbs) then [listLine c (parentPaths mbs) m False True] else [])
      else listLine c (parentPaths mbs) m (lc_returnSubscribed c \<and> mb_subscribed m \<noteq> Some False)
             (childInfo c \<and> mb_name m \<in> set (selectedDesc c mbs)) #
           (case lc_statusItems c of
              None \<Rightarrow> []
            | Some items \<Rightarrow> if mb_readable m \<noteq> Some False then [statusReply m items] else []))"

section \<open>Mailboxes\<close>

definition cmdSubscribe :: "parsed_command \<Rightarrow> imap \<Rightarrow> imap \<times> imap_action list" where
  "cmdSubscribe cmd s =
     (case mailboxArg cmd 0 of
        Some name \<Rightarrow>
          if length (pc_args cmd) \<noteq> 1 then (s, badReply (pc_tag cmd) (pc_name cmd @ '' expects mailbox name''))
          else callBackend (RQ_setSubscribed name (pc_name cmd = ''SUBSCRIBE'')) (K_simple (pc_tag cmd) (pc_name cmd)) s
      | None \<Rightarrow> (s, badReply (pc_tag cmd) (pc_name cmd @ '' expects mailbox name'')))"

definition cmdCreate :: "parsed_command \<Rightarrow> imap \<Rightarrow> imap \<times> imap_action list" where
  "cmdCreate cmd s =
     (case mailboxArg cmd 0 of
        Some name0 \<Rightarrow>
          if length (pc_args cmd) \<noteq> 1 then (s, badReply (pc_tag cmd) ''CREATE expects mailbox name'')
          else let name = (if endsWith [HIERARCHY_DELIMITER] name0 then butlast name0 else name0)
               in if length name = 0 \<or> name = ''INBOX''
                  then (s, [tagReply (pc_tag cmd) ''NO'' ''CREATE invalid mailbox name''])
                  else callBackend (RQ_createMailbox name) (K_simple (pc_tag cmd) ''CREATE'') s
      | None \<Rightarrow> (s, badReply (pc_tag cmd) ''CREATE expects mailbox name''))"

definition cmdDelete :: "parsed_command \<Rightarrow> imap \<Rightarrow> imap \<times> imap_action list" where
  "cmdDelete cmd s =
     (case mailboxArg cmd 0 of
        Some name \<Rightarrow>
          if length (pc_args cmd) \<noteq> 1 then (s, badReply (pc_tag cmd) ''DELETE expects mailbox name'')
          else if name = ''INBOX'' then (s, [tagReply (pc_tag cmd) ''NO'' ''DELETE INBOX is not allowed''])
          else callBackend (RQ_deleteMailbox name) (K_simple (pc_tag cmd) ''DELETE'') s
      | None \<Rightarrow> (s, badReply (pc_tag cmd) ''DELETE expects mailbox name''))"

definition cmdRename :: "parsed_command \<Rightarrow> imap \<Rightarrow> imap \<times> imap_action list" where
  "cmdRename cmd s =
     (case (mailboxArg cmd 0, mailboxArg cmd 1) of
        (Some from, Some to) \<Rightarrow>
          if length (pc_args cmd) \<noteq> 2 then (s, badReply (pc_tag cmd) ''RENAME expects source and destination'')
          else if to = ''INBOX'' then (s, [tagReply (pc_tag cmd) ''NO'' ''RENAME destination INBOX is not allowed''])
          else callBackend (RQ_renameMailbox from to) (K_simple (pc_tag cmd) ''RENAME'') s
      | _ \<Rightarrow> (s, badReply (pc_tag cmd) ''RENAME expects source and destination''))"

definition cmdStatus :: "parsed_command \<Rightarrow> imap \<Rightarrow> imap \<times> imap_action list" where
  "cmdStatus cmd s =
     (case (mailboxArg cmd 0, arg 1 cmd) of
        (Some name, Some (V_list items)) \<Rightarrow>
          if length (pc_args cmd) \<noteq> 2 then (s, badReply (pc_tag cmd) ''STATUS expects mailbox name and item list'')
          else (case parseStatusItems (V_list items) of
                  Inl e \<Rightarrow> (s, badReply (pc_tag cmd) e)
                | Inr wanted \<Rightarrow>
                    if length wanted = 0 then (s, badReply (pc_tag cmd) ''empty STATUS item list'')
                    else callBackend (statusListRequest wanted) (K_status (pc_tag cmd) name wanted) s)
      | _ \<Rightarrow> (s, badReply (pc_tag cmd) ''STATUS expects mailbox name and item list''))"

definition QUOTA_ROOT :: string where
  "QUOTA_ROOT = []"

definition cmdGetQuota :: "parsed_command \<Rightarrow> string \<Rightarrow> imap \<Rightarrow> imap \<times> imap_action list" where
  "cmdGetQuota cmd verb s =
     (case identifierArg cmd 0 of
        Some a \<Rightarrow>
          if length (pc_args cmd) \<noteq> 1 then (s, badReply (pc_tag cmd) (verb @ '' expects one argument''))
          else if verb = ''GETQUOTA'' \<and> normalizeMailboxName a \<noteq> QUOTA_ROOT
            then (s, [tagReply (pc_tag cmd) ''NO'' ''[NONEXISTENT] no such quota root''])
          else callBackend RQ_getQuota (K_quota (pc_tag cmd) verb (normalizeMailboxName a)) s
      | None \<Rightarrow> (s, badReply (pc_tag cmd) (verb @ '' expects one argument'')))"

definition quotaResources :: "nat \<Rightarrow> nat \<Rightarrow> string" where
  "quotaResources usedBytes limitBytes =
     (if limitBytes \<le> 0 then [] else ''STORAGE '' @ show_nat (ceilKiB usedBytes) @ '' '' @ show_nat (ceilKiB limitBytes))"

section \<open>SELECT\<close>

text \<open>The parameters of SELECT: the extensions enabled on the way, and an error or what QRESYNC asks for.\<close>

definition qresyncParams :: "imap_value list \<Rightarrow> qresync_params option" where
  "qresyncParams items =
     (case items of
        uv # ms # rest \<Rightarrow>
          (case (valueText uv, valueText ms) of
             (Some u, Some m) \<Rightarrow>
               if all_digits u \<and> all_digits m
               then Some \<lparr>qr_uidvalidity = digits_value u, qr_modseq = digits_value m,
                          qr_knownUids = (case rest of v # _ \<Rightarrow> Option.bind (valueText v) parseSequenceSet | [] \<Rightarrow> None)\<rparr>
               else None
           | _ \<Rightarrow> None)
      | _ \<Rightarrow> None)"

fun selectParams :: "string \<Rightarrow> imap_value list \<Rightarrow> string list \<Rightarrow> qresync_params option \<Rightarrow>
    string list \<times> (string + qresync_params option)" where
  "selectParams verb [] enabled q = (enabled, Inr q)"
| "selectParams verb (v # vs) enabled q =
     (let p = map_option toUpperCase (valueText v) in
      if p = Some ''CONDSTORE'' then selectParams verb vs (js_set_add ''CONDSTORE'' enabled) q
      else if p = Some ''QRESYNC'' then
        (if ''QRESYNC'' \<notin> set enabled then (enabled, Inl ''QRESYNC not enabled'')
         else case vs of
           V_list items # vs2 \<Rightarrow>
             (case qresyncParams items of
                None \<Rightarrow> (enabled, Inl ''invalid QRESYNC parameters'')
              | Some qp \<Rightarrow> selectParams verb vs2 enabled (Some qp))
         | _ \<Rightarrow> (enabled, Inl ''invalid QRESYNC parameters''))
      else (enabled, Inl (''unknown '' @ verb @ '' parameter'')))"

definition selectVerb :: "bool \<Rightarrow> string" where
  "selectVerb readWrite = (if readWrite then ''SELECT'' else ''EXAMINE'')"

definition cmdSelect :: "parsed_command \<Rightarrow> bool \<Rightarrow> imap \<Rightarrow> imap \<times> imap_action list" where
  "cmdSelect cmd readWrite s =
     (let verb = selectVerb readWrite;
          open = (\<lambda>name q s. callBackend (RQ_selectMailbox name) (K_select (pc_tag cmd) readWrite q) (leaveSelected s)) in
      case mailboxArg cmd 0 of
        None \<Rightarrow> (s, badReply (pc_tag cmd) (verb @ '' expects mailbox name''))
      | Some name \<Rightarrow>
          if length (pc_args cmd) > 2 then (s, badReply (pc_tag cmd) (verb @ '' expects mailbox name''))
          else case arg 1 cmd of
            None \<Rightarrow> open name None s
          | Some (V_list items) \<Rightarrow>
              (case selectParams verb items (im_enabled s) None of
                 (enabled, Inl e) \<Rightarrow> (s\<lparr>im_enabled := enabled\<rparr>, badReply (pc_tag cmd) e)
               | (enabled, Inr q) \<Rightarrow> open name q (s\<lparr>im_enabled := enabled\<rparr>))
          | Some _ \<Rightarrow> (s, badReply (pc_tag cmd) (verb @ '' invalid parameters'')))"

definition cmdClose :: "parsed_command \<Rightarrow> imap \<Rightarrow> imap \<times> imap_action list" where
  "cmdClose cmd s =
     (case im_selected s of
        None \<Rightarrow> (s, notSelected cmd)
      | Some view \<Rightarrow>
          if \<not> vw_readWrite view then (leaveSelected s, [completed (pc_tag cmd) ''CLOSE''])
          else callBackend (RQ_expungeMailbox (vw_name view)) (K_simple (pc_tag cmd) ''CLOSE'') (leaveSelected s))"

text \<open>\<open>refreshSelected\<close>, with the tag and the verb of the completion it ends with.\<close>

definition taggedOk :: "(string \<times> string) option \<Rightarrow> imap_action list" where
  "taggedOk t = (case t of Some (tag, verb) \<Rightarrow> [completed tag verb] | None \<Rightarrow> [])"

definition refreshSelected :: "(string \<times> string) option \<Rightarrow> imap \<Rightarrow> imap \<times> imap_action list" where
  "refreshSelected t s =
     (case im_selected s of
        None \<Rightarrow> (s, taggedOk t)
      | Some view \<Rightarrow> callBackend (RQ_selectMailbox (vw_name view)) (K_refresh t) s)"

section \<open>FETCH\<close>

text \<open>The modifiers CHANGEDSINCE and VANISHED, in any order and each at most once.\<close>

fun fetchModifiers :: "imap_value list \<Rightarrow> nat option \<Rightarrow> bool \<Rightarrow> (nat option \<times> bool) option" where
  "fetchModifiers [] changedSince vanished = Some (changedSince, vanished)"
| "fetchModifiers (v # vs) changedSince vanished =
     (let name = (case v of V_atom a \<Rightarrow> Some (toUpperCase a) | _ \<Rightarrow> None) in
      if name = Some ''CHANGEDSINCE'' \<and> changedSince = None then
        (case vs of
           [] \<Rightarrow> None
         | w # vs2 \<Rightarrow>
             (case valueText w of
                Some n \<Rightarrow> if all_digits n then fetchModifiers vs2 (Some (digits_value n)) vanished else None
              | None \<Rightarrow> None))
      else if name = Some ''VANISHED'' \<and> \<not> vanished then fetchModifiers vs changedSince True
      else None)"

definition hasModifiers :: "imap_value list \<Rightarrow> bool" where
  "hasModifiers itemArgs \<longleftrightarrow>
     length itemArgs \<ge> 2 \<and>
     (case last itemArgs of
        V_list items \<Rightarrow>
          (let m = upperText (case items of [] \<Rightarrow> None | v # _ \<Rightarrow> Some v) in m = Some ''CHANGEDSINCE'' \<or> m = Some ''VANISHED'')
      | _ \<Rightarrow> False)"

text \<open>The modifiers of a FETCH: an error, or the CHANGEDSINCE, whether VANISHED was asked for and the items left.\<close>

definition parseFetchModifiers ::
  "string \<Rightarrow> bool \<Rightarrow> string list \<Rightarrow> imap_value list \<Rightarrow> string + nat option \<times> bool \<times> imap_value list" where
  "parseFetchModifiers verb uidMode enabled itemArgs =
     (if \<not> hasModifiers itemArgs then Inr (None, False, itemArgs)
      else case (case last itemArgs of V_list mods \<Rightarrow> fetchModifiers mods None False | _ \<Rightarrow> None) of
        None \<Rightarrow> Inl (verb @ '' invalid CHANGEDSINCE'')
      | Some (changedSince, vanished) \<Rightarrow>
          if vanished \<and> changedSince = None then Inl ''VANISHED requires CHANGEDSINCE''
          else if vanished \<and> \<not> uidMode then Inl ''VANISHED requires UID FETCH''
          else if vanished \<and> ''QRESYNC'' \<notin> set enabled then Inl ''QRESYNC not enabled''
          else Inr (changedSince, vanished, butlast itemArgs))"

fun itemNeedsRaw :: "fetch_item \<Rightarrow> bool" where
  "itemNeedsRaw FI_envelope = True"
| "itemNeedsRaw FI_body = True"
| "itemNeedsRaw FI_bodystructure = True"
| "itemNeedsRaw (FI_section p sp r l) = True"
| "itemNeedsRaw (FI_binary p sp r l) = True"
| "itemNeedsRaw (FI_binarySize p l) = True"
| "itemNeedsRaw _ = False"

fun itemMarksSeen :: "fetch_item \<Rightarrow> bool" where
  "itemMarksSeen (FI_section pk sp r l) = (\<not> pk)"
| "itemMarksSeen (FI_binary pk sp r l) = (\<not> pk)"
| "itemMarksSeen _ = False"

definition fetchFrom :: "fetch_context \<Rightarrow> nat \<Rightarrow> imap \<Rightarrow> imap \<times> imap_action list" where
  "fetchFrom c offset s =
     callBackend (RQ_fetchMessages (fc_name c) (map snd (take (batchSize (fc_needRaw c)) (drop offset (fc_targets c))))
                    (fc_needRaw c) (fc_markSeen c) False) (K_fetch c offset) s"

definition fetchAll :: "fetch_context \<Rightarrow> imap \<Rightarrow> imap \<times> imap_action list" where
  "fetchAll c s = (if length (fc_targets c) = 0 then (s, [completed (fc_tag c) (fc_verb c)]) else fetchFrom c 0 s)"

definition fixStar :: "nat \<Rightarrow> seq_range \<Rightarrow> seq_range" where
  "fixStar maxUid r = \<lparr>sr_from = SeqNum (resolve (sr_from r) maxUid), sr_to = SeqNum (resolve (sr_to r) maxUid)\<rparr>"

definition fetchItems :: "bool \<Rightarrow> nat option \<Rightarrow> fetch_item list \<Rightarrow> fetch_item list" where
  "fetchItems uidMode changedSince items =
     (let i1 = (if uidMode \<and> FI_uid \<notin> set items then items @ [FI_uid] else items)
      in if changedSince \<noteq> None \<and> FI_modseq \<notin> set i1 then i1 @ [FI_modseq] else i1)"

definition uidVerb :: "bool \<Rightarrow> string \<Rightarrow> string" where
  "uidVerb uidMode verb = (if uidMode then ''UID '' @ verb else verb)"

definition cmdFetch :: "parsed_command \<Rightarrow> bool \<Rightarrow> imap \<Rightarrow> imap \<times> imap_action list" where
  "cmdFetch cmd uidMode s =
     (let verb = uidVerb uidMode ''FETCH'' in
      case im_selected s of
        None \<Rightarrow> (s, notSelected cmd)
      | Some view \<Rightarrow>
          (case parseFetchModifiers verb uidMode (im_enabled s) (drop 1 (pc_args cmd)) of
             Inl e \<Rightarrow> (s, badReply (pc_tag cmd) e)
           | Inr (changedSince, vanished, itemArgs) \<Rightarrow>
               (let s1 = (if hasModifiers (drop 1 (pc_args cmd)) then s\<lparr>im_enabled := js_set_add ''CONDSTORE'' (im_enabled s)\<rparr> else s) in
                case (setArg cmd uidMode s, parseFetchItems itemArgs) of
                  (Some ranges, Some items0) \<Rightarrow>
                    (let items = fetchItems uidMode changedSince items0;
                         c = \<lparr>fc_tag = pc_tag cmd, fc_verb = verb, fc_name = vw_name view, fc_items = items,
                              fc_changedSince = changedSince, fc_needRaw = list_ex itemNeedsRaw items,
                              fc_markSeen = vw_readWrite view \<and> list_ex itemMarksSeen items,
                              fc_targets = resolveTargets ranges uidMode s\<rparr>;
                         maxUid = (if length (vw_uids view) > 0 then last (vw_uids view) else vw_uidnext view);
                         requested = map (fixStar maxUid) ranges
                     in case changedSince of
                          Some since \<Rightarrow>
                            if \<not> vanished then fetchAll c s1
                            else callBackend (RQ_syncSince (vw_name view) since (Some requested) True) (K_vanished c requested maxUid) s1
                        | None \<Rightarrow> fetchAll c s1)
                | _ \<Rightarrow> (s1, badReply (pc_tag cmd) (verb @ '' invalid arguments'')))))"

text \<open>\<open>fetchItemWire\<close>; \<open>None\<close> is an encoding the server cannot undo.\<close>

definition cutPartial :: "(nat \<times> nat) option \<Rightarrow> bytes \<Rightarrow> bytes" where
  "cutPartial p b = (case p of None \<Rightarrow> b | Some (start, count) \<Rightarrow> Prelude.slice start (start + count) b)"

fun fetchItemWire :: "mime_lib \<Rightarrow> fetch_item \<Rightarrow> nat \<Rightarrow> fetch_data \<Rightarrow> string option" where
  "fetchItemWire lib FI_flags uid d = Some (''FLAGS ('' @ join '' '' (fd_flags d) @ '')'')"
| "fetchItemWire lib FI_uid uid d = Some (''UID '' @ show_nat uid)"
| "fetchItemWire lib FI_modseq uid d = Some (''MODSEQ ('' @ show_nat (fd_modseq d) @ '')'')"
| "fetchItemWire lib FI_internaldate uid d =
     Some (''INTERNALDATE '' @ [QUOTE] @ formatInternalDate (fd_internalDateMs d) @ [QUOTE])"
| "fetchItemWire lib FI_emailid uid d =
     Some (''EMAILID '' @ (case fd_emailId d of None \<Rightarrow> ''NIL'' | Some i \<Rightarrow> ''('' @ i @ '')''))"
| "fetchItemWire lib FI_threadid uid d =
     Some (''THREADID '' @ (case fd_threadId d of None \<Rightarrow> ''NIL'' | Some i \<Rightarrow> if i = [] then ''NIL'' else ''('' @ i @ '')''))"
| "fetchItemWire lib FI_savedate uid d =
     Some (''SAVEDATE '' @ (case fd_saveDateMs d of None \<Rightarrow> ''NIL'' | Some ms \<Rightarrow> [QUOTE] @ formatInternalDate ms @ [QUOTE]))"
| "fetchItemWire lib FI_rfc822size uid d = Some (''RFC822.SIZE '' @ show_nat (fd_size d))"
| "fetchItemWire lib FI_envelope uid d = Some (''ENVELOPE '' @ formatEnvelope lib (case fd_raw d of Some r \<Rightarrow> r | None \<Rightarrow> []))"
| "fetchItemWire lib FI_body uid d = Some (''BODY '' @ formatBodyStructure lib (case fd_raw d of Some r \<Rightarrow> r | None \<Rightarrow> []) False)"
| "fetchItemWire lib FI_bodystructure uid d =
     Some (''BODYSTRUCTURE '' @ formatBodyStructure lib (case fd_raw d of Some r \<Rightarrow> r | None \<Rightarrow> []) True)"
| "fetchItemWire lib (FI_section pk spec p label) uid d =
     Some (label @ '' '' @
       (case extractSection lib (case fd_raw d of Some r \<Rightarrow> r | None \<Rightarrow> []) spec of
          None \<Rightarrow> ''NIL''
        | Some b \<Rightarrow> literalWire (cutPartial p b)))"
| "fetchItemWire lib (FI_binary pk path p label) uid d =
     (case extractBinary lib (case fd_raw d of Some r \<Rightarrow> r | None \<Rightarrow> []) path of
        None \<Rightarrow> Some (label @ '' NIL'')
      | Some BC_unknownCte \<Rightarrow> None
      | Some (BC_bytes b) \<Rightarrow> Some (label @ '' '' @ binaryLiteralWire (cutPartial p b)))"
| "fetchItemWire lib (FI_binarySize path label) uid d =
     (case extractBinary lib (case fd_raw d of Some r \<Rightarrow> r | None \<Rightarrow> []) path of
        None \<Rightarrow> Some (label @ '' 0'')
      | Some BC_unknownCte \<Rightarrow> None
      | Some (BC_bytes b) \<Rightarrow> Some (label @ '' '' @ show_nat (length b)))"

fun itemWires :: "mime_lib \<Rightarrow> fetch_item list \<Rightarrow> nat \<Rightarrow> fetch_data \<Rightarrow> string list option" where
  "itemWires lib [] uid d = Some []"
| "itemWires lib (it # its) uid d =
     (case fetchItemWire lib it uid d of
        None \<Rightarrow> None
      | Some w \<Rightarrow> map_option (Cons w) (itemWires lib its uid d))"

text \<open>The messages of a response by UID; of two with one UID the later is taken.\<close>

definition byUid :: "fetch_data list \<Rightarrow> nat \<Rightarrow> fetch_data option" where
  "byUid messages = map_of (rev (map (\<lambda>m. (fd_uid m, m)) messages))"

fun emitFetch :: "mime_lib \<Rightarrow> fetch_context \<Rightarrow> (nat \<Rightarrow> fetch_data option) \<Rightarrow> (nat \<times> nat) list \<Rightarrow> imap \<Rightarrow>
    imap \<times> imap_action list \<times> bool" where
  "emitFetch lib c msgs [] s = (s, [], False)"
| "emitFetch lib c msgs ((seq, uid) # batch) s =
     (case msgs uid of
        None \<Rightarrow> emitFetch lib c msgs batch s
      | Some d \<Rightarrow>
          if (case fc_changedSince c of Some since \<Rightarrow> fd_modseq d \<le> since | None \<Rightarrow> False) then emitFetch lib c msgs batch s
          else case itemWires lib (fc_items c) uid d of
            None \<Rightarrow> (s, [], True)
          | Some parts \<Rightarrow>
              (let (s1, a1) = (if FI_flags \<in> set (fc_items c) then ensureFlagsAnnounced (fd_flags d) s else (s, []));
                   (s2, a2, failed) = emitFetch lib c msgs batch s1
               in (s2, a1 @ IA_replyBinary (''* '' @ show_nat seq @ '' FETCH ('' @ join '' '' parts @ '')'' @ CRLF) # a2, failed)))"

section \<open>APPEND, REPLACE, COPY and MOVE\<close>

text \<open>\<open>[flags] [date] literal\<close>: an error with its word, or the message and the arguments after it.\<close>

definition messageLiteral :: "string \<Rightarrow> string list \<Rightarrow> int option \<Rightarrow> imap_value list \<Rightarrow>
    (string \<times> string) + append_item \<times> imap_value list" where
  "messageLiteral verb flags date vs =
     (let message = (\<lambda>raw r. if length raw = 0 then Inl (''NO'', verb @ '' empty message'')
                             else Inr (\<lparr>ai_raw = raw, ai_flags = flags, ai_internalDateMs = date\<rparr>, r)) in
      case vs of
        V_literal b # r \<Rightarrow> message b r
      | V_quoted v # r \<Rightarrow> message (utf8Encode v) r
      | _ \<Rightarrow> Inl (''BAD'', verb @ '' expects message literal''))"

definition messageDate :: "imap_value list \<Rightarrow> int option \<times> imap_value list" where
  "messageDate vs =
     (case vs of
        V_quoted v # r \<Rightarrow> (case parseImapDateTime v of Some ms \<Rightarrow> (Some ms, r) | None \<Rightarrow> (None, vs))
      | _ \<Rightarrow> (None, vs))"

definition messageArgs :: "string \<Rightarrow> imap_value list \<Rightarrow> (string \<times> string) + append_item \<times> imap_value list" where
  "messageArgs verb vs =
     (case vs of
        V_list fs # r \<Rightarrow>
          (case valueTexts fs of
             None \<Rightarrow> Inl (''BAD'', verb @ '' invalid flag'')
           | Some flags \<Rightarrow> (let (date, r2) = messageDate r in messageLiteral verb flags date r2))
      | _ \<Rightarrow> (let (date, r2) = messageDate vs in messageLiteral verb [] date r2))"

lemma messageArgs_shorter: "messageArgs verb vs = Inr (item, r) \<Longrightarrow> length r < length vs"
  by (auto simp: messageArgs_def messageLiteral_def messageDate_def Let_def split: list.splits imap_value.splits option.splits if_splits)

function appendItems :: "imap_value list \<Rightarrow> (string \<times> string) + append_item list" where
  "appendItems vs =
     (if vs = [] then Inr []
      else case messageArgs ''APPEND'' vs of
        Inl e \<Rightarrow> Inl e
      | Inr (item, r) \<Rightarrow> (case appendItems r of Inl e \<Rightarrow> Inl e | Inr items \<Rightarrow> Inr (item # items)))"
  by pat_completeness auto
termination
  by (relation "measure length") (auto dest: messageArgs_shorter)

declare appendItems.simps [simp del]

definition cmdAppend :: "parsed_command \<Rightarrow> imap \<Rightarrow> imap \<times> imap_action list" where
  "cmdAppend cmd s =
     (case mailboxArg cmd 0 of
        None \<Rightarrow> (s, badReply (pc_tag cmd) ''APPEND expects mailbox name'')
      | Some name \<Rightarrow>
          (case appendItems (drop 1 (pc_args cmd)) of
             Inl (word, e) \<Rightarrow> (s, [tagReply (pc_tag cmd) word e])
           | Inr [] \<Rightarrow> (s, badReply (pc_tag cmd) ''APPEND expects message literal'')
           | Inr (first # items) \<Rightarrow>
               callBackend (RQ_appendMessage name (ai_flags first) (ai_internalDateMs first) (ai_raw first) (first # items))
                 (K_append (pc_tag cmd) name) s))"

definition newUids :: "nat list \<Rightarrow> nat list \<Rightarrow> nat list" where
  "newUids known uids = fold js_set_add (filter (\<lambda>u. u \<notin> set known) uids) []"

definition cmdReplace :: "parsed_command \<Rightarrow> bool \<Rightarrow> imap \<Rightarrow> imap \<times> imap_action list" where
  "cmdReplace cmd uidMode s =
     (let verb = uidVerb uidMode ''REPLACE'' in
      case im_selected s of
        None \<Rightarrow> (s, notSelected cmd)
      | Some view \<Rightarrow>
          if \<not> vw_readWrite view then (s, readOnly cmd)
          else case setArg cmd uidMode s of
            None \<Rightarrow> (s, badReply (pc_tag cmd) (verb @ '' expects a message number''))
          | Some ranges \<Rightarrow>
              (case resolveTargets ranges uidMode s of
                 [(seq, oldUid)] \<Rightarrow>
                   (case mailboxArg cmd 1 of
                      None \<Rightarrow> (s, badReply (pc_tag cmd) (verb @ '' expects mailbox name''))
                    | Some dest \<Rightarrow>
                        (case messageArgs verb (drop 2 (pc_args cmd)) of
                           Inl (word, e) \<Rightarrow> (s, [tagReply (pc_tag cmd) word e])
                         | Inr (item, r) \<Rightarrow>
                             if r \<noteq> [] then (s, badReply (pc_tag cmd) (verb @ '' invalid arguments''))
                             else callBackend
                                    (RQ_replaceMessage (vw_name view) dest oldUid (ai_raw item) (ai_flags item) (ai_internalDateMs item))
                                    (K_replace (pc_tag cmd) verb dest) s))
               | _ \<Rightarrow> (s, [tagReply (pc_tag cmd) ''NO'' (verb @ '' expects exactly one message'')])))"

definition cmdCopyMove :: "parsed_command \<Rightarrow> bool \<Rightarrow> bool \<Rightarrow> imap \<Rightarrow> imap \<times> imap_action list" where
  "cmdCopyMove cmd uidMode move s =
     (let verb = uidVerb uidMode (if move then ''MOVE'' else ''COPY'') in
      case im_selected s of
        None \<Rightarrow> (s, notSelected cmd)
      | Some view \<Rightarrow>
          if move \<and> \<not> vw_readWrite view then (s, readOnly cmd)
          else case (setArg cmd uidMode s, mailboxArg cmd 1) of
            (Some ranges, Some dest) \<Rightarrow>
              if length (pc_args cmd) \<noteq> 2 then (s, badReply (pc_tag cmd) (verb @ '' invalid arguments''))
              else let uids = map snd (resolveTargets ranges uidMode s)
                   in if length uids = 0 then (s, [completed (pc_tag cmd) verb])
                      else callBackend (if move then RQ_moveMessages (vw_name view) dest uids else RQ_copyMessages (vw_name view) dest uids)
                             (K_copyMove (pc_tag cmd) verb move) s
          | _ \<Rightarrow> (s, badReply (pc_tag cmd) (verb @ '' invalid arguments'')))"

section \<open>STORE and EXPUNGE\<close>

definition STORE_ITEMS :: "(string \<times> store_mode \<times> bool) list" where
  "STORE_ITEMS = [(''FLAGS'', SM_set, False), (''+FLAGS'', SM_add, False), (''-FLAGS'', SM_remove, False),
     (''FLAGS.SILENT'', SM_set, True), (''+FLAGS.SILENT'', SM_add, True), (''-FLAGS.SILENT'', SM_remove, True)]"

text \<open>The modifier UNCHANGEDSINCE: an error, no modifier, or its number.\<close>

definition storeModifier :: "parsed_command \<Rightarrow> nat option option" where
  "storeModifier cmd =
     (case arg 1 cmd of
        Some (V_list (m # ms)) \<Rightarrow>
          if map_option toUpperCase (valueText m) = Some ''UNCHANGEDSINCE'' then
            (case ms of
               [v] \<Rightarrow> (case valueText v of Some n \<Rightarrow> if all_digits n then Some (Some (digits_value n)) else None | None \<Rightarrow> None)
             | _ \<Rightarrow> None)
          else Some None
      | _ \<Rightarrow> Some None)"

definition storeFlagArgs :: "imap_value list \<Rightarrow> string list option" where
  "storeFlagArgs vs = valueTexts (case vs of [V_list items] \<Rightarrow> items | _ \<Rightarrow> vs)"

definition cmdStore :: "parsed_command \<Rightarrow> bool \<Rightarrow> imap \<Rightarrow> imap \<times> imap_action list" where
  "cmdStore cmd uidMode s =
     (let verb = uidVerb uidMode ''STORE'' in
      case im_selected s of
        None \<Rightarrow> (s, notSelected cmd)
      | Some view \<Rightarrow>
          if \<not> vw_readWrite view then (s, readOnly cmd)
          else case storeModifier cmd of
            None \<Rightarrow> (s, badReply (pc_tag cmd) (verb @ '' invalid UNCHANGEDSINCE''))
          | Some unchangedSince \<Rightarrow>
              (let argIdx = (if unchangedSince = None then 1 else 2);
                   s1 = (if unchangedSince = None then s else s\<lparr>im_enabled := js_set_add ''CONDSTORE'' (im_enabled s)\<rparr>) in
               case (setArg cmd uidMode s, map_option toUpperCase (identifierArg cmd argIdx)) of
                 (Some ranges, Some item) \<Rightarrow>
                   if item = [] then (s1, badReply (pc_tag cmd) (verb @ '' invalid arguments''))
                   else (case map_of STORE_ITEMS item of
                      None \<Rightarrow> (s1, badReply (pc_tag cmd) (verb @ '' unknown data item''))
                    | Some (mode, silent) \<Rightarrow>
                        (case storeFlagArgs (drop (argIdx + 1) (pc_args cmd)) of
                           None \<Rightarrow> (s1, badReply (pc_tag cmd) (verb @ '' invalid flag''))
                         | Some flags \<Rightarrow>
                             (let targets = resolveTargets ranges uidMode s in
                              if length targets = 0 then (s1, [completed (pc_tag cmd) verb])
                              else callBackend (RQ_storeFlags (vw_name view) (map snd targets) mode flags unchangedSince)
                                     (K_store \<lparr>st_tag = pc_tag cmd, st_verb = verb, st_uidMode = uidMode, st_silent = silent,
                                               st_seqByUid = map (\<lambda>(seq, uid). (uid, seq)) targets\<rparr>) s1)))
               | _ \<Rightarrow> (s1, badReply (pc_tag cmd) (verb @ '' invalid arguments''))))"

definition cmdExpunge :: "parsed_command \<Rightarrow> seq_range list option \<Rightarrow> imap \<Rightarrow> imap \<times> imap_action list" where
  "cmdExpunge cmd uidRanges s =
     (let verb = uidVerb (uidRanges \<noteq> None) ''EXPUNGE'' in
      case im_selected s of
        None \<Rightarrow> (s, notSelected cmd)
      | Some view \<Rightarrow>
          if \<not> vw_readWrite view then (s, readOnly cmd)
          else let limitUids = map_option (\<lambda>ranges. map snd (resolveTargets ranges True s)) uidRanges
               in if limitUids = Some [] then (s, [completed (pc_tag cmd) verb])
                  else callBackend (RQ_expunge (vw_name view) limitUids) (K_expunge (pc_tag cmd) verb) s)"

section \<open>SEARCH, SORT and THREAD\<close>

definition SEARCH_RETURNS :: "string list" where
  "SEARCH_RETURNS = [''MIN'', ''MAX'', ''COUNT'', ''ALL'', ''SAVE'']"

fun searchReturns :: "imap_value list \<Rightarrow> string list \<Rightarrow> string list option" where
  "searchReturns [] es = Some es"
| "searchReturns (v # vs) es =
     (case map_option toUpperCase (valueText v) of
        None \<Rightarrow> None
      | Some t \<Rightarrow> if t \<notin> set SEARCH_RETURNS then None else searchReturns vs (js_set_add t es))"

text \<open>The options of RETURN and the criteria; \<open>None\<close> is an option that is not known.\<close>

definition searchOptions :: "parsed_command \<Rightarrow> imap \<Rightarrow> (string list option \<times> imap_value list) option" where
  "searchOptions cmd s =
     (case pc_args cmd of
        v # V_list opts # crit \<Rightarrow>
          if map_option toUpperCase (valueText v) = Some ''RETURN'' then
            (case searchReturns opts [] of
               None \<Rightarrow> None
             | Some es \<Rightarrow> Some (Some (if length es = 0 then [''ALL''] else es), crit))
          else Some (if ''IMAP4rev2'' \<in> set (im_enabled s) then Some [''ALL''] else None, pc_args cmd)
      | _ \<Rightarrow> Some (if ''IMAP4rev2'' \<in> set (im_enabled s) then Some [''ALL''] else None, pc_args cmd))"

definition savedFor :: "string list \<Rightarrow> nat list \<Rightarrow> nat list" where
  "savedFor es hitUids =
     (if length hitUids = 0 then []
      else if \<not> ((''MIN'' \<in> set es \<or> ''MAX'' \<in> set es) \<and> ''ALL'' \<notin> set es \<and> ''COUNT'' \<notin> set es) then hitUids
      else sort (fold js_set_add ((if ''MIN'' \<in> set es then [hd hitUids] else []) @ (if ''MAX'' \<in> set es then [last hitUids] else [])) []))"

definition searchReply :: "string \<Rightarrow> bool \<Rightarrow> string list option \<Rightarrow> nat list \<Rightarrow> imap_action list" where
  "searchReply tag uidMode esearch hits =
     (case esearch of
        None \<Rightarrow> [starReply (''SEARCH'' @ (if length hits > 0 then '' '' @ join '' '' (map show_nat hits) else []))]
      | Some es \<Rightarrow>
          if es = [''SAVE''] then []
          else [starReply (''ESEARCH '' @ join '' ''
                 ([''(TAG '' @ [QUOTE] @ tag @ [QUOTE] @ '')''] @
                  (if uidMode then [''UID''] else []) @
                  (if length hits > 0 \<and> ''MIN'' \<in> set es then [''MIN '' @ show_nat (fold min hits (hd hits))] else []) @
                  (if length hits > 0 \<and> ''MAX'' \<in> set es then [''MAX '' @ show_nat (fold max hits (hd hits))] else []) @
                  (if length hits > 0 \<and> ''ALL'' \<in> set es then [''ALL '' @ formatUidSet hits] else []) @
                  (if ''COUNT'' \<in> set es then [''COUNT '' @ show_nat (length hits)] else [])))])"

definition searchFrom :: "search_context \<Rightarrow> string list option \<Rightarrow> nat \<Rightarrow> nat list \<Rightarrow> nat list \<Rightarrow> imap \<Rightarrow> imap \<times> imap_action list" where
  "searchFrom c esearch offset hits hitUids s =
     (let needRaw = searchNeedsRaw (se_key c) in
      callBackend (RQ_fetchMessages (se_name c) (take (batchSize needRaw) (drop offset (se_uids c))) needRaw False False)
        (K_search c esearch offset hits hitUids) s)"

definition badSearch :: "parsed_command \<Rightarrow> string \<Rightarrow> bool \<Rightarrow> imap_action list" where
  "badSearch cmd verb badCharset =
     (if badCharset then [tagReply (pc_tag cmd) ''NO'' ''[BADCHARSET (UTF-8 US-ASCII)] unsupported charset'']
      else badReply (pc_tag cmd) (verb @ '' invalid search criteria''))"

definition saveResult :: "string list option \<Rightarrow> nat list \<Rightarrow> imap \<Rightarrow> imap" where
  "saveResult esearch hitUids s =
     (case esearch of
        Some es \<Rightarrow> if ''SAVE'' \<in> set es then s\<lparr>im_savedSearch := savedFor es hitUids\<rparr> else s
      | None \<Rightarrow> s)"

definition cmdSearch :: "parsed_command \<Rightarrow> bool \<Rightarrow> imap \<Rightarrow> imap \<times> imap_action list" where
  "cmdSearch cmd uidMode s =
     (let verb = uidVerb uidMode ''SEARCH'' in
      case im_selected s of
        None \<Rightarrow> (s, notSelected cmd)
      | Some view \<Rightarrow>
          (case searchOptions cmd s of
             None \<Rightarrow> (s, badReply (pc_tag cmd) ''unknown RETURN option'')
           | Some (esearch, crit) \<Rightarrow>
               (case parseSearchProgram crit of
                  None \<Rightarrow> (s, [])
                | Some (SP_bad badCharset) \<Rightarrow> (s, badSearch cmd verb badCharset)
                | Some (SP_ok key) \<Rightarrow>
                    if length (vw_uids view) = 0
                    then (saveResult esearch [] s, searchReply (pc_tag cmd) uidMode esearch [] @ [completed (pc_tag cmd) verb])
                    else searchFrom \<lparr>se_tag = pc_tag cmd, se_verb = verb, se_uidMode = uidMode, se_name = vw_name view, se_key = key,
                                     se_uids = vw_uids view\<rparr> esearch 0 [] [] s)))"

text \<open>The messages of a batch that match, with their sequence numbers and UIDs.\<close>

definition batchMatches :: "mime_lib \<Rightarrow> search_context \<Rightarrow> nat \<Rightarrow> fetch_data list \<Rightarrow> (nat \<times> nat \<times> fetch_data) list" where
  "batchMatches lib c offset messages =
     (let uids = take (batchSize (searchNeedsRaw (se_key c))) (drop offset (se_uids c)) in
      List.map_filter
        (\<lambda>(k, uid).
           case byUid messages uid of
             None \<Rightarrow> None
           | Some d \<Rightarrow>
               if evaluateSearch lib (se_key c)
                    \<lparr>sm_seq = offset + k + 1, sm_uid = uid, sm_flags = fd_flags d, sm_size = fd_size d,
                     sm_internalDateMs = fd_internalDateMs d, sm_saveDateMs = fd_saveDateMs d,
                     sm_modseq = Some (fd_modseq d), sm_raw = fd_raw d\<rparr>
                    (length (se_uids c)) (last (se_uids c))
               then Some (offset + k + 1, uid, d) else None)
        (zip [0..<length uids] uids))"

definition sortFrom :: "search_context \<Rightarrow> sort_mode \<Rightarrow> nat \<Rightarrow> sort_item list \<Rightarrow> sort_meta \<Rightarrow> imap \<Rightarrow> imap \<times> imap_action list" where
  "sortFrom c mode offset hits meta s =
     (let needRaw = searchNeedsRaw (se_key c) in
      callBackend (RQ_fetchMessages (se_name c) (take (batchSize needRaw) (drop offset (se_uids c))) needRaw False True)
        (K_sortThread c mode offset hits meta) s)"

definition parseSortMode :: "parsed_command \<Rightarrow> bool \<Rightarrow> string \<Rightarrow> string + sort_mode" where
  "parseSortMode cmd thread verb =
     (if \<not> thread then
        (case arg 0 cmd of
           Some (V_list items) \<Rightarrow>
             (case parseSortSpec items of None \<Rightarrow> Inl (verb @ '' invalid sort criteria'') | Some spec \<Rightarrow> Inr (SO_sort spec))
         | _ \<Rightarrow> Inl (verb @ '' expects a sort criteria list''))
      else let alg = upperText (arg 0 cmd)
           in if alg = Some ''ORDEREDSUBJECT'' \<or> alg = Some ''REFERENCES'' then Inr (SO_thread (the alg))
              else Inl (verb @ '' unsupported threading algorithm''))"

definition cmdSortThread :: "parsed_command \<Rightarrow> bool \<Rightarrow> bool \<Rightarrow> imap \<Rightarrow> imap \<times> imap_action list" where
  "cmdSortThread cmd uidMode thread s =
     (let verb = uidVerb uidMode (if thread then ''THREAD'' else ''SORT'') in
      case im_selected s of
        None \<Rightarrow> (s, notSelected cmd)
      | Some view \<Rightarrow>
          (case parseSortMode cmd thread verb of
             Inl e \<Rightarrow> (s, badReply (pc_tag cmd) e)
           | Inr mode \<Rightarrow>
               (case upperText (arg 1 cmd) of
                  None \<Rightarrow> (s, badReply (pc_tag cmd) (verb @ '' expects a charset''))
                | Some charset \<Rightarrow>
                    if charset \<noteq> ''UTF-8'' \<and> charset \<noteq> ''US-ASCII'' then (s, badSearch cmd verb True)
                    else (case parseSearchProgram (drop 2 (pc_args cmd)) of
                            None \<Rightarrow> (s, [])
                          | Some (SP_bad badCharset) \<Rightarrow> (s, badSearch cmd verb badCharset)
                          | Some (SP_ok key) \<Rightarrow>
                              if length (vw_uids view) = 0
                              then (s, [starReply (if thread then ''THREAD'' else ''SORT''), completed (pc_tag cmd) verb])
                              else sortFrom \<lparr>se_tag = pc_tag cmd, se_verb = verb, se_uidMode = uidMode, se_name = vw_name view,
                                             se_key = key, se_uids = vw_uids view\<rparr> mode 0 [] [] s))))"

end
