(* ===== verification/ImapEngine.thy ===== *)
theory ImapEngine
  imports ImapCommands
begin

text \<open>
  The IMAP engine of \<open>proto-imap/src/engine.ts\<close>: authentication, the dispatch of a line, and what a response of
  the backend resumes. \<open>rnd\<close> is what \<open>randomBytes\<close> returns while a line is handled: a line begins at most one
  SCRAM exchange. The callback \<open>onCommand\<close> only observes and is left out.
\<close>

section \<open>Capabilities and small commands\<close>

definition BASE_CAPABILITIES :: "string list" where
  "BASE_CAPABILITIES = [''IMAP4rev1'', ''IMAP4rev2'', ''LITERAL-'', ''SASL-IR'', ''ID'', ''ENABLE'', ''NAMESPACE'', ''CHILDREN'',
     ''SPECIAL-USE'', ''UNSELECT'', ''UIDPLUS'', ''MOVE'', ''IDLE'', ''CONDSTORE'', ''QRESYNC'', ''ESEARCH'', ''SEARCHRES'', ''BINARY'',
     ''SAVEDATE'', ''MULTIAPPEND'', ''REPLACE'', ''OBJECTID'', ''SORT'', ''THREAD=ORDEREDSUBJECT'', ''THREAD=REFERENCES'',
     ''LIST-EXTENDED'', ''LIST-STATUS'', ''QUOTA'', ''QUOTA=RES-STORAGE'', ''QUOTA=RES-MESSAGE'']"

definition SASL_MECHANISMS :: "(string \<times> imap_mech) list" where
  "SASL_MECHANISMS = [(''PLAIN'', IM_PLAIN), (''XOAUTH2'', IM_XOAUTH2), (''OAUTHBEARER'', IM_OAUTHBEARER)]"

definition SCRAM_MECHANISM :: string where
  "SCRAM_MECHANISM = ''SCRAM-SHA-256''"

definition imap_authAllowed :: "imap_options \<Rightarrow> imap \<Rightarrow> bool" where
  "imap_authAllowed opt s \<longleftrightarrow> im_secure s \<or> io_allowInsecureAuth opt"

definition imap_starttlsOffered :: "imap_options \<Rightarrow> imap \<Rightarrow> bool" where
  "imap_starttlsOffered opt s \<longleftrightarrow> io_tlsAvailable opt \<and> \<not> im_secure s"

definition imap_capabilities :: "imap_options \<Rightarrow> imap \<Rightarrow> string" where
  "imap_capabilities opt s =
     join '' '' (BASE_CAPABILITIES @
       (if im_state s \<noteq> NotAuthenticated \<and> \<not> im_compressed s then [''COMPRESS=DEFLATE''] else []) @
       (if im_state s = NotAuthenticated then
          (if imap_starttlsOffered opt s then [''STARTTLS''] else []) @
          (if imap_authAllowed opt s
           then (if io_scramOffered opt then [''AUTH='' @ SCRAM_MECHANISM] else []) @ map (\<lambda>(m, _). ''AUTH='' @ m) SASL_MECHANISMS
           else [''LOGINDISABLED''])
        else []))"

definition imap_greeting :: "imap_options \<Rightarrow> imap \<Rightarrow> imap_action list" where
  "imap_greeting opt s = [starReply (''OK [CAPABILITY '' @ imap_capabilities opt s @ ''] '' @ io_hostname opt @ '' IMAP ready'')]"

definition cmdCapability :: "imap_options \<Rightarrow> parsed_command \<Rightarrow> imap \<Rightarrow> imap \<times> imap_action list" where
  "cmdCapability opt cmd s =
     (s, [starReply (''CAPABILITY '' @ imap_capabilities opt s), completed (pc_tag cmd) ''CAPABILITY''])"

definition cmdNoop :: "parsed_command \<Rightarrow> imap \<Rightarrow> imap \<times> imap_action list" where
  "cmdNoop cmd s =
     (if im_state s = Selected \<and> im_selected s \<noteq> None then refreshSelected (Some (pc_tag cmd, pc_name cmd)) s
      else (s, [completed (pc_tag cmd) (pc_name cmd)]))"

definition cmdLogout :: "imap_options \<Rightarrow> parsed_command \<Rightarrow> imap \<Rightarrow> imap \<times> imap_action list" where
  "cmdLogout opt cmd s =
     (s\<lparr>im_closed := True\<rparr>,
      [starReply (''BYE '' @ io_hostname opt @ '' logging out''), completed (pc_tag cmd) ''LOGOUT'', IA_close])"

definition cmdId :: "parsed_command \<Rightarrow> imap \<Rightarrow> imap \<times> imap_action list" where
  "cmdId cmd s =
     (s, [starReply (''ID ('' @ [QUOTE] @ ''name'' @ [QUOTE] @ '' '' @ [QUOTE] @ ''ionosphere'' @ [QUOTE] @ '')''), completed (pc_tag cmd) ''ID''])"

definition imap_cmdStartTls :: "imap_options \<Rightarrow> parsed_command \<Rightarrow> imap \<Rightarrow> imap \<times> imap_action list" where
  "imap_cmdStartTls opt cmd s =
     (if im_secure s then (s, badReply (pc_tag cmd) ''TLS already active'')
      else if \<not> io_tlsAvailable opt then (s, [tagReply (pc_tag cmd) ''NO'' ''STARTTLS not available''])
      else if im_pending s \<noteq> None \<or> im_idleTag s \<noteq> None then (s, badReply (pc_tag cmd) ''STARTTLS not allowed mid-command'')
      else (s\<lparr>im_awaitingTls := True, im_queued := [], im_queuedBytes := 0\<rparr>,
            [tagReply (pc_tag cmd) ''OK'' ''Begin TLS negotiation now'', IA_startTls]))"

definition cmdCompress :: "parsed_command \<Rightarrow> imap \<Rightarrow> imap \<times> imap_action list" where
  "cmdCompress cmd s =
     (if im_state s = NotAuthenticated then (s, badReply (pc_tag cmd) ''COMPRESS not allowed before authentication'')
      else if upperText (arg 0 cmd) \<noteq> Some ''DEFLATE'' then (s, badReply (pc_tag cmd) ''COMPRESS unsupported algorithm'')
      else if im_compressed s then (s, [tagReply (pc_tag cmd) ''NO'' ''[COMPRESSIONACTIVE] compression already active''])
      else (s\<lparr>im_compressed := True\<rparr>, [tagReply (pc_tag cmd) ''OK'' ''DEFLATE active'', IA_startCompress]))"

definition ENABLABLE :: "string list" where
  "ENABLABLE = [''CONDSTORE'', ''QRESYNC'', ''IMAP4rev2'']"

fun enableLoop :: "imap_value list \<Rightarrow> string list \<Rightarrow> string list \<Rightarrow> string list \<times> string list" where
  "enableLoop [] enabled accepted = (enabled, accepted)"
| "enableLoop (v # vs) enabled accepted =
     (case valueText v of
        None \<Rightarrow> enableLoop vs enabled accepted
      | Some t \<Rightarrow>
          (case find (\<lambda>n. toUpperCase n = toUpperCase t) ENABLABLE of
             None \<Rightarrow> enableLoop vs enabled accepted
           | Some name \<Rightarrow>
               if name \<in> set enabled then enableLoop vs enabled accepted
               else let e1 = js_set_add name enabled
                    in enableLoop vs (if name = ''QRESYNC'' then js_set_add ''CONDSTORE'' e1 else e1) (accepted @ [name])))"

definition cmdEnable :: "parsed_command \<Rightarrow> imap \<Rightarrow> imap \<times> imap_action list" where
  "cmdEnable cmd s =
     (if im_state s = NotAuthenticated then (s, badReply (pc_tag cmd) ''ENABLE not allowed before authentication'')
      else if im_state s = Selected then (s, badReply (pc_tag cmd) ''ENABLE not allowed with a mailbox selected'')
      else let (enabled, accepted) = enableLoop (pc_args cmd) (im_enabled s) []
           in (s\<lparr>im_enabled := enabled\<rparr>,
               [starReply (''ENABLED'' @ (if length accepted > 0 then '' '' @ join '' '' accepted else [])), completed (pc_tag cmd) ''ENABLE'']))"

section \<open>Authentication\<close>

definition cmdLogin :: "imap_options \<Rightarrow> parsed_command \<Rightarrow> imap \<Rightarrow> imap \<times> imap_action list" where
  "cmdLogin opt cmd s =
     (if im_state s \<noteq> NotAuthenticated then (s, badReply (pc_tag cmd) ''LOGIN not allowed in current state'')
      else if \<not> imap_authAllowed opt s
        then (s, [tagReply (pc_tag cmd) ''NO'' ''[PRIVACYREQUIRED] LOGIN disabled on insecure connection''])
      else case (identifierArg cmd 0, identifierArg cmd 1) of
        (Some user, Some pass) \<Rightarrow>
          if length (pc_args cmd) \<noteq> 2 then (s, badReply (pc_tag cmd) ''LOGIN expects username and password'')
          else (s\<lparr>im_pending := Some (IP_auth (pc_tag cmd))\<rparr>, [IA_auth user pass])
      | _ \<Rightarrow> (s, badReply (pc_tag cmd) ''LOGIN expects username and password''))"

definition imap_scramFailed :: "string \<Rightarrow> scram_step \<Rightarrow> imap_action list" where
  "imap_scramFailed tag step =
     [IA_authFailed (case step of Failed (Some u) \<Rightarrow> (if u = [] then None else Some u) | _ \<Rightarrow> None) SCRAM_MECHANISM,
      tagReply tag ''NO'' ''[AUTHENTICATIONFAILED] authentication failed'']"

definition imap_challenge :: "string \<Rightarrow> imap_action" where
  "imap_challenge message = IA_reply (''+ '' @ b64_encode (utf8Encode message))"

definition verified :: "sasl_pending \<Rightarrow> imap_scram \<Rightarrow> imap \<Rightarrow> imap \<times> imap_action list" where
  "verified sasl sc s =
     (s\<lparr>im_pending := Some (IP_auth (sl_tag sasl))\<rparr>,
      [IA_authVerified (sl_tag sasl) (case ix_username sc of Some u \<Rightarrow> u | None \<Rightarrow> [])])"

definition imap_handleScramData :: "crypto \<Rightarrow> bytes \<Rightarrow> sasl_pending \<Rightarrow> imap_scram \<Rightarrow> string \<Rightarrow> imap \<Rightarrow> imap \<times> imap_action list" where
  "imap_handleScramData c rnd sasl sc txt s =
     (case ix_stage sc of
        IS_serverFinal \<Rightarrow> verified sasl sc s
      | IS_clientFirst \<Rightarrow>
          (case scram_start rnd txt (ix_session sc) of
             (session1, NeedLookup user) \<Rightarrow>
               (s\<lparr>im_pending := Some (IP_scramKeys (sasl\<lparr>sl_scram := Some (sc\<lparr>ix_session := session1, ix_stage := IS_clientFinal\<rparr>)\<rparr>))\<rparr>,
                [IA_scramKeys user])
           | (session1, step) \<Rightarrow> (s, imap_scramFailed (sl_tag sasl) step))
      | IS_clientFinal \<Rightarrow>
          (case scram_final c txt (ix_session sc) of
             (session1, Done user message) \<Rightarrow>
               (s\<lparr>im_pending := Some (IP_saslLine (sasl\<lparr>sl_scram := Some \<lparr>ix_session = session1, ix_stage = IS_serverFinal, ix_username = Some user\<rparr>\<rparr>))\<rparr>,
                [imap_challenge message])
           | (session1, step) \<Rightarrow> (s, imap_scramFailed (sl_tag sasl) step)))"

definition mechName :: "imap_mech \<Rightarrow> string" where
  "mechName m = (case m of IM_PLAIN \<Rightarrow> ''PLAIN'' | IM_XOAUTH2 \<Rightarrow> ''XOAUTH2'' | IM_OAUTHBEARER \<Rightarrow> ''OAUTHBEARER'' | IM_SCRAM \<Rightarrow> SCRAM_MECHANISM)"

definition handleCredentials :: "sasl_pending \<Rightarrow> bytes \<Rightarrow> imap \<Rightarrow> imap \<times> imap_action list" where
  "handleCredentials sasl b s =
     (case (if sl_mechanism sasl = IM_XOAUTH2 \<or> sl_mechanism sasl = IM_OAUTHBEARER
            then parseSaslOAuth (mechName (sl_mechanism sasl)) (utf8Decode b) else parseSaslPlain b) of
        None \<Rightarrow>
          (s, [tagReply (sl_tag sasl) ''NO'' (''[AUTHENTICATIONFAILED] malformed '' @
                 (if sl_mechanism sasl = IM_XOAUTH2 \<or> sl_mechanism sasl = IM_OAUTHBEARER then mechName (sl_mechanism sasl) else ''PLAIN'') @
                 '' response'')])
      | Some (user, pass) \<Rightarrow> (s\<lparr>im_pending := Some (IP_auth (sl_tag sasl))\<rparr>, [IA_auth user pass]))"

text \<open>The SCRAM exchange that has sent its last message, and only waits for an empty line.\<close>

definition atServerFinal :: "sasl_pending \<Rightarrow> imap_scram option" where
  "atServerFinal sasl =
     (case sl_scram sasl of
        Some sc \<Rightarrow> if sl_mechanism sasl = IM_SCRAM \<and> ix_stage sc = IS_serverFinal then Some sc else None
      | None \<Rightarrow> None)"

definition imap_handleSaslData :: "crypto \<Rightarrow> bytes \<Rightarrow> sasl_pending \<Rightarrow> string option \<Rightarrow> imap \<Rightarrow> imap \<times> imap_action list" where
  "imap_handleSaslData c rnd sasl data s =
     (case (if data = None \<or> data = Some [] then atServerFinal sasl else None) of
        Some sc \<Rightarrow> verified sasl sc s
      | None \<Rightarrow>
          (case data of
             None \<Rightarrow> (s, badReply (sl_tag sasl) ''malformed SASL response'')
           | Some d \<Rightarrow>
               if d = ''*'' then (s, badReply (sl_tag sasl) ''authentication cancelled'')
               else (case decodeSaslBase64 (if d = ''='' then [] else d) of
                       None \<Rightarrow> (s, badReply (sl_tag sasl) ''invalid base64'')
                     | Some b \<Rightarrow>
                         (case (if sl_mechanism sasl = IM_SCRAM then sl_scram sasl else None) of
                            Some sc \<Rightarrow> imap_handleScramData c rnd sasl sc (utf8Decode b) s
                          | None \<Rightarrow> handleCredentials sasl b s))))"

definition imap_cmdAuthenticate :: "crypto \<Rightarrow> imap_options \<Rightarrow> bytes \<Rightarrow> parsed_command \<Rightarrow> imap \<Rightarrow> imap \<times> imap_action list" where
  "imap_cmdAuthenticate c opt rnd cmd s =
     (if im_state s \<noteq> NotAuthenticated then (s, badReply (pc_tag cmd) ''AUTHENTICATE not allowed in current state'')
      else if \<not> imap_authAllowed opt s
        then (s, [tagReply (pc_tag cmd) ''NO'' ''[PRIVACYREQUIRED] AUTHENTICATE disabled on insecure connection''])
      else let mech = map_option toUpperCase (identifierArg cmd 0);
               begin1 = (\<lambda>sasl.
                 if length (pc_args cmd) > 2 then (s, badReply (pc_tag cmd) ''too many arguments'')
                 else case identifierArg cmd 1 of
                   Some initial \<Rightarrow> imap_handleSaslData c rnd sasl (Some initial) s
                 | None \<Rightarrow> (s\<lparr>im_pending := Some (IP_saslLine sasl)\<rparr>, [IA_reply ''+ ''])) in
        if mech = Some SCRAM_MECHANISM \<and> io_scramOffered opt then
          begin1 \<lparr>sl_tag = pc_tag cmd, sl_mechanism = IM_SCRAM,
                 sl_scram = Some \<lparr>ix_session = newScramSession (io_scramDecoySecret opt), ix_stage = IS_clientFirst, ix_username = None\<rparr>\<rparr>
        else case Option.bind mech (map_of SASL_MECHANISMS) of
          None \<Rightarrow> (s, [tagReply (pc_tag cmd) ''NO'' ''[CANNOT] unsupported authentication mechanism''])
        | Some m \<Rightarrow> begin1 \<lparr>sl_tag = pc_tag cmd, sl_mechanism = m, sl_scram = None\<rparr>)"

section \<open>Dispatch\<close>

type_synonym imap_handler = "parsed_command \<Rightarrow> imap \<Rightarrow> imap \<times> imap_action list"

definition requireAuth :: "imap_handler \<Rightarrow> imap_handler" where
  "requireAuth f cmd s =
     (if im_state s = NotAuthenticated then (s, badReply (pc_tag cmd) ''command not allowed before authentication'') else f cmd s)"

definition requireSelected :: "imap_handler \<Rightarrow> imap_handler" where
  "requireSelected f cmd s =
     (if im_state s \<noteq> Selected \<or> im_selected s = None then (s, notSelected cmd) else f cmd s)"

definition cmdSetQuota :: imap_handler where
  "cmdSetQuota cmd s = (s, [tagReply (pc_tag cmd) ''NO'' ''[CANNOT] quota is managed by the administrator''])"

definition cmdNamespace :: imap_handler where
  "cmdNamespace cmd s =
     (s, [starReply (''NAMESPACE (('' @ [QUOTE, QUOTE] @ '' '' @ [QUOTE, HIERARCHY_DELIMITER, QUOTE] @ '')) NIL NIL''),
          completed (pc_tag cmd) ''NAMESPACE''])"

definition cmdUnselect :: imap_handler where
  "cmdUnselect cmd s = (leaveSelected s, [completed (pc_tag cmd) ''UNSELECT''])"

definition cmdIdle :: imap_handler where
  "cmdIdle cmd s = (s\<lparr>im_idleTag := Some (pc_tag cmd)\<rparr>, [IA_reply ''+ idling''])"

definition cmdUidExpunge :: imap_handler where
  "cmdUidExpunge cmd s =
     (case setArg cmd True s of
        None \<Rightarrow> (s, badReply (pc_tag cmd) ''UID EXPUNGE expects sequence set'')
      | Some ranges \<Rightarrow> requireSelected (\<lambda>cmd. cmdExpunge cmd (Some ranges)) cmd s)"

definition UID_COMMANDS :: "(string \<times> imap_handler) list" where
  "UID_COMMANDS =
     [(''FETCH'', requireSelected (\<lambda>cmd. cmdFetch cmd True)),
      (''STORE'', requireSelected (\<lambda>cmd. cmdStore cmd True)),
      (''SEARCH'', requireSelected (\<lambda>cmd. cmdSearch cmd True)),
      (''SORT'', requireSelected (\<lambda>cmd. cmdSortThread cmd True False)),
      (''THREAD'', requireSelected (\<lambda>cmd. cmdSortThread cmd True True)),
      (''COPY'', requireSelected (\<lambda>cmd. cmdCopyMove cmd True False)),
      (''MOVE'', requireSelected (\<lambda>cmd. cmdCopyMove cmd True True)),
      (''REPLACE'', requireSelected (\<lambda>cmd. cmdReplace cmd True)),
      (''EXPUNGE'', cmdUidExpunge)]"

definition cmdUid :: imap_handler where
  "cmdUid cmd s =
     (let sub = map_option toUpperCase (identifierArg cmd 0);
          rest = \<lparr>pc_tag = pc_tag cmd, pc_name = (case sub of Some n \<Rightarrow> n | None \<Rightarrow> []), pc_args = drop 1 (pc_args cmd)\<rparr>
      in case Option.bind sub (map_of UID_COMMANDS) of
           Some f \<Rightarrow> f rest s
         | None \<Rightarrow> (s, badReply (pc_tag cmd) ''unknown UID command''))"

definition imap_commands :: "crypto \<Rightarrow> imap_options \<Rightarrow> bytes \<Rightarrow> (string \<times> imap_handler) list" where
  "imap_commands c opt rnd =
     [(''CAPABILITY'', cmdCapability opt),
      (''NOOP'', cmdNoop),
      (''CHECK'', cmdNoop),
      (''LOGOUT'', cmdLogout opt),
      (''ID'', cmdId),
      (''STARTTLS'', imap_cmdStartTls opt),
      (''LOGIN'', cmdLogin opt),
      (''AUTHENTICATE'', imap_cmdAuthenticate c opt rnd),
      (''ENABLE'', cmdEnable),
      (''COMPRESS'', cmdCompress),
      (''GETQUOTAROOT'', requireAuth (\<lambda>cmd. cmdGetQuota cmd ''GETQUOTAROOT'')),
      (''GETQUOTA'', requireAuth (\<lambda>cmd. cmdGetQuota cmd ''GETQUOTA'')),
      (''SETQUOTA'', requireAuth cmdSetQuota),
      (''NAMESPACE'', requireAuth cmdNamespace),
      (''LIST'', requireAuth (\<lambda>cmd. imap_cmdList cmd ''LIST'')),
      (''LSUB'', requireAuth (\<lambda>cmd. imap_cmdList cmd ''LSUB'')),
      (''SUBSCRIBE'', requireAuth cmdSubscribe),
      (''UNSUBSCRIBE'', requireAuth cmdSubscribe),
      (''CREATE'', requireAuth cmdCreate),
      (''DELETE'', requireAuth cmdDelete),
      (''RENAME'', requireAuth cmdRename),
      (''GETACL'', requireAuth cmdGetAcl),
      (''SETACL'', requireAuth cmdSetAcl),
      (''DELETEACL'', requireAuth cmdDeleteAcl),
      (''LISTRIGHTS'', requireAuth cmdListRights),
      (''MYRIGHTS'', requireAuth cmdMyRights),
      (''STATUS'', requireAuth cmdStatus),
      (''SELECT'', requireAuth (\<lambda>cmd. cmdSelect cmd True)),
      (''EXAMINE'', requireAuth (\<lambda>cmd. cmdSelect cmd False)),
      (''UNSELECT'', requireSelected cmdUnselect),
      (''CLOSE'', requireSelected cmdClose),
      (''FETCH'', requireSelected (\<lambda>cmd. cmdFetch cmd False)),
      (''STORE'', requireSelected (\<lambda>cmd. cmdStore cmd False)),
      (''SEARCH'', requireSelected (\<lambda>cmd. cmdSearch cmd False)),
      (''SORT'', requireSelected (\<lambda>cmd. cmdSortThread cmd False False)),
      (''THREAD'', requireSelected (\<lambda>cmd. cmdSortThread cmd False True)),
      (''EXPUNGE'', requireSelected (\<lambda>cmd. cmdExpunge cmd None)),
      (''APPEND'', requireAuth cmdAppend),
      (''REPLACE'', requireSelected (\<lambda>cmd. cmdReplace cmd False)),
      (''COPY'', requireSelected (\<lambda>cmd. cmdCopyMove cmd False False)),
      (''MOVE'', requireSelected (\<lambda>cmd. cmdCopyMove cmd False True)),
      (''IDLE'', requireAuth cmdIdle),
      (''UID'', cmdUid)]"

definition imap_dispatch :: "crypto \<Rightarrow> imap_options \<Rightarrow> bytes \<Rightarrow> imap_handler" where
  "imap_dispatch c opt rnd cmd s =
     (case map_of (imap_commands c opt rnd) (pc_name cmd) of
        Some f \<Rightarrow> f cmd s
      | None \<Rightarrow> (s, badReply (pc_tag cmd) ''unknown command''))"

definition onlyText :: "line_part list \<Rightarrow> string option" where
  "onlyText parts = (case parts of [TextPart t] \<Rightarrow> Some t | _ \<Rightarrow> None)"

definition imap_handleLine :: "crypto \<Rightarrow> imap_options \<Rightarrow> bytes \<Rightarrow> line_part list \<Rightarrow> imap \<Rightarrow> imap \<times> imap_action list" where
  "imap_handleLine c opt rnd parts s =
     (case im_idleTag s of
        Some tag \<Rightarrow>
          (s\<lparr>im_idleTag := None\<rparr>,
           [if map_option (\<lambda>t. toUpperCase (trim t)) (onlyText parts) = Some ''DONE''
            then tagReply tag ''OK'' ''IDLE terminated'' else tagReply tag ''BAD'' ''expected DONE''])
      | None \<Rightarrow>
          (case im_pending s of
             Some (IP_saslLine sasl) \<Rightarrow> imap_handleSaslData c rnd sasl (onlyText parts) (s\<lparr>im_pending := None\<rparr>)
           | _ \<Rightarrow>
               (case parseCommand parts of
                  None \<Rightarrow> (s, [])
                | Some (Inl msg) \<Rightarrow> (s, [starReply (''BAD '' @ msg)])
                | Some (Inr cmd) \<Rightarrow> imap_dispatch c opt rnd cmd s)))"

section \<open>Responses of the backend\<close>

definition simpleResult :: "string \<Rightarrow> string \<Rightarrow> imap_response \<Rightarrow> imap_action" where
  "simpleResult tag verb res =
     (case res of
        RS_ok \<Rightarrow> completed tag verb
      | RS_no k message \<Rightarrow> noReply tag verb k message
      | _ \<Rightarrow> noReply tag verb None ''failed'')"

text \<open>What the other commands say to a refusal, or to a response of another kind.\<close>

definition failure :: "string \<Rightarrow> string \<Rightarrow> imap_response \<Rightarrow> imap_action" where
  "failure tag verb res =
     (case res of RS_no k message \<Rightarrow> noReply tag verb k message | _ \<Rightarrow> tagReply tag ''NO'' (verb @ '' failed''))"

text \<open>The untagged FETCH of a change of flags, for the messages of the view.\<close>

fun changedLines :: "bool \<Rightarrow> (nat \<times> string list \<times> nat) list \<Rightarrow> imap \<Rightarrow> imap \<times> imap_action list" where
  "changedLines withModseq [] s = (s, [])"
| "changedLines withModseq ((uid, flags, modseq) # cs) s =
     (case im_selected s of
        None \<Rightarrow> changedLines withModseq cs s
      | Some view \<Rightarrow>
          (case indexOf uid (vw_uids view) of
             None \<Rightarrow> changedLines withModseq cs s
           | Some i \<Rightarrow>
               (let (s1, a1) = ensureFlagsAnnounced flags s; (s2, a2) = changedLines withModseq cs s1
                in (s2, a1 @ starReply (show_nat (i + 1) @ '' FETCH (UID '' @ show_nat uid @ '' FLAGS ('' @ join '' '' flags @ '')'' @
                          (if withModseq then '' MODSEQ ('' @ show_nat modseq @ '')'' else []) @ '')'') # a2))))"

definition openView :: "imap_mailbox \<Rightarrow> nat list \<Rightarrow> string list \<Rightarrow> bool \<Rightarrow> selected_view" where
  "openView m uids keywords readWrite =
     \<lparr>vw_name = mb_name m, vw_readWrite = readWrite, vw_uidvalidity = mb_uidvalidity m, vw_uids = uids,
      vw_uidnext = max (mb_uidnext m) ((if uids = [] then 0 else last uids) + 1),
      vw_announcedKeywords = fold js_set_add keywords [], vw_lastSyncModseq = mb_highestmodseq m\<rparr>"

definition selectLines :: "imap_mailbox \<Rightarrow> nat list \<Rightarrow> nat option \<Rightarrow> string list \<Rightarrow> bool \<Rightarrow> bool \<Rightarrow> imap_action list" where
  "selectLines m uids firstUnseen keywords readWrite rev2 =
     [flagsLine keywords, existsReply uids] @
     (if rev2 then [] else [starReply ''0 RECENT'']) @
     [starReply (''OK [UIDVALIDITY '' @ show_nat (mb_uidvalidity m) @ ''] UIDs valid'')] @
     (case mb_mailboxId m of Some i \<Rightarrow> [starReply (''OK [MAILBOXID ('' @ i @ '')] object id'')] | None \<Rightarrow> []) @
     [starReply (''OK [UIDNEXT '' @ show_nat (mb_uidnext m) @ ''] predicted next UID''),
      starReply (''OK [HIGHESTMODSEQ '' @ show_nat (mb_highestmodseq m) @ ''] modseq''),
      starReply (if readWrite
        then ''OK [PERMANENTFLAGS ('' @ join '' '' (SYSTEM_FLAGS @ [[BACKSLASH, CHR ''*'']]) @ '')] flags''
        else ''OK [PERMANENTFLAGS ()] read-only'')] @
     (case firstUnseen of
        Some n \<Rightarrow> if rev2 then [] else [starReply (''OK [UNSEEN '' @ show_nat n @ ''] first unseen'')]
      | None \<Rightarrow> [])"

definition selectDone :: "string \<Rightarrow> bool \<Rightarrow> imap_action" where
  "selectDone tag readWrite =
     tagReply tag ''OK'' (''['' @ (if readWrite then ''READ-WRITE'' else ''READ-ONLY'') @ ''] '' @ selectVerb readWrite @ '' completed'')"

definition resumeSelect :: "string \<Rightarrow> bool \<Rightarrow> qresync_params option \<Rightarrow> imap_response \<Rightarrow> imap \<Rightarrow> imap \<times> imap_action list" where
  "resumeSelect tag readWrite q res s =
     (case res of
        RS_selected m uids firstUnseen kws \<Rightarrow>
          (let keywords = (case kws of Some k \<Rightarrow> k | None \<Rightarrow> []);
               s1 = s\<lparr>im_selected := Some (openView m uids keywords readWrite), im_state := Selected, im_savedSearch := []\<rparr>;
               ls = selectLines m uids firstUnseen keywords readWrite (''IMAP4rev2'' \<in> set (im_enabled s))
           in case q of
                Some qp \<Rightarrow>
                  if qr_uidvalidity qp = mb_uidvalidity m
                  then let (s2, a) = callBackend (RQ_syncSince (mb_name m) (qr_modseq qp) (qr_knownUids qp) False) (K_selectSync tag readWrite) s1
                       in (s2, ls @ a)
                  else (s1, ls @ [selectDone tag readWrite])
              | None \<Rightarrow> (s1, ls @ [selectDone tag readWrite]))
      | _ \<Rightarrow> (s, [failure tag (selectVerb readWrite) res]))"

definition resumeSelectSync :: "string \<Rightarrow> bool \<Rightarrow> imap_response \<Rightarrow> imap \<Rightarrow> imap \<times> imap_action list" where
  "resumeSelectSync tag readWrite res s =
     (case res of
        RS_sync vanished changed \<Rightarrow>
          (let (s1, a) = changedLines True changed s
           in (s1, (if length vanished > 0 then [starReply (''VANISHED (EARLIER) '' @ formatUidSet vanished)] else []) @ a @
                   [selectDone tag readWrite]))
      | _ \<Rightarrow> (s, [selectDone tag readWrite]))"

definition resumeFetch :: "mime_lib \<Rightarrow> fetch_context \<Rightarrow> nat \<Rightarrow> imap_response \<Rightarrow> imap \<Rightarrow> imap \<times> imap_action list" where
  "resumeFetch lib c offset res s =
     (case res of
        RS_messages messages \<Rightarrow>
          (let n = batchSize (fc_needRaw c);
               (s1, a, unknownCte) = emitFetch lib c (byUid messages) (take n (drop offset (fc_targets c))) s
           in if unknownCte then (s1, a @ [tagReply (fc_tag c) ''NO'' (''[UNKNOWN-CTE] '' @ fc_verb c @ '' cannot decode section'')])
              else if offset + n < length (fc_targets c) then (let (s2, b) = fetchFrom c (offset + n) s1 in (s2, a @ b))
              else (s1, a @ [completed (fc_tag c) (fc_verb c)]))
      | _ \<Rightarrow> (s, [failure (fc_tag c) (fc_verb c) res]))"

definition resumeVanished :: "fetch_context \<Rightarrow> seq_range list \<Rightarrow> nat \<Rightarrow> imap_response \<Rightarrow> imap \<Rightarrow> imap \<times> imap_action list" where
  "resumeVanished c requested maxUid res s =
     (case res of
        RS_sync gone changed \<Rightarrow>
          (let vanished = filter (\<lambda>uid. matchSequenceSet requested uid maxUid) gone; (s1, a) = fetchAll c s
           in (s1, (if length vanished > 0 then [starReply (''VANISHED (EARLIER) '' @ formatUidSet vanished)] else []) @ a))
      | _ \<Rightarrow> (s, [failure (fc_tag c) (fc_verb c) res]))"

definition resumeAppend :: "string \<Rightarrow> string \<Rightarrow> imap_response \<Rightarrow> imap \<Rightarrow> imap \<times> imap_action list" where
  "resumeAppend tag name res s =
     (case res of
        RS_appended uidvalidity uid uidsOpt \<Rightarrow>
          (let uids = (case uidsOpt of Some us \<Rightarrow> us | None \<Rightarrow> [uid]);
               done = tagReply tag ''OK'' (''[APPENDUID '' @ show_nat uidvalidity @ '' '' @ formatUidSet uids @ ''] APPEND completed'')
           in case im_selected s of
                None \<Rightarrow> (s, [done])
              | Some view \<Rightarrow>
                  (let new = newUids (vw_uids view) uids; view1 = addUids new view
                   in if vw_name view = name \<and> new \<noteq> [] then (s\<lparr>im_selected := Some view1\<rparr>, [existsReply (vw_uids view1), done])
                      else (s, [done])))
      | RS_no k message \<Rightarrow> (s, [noReply tag ''APPEND'' k message])
      | _ \<Rightarrow> (s, [noReply tag ''APPEND'' None ''failed'']))"

definition resumeReplace :: "string \<Rightarrow> string \<Rightarrow> string \<Rightarrow> imap_response \<Rightarrow> imap \<Rightarrow> imap \<times> imap_action list" where
  "resumeReplace tag verb dest res s =
     (case res of
        RS_replaced uidvalidity uid expungedUid \<Rightarrow>
          (let (s1, a1) = (case im_selected s of
                 None \<Rightarrow> (s, [])
               | Some view \<Rightarrow>
                   (let view1 = addUids [uid] view
                    in if vw_name view = dest \<and> uid \<notin> set (vw_uids view)
                       then (s\<lparr>im_selected := Some view1\<rparr>, [existsReply (vw_uids view1)]) else (s, [])));
               (s2, a2) = (case expungedUid of Some u \<Rightarrow> removalActions [u] s1 | None \<Rightarrow> (s1, []))
           in (s2, a1 @ a2 @
               [tagReply tag ''OK'' (''[APPENDUID '' @ show_nat uidvalidity @ '' '' @ show_nat uid @ ''] '' @ verb @ '' completed'')]))
      | _ \<Rightarrow> (s, [failure tag verb res]))"

definition resumeCopyMove :: "string \<Rightarrow> string \<Rightarrow> bool \<Rightarrow> imap_response \<Rightarrow> imap \<Rightarrow> imap \<times> imap_action list" where
  "resumeCopyMove tag verb move res s =
     (case res of
        RS_copied uidvalidity srcUids dstUids \<Rightarrow>
          (let copyuid = ''COPYUID '' @ show_nat uidvalidity @ '' '' @ formatUidSet srcUids @ '' '' @ formatUidSet dstUids
           in if \<not> move then (s, [tagReply tag ''OK'' (''['' @ copyuid @ ''] '' @ verb @ '' completed'')])
              else let (s1, a) = removalActions srcUids s
                   in (s1, starReply (''OK ['' @ copyuid @ ''] moved'') # a @ [completed tag verb]))
      | _ \<Rightarrow> (s, [failure tag verb res]))"

fun storeLines :: "store_context \<Rightarrow> bool \<Rightarrow> (nat \<times> string list \<times> nat option) list \<Rightarrow> imap \<Rightarrow> imap \<times> imap_action list" where
  "storeLines c condstore [] s = (s, [])"
| "storeLines c condstore ((uid, flags, modseq) # us) s =
     (case map_of (st_seqByUid c) uid of
        None \<Rightarrow> storeLines c condstore us s
      | Some seq \<Rightarrow>
          (let (s1, a1) = ensureFlagsAnnounced flags s; (s2, a2) = storeLines c condstore us s1
           in (s2, a1 @ starReply (show_nat seq @ '' FETCH (FLAGS ('' @ join '' '' flags @ '')'' @
                     (if st_uidMode c then '' UID '' @ show_nat uid else []) @
                     (case modseq of Some m \<Rightarrow> if condstore then '' MODSEQ ('' @ show_nat m @ '')'' else [] | None \<Rightarrow> []) @ '')'') # a2)))"

definition resumeStore :: "store_context \<Rightarrow> imap_response \<Rightarrow> imap \<Rightarrow> imap \<times> imap_action list" where
  "resumeStore c res s =
     (case res of
        RS_flagsUpdated updated failedOpt \<Rightarrow>
          (let (s1, a) = (if st_silent c then (s, []) else storeLines c (''CONDSTORE'' \<in> set (im_enabled s)) updated s);
               failed = (case failedOpt of Some f \<Rightarrow> f | None \<Rightarrow> []);
               failedSet = (if st_uidMode c then failed
                            else filter (\<lambda>n. n > 0) (map (\<lambda>uid. case map_of (st_seqByUid c) uid of Some n \<Rightarrow> n | None \<Rightarrow> 0) failed))
           in (s1, a @ [if length failed > 0
                        then tagReply (st_tag c) ''OK'' (''[MODIFIED '' @ formatUidSet failedSet @ ''] conditional '' @ st_verb c @ '' failed for some messages'')
                        else completed (st_tag c) (st_verb c)]))
      | _ \<Rightarrow> (s, [failure (st_tag c) (st_verb c) res]))"

definition resumeExpunge :: "string \<Rightarrow> string \<Rightarrow> imap_response \<Rightarrow> imap \<Rightarrow> imap \<times> imap_action list" where
  "resumeExpunge tag verb res s =
     (case res of
        RS_expunged uids \<Rightarrow> (let (s1, a) = removalActions uids s in (s1, a @ [completed tag verb]))
      | _ \<Rightarrow> (s, [failure tag verb res]))"

definition syncKeywordList :: "string list \<Rightarrow> string list \<Rightarrow> imap \<Rightarrow> imap \<times> imap_action list" where
  "syncKeywordList dbKeywords extra s =
     (case im_selected s of
        None \<Rightarrow> (s, [])
      | Some view \<Rightarrow>
          (let final = fold js_set_add (filter (\<lambda>k. \<not> startsWith [BACKSLASH] k) extra) dbKeywords
           in if length final = length (vw_announcedKeywords view) \<and> set final \<subseteq> set (vw_announcedKeywords view) then (s, [])
              else (s\<lparr>im_selected := Some (view\<lparr>vw_announcedKeywords := final\<rparr>)\<rparr>, [flagsLine final])))"

text \<open>The difference between a snapshot and the view: the messages gone, then the messages new.\<close>

definition refreshView :: "imap_mailbox \<Rightarrow> nat list \<Rightarrow> imap \<Rightarrow> imap \<times> imap_action list" where
  "refreshView m uids s =
     (case im_selected s of
        None \<Rightarrow> (s, [])
      | Some view \<Rightarrow>
          (let (s1, a1) = removalActions (filter (\<lambda>u. u \<notin> set uids) (vw_uids view)) s in
           case im_selected s1 of
             None \<Rightarrow> (s1, a1)
           | Some v1 \<Rightarrow>
               (let v2 = v1\<lparr>vw_uidnext := max (vw_uidnext v1) (mb_uidnext m)\<rparr>;
                    added = filter (\<lambda>u. u \<notin> set (vw_uids v1)) uids;
                    v3 = addUids added v2
                in if length added > 0 then (s1\<lparr>im_selected := Some v3\<rparr>, a1 @ [existsReply (vw_uids v3)])
                   else (s1\<lparr>im_selected := Some v2\<rparr>, a1))))"

definition resumeRefresh :: "(string \<times> string) option \<Rightarrow> imap_response \<Rightarrow> imap \<Rightarrow> imap \<times> imap_action list" where
  "resumeRefresh t res s =
     (case (res, im_selected s) of
        (RS_selected m uids firstUnseen kws, Some view) \<Rightarrow>
          (let dbKeywords = fold js_set_add (case kws of Some k \<Rightarrow> k | None \<Rightarrow> []) [];
               (s1, a1) = refreshView m uids s
           in if mb_highestmodseq m \<le> vw_lastSyncModseq view
              then let (s2, a2) = syncKeywordList dbKeywords [] s1 in (s2, a1 @ a2 @ taggedOk t)
              else let (s2, a2) = callBackend (RQ_syncSince (vw_name view) (vw_lastSyncModseq view) None False)
                                    (K_refreshSync t (mb_highestmodseq m) dbKeywords) s1
                   in (s2, a1 @ a2))
      | _ \<Rightarrow> (s, taggedOk t))"

definition resumeRefreshSync :: "(string \<times> string) option \<Rightarrow> nat \<Rightarrow> string list \<Rightarrow> imap_response \<Rightarrow> imap \<Rightarrow> imap \<times> imap_action list" where
  "resumeRefreshSync t watermark dbKeywords res s =
     (case (res, im_selected s) of
        (RS_sync vanished changed, Some view) \<Rightarrow>
          (let (s1, a1) = changedLines (''CONDSTORE'' \<in> set (im_enabled s)) changed (s\<lparr>im_selected := Some (view\<lparr>vw_lastSyncModseq := watermark\<rparr>)\<rparr>);
               deltaKeywords = concat (map (\<lambda>(uid, flags, modseq). flags) (filter (\<lambda>(uid, flags, modseq). uid \<in> set (vw_uids view)) changed));
               (s2, a2) = syncKeywordList dbKeywords deltaKeywords s1
           in (s2, a1 @ a2 @ taggedOk t))
      | _ \<Rightarrow> (let (s1, a1) = syncKeywordList dbKeywords [] s in (s1, a1 @ taggedOk t)))"

definition resumeSearch :: "mime_lib \<Rightarrow> search_context \<Rightarrow> string list option \<Rightarrow> nat \<Rightarrow> nat list \<Rightarrow> nat list \<Rightarrow>
    imap_response \<Rightarrow> imap \<Rightarrow> imap \<times> imap_action list" where
  "resumeSearch lib c esearch offset hits hitUids res s =
     (case res of
        RS_messages messages \<Rightarrow>
          (let found = batchMatches lib c offset messages;
               hits1 = hits @ map (\<lambda>(seq, uid, d). if se_uidMode c then uid else seq) found;
               hitUids1 = hitUids @ map (\<lambda>(seq, uid, d). uid) found;
               next = offset + batchSize (searchNeedsRaw (se_key c))
           in if next < length (se_uids c) then searchFrom c esearch next hits1 hitUids1 s
              else (saveResult esearch hitUids1 s, searchReply (se_tag c) (se_uidMode c) esearch hits1 @ [completed (se_tag c) (se_verb c)]))
      | _ \<Rightarrow> (s, [failure (se_tag c) (se_verb c) res]))"

definition NO_SORT_KEYS :: sort_keys where
  "NO_SORT_KEYS = \<lparr>so_subjectBase = [], so_sentAtMs = 0, so_threadId = [], so_from = [], so_to = [], so_cc = []\<rparr>"

definition resumeSortThread :: "mime_lib \<Rightarrow> search_context \<Rightarrow> sort_mode \<Rightarrow> nat \<Rightarrow> sort_item list \<Rightarrow> sort_meta \<Rightarrow>
    imap_response \<Rightarrow> imap \<Rightarrow> imap \<times> imap_action list" where
  "resumeSortThread lib c mode offset hits meta res s =
     (case res of
        RS_messages messages \<Rightarrow>
          (let found = batchMatches lib c offset messages;
               hits1 = hits @ map (\<lambda>(seq, uid, d).
                 \<lparr>si_num = (if se_uidMode c then uid else seq), si_seq = seq, si_uid = uid,
                  si_keys = (case fd_sortKeys d of Some k \<Rightarrow> k | None \<Rightarrow> NO_SORT_KEYS)\<rparr>) found;
               meta1 = rev (map (\<lambda>(seq, uid, d). (uid, fd_internalDateMs d, fd_size d)) found) @ meta;
               next = offset + batchSize (searchNeedsRaw (se_key c))
           in if next < length (se_uids c) then sortFrom c mode next hits1 meta1 s
              else (s, [IA_reply (case mode of SO_sort spec \<Rightarrow> formatSortLine hits1 spec meta1 | SO_thread alg \<Rightarrow> formatThreadLine hits1 alg),
                        completed (se_tag c) (se_verb c)]))
      | _ \<Rightarrow> (s, [failure (se_tag c) (se_verb c) res]))"

definition resumeStatus :: "string \<Rightarrow> string \<Rightarrow> string list \<Rightarrow> imap_response \<Rightarrow> imap_action list" where
  "resumeStatus tag name wanted res =
     (case res of
        RS_mailboxes mbs \<Rightarrow>
          (case find (\<lambda>m. mb_name m = name) mbs of
             None \<Rightarrow> [tagReply tag ''NO'' ''[NONEXISTENT] STATUS no such mailbox'']
           | Some m \<Rightarrow>
               if mb_readable m = Some False then [tagReply tag ''NO'' ''[NOPERM] STATUS no read access'']
               else [statusReply m wanted, completed tag ''STATUS''])
      | _ \<Rightarrow> [failure tag ''STATUS'' res])"

definition resumeQuota :: "string \<Rightarrow> string \<Rightarrow> string \<Rightarrow> imap_response \<Rightarrow> imap_action list" where
  "resumeQuota tag verb mailbox res =
     (case res of
        RS_quota usedBytes limitBytes messageCount \<Rightarrow>
          (if verb = ''GETQUOTAROOT''
           then [starReply (''QUOTAROOT '' @ quoteMailboxName mailbox @ '' '' @ quoteMailboxName QUOTA_ROOT)] else []) @
          [starReply (''QUOTA '' @ quoteMailboxName QUOTA_ROOT @ '' ('' @ quotaResources usedBytes limitBytes @ '')''), completed tag verb]
      | _ \<Rightarrow> [failure tag verb res])"

definition resumeAcl :: "imap_cont \<Rightarrow> imap_response \<Rightarrow> imap_action list" where
  "resumeAcl k res =
     (case k of
        K_getAcl tag \<Rightarrow>
          (case res of
             RS_acl mailbox entries \<Rightarrow>
               [starReply (''ACL '' @ quoteMailboxName mailbox @ '' '' @ join '' '' (concat (map (\<lambda>(i, r). [i, r]) entries))), completed tag ''GETACL'']
           | _ \<Rightarrow> [failure tag ''GETACL'' res])
      | K_listRights tag \<Rightarrow>
          (case res of
             RS_rights mailbox identifier rights \<Rightarrow>
               [starReply (''LISTRIGHTS '' @ quoteMailboxName mailbox @ '' '' @ identifier @ '' '' @ [QUOTE, QUOTE] @ '' '' @ rights), completed tag ''LISTRIGHTS'']
           | _ \<Rightarrow> [failure tag ''LISTRIGHTS'' res])
      | K_myRights tag \<Rightarrow>
          (case res of
             RS_rights mailbox identifier rights \<Rightarrow>
               [starReply (''MYRIGHTS '' @ quoteMailboxName mailbox @ '' '' @ rights), completed tag ''MYRIGHTS'']
           | _ \<Rightarrow> [failure tag ''MYRIGHTS'' res])
      | _ \<Rightarrow> [])"

definition resumeList :: "list_context \<Rightarrow> imap_response \<Rightarrow> imap_action list" where
  "resumeList c res =
     (case res of
        RS_mailboxes mbs \<Rightarrow> concat (map (listLines c mbs) mbs) @ [completed (lc_tag c) (lc_verb c)]
      | _ \<Rightarrow> [failure (lc_tag c) (lc_verb c) res])"

fun imap_resume :: "mime_lib \<Rightarrow> imap_cont \<Rightarrow> imap_response \<Rightarrow> imap \<Rightarrow> imap \<times> imap_action list" where
  "imap_resume lib (K_simple tag verb) res s = (s, [simpleResult tag verb res])"
| "imap_resume lib (K_getAcl tag) res s = (s, resumeAcl (K_getAcl tag) res)"
| "imap_resume lib (K_listRights tag) res s = (s, resumeAcl (K_listRights tag) res)"
| "imap_resume lib (K_myRights tag) res s = (s, resumeAcl (K_myRights tag) res)"
| "imap_resume lib (K_list c) res s = (s, resumeList c res)"
| "imap_resume lib (K_select tag readWrite q) res s = resumeSelect tag readWrite q res s"
| "imap_resume lib (K_selectSync tag readWrite) res s = resumeSelectSync tag readWrite res s"
| "imap_resume lib (K_fetch c offset) res s = resumeFetch lib c offset res s"
| "imap_resume lib (K_vanished c requested maxUid) res s = resumeVanished c requested maxUid res s"
| "imap_resume lib (K_append tag name) res s = resumeAppend tag name res s"
| "imap_resume lib (K_replace tag verb dest) res s = resumeReplace tag verb dest res s"
| "imap_resume lib (K_copyMove tag verb move) res s = resumeCopyMove tag verb move res s"
| "imap_resume lib (K_store c) res s = resumeStore c res s"
| "imap_resume lib (K_expunge tag verb) res s = resumeExpunge tag verb res s"
| "imap_resume lib (K_refresh t) res s = resumeRefresh t res s"
| "imap_resume lib (K_refreshSync t watermark dbKeywords) res s = resumeRefreshSync t watermark dbKeywords res s"
| "imap_resume lib (K_search c esearch offset hits hitUids) res s = resumeSearch lib c esearch offset hits hitUids res s"
| "imap_resume lib (K_sortThread c mode offset hits meta) res s = resumeSortThread lib c mode offset hits meta res s"
| "imap_resume lib (K_status tag name wanted) res s = (s, resumeStatus tag name wanted res)"
| "imap_resume lib (K_quota tag verb mailbox) res s = (s, resumeQuota tag verb mailbox res)"

end
