(* ===== verification/ImapLaws.thy ===== *)
theory ImapLaws
  imports ImapEngine
begin

text \<open>
  What handling one line and resuming one request may do. \<open>im_ok\<close> says of the state and the actions that
  come out: the actions are allowed in the state before (a request to the backend only after authentication,
  one that changes the selected mailbox only if it was opened for writing, on messages of the view), the
  command is im_answered by exactly one tagged reply or is waited for with its tag, and the state is well formed.
\<close>

section \<open>Replies\<close>

fun im_plain :: "imap_action \<Rightarrow> bool" where
  "im_plain (IA_reply (c # t)) \<longleftrightarrow> c = CHR ''*'' \<or> c = CHR ''+''"
| "im_plain (IA_replyBinary b) \<longleftrightarrow> True"
| "im_plain IA_close \<longleftrightarrow> True"
| "im_plain (IA_authFailed u m) \<longleftrightarrow> True"
| "im_plain _ \<longleftrightarrow> False"

fun is_ask :: "imap_action \<Rightarrow> bool" where
  "is_ask (IA_auth u p) \<longleftrightarrow> True"
| "is_ask (IA_scramKeys u) \<longleftrightarrow> True"
| "is_ask (IA_authVerified t u) \<longleftrightarrow> True"
| "is_ask (IA_backend r) \<longleftrightarrow> True"
| "is_ask _ \<longleftrightarrow> False"

definition STATUS_WORDS :: "string list" where
  "STATUS_WORDS = [''OK'', ''NO'', ''BAD'']"

definition tagged :: "string \<Rightarrow> imap_action \<Rightarrow> bool" where
  "tagged tag a \<longleftrightarrow> (\<exists>w t. w \<in> set STATUS_WORDS \<and> a = tagReply tag w t)"

text \<open>Actions that are not a reply with a tag.\<close>

fun untagged :: "imap_action \<Rightarrow> bool" where
  "untagged (IA_reply t) \<longleftrightarrow> im_plain (IA_reply t)"
| "untagged _ \<longleftrightarrow> True"

definition im_answered :: "string \<Rightarrow> imap_action list \<Rightarrow> bool" where
  "im_answered tag acts \<longleftrightarrow> (\<exists>pre a post. acts = pre @ a # post \<and> tagged tag a \<and> list_all untagged (pre @ post))"

fun ask_for :: "imap_pending \<Rightarrow> imap_action \<Rightarrow> bool" where
  "ask_for (IP_auth t) a \<longleftrightarrow> (\<exists>u p. a = IA_auth u p) \<or> (\<exists>u. a = IA_authVerified t u)"
| "ask_for (IP_scramKeys x) a \<longleftrightarrow> (\<exists>u. a = IA_scramKeys u)"
| "ask_for (IP_backend k) a \<longleftrightarrow> (\<exists>r. a = IA_backend r)"
| "ask_for (IP_saslLine x) a \<longleftrightarrow> False"

fun cont_tag :: "imap_cont \<Rightarrow> string option" where
  "cont_tag (K_simple tag verb) = Some tag"
| "cont_tag (K_getAcl tag) = Some tag"
| "cont_tag (K_listRights tag) = Some tag"
| "cont_tag (K_myRights tag) = Some tag"
| "cont_tag (K_list c) = Some (lc_tag c)"
| "cont_tag (K_select tag rw q) = Some tag"
| "cont_tag (K_selectSync tag rw) = Some tag"
| "cont_tag (K_fetch c n) = Some (fc_tag c)"
| "cont_tag (K_vanished c r m) = Some (fc_tag c)"
| "cont_tag (K_append tag name) = Some tag"
| "cont_tag (K_replace tag verb dest) = Some tag"
| "cont_tag (K_copyMove tag verb move) = Some tag"
| "cont_tag (K_store c) = Some (st_tag c)"
| "cont_tag (K_expunge tag verb) = Some tag"
| "cont_tag (K_refresh t) = map_option fst t"
| "cont_tag (K_refreshSync t w d) = map_option fst t"
| "cont_tag (K_search c e n h u) = Some (se_tag c)"
| "cont_tag (K_sortThread c m n h d) = Some (se_tag c)"
| "cont_tag (K_status tag name w) = Some tag"
| "cont_tag (K_quota tag verb m) = Some tag"

fun pending_tag :: "imap_pending \<Rightarrow> string option" where
  "pending_tag (IP_auth t) = Some t"
| "pending_tag (IP_saslLine x) = Some (sl_tag x)"
| "pending_tag (IP_scramKeys x) = Some (sl_tag x)"
| "pending_tag (IP_backend k) = cont_tag k"

definition asks :: "imap_pending option \<Rightarrow> imap_action list \<Rightarrow> bool" where
  "asks p acts \<longleftrightarrow>
     (case p of
        None \<Rightarrow> filter is_ask acts = []
      | Some (IP_saslLine x) \<Rightarrow> filter is_ask acts = []
      | Some q \<Rightarrow> (\<exists>a. filter is_ask acts = [a] \<and> ask_for q a))"

definition answers :: "string option \<Rightarrow> imap \<Rightarrow> imap_action list \<Rightarrow> bool" where
  "answers t s acts \<longleftrightarrow>
     (case im_pending s of
        Some p \<Rightarrow> list_all untagged acts \<and> pending_tag p = t
      | None \<Rightarrow>
          (case t of
             None \<Rightarrow> list_all untagged acts
           | Some tag \<Rightarrow> im_answered tag acts \<or> list_all untagged acts \<and> im_idleTag s = Some tag))"

section \<open>Requests\<close>

definition on_view :: "imap \<Rightarrow> string \<Rightarrow> bool \<Rightarrow> nat list \<Rightarrow> bool" where
  "on_view s name write uids \<longleftrightarrow>
     (\<exists>v. im_selected s = Some v \<and> vw_name v = name \<and> (write \<longrightarrow> vw_readWrite v) \<and> set uids \<subseteq> set (vw_uids v))"

fun request_ok :: "imap \<Rightarrow> imap_request \<Rightarrow> bool" where
  "request_ok s (RQ_expungeMailbox n) \<longleftrightarrow> on_view s n True []"
| "request_ok s (RQ_fetchMessages n uids raw mark srt) \<longleftrightarrow> on_view s n mark uids"
| "request_ok s (RQ_storeFlags n uids mode flags since) \<longleftrightarrow> on_view s n True uids"
| "request_ok s (RQ_expunge n uids) \<longleftrightarrow> on_view s n True (case uids of Some us \<Rightarrow> us | None \<Rightarrow> [])"
| "request_ok s (RQ_replaceMessage n dest uid raw flags date) \<longleftrightarrow> on_view s n True [uid]"
| "request_ok s (RQ_copyMessages n dest uids) \<longleftrightarrow> on_view s n False uids"
| "request_ok s (RQ_moveMessages n dest uids) \<longleftrightarrow> on_view s n True uids"
| "request_ok s _ \<longleftrightarrow> True"

fun act_ok :: "imap_options \<Rightarrow> imap \<Rightarrow> imap_action \<Rightarrow> bool" where
  "act_ok opt s (IA_backend r) \<longleftrightarrow> im_state s \<noteq> NotAuthenticated \<and> request_ok s r"
| "act_ok opt s (IA_auth u p) \<longleftrightarrow> im_state s = NotAuthenticated \<and> imap_authAllowed opt s"
| "act_ok opt s (IA_scramKeys u) \<longleftrightarrow> im_state s = NotAuthenticated \<and> imap_authAllowed opt s"
| "act_ok opt s (IA_authVerified t u) \<longleftrightarrow> im_state s = NotAuthenticated \<and> imap_authAllowed opt s"
| "act_ok opt s IA_startTls \<longleftrightarrow> imap_starttlsOffered opt s"
| "act_ok opt s IA_startCompress \<longleftrightarrow> im_state s \<noteq> NotAuthenticated"
| "act_ok opt s _ \<longleftrightarrow> True"

fun cont_wf :: "imap \<Rightarrow> imap_cont \<Rightarrow> bool" where
  "cont_wf s (K_fetch c n) \<longleftrightarrow> on_view s (fc_name c) (fc_markSeen c) (map snd (fc_targets c))"
| "cont_wf s (K_vanished c r m) \<longleftrightarrow> on_view s (fc_name c) (fc_markSeen c) (map snd (fc_targets c))"
| "cont_wf s (K_search c e n h u) \<longleftrightarrow> on_view s (se_name c) False (se_uids c)"
| "cont_wf s (K_sortThread c m n h d) \<longleftrightarrow> on_view s (se_name c) False (se_uids c)"
| "cont_wf s _ \<longleftrightarrow> True"

section \<open>States\<close>

definition view_wf :: "imap \<Rightarrow> bool" where
  "view_wf s \<longleftrightarrow> (im_state s = Selected \<longleftrightarrow> im_selected s \<noteq> None)"

definition imap_wf :: "imap_options \<Rightarrow> imap \<Rightarrow> bool" where
  "imap_wf opt s \<longleftrightarrow>
     view_wf s \<and> (im_idleTag s \<noteq> None \<longrightarrow> im_state s \<noteq> NotAuthenticated) \<and>
     (case im_pending s of
        None \<Rightarrow> True
      | Some (IP_backend k) \<Rightarrow> im_state s \<noteq> NotAuthenticated \<and> cont_wf s k
      | Some (IP_scramKeys x) \<Rightarrow> im_state s = NotAuthenticated \<and> imap_authAllowed opt s \<and> sl_scram x \<noteq> None
      | Some _ \<Rightarrow> im_state s = NotAuthenticated \<and> imap_authAllowed opt s)"

text \<open>What handling a line keeps of the state.\<close>

definition im_frame :: "imap \<Rightarrow> imap \<Rightarrow> bool" where
  "im_frame s s' \<longleftrightarrow>
     im_secure s' = im_secure s \<and> im_reader s' = im_reader s \<and>
     (im_state s' = NotAuthenticated \<longleftrightarrow> im_state s = NotAuthenticated) \<and>
     (im_queued s' = im_queued s \<and> im_queuedBytes s' = im_queuedBytes s \<or> im_queued s' = [] \<and> im_queuedBytes s' = 0)"

text \<open>A change of the state inside a command: nothing is pending, and the view agrees with the state.\<close>

definition im_keeps :: "imap \<Rightarrow> imap \<Rightarrow> bool" where
  "im_keeps s s1 \<longleftrightarrow> im_frame s s1 \<and> view_wf s1 \<and> im_pending s1 = None \<and> im_idleTag s1 = im_idleTag s"

text \<open>A state in which a line is handled or a response resumed.\<close>

definition ready :: "imap \<Rightarrow> bool" where
  "ready s \<longleftrightarrow> view_wf s \<and> im_pending s = None \<and> (im_idleTag s \<noteq> None \<longrightarrow> im_state s \<noteq> NotAuthenticated)"

definition im_ok :: "imap_options \<Rightarrow> string option \<Rightarrow> imap \<Rightarrow> imap \<times> imap_action list \<Rightarrow> bool" where
  "im_ok opt t s r \<longleftrightarrow>
     im_frame s (fst r) \<and> imap_wf opt (fst r) \<and> list_all (act_ok opt s) (snd r) \<and>
     answers t (fst r) (snd r) \<and> asks (im_pending (fst r)) (snd r) \<and>
     (im_pending (fst r) \<noteq> None \<longrightarrow> im_idleTag (fst r) = im_idleTag s)"

lemma im_frame_refl [simp]: "im_frame s s"
  by (simp add: im_frame_def)

lemma keeps_refl: "ready s \<Longrightarrow> im_keeps s s"
  by (simp add: im_keeps_def ready_def)

lemma plain_untagged: "im_plain a \<Longrightarrow> untagged a"
  by (cases a) auto

lemma plain_not_ask: "im_plain a \<Longrightarrow> \<not> is_ask a"
  by (cases a) auto

lemma plain_act_ok: "im_plain a \<Longrightarrow> act_ok opt s a"
  by (cases a) auto

lemma plain_simps [simp]: "im_plain (starReply t)" "im_plain (flagsLine k)" "im_plain (existsReply u)" "im_plain (expungeReply i)"
  by (simp_all add: starReply_def flagsLine_def existsReply_def expungeReply_def)

lemma plain_all:
  "list_all im_plain as \<Longrightarrow> list_all untagged as" "list_all im_plain as \<Longrightarrow> list_all (act_ok opt s) as"
  "list_all im_plain as \<Longrightarrow> filter is_ask as = []"
  by (auto simp: list_all_iff plain_untagged plain_act_ok plain_not_ask filter_empty_conv)

lemma tagReply_simps [simp]: "\<not> is_ask (tagReply tag w t)" "act_ok opt s (tagReply tag w t)"
  by (simp_all add: tagReply_def)

lemma status_words [simp]: "''OK'' \<in> set STATUS_WORDS" "''NO'' \<in> set STATUS_WORDS" "''BAD'' \<in> set STATUS_WORDS"
  by (simp_all add: STATUS_WORDS_def)

lemma tagged_tagReply [simp]: "w \<in> set STATUS_WORDS \<Longrightarrow> tagged tag (tagReply tag w t)"
  by (auto simp: tagged_def)

lemma tagged_simps [simp]:
  "tagged tag (completed tag v)" "tagged tag (noReply tag v k m)" "tagged tag (failure tag v res)"
  "tagged tag (simpleResult tag v res)" "tagged tag (selectDone tag rw)"
  by (simp_all add: completed_def noReply_def failure_def simpleResult_def selectDone_def split: imap_response.split)

lemma tagged_plain: "tagged tag a \<Longrightarrow> \<not> is_ask a \<and> act_ok opt s a"
  by (auto simp: tagged_def)

section \<open>Rules\<close>

lemma ok_answer_with:
  assumes "im_keeps s s1" "ready s" "list_all im_plain pre" "tagged tag a" "list_all untagged post" "filter is_ask post = []"
    "list_all (act_ok opt s) post"
  shows "im_ok opt (Some tag) s (s1, pre @ a # post)"
proof -
  have "imap_wf opt s1" using assms(1,2) by (auto simp: im_keeps_def imap_wf_def ready_def im_frame_def)
  moreover have "im_answered tag (pre @ a # post)"
    unfolding im_answered_def using assms plain_all(1) by fastforce
  moreover have "im_pending s1 = None" "im_frame s s1" using assms(1) by (simp_all add: im_keeps_def)
  ultimately show ?thesis
    using assms(3-7) tagged_plain [OF assms(4)] plain_all [OF assms(3)] by (simp add: im_ok_def answers_def asks_def)
qed

lemma ok_answer:
  assumes "im_keeps s s1" "ready s" "list_all im_plain pre" "tagged tag a"
  shows "im_ok opt (Some tag) s (s1, pre @ [a])"
  using ok_answer_with [OF assms(1-4), of "[]"] by simp

lemma ok_reply:
  assumes "ready s" "tagged tag a"
  shows "im_ok opt (Some tag) s (s, [a])"
  using ok_answer [OF keeps_refl [OF assms(1)] assms(1), of "[]"] assms(2) by simp

lemma ok_reply_kept:
  assumes "im_keeps s s1" "ready s" "tagged tag a"
  shows "im_ok opt (Some tag) s (s1, [a])"
  using ok_answer [OF assms(1,2), of "[]"] assms(3) by simp

lemma ok_two:
  assumes "ready s" "im_plain b" "tagged tag a"
  shows "im_ok opt (Some tag) s (s, [b, a])"
  using ok_answer [OF keeps_refl [OF assms(1)] assms(1), of "[b]"] assms(2,3) by simp

lemma ok_silent:
  assumes "im_keeps s s1" "ready s" "list_all im_plain acts"
  shows "im_ok opt None s (s1, acts)"
  using assms plain_all [OF assms(3)]
  by (auto simp: im_ok_def answers_def asks_def imap_wf_def im_keeps_def ready_def im_frame_def)

lemma cont_wf_frame [simp]:
  "cont_wf (s\<lparr>im_pending := p\<rparr>) k = cont_wf s k" "cont_wf (s\<lparr>im_queued := q\<rparr>) k = cont_wf s k"
  "cont_wf (s\<lparr>im_queuedBytes := b\<rparr>) k = cont_wf s k" "cont_wf (s\<lparr>im_reader := r\<rparr>) k = cont_wf s k"
  "cont_wf (s\<lparr>im_closed := x\<rparr>) k = cont_wf s k" "cont_wf (s\<lparr>im_enabled := e\<rparr>) k = cont_wf s k"
  by (cases k; simp add: on_view_def)+

lemma view_wf_frame [simp]:
  "view_wf (s\<lparr>im_pending := p\<rparr>) = view_wf s" "view_wf (s\<lparr>im_queued := q\<rparr>) = view_wf s"
  "view_wf (s\<lparr>im_queuedBytes := b\<rparr>) = view_wf s" "view_wf (s\<lparr>im_reader := r\<rparr>) = view_wf s"
  "view_wf (s\<lparr>im_closed := x\<rparr>) = view_wf s" "view_wf (s\<lparr>im_enabled := e\<rparr>) = view_wf s"
  "view_wf (s\<lparr>im_savedSearch := g\<rparr>) = view_wf s" "view_wf (s\<lparr>im_compressed := x\<rparr>) = view_wf s"
  "view_wf (s\<lparr>im_idleTag := i\<rparr>) = view_wf s"
  by (simp_all add: view_wf_def)

lemma ok_backend_with:
  assumes "im_keeps s s1" "ready s" "im_state s \<noteq> NotAuthenticated" "list_all im_plain pre" "request_ok s r" "cont_tag k = t" "cont_wf s1 k"
  shows "im_ok opt t s (case callBackend r k s1 of (s2, a) \<Rightarrow> (s2, pre @ a))"
  using assms plain_all [OF assms(4)]
  by (auto simp: im_ok_def callBackend_def answers_def asks_def imap_wf_def im_keeps_def ready_def im_frame_def)

lemma ok_backend_kept:
  assumes "im_keeps s s1" "ready s" "im_state s \<noteq> NotAuthenticated" "request_ok s r" "cont_tag k = t" "cont_wf s1 k"
  shows "im_ok opt t s (callBackend r k s1)"
  using ok_backend_with [OF assms(1-3), of "[]" r k t] assms(4-) by (simp add: callBackend_def)

lemma ok_backend:
  assumes "ready s" "im_state s \<noteq> NotAuthenticated" "request_ok s r" "cont_tag k = t" "cont_wf s k"
  shows "im_ok opt t s (callBackend r k s)"
  using ok_backend_kept [OF keeps_refl] assms by blast

lemma ok_login:
  assumes "ready s" "im_state s = NotAuthenticated" "imap_authAllowed opt s" "is_ask a" "\<forall>r. a \<noteq> IA_backend r" "ask_for p a"
    "pending_tag p = Some tag" "\<forall>x. p = IP_scramKeys x \<longrightarrow> sl_scram x \<noteq> None"
  shows "im_ok opt (Some tag) s (s\<lparr>im_pending := Some p\<rparr>, [a])"
  using assms
  by (cases p; cases a)
    (auto simp: im_ok_def answers_def asks_def imap_wf_def ready_def im_frame_def imap_authAllowed_def)

lemma ok_challenge:
  assumes "ready s" "im_state s = NotAuthenticated" "imap_authAllowed opt s" "im_plain a" "sl_tag x = tag"
  shows "im_ok opt (Some tag) s (s\<lparr>im_pending := Some (IP_saslLine x)\<rparr>, [a])"
  using assms plain_untagged plain_not_ask plain_act_ok
  by (auto simp: im_ok_def answers_def asks_def imap_wf_def ready_def im_frame_def imap_authAllowed_def)

end
