(* ===== verification/ImapHandlers.thy ===== *)
theory ImapHandlers
  imports ImapLaws
begin

text \<open>Every command of the IMAP engine does only what \<open>im_ok\<close> allows.\<close>

section \<open>Commands on mailboxes\<close>

lemmas mailbox_rules = ok_reply ok_two ok_backend

lemma cmdGetAcl_ok: "ready s \<Longrightarrow> im_state s \<noteq> NotAuthenticated \<Longrightarrow> im_ok opt (Some (pc_tag cmd)) s (cmdGetAcl cmd s)"
  by (auto simp: cmdGetAcl_def intro: mailbox_rules split: option.split)

lemma cmdSetAcl_ok: "ready s \<Longrightarrow> im_state s \<noteq> NotAuthenticated \<Longrightarrow> im_ok opt (Some (pc_tag cmd)) s (cmdSetAcl cmd s)"
  by (auto simp: cmdSetAcl_def intro: mailbox_rules split: option.split)

lemma cmdDeleteAcl_ok: "ready s \<Longrightarrow> im_state s \<noteq> NotAuthenticated \<Longrightarrow> im_ok opt (Some (pc_tag cmd)) s (cmdDeleteAcl cmd s)"
  by (auto simp: cmdDeleteAcl_def intro: mailbox_rules split: option.split)

lemma cmdListRights_ok: "ready s \<Longrightarrow> im_state s \<noteq> NotAuthenticated \<Longrightarrow> im_ok opt (Some (pc_tag cmd)) s (cmdListRights cmd s)"
  by (auto simp: cmdListRights_def intro: mailbox_rules split: option.split)

lemma cmdMyRights_ok: "ready s \<Longrightarrow> im_state s \<noteq> NotAuthenticated \<Longrightarrow> im_ok opt (Some (pc_tag cmd)) s (cmdMyRights cmd s)"
  by (auto simp: cmdMyRights_def intro: mailbox_rules split: option.split)

lemma cmdList_ok: "ready s \<Longrightarrow> im_state s \<noteq> NotAuthenticated \<Longrightarrow> im_ok opt (Some (pc_tag cmd)) s (imap_cmdList cmd verb s)"
  by (auto simp: imap_cmdList_def Let_def statusListRequest_def intro: mailbox_rules split: option.split sum.split prod.split)

lemma cmdSubscribe_ok: "ready s \<Longrightarrow> im_state s \<noteq> NotAuthenticated \<Longrightarrow> im_ok opt (Some (pc_tag cmd)) s (cmdSubscribe cmd s)"
  by (auto simp: cmdSubscribe_def intro: mailbox_rules split: option.split)

lemma cmdCreate_ok: "ready s \<Longrightarrow> im_state s \<noteq> NotAuthenticated \<Longrightarrow> im_ok opt (Some (pc_tag cmd)) s (cmdCreate cmd s)"
  by (auto simp: cmdCreate_def Let_def intro: mailbox_rules split: option.split)

lemma cmdDelete_ok: "ready s \<Longrightarrow> im_state s \<noteq> NotAuthenticated \<Longrightarrow> im_ok opt (Some (pc_tag cmd)) s (cmdDelete cmd s)"
  by (auto simp: cmdDelete_def intro: mailbox_rules split: option.split)

lemma cmdRename_ok: "ready s \<Longrightarrow> im_state s \<noteq> NotAuthenticated \<Longrightarrow> im_ok opt (Some (pc_tag cmd)) s (cmdRename cmd s)"
  by (auto simp: cmdRename_def intro: mailbox_rules split: option.split)

lemma cmdStatus_ok: "ready s \<Longrightarrow> im_state s \<noteq> NotAuthenticated \<Longrightarrow> im_ok opt (Some (pc_tag cmd)) s (cmdStatus cmd s)"
  by (auto simp: cmdStatus_def statusListRequest_def intro: mailbox_rules split: option.split imap_value.split sum.split)

lemma cmdGetQuota_ok: "ready s \<Longrightarrow> im_state s \<noteq> NotAuthenticated \<Longrightarrow> im_ok opt (Some (pc_tag cmd)) s (cmdGetQuota cmd verb s)"
  by (auto simp: cmdGetQuota_def intro: mailbox_rules split: option.split)

lemma cmdSetQuota_ok: "ready s \<Longrightarrow> im_ok opt (Some (pc_tag cmd)) s (cmdSetQuota cmd s)"
  by (auto simp: cmdSetQuota_def intro: mailbox_rules)

lemma cmdNamespace_ok: "ready s \<Longrightarrow> im_ok opt (Some (pc_tag cmd)) s (cmdNamespace cmd s)"
  by (auto simp: cmdNamespace_def intro: mailbox_rules)

lemma cmdAppend_ok:
  assumes "ready s" "im_state s \<noteq> NotAuthenticated"
  shows "im_ok opt (Some (pc_tag cmd)) s (cmdAppend cmd s)"
proof -
  have "messageArgs v vs = Inl (w, e) \<Longrightarrow> w \<in> set STATUS_WORDS" for v vs w e
    by (auto simp: messageArgs_def messageLiteral_def Let_def split: list.splits imap_value.splits option.splits if_splits prod.splits)
  then have "appendItems vs = Inl (w, e) \<Longrightarrow> w \<in> set STATUS_WORDS" for vs w e
    by (induction vs rule: appendItems.induct) (subst (asm) appendItems.simps, auto split: if_splits sum.splits)
  with assms show ?thesis
    by (auto simp: cmdAppend_def intro: mailbox_rules split: option.split sum.split list.split)
qed

section \<open>Selecting\<close>

lemma keeps_enabled: "ready s \<Longrightarrow> im_keeps s (s\<lparr>im_enabled := e\<rparr>)"
  by (simp add: im_keeps_def ready_def im_frame_def)

lemma keeps_saved: "ready s \<Longrightarrow> im_keeps s (s\<lparr>im_savedSearch := g\<rparr>)"
  by (simp add: im_keeps_def ready_def im_frame_def)

lemma im_keeps_leave: "ready s \<Longrightarrow> im_state s \<noteq> NotAuthenticated \<Longrightarrow> im_keeps s (leaveSelected s)"
  by (simp add: im_keeps_def ready_def im_frame_def leaveSelected_def view_wf_def)

lemma keeps_trans: "im_keeps s s1 \<Longrightarrow> im_keeps s1 s2 \<Longrightarrow> im_keeps s s2"
  by (auto simp: im_keeps_def im_frame_def)

lemma keeps_ready: "im_keeps s s1 \<Longrightarrow> ready s \<Longrightarrow> ready s1"
  by (auto simp: im_keeps_def ready_def im_frame_def)

lemma keeps_state: "im_keeps s s1 \<Longrightarrow> im_state s1 = NotAuthenticated \<longleftrightarrow> im_state s = NotAuthenticated"
  by (simp add: im_keeps_def im_frame_def)

lemma cmdSelect_ok:
  assumes "ready s" "im_state s \<noteq> NotAuthenticated"
  shows "im_ok opt (Some (pc_tag cmd)) s (cmdSelect cmd rw s)"
proof -
  have "im_keeps s (leaveSelected (s\<lparr>im_enabled := e\<rparr>))" for e
    using keeps_trans [OF keeps_enabled [OF assms(1)] im_keeps_leave [OF keeps_ready [OF keeps_enabled [OF assms(1)] assms(1)]]]
      assms(2) by simp
  then show ?thesis
    using assms im_keeps_leave [OF assms] keeps_enabled [OF assms(1)]
    by (auto simp: cmdSelect_def Let_def intro: ok_reply ok_reply_kept ok_backend_kept
        split: option.split imap_value.split prod.split sum.split)
qed

lemma cmdClose_ok:
  assumes "ready s" "im_state s \<noteq> NotAuthenticated"
  shows "im_ok opt (Some (pc_tag cmd)) s (cmdClose cmd s)"
  using assms im_keeps_leave [OF assms]
  by (auto simp: cmdClose_def notSelected_def on_view_def intro: ok_reply ok_reply_kept ok_backend_kept split: option.split)

lemma cmdUnselect_ok: "ready s \<Longrightarrow> im_state s \<noteq> NotAuthenticated \<Longrightarrow> im_ok opt (Some (pc_tag cmd)) s (cmdUnselect cmd s)"
  by (auto simp: cmdUnselect_def intro: ok_reply_kept im_keeps_leave)

lemma refresh_ok:
  assumes "ready s" "im_state s \<noteq> NotAuthenticated"
  shows "im_ok opt (map_option fst t) s (refreshSelected t s)"
  using assms keeps_refl [OF assms(1)]
  by (auto simp: refreshSelected_def taggedOk_def intro: ok_reply ok_backend ok_silent split: option.split)

lemma cmdNoop_ok: "ready s \<Longrightarrow> im_ok opt (Some (pc_tag cmd)) s (cmdNoop cmd s)"
  using refresh_ok [of s opt "Some (pc_tag cmd, pc_name cmd)"] by (auto simp: cmdNoop_def intro: ok_reply)

section \<open>Commands on messages\<close>

lemma resolveTargets_view:
  "im_selected s = Some v \<Longrightarrow> set (map snd (resolveTargets ranges uidMode s)) \<subseteq> set (vw_uids v)"
  by (auto simp: resolveTargets_def Let_def dest: set_zip_rightD)

lemma targets_on_view:
  "im_selected s = Some v \<Longrightarrow> (w \<longrightarrow> vw_readWrite v) \<Longrightarrow> on_view s (vw_name v) w (map snd (resolveTargets ranges uidMode s))"
  using resolveTargets_view [of s v ranges uidMode] by (auto simp: on_view_def)

lemma fetchAll_ok:
  assumes "im_keeps s s1" "ready s" "im_state s \<noteq> NotAuthenticated" "on_view s (fc_name c) (fc_markSeen c) (map snd (fc_targets c))"
    "cont_wf s1 (K_fetch c 0)"
  shows "im_ok opt (Some (fc_tag c)) s (fetchAll c s1)"
proof -
  have "on_view s (fc_name c) (fc_markSeen c) (map snd (take n (fc_targets c)))" for n
    using assms(4) set_take_subset [of n "map snd (fc_targets c)"] by (auto simp: on_view_def take_map)
  then show ?thesis using assms by (auto simp: fetchAll_def fetchFrom_def intro: ok_reply_kept ok_backend_kept)
qed

lemma cmdFetch_ok:
  assumes "ready s" "im_state s \<noteq> NotAuthenticated"
  shows "im_ok opt (Some (pc_tag cmd)) s (cmdFetch cmd uidMode s)"
proof (cases "im_selected s")
  case (Some v)
  define s1 where "s1 = (if hasModifiers (drop 1 (pc_args cmd)) then s\<lparr>im_enabled := js_set_add ''CONDSTORE'' (im_enabled s)\<rparr> else s)"
  have k: "im_keeps s s1" and v: "on_view s1 n w u = on_view s n w u" for n w u
    using keeps_enabled [OF assms(1)] keeps_refl [OF assms(1)] by (simp_all add: s1_def on_view_def)
  have o: "on_view s (fc_name c) (fc_markSeen c) (map snd (fc_targets c))"
    if "fc_name c = vw_name v" "fc_markSeen c = (vw_readWrite v \<and> x)" "fc_targets c = resolveTargets ranges uidMode s"
    for c x ranges
    using that targets_on_view [OF Some] by simp
  have f: "im_ok opt (Some (pc_tag cmd)) s (fetchAll c s1)"
    "im_ok opt (Some (pc_tag cmd)) s (callBackend (RQ_syncSince n m q True) (K_vanished c r u) s1)"
    if "fc_tag c = pc_tag cmd" "fc_name c = vw_name v" "fc_markSeen c = (vw_readWrite v \<and> x)" "fc_targets c = resolveTargets ranges uidMode s"
    for c x ranges n m q r u
    using fetchAll_ok [OF k assms o [OF that(2-4)]] that(1) ok_backend_kept [OF k assms] o [OF that(2-4)] by (simp_all add: v)
  show ?thesis
    using Some f ok_reply [OF assms(1)] ok_reply_kept [OF k assms(1)]
    by (cases "hasModifiers (drop 1 (pc_args cmd))")
      (simp_all add: cmdFetch_def s1_def Let_def split: option.split sum.split prod.split)
qed (use assms in \<open>simp add: cmdFetch_def notSelected_def ok_reply\<close>)

lemma cmdReplace_ok:
  assumes "ready s" "im_state s \<noteq> NotAuthenticated"
  shows "im_ok opt (Some (pc_tag cmd)) s (cmdReplace cmd uidMode s)"
proof -
  have "messageArgs v vs = Inl (w, e) \<Longrightarrow> w \<in> set STATUS_WORDS" for v vs w e
    by (auto simp: messageArgs_def messageLiteral_def Let_def split: list.splits imap_value.splits option.splits if_splits prod.splits)
  moreover have "on_view s (vw_name v) True [uid]"
    if "im_selected s = Some v" "vw_readWrite v" "resolveTargets ranges uidMode s = [(n, uid)]" for v ranges n uid
    using that resolveTargets_view [of s v ranges uidMode] by (simp add: on_view_def)
  ultimately show ?thesis
    using assms
    by (auto simp: cmdReplace_def Let_def notSelected_def readOnly_def intro!: ok_reply ok_backend
        split: option.split sum.split list.split prod.split)
qed

lemma cmdCopyMove_ok:
  assumes "ready s" "im_state s \<noteq> NotAuthenticated"
  shows "im_ok opt (Some (pc_tag cmd)) s (cmdCopyMove cmd uidMode move s)"
  using assms resolveTargets_view [of s]
  by (auto simp: cmdCopyMove_def Let_def notSelected_def readOnly_def on_view_def intro!: ok_reply ok_backend split: option.split)

lemma cmdStore_ok:
  assumes "ready s" "im_state s \<noteq> NotAuthenticated"
  shows "im_ok opt (Some (pc_tag cmd)) s (cmdStore cmd uidMode s)"
proof -
  note k = keeps_enabled [OF assms(1)]
  note rules = ok_reply_kept [OF k assms(1)] ok_reply [OF assms(1)] ok_backend_kept [OF k assms] ok_backend [OF assms]
  show ?thesis
  proof (cases "im_selected s")
    case (Some v)
    then show ?thesis
      using targets_on_view [OF Some, of True]
      by (simp add: cmdStore_def Let_def readOnly_def rules del: map_map split: option.split prod.split)
  qed (simp add: cmdStore_def notSelected_def rules)
qed

lemma cmdExpunge_ok:
  assumes "ready s" "im_state s \<noteq> NotAuthenticated"
  shows "im_ok opt (Some (pc_tag cmd)) s (cmdExpunge cmd ranges s)"
proof -
  have "on_view s (vw_name v) True (case map_option (\<lambda>r. map snd (resolveTargets r True s)) ranges of Some us \<Rightarrow> us | None \<Rightarrow> [])"
    if "im_selected s = Some v" "vw_readWrite v" for v
    using that targets_on_view [OF that(1), of True] by (cases ranges) (auto simp: on_view_def)
  then show ?thesis
    using assms by (auto simp: cmdExpunge_def Let_def notSelected_def readOnly_def intro!: ok_reply ok_backend split: option.split)
qed

section \<open>Searching\<close>

lemma searchReply_plain: "list_all im_plain (searchReply tag uidMode es hits)"
  by (simp add: searchReply_def split: option.split)

lemma keeps_saveResult: "ready s \<Longrightarrow> im_keeps s (saveResult es u s)"
  by (simp add: saveResult_def keeps_refl keeps_saved split: option.split)

lemma badSearch_ok: "ready s \<Longrightarrow> im_ok opt (Some (pc_tag cmd)) s (s, badSearch cmd verb b)"
  by (simp add: badSearch_def ok_reply)

lemma searchFrom_ok:
  assumes "ready s" "im_state s \<noteq> NotAuthenticated" "on_view s (se_name c) False (se_uids c)"
  shows "im_ok opt (Some (se_tag c)) s (searchFrom c es n h u s)" "im_ok opt (Some (se_tag c)) s (sortFrom c m n g d s)"
proof -
  have "on_view s (se_name c) False (take k (drop n (se_uids c)))" for k
    using assms(3) set_take_subset set_drop_subset by (fastforce simp: on_view_def)
  then show "im_ok opt (Some (se_tag c)) s (searchFrom c es n h u s)" "im_ok opt (Some (se_tag c)) s (sortFrom c m n g d s)"
    using assms by (auto simp: searchFrom_def sortFrom_def Let_def intro!: ok_backend)
qed

lemma cmdSearch_ok:
  assumes "ready s" "im_state s \<noteq> NotAuthenticated"
  shows "im_ok opt (Some (pc_tag cmd)) s (cmdSearch cmd uidMode s)"
proof (cases "im_selected s")
  case (Some v)
  have f: "im_ok opt (Some (se_tag c)) s (searchFrom c es n h u s)" if "se_name c = vw_name v" "se_uids c = vw_uids v" for c es n h u
    using searchFrom_ok(1) [OF assms] that Some by (simp add: on_view_def)
  then show ?thesis
    using Some f [of "\<lparr>se_tag = pc_tag cmd, se_verb = _, se_uidMode = _, se_name = _, se_key = _, se_uids = _\<rparr>"]
      ok_reply [OF assms(1)] ok_answer [OF keeps_saveResult [OF assms(1)] assms(1) searchReply_plain] badSearch_ok [OF assms(1)]
    by (simp add: cmdSearch_def Let_def parseSearchProgram_total split: option.split prod.split search_parse.split)
qed (use assms in \<open>simp add: cmdSearch_def notSelected_def ok_reply\<close>)

lemma cmdSortThread_ok:
  assumes "ready s" "im_state s \<noteq> NotAuthenticated"
  shows "im_ok opt (Some (pc_tag cmd)) s (cmdSortThread cmd uidMode thread s)"
proof (cases "im_selected s")
  case (Some v)
  have f: "im_ok opt (Some (se_tag c)) s (sortFrom c m n h u s)" if "se_name c = vw_name v" "se_uids c = vw_uids v" for c m n h u
    using searchFrom_ok(2) [OF assms] that Some by (simp add: on_view_def)
  then show ?thesis
    using Some f [of "\<lparr>se_tag = pc_tag cmd, se_verb = _, se_uidMode = _, se_name = _, se_key = _, se_uids = _\<rparr>"]
      ok_reply [OF assms(1)] ok_two [OF assms(1)] badSearch_ok [OF assms(1)]
    by (simp add: cmdSortThread_def Let_def parseSearchProgram_total split: option.split sum.split search_parse.split)
qed (use assms in \<open>simp add: cmdSortThread_def notSelected_def ok_reply\<close>)

section \<open>Authentication\<close>

definition may_login :: "imap_options \<Rightarrow> imap \<Rightarrow> bool" where
  "may_login opt s \<longleftrightarrow> ready s \<and> im_state s = NotAuthenticated \<and> imap_authAllowed opt s"

lemma login_rules:
  assumes "may_login opt s"
  shows "im_ok opt (Some tag) s (s\<lparr>im_pending := Some (IP_auth tag)\<rparr>, [IA_auth u p])"
    "im_ok opt (Some tag) s (s\<lparr>im_pending := Some (IP_auth tag)\<rparr>, [IA_authVerified tag u])"
    "sl_tag x = tag \<Longrightarrow> sl_scram x \<noteq> None \<Longrightarrow> im_ok opt (Some tag) s (s\<lparr>im_pending := Some (IP_scramKeys x)\<rparr>, [IA_scramKeys u])"
    "sl_tag x = tag \<Longrightarrow> im_plain a \<Longrightarrow> im_ok opt (Some tag) s (s\<lparr>im_pending := Some (IP_saslLine x)\<rparr>, [a])"
    "tagged tag b \<Longrightarrow> im_ok opt (Some tag) s (s, [b])"
    "im_ok opt (Some tag) s (s, imap_scramFailed tag step)"
  using assms unfolding may_login_def
  by (auto intro!: ok_login ok_challenge ok_reply simp: imap_scramFailed_def intro: ok_two)

lemma handleScramData_ok:
  assumes "may_login opt s"
  shows "im_ok opt (Some (sl_tag sasl)) s (imap_handleScramData c rnd sasl sc d s)"
  using login_rules [OF assms]
  by (simp add: imap_handleScramData_def verified_def imap_challenge_def split: imap_stage.split prod.split scram_step.split)

lemma handleSaslData_ok:
  assumes "may_login opt s"
  shows "im_ok opt (Some (sl_tag sasl)) s (imap_handleSaslData c rnd sasl d s)"
  using login_rules [OF assms] handleScramData_ok [OF assms]
  by (simp add: imap_handleSaslData_def handleCredentials_def verified_def split: option.split prod.split)

lemma cmdAuthenticate_ok:
  assumes "ready s"
  shows "im_ok opt (Some (pc_tag cmd)) s (imap_cmdAuthenticate c opt rnd cmd s)"
proof (cases "may_login opt s")
  case True
  have "im_ok opt (Some (pc_tag cmd)) s (imap_handleSaslData c rnd sasl d s)" if "sl_tag sasl = pc_tag cmd" for sasl d
    using handleSaslData_ok [OF True, of sasl] that by simp
  then show ?thesis
    using login_rules [OF True] by (simp add: imap_cmdAuthenticate_def Let_def split: option.split)
next
  case False
  with assms show ?thesis by (auto simp: imap_cmdAuthenticate_def may_login_def intro: ok_reply)
qed

lemma cmdLogin_ok:
  assumes "ready s"
  shows "im_ok opt (Some (pc_tag cmd)) s (cmdLogin opt cmd s)"
proof (cases "may_login opt s")
  case True
  then show ?thesis using login_rules [OF True] by (simp add: cmdLogin_def split: option.split)
next
  case False
  with assms show ?thesis by (auto simp: cmdLogin_def may_login_def intro: ok_reply)
qed

section \<open>Dispatch\<close>

lemma small_commands_ok:
  assumes "ready s"
  shows "im_ok opt (Some (pc_tag cmd)) s (cmdCapability opt cmd s)" "im_ok opt (Some (pc_tag cmd)) s (cmdId cmd s)"
    "im_ok opt (Some (pc_tag cmd)) s (cmdLogout opt cmd s)" "im_ok opt (Some (pc_tag cmd)) s (imap_cmdStartTls opt cmd s)"
    "im_ok opt (Some (pc_tag cmd)) s (cmdCompress cmd s)" "im_ok opt (Some (pc_tag cmd)) s (cmdEnable cmd s)"
proof -
  have c: "im_keeps s (s\<lparr>im_closed := True\<rparr>)" "im_keeps s (s\<lparr>im_compressed := True\<rparr>)"
    "im_keeps s (s\<lparr>im_awaitingTls := True, im_queued := [], im_queuedBytes := 0\<rparr>)"
    using assms by (simp_all add: im_keeps_def ready_def im_frame_def view_wf_def)
  show "im_ok opt (Some (pc_tag cmd)) s (cmdCapability opt cmd s)" "im_ok opt (Some (pc_tag cmd)) s (cmdId cmd s)"
    using assms by (simp_all add: cmdCapability_def cmdId_def ok_two)
  show "im_ok opt (Some (pc_tag cmd)) s (cmdLogout opt cmd s)"
    using ok_answer_with [OF c(1) assms, of "[_]" _ _ "[IA_close]"] by (simp add: cmdLogout_def)
  show "im_ok opt (Some (pc_tag cmd)) s (imap_cmdStartTls opt cmd s)"
    using ok_answer_with [OF c(3) assms, of "[]" _ _ "[IA_startTls]"] ok_reply [OF assms]
    by (simp add: imap_cmdStartTls_def imap_starttlsOffered_def)
  show "im_ok opt (Some (pc_tag cmd)) s (cmdCompress cmd s)"
    using ok_answer_with [OF c(2) assms, of "[]" _ _ "[IA_startCompress]"] ok_reply [OF assms] by (simp add: cmdCompress_def)
  show "im_ok opt (Some (pc_tag cmd)) s (cmdEnable cmd s)"
    using ok_answer [OF keeps_enabled [OF assms] assms, of "[_]"] ok_reply [OF assms]
    by (simp add: cmdEnable_def split: prod.split)
qed

lemma cmdIdle_ok:
  assumes "ready s" "im_state s \<noteq> NotAuthenticated"
  shows "im_ok opt (Some (pc_tag cmd)) s (cmdIdle cmd s)"
  using assms by (simp add: cmdIdle_def im_ok_def im_frame_def imap_wf_def answers_def asks_def ready_def)

lemma requireAuth_ok:
  assumes "ready s" "im_state s \<noteq> NotAuthenticated \<Longrightarrow> im_ok opt (Some (pc_tag cmd)) s (f cmd s)"
  shows "im_ok opt (Some (pc_tag cmd)) s (requireAuth f cmd s)"
  using assms by (simp add: requireAuth_def ok_reply)

lemma requireSelected_ok:
  assumes "ready s" "im_state s \<noteq> NotAuthenticated \<Longrightarrow> im_ok opt (Some (pc_tag cmd)) s (f cmd s)"
  shows "im_ok opt (Some (pc_tag cmd)) s (requireSelected f cmd s)"
  using assms by (auto simp: requireSelected_def notSelected_def ok_reply)

lemma cmdUid_ok:
  assumes "ready s"
  shows "im_ok opt (Some (pc_tag cmd)) s (cmdUid cmd s)"
proof -
  have e: "im_ok opt (Some (pc_tag r)) s (cmdUidExpunge r s)" for r
    using assms by (simp add: cmdUidExpunge_def ok_reply requireSelected_ok cmdExpunge_ok split: option.split)
  have "list_all (\<lambda>(n, f). \<forall>r. im_ok opt (Some (pc_tag r)) s (f r s)) UID_COMMANDS"
    using assms e
    by (simp add: UID_COMMANDS_def requireSelected_ok cmdFetch_ok cmdStore_ok cmdSearch_ok cmdSortThread_ok cmdCopyMove_ok cmdReplace_ok)
  then have "map_of UID_COMMANDS n = Some f \<Longrightarrow> im_ok opt (Some (pc_tag r)) s (f r s)" for n f r
    by (auto simp: list_all_iff dest!: map_of_SomeD)
  then have "map_of UID_COMMANDS n = Some f \<Longrightarrow>
      im_ok opt (Some (pc_tag cmd)) s (f \<lparr>pc_tag = pc_tag cmd, pc_name = x, pc_args = y\<rparr> s)" for n f x y
    by (metis parsed_command.select_convs(1))
  then show ?thesis
    using assms by (simp add: cmdUid_def Let_def ok_reply split: option.split bind_split)
qed

lemma imap_dispatch_ok:
  assumes "ready s"
  shows "im_ok opt (Some (pc_tag cmd)) s (imap_dispatch c opt rnd cmd s)"
proof -
  have "list_all (\<lambda>(n, f). \<forall>r. im_ok opt (Some (pc_tag r)) s (f r s)) (imap_commands c opt rnd)"
    using assms
    by (simp add: imap_commands_def requireAuth_ok requireSelected_ok small_commands_ok cmdNoop_ok cmdLogin_ok cmdAuthenticate_ok
        cmdGetQuota_ok cmdSetQuota_ok cmdNamespace_ok cmdList_ok cmdSubscribe_ok cmdCreate_ok cmdDelete_ok cmdRename_ok cmdGetAcl_ok
        cmdSetAcl_ok cmdDeleteAcl_ok cmdListRights_ok cmdMyRights_ok cmdStatus_ok cmdSelect_ok cmdUnselect_ok cmdClose_ok cmdFetch_ok
        cmdStore_ok cmdSearch_ok cmdSortThread_ok cmdExpunge_ok cmdAppend_ok cmdReplace_ok cmdCopyMove_ok cmdIdle_ok cmdUid_ok)
  then show ?thesis
    using assms by (auto simp: imap_dispatch_def list_all_iff ok_reply split: option.split dest!: map_of_SomeD)
qed

end
