(* ===== verification/ImapResume.thy ===== *)
theory ImapResume
  imports ImapHandlers
begin

text \<open>
  What a response of the backend resumes does only what \<open>im_ok\<close> allows, and a command asks the backend a bounded
  number of times: \<open>rounds\<close> is how many responses a continuation may still take.
\<close>

section \<open>Talking about the view\<close>

definition talks :: "imap \<Rightarrow> imap \<times> imap_action list \<Rightarrow> bool" where
  "talks s r \<longleftrightarrow> im_keeps s (fst r) \<and> list_all im_plain (snd r)"

definition same_view :: "imap \<Rightarrow> imap \<Rightarrow> bool" where
  "same_view s s1 \<longleftrightarrow> (\<forall>n w u. on_view s1 n w u = on_view s n w u)"

lemma talks_append: "talks s (s1, a) \<Longrightarrow> talks s1 (s2, b) \<Longrightarrow> talks s (s2, a @ b)"
  by (auto simp: talks_def intro: keeps_trans)

lemma keeps_view: "ready s \<Longrightarrow> im_selected s \<noteq> None \<Longrightarrow> im_keeps s (s\<lparr>im_selected := Some v\<rparr>)"
  by (auto simp: im_keeps_def ready_def im_frame_def view_wf_def)

lemma ensureFlags_talks: "ready s \<Longrightarrow> talks s (ensureFlagsAnnounced flags s)"
  by (simp add: ensureFlagsAnnounced_def talks_def Let_def keeps_refl keeps_view split: option.split)

lemma ensureFlags_view: "same_view s (fst (ensureFlagsAnnounced flags s))"
  by (simp add: ensureFlagsAnnounced_def same_view_def on_view_def Let_def split: option.split)

lemma removal_talks: "ready s \<Longrightarrow> talks s (removalActions uids s)"
  by (simp add: removalActions_def talks_def Let_def keeps_refl keeps_view list_all_iff split: option.split)

lemma syncKeywords_talks: "ready s \<Longrightarrow> talks s (syncKeywordList d e s)"
  by (simp add: syncKeywordList_def talks_def Let_def keeps_refl keeps_view split: option.split)

lemma refreshView_talks:
  assumes "ready s"
  shows "talks s (refreshView m uids s)"
proof (cases "im_selected s")
  case (Some v)
  obtain s1 a1 where r: "removalActions (filter (\<lambda>u. u \<notin> set uids) (vw_uids v)) s = (s1, a1)" by force
  have t: "talks s (s1, a1)" using removal_talks [OF assms] r by metis
  then have k: "ready s1" using keeps_ready assms by (auto simp: talks_def)
  have "talks s1 (s1\<lparr>im_selected := Some w\<rparr>, b)" if "im_selected s1 \<noteq> None" "list_all im_plain b" for w b
    using keeps_view [OF k that(1)] that(2) by (simp add: talks_def)
  then have "im_selected s1 \<noteq> None \<Longrightarrow> talks s (s1\<lparr>im_selected := Some w\<rparr>, a1 @ b)" if "list_all im_plain b" for w b
    using talks_append [OF t] that by blast
  from this [of "[]"] this [of "[_]"] show ?thesis
    using Some r t by (auto simp: refreshView_def Let_def split: option.split)
qed (use assms in \<open>simp add: refreshView_def talks_def keeps_refl\<close>)

lemma changedLines_talks: "ready s \<Longrightarrow> talks s (changedLines w cs s)"
proof (induction w cs s rule: changedLines.induct)
  case (2 w uid flags modseq cs s)
  obtain s1 a1 where e: "ensureFlagsAnnounced flags s = (s1, a1)" by force
  have t: "talks s (s1, a1)" using ensureFlags_talks [OF 2(4)] e by metis
  then have r: "ready s1" using keeps_ready 2(4) by (auto simp: talks_def)
  obtain s2 a2 where c: "changedLines w cs s1 = (s2, a2)" by force
  have "im_selected s = Some v \<Longrightarrow> indexOf uid (vw_uids v) = Some i \<Longrightarrow> talks s1 (s2, starReply x # a2)" for v i x
    using 2(3) [OF _ _ e [symmetric] refl r] c by (simp add: talks_def)
  then have "im_selected s = Some v \<Longrightarrow> indexOf uid (vw_uids v) = Some i \<Longrightarrow> talks s (s2, a1 @ starReply x # a2)" for v i x
    using talks_append [OF t] by blast
  then show ?case using 2(1,2,4) e c by (auto split: option.split)
qed (simp add: talks_def keeps_refl)

lemma storeLines_talks: "ready s \<Longrightarrow> talks s (storeLines c b us s)"
proof (induction c b us s rule: storeLines.induct)
  case (2 c b uid flags modseq us s)
  obtain s1 a1 where e: "ensureFlagsAnnounced flags s = (s1, a1)" by force
  have t: "talks s (s1, a1)" using ensureFlags_talks [OF 2(3)] e by metis
  then have r: "ready s1" using keeps_ready 2(3) by (auto simp: talks_def)
  obtain s2 a2 where l: "storeLines c b us s1 = (s2, a2)" by force
  have "map_of (st_seqByUid c) uid = Some n \<Longrightarrow> talks s1 (s2, starReply x # a2)" for n x
    using 2(2) [OF _ e [symmetric] refl r] l by (simp add: talks_def)
  then have "map_of (st_seqByUid c) uid = Some n \<Longrightarrow> talks s (s2, a1 @ starReply x # a2)" for n x
    using talks_append [OF t] by blast
  then show ?case using 2(1,3) e l by (auto split: option.split)
qed (simp add: talks_def keeps_refl)

lemma emitFetch_talks:
  "ready s \<Longrightarrow> emitFetch lib c msgs batch s = (s1, a, f) \<Longrightarrow> talks s (s1, a) \<and> same_view s s1"
proof (induction lib c msgs batch s arbitrary: s1 a f rule: emitFetch.induct)
  case (2 lib c msgs seq uid batch s)
  have skip: "talks s (s, []) \<and> same_view s s"
    using 2(4) by (simp add: talks_def keeps_refl same_view_def)
  show ?case
  proof (cases "msgs uid")
    case None
    then show ?thesis using 2 by simp
  next
    case d: (Some d)
    show ?thesis
    proof (cases "case fc_changedSince c of Some n \<Rightarrow> fd_modseq d \<le> n | None \<Rightarrow> False")
      case True
      then show ?thesis using 2(2) [OF d True 2(4)] 2(5) d by simp
    next
      case u: False
      show ?thesis
      proof (cases "itemWires lib (fc_items c) uid d")
        case None
        then show ?thesis using 2(5) d u skip by simp
      next
        case w: (Some parts)
        obtain t b where e: "(if FI_flags \<in> set (fc_items c) then ensureFlagsAnnounced (fd_flags d) s else (s, [])) = (t, b)" by force
        have "talks s (t, b) \<and> same_view s t"
          using ensureFlags_talks [OF 2(4), of "fd_flags d"] ensureFlags_view [of s "fd_flags d"] skip e by (auto split: if_splits)
        then have t: "talks s (t, b)" "same_view s t" by simp_all
        then have r: "ready t" using keeps_ready 2(4) by (auto simp: talks_def)
        obtain b2 where l: "emitFetch lib c msgs batch t = (s1, b2, f)"
          "a = b @ IA_replyBinary (''* '' @ show_nat seq @ '' FETCH ('' @ join '' '' parts @ '')'' @ CRLF) # b2"
          using 2(5) d u w e by (auto simp del: append.simps split: prod.splits)
        have "talks t (s1, IA_replyBinary x # b2) \<and> same_view t s1" for x
          using 2(3) [OF d u w e [symmetric] refl r l(1)] by (simp add: talks_def)
        then show ?thesis using t talks_append [OF t(1)] by (simp add: l(2) same_view_def)
      qed
    qed
  qed
qed (simp add: talks_def keeps_refl same_view_def)

section \<open>Resuming\<close>

text \<open>How many responses of the backend a command may still wait for.\<close>

fun rounds :: "imap_cont \<Rightarrow> nat" where
  "rounds (K_fetch c n) = 1 + (length (fc_targets c) - n)"
| "rounds (K_vanished c r m) = 2 + length (fc_targets c)"
| "rounds (K_search c e n h u) = 1 + (length (se_uids c) - n)"
| "rounds (K_sortThread c m n h d) = 1 + (length (se_uids c) - n)"
| "rounds (K_select tag rw q) = 2"
| "rounds (K_refresh t) = 2"
| "rounds _ = 1"

text \<open>A resumed command is answered, or asks again and has fewer rounds left than \<open>n\<close>.\<close>

definition resumed :: "imap_options \<Rightarrow> string option \<Rightarrow> imap \<Rightarrow> nat \<Rightarrow> imap \<times> imap_action list \<Rightarrow> bool" where
  "resumed opt t s n r \<longleftrightarrow>
     im_ok opt t s r \<and> im_idleTag (fst r) = im_idleTag s \<and>
     (case im_pending (fst r) of None \<Rightarrow> True | Some (IP_backend k) \<Rightarrow> rounds k < n | Some _ \<Rightarrow> False)"

lemma resumed_answer:
  assumes "im_keeps s s1" "ready s" "list_all im_plain pre" "tagged tag a"
  shows "resumed opt (Some tag) s n (s1, pre @ [a])"
  using ok_answer [OF assms] assms(1) by (simp add: resumed_def im_keeps_def)

lemma resumed_reply:
  assumes "ready s" "tagged tag a"
  shows "resumed opt (Some tag) s n (s, [a])"
  using resumed_answer [OF keeps_refl [OF assms(1)] assms(1), of "[]"] assms(2) by simp

lemma resumed_two:
  assumes "ready s" "im_plain b" "tagged tag a"
  shows "resumed opt (Some tag) s n (s, [b, a])"
  using resumed_answer [OF keeps_refl [OF assms(1)] assms(1), of "[b]"] assms(2,3) by simp

lemma resumed_silent:
  assumes "im_keeps s s1" "ready s" "list_all im_plain acts"
  shows "resumed opt None s n (s1, acts)"
  using ok_silent [OF assms] assms(1) by (simp add: resumed_def im_keeps_def)

lemma resumed_ask:
  assumes "im_keeps s s1" "ready s" "im_state s \<noteq> NotAuthenticated" "list_all im_plain pre" "request_ok s r" "cont_tag k = t" "cont_wf s1 k"
    "rounds k < n"
  shows "resumed opt t s n (case callBackend r k s1 of (s2, a) \<Rightarrow> (s2, pre @ a))"
  using ok_backend_with [OF assms(1-7)] assms(1,8) by (simp add: resumed_def im_keeps_def callBackend_def)

lemma resumed_ok: "talks s (s1, a) \<Longrightarrow> ready s \<Longrightarrow> resumed opt (map_option fst t) s n (s1, a @ taggedOk t)"
  using resumed_answer [of s s1 a] resumed_silent [of s s1 a]
  by (cases t) (auto simp: talks_def taggedOk_def)

lemma untagged_prefix: "im_answered tag a \<Longrightarrow> list_all untagged pre \<Longrightarrow> im_answered tag (pre @ a)"
  unfolding im_answered_def by (metis append.assoc list_all_append)

lemma resumed_prefix:
  assumes "resumed opt t s n (s1, a)" "list_all im_plain pre"
  shows "resumed opt t s n (s1, pre @ a)"
proof -
  have "answers t s1 (pre @ a)"
    using assms plain_all(1) [OF assms(2)] untagged_prefix
    by (auto simp: resumed_def im_ok_def answers_def split: option.splits)
  moreover have "asks (im_pending s1) (pre @ a) = asks (im_pending s1) a"
    using plain_all(3) [OF assms(2)] by (simp add: asks_def split: option.split imap_pending.split)
  ultimately show ?thesis using assms(1) plain_all(2) [OF assms(2)] by (simp add: resumed_def im_ok_def)
qed

section \<open>The continuations\<close>

lemma batch_positive: "0 < batchSize b"
  by (simp add: batchSize_def FETCH_BATCH_RAW_def FETCH_BATCH_META_def)

lemma resumeAcl_resumed:
  assumes "ready s"
  shows "resumed opt (Some tag) s n (s, resumeAcl (K_getAcl tag) res)" "resumed opt (Some tag) s n (s, resumeAcl (K_listRights tag) res)"
    "resumed opt (Some tag) s n (s, resumeAcl (K_myRights tag) res)"
  using resumed_reply [OF assms] resumed_two [OF assms] by (simp_all add: resumeAcl_def split: imap_response.split)

lemma resumeStatus_resumed: "ready s \<Longrightarrow> resumed opt (Some tag) s n (s, resumeStatus tag name w res)"
  by (simp add: resumeStatus_def statusReply_def resumed_reply resumed_two split: imap_response.split option.split)

lemma resumeQuota_resumed:
  assumes "ready s"
  shows "resumed opt (Some tag) s n (s, resumeQuota tag verb m res)"
  using resumed_reply [OF assms] resumed_two [OF assms] resumed_answer [OF keeps_refl [OF assms] assms, of "[_, _]"]
  by (simp add: resumeQuota_def split: imap_response.split)

lemma listLines_plain: "list_all im_plain (listLines c mbs m)"
  by (simp add: listLines_def listLine_def statusReply_def split: option.split)

lemma resumeList_resumed:
  assumes "ready s"
  shows "resumed opt (Some (lc_tag c)) s n (s, resumeList c res)"
proof -
  have "list_all im_plain (concat (map (listLines c mbs) mbs'))" for mbs mbs'
    using listLines_plain by (induction mbs') auto
  then show ?thesis
    using resumed_reply [OF assms] resumed_answer [OF keeps_refl [OF assms] assms] by (simp add: resumeList_def split: imap_response.split)
qed

lemma keeps_open:
  "ready s \<Longrightarrow> im_state s \<noteq> NotAuthenticated \<Longrightarrow> im_keeps s (s\<lparr>im_selected := Some v, im_state := Selected, im_savedSearch := g\<rparr>)"
  by (simp add: im_keeps_def ready_def im_frame_def view_wf_def)

lemma resumeSelect_resumed:
  assumes "ready s" "im_state s \<noteq> NotAuthenticated"
  shows "resumed opt (Some tag) s 2 (resumeSelect tag rw q res s)"
proof -
  have p: "list_all im_plain (selectLines m uids f kw rw r2)" for m uids f kw r2
    by (simp add: selectLines_def split: option.split)
  note a = resumed_answer [OF keeps_open [OF assms] assms(1) p] and b = resumed_ask [OF keeps_open [OF assms] assms p]
  show ?thesis
    using a b [of _ "K_selectSync _ _"] resumed_reply [OF assms(1)]
    by (simp add: resumeSelect_def Let_def split: imap_response.split option.split)
qed

lemma resumeSelectSync_resumed:
  assumes "ready s"
  shows "resumed opt (Some tag) s n (resumeSelectSync tag rw res s)"
proof -
  have "resumed opt (Some tag) s n (s1, pre @ a @ [selectDone tag rw])"
    if "changedLines True changed s = (s1, a)" "list_all im_plain pre" for changed s1 a pre
    using resumed_answer [of s s1 "pre @ a"] changedLines_talks [OF assms, of True changed] that assms by (simp add: talks_def)
  from this [of _ _ _ "[]"] this [of _ _ _ "[_]"] show ?thesis
    using resumed_reply [OF assms] by (simp add: resumeSelectSync_def split: imap_response.split prod.split)
qed

lemma fetchFrom_resumed:
  assumes "talks s (s1, pre)" "same_view s s1" "ready s" "im_state s \<noteq> NotAuthenticated" "cont_wf s (K_fetch c m)"
    "1 + (length (fc_targets c) - m) < n"
  shows "resumed opt (Some (fc_tag c)) s n (case fetchFrom c m s1 of (s2, b) \<Rightarrow> (s2, pre @ b))"
proof -
  have "on_view s (fc_name c) (fc_markSeen c) (map snd (take j (drop m (fc_targets c))))" for j
  proof -
    have "set (take j (drop m (fc_targets c))) \<subseteq> set (fc_targets c)" by (meson set_drop_subset set_take_subset subset_trans)
    then show ?thesis using assms(5) by (auto simp: on_view_def)
  qed
  then show ?thesis
    using assms unfolding fetchFrom_def
    by (intro resumed_ask) (simp_all add: talks_def same_view_def)
qed

lemma resumeFetch_resumed:
  assumes "ready s" "im_state s \<noteq> NotAuthenticated" "cont_wf s (K_fetch c m)"
  shows "resumed opt (Some (fc_tag c)) s (rounds (K_fetch c m)) (resumeFetch lib c m res s)"
proof (cases res)
  case (RS_messages messages)
  let ?n = "batchSize (fc_needRaw c)"
  obtain s1 a f where e: "emitFetch lib c (byUid messages) (take ?n (drop m (fc_targets c))) s = (s1, a, f)"
    by (metis prod_cases3)
  note t = emitFetch_talks [OF assms(1) e]
  then have k: "im_keeps s s1" "list_all im_plain a" by (simp_all add: talks_def)
  have "m + ?n < length (fc_targets c) \<Longrightarrow> 1 + (length (fc_targets c) - (m + ?n)) < rounds (K_fetch c m)"
    using batch_positive [of "fc_needRaw c"] by simp
  then have "m + ?n < length (fc_targets c) \<Longrightarrow>
      resumed opt (Some (fc_tag c)) s (rounds (K_fetch c m)) (case fetchFrom c (m + ?n) s1 of (s2, b) \<Rightarrow> (s2, a @ b))"
    using fetchFrom_resumed [of s s1 a c "m + ?n"] t assms by simp
  then show ?thesis
    using e resumed_answer [OF k(1) assms(1) k(2)] by (simp add: resumeFetch_def RS_messages Let_def)
qed (use resumed_reply [OF assms(1)] in \<open>simp_all add: resumeFetch_def\<close>)

lemma resumeVanished_resumed:
  assumes "ready s" "im_state s \<noteq> NotAuthenticated" "cont_wf s (K_vanished c r m)"
  shows "resumed opt (Some (fc_tag c)) s (rounds (K_vanished c r m)) (resumeVanished c r m res s)"
proof -
  have "talks s (s, [])" "same_view s s" using assms(1) by (simp_all add: talks_def keeps_refl same_view_def)
  then have f: "resumed opt (Some (fc_tag c)) s (2 + length (fc_targets c)) (fetchAll c s)"
    using fetchFrom_resumed [of s s "[]" c 0 "2 + length (fc_targets c)"] assms resumed_reply [OF assms(1)]
    by (simp add: fetchAll_def split: prod.splits)
  then have "resumed opt (Some (fc_tag c)) s (2 + length (fc_targets c)) (s1, pre @ a)"
    if "fetchAll c s = (s1, a)" "list_all im_plain pre" for s1 a pre
    using resumed_prefix that by simp
  from this [of _ _ "[]"] this [of _ _ "[_]"] show ?thesis
    using resumed_reply [OF assms(1)] by (simp add: resumeVanished_def Let_def split: imap_response.split prod.split)
qed

lemma resumeAppend_resumed:
  assumes "ready s"
  shows "resumed opt (Some tag) s n (resumeAppend tag name res s)"
proof -
  have "im_selected s = Some v \<Longrightarrow> im_plain b \<Longrightarrow> tagged tag a \<Longrightarrow> resumed opt (Some tag) s n (s\<lparr>im_selected := Some w\<rparr>, [b, a])" for v w a b
    using resumed_answer [OF keeps_view [OF assms] assms, of "[b]"] by simp
  then show ?thesis
    using resumed_reply [OF assms] by (simp add: resumeAppend_def Let_def split: imap_response.split option.split)
qed

lemma resumeReplace_resumed:
  assumes "ready s"
  shows "resumed opt (Some tag) s n (resumeReplace tag verb dest res s)"
proof (cases res)
  case (RS_replaced uv uid gone)
  obtain s1 a1 where e: "(case im_selected s of None \<Rightarrow> (s, [])
      | Some view \<Rightarrow> (let view1 = addUids [uid] view
          in if vw_name view = dest \<and> uid \<notin> set (vw_uids view)
             then (s\<lparr>im_selected := Some view1\<rparr>, [existsReply (vw_uids view1)]) else (s, []))) = (s1, a1)"
    by fastforce
  then have t: "talks s (s1, a1)"
    using keeps_view [OF assms] keeps_refl [OF assms] by (auto simp: talks_def Let_def split: option.splits if_splits)
  then have r: "ready s1" using keeps_ready assms by (auto simp: talks_def)
  obtain s2 a2 where g: "(case gone of Some u \<Rightarrow> removalActions [u] s1 | None \<Rightarrow> (s1, [])) = (s2, a2)" by fastforce
  have "talks s1 (s2, a2)"
    using g removal_talks [OF r] keeps_refl [OF r] by (auto simp: talks_def split: option.splits) (metis fst_conv snd_conv)+
  then have "talks s (s2, a1 @ a2)" using talks_append [OF t] by blast
  then show ?thesis
    using resumed_answer [of s s2 "a1 @ a2"] assms e g by (simp add: resumeReplace_def RS_replaced talks_def Let_def)
qed (use resumed_reply [OF assms] in \<open>simp_all add: resumeReplace_def\<close>)

lemma removed_resumed:
  assumes "ready s" "removalActions uids s = (s1, a)" "list_all im_plain pre" "tagged tag b"
  shows "resumed opt (Some tag) s n (s1, pre @ a @ [b])"
  using resumed_answer [of s s1 "pre @ a"] removal_talks [OF assms(1), of uids] assms by (simp add: talks_def)

lemma resumeCopyMove_resumed: "ready s \<Longrightarrow> resumed opt (Some tag) s n (resumeCopyMove tag verb move res s)"
  using removed_resumed [of s _ _ _ "[_]" tag "completed tag verb" opt n]
  by (simp add: resumeCopyMove_def Let_def resumed_reply split: imap_response.split prod.split)

lemma resumeExpunge_resumed: "ready s \<Longrightarrow> resumed opt (Some tag) s n (resumeExpunge tag verb res s)"
  using removed_resumed [of s _ _ _ "[]" tag "completed tag verb" opt n]
  by (simp add: resumeExpunge_def Let_def resumed_reply split: imap_response.split prod.split)

lemma resumeStore_resumed:
  assumes "ready s"
  shows "resumed opt (Some (st_tag c)) s n (resumeStore c res s)"
proof (cases res)
  case (RS_flagsUpdated us f)
  obtain s1 a where e: "(if st_silent c then (s, []) else storeLines c (''CONDSTORE'' \<in> set (im_enabled s)) us s) = (s1, a)" by force
  then have "talks s (s1, a)"
    using storeLines_talks [OF assms, of c] keeps_refl [OF assms] by (auto simp: talks_def split: if_splits) (metis fst_conv snd_conv)+
  then show ?thesis
    using resumed_answer [of s s1 a] assms e by (simp add: resumeStore_def RS_flagsUpdated talks_def Let_def)
qed (use resumed_reply [OF assms] in \<open>simp_all add: resumeStore_def\<close>)

lemma resumeRefresh_resumed:
  assumes "ready s" "im_state s \<noteq> NotAuthenticated"
  shows "resumed opt (map_option fst t) s 2 (resumeRefresh t res s)"
proof -
  have skip: "resumed opt (map_option fst t) s 2 (s, taggedOk t)"
    using resumed_ok [of s s "[]"] assms(1) by (simp add: talks_def keeps_refl)
  show ?thesis
  proof (cases "\<exists>m uids f kws v. res = RS_selected m uids f kws \<and> im_selected s = Some v")
    case True
    then obtain m uids f kws v where r: "res = RS_selected m uids f kws" "im_selected s = Some v" by blast
    obtain s1 a1 where e: "refreshView m uids s = (s1, a1)" by force
    have t1: "talks s (s1, a1)" using refreshView_talks [OF assms(1)] e by metis
    then have k: "im_keeps s s1" "list_all im_plain a1" "ready s1" using keeps_ready assms(1) by (auto simp: talks_def)
    have "resumed opt (map_option fst t) s 2 (s2, a1 @ a2 @ taggedOk t)" if "syncKeywordList d [] s1 = (s2, a2)" for d s2 a2
      using resumed_ok [OF talks_append [OF t1, of s2 a2] assms(1)] syncKeywords_talks [OF k(3), of d "[]"] that by simp
    moreover have "resumed opt (map_option fst t) s 2 (case callBackend (RQ_syncSince x y z w) (K_refreshSync t hi d) s1 of (s2, a) \<Rightarrow> (s2, a1 @ a))"
      for x y z w hi d
      using resumed_ask [OF k(1) assms k(2)] by simp
    ultimately show ?thesis by (simp add: resumeRefresh_def r e Let_def split: prod.split)
  next
    case False
    then show ?thesis using skip by (auto simp: resumeRefresh_def split: imap_response.split option.split)
  qed
qed

lemma resumeRefreshSync_resumed:
  assumes "ready s"
  shows "resumed opt (map_option fst t) s n (resumeRefreshSync t w d res s)"
proof -
  have k: "resumed opt (map_option fst t) s n (s2, a1 @ a2 @ taggedOk t)"
    if "talks s (s1, a1)" "syncKeywordList d e s1 = (s2, a2)" for s1 a1 e s2 a2
  proof -
    have "ready s1" using that(1) keeps_ready assms by (auto simp: talks_def)
    then show ?thesis
      using resumed_ok [OF talks_append [OF that(1), of s2 a2] assms] syncKeywords_talks [of s1 d e] that(2) by simp
  qed
  have c: "talks s (s1, a1)"
    if "changedLines b changed (s\<lparr>im_selected := Some x\<rparr>) = (s1, a1)" "im_selected s = Some v" for b changed x v s1 a1
  proof -
    have "im_keeps s (s\<lparr>im_selected := Some x\<rparr>)" using keeps_view [OF assms] that(2) by simp
    moreover from this have "talks (s\<lparr>im_selected := Some x\<rparr>) (s1, a1)"
      using changedLines_talks [OF keeps_ready, of s] assms that(1) by metis
    ultimately show ?thesis by (auto simp: talks_def intro: keeps_trans)
  qed
  have "talks s (s, [])" using keeps_refl [OF assms] by (simp add: talks_def)
  from k [OF this] k [OF c] show ?thesis
    by (simp add: resumeRefreshSync_def Let_def split: imap_response.split option.split prod.split)
qed

lemma searchFrom_resumed:
  assumes "ready s" "im_state s \<noteq> NotAuthenticated" "on_view s (se_name c) False (se_uids c)" "1 + (length (se_uids c) - m) < n"
  shows "resumed opt (Some (se_tag c)) s n (searchFrom c e m h u s)" "resumed opt (Some (se_tag c)) s n (sortFrom c x m g d s)"
  using searchFrom_ok [OF assms(1-3)] assms(4) by (simp_all add: resumed_def searchFrom_def sortFrom_def callBackend_def Let_def)

lemma resumeSearch_resumed:
  assumes "ready s" "im_state s \<noteq> NotAuthenticated" "cont_wf s (K_search c e m h u)"
  shows "resumed opt (Some (se_tag c)) s (rounds (K_search c e m h u)) (resumeSearch lib c e m h u res s)"
proof -
  let ?b = "batchSize (searchNeedsRaw (se_key c))"
  have "m + ?b < length (se_uids c) \<Longrightarrow> 1 + (length (se_uids c) - (m + ?b)) < rounds (K_search c e m h u)"
    using batch_positive [of "searchNeedsRaw (se_key c)"] by simp
  from searchFrom_resumed(1) [OF assms(1,2) _ this]
  show ?thesis
    using assms(3) resumed_reply [OF assms(1)] resumed_answer [OF keeps_saveResult [OF assms(1)] assms(1) searchReply_plain]
    by (simp add: resumeSearch_def Let_def del: rounds.simps split: imap_response.split)
qed

lemma sortLine_plain: "im_plain (IA_reply (formatSortLine hits spec meta))" "im_plain (IA_reply (formatThreadLine hits alg))"
  by (simp_all add: formatSortLine_def formatThreadLine_def Let_def)

lemma resumeSortThread_resumed:
  assumes "ready s" "im_state s \<noteq> NotAuthenticated" "cont_wf s (K_sortThread c x m h d)"
  shows "resumed opt (Some (se_tag c)) s (rounds (K_sortThread c x m h d)) (resumeSortThread lib c x m h d res s)"
proof -
  let ?b = "batchSize (searchNeedsRaw (se_key c))"
  have "m + ?b < length (se_uids c) \<Longrightarrow> 1 + (length (se_uids c) - (m + ?b)) < rounds (K_sortThread c x m h d)"
    using batch_positive [of "searchNeedsRaw (se_key c)"] by simp
  from searchFrom_resumed(2) [OF assms(1,2) _ this]
  show ?thesis
    using assms(3) resumed_reply [OF assms(1)] resumed_two [OF assms(1)] sortLine_plain
    by (simp add: resumeSortThread_def Let_def del: rounds.simps split: imap_response.split sort_mode.split)
qed

lemma imap_resume_resumed:
  assumes "ready s" "im_state s \<noteq> NotAuthenticated" "cont_wf s k"
  shows "resumed opt (cont_tag k) s (rounds k) (imap_resume lib k res s)"
proof -
  note rules = resumed_reply resumeAcl_resumed resumeList_resumed resumeSelect_resumed resumeSelectSync_resumed resumeFetch_resumed
    resumeVanished_resumed resumeAppend_resumed resumeReplace_resumed resumeCopyMove_resumed resumeStore_resumed resumeExpunge_resumed
    resumeRefresh_resumed resumeRefreshSync_resumed resumeSearch_resumed resumeSortThread_resumed resumeStatus_resumed resumeQuota_resumed
  show ?thesis using assms rules by (cases k) (simp_all del: cont_wf.simps)
qed

end
