(* ===== verification/ImapQueue.thy ===== *)
theory ImapQueue
  imports ImapResume
begin

text \<open>
  Handling a line never makes the queue longer, whatever the state: the loop that drains the queue ends.
\<close>

definition queue_kept :: "imap \<Rightarrow> imap \<times> imap_action list \<Rightarrow> bool" where
  "queue_kept s r \<longleftrightarrow> im_queued (fst r) = im_queued s \<or> im_queued (fst r) = []"

lemma queue_kept_simps [simp]:
  "queue_kept s (s1, acts) \<longleftrightarrow> im_queued s1 = im_queued s \<or> im_queued s1 = []"
  "queue_kept s (callBackend req k s1) \<longleftrightarrow> im_queued s1 = im_queued s \<or> im_queued s1 = []"
  by (auto simp: queue_kept_def callBackend_def)

lemma queue_frame [simp]: "im_queued (leaveSelected s) = im_queued s" "im_queued (saveResult e u s) = im_queued s"
  by (auto simp: leaveSelected_def saveResult_def split: option.split)

lemma mailbox_commands_queue:
  "queue_kept s (cmdGetAcl cmd s)" "queue_kept s (cmdSetAcl cmd s)" "queue_kept s (cmdDeleteAcl cmd s)"
  "queue_kept s (cmdListRights cmd s)" "queue_kept s (cmdMyRights cmd s)" "queue_kept s (cmdSubscribe cmd s)"
  "queue_kept s (cmdCreate cmd s)" "queue_kept s (cmdDelete cmd s)" "queue_kept s (cmdRename cmd s)"
  "queue_kept s (cmdStatus cmd s)" "queue_kept s (cmdGetQuota cmd verb s)" "queue_kept s (cmdSetQuota cmd s)"
  "queue_kept s (cmdNamespace cmd s)" "queue_kept s (cmdAppend cmd s)" "queue_kept s (imap_cmdList cmd verb s)"
  by (simp_all add: cmdGetAcl_def cmdSetAcl_def cmdDeleteAcl_def cmdListRights_def cmdMyRights_def cmdSubscribe_def cmdCreate_def
      cmdDelete_def cmdRename_def cmdStatus_def cmdGetQuota_def cmdSetQuota_def cmdNamespace_def cmdAppend_def imap_cmdList_def Let_def
      split: option.split sum.split prod.split list.split imap_value.split)

lemma message_commands_queue:
  "queue_kept s (cmdSelect cmd rw s)" "queue_kept s (cmdUnselect cmd s)" "queue_kept s (cmdClose cmd s)"
  "queue_kept s (cmdNoop cmd s)" "queue_kept s (cmdFetch cmd u s)" "queue_kept s (cmdReplace cmd u s)"
  "queue_kept s (cmdCopyMove cmd u move s)" "queue_kept s (cmdStore cmd u s)" "queue_kept s (cmdExpunge cmd r s)"
  "queue_kept s (cmdSearch cmd u s)" "queue_kept s (cmdSortThread cmd u th s)"
  by (simp_all add: cmdSelect_def cmdUnselect_def cmdClose_def cmdNoop_def refreshSelected_def cmdFetch_def fetchAll_def fetchFrom_def
      cmdReplace_def cmdCopyMove_def cmdStore_def cmdExpunge_def cmdSearch_def searchFrom_def cmdSortThread_def sortFrom_def Let_def
      parseSearchProgram_total
      split: option.split sum.split prod.split list.split imap_value.split search_parse.split)

lemma handleSaslData_queue: "queue_kept s (imap_handleSaslData c rnd sasl d s)"
  by (simp add: imap_handleSaslData_def handleCredentials_def imap_handleScramData_def verified_def
      split: option.split prod.split imap_stage.split scram_step.split)

lemma session_commands_queue:
  "queue_kept s (cmdCapability opt cmd s)" "queue_kept s (cmdId cmd s)" "queue_kept s (cmdLogout opt cmd s)"
  "queue_kept s (imap_cmdStartTls opt cmd s)" "queue_kept s (cmdCompress cmd s)" "queue_kept s (cmdEnable cmd s)"
  "queue_kept s (cmdIdle cmd s)" "queue_kept s (cmdLogin opt cmd s)" "queue_kept s (imap_cmdAuthenticate c opt rnd cmd s)"
  using handleSaslData_queue [of s c rnd]
  by (simp_all add: cmdCapability_def cmdId_def cmdLogout_def imap_cmdStartTls_def cmdCompress_def cmdEnable_def cmdIdle_def cmdLogin_def
      imap_cmdAuthenticate_def Let_def split: option.split prod.split)

lemma gates_queue:
  "queue_kept s (f cmd s) \<Longrightarrow> queue_kept s (requireAuth f cmd s)" "queue_kept s (f cmd s) \<Longrightarrow> queue_kept s (requireSelected f cmd s)"
  by (simp_all add: requireAuth_def requireSelected_def)

lemma cmdUid_queue: "queue_kept s (cmdUid cmd s)"
proof -
  have e: "queue_kept s (cmdUidExpunge r s)" for r
    by (simp add: cmdUidExpunge_def gates_queue message_commands_queue split: option.split)
  have "list_all (\<lambda>(n, f). \<forall>r. queue_kept s (f r s)) UID_COMMANDS"
    by (simp add: UID_COMMANDS_def gates_queue message_commands_queue e)
  then have "map_of UID_COMMANDS n = Some f \<Longrightarrow> queue_kept s (f r s)" for n f r
    by (auto simp: list_all_iff dest!: map_of_SomeD)
  then show ?thesis by (simp add: cmdUid_def Let_def split: option.split bind_split)
qed

lemma handleLine_queue: "queue_kept s (imap_handleLine c opt rnd parts s)"
proof -
  have "list_all (\<lambda>(n, f). \<forall>r. queue_kept s (f r s)) (imap_commands c opt rnd)"
    by (simp add: imap_commands_def gates_queue mailbox_commands_queue message_commands_queue session_commands_queue cmdUid_queue)
  then have "queue_kept s (imap_dispatch c opt rnd cmd s)" for cmd
    by (auto simp: imap_dispatch_def list_all_iff split: option.split dest!: map_of_SomeD)
  moreover have "queue_kept s (imap_handleSaslData c rnd sasl d (s\<lparr>im_pending := None\<rparr>))" for sasl d
    using handleSaslData_queue [of "s\<lparr>im_pending := None\<rparr>"] by (simp add: queue_kept_def)
  ultimately show ?thesis
    by (simp add: imap_handleLine_def split: option.split imap_pending.split sum.split)
qed

end
