(* ===== verification/ImapApi.thy ===== *)
theory ImapApi
  imports ImapQueue
begin

text \<open>
  The public methods of the IMAP engine (\<open>feed\<close>, \<open>backendResult\<close>, \<open>authResult\<close>, \<open>scramKeysResult\<close>,
  \<open>tlsEstablished\<close>, \<open>idleTick\<close>) and the queue of lines that arrive while a request is out. \<open>rnd i\<close> is what
  \<open>randomBytes\<close> returns for the line \<open>i\<close> of the call. A method that raises returns \<open>Inl\<close>.
\<close>

section \<open>Reading\<close>

definition handleReaderEvent :: "crypto \<Rightarrow> imap_options \<Rightarrow> bytes \<Rightarrow> reader_event \<Rightarrow> imap \<Rightarrow> imap \<times> imap_action list" where
  "handleReaderEvent c opt rnd ev s =
     (case ev of
        RE_continue n \<Rightarrow> (s, [IA_reply ''+ OK''])
      | RE_error message \<Rightarrow> (s, [starReply (''BAD '' @ message)])
      | RE_line parts \<Rightarrow>
          if (case im_pending s of Some (IP_auth t) \<Rightarrow> True | Some (IP_backend k) \<Rightarrow> True | _ \<Rightarrow> False) then
            (let s1 = s\<lparr>im_queued := im_queued s @ [parts], im_queuedBytes := im_queuedBytes s + lineBytes parts\<rparr> in
             if im_queuedBytes s1 > MAX_QUEUED_LINE_BYTES
             then (s1\<lparr>im_queued := [], im_queuedBytes := 0, im_closed := True\<rparr>, [starReply ''BYE too much pipelined data'', IA_close])
             else (s1, []))
          else imap_handleLine c opt rnd parts s)"

fun imap_events :: "crypto \<Rightarrow> imap_options \<Rightarrow> (nat \<Rightarrow> bytes) \<Rightarrow> reader_event list \<Rightarrow> imap \<Rightarrow> imap \<times> imap_action list" where
  "imap_events c opt rnd [] s = (s, [])"
| "imap_events c opt rnd (ev # evs) s =
     (let (s1, a1) = handleReaderEvent c opt (rnd 0) ev s in
      if im_closed s1 then (s1, a1)
      else let (s2, a2) = imap_events c opt (\<lambda>i. rnd (Suc i)) evs s1 in (s2, a1 @ a2))"

definition imap_feed :: "crypto \<Rightarrow> imap_options \<Rightarrow> (nat \<Rightarrow> bytes) \<Rightarrow> bytes \<Rightarrow> imap \<Rightarrow> imap \<times> imap_action list" where
  "imap_feed c opt rnd chunk s =
     (if im_closed s then (s, [])
      else if im_awaitingTls s then (s, [])
      else let (r, evs) = reader_feed chunk (im_reader s) in imap_events c opt rnd evs (s\<lparr>im_reader := r\<rparr>))"

section \<open>Responses\<close>

function imap_drain :: "crypto \<Rightarrow> imap_options \<Rightarrow> (nat \<Rightarrow> bytes) \<Rightarrow> imap \<Rightarrow> imap \<times> imap_action list" where
  "imap_drain c opt rnd s =
     (case im_queued s of
        [] \<Rightarrow> (s\<lparr>im_queuedBytes := 0\<rparr>, [])
      | parts # q \<Rightarrow>
          if im_pending s \<noteq> None \<or> im_closed s then (s, [])
          else let (s1, a1) = imap_handleLine c opt (rnd 0) parts (s\<lparr>im_queued := q, im_queuedBytes := im_queuedBytes s - lineBytes parts\<rparr>);
                   (s2, a2) = imap_drain c opt (\<lambda>i. rnd (Suc i)) s1
               in (s2, a1 @ a2))"
  by pat_completeness auto
termination
proof (relation "measure (\<lambda>(c, opt, rnd, s). length (im_queued s))")
  fix c opt rnd s parts q x s1 a1
  assume "im_queued s = parts # q"
    "x = imap_handleLine c opt (rnd (0::nat)) parts (s\<lparr>im_queued := q, im_queuedBytes := im_queuedBytes s - lineBytes parts\<rparr>)"
    "(s1, a1) = x"
  then show "((c, opt, \<lambda>i. rnd (Suc i), s1), c, opt, rnd, s) \<in> measure (\<lambda>(c, opt, rnd, s). length (im_queued s))"
    using handleLine_queue [of "s\<lparr>im_queued := q, im_queuedBytes := im_queuedBytes s - lineBytes parts\<rparr>" c opt "rnd 0" parts]
    by (auto simp: queue_kept_def dest: sym)
qed simp

declare imap_drain.simps [simp del]

definition imap_backendResult :: "mime_lib \<Rightarrow> crypto \<Rightarrow> imap_options \<Rightarrow> (nat \<Rightarrow> bytes) \<Rightarrow> imap_response \<Rightarrow> imap \<Rightarrow>
    string + imap \<times> imap_action list" where
  "imap_backendResult lib c opt rnd res s =
     (case im_pending s of
        Some (IP_backend k) \<Rightarrow>
          (let (s1, a1) = imap_resume lib k res (s\<lparr>im_pending := None\<rparr>); (s2, a2) = imap_drain c opt rnd s1 in Inr (s2, a1 @ a2))
      | _ \<Rightarrow> Inl ''backendResult'')"

definition imap_scramKeysResult :: "crypto \<Rightarrow> scram_keys option \<Rightarrow> imap \<Rightarrow> string + imap \<times> imap_action list" where
  "imap_scramKeysResult c ks s =
     (case im_pending s of
        Some (IP_scramKeys sasl) \<Rightarrow>
          (case sl_scram sasl of
             None \<Rightarrow> Inl ''scram''
           | Some sc \<Rightarrow>
               (case provideKeys c ks (ix_session sc) of
                  (session1, NeedSend message) \<Rightarrow>
                    Inr (s\<lparr>im_pending := Some (IP_saslLine (sasl\<lparr>sl_scram := Some (sc\<lparr>ix_session := session1\<rparr>)\<rparr>))\<rparr>, [imap_challenge message])
                | (session1, step) \<Rightarrow> Inr (s\<lparr>im_pending := None\<rparr>, imap_scramFailed (sl_tag sasl) step)))
      | _ \<Rightarrow> Inl ''scramKeysResult'')"

definition imap_authResult :: "crypto \<Rightarrow> imap_options \<Rightarrow> (nat \<Rightarrow> bytes) \<Rightarrow> bool \<Rightarrow> imap \<Rightarrow> string + imap \<times> imap_action list" where
  "imap_authResult c opt rnd granted s =
     (case im_pending s of
        Some (IP_auth tag) \<Rightarrow>
          (let (s1, a1) =
             (if granted
              then (let s0 = s\<lparr>im_pending := None, im_state := Authenticated,
                               im_reader := setMaxLiteralBytes (authedMaxLiteralBytes opt) (im_reader s)\<rparr>
                    in (s0, [tagReply tag ''OK'' (''[CAPABILITY '' @ imap_capabilities opt s0 @ ''] authenticated'')]))
              else (s\<lparr>im_pending := None\<rparr>, [tagReply tag ''NO'' ''[AUTHENTICATIONFAILED] authentication failed'']));
               (s2, a2) = imap_drain c opt rnd s1
           in Inr (s2, a1 @ a2))
      | _ \<Rightarrow> Inl ''authResult'')"

definition imap_tlsEstablished :: "imap \<Rightarrow> imap \<times> imap_action list" where
  "imap_tlsEstablished s = (s\<lparr>im_secure := True, im_awaitingTls := False\<rparr>, [])"

definition isIdling :: "imap \<Rightarrow> bool" where
  "isIdling s \<longleftrightarrow> im_idleTag s \<noteq> None"

definition idleTick :: "imap \<Rightarrow> imap \<times> imap_action list" where
  "idleTick s =
     (if \<not> isIdling s \<or> im_pending s \<noteq> None \<or> im_state s \<noteq> Selected \<or> im_closed s then (s, []) else refreshSelected None s)"

section \<open>Calls\<close>

datatype imap_input =
    Im_feed bytes
  | Im_backend imap_response
  | Im_scramKeys "scram_keys option"
  | Im_auth bool
  | Im_tls
  | Im_tick

fun imap_call :: "mime_lib \<Rightarrow> crypto \<Rightarrow> imap_options \<Rightarrow> (nat \<Rightarrow> bytes) \<Rightarrow> imap_input \<Rightarrow> imap \<Rightarrow> string + imap \<times> imap_action list" where
  "imap_call lib c opt rnd (Im_feed chunk) s = Inr (imap_feed c opt rnd chunk s)"
| "imap_call lib c opt rnd (Im_backend res) s = imap_backendResult lib c opt rnd res s"
| "imap_call lib c opt rnd (Im_scramKeys ks) s = imap_scramKeysResult c ks s"
| "imap_call lib c opt rnd (Im_auth granted) s = imap_authResult c opt rnd granted s"
| "imap_call lib c opt rnd Im_tls s = Inr (imap_tlsEstablished s)"
| "imap_call lib c opt rnd Im_tick s = Inr (idleTick s)"

end
