(* ===== verification/ImapSession.thy ===== *)
theory ImapSession
  imports ImapApi
begin

text \<open>
  Sessions of the IMAP engine: any sequence of calls of its methods, with the log of what goes in and out.
  \<open>work\<close> is what every part of a call im_keeps; it composes, so it holds of whole calls.
\<close>

section \<open>Lines\<close>

text \<open>The tag that a line has to be answered with.\<close>

definition line_tag :: "imap \<Rightarrow> line_part list \<Rightarrow> string option" where
  "line_tag s parts =
     (case im_idleTag s of
        Some tag \<Rightarrow> Some tag
      | None \<Rightarrow>
          (case im_pending s of
             Some (IP_saslLine sasl) \<Rightarrow> Some (sl_tag sasl)
           | _ \<Rightarrow> (case parseCommand parts of Some (Inr cmd) \<Rightarrow> Some (pc_tag cmd) | _ \<Rightarrow> None)))"

lemma idle_ok:
  assumes "ready s" "im_idleTag s = Some tag"
  shows "im_ok opt (Some tag) s (imap_handleLine c opt rnd parts s)"
proof -
  let ?s = "s\<lparr>im_idleTag := None\<rparr>"
  have "tagged tag a \<Longrightarrow> im_answered tag [a]" for a unfolding im_answered_def by fastforce
  then have "tagged tag a \<Longrightarrow> im_ok opt (Some tag) s (?s, [a])" for a
    using assms(1) tagged_plain [of tag a] by (simp add: im_ok_def im_frame_def imap_wf_def ready_def answers_def asks_def)
  then show ?thesis using assms(2) by (simp add: imap_handleLine_def)
qed

lemma handleLine_ok:
  assumes "ready s"
  shows "im_ok opt (line_tag s parts) s (imap_handleLine c opt rnd parts s)"
proof (cases "im_idleTag s")
  case None
  then have h: "imap_handleLine c opt rnd parts s = (case parseCommand parts of None \<Rightarrow> (s, [])
      | Some (Inl msg) \<Rightarrow> (s, [starReply (''BAD '' @ msg)]) | Some (Inr cmd) \<Rightarrow> imap_dispatch c opt rnd cmd s)"
    and t: "line_tag s parts = (case parseCommand parts of Some (Inr cmd) \<Rightarrow> Some (pc_tag cmd) | _ \<Rightarrow> None)"
    using assms by (simp_all add: imap_handleLine_def line_tag_def ready_def)
  show ?thesis unfolding h t
    using imap_dispatch_ok [OF assms] ok_silent [OF keeps_refl [OF assms] assms] by (simp split: option.split sum.split)
qed (use idle_ok [OF assms] in \<open>simp add: line_tag_def\<close>)

lemma saslLine_ok:
  assumes "imap_wf opt s" "im_pending s = Some (IP_saslLine sasl)"
  shows "im_ok opt (Some (sl_tag sasl)) (s\<lparr>im_pending := None\<rparr>) (imap_handleLine c opt rnd parts s)"
proof -
  have "im_idleTag s = None" "may_login opt (s\<lparr>im_pending := None\<rparr>)"
    using assms by (auto simp: imap_wf_def may_login_def ready_def imap_authAllowed_def)
  then show ?thesis using assms(2) handleSaslData_ok by (simp add: imap_handleLine_def)
qed

section \<open>Lines during a SCRAM lookup\<close>

text \<open>
  A line that arrives while the keys of a SCRAM exchange are looked up is handled at once. It may start another
  authentication, whose request is then out together with the first, but it reaches no mailbox.
\<close>

definition im_safe :: "imap_options \<Rightarrow> imap \<Rightarrow> imap \<times> imap_action list \<Rightarrow> bool" where
  "im_safe opt s r \<longleftrightarrow> im_frame s (fst r) \<and> imap_wf opt (fst r) \<and> list_all (act_ok opt s) (snd r)"

definition looking_up :: "imap_options \<Rightarrow> imap \<Rightarrow> bool" where
  "looking_up opt s \<longleftrightarrow> imap_wf opt s \<and> (\<exists>x. im_pending s = Some (IP_scramKeys x))"

lemma lookup_rules:
  assumes "looking_up opt s"
  shows "list_all (act_ok opt s) acts \<Longrightarrow> im_safe opt s (s, acts)"
    "im_safe opt s (s\<lparr>im_pending := Some (IP_auth tag)\<rparr>, [IA_auth u p])"
    "im_safe opt s (s\<lparr>im_pending := Some (IP_auth tag)\<rparr>, [IA_authVerified tag u])"
    "sl_scram x \<noteq> None \<Longrightarrow> im_safe opt s (s\<lparr>im_pending := Some (IP_scramKeys x)\<rparr>, [IA_scramKeys u])"
    "im_plain a \<Longrightarrow> im_safe opt s (s\<lparr>im_pending := Some (IP_saslLine x)\<rparr>, [a])"
    "im_safe opt s (s, imap_scramFailed tag step)"
  using assms plain_act_ok
  by (auto simp: im_safe_def im_frame_def looking_up_def imap_wf_def imap_authAllowed_def imap_scramFailed_def)

lemma handleSaslData_safe:
  assumes "looking_up opt s"
  shows "im_safe opt s (imap_handleSaslData c rnd sasl d s)"
  using lookup_rules [OF assms]
  by (simp add: imap_handleSaslData_def handleCredentials_def imap_handleScramData_def verified_def imap_challenge_def
      split: option.split prod.split imap_stage.split scram_step.split)

lemma lookup_state:
  assumes "looking_up opt s"
  shows "im_state s = NotAuthenticated" "im_pending s \<noteq> None" "im_idleTag s = None" "im_selected s = None"
  using assms by (auto simp: looking_up_def imap_wf_def view_wf_def)

lemma session_commands_safe:
  assumes "looking_up opt s"
  shows "im_safe opt s (cmdCapability opt cmd s)" "im_safe opt s (cmdId cmd s)" "im_safe opt s (cmdLogout opt cmd s)"
    "im_safe opt s (imap_cmdStartTls opt cmd s)" "im_safe opt s (cmdCompress cmd s)" "im_safe opt s (cmdEnable cmd s)"
    "im_safe opt s (cmdNoop cmd s)" "im_safe opt s (cmdLogin opt cmd s)" "im_safe opt s (imap_cmdAuthenticate c opt rnd cmd s)"
proof -
  note r = lookup_rules [OF assms] lookup_state [OF assms]
  have "im_safe opt s (s\<lparr>im_closed := True\<rparr>, acts)" if "list_all (act_ok opt s) acts" for acts
    using assms that by (auto simp: im_safe_def im_frame_def looking_up_def imap_wf_def imap_authAllowed_def)
  then show "im_safe opt s (cmdCapability opt cmd s)" "im_safe opt s (cmdId cmd s)" "im_safe opt s (cmdLogout opt cmd s)"
    "im_safe opt s (imap_cmdStartTls opt cmd s)" "im_safe opt s (cmdCompress cmd s)" "im_safe opt s (cmdEnable cmd s)"
    "im_safe opt s (cmdNoop cmd s)" "im_safe opt s (cmdLogin opt cmd s)" "im_safe opt s (imap_cmdAuthenticate c opt rnd cmd s)"
    using r handleSaslData_safe [OF assms]
    by (simp_all add: cmdCapability_def cmdId_def cmdLogout_def imap_cmdStartTls_def cmdCompress_def cmdEnable_def cmdNoop_def
        cmdLogin_def imap_cmdAuthenticate_def completed_def starReply_def Let_def split: option.split)
qed

lemma gates_safe:
  assumes "looking_up opt s"
  shows "im_safe opt s (requireAuth f cmd s)" "im_safe opt s (requireSelected f cmd s)" "im_safe opt s (cmdUid cmd s)"
proof -
  have g: "im_safe opt s (requireAuth f cmd s)" "im_safe opt s (requireSelected f cmd s)" for f cmd
    using lookup_rules(1) [OF assms] lookup_state [OF assms] by (simp_all add: requireAuth_def requireSelected_def notSelected_def)
  have e: "im_safe opt s (cmdUidExpunge r s)" for r
    using lookup_rules(1) [OF assms] by (simp add: cmdUidExpunge_def g split: option.split)
  have "list_all (\<lambda>(n, f). \<forall>r. im_safe opt s (f r s)) UID_COMMANDS" by (simp add: UID_COMMANDS_def g e)
  then have "map_of UID_COMMANDS n = Some f \<Longrightarrow> im_safe opt s (f r s)" for n f r
    by (auto simp: list_all_iff dest!: map_of_SomeD)
  then show "im_safe opt s (cmdUid cmd s)"
    using lookup_rules(1) [OF assms] by (simp add: cmdUid_def Let_def split: option.split bind_split)
qed (use lookup_rules(1) [OF assms] lookup_state [OF assms] in \<open>simp_all add: requireAuth_def requireSelected_def notSelected_def\<close>)

lemma lookup_line_safe:
  assumes "looking_up opt s"
  shows "im_safe opt s (imap_handleLine c opt rnd parts s)"
proof -
  have "list_all (\<lambda>(n, f). \<forall>r. im_safe opt s (f r s)) (imap_commands c opt rnd)"
    by (simp add: imap_commands_def gates_safe [OF assms] session_commands_safe [OF assms])
  then have "im_safe opt s (imap_dispatch c opt rnd cmd s)" for cmd
    using lookup_rules(1) [OF assms]
    by (auto simp: imap_dispatch_def list_all_iff split: option.split dest!: map_of_SomeD)
  then show ?thesis
    using assms lookup_rules(1) [OF assms] lookup_state [OF assms]
    by (auto simp: imap_handleLine_def looking_up_def starReply_def split: option.split sum.split)
qed

end
