(* ===== verification/ImapSafety.thy ===== *)
theory ImapSafety
  imports ImapSession
begin

text \<open>
  What holds of every session of the IMAP engine: the mailboxes are reached only after authentication and
  credentials are taken only over a channel that allows it, requests to the backend and its responses
  alternate, and the queue of pipelined lines stays within its limit.
\<close>

section \<open>What each part of a call keeps\<close>

definition queue_ok :: "imap \<Rightarrow> bool" where
  "queue_ok s \<longleftrightarrow> im_queuedBytes s = sum_list (map lineBytes (im_queued s)) \<and> im_queuedBytes s \<le> MAX_QUEUED_LINE_BYTES"

definition imap_inv :: "imap_options \<Rightarrow> imap \<Rightarrow> bool" where
  "imap_inv opt s \<longleftrightarrow> imap_wf opt s \<and> queue_ok s"

definition waits :: "imap \<Rightarrow> bool" where
  "waits s \<longleftrightarrow> (case im_pending s of Some (IP_backend k) \<Rightarrow> True | _ \<Rightarrow> False)"

text \<open>Whether a request of the backend is out after some actions; \<open>None\<close> if two were out at once.\<close>

fun turns :: "bool \<Rightarrow> imap_action list \<Rightarrow> bool option" where
  "turns w [] = Some w"
| "turns w (IA_backend r # acts) = (if w then None else turns True acts)"
| "turns w (a # acts) = turns w acts"

fun gate :: "imap_options \<Rightarrow> bool \<Rightarrow> bool \<Rightarrow> imap_action \<Rightarrow> bool" where
  "gate opt authed secure (IA_backend r) \<longleftrightarrow> authed"
| "gate opt authed secure IA_startCompress \<longleftrightarrow> authed"
| "gate opt authed secure (IA_auth u p) \<longleftrightarrow> \<not> authed \<and> (secure \<or> io_allowInsecureAuth opt)"
| "gate opt authed secure (IA_scramKeys u) \<longleftrightarrow> \<not> authed \<and> (secure \<or> io_allowInsecureAuth opt)"
| "gate opt authed secure (IA_authVerified t u) \<longleftrightarrow> \<not> authed \<and> (secure \<or> io_allowInsecureAuth opt)"
| "gate opt authed secure IA_startTls \<longleftrightarrow> \<not> secure"
| "gate opt authed secure _ \<longleftrightarrow> True"

abbreviation authed :: "imap \<Rightarrow> bool" where
  "authed s \<equiv> im_state s \<noteq> NotAuthenticated"

definition work :: "imap_options \<Rightarrow> imap \<Rightarrow> imap \<times> imap_action list \<Rightarrow> bool" where
  "work opt s r \<longleftrightarrow>
     imap_inv opt (fst r) \<and> im_secure (fst r) = im_secure s \<and> authed (fst r) = authed s \<and>
     list_all (gate opt (authed s) (im_secure s)) (snd r) \<and> turns (waits s) (snd r) = Some (waits (fst r))"

lemma turns_append: "turns w (a @ b) = Option.bind (turns w a) (\<lambda>v. turns v b)"
  by (induction w a rule: turns.induct) auto

lemma work_refl: "imap_inv opt s \<Longrightarrow> work opt s (s, [])"
  by (simp add: work_def)

lemma work_trans: "work opt s (s1, a) \<Longrightarrow> work opt s1 (s2, b) \<Longrightarrow> work opt s (s2, a @ b)"
  by (simp add: work_def turns_append)

lemma act_ok_gate: "act_ok opt s a \<Longrightarrow> gate opt (authed s) (im_secure s) a"
  by (cases a) (auto simp: imap_authAllowed_def imap_starttlsOffered_def)

lemma acts_ok_gate: "list_all (act_ok opt s) acts \<Longrightarrow> list_all (gate opt (authed s) (im_secure s)) acts"
  using act_ok_gate by (auto simp: list_all_iff)

lemma turns_silent: "filter is_ask acts = [] \<Longrightarrow> turns w acts = Some w"
  by (induction w acts rule: turns.induct) (auto split: if_splits)

lemma turns_ask: "filter is_ask acts = [a] \<Longrightarrow> turns False acts = Some (\<exists>r. a = IA_backend r)"
proof (induction False acts rule: turns.induct)
  case (2 r acts)
  then show ?case using turns_silent [of acts True] by auto
qed (auto simp: turns_silent)

lemma asks_turns: "asks (im_pending s) acts \<Longrightarrow> turns False acts = Some (waits s)"
  by (auto simp: asks_def waits_def turns_silent dest!: turns_ask split: option.splits imap_pending.splits)

lemma lineBytes_nonneg: "0 \<le> lineBytes parts"
  by (simp add: lineBytes_def)

lemma queue_frame_ok:
  assumes "im_frame s s1" "queue_ok s"
  shows "queue_ok s1"
  using assms by (auto simp: im_frame_def queue_ok_def MAX_QUEUED_LINE_BYTES_def)

lemma im_ok_work:
  assumes "im_ok opt t s r" "queue_ok s" "\<not> waits s"
  shows "work opt s r"
  using assms acts_ok_gate [of opt s] queue_frame_ok asks_turns [of "fst r" "snd r"]
  by (auto simp: im_ok_def work_def imap_inv_def im_frame_def)

lemma lookup_work:
  assumes "looking_up opt s" "im_safe opt s r" "queue_ok s"
  shows "work opt s r"
proof -
  have n: "im_state s = NotAuthenticated" "im_state (fst r) = NotAuthenticated"
    using lookup_state [OF assms(1)] assms(2) by (auto simp: im_safe_def im_frame_def)
  have "imap_wf opt (fst r)" using assms(2) by (simp add: im_safe_def)
  then have "\<not> waits s" "\<not> waits (fst r)"
    using assms(1) n by (auto simp: waits_def imap_wf_def looking_up_def split: option.splits imap_pending.splits)
  moreover have "list_all (act_ok opt s) acts \<Longrightarrow> turns False acts = Some False" for acts
    using n(1) by (induction False acts rule: turns.induct) auto
  ultimately show ?thesis
    using assms acts_ok_gate [of opt s] queue_frame_ok by (auto simp: im_safe_def work_def imap_inv_def im_frame_def)
qed

lemma imap_inv_frame [simp]: "imap_inv opt (s\<lparr>im_reader := r\<rparr>) = imap_inv opt s" "waits (s\<lparr>im_reader := r\<rparr>) = waits s"
  by (simp_all add: imap_inv_def imap_wf_def queue_ok_def waits_def imap_authAllowed_def split: option.split imap_pending.split)

lemma ready_pending: "imap_wf opt s \<Longrightarrow> ready (s\<lparr>im_pending := None\<rparr>)"
  by (simp add: imap_wf_def ready_def)

lemma handleLine_work:
  assumes "imap_inv opt s" "case im_pending s of Some (IP_auth t) \<Rightarrow> False | Some (IP_backend k) \<Rightarrow> False | _ \<Rightarrow> True"
  shows "work opt s (imap_handleLine c opt rnd parts s)"
proof (cases "im_pending s")
  case None
  then have "ready s" using assms(1) ready_pending [of opt s] by (simp add: imap_inv_def imap_wf_def ready_def)
  from im_ok_work [OF handleLine_ok [OF this]] show ?thesis using assms(1) None by (simp add: imap_inv_def waits_def)
next
  case (Some p)
  show ?thesis
  proof (cases p)
    case (IP_saslLine sasl)
    then have "work opt (s\<lparr>im_pending := None\<rparr>) (imap_handleLine c opt rnd parts s)"
      using im_ok_work [OF saslLine_ok] assms(1) Some by (simp add: imap_inv_def waits_def queue_ok_def)
    then show ?thesis using Some IP_saslLine by (simp add: work_def waits_def)
  next
    case (IP_scramKeys x)
    then have "looking_up opt s" using assms(1) Some by (simp add: looking_up_def imap_inv_def)
    from lookup_work [OF this lookup_line_safe [OF this]] show ?thesis using assms(1) by (simp add: imap_inv_def)
  qed (use assms(2) Some in simp_all)
qed

section \<open>Calls\<close>

lemma pushed_work:
  assumes "imap_inv opt s"
  shows "im_queuedBytes s + lineBytes parts \<le> MAX_QUEUED_LINE_BYTES \<Longrightarrow>
      work opt s (s\<lparr>im_queued := im_queued s @ [parts], im_queuedBytes := im_queuedBytes s + lineBytes parts\<rparr>, [])"
    "work opt s (s\<lparr>im_queued := [], im_queuedBytes := 0, im_closed := True\<rparr>, [starReply t, IA_close])"
  using assms
  by (auto simp: work_def imap_inv_def imap_wf_def queue_ok_def waits_def imap_authAllowed_def starReply_def MAX_QUEUED_LINE_BYTES_def
      view_wf_def split: option.splits imap_pending.splits)

lemma handleReaderEvent_work:
  assumes "imap_inv opt s"
  shows "work opt s (handleReaderEvent c opt rnd ev s)"
proof (cases ev)
  case (RE_line parts)
  then show ?thesis
    using pushed_work(1) [OF assms, of parts] pushed_work(2) [OF assms] handleLine_work [OF assms, of c rnd parts]
    by (auto simp: handleReaderEvent_def Let_def split: option.splits imap_pending.splits)
qed (use work_refl [OF assms] in \<open>simp_all add: handleReaderEvent_def work_def starReply_def\<close>)

lemma imap_events_work: "imap_inv opt s \<Longrightarrow> work opt s (imap_events c opt rnd evs s)"
proof (induction c opt rnd evs s rule: imap_events.induct)
  case (2 c opt rnd ev evs s)
  obtain s1 a1 where h: "handleReaderEvent c opt (rnd 0) ev s = (s1, a1)" by force
  have w: "work opt s (s1, a1)" using handleReaderEvent_work [OF 2(2)] h by metis
  obtain s2 a2 where e: "imap_events c opt (\<lambda>i. rnd (Suc i)) evs s1 = (s2, a2)" by force
  have "\<not> im_closed s1 \<Longrightarrow> work opt s (s2, a1 @ a2)"
    using work_trans [OF w] 2(1) [OF h [symmetric] refl] w e by (simp add: work_def)
  then show ?case using h e w by simp
qed (simp add: work_refl)

lemma imap_feed_work:
  assumes "imap_inv opt s"
  shows "work opt s (imap_feed c opt rnd chunk s)"
proof -
  have "work opt (s\<lparr>im_reader := r\<rparr>) (imap_events c opt rnd evs (s\<lparr>im_reader := r\<rparr>))" for r evs
    using imap_events_work assms by simp
  then have "work opt s (imap_events c opt rnd evs (s\<lparr>im_reader := r\<rparr>))" for r evs by (simp add: work_def)
  then show ?thesis using work_refl [OF assms] by (simp add: imap_feed_def split: prod.split)
qed

lemma shifted_work:
  assumes "imap_inv opt s" "im_queued s = parts # q"
  shows "work opt s (s\<lparr>im_queued := q, im_queuedBytes := im_queuedBytes s - lineBytes parts\<rparr>, [])"
  using assms lineBytes_nonneg [of parts]
  by (auto simp: work_def imap_inv_def imap_wf_def queue_ok_def waits_def imap_authAllowed_def view_wf_def
      split: option.splits imap_pending.splits)

lemma imap_drain_work: "imap_inv opt s \<Longrightarrow> work opt s (imap_drain c opt rnd s)"
proof (induction c opt rnd s rule: imap_drain.induct)
  case (1 c opt rnd s)
  show ?case
  proof (cases "im_queued s")
    case Nil
    have "imap_inv opt (s\<lparr>im_queuedBytes := 0\<rparr>)"
      using 1(2) Nil by (simp add: imap_inv_def imap_wf_def queue_ok_def imap_authAllowed_def split: option.splits imap_pending.splits)
    then show ?thesis using Nil by (simp add: imap_drain.simps work_def waits_def)
  next
    case (Cons parts q)
    show ?thesis
    proof (cases "im_pending s \<noteq> None \<or> im_closed s")
      case True
      then show ?thesis using Cons work_refl [OF 1(2)] by (simp add: imap_drain.simps)
    next
      case False
      let ?s = "s\<lparr>im_queued := q, im_queuedBytes := im_queuedBytes s - lineBytes parts\<rparr>"
      obtain s1 a1 where h: "imap_handleLine c opt (rnd 0) parts ?s = (s1, a1)" by force
      obtain s2 a2 where d: "imap_drain c opt (\<lambda>i. rnd (Suc i)) s1 = (s2, a2)" by force
      note w = shifted_work [OF 1(2) Cons]
      have w1: "work opt ?s (s1, a1)"
        using handleLine_work [of opt ?s c "rnd 0" parts] w False h by (simp add: work_def)
      have "work opt s1 (s2, a2)" using 1(1) [OF Cons False refl h [symmetric]] w1 d by (simp add: work_def)
      then have "work opt s (s2, a1 @ a2)" using work_trans [OF work_trans [OF w w1]] by simp
      then show ?thesis using Cons False h d by (simp add: imap_drain.simps)
    qed
  qed
qed

lemma then_drain_work:
  assumes "work opt s (s1, a1)" "imap_drain c opt rnd s1 = (s2, a2)"
  shows "work opt s (s2, a1 @ a2)"
  using work_trans [OF assms(1)] imap_drain_work [of opt s1 c rnd] assms by (simp add: work_def)

lemma pending_gone:
  assumes "imap_inv opt s"
  shows "imap_inv opt (s\<lparr>im_pending := None\<rparr>)" "\<not> waits (s\<lparr>im_pending := None\<rparr>)"
  using assms by (simp_all add: imap_inv_def imap_wf_def queue_ok_def waits_def)

lemma backendResult_work:
  assumes "imap_inv opt s" "imap_backendResult lib c opt rnd res s = Inr r"
  shows "waits s \<and> work opt (s\<lparr>im_pending := None\<rparr>) r"
proof -
  let ?s = "s\<lparr>im_pending := None\<rparr>"
  obtain k where k: "im_pending s = Some (IP_backend k)"
    using assms(2) by (auto simp: imap_backendResult_def split: option.splits imap_pending.splits)
  obtain s1 a1 where h: "imap_resume lib k res ?s = (s1, a1)" by force
  have "ready ?s" "im_state ?s \<noteq> NotAuthenticated" "cont_wf ?s k"
    using assms(1) k by (auto simp: imap_inv_def imap_wf_def ready_def)
  then have "work opt ?s (s1, a1)"
    using imap_resume_resumed [of ?s k opt lib res] pending_gone [OF assms(1)] im_ok_work [of opt "cont_tag k" ?s] h
    by (simp add: resumed_def imap_inv_def)
  then show ?thesis
    using then_drain_work [of opt ?s s1 a1 c rnd] assms(2) k h by (auto simp: imap_backendResult_def waits_def split: prod.splits)
qed

lemma scramKeysResult_work:
  assumes "imap_inv opt s" "imap_scramKeysResult c ks s = Inr r"
  shows "work opt s r"
proof -
  obtain x sc where x: "im_pending s = Some (IP_scramKeys x)" "sl_scram x = Some sc"
    using assms(2) by (auto simp: imap_scramKeysResult_def split: option.splits imap_pending.splits)
  then have n: "im_state s = NotAuthenticated" "imap_authAllowed opt s" "queue_ok s" "view_wf s" "im_idleTag s = None"
    using assms(1) by (auto simp: imap_inv_def imap_wf_def)
  obtain session1 step where p: "provideKeys c ks (ix_session sc) = (session1, step)" by force
  have q: "imap_inv opt (s\<lparr>im_pending := None\<rparr>)" "imap_inv opt (s\<lparr>im_pending := Some (IP_saslLine y)\<rparr>)" for y
    using n by (auto simp: imap_inv_def imap_wf_def queue_ok_def imap_authAllowed_def)
  then have "work opt s (s\<lparr>im_pending := None\<rparr>, imap_scramFailed t step)" "work opt s (s\<lparr>im_pending := Some (IP_saslLine y)\<rparr>, [imap_challenge m])"
    for t y m
    using x by (simp_all add: work_def waits_def imap_scramFailed_def imap_challenge_def tagReply_def)
  then show ?thesis
    using assms(2) x p by (auto simp: imap_scramKeysResult_def split: scram_step.splits)
qed

definition granted :: "imap_options \<Rightarrow> bool \<Rightarrow> imap \<Rightarrow> imap" where
  "granted opt g s =
     (if g then s\<lparr>im_pending := None, im_state := Authenticated, im_reader := setMaxLiteralBytes (authedMaxLiteralBytes opt) (im_reader s)\<rparr>
      else s\<lparr>im_pending := None\<rparr>)"

lemma authResult_work:
  assumes "imap_inv opt s" "imap_authResult c opt rnd g s = Inr r"
  shows "\<not> waits s \<and> \<not> authed s \<and> work opt (granted opt g s) r"
proof -
  obtain tag where t: "im_pending s = Some (IP_auth tag)"
    using assms(2) by (auto simp: imap_authResult_def split: option.splits imap_pending.splits)
  then have n: "im_state s = NotAuthenticated" "im_selected s = None" "im_idleTag s = None"
    using assms(1) by (auto simp: imap_inv_def imap_wf_def view_wf_def)
  have "imap_inv opt (granted opt g s)"
    using assms(1) n by (simp add: granted_def imap_inv_def imap_wf_def queue_ok_def view_wf_def)
  then have "work opt (granted opt g s) (granted opt g s, [tagReply tag w m])" for w m
    by (simp add: work_def tagReply_def)
  from then_drain_work [OF this, of c rnd] show ?thesis
    using assms(2) t n by (auto simp: imap_authResult_def granted_def waits_def Let_def split: prod.splits if_splits)
qed

lemma idleTick_work:
  assumes "imap_inv opt s"
  shows "work opt s (idleTick s)"
proof (cases "\<not> isIdling s \<or> im_pending s \<noteq> None \<or> im_state s \<noteq> Selected \<or> im_closed s")
  case False
  then have "ready s" using assms by (auto simp: imap_inv_def imap_wf_def ready_def)
  then have "work opt s (refreshSelected None s)"
    using im_ok_work [OF refresh_ok [of s opt None]] False assms by (simp add: imap_inv_def waits_def)
  then show ?thesis using False by (simp add: idleTick_def)
qed (use work_refl [OF assms] in \<open>simp add: idleTick_def\<close>)

lemma tls_work:
  assumes "imap_inv opt s"
  shows "work opt (s\<lparr>im_secure := True\<rparr>) (imap_tlsEstablished s)"
proof -
  have "imap_inv opt (s\<lparr>im_secure := True, im_awaitingTls := False\<rparr>)"
    using assms by (auto simp: imap_inv_def imap_wf_def queue_ok_def view_wf_def imap_authAllowed_def on_view_def
        elim!: cont_wf.elims split: option.splits imap_pending.splits)
  then show ?thesis by (simp add: work_def imap_tlsEstablished_def waits_def)
qed

section \<open>Sessions\<close>

datatype imap_log = ImIn imap_input | ImOut imap_action

inductive imap_session :: "mime_lib \<Rightarrow> crypto \<Rightarrow> imap_options \<Rightarrow> imap \<Rightarrow> imap_log list \<Rightarrow> bool" for lib c opt where
  im_start: "imap_session lib c opt (imap_new opt) []"
| im_call: "imap_session lib c opt s h \<Longrightarrow> imap_call lib c opt rnd i s = Inr (s', out) \<Longrightarrow>
    imap_session lib c opt s' (h @ ImIn i # map ImOut out)"

fun is_response :: "imap_input \<Rightarrow> bool" where
  "is_response (Im_backend res) \<longleftrightarrow> True"
| "is_response _ \<longleftrightarrow> False"

lemma imap_call_kept:
  assumes "imap_inv opt s" "imap_call lib c opt rnd i s = Inr (s', out)"
  shows "imap_inv opt s'" "authed s' = (authed s \<or> i = Im_auth True)" "im_secure s' = (im_secure s \<or> i = Im_tls)"
    "list_all (gate opt (authed s') (im_secure s')) out"
    "is_response i \<longrightarrow> waits s" "turns (waits s \<and> \<not> is_response i) out = Some (waits s')"
proof -
  have "imap_inv opt s' \<and> authed s' = (authed s \<or> i = Im_auth True) \<and> im_secure s' = (im_secure s \<or> i = Im_tls) \<and>
      list_all (gate opt (authed s') (im_secure s')) out \<and> (is_response i \<longrightarrow> waits s) \<and>
      turns (waits s \<and> \<not> is_response i) out = Some (waits s')"
  proof (cases i)
    case (Im_feed b)
    then show ?thesis using imap_feed_work [OF assms(1), of c rnd b] assms(2) by (simp add: work_def)
  next
    case (Im_backend res)
    then show ?thesis using backendResult_work [OF assms(1), of lib c rnd res] assms(2) by (simp add: work_def waits_def)
  next
    case (Im_scramKeys ks)
    then show ?thesis using scramKeysResult_work [OF assms(1)] assms(2) by (fastforce simp: work_def)
  next
    case (Im_auth g)
    then show ?thesis
      using authResult_work [OF assms(1), of c rnd g] assms(2) by (cases g) (auto simp: work_def granted_def waits_def)
  next
    case Im_tls
    then show ?thesis using tls_work [OF assms(1)] assms(2) by (simp add: work_def waits_def)
  next
    case Im_tick
    then show ?thesis using idleTick_work [OF assms(1)] assms(2) by (simp add: work_def)
  qed
  then show "imap_inv opt s'" "authed s' = (authed s \<or> i = Im_auth True)" "im_secure s' = (im_secure s \<or> i = Im_tls)"
    "list_all (gate opt (authed s') (im_secure s')) out"
    "is_response i \<longrightarrow> waits s" "turns (waits s \<and> \<not> is_response i) out = Some (waits s')" by blast+
qed

lemma imap_inv_new: "imap_inv opt (imap_new opt)"
  by (simp add: imap_inv_def imap_new_def imap_wf_def queue_ok_def view_wf_def MAX_QUEUED_LINE_BYTES_def)

lemma session_inv: "imap_session lib c opt s h \<Longrightarrow> imap_inv opt s"
  by (induction rule: imap_session.induct) (blast intro: imap_inv_new imap_call_kept)+

lemma session_flags:
  "imap_session lib c opt s h \<Longrightarrow>
     authed s = (ImIn (Im_auth True) \<in> set h) \<and> im_secure s = (io_secure opt \<or> ImIn Im_tls \<in> set h)"
proof (induction rule: imap_session.induct)
  case (im_call s h rnd i s' out)
  then show ?case using imap_call_kept(2,3) [OF session_inv [OF im_call(1)] im_call(2)] by auto
qed (simp add: imap_new_def)

text \<open>An event of the log whose place is known.\<close>

lemma log_split:
  assumes "h @ ImIn i # map ImOut out = pre @ ImOut a # post"
  obtains q where "h = pre @ ImOut a # q"
  | q where "a \<in> set out" "pre = h @ ImIn i # map ImOut q"
proof -
  from assms consider q where "h = pre @ ImOut a # q"
    | q where "pre = h @ q" "ImIn i # map ImOut out = q @ ImOut a # post"
    by (auto simp: append_eq_append_conv2 Cons_eq_append_conv append_eq_Cons_conv)
  then show ?thesis
  proof cases
    case (2 q)
    then obtain r where r: "q = ImIn i # r" "map ImOut out = r @ ImOut a # post" by (cases q) auto
    then obtain o1 o2 where "out = o1 @ a # o2" "map ImOut o1 = r" by (auto simp: map_eq_append_conv map_eq_Cons_conv)
    then show ?thesis using that(2) 2 r by auto
  qed (use that(1) in blast)
qed

lemma session_gate:
  "imap_session lib c opt s h \<Longrightarrow> h = pre @ ImOut a # post \<Longrightarrow>
     gate opt (ImIn (Im_auth True) \<in> set pre) (io_secure opt \<or> ImIn Im_tls \<in> set pre) a"
proof (induction arbitrary: post rule: imap_session.induct)
  case (im_call s h rnd i s' out)
  note k = imap_call_kept [OF session_inv [OF im_call(1)] im_call(2)] and f = session_flags [OF im_call(1)]
  from im_call(4) show ?case
  proof (cases rule: log_split)
    case (1 q)
    then show ?thesis using im_call(3) by blast
  next
    case (2 q)
    then have "gate opt (authed s') (im_secure s') a" using k(4) by (auto simp: list_all_iff)
    moreover have "authed s' = (ImIn (Im_auth True) \<in> set pre)" "im_secure s' = (io_secure opt \<or> ImIn Im_tls \<in> set pre)"
      using k(2,3) f 2 by auto
    ultimately show ?thesis by simp
  qed
qed simp

text \<open>The order of requests and responses in a log: \<open>Some True\<close> while a request is out, \<open>None\<close> once they do not alternate.\<close>

fun log_turn :: "imap_log \<Rightarrow> bool option \<Rightarrow> bool option" where
  "log_turn (ImOut (IA_backend r)) w = (if w = Some False then Some True else None)"
| "log_turn (ImIn (Im_backend res)) w = (if w = Some True then Some False else None)"
| "log_turn e w = w"

lemma log_turn_out: "fold log_turn (map ImOut out) w = Option.bind w (\<lambda>v. turns v out)"
proof (induction out arbitrary: w)
  case (Cons a out)
  then show ?case by (cases a; cases w; auto)
qed simp

lemma log_turn_in: "log_turn (ImIn i) w = (if is_response i then (if w = Some True then Some False else None) else w)"
  by (cases i) auto

lemma session_turns: "imap_session lib c opt s h \<Longrightarrow> fold log_turn h (Some False) = Some (waits s)"
proof (induction rule: imap_session.induct)
  case (im_call s h rnd i s' out)
  then show ?case
    using imap_call_kept(5,6) [OF session_inv [OF im_call(1)] im_call(2)]
    by (auto simp: log_turn_out log_turn_in simp del: log_turn.simps)
qed (simp add: imap_new_def waits_def)

end
