(* ===== verification/ImapView.thy ===== *)
theory ImapView
  imports ImapSafety
begin

text \<open>
  What a client makes of the untagged replies: replaying the \<open>EXPUNGE\<close> and \<open>EXISTS\<close> of a refresh gives the
  server's view, \<open>$\<close> means the messages that were found, \<open>\HasChildren\<close> tells whether a mailbox has children.
\<close>

section \<open>Removing messages\<close>

lemma nths_cong: "(\<And>i. i < length xs \<Longrightarrow> i \<in> A \<longleftrightarrow> i \<in> B) \<Longrightarrow> nths xs A = nths xs B"
proof -
  assume a: "\<And>i. i < length xs \<Longrightarrow> i \<in> A \<longleftrightarrow> i \<in> B"
  have "filter (\<lambda>p. snd p \<in> A) (zip xs [0..<length xs]) = filter (\<lambda>p. snd p \<in> B) (zip xs [0..<length xs])"
    using a by (intro filter_cong) (auto simp: set_zip)
  then show "nths xs A = nths xs B" by (simp add: nths_def)
qed

lemma splice_nths:
  assumes "sorted_wrt (>) js" "\<forall>i \<in> set js. i < length xs"
  shows "fold splice_at js xs = nths xs (- set js)"
  using assms
proof (induction js arbitrary: xs)
  case (Cons i js)
  then have i: "i < length xs" "\<forall>j \<in> set js. j < i" by auto
  then have "\<forall>j \<in> set js. j < length (splice_at i xs)" by (auto simp: splice_at_def)
  with Cons have "fold splice_at (i # js) xs = nths (splice_at i xs) (- set js)" by simp
  also have "\<dots> = nths (take i xs @ [xs ! i] @ drop (Suc i) xs) (- set (i # js))"
  proof -
    have s: "{j. j + i \<in> - set js} = UNIV" using i(2) by force
    have t: "nths (take i xs) (- set (i # js)) = nths (take i xs) (- set js)" by (rule nths_cong) simp
    have l: "length (take i xs) = i" using i(1) by simp
    have n: "Suc (j + i) \<notin> set js" for j using i(2) by force
    show ?thesis unfolding splice_at_def nths_append l t s by (simp add: nths_all n)
  qed
  also have "take i xs @ [xs ! i] @ drop (Suc i) xs = xs" using id_take_nth_drop [OF i(1)] by simp
  finally show ?case .
qed (simp add: nths_all)

lemma indexOf_distinct:
  assumes "distinct xs"
  shows "indexOf u xs = Some i \<longleftrightarrow> i < length xs \<and> xs ! i = u"
  using assms
proof (induction xs arbitrary: i)
  case (Cons x xs)
  show ?case
  proof (cases i)
    case 0
    then show ?thesis by auto
  next
    case (Suc n)
    then show ?thesis using Cons by (auto dest: nth_mem)
  qed
qed simp

lemma map_filter_mem: "y \<in> set (List.map_filter f xs) \<longleftrightarrow> (\<exists>x \<in> set xs. f x = Some y)"
  by (induction xs) (auto split: option.splits)

lemma indexes_set:
  assumes "distinct xs"
  shows "set (List.map_filter (\<lambda>u. indexOf u xs) us) = {i. i < length xs \<and> xs ! i \<in> set us}"
  using indexOf_distinct [OF assms] by (auto simp: map_filter_mem)

lemma indexes_distinct:
  assumes "distinct xs" "distinct us"
  shows "distinct (List.map_filter (\<lambda>u. indexOf u xs) us)"
  using assms(2)
proof (induction us)
  case (Cons u us)
  then show ?case using indexOf_distinct [OF assms(1)] by (auto simp: map_filter_mem split: option.splits)
qed simp

lemma expunged_view:
  assumes "distinct xs" "distinct us"
  shows "fold splice_at (descendingIndexes xs us) xs = filter (\<lambda>u. u \<notin> set us) xs"
proof -
  let ?is = "List.map_filter (\<lambda>u. indexOf u xs) us"
  note e = indexes_set [OF assms(1), of us] and d = indexes_distinct [OF assms]
  have "sorted_wrt (<) (sort ?is)" using d by (simp add: strict_sorted_iff)
  then have "sorted_wrt (>) (descendingIndexes xs us)" by (simp add: descendingIndexes_def sorted_wrt_rev)
  then have "fold splice_at (descendingIndexes xs us) xs = nths xs (- {i. i < length xs \<and> xs ! i \<in> set us})"
    using splice_nths [of "descendingIndexes xs us" xs] e by (simp add: descendingIndexes_def)
  also have "\<dots> = nths xs {i. i < length xs \<and> xs ! i \<notin> set us}" by (rule nths_cong) simp
  also have "\<dots> = filter (\<lambda>u. u \<notin> set us) xs" by (rule filter_eq_nths [symmetric])
  finally show ?thesis .
qed

lemma removal_view:
  assumes "im_selected s = Some v" "distinct (vw_uids v)" "distinct gone" "''QRESYNC'' \<notin> set (im_enabled s)"
  shows "removalActions gone s =
    (s\<lparr>im_selected := Some (v\<lparr>vw_uids := filter (\<lambda>u. u \<notin> set gone) (vw_uids v)\<rparr>)\<rparr>, map expungeReply (descendingIndexes (vw_uids v) gone))"
  using assms expunged_view [OF assms(2,3)] by (simp add: removalActions_def Let_def)

section \<open>Refreshing\<close>

lemma sorted_merge:
  assumes "sorted new" "distinct new" "distinct old" "\<forall>a \<in> set new - set old. \<forall>b \<in> set old. (b::nat) < a"
    "sorted old"
  shows "filter (\<lambda>u. u \<in> set new) old @ filter (\<lambda>u. u \<notin> set old) new = new"
    "sort (filter (\<lambda>u. u \<in> set new) old @ filter (\<lambda>u. u \<notin> set old) new) = new"
proof -
  let ?l = "filter (\<lambda>u. u \<in> set new) old @ filter (\<lambda>u. u \<notin> set old) new"
  have "sorted ?l" using assms(1,4,5) by (auto simp: sorted_append sorted_wrt_filter less_imp_le)
  moreover have "distinct ?l" "set ?l = set new" using assms(2,3) by auto
  ultimately show e: "?l = new" using assms(1,2) by (blast intro: sorted_distinct_set_unique)
  then show "sort ?l = new" using assms(1) by (simp add: sorted_sort_id)
qed

lemma fold_uidnext: "vw_uids (addUids new v) = sort (vw_uids v @ new)"
  by (simp add: addUids_def)

lemma refresh_replay:
  assumes "im_selected s = Some v" "''QRESYNC'' \<notin> set (im_enabled s)" "sorted (vw_uids v)" "distinct (vw_uids v)"
    "sorted uids" "distinct uids" "\<forall>a \<in> set uids - set (vw_uids v). \<forall>b \<in> set (vw_uids v). b < a"
    "refreshView m uids s = (s1, acts)"
  shows "\<exists>v1. im_selected s1 = Some v1 \<and> vw_uids v1 = uids"
    "\<exists>gone new. acts = map expungeReply gone @ (if new = [] then [] else [existsReply uids]) \<and> fold splice_at gone (vw_uids v) @ new = uids"
proof -
  let ?old = "vw_uids v"
  define G where "G = filter (\<lambda>u. u \<notin> set uids) ?old"
  define K where "K = filter (\<lambda>u. u \<notin> set G) ?old"
  define N where "N = filter (\<lambda>u. u \<notin> set K) uids"
  have K: "K = filter (\<lambda>u. u \<in> set uids) ?old" unfolding K_def by (rule filter_cong) (auto simp: G_def)
  have N: "N = filter (\<lambda>u. u \<notin> set ?old) uids" unfolding N_def by (rule filter_cong) (auto simp: K)
  have merged: "K @ N = uids" "sort (K @ N) = uids"
    unfolding K N by (rule sorted_merge [OF assms(5,6,4,7,3)])+
  have G: "distinct G" using assms(4) by (simp add: G_def)
  have r: "removalActions G s = (s\<lparr>im_selected := Some (v\<lparr>vw_uids := K\<rparr>)\<rparr>, map expungeReply (descendingIndexes ?old G))"
    using removal_view [OF assms(1,4) G assms(2)] by (simp add: K_def)
  let ?v = "v\<lparr>vw_uids := K, vw_uidnext := max (vw_uidnext v) (mb_uidnext m)\<rparr>"
  have x: "vw_uids (addUids N ?v) = uids" using merged(2) by (simp add: fold_uidnext)
  have f: "(s1, acts) = (if N \<noteq> [] then (s\<lparr>im_selected := Some (addUids N ?v)\<rparr>, map expungeReply (descendingIndexes ?old G) @ [existsReply uids])
      else (s\<lparr>im_selected := Some ?v\<rparr>, map expungeReply (descendingIndexes ?old G)))"
    using assms(1,8) r x by (cases "N = []") (simp_all add: refreshView_def Let_def G_def [symmetric] N_def [symmetric])
  show "\<exists>v1. im_selected s1 = Some v1 \<and> vw_uids v1 = uids"
    using f x merged(1) by (cases "N = []") auto
  have "fold splice_at (descendingIndexes ?old G) ?old @ N = uids"
    using expunged_view [OF assms(4) G] merged(1) by (simp add: K_def)
  moreover have "acts = map expungeReply (descendingIndexes ?old G) @ (if N = [] then [] else [existsReply uids])"
    using f by (cases "N = []") auto
  ultimately show "\<exists>gone new. acts = map expungeReply gone @ (if new = [] then [] else [existsReply uids]) \<and>
      fold splice_at gone ?old @ new = uids" by blast
qed

section \<open>The saved search\<close>

lemma match_singletons:
  "matchSequenceSet (map (\<lambda>n. \<lparr>sr_from = SeqNum n, sr_to = SeqNum n\<rparr>) ns) x mx \<longleftrightarrow> x \<in> set ns"
  by (induction ns) (auto simp: rangeBounds_def Let_def)

lemma saved_numbers:
  assumes "distinct uids"
  shows "n \<in> set (savedNumbers uids uidMode saved) \<longleftrightarrow>
    (\<exists>i < length uids. uids ! i \<in> set saved \<and> n = (if uidMode then uids ! i else i + 1))"
  using indexOf_distinct [OF assms] by (cases uidMode) (auto simp: savedNumbers_def map_filter_mem)

lemma saved_targets:
  assumes "im_selected s = Some v" "distinct (vw_uids v)"
  shows "\<exists>ranges. resolveSetArg ''$'' uidMode s = Some ranges \<and>
    resolveTargets ranges uidMode s =
      filter (\<lambda>(seq, uid). uid \<in> set (im_savedSearch s)) (zip [1..<Suc (length (vw_uids v))] (vw_uids v))"
proof -
  let ?u = "vw_uids v" and ?g = "im_savedSearch s"
  let ?r = "map (\<lambda>n. \<lparr>sr_from = SeqNum n, sr_to = SeqNum n\<rparr>) (sort (savedNumbers ?u uidMode ?g))"
  have e: "?u ! i = ?u ! j \<longleftrightarrow> i = j" if "i < length ?u" "j < length ?u" for i j
    using that nth_eq_iff_index_eq [OF assms(2)] by blast
  have m: "matchSequenceSet ?r (if uidMode then ?u ! i else Suc i) mx \<longleftrightarrow> ?u ! i \<in> set ?g" if "i < length ?u" for i mx
    using that e by (auto simp: match_singletons saved_numbers [OF assms(2)])
  have "resolveTargets ?r uidMode s = filter (\<lambda>(seq, uid). uid \<in> set ?g) (zip [1..<Suc (length ?u)] ?u)"
    unfolding resolveTargets_def assms(1) option.case Let_def
  proof (cases uidMode)
    case True
    then show "(if uidMode then filter (\<lambda>(seq, uid). matchSequenceSet ?r uid (if length ?u > 0 then last ?u else 0)) (zip [1..<Suc (length ?u)] ?u)
        else filter (\<lambda>(seq, uid). matchSequenceSet ?r seq (length ?u)) (zip [1..<Suc (length ?u)] ?u)) =
        filter (\<lambda>(seq, uid). uid \<in> set ?g) (zip [1..<Suc (length ?u)] ?u)"
      using m by (auto simp: set_zip intro!: filter_cong simp del: upt_Suc)
  next
    case False
    then show "(if uidMode then filter (\<lambda>(seq, uid). matchSequenceSet ?r uid (if length ?u > 0 then last ?u else 0)) (zip [1..<Suc (length ?u)] ?u)
        else filter (\<lambda>(seq, uid). matchSequenceSet ?r seq (length ?u)) (zip [1..<Suc (length ?u)] ?u)) =
        filter (\<lambda>(seq, uid). uid \<in> set ?g) (zip [1..<Suc (length ?u)] ?u)"
      using m by (auto simp: set_zip intro!: filter_cong simp del: upt_Suc)
  qed
  then show ?thesis using assms(1) by (simp add: resolveSetArg_def)
qed

section \<open>Children\<close>

lemma split_char_both: "split_char c (xs @ c # ys) = split_char c xs @ split_char c ys"
proof (induction xs)
  case (Cons x xs)
  obtain w ws where "split_char c xs = w # ws" by (meson neq_Nil_conv split_char_not_Nil)
  with Cons show ?case by simp
qed simp

lemma join_append: "xs \<noteq> [] \<Longrightarrow> ys \<noteq> [] \<Longrightarrow> join sep (xs @ ys) = join sep xs @ sep @ join sep ys"
proof (induction xs)
  case (Cons x xs)
  then show ?case by (cases "xs = []") (auto simp: join_Cons)
qed simp

lemma ancestors_iff: "p \<in> set (ancestors name) \<longleftrightarrow> startsWith (p @ [HIERARCHY_DELIMITER]) name"
proof
  let ?segs = "split_char HIERARCHY_DELIMITER name"
  assume "p \<in> set (ancestors name)"
  then obtain i where i: "1 \<le> i" "i < length ?segs" "p = join [HIERARCHY_DELIMITER] (take i ?segs)"
    by (auto simp: ancestors_def Let_def)
  have "name = join [HIERARCHY_DELIMITER] (take i ?segs @ drop i ?segs)" by (simp add: join_split_char)
  also have "\<dots> = p @ [HIERARCHY_DELIMITER] @ join [HIERARCHY_DELIMITER] (drop i ?segs)"
    using i by (subst join_append) auto
  finally show "startsWith (p @ [HIERARCHY_DELIMITER]) name" by (auto simp: startsWith_iff)
next
  assume "startsWith (p @ [HIERARCHY_DELIMITER]) name"
  then obtain r where n: "name = p @ HIERARCHY_DELIMITER # r" by (auto simp: startsWith_iff)
  let ?i = "length (split_char HIERARCHY_DELIMITER p)"
  have "?i \<in> {1..<length (split_char HIERARCHY_DELIMITER name)}"
    using split_char_not_Nil [of HIERARCHY_DELIMITER p] split_char_not_Nil [of HIERARCHY_DELIMITER r]
    by (simp add: n split_char_both Suc_le_eq del: split_char_not_Nil)
  moreover have "join [HIERARCHY_DELIMITER] (take ?i (split_char HIERARCHY_DELIMITER name)) = p"
    by (simp add: n split_char_both join_split_char)
  ultimately show "p \<in> set (ancestors name)" unfolding ancestors_def Let_def set_map set_upt by (metis image_eqI)
qed

lemma parentPaths_iff:
  "p \<in> set (parentPaths mbs) \<longleftrightarrow> (\<exists>m \<in> set mbs. startsWith (p @ [HIERARCHY_DELIMITER]) (mb_name m))"
  by (auto simp: parentPaths_def ancestors_iff)

end
