(* ===== verification/ImapAnswers.thy ===== *)
theory ImapAnswers
  imports ImapView
begin

text \<open>
  Whole commands: a command with the responses it waits for is answered once, and a SEARCH that asks the backend
  for one batch after the other, without the text of the messages where the criteria do not need it, finds what a
  single pass over the whole messages finds.
\<close>

section \<open>Responses until the answer\<close>

definition waits_for :: "imap \<Rightarrow> nat" where
  "waits_for s = (case im_pending s of Some (IP_backend k) \<Rightarrow> rounds k | _ \<Rightarrow> 0)"

fun imap_serve :: "mime_lib \<Rightarrow> imap_response list \<Rightarrow> imap \<Rightarrow> imap \<times> imap_action list" where
  "imap_serve lib [] s = (s, [])"
| "imap_serve lib (r # rs) s =
     (case im_pending s of
        Some (IP_backend k) \<Rightarrow>
          (let (s1, a1) = imap_resume lib k r (s\<lparr>im_pending := None\<rparr>); (s2, a2) = imap_serve lib rs s1 in (s2, a1 @ a2))
      | _ \<Rightarrow> (s, []))"

lemma serve_idle: "im_pending s = None \<Longrightarrow> imap_serve lib rs s = (s, [])"
  by (cases rs) simp_all

lemma serve_answered:
  assumes "imap_wf opt s" "im_pending s = Some (IP_backend k)" "cont_tag k = Some tag" "im_idleTag s = None" "rounds k \<le> length rs"
  shows "im_pending (fst (imap_serve lib rs s)) = None \<and> im_answered tag (snd (imap_serve lib rs s))"
  using assms
proof (induction rs arbitrary: s k)
  case Nil
  then show ?case by (cases k) simp_all
next
  case (Cons r rs)
  let ?s = "s\<lparr>im_pending := None\<rparr>"
  obtain s1 a1 where h: "imap_resume lib k r ?s = (s1, a1)" by force
  have "ready ?s" "im_state ?s \<noteq> NotAuthenticated" "cont_wf ?s k" using Cons(2,3) by (auto simp: imap_wf_def ready_def)
  from imap_resume_resumed [OF this, of opt lib r]
  have g: "im_ok opt (Some tag) ?s (s1, a1)" "im_idleTag s1 = None"
    "case im_pending s1 of None \<Rightarrow> True | Some (IP_backend k1) \<Rightarrow> rounds k1 < rounds k | Some _ \<Rightarrow> False"
    using Cons(4,5) h by (simp_all add: resumed_def)
  show ?case
  proof (cases "im_pending s1")
    case None
    then have "im_answered tag a1" using g(1,2) by (simp add: im_ok_def answers_def)
    then show ?thesis using Cons(3) h None serve_idle [OF None] by simp
  next
    case (Some p)
    then obtain k1 where k: "im_pending s1 = Some (IP_backend k1)" "rounds k1 \<le> length rs"
      using g(3) Cons(6) by (cases p) simp_all
    have "imap_wf opt s1" "cont_tag k1 = Some tag" "list_all untagged a1" using g(1) k(1) by (simp_all add: im_ok_def answers_def)
    with Cons(1) [OF _ k(1) _ g(2) k(2)] show ?thesis
      using Cons(3) h untagged_prefix by (auto split: prod.splits)
  qed
qed

lemma command_answered:
  assumes "imap_inv opt s" "im_pending s = None" "im_idleTag s = None" "authed s" "parseCommand parts = Some (Inr cmd)"
    "imap_handleLine c opt rnd parts s = (s1, a1)" "waits_for s1 \<le> length rs" "imap_serve lib rs s1 = (s2, a2)"
  shows "im_pending s2 = None \<and>
    (im_answered (pc_tag cmd) (a1 @ a2) \<or> im_idleTag s2 = Some (pc_tag cmd) \<and> list_all untagged (a1 @ a2))"
proof -
  have "ready s" using assms(1,2) by (simp add: imap_inv_def imap_wf_def ready_def)
  moreover have "line_tag s parts = Some (pc_tag cmd)" using assms(2,3,5) by (simp add: line_tag_def)
  ultimately have ok: "im_ok opt (Some (pc_tag cmd)) s (s1, a1)" using handleLine_ok [of s opt parts c rnd] assms(6) by simp
  show ?thesis
  proof (cases "im_pending s1")
    case None
    then show ?thesis using ok assms(8) serve_idle [OF None] by (auto simp: im_ok_def answers_def)
  next
    case (Some p)
    have wf: "imap_wf opt s1" and a: "authed s1" using ok assms(4) by (auto simp: im_ok_def im_frame_def)
    then obtain k where k: "im_pending s1 = Some (IP_backend k)" using Some by (cases p) (auto simp: imap_wf_def)
    have t: "cont_tag k = Some (pc_tag cmd)" "list_all untagged a1" using ok k by (simp_all add: im_ok_def answers_def)
    have "im_idleTag s1 = None" using ok k assms(3) by (simp add: im_ok_def)
    then show ?thesis
      using serve_answered [OF wf k t(1), of rs lib] assms(7,8) k untagged_prefix t(2) by (simp add: waits_for_def)
  qed
qed

section \<open>Searching in batches\<close>

text \<open>A backend with the messages \<open>db\<close>: it sends the text of a message only when it is asked to.\<close>

definition without_raw :: "bool \<Rightarrow> fetch_data \<Rightarrow> fetch_data" where
  "without_raw needRaw d = (if needRaw then d else d\<lparr>fd_raw := None\<rparr>)"

definition db_response :: "(nat \<Rightarrow> fetch_data option) \<Rightarrow> imap_request \<Rightarrow> imap_response" where
  "db_response db req =
     (case req of
        RQ_fetchMessages name uids needRaw mark sortKeys \<Rightarrow>
          RS_messages (List.map_filter (\<lambda>u. map_option (without_raw needRaw) (db u)) uids)
      | _ \<Rightarrow> RS_ok)"

text \<open>Every request that is out is answered by \<open>ans\<close>; the requests are taken out of the actions.\<close>

fun imap_converse :: "mime_lib \<Rightarrow> (imap_request \<Rightarrow> imap_response) \<Rightarrow> nat \<Rightarrow> imap \<times> imap_action list \<Rightarrow> imap \<times> imap_action list" where
  "imap_converse lib ans 0 r = r"
| "imap_converse lib ans (Suc n) (s, acts) =
     (case (im_pending s, rev acts) of
        (Some (IP_backend k), IA_backend req # before) \<Rightarrow>
          (let (s1, a1) = imap_resume lib k (ans req) (s\<lparr>im_pending := None\<rparr>) in imap_converse lib ans n (s1, rev before @ a1))
      | _ \<Rightarrow> (s, acts))"

text \<open>The reference: the messages of the view, with their numbers, for which the criteria hold of the whole message.\<close>

definition whole_message :: "nat \<Rightarrow> nat \<Rightarrow> fetch_data \<Rightarrow> search_message" where
  "whole_message seq uid d =
     \<lparr>sm_seq = seq, sm_uid = uid, sm_flags = fd_flags d, sm_size = fd_size d, sm_internalDateMs = fd_internalDateMs d,
      sm_saveDateMs = fd_saveDateMs d, sm_modseq = Some (fd_modseq d), sm_raw = fd_raw d\<rparr>"

definition found :: "mime_lib \<Rightarrow> (nat \<Rightarrow> fetch_data option) \<Rightarrow> search_key \<Rightarrow> nat list \<Rightarrow> nat \<times> nat \<Rightarrow> bool" where
  "found lib db key uids = (\<lambda>(seq, uid).
     case db uid of None \<Rightarrow> False | Some d \<Rightarrow> evaluateSearch lib key (whole_message seq uid d) (length uids) (last uids))"

definition searchAll :: "mime_lib \<Rightarrow> (nat \<Rightarrow> fetch_data option) \<Rightarrow> search_key \<Rightarrow> nat list \<Rightarrow> (nat \<times> nat) list" where
  "searchAll lib db key uids = filter (found lib db key uids) (zip [1..<Suc (length uids)] uids)"

lemma evaluate_without_raw:
  "evaluateSearch lib key (whole_message seq uid (without_raw (searchNeedsRaw key) d)) x y =
   evaluateSearch lib key (whole_message seq uid d) x y"
proof (cases "searchNeedsRaw key")
  case False
  have "whole_message seq uid (without_raw False d) = (whole_message seq uid d)\<lparr>sm_raw := None\<rparr>"
    by (simp add: whole_message_def without_raw_def)
  then show ?thesis using evaluateSearch_raw [OF False] False by simp
qed (simp add: without_raw_def)

lemma map_of_determined:
  assumes "\<And>k v. (k, v) \<in> set l \<Longrightarrow> g k = Some v" "(\<exists>v. (u, v) \<in> set l) \<or> g u = None"
  shows "map_of l u = g u"
proof (cases "map_of l u")
  case None
  then have "(u, v) \<notin> set l" for v by (force simp: map_of_eq_None_iff)
  then show ?thesis using None assms(2) by simp
next
  case (Some a)
  then show ?thesis using assms(1) [OF map_of_SomeD [OF Some]] by simp
qed

lemma byUid_db:
  assumes "\<And>v d. g v = Some d \<Longrightarrow> fd_uid d = v" "u \<in> set uids"
  shows "byUid (List.map_filter g uids) u = g u"
  unfolding byUid_def
proof (rule map_of_determined)
  let ?l = "rev (map (\<lambda>m. (fd_uid m, m)) (List.map_filter g uids))"
  show "g k = Some v" if "(k, v) \<in> set ?l" for k v
    using that assms(1) by (auto simp: map_filter_mem)
  show "(\<exists>v. (u, v) \<in> set ?l) \<or> g u = None"
  proof (cases "g u")
    case (Some d)
    then have "(u, d) \<in> set ?l" using assms by (force simp: map_filter_mem)
    then show ?thesis by blast
  qed simp
qed

lemma map_filter_guard:
  assumes "\<And>x. x \<in> set xs \<Longrightarrow> f x = (if P x then Some (g x) else None)"
  shows "List.map_filter f xs = map g (filter P xs)"
  using assms by (induction xs) auto

lemma zip_shift: "zip [Suc n..<Suc (n + length xs)] xs = map (\<lambda>(k, x). (n + k + 1, x)) (zip [0..<length xs] xs)"
  by (rule nth_equalityI) (auto simp del: upt_Suc)

lemma batchMatches_found:
  assumes "\<And>u d. db u = Some d \<Longrightarrow> fd_uid d = u" "n = batchSize (searchNeedsRaw (se_key c))"
    "batch = take n (drop off (se_uids c))"
  shows "map (\<lambda>(seq, uid, d). (seq, uid)) (batchMatches lib c off
      (List.map_filter (\<lambda>u. map_option (without_raw (searchNeedsRaw (se_key c))) (db u)) batch)) =
    filter (found lib db (se_key c) (se_uids c)) (zip [Suc off..<Suc (off + length batch)] batch)"
proof -
  let ?g = "\<lambda>u. map_option (without_raw (searchNeedsRaw (se_key c))) (db u)"
  let ?f = "found lib db (se_key c) (se_uids c)"
  have "fd_uid d = v" if "?g v = Some d" for v d using that assms(1) by (auto simp: without_raw_def)
  note b = byUid_db [of ?g, OF this]
  let ?h = "\<lambda>(k, uid). (off + k + 1, uid, without_raw (searchNeedsRaw (se_key c)) (the (db uid)))"
  have "batchMatches lib c off (List.map_filter ?g batch) =
      map ?h (filter (\<lambda>(k, uid). ?f (off + k + 1, uid)) (zip [0..<length batch] batch))"
    unfolding batchMatches_def Let_def assms(2,3) [symmetric]
  proof (rule map_filter_guard)
    fix x assume "x \<in> set (zip [0..<length batch] batch)"
    then obtain k uid where x: "x = (k, uid)" "uid \<in> set batch" by (metis set_zip_rightD surj_pair)
    show "(case x of (k, uid) \<Rightarrow> case byUid (List.map_filter ?g batch) uid of None \<Rightarrow> None
        | Some d \<Rightarrow> if evaluateSearch lib (se_key c)
              \<lparr>sm_seq = off + k + 1, sm_uid = uid, sm_flags = fd_flags d, sm_size = fd_size d,
               sm_internalDateMs = fd_internalDateMs d, sm_saveDateMs = fd_saveDateMs d,
               sm_modseq = Some (fd_modseq d), sm_raw = fd_raw d\<rparr> (length (se_uids c)) (last (se_uids c))
            then Some (off + k + 1, uid, d) else None) =
      (if case x of (k, uid) \<Rightarrow> ?f (off + k + 1, uid) then Some (?h x) else None)"
      using b [OF _ x(2)] evaluate_without_raw [of lib "se_key c"]
      by (cases "db uid") (simp_all add: x(1) found_def whole_message_def [symmetric])
  qed
  then show ?thesis
    by (simp add: zip_shift filter_map comp_def split_def del: upt_Suc)
qed

lemma zip_batches:
  assumes "k \<le> length xs"
  shows "zip [Suc m..<Suc (m + length xs)] xs =
    zip [Suc m..<Suc (m + k)] (take k xs) @ zip [Suc (m + k)..<Suc (m + length xs)] (drop k xs)"
proof -
  have "[Suc m..<Suc (m + length xs)] = [Suc m..<Suc (m + k)] @ [Suc (m + k)..<Suc (m + length xs)]"
    using assms upt_add_eq_append [of "Suc m" "Suc (m + k)" "length xs - k"] by (simp del: upt_Suc)
  then have "zip [Suc m..<Suc (m + length xs)] (take k xs @ drop k xs) =
      zip [Suc m..<Suc (m + k)] (take k xs) @ zip [Suc (m + k)..<Suc (m + length xs)] (drop k xs)"
    using assms by (subst zip_append [symmetric]) (simp_all del: upt_Suc)
  then show ?thesis by (simp del: upt_Suc)
qed

lemma converse_search:
  assumes "\<And>u d. db u = Some d \<Longrightarrow> fd_uid d = u" "im_pending s = None"
    "off < length (se_uids c)" "length (se_uids c) < n + off"
    "hits = filter (found lib db (se_key c) (se_uids c)) (zip [Suc off..<Suc (length (se_uids c))] (drop off (se_uids c)))"
  shows "imap_converse lib (db_response db) n (searchFrom c es off h u s) =
    (saveResult es (u @ map snd hits) s,
     searchReply (se_tag c) (se_uidMode c) es (h @ map (if se_uidMode c then snd else fst) hits) @ [completed (se_tag c) (se_verb c)])"
  using assms(3-)
proof (induction n arbitrary: off h u hits)
  case (Suc n)
  let ?b = "batchSize (searchNeedsRaw (se_key c))" and ?f = "found lib db (se_key c) (se_uids c)" and ?uids = "se_uids c"
  let ?batch = "take ?b (drop off ?uids)"
  let ?msgs = "List.map_filter (\<lambda>u. map_option (without_raw (searchNeedsRaw (se_key c))) (db u)) ?batch"
  let ?now = "filter ?f (zip [Suc off..<Suc (off + length ?batch)] ?batch)"
  have m: "map (\<lambda>(seq, uid, d). (seq, uid)) (batchMatches lib c off ?msgs) = ?now"
    by (rule batchMatches_found [OF assms(1) refl refl])
  have s: "map (\<lambda>(seq, uid, d). uid) (batchMatches lib c off ?msgs) = map snd ?now"
    "map (\<lambda>(seq, uid, d). if se_uidMode c then uid else seq) (batchMatches lib c off ?msgs) = map (if se_uidMode c then snd else fst) ?now"
    unfolding m [symmetric] by (simp_all add: split_def comp_def)
  have e: "s\<lparr>im_pending := None\<rparr> = s" using assms(2) by (cases s) simp
  have r: "imap_converse lib (db_response db) (Suc n) (searchFrom c es off h u s) =
      imap_converse lib (db_response db) n (resumeSearch lib c es off h u (RS_messages ?msgs) s)"
    by (simp add: searchFrom_def callBackend_def db_response_def Let_def e split: prod.split)
  show ?case
  proof (cases "off + ?b < length ?uids")
    case True
    then have l: "length ?batch = ?b" by simp
    have "hits = ?now @ filter ?f (zip [Suc (off + ?b)..<Suc (length ?uids)] (drop (off + ?b) ?uids))"
      using zip_batches [of ?b "drop off ?uids" off] True Suc.prems(3) l by (simp add: add.commute del: upt_Suc)
    then show ?thesis
      unfolding r using Suc.IH [OF True _ refl] Suc.prems(2) batch_positive [of "searchNeedsRaw (se_key c)"] True
      by (simp add: resumeSearch_def Let_def s del: upt_Suc)
  next
    case False
    then have "?batch = drop off ?uids" by simp
    then have now: "?now = hits" using Suc.prems by (simp del: upt_Suc)
    have "resumeSearch lib c es off h u (RS_messages ?msgs) s = (saveResult es (u @ map snd hits) s,
        searchReply (se_tag c) (se_uidMode c) es (h @ map (if se_uidMode c then snd else fst) hits) @ [completed (se_tag c) (se_verb c)])"
      unfolding resumeSearch_def Let_def imap_response.case s now using False by simp
    moreover have "imap_converse lib a k (t, acts) = (t, acts)" if "im_pending t = None" for a k t acts
      using that by (cases k) simp_all
    moreover have "im_pending (saveResult es w s) = None" for w using assms(2) by (simp add: saveResult_def split: option.split)
    ultimately show ?thesis unfolding r by simp
  qed
qed simp

lemma search_complete:
  assumes "\<And>u d. db u = Some d \<Longrightarrow> fd_uid d = u" "im_pending s = None" "im_selected s = Some v"
    "searchOptions cmd s = Some (es, crit)" "parseSearchProgram crit = Some (SP_ok key)" "length (vw_uids v) < n"
    "hits = searchAll lib db key (vw_uids v)"
  shows "imap_converse lib (db_response db) n (cmdSearch cmd uidMode s) =
    (saveResult es (map snd hits) s,
     searchReply (pc_tag cmd) uidMode es (map (if uidMode then snd else fst) hits) @ [completed (pc_tag cmd) (uidVerb uidMode ''SEARCH'')])"
proof (cases "vw_uids v = []")
  case True
  have "im_pending (saveResult es [] s) = None" using assms(2) by (simp add: saveResult_def split: option.split)
  then have "imap_converse lib a n (saveResult es [] s, acts) = (saveResult es [] s, acts)" for a acts by (cases n) simp_all
  then show ?thesis using True assms(3-5,7) by (simp add: cmdSearch_def searchAll_def)
next
  case False
  then show ?thesis
    using converse_search [OF assms(1,2), where off = 0 and n = n and hits = hits and lib = lib and es = es and h = "[]" and u = "[]" and c = "\<lparr>se_tag = pc_tag cmd, se_verb = uidVerb uidMode ''SEARCH'', se_uidMode = uidMode,
        se_name = vw_name v, se_key = key, se_uids = vw_uids v\<rparr>"] assms(3-)
    by (simp add: cmdSearch_def searchAll_def del: upt_Suc)
qed

end
