(* ===== verification/ImapOrder.thy ===== *)
theory ImapOrder
  imports ImapSearch "HOL-Library.Multiset"
begin

text \<open>
  Dates and orders: the text of INTERNALDATE is read back to the same second, and the comparators of SORT and
  THREAD order the messages, so that the sort they are given to returns every message once and in order.
\<close>

section \<open>INTERNALDATE\<close>

lemma show_nat_small: "n < 10 \<Longrightarrow> show_nat n = [char_of (48 + n)]"
  by (subst show_nat.simps) simp

lemma show_nat_step: "10 \<le> n \<Longrightarrow> show_nat n = show_nat (n div 10) @ [char_of (48 + n mod 10)]"
  by (subst show_nat.simps) simp

lemma digits_value_two: "m < 10 \<Longrightarrow> n < 10 \<Longrightarrow> digits_value [char_of (48 + m), char_of (48 + n)] = 10 * m + n"
  by (simp add: digits_value_def)

lemma pad_chars:
  assumes "n < 100"
  shows "pad (int n) = [char_of (48 + n div 10), char_of (48 + n mod 10)]"
proof (cases "n < 10")
  case True
  moreover have "CHR ''0'' = char_of (48 :: nat)" by code_simp
  ultimately show ?thesis by (simp add: pad_def padStart_def show_nat_small)
next
  case False
  with assms show ?thesis by (simp add: pad_def padStart_def show_nat_step show_nat_small)
qed

lemma pad_digits:
  assumes "0 \<le> n" "n < 100"
  obtains a b where "pad n = [a, b]" "is_digit a" "is_digit b" "int (digits_value [a, b]) = n"
proof -
  obtain m where m: "n = int m" using assms(1) nonneg_int_cases by blast
  then have "m < 100" using assms(2) by simp
  then have "int (digits_value [char_of (48 + m div 10), char_of (48 + m mod 10)]) = n"
    using digits_value_two [of "m div 10" "m mod 10"] by (simp add: m)
  then show ?thesis using that pad_chars [of m] \<open>m < 100\<close> is_digit_char_of [of "m div 10"] is_digit_char_of [of "m mod 10"] m by simp
qed

lemma year_digits:
  assumes "1000 \<le> y" "y \<le> 9999"
  obtains a b c d where "show_int y = [a, b, c, d]" "list_all is_digit [a, b, c, d]" "int (digits_value [a, b, c, d]) = y"
proof -
  let ?n = "nat y"
  have n: "1000 \<le> ?n" "?n \<le> 9999" using assms by simp_all
  then have "10 \<le> ?n" "10 \<le> ?n div 10" "10 \<le> ?n div 10 div 10" "?n div 10 div 10 div 10 < 10" by linarith+
  then have "length (show_nat ?n) = 4" by (simp only: show_nat_step show_nat_small length_append) simp
  then obtain a b c d where e: "show_nat ?n = [a, b, c, d]" by (auto simp: length_Suc_conv numeral_eq_Suc)
  then show ?thesis using that [of a b c d] show_nat_digits [of ?n] digits_value_show_nat [of ?n] assms by (simp add: show_int_def)
qed

lemma month_chars:
  assumes "m < 12"
  obtains a b c where "MONTHS ! m = [a, b, c]" "list_all is_alpha [a, b, c]" "monthIndex [a, b, c] = Some m"
proof -
  have "list_all (\<lambda>m. length (MONTHS ! m) = 3 \<and> list_all is_alpha (MONTHS ! m) \<and> monthIndex (MONTHS ! m) = Some m) [0..<12]"
    by code_simp
  then have m: "length (MONTHS ! m) = 3" "list_all is_alpha (MONTHS ! m)" "monthIndex (MONTHS ! m) = Some m"
    using assms by (simp_all add: list_all_iff)
  then obtain a b c where "MONTHS ! m = [a, b, c]" by (auto simp: length_Suc_conv numeral_eq_Suc)
  then show ?thesis using that m by simp
qed

lemma digits_not_sign: "is_digit c \<Longrightarrow> \<not> is_space c" "is_digit c \<Longrightarrow> c \<noteq> CHR ''-''"
  by (auto simp: is_digit_def is_space_def)

text \<open>A date is read from its digits.\<close>

lemma parse_date_chars:
  assumes "list_all is_digit [a, b, y1, y2, y3, y4, h1, h2, m1, m2, s1, s2]" "list_all is_alpha [x1, x2, x3]" "monthIndex [x1, x2, x3] = Some m"
  shows "parseImapDateTime ([a, b] @ ''-'' @ [x1, x2, x3] @ ''-'' @ [y1, y2, y3, y4] @ '' '' @ [h1, h2] @ '':'' @ [m1, m2] @ '':'' @ [s1, s2] @ '' +0000'') =
    Some (dateUTC (int (digits_value [y1, y2, y3, y4])) m (int (digits_value [a, b])) (int (digits_value [h1, h2]))
      (int (digits_value [m1, m2])) (int (digits_value [s1, s2])))"
proof -
  let ?r = "''-'' @ [x1, x2, x3] @ ''-'' @ [y1, y2, y3, y4] @ '' '' @ [h1, h2] @ '':'' @ [m1, m2] @ '':'' @ [s1, s2] @ '' +0000''"
  have d: "is_digit CHR ''0''" "\<not> is_digit CHR ''-''" by (simp_all add: is_digit_def)
  have "dropWhile is_space ([a, b] @ ?r) = [a, b] @ ?r" "takeWhile is_digit ([a, b] @ ?r) = [a, b]" "dropWhile is_digit ([a, b] @ ?r) = ?r"
    using assms(1) digits_not_sign(1) [of a] d by simp_all
  moreover have "list_all2 (\<lambda>p c. p c) DATE_TIME_TAIL ?r" using assms(1,2) d by (simp add: DATE_TIME_TAIL_def)
  moreover have "Prelude.slice 1 4 ?r = [x1, x2, x3]" "Prelude.slice 5 9 ?r = [y1, y2, y3, y4]" "Prelude.slice 10 12 ?r = [h1, h2]"
    "Prelude.slice 13 15 ?r = [m1, m2]" "Prelude.slice 16 18 ?r = [s1, s2]" "Prelude.slice 20 22 ?r = ''00''" "Prelude.slice 22 24 ?r = ''00''"
    by (simp_all add: Prelude.slice_def)
  moreover have "digits_value ''00'' = 0" by (simp add: digits_value_def)
  ultimately show ?thesis
    unfolding parseImapDateTime_def Let_def using assms(3) by (simp only: list.size) simp
qed

lemma time_parts:
  fixes r :: int
  shows "r div 3600000 * 3600000 + r div 60000 mod 60 * 60000 + r div 1000 mod 60 * 1000 = r - r mod 1000"
proof -
  have "r div 60000 div 60 = r div 3600000" "r div 1000 div 60 = r div 60000"
    by (simp_all add: zdiv_zmult2_eq [symmetric])
  then have "r div 60000 = r div 3600000 * 60 + r div 60000 mod 60" "r div 1000 = r div 60000 * 60 + r div 1000 mod 60"
    using div_mult_mod_eq [of "r div 60000" 60] div_mult_mod_eq [of "r div 1000" 60] by simp_all
  moreover have "r - r mod 1000 = r div 1000 * 1000" by (simp add: minus_mod_eq_div_mult)
  ultimately show ?thesis by simp
qed

lemma parse_date_parts:
  assumes "1000 \<le> yearFromDay d" "yearFromDay d \<le> 9999" "0 \<le> hh" "hh < 100" "0 \<le> mm" "mm < 100" "0 \<le> ss" "ss < 100"
  shows "parseImapDateTime (pad (dateFromDay d) @ ''-'' @ MONTHS ! monthFromDay d @ ''-'' @ show_int (yearFromDay d) @ '' '' @
      pad hh @ '':'' @ pad mm @ '':'' @ pad ss @ '' +0000'') = Some (d * msPerDay + hh * 3600000 + mm * 60000 + ss * 1000)"
proof -
  have md: "monthFromDay d < 12" "0 \<le> dateFromDay d" "dateFromDay d < 100" using month_date_bounds [of d] by simp_all
  obtain a b where a: "pad (dateFromDay d) = [a, b]" "is_digit a" "is_digit b" "int (digits_value [a, b]) = dateFromDay d"
    using pad_digits md(2,3) by blast
  obtain x1 x2 x3 where x: "MONTHS ! monthFromDay d = [x1, x2, x3]" "list_all is_alpha [x1, x2, x3]" "monthIndex [x1, x2, x3] = Some (monthFromDay d)"
    using month_chars [OF md(1)] by blast
  obtain y1 y2 y3 y4 where y: "show_int (yearFromDay d) = [y1, y2, y3, y4]" "list_all is_digit [y1, y2, y3, y4]" "int (digits_value [y1, y2, y3, y4]) = yearFromDay d"
    using year_digits [OF assms(1,2)] by blast
  obtain h1 h2 where h: "pad hh = [h1, h2]" "is_digit h1" "is_digit h2" "int (digits_value [h1, h2]) = hh"
    using pad_digits [OF assms(3,4)] by blast
  obtain m1 m2 where m: "pad mm = [m1, m2]" "is_digit m1" "is_digit m2" "int (digits_value [m1, m2]) = mm"
    using pad_digits [OF assms(5,6)] by blast
  obtain s1 s2 where s: "pad ss = [s1, s2]" "is_digit s1" "is_digit s2" "int (digits_value [s1, s2]) = ss"
    using pad_digits [OF assms(7,8)] by blast
  have "list_all is_digit [a, b, y1, y2, y3, y4, h1, h2, m1, m2, s1, s2]" using a y h m s by simp
  note p = parse_date_chars [OF this x(2,3)]
  have "\<not> (0 \<le> yearFromDay d \<and> yearFromDay d \<le> 99)" using assms(1) by simp
  from dateUTC_parts [OF this] show ?thesis
    unfolding a(1) x(1) y(1) h(1) m(1) s(1) p a(4) y(3) h(4) m(4) s(4) by simp
qed

lemma hour_bounds: "0 \<le> (r :: int) \<Longrightarrow> r < 24 * 3600000 \<Longrightarrow> 0 \<le> r div 3600000 \<and> r div 3600000 < 24"
  using zdiv_mono1 [of r "24 * 3600000 - 1" 3600000] by (simp add: pos_imp_zdiv_nonneg_iff)

lemma format_parse_date:
  assumes "1000 \<le> yearFromDay (ms div msPerDay)" "yearFromDay (ms div msPerDay) \<le> 9999"
  shows "parseImapDateTime (formatInternalDate ms) = Some (ms - ms mod 1000)"
proof -
  define d where "d = ms div msPerDay"
  define r where "r = ms mod msPerDay"
  have r: "0 \<le> r" "r < 24 * 3600000" unfolding r_def msPerDay_def by (rule pos_mod_sign, simp, rule order_less_le_trans [OF pos_mod_bound]) simp_all
  have h: "0 \<le> r div 3600000" "r div 3600000 < 100" using hour_bounds [OF r] by (simp, linarith)
  have q: "0 \<le> k mod 60" "k mod 60 < 100" for k :: int using pos_mod_bound [of 60 k] by simp_all
  have "parseImapDateTime (formatInternalDate ms) =
      Some (d * msPerDay + r div 3600000 * 3600000 + r div 60000 mod 60 * 60000 + r div 1000 mod 60 * 1000)"
    unfolding formatInternalDate_def Let_def d_def [symmetric] r_def [symmetric]
    by (rule parse_date_parts [OF assms [folded d_def] h q q])
  also have "\<dots> = Some (d * msPerDay + (r - r mod 1000))"
    unfolding time_parts [symmetric] by (simp only: add.assoc)
  also have "r mod 1000 = ms mod 1000" unfolding r_def msPerDay_def by (rule mod_mod_cancel) simp
  also have "d * msPerDay + (r - ms mod 1000) = ms - ms mod 1000"
    unfolding d_def r_def using div_mult_mod_eq [of ms msPerDay] by (simp only: add_diff_eq)
  finally show ?thesis .
qed

section \<open>Sorting\<close>

text \<open>
  What \<open>Array.prototype.sort\<close> asks of a comparator: two calls with the arguments exchanged disagree in sign, and
  ``not after'' is transitive.
\<close>

locale comparator =
  fixes cmp :: "'a \<Rightarrow> 'a \<Rightarrow> int"
  assumes cmp_sign: "cmp x y \<le> 0 \<longleftrightarrow> 0 \<le> cmp y x"
    and cmp_trans: "cmp x y \<le> 0 \<Longrightarrow> cmp y z \<le> 0 \<Longrightarrow> cmp x z \<le> 0"
begin

lemma insert_set: "set (insertBy cmp x ys) = insert x (set ys)"
  by (induction ys) auto

lemma insert_sorted: "sorted_wrt (\<lambda>a b. cmp a b \<le> 0) ys \<Longrightarrow> sorted_wrt (\<lambda>a b. cmp a b \<le> 0) (insertBy cmp x ys)"
proof (induction ys)
  case (Cons y ys)
  then show ?case using cmp_trans [of x y] cmp_sign [of y x] by (auto simp: insert_set)
qed simp

lemma sort_sorted: "sorted_wrt (\<lambda>a b. cmp a b \<le> 0) (jsSort cmp xs)"
  unfolding jsSort_def by (induction xs) (auto intro: insert_sorted)

lemma cmp_eq: "cmp x y = 0 \<Longrightarrow> cmp x z \<le> 0 \<longleftrightarrow> cmp y z \<le> 0" "cmp x y = 0 \<Longrightarrow> cmp z x \<le> 0 \<longleftrightarrow> cmp z y \<le> 0"
  using cmp_trans cmp_sign by (metis order_refl)+

end

lemma jsSort_mset: "mset (jsSort cmp xs) = mset xs"
proof -
  have "mset (insertBy cmp x ys) = add_mset x (mset ys)" for x ys by (induction ys) auto
  then show ?thesis unfolding jsSort_def by (induction xs) auto
qed

text \<open>A comparator that leaves ties to another, one that goes by a number, and one that goes the other way.\<close>

lemma comparator_by: "comparator (\<lambda>x y. f x - f y)"
  by unfold_locales auto

lemma comparator_on: "comparator cmp \<Longrightarrow> comparator (\<lambda>x y. cmp (f x) (f y))"
  unfolding comparator_def by blast

lemma comparator_reverse: "comparator cmp \<Longrightarrow> comparator (\<lambda>x y. - cmp x y)"
  unfolding comparator_def by (metis neg_le_0_iff_le neg_0_le_iff_le)

lemma comparator_then:
  assumes "comparator f" "comparator g"
  shows "comparator (\<lambda>x y. if f x y \<noteq> 0 then f x y else g x y)"
proof (rule comparator.intro)
  note s = comparator.cmp_sign [OF assms(1)] comparator.cmp_sign [OF assms(2)]
  have z: "f x y = 0 \<longleftrightarrow> f y x = 0" for x y using s(1) [of x y] s(1) [of y x] by auto
  show "(if f x y \<noteq> 0 then f x y else g x y) \<le> 0 \<longleftrightarrow> 0 \<le> (if f y x \<noteq> 0 then f y x else g y x)" for x y
    using s [of x y] z [of x y] by simp
  show "(if f x z \<noteq> 0 then f x z else g x z) \<le> 0"
    if "(if f x y \<noteq> 0 then f x y else g x y) \<le> 0" "(if f y z \<noteq> 0 then f y z else g y z) \<le> 0" for x y z
  proof -
    have le: "f x y \<le> 0" "f y z \<le> 0" using that by (auto split: if_splits)
    then have xz: "f x z \<le> 0" using comparator.cmp_trans [OF assms(1)] by blast
    moreover have "g x z \<le> 0" if zero: "f x z = 0"
    proof -
      have "f z x \<le> 0" using zero z [of x z] by simp
      then have "f z y \<le> 0" "f y x \<le> 0" using comparator.cmp_trans [OF assms(1)] le by blast+
      then have "f x y = 0" "f y z = 0" using le s(1) [of y x] s(1) [of z y] s(1) by (meson order_antisym)+
      then show ?thesis using \<open>(if f x y \<noteq> 0 then f x y else g x y) \<le> 0\<close> \<open>(if f y z \<noteq> 0 then f y z else g y z) \<le> 0\<close>
          comparator.cmp_trans [OF assms(2), of x y z] by simp
    qed
    ultimately show ?thesis by simp
  qed
qed

lemma cmpStr_swap: "cmpStr a b = - cmpStr b a"
  by (induction a b rule: cmpStr.induct) auto

lemma cmpStr_trans: "cmpStr a b \<le> 0 \<Longrightarrow> cmpStr b d \<le> 0 \<Longrightarrow> cmpStr a d \<le> 0"
proof (induction a b arbitrary: d rule: cmpStr.induct)
  case (2 b bs)
  then show ?case by (cases d) auto
next
  case (4 a as b bs)
  then obtain x xs where d: "d = x # xs" by (cases d) auto
  show ?case
  proof (cases "code a < code x")
    case False
    have "code a \<le> code b" "code b \<le> code x" using 4(2,3) d by (auto simp: not_less split: if_splits)
    with False have c: "\<not> code a < code b" "\<not> code b < code a" "\<not> code b < code x" "\<not> code x < code b" "\<not> code x < code a"
      by linarith+
    then have "cmpStr as bs \<le> 0" "cmpStr bs xs \<le> 0" using 4(2,3) d by simp_all
    then show ?thesis using 4(1) [of xs] c False d by simp
  qed (simp add: d)
qed auto

interpretation strings: comparator cmpStr
proof
  show "cmpStr x y \<le> 0 \<longleftrightarrow> 0 \<le> cmpStr y x" for x y by (simp add: cmpStr_swap [of x y])
qed (rule cmpStr_trans)

lemma comparator_cmpBy: "comparator (cmpBy meta key)"
proof -
  have c: "comparator (cmpBy meta k)" if "cmpBy meta k = (\<lambda>x y. cmpStr (f x) (f y))" for k f
    unfolding that by (rule comparator_on [OF strings.comparator_axioms])
  have n: "comparator (cmpBy meta k)" if "cmpBy meta k = (\<lambda>x y. f x - f y)" for k f
    unfolding that by (rule comparator_by)
  show ?thesis
  proof (cases key)
    case ARRIVAL
    then show ?thesis using n [of ARRIVAL "metaDate meta"] by (simp add: fun_eq_iff)
  next
    case CC
    then show ?thesis using c [of CC "\<lambda>x. so_cc (si_keys x)"] by (simp add: fun_eq_iff)
  next
    case DATE
    then show ?thesis using n [of DATE "sentOrArrived meta"] by (simp add: fun_eq_iff)
  next
    case FROM
    then show ?thesis using c [of FROM "\<lambda>x. so_from (si_keys x)"] by (simp add: fun_eq_iff)
  next
    case SIZE
    then show ?thesis using n [of SIZE "metaSize meta"] by (simp add: fun_eq_iff)
  next
    case SUBJECT
    then show ?thesis using c [of SUBJECT "\<lambda>x. so_subjectBase (si_keys x)"] by (simp add: fun_eq_iff)
  next
    case TO
    then show ?thesis using c [of TO "\<lambda>x. so_to (si_keys x)"] by (simp add: fun_eq_iff)
  qed
qed

interpretation specs: comparator "cmpSpecs meta spec" for meta spec
proof (induction spec)
  case Nil
  have "cmpSpecs meta [] = (\<lambda>x y. int (si_seq x) - int (si_seq y))" by (intro ext) simp
  then show ?case using comparator_by [of "\<lambda>x. int (si_seq x)"] by simp
next
  case (Cons s spec)
  let ?c = "\<lambda>x y. if sp_reverse s then - cmpBy meta (sp_key s) x y else cmpBy meta (sp_key s) x y"
  have "comparator ?c" using comparator_cmpBy comparator_reverse [OF comparator_cmpBy] by (cases "sp_reverse s") simp_all
  then have "comparator (\<lambda>x y. if ?c x y \<noteq> 0 then ?c x y else cmpSpecs meta spec x y)" by (rule comparator_then [OF _ Cons])
  moreover have "cmpSpecs meta (s # spec) = (\<lambda>x y. if ?c x y \<noteq> 0 then ?c x y else cmpSpecs meta spec x y)"
    by (intro ext) (simp add: Let_def)
  ultimately show ?case by simp
qed

interpretation sent: comparator cmpSent
proof -
  have e: "cmpSent = (\<lambda>x y. if so_sentAtMs (si_keys x) - so_sentAtMs (si_keys y) \<noteq> 0 then so_sentAtMs (si_keys x) - so_sentAtMs (si_keys y)
      else int (si_seq x) - int (si_seq y))"
    by (intro ext) (simp add: cmpSent_def Let_def)
  show "comparator cmpSent" unfolding e by (rule comparator_then [OF comparator_by comparator_by])
qed

section \<open>Threads\<close>

lemma groupAdd_mset: "mset (concat (map snd (groupAdd h gs))) = add_mset h (mset (concat (map snd gs)))"
  by (induction h gs rule: groupAdd.induct) auto

lemma groups_mset: "mset (concat (map snd (fold groupAdd hits gs))) = mset (concat (map snd gs)) + mset hits"
  by (induction hits arbitrary: gs) (auto simp: groupAdd_mset)

lemma mset_concat_cong: "mset xs = mset ys \<Longrightarrow> mset (concat xs) = mset (concat ys)"
  by (simp add: mset_concat) (metis mset_map sum_mset_sum_list)

text \<open>Every message of a thread has the key of the thread.\<close>

definition keyed :: "(string \<times> sort_item list) list \<Rightarrow> bool" where
  "keyed gs \<longleftrightarrow> distinct (map fst gs) \<and> (\<forall>(k, g) \<in> set gs. \<forall>h \<in> set g. threadKey h = k)"

lemma groupAdd_keys: "set (map fst (groupAdd h gs)) = insert (threadKey h) (set (map fst gs))"
  by (induction h gs rule: groupAdd.induct) auto

lemma groupAdd_keyed: "keyed gs \<Longrightarrow> keyed (groupAdd h gs)"
proof (induction h gs rule: groupAdd.induct)
  case (2 h k g gs)
  have "fst ` set (groupAdd h gs) = insert (threadKey h) (fst ` set gs)" using groupAdd_keys [of h gs] by simp
  then show ?case using 2 by (auto simp: keyed_def)
qed (simp add: keyed_def)

lemma groups_keyed: "keyed (fold groupAdd hits [])"
proof -
  have "keyed gs \<Longrightarrow> keyed (fold groupAdd hits gs)" for gs by (induction hits arbitrary: gs) (auto intro: groupAdd_keyed)
  from this [of "[]"] show ?thesis by (simp add: keyed_def)
qed

lemma threads_mset: "mset (concat (threadGroups hits alg)) = mset hits"
proof -
  let ?gs = "fold groupAdd hits []"
  have "mset (concat (map (\<lambda>(k, g). jsSort cmpSent g) gs)) = mset (concat (map snd gs))" for gs :: "(string \<times> sort_item list) list"
    by (induction gs) (auto simp: jsSort_mset)
  then show ?thesis
    using mset_concat_cong [OF jsSort_mset, of "cmpThreads alg" "map (\<lambda>(k, g). jsSort cmpSent g) ?gs"] groups_mset [of hits "[]"]
    by (simp add: threadGroups_def)
qed

lemma thread_together:
  assumes "g \<in> set (threadGroups hits alg)"
  shows "sorted_wrt (\<lambda>a b. cmpSent a b \<le> 0) g \<and> (\<exists>k. set g = {h \<in> set hits. threadKey h = k})"
proof -
  let ?gs = "fold groupAdd hits []"
  have "set (threadGroups hits alg) = set (map (\<lambda>(k, g). jsSort cmpSent g) ?gs)"
    unfolding threadGroups_def by (metis jsSort_mset set_mset_mset)
  then obtain k m where m: "(k, m) \<in> set ?gs" "g = jsSort cmpSent m" using assms by auto
  have s: "set g = set m" using m(2) by (metis jsSort_mset set_mset_mset)
  have all: "set hits = (\<Union>(k, g) \<in> set ?gs. set g)"
  proof -
    have "set (concat (map snd ?gs)) = set hits" using groups_mset [of hits "[]"] by (metis add_0 concat.simps(1) list.map(1) mset.simps(1) set_mset_mset)
    then show ?thesis by force
  qed
  have k: "distinct (map fst ?gs)" "(k1, g1) \<in> set ?gs \<Longrightarrow> h \<in> set g1 \<Longrightarrow> threadKey h = k1" for k1 g1 h
    using groups_keyed [of hits] by (auto simp: keyed_def)
  have "h \<in> set m \<longleftrightarrow> h \<in> set hits \<and> threadKey h = k" for h
  proof
    assume "h \<in> set m"
    then show "h \<in> set hits \<and> threadKey h = k" using all m(1) k(2) by blast
  next
    assume a: "h \<in> set hits \<and> threadKey h = k"
    then obtain k1 g1 where g: "(k1, g1) \<in> set ?gs" "h \<in> set g1" using all by auto
    then have "k1 = k" using k(2) a by blast
    then show "h \<in> set m" using g m(1) eq_key_imp_eq_value [OF k(1)] by blast
  qed
  then show ?thesis using sent.sort_sorted m(2) s by blast
qed

end
