(* ===== verification/ImapTheorems.thy ===== *)
theory ImapTheorems
  imports ImapAnswers ImapOrder
begin

text \<open>The properties of the IMAP engine, each with a run in which its hypotheses hold.\<close>

section \<open>A demonstration\<close>

fun imap_play :: "mime_lib \<Rightarrow> crypto \<Rightarrow> imap_options \<Rightarrow> imap_input list \<Rightarrow> imap \<times> imap_log list \<Rightarrow> (imap \<times> imap_log list) option" where
  "imap_play lib c opt [] r = Some r"
| "imap_play lib c opt (i # ins) (s, h) =
     (case imap_call lib c opt (\<lambda>n. ''nonce'') i s of
        Inl e \<Rightarrow> None
      | Inr (s1, out) \<Rightarrow> imap_play lib c opt ins (s1, h @ ImIn i # map ImOut out))"

lemma imap_play_session:
  "imap_session lib c opt s h \<Longrightarrow> imap_play lib c opt ins (s, h) = Some (s1, h1) \<Longrightarrow> imap_session lib c opt s1 h1"
proof (induction lib c opt ins "(s, h)" arbitrary: s h rule: imap_play.induct)
  case (2 lib c opt i ins s h)
  then obtain s2 out where o: "imap_call lib c opt (\<lambda>n. ''nonce'') i s = Inr (s2, out)"
    by (cases "imap_call lib c opt (\<lambda>n. ''nonce'') i s") auto
  from im_call [OF 2(2) o] show ?case using 2(1) [OF o refl] 2(3) o by simp
qed simp

definition demo_lib :: mime_lib where
  "demo_lib =
     \<lparr>ml_parseMessage = (\<lambda>raw. \<lparr>pm_headers = [], pm_subject = None, pm_messageId = None, pm_sentAt = None, pm_from = [], pm_to = [],
        pm_cc = [], pm_bcc = [], pm_replyTo = [], pm_sender = []\<rparr>),
      ml_parseStructure = (\<lambda>raw. MimePart 0 0 (length raw) ''text'' ''plain'' [] None None ''7bit'' None (length raw) 1 []),
      ml_base64Decode = (\<lambda>b. b), ml_quotedPrintableDecode = (\<lambda>b. b)\<rparr>"

definition imap_demo_options :: imap_options where
  "imap_demo_options =
     \<lparr>io_hostname = ''mx'', io_secure = True, io_allowInsecureAuth = False, io_tlsAvailable = True, io_scramOffered = True,
      io_scramDecoySecret = ''decoy'', io_maxLineBytes = None, io_maxLiteralBytes = None\<rparr>"

definition line :: "string \<Rightarrow> imap_input" where
  "line t = Im_feed (t @ CRLF)"

definition demo_mailbox :: imap_mailbox where
  "demo_mailbox =
     \<lparr>mb_name = ''INBOX'', mb_role = Some ''inbox'', mb_subscribed = None, mb_uidvalidity = 7, mb_uidnext = 30, mb_highestmodseq = 5,
      mb_totalCount = 3, mb_unreadCount = 1, mb_totalBytes = 900, mb_mailboxId = None, mb_deletedCount = None, mb_deletedBytes = None,
      mb_readable = None\<rparr>"

definition demo_inputs :: "imap_input list" where
  "demo_inputs =
     [line ''a LOGIN ann pw'', Im_auth True, line ''b SELECT INBOX'', Im_backend (RS_selected demo_mailbox [10, 20, 25] None None)]"

definition demo_state :: imap where
  "demo_state = fst (the (imap_play demo_lib toy_crypto imap_demo_options demo_inputs (imap_new imap_demo_options, [])))"

definition demo_log :: "imap_log list" where
  "demo_log = snd (the (imap_play demo_lib toy_crypto imap_demo_options demo_inputs (imap_new imap_demo_options, [])))"

definition demo_view :: selected_view where
  "demo_view = the (im_selected demo_state)"

lemma imap_demo_session: "imap_session demo_lib toy_crypto imap_demo_options demo_state demo_log"
proof -
  let ?p = "imap_play demo_lib toy_crypto imap_demo_options demo_inputs (imap_new imap_demo_options, [])"
  have "?p \<noteq> None" by code_simp
  then have "?p = Some (demo_state, demo_log)" by (auto simp: demo_state_def demo_log_def)
  then show ?thesis by (rule imap_play_session [OF im_start])
qed

lemma demo_facts:
  "im_pending demo_state = None" "im_idleTag demo_state = None" "im_state demo_state = Selected" "im_enabled demo_state = []"
  "vw_uids demo_view = [10, 20, 25]"
  by code_simp+

lemma demo_selected: "im_selected demo_state = Some demo_view"
proof -
  have "im_selected demo_state \<noteq> None" by code_simp
  then show ?thesis by (simp add: demo_view_def)
qed

section \<open>Safety\<close>

text \<open>C14: In every session of the IMAP engine, whatever the client sends and in whatever order the server calls the
  methods, each action in the log is one that the log before it allows: a mailbox is reached and compression is
  started only after an authentication was granted; a credential is checked only before that, and only on a line that
  was secure from the start, has become secure by STARTTLS, or on which the administrator allows plain text; and
  STARTTLS is begun only on a line that is not secure.\<close>

theorem imap_session_gated:
  assumes "imap_session lib c opt s h" "h = pre @ ImOut a # post"
  shows "gate opt (ImIn (Im_auth True) \<in> set pre) (io_secure opt \<or> ImIn Im_tls \<in> set pre) a"
  using session_gate [OF assms] .

theorem imap_session_gated_witness:
  "\<exists>pre post. demo_log = pre @ ImOut (IA_backend (RQ_selectMailbox ''INBOX'')) # post \<and> ImIn (Im_auth True) \<in> set pre"
proof -
  have "ImOut (IA_backend (RQ_selectMailbox ''INBOX'')) \<in> set demo_log" by code_simp
  then obtain pre post where "demo_log = pre @ ImOut (IA_backend (RQ_selectMailbox ''INBOX'')) # post" by (meson split_list)
  with imap_session_gated [OF imap_demo_session this] show ?thesis by auto
qed

text \<open>C19: In every session the requests to the backend and its responses alternate: no request is made while one is
  out, no response is taken while none is, and the engine is in the state of waiting for the backend exactly when a
  request is out.\<close>

theorem imap_requests_alternate:
  assumes "imap_session lib c opt s h"
  shows "fold log_turn h (Some False) = Some (waits s)"
  by (rule session_turns [OF assms])

theorem imap_requests_alternate_witness: "fold log_turn demo_log (Some False) = Some False"
  using imap_requests_alternate [OF imap_demo_session] demo_facts(1) by (simp add: waits_def)

text \<open>C20: In every session the lines that are kept while a request is out have at most 1 MiB together, and the counter
  by which this is decided is exactly their size.\<close>

theorem imap_queue_bounded:
  assumes "imap_session lib c opt s h"
  shows "im_queuedBytes s = sum_list (map lineBytes (im_queued s)) \<and> sum_list (map lineBytes (im_queued s)) \<le> 1024 * 1024"
  using session_inv [OF assms] by (simp add: imap_inv_def queue_ok_def MAX_QUEUED_LINE_BYTES_def)

theorem imap_queue_bounded_witness: "sum_list (map lineBytes (im_queued demo_state)) \<le> 1024 * 1024"
  using imap_queue_bounded [OF imap_demo_session] by simp


lemma request_ok_pending [simp]: "request_ok (s\<lparr>im_pending := p\<rparr>) r = request_ok s r"
  by (cases r) (simp_all add: on_view_def)





section \<open>Commands\<close>





text \<open>C17: A SEARCH finds what it should. With a backend that answers each request for messages from its store, and sends
  the text of a message only when it is asked for it, the search that goes through the view in batches of 32 or 512
  messages, and that asks for no text when its criteria need none, gives the reply, and saves the result, of one pass
  that evaluates the criteria on every whole message of the view.\<close>

theorem imap_search_in_batches:
  assumes "\<forall>u d. db u = Some d \<longrightarrow> fd_uid d = u" "im_pending s = None" "im_selected s = Some v"
    and "searchOptions cmd s = Some (es, crit)" "parseSearchProgram crit = Some (SP_ok key)" "length (vw_uids v) < n"
    and "hits = searchAll lib db key (vw_uids v)"
  shows "imap_converse lib (db_response db) n (cmdSearch cmd uidMode s) =
    (saveResult es (map snd hits) s,
     searchReply (pc_tag cmd) uidMode es (map (if uidMode then snd else fst) hits) @ [completed (pc_tag cmd) (uidVerb uidMode ''SEARCH'')])"
  using search_complete [OF _ assms(2-7)] assms(1) by blast

definition demo_db :: "nat \<Rightarrow> fetch_data option" where
  "demo_db u =
     (if u \<le> 25
      then Some \<lparr>fd_uid = u, fd_emailId = None, fd_threadId = None, fd_flags = [], fd_internalDateMs = 0, fd_saveDateMs = None,
                 fd_size = 10 * u, fd_modseq = 1, fd_raw = Some ''Subject: x'', fd_sortKeys = None\<rparr>
      else None)"

definition demo_search :: parsed_command where
  "demo_search = \<lparr>pc_tag = ''c'', pc_name = ''SEARCH'', pc_args = [V_atom ''LARGER'', V_atom ''150'']\<rparr>"

theorem imap_search_in_batches_witness:
  "imap_converse demo_lib (db_response demo_db) 4 (cmdSearch demo_search True demo_state) =
   (demo_state, [starReply ''SEARCH 20 25'', tagReply ''c'' ''OK'' ''UID SEARCH completed''])"
proof -
  have "searchOptions demo_search demo_state = Some (None, pc_args demo_search)"
    using demo_facts(4) by (simp add: searchOptions_def demo_search_def)
  moreover have "parseSearchProgram (pc_args demo_search) = Some (SP_ok (SK_larger 150))" by code_simp
  moreover have "\<forall>u d. demo_db u = Some d \<longrightarrow> fd_uid d = u" by (simp add: demo_db_def)
  moreover have "searchAll demo_lib demo_db (SK_larger 150) (vw_uids demo_view) = [(2, 20), (3, 25)]"
    unfolding demo_facts(5) by code_simp
  moreover have "searchReply ''c'' True None [20, 25] @ [completed ''c'' (uidVerb True ''SEARCH'')] =
      [starReply ''SEARCH 20 25'', tagReply ''c'' ''OK'' ''UID SEARCH completed'']" by code_simp
  ultimately show ?thesis
    using imap_search_in_batches [of demo_db demo_state demo_view demo_search None "pc_args demo_search" "SK_larger 150" 4
        "[(2, 20), (3, 25)]" demo_lib True] demo_facts(1,5) demo_selected
    by (simp add: saveResult_def demo_search_def)
qed

section \<open>The view\<close>



text \<open>C21: \<open>$\<close> means the messages that the last SEARCH saved. Whatever has been expunged since, and whether the command
  takes numbers or UIDs, the set \<open>$\<close> names exactly the messages of the view whose UIDs were saved, each with its present
  number.\<close>

theorem imap_saved_search:
  assumes "im_selected s = Some v" "distinct (vw_uids v)"
  shows "\<exists>ranges. resolveSetArg ''$'' uidMode s = Some ranges \<and>
    resolveTargets ranges uidMode s =
      filter (\<lambda>(seq, uid). uid \<in> set (im_savedSearch s)) (zip [1..<Suc (length (vw_uids v))] (vw_uids v))"
  using saved_targets [OF assms] .

theorem imap_saved_search_witness:
  "\<exists>ranges. resolveSetArg ''$'' False (demo_state\<lparr>im_savedSearch := [15, 25]\<rparr>) = Some ranges \<and>
     resolveTargets ranges False (demo_state\<lparr>im_savedSearch := [15, 25]\<rparr>) = [(3, 25)]"
proof -
  have "distinct (vw_uids demo_view)" "filter (\<lambda>(seq, uid). uid \<in> set [15, 25]) (zip [1..<Suc (length (vw_uids demo_view))] (vw_uids demo_view)) = [(3, 25)]"
    unfolding demo_facts(5) by code_simp+
  then show ?thesis
    using imap_saved_search [of "demo_state\<lparr>im_savedSearch := [15, 25]\<rparr>" demo_view False] demo_selected by simp
qed

text \<open>C32: The date of a message survives a copy by APPEND: what FETCH prints as INTERNALDATE is read back as the same
  time, to the second, for the years that the grammar's four digits can express.\<close>

theorem imap_date_roundtrip:
  assumes "1000 \<le> yearFromDay (ms div msPerDay)" "yearFromDay (ms div msPerDay) \<le> 9999"
  shows "parseImapDateTime (formatInternalDate ms) = Some (ms - ms mod 1000)"
  using format_parse_date [OF assms] .

theorem imap_date_roundtrip_witness: "parseImapDateTime (formatInternalDate 951825599999) = Some 951825599000"
proof -
  have "yearFromDay (951825599999 div msPerDay) = 2000" by code_simp
  then show ?thesis using imap_date_roundtrip [of 951825599999] by simp
qed


section \<open>Divergences\<close>




end
