(* ===== verification/Spec2Isabelle.thy ===== *)
theory Spec2Isabelle
  imports Glob SmtpContent LmtpSession Pop3Content SequenceSet MailboxRights Ulid ImapParser RegexMatch
    ManageSieveWire SieveTheorems ThrottleKeys ImapTheorems
begin

text \<open>
  \<^bold>\<open>Verification of the ionosphere mail server.\<close>

  The server (TypeScript, \<open>src/packages\<close> and \<open>src/apps/server\<close>) puts each protocol into a pure engine: a
  class that eats bytes and the answers of the backend and returns actions, with no input or output of
  its own. The adapters (\<open>server.ts\<close> of each protocol) connect the engines to sockets, TLS and the
  database. The engines and the pure algorithms they rest on are what this development models.

  \<^bold>\<open>Theories and sources.\<close>

    \<^item> \<open>Prelude\<close>: the JavaScript string operations the sources use, and the lemmas on lists and numbers
      that the components share. \<open>Limits\<close>: \<open>core/src/limits.ts\<close>.
    \<^item> \<open>LineEngine\<close>: the contract of the engines' parser loops, as the locales \<open>line_loop\<close> and
      \<open>line_invariant\<close>; interpreted for LMTP, POP3, ManageSieve and the IMAP reader.
    \<^item> \<open>Glob\<close>: \<open>core/src/glob.ts\<close> and \<open>proto-imap/src/list-match.ts\<close>. The matcher decides the language of
      the pattern; the captures are the greedy ones.
    \<^item> \<open>RegexSyntax\<close>, \<open>RegexProgram\<close>, \<open>RegexMatch\<close>: \<open>core/src/regex.ts\<close>. The parser ends on
      every pattern, and the virtual machine decides whether the pattern matches somewhere in the input.
    \<^item> \<open>Sasl\<close>, \<open>Scram\<close>: \<open>core/src/sasl.ts\<close>, \<open>scram.ts\<close> and \<open>scram-session.ts\<close>. Payload parsers and the
      SCRAM-SHA-256 server session: an honest client succeeds, success needs the key.
    \<^item> \<open>SmtpParse\<close>, \<open>SmtpEngine\<close>: \<open>proto-smtp/src/engine.ts\<close>, one definition per handler. \<open>SmtpSession\<close>:
      sessions as sequences of calls and their invariants, through the locales \<open>smtp_invariant\<close> and
      \<open>pump_relation\<close>. \<open>SmtpContent\<close>: what DATA and BDAT deliver. \<open>DotStuffing\<close>: the wire form of message
      content, shared by SMTP, LMTP and POP3.
    \<^item> \<open>LmtpEngine\<close>, \<open>LmtpSession\<close>: \<open>proto-lmtp/src/engine.ts\<close>, with the locale \<open>lmtp_invariant\<close>.
    \<^item> \<open>Pop3Engine\<close>, \<open>Pop3Session\<close>, \<open>Pop3Content\<close>: \<open>proto-pop3/src/engine.ts\<close>, with the locale
      \<open>pop3_invariant\<close>, the abstract maildrop of RFC 1939 and the refinement to it.
    \<^item> \<open>ImapReader\<close>, \<open>ImapParser\<close>, \<open>SequenceSet\<close>: \<open>proto-imap/src/reader.ts\<close>, \<open>parser.ts\<close> and
      \<open>sequence-set.ts\<close>. Lines with literals, commands and sequence sets are read back from the wire form
      that a client writes.
    \<^item> \<open>ManageSieve\<close>, \<open>ManageSieveSession\<close>, \<open>ManageSieveTls\<close>, \<open>ManageSieveWire\<close>:
      \<open>proto-managesieve/src/engine.ts\<close> over the IMAP reader, with the locale \<open>ms_contract\<close>. Access control,
      the order of requests and answers, the TLS upgrade, and what \<open>PUTSCRIPT\<close> hands over.
    \<^item> \<open>SieveLexer\<close>, \<open>SieveParser\<close>, \<open>SievePrint\<close>: \<open>sieve/src/lexer.ts\<close>, \<open>parser.ts\<close> and \<open>ast.ts\<close>. A printed
      script is parsed back. \<open>SieveVars\<close>, \<open>SieveRun\<close>, \<open>SieveTheorems\<close>: \<open>variables.ts\<close>, \<open>date-parts.ts\<close> and
      \<open>interpret.ts\<close> over the glob and regular expression engines, with the locale \<open>exec_invariant\<close>. Every
      script ends, and without \<open>discard\<close> no message is lost.
    \<^item> \<open>AuthThrottle\<close>, \<open>ThrottleSafety\<close>, \<open>ThrottleKeys\<close>: \<open>core/src/auth-throttle.ts\<close>, its methods cut at their waits
      for the shared store. Runs are interleavings of the parts; failures are never forgotten early, locks
      end, and addresses are counted by network.
    \<^item> \<open>MailboxRights\<close>, \<open>Ulid\<close>: \<open>core/src/rights.ts\<close> and \<open>ulid.ts\<close>.

  \<^bold>\<open>How the code is translated.\<close> A class is a record and a method a function from the state to the new
  state and its actions; a thrown error is \<open>Inl\<close>; an index that JavaScript reports as \<open>-1\<close> is \<open>None\<close>. A
  session is a sequence of calls: bytes in any segmentation, and answers of the backend in any order.
  The parser loops are total functions with a measure. Recursive descent takes fuel, which is shown to be
  enough for every input (\<open>imap_parser_total\<close>, \<open>parsePattern_total\<close>, \<open>parseSieve_not_None\<close>). Nested Sieve
  includes take fuel \<open>MAX_INCLUDE_DEPTH + 1\<close>, one more than the code allows (\<open>sieve_total\<close>).

  \<^bold>\<open>Bounds of the model.\<close> Strings have code units up to \<open>0xFF\<close>, so that bytes and text are the same
  lists; \<open>TextDecoder\<close> and \<open>TextEncoder\<close> are the identity, which is exact on ASCII. Counters and sizes are
  natural numbers. HMAC, SHA-256, PBKDF2, SASLprep and lenient base64 are parameters (the record
  \<open>crypto\<close>); a comparison in constant time is equality. The random bytes a call draws are its argument.

  \<^bold>\<open>Not modelled.\<close> The adapters, the HTTP services, the database layer and the message store are I/O
  and SQL; they are outside. Still to be modelled among the pure parts: the IMAP engine, SPF, DMARC and
  DKIM canonicalisation, the DNS wire format, MIME and the retry schedule of the outbound
  queue.
\<close>

end
